(* ===== verification/Prelude.thy ===== *)
theory Prelude
  imports Main "HOL-Library.Word" "HOL-Library.Monad_Syntax"
begin

text \<open>
  Shared vocabulary of the development: the machine integers of the 32-bit build
  (\<^verbatim>\<open>i686-elf-gcc\<close>), the flat physical memory, array accesses that can fault, the error
  numbers of \<^verbatim>\<open>src/src/status.h\<close>, and generic lemmas on lists, options and words.

  Conventions used by every component theory:
  \<^item> \<^verbatim>\<open>uint8_t\<close>, \<^verbatim>\<open>uint16_t\<close>, \<^verbatim>\<open>uint32_t\<close>, \<^verbatim>\<open>size_t\<close>, \<^verbatim>\<open>uintptr_t\<close> are words of their
    width, so that \<open>+\<close>, \<open>-\<close> and \<open>*\<close> wrap as in C;
  \<^item> \<^verbatim>\<open>int32_t\<close> is \<open>int\<close>; arithmetic that can leave the range is passed through
    \<open>i32\<close>, the two's complement wrap-around of the compiled code;
  \<^item> the value \<open>None\<close> of an \<open>option\<close> result means that the C function has undefined
    behaviour (an access outside an array, a null dereference) or does not return;
    error codes such as \<^verbatim>\<open>-EIO\<close> are ordinary return values;
  \<^item> a pointer that may be \<^verbatim>\<open>NULL\<close> is an \<open>option\<close>, with \<open>None\<close> for \<^verbatim>\<open>NULL\<close>.
\<close>

unbundle bit_operations_syntax

named_theorems heap_simps "facts about the store of linked nodes"
named_theorems arr_simps "facts about checked array accesses"

type_synonym u8 = "8 word"
type_synonym u16 = "16 word"
type_synonym u32 = "32 word"
type_synonym u64 = "64 word"

text \<open>The flat physical memory, one byte per address (paging is off).\<close>

type_synonym memory = "u32 \<Rightarrow> u8"

section \<open>Signed 32-bit arithmetic\<close>

definition i32 :: "int \<Rightarrow> int" where
  "i32 x = (x + 2147483648) mod 4294967296 - 2147483648"

definition in_i32 :: "int \<Rightarrow> bool" where
  "in_i32 x \<longleftrightarrow> -2147483648 \<le> x \<and> x < 2147483648"

lemma i32_id [simp]: "in_i32 x \<Longrightarrow> i32 x = x"
  by (simp add: i32_def in_i32_def)

lemma i32_range [simp]: "in_i32 (i32 x)"
  by (simp add: i32_def in_i32_def)

lemma i32_idem [simp]: "i32 (i32 x) = i32 x"
  by simp

lemma i32_eq: "-2147483648 \<le> x \<Longrightarrow> x < 2147483648 \<Longrightarrow> i32 x = x"
  by (simp add: in_i32_def)

lemma i32_sint: "i32 k = sint (word_of_int k :: u32)"
proof -
  have "signed_take_bit 31 k = (k + 2 ^ 31) mod 2 ^ 32 - 2 ^ 31"
    using signed_take_bit_eq_take_bit_shift [of 31 k] by (simp add: take_bit_eq_mod)
  then show ?thesis by (simp add: sint_sbintrunc' i32_def)
qed

section \<open>C arrays: an access outside the array is a fault\<close>

definition aget :: "'a list \<Rightarrow> int \<Rightarrow> 'a option" where
  "aget xs i = (if 0 \<le> i \<and> i < int (length xs) then Some (xs ! nat i) else None)"

definition aset :: "'a list \<Rightarrow> int \<Rightarrow> 'a \<Rightarrow> 'a list option" where
  "aset xs i v = (if 0 \<le> i \<and> i < int (length xs) then Some (xs[nat i := v]) else None)"

lemma aget_in [arr_simps]: "0 \<le> i \<Longrightarrow> i < int (length xs) \<Longrightarrow> aget xs i = Some (xs ! nat i)"
  by (simp add: aget_def)

lemma aset_in [arr_simps]: "0 \<le> i \<Longrightarrow> i < int (length xs) \<Longrightarrow> aset xs i v = Some (xs[nat i := v])"
  by (simp add: aset_def)

lemma aget_Some_iff: "aget xs i = Some v \<longleftrightarrow> 0 \<le> i \<and> i < int (length xs) \<and> v = xs ! nat i"
  by (auto simp: aget_def)

lemma aset_Some_iff:
  "aset xs i v = Some ys \<longleftrightarrow> 0 \<le> i \<and> i < int (length xs) \<and> ys = xs[nat i := v]"
  by (auto simp: aset_def)

lemma aget_None_iff: "aget xs i = None \<longleftrightarrow> i < 0 \<or> int (length xs) \<le> i"
  by (auto simp: aget_def)

lemma uint_less_int: "uint (i :: 'a::len word) < int n \<longleftrightarrow> unat i < n"
  by (metis of_nat_less_iff uint_nat)

lemma aget_word: "aget xs (uint i) = (if unat i < length xs then Some (xs ! unat i) else None)"
  by (simp add: aget_def uint_less_int)

lemma aset_word: "aset xs (uint i) v = (if unat i < length xs then Some (xs[unat i := v]) else None)"
  by (simp add: aset_def uint_less_int)

section \<open>Error numbers (status.h)\<close>

definition OS_ALL_OK :: int where "OS_ALL_OK = 0"
definition EIO :: int where "EIO = 1"
definition EINVARG :: int where "EINVARG = 2"
definition ENOMEM :: int where "ENOMEM = 3"
definition EBADPATH :: int where "EBADPATH = 4"

lemmas errno_defs = OS_ALL_OK_def EIO_def EINVARG_def ENOMEM_def EBADPATH_def

section \<open>Configuration constants (config.h)\<close>

definition OS_MEMORY_ALIGN :: u32 where "OS_MEMORY_ALIGN = 16"
definition OS_HEAP_BLOCK_SIZE :: u32 where "OS_HEAP_BLOCK_SIZE = 4096"
definition OS_HEAP_ADDRESS :: u32 where "OS_HEAP_ADDRESS = 0x01000000"
definition OS_HEAP_SIZE_BYTES :: u32 where "OS_HEAP_SIZE_BYTES = 1024 * 1024 * 112"
definition OS_PATH_MAX_LENGTH :: nat where "OS_PATH_MAX_LENGTH = 4096"
definition OS_MAX_TIMER :: nat where "OS_MAX_TIMER = 500"
definition OS_MPROCESS_TASK_MAX :: nat where "OS_MPROCESS_TASK_MAX = 1000"
definition OS_MPROCESS_TASKLEVELS_MAX :: nat where "OS_MPROCESS_TASKLEVELS_MAX = 10"
definition OS_MPROCESS_TASKLEVEL_TASKS_MAX :: nat where "OS_MPROCESS_TASKLEVEL_TASKS_MAX = 100"
definition OS_MPROCESS_TSS_GDT_INDEX_START :: nat where "OS_MPROCESS_TSS_GDT_INDEX_START = 3"
definition DEV_FIFO_KBD_START :: int where "DEV_FIFO_KBD_START = 256"
definition DEV_FIFO_MOUSE_START :: int where "DEV_FIFO_MOUSE_START = 512"

section \<open>Generic lemmas\<close>

lemma nat_less_len_iff: "0 \<le> i \<Longrightarrow> (nat i < n) = (i < int n)"
  by (simp add: nat_less_iff)

lemma bind_eq_Some_conv2: "(Option.bind x f = Some y) = (\<exists>z. x = Some z \<and> f z = Some y)"
  by (cases x) auto

lemma word_neq_add_unat:
  fixes a b :: u32
  shows "unat a \<noteq> unat b \<Longrightarrow> a \<noteq> b"
  by auto

lemma unat_add_nowrap:
  fixes a b :: "'a::len word"
  shows "unat a + unat b < 2 ^ LENGTH('a) \<Longrightarrow> unat (a + b) = unat a + unat b"
  by (simp add: unat_word_ariths)

lemma unat_sub_nowrap:
  fixes a b :: "'a::len word"
  shows "unat b \<le> unat a \<Longrightarrow> unat (a - b) = unat a - unat b"
  by (simp add: unat_sub_if')

lemma unat_of_nat_small: "n < 2 ^ LENGTH('a) \<Longrightarrow> unat (of_nat n :: 'a::len word) = n"
  by (simp add: unat_of_nat)

lemma unat_ucast_u8 [simp]: "unat (ucast (x :: u8) :: u32) = unat x"
  by transfer simp

lemma uint_ucast_u8 [simp]: "uint (ucast (x :: u8) :: u32) = uint x"
  by transfer simp

lemma ucast_u8_eq_0 [simp]: "(ucast (x :: u8) :: u32) = 0 \<longleftrightarrow> x = 0"
  by transfer simp

lemma sint_i32: "sint (x :: u32) = i32 (uint x)"
  by (simp add: i32_sint)

lemma sint_small: "unat (x :: u32) < 2 ^ 31 \<Longrightarrow> sint x = int (unat x)"
  using uint_less_int [of x "2 ^ 31"] i32_eq [of "uint x"] unsigned_greater_eq [of x, where ?'a = int]
  by (simp add: sint_i32)

lemma and_lit:
  fixes x :: "'a::len word"
  shows "x AND 7 = take_bit 3 x" "x AND 0xf = take_bit 4 x" "x AND 0xff = take_bit 8 x"
    "x AND 0xfff = take_bit 12 x" "x AND 0xffff = take_bit 16 x" "x AND 0xfffff = take_bit 20 x"
  by (simp_all add: take_bit_eq_mask mask_eq_exp_minus_1)

section \<open>Counting loops\<close>

text \<open>
  The loop \<^verbatim>\<open>for (i = a; i < n; i++) body\<close> over an unsigned counter. It always ends, since
  \<open>i < n\<close> excludes the wrap-around of \<open>i + 1\<close>. \<open>for_opt\<close> is the same loop with a body that
  can fault.
\<close>

lemma unat_Suc_loop:
  fixes i n :: "'a::len word"
  assumes "i < n"
  shows "unat (i + 1) = Suc (unat i)"
proof -
  have "Suc (unat i) \<le> unat n" using assms by (simp add: word_less_nat_alt)
  then have "Suc (unat i) < 2 ^ LENGTH('a)" using unsigned_less [of n, where ?'a = nat] by linarith
  then show ?thesis using unat_add_nowrap [of i 1] by simp
qed

lemma word_loop_decr:
  fixes i n :: "'a::len word"
  shows "i < n \<Longrightarrow> unat n - unat (i + 1) < unat n - unat i"
  by (simp add: unat_Suc_loop word_less_nat_alt)

function for_up :: "('a::len word \<Rightarrow> 's \<Rightarrow> 's) \<Rightarrow> 'a word \<Rightarrow> 'a word \<Rightarrow> 's \<Rightarrow> 's" where
  "for_up body i n s = (if i < n then for_up body (i + 1) n (body i s) else s)"
  by pat_completeness auto
termination by (relation "measure (\<lambda>(b, i, n, s). unat n - unat i)") (auto intro: word_loop_decr)

function for_opt :: "('a::len word \<Rightarrow> 's \<Rightarrow> 's option) \<Rightarrow> 'a word \<Rightarrow> 'a word \<Rightarrow> 's \<Rightarrow> 's option" where
  "for_opt body i n s =
     (if i < n then (case body i s of None \<Rightarrow> None | Some s' \<Rightarrow> for_opt body (i + 1) n s') else Some s)"
  by pat_completeness auto
termination by (relation "measure (\<lambda>(b, i, n, s). unat n - unat i)") (auto intro: word_loop_decr)

declare for_up.simps [simp del] for_opt.simps [simp del]

text \<open>A state predicate indexed by the counter, kept by the body, holds at the end of the loop.\<close>

lemma for_up_inv:
  assumes "P (unat i) s" "i \<le> n"
    and "\<And>k s. P (unat k) s \<Longrightarrow> i \<le> k \<Longrightarrow> k < n \<Longrightarrow> P (Suc (unat k)) (body k s)"
  shows "P (unat n) (for_up body i n s)"
  using assms
proof (induction body i n s rule: for_up.induct)
  case (1 body i n s)
  show ?case
  proof (cases "i < n")
    case True
    have "P (unat (i + 1)) (body i s)"
      using "1.prems" True unat_Suc_loop [OF True] by simp
    moreover have "i + 1 \<le> n" using True by (simp add: word_le_nat_alt word_less_nat_alt unat_Suc_loop)
    moreover have "\<And>k s. P (unat k) s \<Longrightarrow> i + 1 \<le> k \<Longrightarrow> k < n \<Longrightarrow> P (Suc (unat k)) (body k s)"
      using "1.prems"(3) unat_Suc_loop [OF True] by (simp add: word_le_nat_alt)
    ultimately show ?thesis using "1.IH" True by (simp add: for_up.simps [of body i])
  next
    case False
    then show ?thesis using 1 by (simp add: for_up.simps)
  qed
qed

lemma for_opt_inv:
  assumes "P (unat i) s" "i \<le> n"
    and "\<And>k s. P (unat k) s \<Longrightarrow> i \<le> k \<Longrightarrow> k < n \<Longrightarrow> \<exists>s'. body k s = Some s' \<and> P (Suc (unat k)) s'"
  shows "\<exists>s'. for_opt body i n s = Some s' \<and> P (unat n) s'"
  using assms
proof (induction body i n s rule: for_opt.induct)
  case (1 body i n s)
  show ?case
  proof (cases "i < n")
    case True
    obtain s' where s': "body i s = Some s'" "P (unat (i + 1)) s'"
      using "1.prems" True unat_Suc_loop [OF True] by fastforce
    moreover have "i + 1 \<le> n" using True by (simp add: word_le_nat_alt word_less_nat_alt unat_Suc_loop)
    moreover have "\<And>k s. P (unat k) s \<Longrightarrow> i + 1 \<le> k \<Longrightarrow> k < n \<Longrightarrow>
        \<exists>s'. body k s = Some s' \<and> P (Suc (unat k)) s'"
      using "1.prems"(3) unat_Suc_loop [OF True] by (simp add: word_le_nat_alt)
    ultimately show ?thesis using "1.IH" [OF True s'(1)] True by (simp add: for_opt.simps [of body i])
  next
    case False
    then show ?thesis using 1 by (simp add: for_opt.simps)
  qed
qed

text \<open>A loop over the values of its counter whose body may fail.\<close>

fun fold_opt :: "('a \<Rightarrow> 's \<Rightarrow> 's option) \<Rightarrow> 'a list \<Rightarrow> 's \<Rightarrow> 's option" where
  "fold_opt f [] s = Some s"
| "fold_opt f (x # xs) s = Option.bind (f x s) (fold_opt f xs)"

lemma fold_opt_append: "fold_opt f (xs @ ys) s = Option.bind (fold_opt f xs s) (fold_opt f ys)"
proof (induction xs arbitrary: s)
  case (Cons x xs)
  then show ?case by (cases "f x s") simp_all
qed simp

lemma fold_opt_None: "x \<in> set xs \<Longrightarrow> (\<And>s. f x s = None) \<Longrightarrow> fold_opt f xs s = None"
  by (induction xs arbitrary: s) (auto split: bind_splits)

lemma fold_opt_fold: "(\<And>x s. x \<in> set xs \<Longrightarrow> f x s = Some (g x s)) \<Longrightarrow> fold_opt f xs s = Some (fold g xs s)"
  by (induction xs arbitrary: s) auto

lemma fold_opt_inv:
  assumes "fold_opt f xs s = Some s'" "P s" "\<And>x s s'. x \<in> set xs \<Longrightarrow> P s \<Longrightarrow> f x s = Some s' \<Longrightarrow> P s'"
  shows "P s'"
  using assms
proof (induction xs arbitrary: s)
  case (Cons x xs)
  then obtain s1 where "f x s = Some s1" "fold_opt f xs s1 = Some s'" by (auto simp: bind_eq_Some_conv2)
  then show ?case using Cons.IH [of s1] Cons.prems by (metis list.set_intros)
qed simp

section \<open>Arrays of bytes\<close>

text \<open>The address of the byte with index \<open>i\<close> in an array of bytes.\<close>

definition px :: "u32 \<Rightarrow> int \<Rightarrow> u32" where
  "px base i = base + word_of_int i"

lemma px_eq_iff:
  assumes "0 \<le> i" "i < 2 ^ 32" "0 \<le> j" "j < 2 ^ 32"
  shows "px v i = px v j \<longleftrightarrow> i = j"
proof -
  have "px v i = px v j \<longleftrightarrow> uint (word_of_int i :: u32) = uint (word_of_int j :: u32)"
    unfolding px_def add_left_cancel by (simp only: word_uint_eq_iff)
  then show ?thesis using assms by (simp add: uint_word_of_int)
qed

lemma px_add: "px v i + word_of_int j = px v (i + j)"
  by (simp add: px_def)

text \<open>A loop that writes every cell of an array of distinct cells once.\<close>

lemma fold_write_once:
  assumes inj: "inj_on a I" and h: "\<And>i m'. i \<in> I \<Longrightarrow> (\<forall>p. p \<notin> a ` (I - {i}) \<longrightarrow> m' p = m p) \<Longrightarrow> h i m' = v i"
    and l: "distinct l" "set l \<subseteq> I"
  shows "(\<forall>i\<in>set l. fold (\<lambda>i m. m(a i := h i m)) l m (a i) = v i) \<and>
    (\<forall>p. p \<notin> a ` set l \<longrightarrow> fold (\<lambda>i m. m(a i := h i m)) l m p = m p)"
proof -
  define f where "f = (\<lambda>i m. m(a i := h i m))"
  have f: "f i m p = (if p = a i then h i m else m p)" for i m p by (simp add: f_def)
  show ?thesis
    unfolding f_def [symmetric] using l
  proof (induction l rule: rev_induct)
    case (snoc j l)
    have IH: "\<forall>i\<in>set l. fold f l m (a i) = v i" "\<forall>p. p \<notin> a ` set l \<longrightarrow> fold f l m p = m p"
      using snoc.IH snoc.prems by simp_all
    have "set l \<subseteq> I - {j}" using snoc.prems by auto
    then have "\<forall>p. p \<notin> a ` (I - {j}) \<longrightarrow> fold f l m p = m p" using IH(2) by blast
    then have "h j (fold f l m) = v j" using h snoc.prems by simp
    moreover have "a i \<noteq> a j" if "i \<in> set l" for i
      using inj_onD [OF inj] that snoc.prems by auto
    ultimately show ?case using IH by (auto simp: f [of j "fold f l m"])
  qed simp
qed

end
