(* ===== verification/Kutil.thy ===== *)
theory Kutil
  imports Prelude
begin

text \<open>
  The string, memory, bit mask and alignment helpers of \<^verbatim>\<open>src/src/util/kutil.c\<close>, over the flat
  memory. Loops that look for a terminating zero byte are partial (\<open>None\<close>: no zero byte
  on the whole way round the address space); counting loops are total.
\<close>

section \<open>Operations\<close>

partial_function (option) kstrcpy :: "memory \<Rightarrow> u32 \<Rightarrow> u32 \<Rightarrow> (memory \<times> u32) option" where
  "kstrcpy m dest src =
     (if m src \<noteq> 0 then kstrcpy (m(dest := m src)) (dest + 1) (src + 1)
      else Some (m(dest := 0), dest))"

partial_function (option) kstrcmp :: "memory \<Rightarrow> u32 \<Rightarrow> u32 \<Rightarrow> int option" where
  "kstrcmp m s1 s2 =
     (if m s1 \<noteq> 0 \<and> m s1 = m s2 then kstrcmp m (s1 + 1) (s2 + 1)
      else Some (uint (m s1) - uint (m s2)))"

partial_function (option) kstrlen_loop :: "memory \<Rightarrow> u32 \<Rightarrow> u32 \<Rightarrow> u32 option" where
  "kstrlen_loop m str len =
     (if m (str + len) \<noteq> 0 then kstrlen_loop m str (len + 1) else Some len)"

definition kstrlen :: "memory \<Rightarrow> u32 \<Rightarrow> u32 option" where
  "kstrlen m str = kstrlen_loop m str 0"

function kstrnlen_loop :: "memory \<Rightarrow> u32 \<Rightarrow> u32 \<Rightarrow> u32 \<Rightarrow> u32" where
  "kstrnlen_loop m str maxn len =
     (if len < maxn then (if m (str + len) = 0 then len else kstrnlen_loop m str maxn (len + 1))
      else len)"
  by pat_completeness auto
termination
  by (relation "measure (\<lambda>(m, str, maxn, len). unat maxn - unat len)") (auto intro: word_loop_decr)

definition kstrnlen :: "memory \<Rightarrow> u32 \<Rightarrow> u32 \<Rightarrow> u32" where
  "kstrnlen m str maxn = kstrnlen_loop m str maxn 0"

definition kmemset :: "memory \<Rightarrow> u32 \<Rightarrow> int \<Rightarrow> u32 \<Rightarrow> memory \<times> u32" where
  "kmemset m ptr c sz = (for_up (\<lambda>i m. m(ptr + i := word_of_int c)) 0 sz m, ptr)"

definition memset :: "memory \<Rightarrow> u32 \<Rightarrow> int \<Rightarrow> u32 \<Rightarrow> memory" where
  "memset m ptr c sz = fst (kmemset m ptr c sz)"

definition kmemcpy :: "memory \<Rightarrow> u32 \<Rightarrow> u32 \<Rightarrow> u32 \<Rightarrow> memory \<times> u32" where
  "kmemcpy m dst src sz = (for_up (\<lambda>i m. m(dst + i := m (src + i))) 0 sz m, dst)"

text \<open>The array \<^verbatim>\<open>hex_chars\<close>; a nibble is always a valid index.\<close>

definition hex_chars :: "u8 list" where
  "hex_chars = map (\<lambda>c. of_nat (of_char c)) ''0123456789abcdef''"

definition hex_char :: "u8 \<Rightarrow> u8" where
  "hex_char nib = hex_chars ! unat nib"

text \<open>The loop runs \<open>i = size - 1, \<dots>, 0\<close>; \<open>n\<close> is \<open>i + 1\<close>.\<close>

primrec hex_to_ascii_loop :: "u32 \<Rightarrow> u32 \<Rightarrow> u32 \<Rightarrow> nat \<Rightarrow> memory \<Rightarrow> memory" where
  "hex_to_ascii_loop buf hex sz 0 m = m"
| "hex_to_ascii_loop buf hex sz (Suc i) m =
     (let byte = m (hex + of_nat i);
          m = m(buf + (sz - of_nat i - 1) * 2 := hex_char (drop_bit 4 byte AND 0xF));
          m = m(buf + ((sz - of_nat i - 1) * 2 + 1) := hex_char (byte AND 0xF))
      in hex_to_ascii_loop buf hex sz i m)"

text \<open>\<^verbatim>\<open>int i = size - 1\<close> converts to a signed integer: for a size above \<open>2\<^sup>3\<^sup>1\<close> the loop body never runs.\<close>

definition hex_to_ascii :: "memory \<Rightarrow> u32 \<Rightarrow> u32 \<Rightarrow> u32 \<Rightarrow> memory \<times> u32" where
  "hex_to_ascii m buf hex sz =
     (let m = hex_to_ascii_loop buf hex sz (nat (sint (sz - 1) + 1)) m
      in (m(buf + sz * 2 := 0), buf))"

definition is_digit :: "u8 \<Rightarrow> bool" where
  "is_digit c \<longleftrightarrow> 48 \<le> sint c \<and> sint c \<le> 57"

definition to_digit :: "u8 \<Rightarrow> int" where
  "to_digit c = sint c - 48"

function kmemcmp :: "memory \<Rightarrow> u32 \<Rightarrow> u32 \<Rightarrow> u32 \<Rightarrow> int" where
  "kmemcmp m s1 s2 n =
     (if n > 0 then
        (if m s1 \<noteq> m s2 then (if m s1 < m s2 then -1 else 1)
         else kmemcmp m (s1 + 1) (s2 + 1) (n - 1))
      else 0)"
  by pat_completeness auto
termination
  by (relation "measure (\<lambda>(m, s1, s2, n). unat n)")
     (auto simp: unat_sub_if' Suc_le_eq unat_gt_0)

definition isMaskBitsAllSet :: "u32 \<Rightarrow> u32 \<Rightarrow> bool" where
  "isMaskBitsAllSet d msk \<longleftrightarrow> d AND msk = msk"

definition isMaskBitsAllClear :: "u32 \<Rightarrow> u32 \<Rightarrow> bool" where
  "isMaskBitsAllClear d msk \<longleftrightarrow> d AND msk = 0"

definition align_address_to_upper :: "u32 \<Rightarrow> u32 \<Rightarrow> u32" where
  "align_address_to_upper addr ALIGN =
     (let residual = addr mod ALIGN in
      if residual = 0 then addr else addr + (ALIGN - residual))"

definition align_address_to_lower :: "u32 \<Rightarrow> u32 \<Rightarrow> u32" where
  "align_address_to_lower addr ALIGN =
     (let residual = addr mod ALIGN in
      if residual = 0 then addr else addr - residual)"

text \<open>One turn of the loop of \<^verbatim>\<open>arr_remove_element_u32\<close>, on \<open>(arr, di, newi)\<close>.\<close>

definition arr_remove_step ::
  "u32 list \<Rightarrow> u32 \<Rightarrow> u32 \<Rightarrow> u32 list \<times> u32 \<times> u32 \<Rightarrow> (u32 list \<times> u32 \<times> u32) option" where
  "arr_remove_step idx idx_size oldi = (\<lambda>(arr, di, newi). do {
     hit \<leftarrow> (if di < idx_size then map_option (\<lambda>v. oldi = v) (aget idx (uint di)) else Some False);
     if hit then Some (arr, di + 1, newi)
     else do {
       v \<leftarrow> aget arr (uint oldi);
       arr \<leftarrow> aset arr (uint newi) v;
       Some (arr, di, newi + 1)
     }
   })"

definition arr_remove_element_u32 :: "u32 list \<Rightarrow> u32 list \<Rightarrow> u32 \<Rightarrow> u32 \<Rightarrow> u32 list option" where
  "arr_remove_element_u32 arr index_to_remove arr_size index_to_remove_size =
     map_option fst (for_opt (arr_remove_step index_to_remove index_to_remove_size) 0 arr_size (arr, 0, 0))"

definition test_kutil :: "bool option" where
  "test_kutil =
     (if isMaskBitsAllSet 0b10111111 0b1010 \<noteq> True then Some False
      else if isMaskBitsAllSet 0b10111111 0b11111111 \<noteq> False then Some False
      else if isMaskBitsAllSet 0b10111111 0b11011111 \<noteq> False then Some False
      else if isMaskBitsAllClear 0b10111111 0b01000000 \<noteq> True then Some False
      else if isMaskBitsAllClear 0b1001 0b0110 \<noteq> True then Some False
      else do {
        let arr = [10, 20, 30, 40, 50, 60, 70, 80] @ replicate 120 0;
        let index_to_remove = [2, 4] @ replicate 126 0;
        arr \<leftarrow> arr_remove_element_u32 arr index_to_remove 8 2;
        let expected_arr = [10, 20, 40, 60, 70, 80];
        Some (list_all (\<lambda>i. arr ! i = expected_arr ! i) [0..<6])
      })"


section \<open>Memory blocks\<close>

declare kstrnlen_loop.simps [simp del] kmemcmp.simps [simp del]

text \<open>The offset of an address in a block that may go round the end of the address space.\<close>

lemma kmemset_mem:
  "fst (kmemset m ptr c sz) = (\<lambda>a. if a - ptr < sz then word_of_int c else m a)"
proof -
  let ?body = "\<lambda>i m. m(ptr + i := word_of_int c)"
  let ?P = "\<lambda>k m'. m' = (\<lambda>a. if unat (a - ptr) < k then word_of_int c else m a)"
  have "?P (unat sz) (for_up ?body 0 sz m)"
  proof (rule for_up_inv [where P = "?P"])
    fix k :: u32 and s :: memory
    assume s: "?P (unat k) s" and "0 \<le> k" "k < sz"
    have "(unat (a - ptr) = unat k) = (a = ptr + k)" for a by (auto simp: word_unat_eq_iff [symmetric])
    with s show "?P (Suc (unat k)) (?body k s)" by (auto simp: fun_eq_iff less_Suc_eq)
  qed auto
  then show ?thesis by (simp add: kmemset_def word_less_nat_alt)
qed

lemma kmemcpy_mem:
  assumes "dst = src \<or> sz \<le> dst - src"
  shows "fst (kmemcpy m dst src sz) = (\<lambda>a. if a - dst < sz then m (src + (a - dst)) else m a)"
proof -
  let ?body = "\<lambda>i m. m(dst + i := m (src + i))"
  let ?P = "\<lambda>k m'. m' = (\<lambda>a. if unat (a - dst) < k then m (src + (a - dst)) else m a)"
  have "?P (unat sz) (for_up ?body 0 sz m)"
  proof (rule for_up_inv [where P = "?P"])
    fix k :: u32 and s :: memory
    assume s: "?P (unat k) s" and "0 \<le> k" and k: "k < sz"
    have eq: "(unat (a - dst) = unat k) = (a = dst + k)" for a by (auto simp: word_unat_eq_iff [symmetric])
    have "s (src + k) = m (src + k)"
    proof (cases "dst = src")
      case True then show ?thesis using s by simp
    next
      case False
      with assms have "sz \<le> dst - src" by simp
      then have "k < dst - src" using k by simp
      then have "unat k < unat (dst - src)" by (simp add: word_less_nat_alt)
      moreover have "src + k - dst = k - (dst - src)" by simp
      ultimately have "unat k < unat (src + k - dst)"
        using unsigned_less [of "dst - src", where ?'a = nat]
        by (simp only: unat_sub_if' [of k "dst - src"]) simp
      then show ?thesis using s by simp
    qed
    with s show "?P (Suc (unat k)) (?body k s)" using eq by (auto simp: fun_eq_iff less_Suc_eq)
  qed auto
  then show ?thesis by (simp add: kmemcpy_def word_less_nat_alt)
qed

text \<open>The bytes of a block, and the lexicographic order of byte strings.\<close>

definition mem_bytes :: "memory \<Rightarrow> u32 \<Rightarrow> nat \<Rightarrow> u8 list" where
  "mem_bytes m p n = map (\<lambda>i. m (p + of_nat i)) [0..<n]"

definition bytes_less :: "u8 list \<Rightarrow> u8 list \<Rightarrow> bool" where
  "bytes_less a b \<longleftrightarrow> (a, b) \<in> lexord {(x, y). x < y}"

lemma bytes_less_simps [simp]:
  "bytes_less [] b \<longleftrightarrow> b \<noteq> []"
  "\<not> bytes_less a []"
  "bytes_less (x # a) (y # b) \<longleftrightarrow> x < y \<or> (x = y \<and> bytes_less a b)"
  by (auto simp: bytes_less_def neq_Nil_conv)

lemma mem_bytes_Suc: "mem_bytes m p (Suc n) = m p # mem_bytes m (p + 1) n"
  unfolding mem_bytes_def by (subst upt_conv_Cons) (simp_all add: map_Suc_upt [symmetric] add.assoc del: upt_Suc)

lemma kmemcmp_bytes:
  "kmemcmp m s1 s2 n =
     (let a = mem_bytes m s1 (unat n); b = mem_bytes m s2 (unat n)
      in if a = b then 0 else if bytes_less a b then -1 else 1)"
proof (induction m s1 s2 n rule: kmemcmp.induct)
  case (1 m s1 s2 n)
  show ?case
  proof (cases "n > 0")
    case True
    then have u: "unat n = Suc (unat (n - 1))"
      using unat_minus_one [of n] by (simp add: unat_gt_0)
    show ?thesis
    proof (cases "m s1 = m s2")
      case True
      then have "kmemcmp m s1 s2 n = kmemcmp m (s1 + 1) (s2 + 1) (n - 1)"
        using \<open>n > 0\<close> by (subst kmemcmp.simps) simp
      then show ?thesis using 1 True \<open>n > 0\<close> by (simp add: u mem_bytes_Suc Let_def)
    next
      case False
      then show ?thesis using \<open>n > 0\<close> by (subst kmemcmp.simps) (simp add: u mem_bytes_Suc Let_def)
    qed
  next
    case False
    then have "n = 0" by (simp add: word_gt_0)
    then show ?thesis by (subst kmemcmp.simps) (simp add: mem_bytes_def)
  qed
qed

section \<open>C strings\<close>

text \<open>\<open>cstr m p bs\<close>: the bytes \<open>bs\<close>, none of them zero, then a zero byte, are at \<open>p\<close>.\<close>

fun cstr :: "memory \<Rightarrow> u32 \<Rightarrow> u8 list \<Rightarrow> bool" where
  "cstr m p [] \<longleftrightarrow> m p = 0"
| "cstr m p (b # bs) \<longleftrightarrow> b \<noteq> 0 \<and> m p = b \<and> cstr m (p + 1) bs"

lemma kstrlen_loop_cstr: "cstr m (p + len) bs \<Longrightarrow> kstrlen_loop m p len = Some (len + of_nat (length bs))"
proof (induction bs arbitrary: len)
  case (Cons b bs)
  have "kstrlen_loop m p (len + 1) = Some (len + 1 + of_nat (length bs))"
    using Cons.IH [of "len + 1"] Cons.prems by (simp add: add.assoc)
  then show ?case using Cons.prems by (subst kstrlen_loop.simps) (simp add: algebra_simps)
qed (simp add: kstrlen_loop.simps)

lemma kstrnlen_loop_cstr:
  assumes "cstr m (p + len) bs" "len \<le> maxn" "unat len + length bs < 2 ^ 32"
  shows "unat (kstrnlen_loop m p maxn len) = min (unat maxn) (unat len + length bs)"
  using assms
proof (induction bs arbitrary: len)
  case Nil
  then show ?case by (subst kstrnlen_loop.simps) (auto simp: word_less_nat_alt word_le_nat_alt)
next
  case (Cons b bs)
  show ?case
  proof (cases "len < maxn")
    case True
    note u = unat_Suc_loop [OF True]
    then have "len + 1 \<le> maxn" using True by (simp add: word_le_nat_alt word_less_nat_alt)
    then have "unat (kstrnlen_loop m p maxn (len + 1)) = min (unat maxn) (unat len + length (b # bs))"
      using Cons.IH [of "len + 1"] Cons.prems u by (simp add: add.assoc)
    then show ?thesis using Cons.prems True by (subst kstrnlen_loop.simps) simp
  next
    case False
    then show ?thesis using Cons.prems by (subst kstrnlen_loop.simps) simp
  qed
qed

lemma kstrcmp_cstr:
  assumes "cstr m p a" "cstr m q b"
  shows "\<exists>r. kstrcmp m p q = Some r \<and> (r = 0 \<longleftrightarrow> a = b) \<and> (r < 0 \<longleftrightarrow> bytes_less a b)"
  using assms
proof (induction a arbitrary: p q b)
  case Nil
  then show ?case
    by (subst kstrcmp.simps) (cases b; auto simp: word_less_alt uint_0_iff less_le)
next
  case (Cons x a)
  show ?case
  proof (cases b)
    case Nil
    with Cons.prems show ?thesis by (subst kstrcmp.simps) (auto simp: uint_0_iff linorder_not_less)
  next
    case (Cons y b')
    with Cons.IH [of "p + 1" "q + 1" b'] Cons.prems show ?thesis
      by (subst kstrcmp.simps) (auto simp: word_less_alt word_uint_eq_iff)
  qed
qed

lemma cstr_upd: "cstr m p bs \<Longrightarrow> length bs < unat (d - p) \<Longrightarrow> cstr (m(d := v)) p bs"
proof (induction bs arbitrary: p)
  case (Cons b bs)
  have "d - p \<noteq> 0" using Cons.prems by auto
  then have "unat (d - (p + 1)) = unat (d - p) - 1"
    by (metis diff_diff_eq unat_minus_one)
  with Cons show ?case by auto
qed auto

lemma unat_minus_1_u32: "unat (- 1 :: u32) = 4294967295"
  by (simp add: unsigned_minus_1_eq_mask mask_eq_exp_minus_1)

lemma kstrcpy_cstr:
  assumes "cstr m src bs" "length bs < 2 ^ 32" "dst = src \<or> length bs < unat (dst - src)"
  shows "kstrcpy m dst src =
    Some (\<lambda>a. if unat (a - dst) \<le> length bs then (bs @ [0]) ! unat (a - dst) else m a,
          dst + of_nat (length bs))"
  using assms
proof (induction bs arbitrary: m dst src)
  case Nil
  then show ?case by (subst kstrcpy.simps) (auto simp: fun_eq_iff unat_eq_zero)
next
  case (Cons b bs)
  let ?m = "m(dst := b)"
  have far: "length bs < unat (dst - (src + 1))"
  proof (cases "dst = src")
    case True
    have "unat (src - (src + 1)) = 4294967295" by (simp add: unat_minus_1_u32)
    then show ?thesis using True Cons.prems by simp
  next
    case False
    then have "dst - src \<noteq> 0" by simp
    then have "unat (dst - (src + 1)) = unat (dst - src) - 1" by (metis diff_diff_eq unat_minus_one)
    then show ?thesis using False Cons.prems by simp
  qed
  have "cstr ?m (src + 1) bs" using Cons.prems(1) far by (simp add: cstr_upd)
  then have "kstrcpy ?m (dst + 1) (src + 1) =
      Some (\<lambda>a. if unat (a - (dst + 1)) \<le> length bs then (bs @ [0]) ! unat (a - (dst + 1)) else ?m a,
            dst + 1 + of_nat (length bs))"
    by (rule Cons.IH) (use Cons.prems in auto)
  moreover have "(if unat (a - (dst + 1)) \<le> length bs then (bs @ [0]) ! unat (a - (dst + 1)) else ?m a) =
      (if unat (a - dst) \<le> length (b # bs) then ((b # bs) @ [0]) ! unat (a - dst) else m a)" for a
  proof (cases "a = dst")
    case True
    have "unat (dst - (dst + 1)) = 4294967295" by (simp add: unat_minus_1_u32)
    then show ?thesis using True Cons.prems by simp
  next
    case False
    then have "a - dst \<noteq> 0" by simp
    then have "unat (a - dst) = Suc (unat (a - (dst + 1)))"
      using unat_minus_one [of "a - dst"] by (simp add: diff_diff_eq unat_gt_0)
    then show ?thesis using False by simp
  qed
  ultimately show ?case using Cons.prems by (subst kstrcpy.simps) (simp add: algebra_simps)
qed

section \<open>Alignment\<close>

lemma div_add_mult: "r < n \<Longrightarrow> (r + q * n) div n = (q :: nat)"
  by simp

lemma align_upper_unat:
  assumes "0 < ALIGN" "(unat addr + unat ALIGN - 1) div unat ALIGN * unat ALIGN < 2 ^ 32"
  shows "unat (align_address_to_upper addr ALIGN) = (unat addr + unat ALIGN - 1) div unat ALIGN * unat ALIGN"
proof -
  let ?a = "unat addr" and ?n = "unat ALIGN"
  have n: "0 < ?n" using assms(1) by (simp add: word_less_nat_alt)
  have r: "unat (addr mod ALIGN) = ?a mod ?n" by (simp add: unat_mod_distrib)
  have less: "?a mod ?n < ?n" using n by simp
  have dm: "?a = ?a div ?n * ?n + ?a mod ?n" by simp
  show ?thesis
  proof (cases "?a mod ?n = 0")
    case True
    then have "(?a + ?n - 1) div ?n * ?n = ?a"
    proof -
      have "?a + ?n - 1 = (?n - 1) + ?a div ?n * ?n" using dm True n by simp
      then have "(?a + ?n - 1) div ?n = ?a div ?n"
        using n div_add_mult [of "?n - 1" ?n "?a div ?n"] by (simp only: diff_less)
      then show ?thesis using dm True by simp
    qed
    moreover have "addr mod ALIGN = 0" using True r by (simp add: unat_eq_zero)
    ultimately show ?thesis by (simp add: align_address_to_upper_def)
  next
    case False
    have up: "(?a + ?n - 1) div ?n * ?n = ?a + (?n - ?a mod ?n)"
    proof -
      have "?a + ?n - 1 = (?a mod ?n - 1) + (?a div ?n + 1) * ?n" using dm False n by simp
      then have "(?a + ?n - 1) div ?n = ?a div ?n + 1"
        using less div_add_mult [of "?a mod ?n - 1" ?n "?a div ?n + 1"] by (simp only:)
      then have "(?a + ?n - 1) div ?n * ?n = ?a div ?n * ?n + ?n" by simp
      then show ?thesis using dm less by linarith
    qed
    have "unat (ALIGN - addr mod ALIGN) = ?n - ?a mod ?n" using less r by (simp add: unat_sub_nowrap)
    then have "unat (addr + (ALIGN - addr mod ALIGN)) = ?a + (?n - ?a mod ?n)"
      using assms(2) up by (subst unat_add_nowrap) auto
    moreover have "addr mod ALIGN \<noteq> 0" using False r by (metis unat_0)
    ultimately show ?thesis using up by (simp add: align_address_to_upper_def)
  qed
qed

lemma align_lower_unat:
  "unat (align_address_to_lower addr ALIGN) = unat addr div unat ALIGN * unat ALIGN"
proof -
  have "align_address_to_lower addr ALIGN = addr - addr mod ALIGN"
    by (auto simp: align_address_to_lower_def Let_def)
  moreover have "unat (addr - addr mod ALIGN) = unat addr - unat addr mod unat ALIGN"
    by (subst unat_sub_nowrap) (auto simp: unat_mod_distrib)
  ultimately show ?thesis by (simp add: minus_mod_eq_div_mult)
qed

section \<open>Removal by index\<close>

text \<open>The elements that \<^verbatim>\<open>arr_remove_element_u32\<close> keeps of the first \<open>k\<close> elements.\<close>

definition arr_kept :: "u32 list \<Rightarrow> u32 list \<Rightarrow> nat \<Rightarrow> u32 list" where
  "arr_kept arr idx k = nths (take k arr) {i. i \<notin> unat ` set idx}"

lemma arr_kept_Suc:
  "k < length arr \<Longrightarrow>
   arr_kept arr idx (Suc k) = arr_kept arr idx k @ (if k \<in> unat ` set idx then [] else [arr ! k])"
  by (simp add: arr_kept_def take_Suc_conv_app_nth nths_append)

lemma arr_kept_length: "length (arr_kept arr idx k) \<le> k"
proof -
  have "length (arr_kept arr idx k) \<le> card {i. i < k}"
    unfolding arr_kept_def length_nths by (rule card_mono) auto
  then show ?thesis by simp
qed

text \<open>The loop invariant: the state after \<open>k\<close> turns.\<close>

definition arr_remove_inv :: "u32 list \<Rightarrow> u32 list \<Rightarrow> nat \<Rightarrow> u32 list \<times> u32 \<times> u32 \<Rightarrow> bool" where
  "arr_remove_inv arr idx k = (\<lambda>(arr', di, newi).
     let kept = arr_kept arr idx k in
     unat newi = length kept \<and> arr' = kept @ drop (length kept) arr \<and> unat di \<le> length idx \<and>
     (\<forall>j < length idx. j < unat di \<longleftrightarrow> unat (idx ! j) < k))"

lemma arr_remove_hit:
  assumes "sorted_wrt (<) idx" "\<forall>j < length idx. j < d \<longleftrightarrow> unat (idx ! j) < k" "d \<le> length idx"
  shows "k \<in> unat ` set idx \<longleftrightarrow> d < length idx \<and> unat (idx ! d) = k"
proof
  assume "k \<in> unat ` set idx"
  then obtain j where j: "j < length idx" "unat (idx ! j) = k" by (auto simp: in_set_conv_nth)
  then have "d \<le> j" using assms(2) by (metis less_irrefl linorder_not_less)
  moreover have "\<not> d < j"
  proof
    assume "d < j"
    then have "idx ! d < idx ! j" using assms(1) j by (simp add: sorted_wrt_nth_less)
    then have "unat (idx ! d) < k" using j by (simp add: word_less_nat_alt)
    then show False using assms(2) j \<open>d < j\<close> by (metis less_irrefl less_trans)
  qed
  ultimately show "d < length idx \<and> unat (idx ! d) = k" using j by auto
qed (auto intro: rev_image_eqI)

lemma arr_remove_step_inv:
  assumes inv: "arr_remove_inv arr idx (unat k) s" and idx: "idx = take (unat n) full" "unat n \<le> length full"
    and sorted: "sorted_wrt (<) idx" and k: "unat k < length arr" "k < len"
  shows "\<exists>s'. arr_remove_step full n k s = Some s' \<and> arr_remove_inv arr idx (Suc (unat k)) s'"
proof -
  obtain arr' di newi where s: "s = (arr', di, newi)" by (cases s)
  let ?kept = "arr_kept arr idx (unat k)"
  have I: "unat newi = length ?kept" "arr' = ?kept @ drop (length ?kept) arr" "unat di \<le> length idx"
    and d: "\<forall>j < length idx. j < unat di \<longleftrightarrow> unat (idx ! j) < unat k"
    using inv by (auto simp: s arr_remove_inv_def Let_def)
  have len: "length idx = unat n" "length arr' = length arr" "length ?kept \<le> unat k"
    using idx I(2) arr_kept_length [of arr idx "unat k"] k by auto
  have lt: "di < n \<longleftrightarrow> unat di < length idx" using len by (simp add: word_less_nat_alt)
  have full: "unat di < length idx \<Longrightarrow> aget full (uint di) = Some (idx ! unat di)"
    using idx by (simp add: aget_word)
  note hit = arr_remove_hit [OF sorted d I(3)]
  show ?thesis
  proof (cases "unat k \<in> unat ` set idx")
    case True
    then have h: "unat di < length idx" "unat (idx ! unat di) = unat k" using hit by auto
    then have "idx ! unat di = k" by (simp add: word_unat_eq_iff)
    then have st: "arr_remove_step full n k s = Some (arr', di + 1, newi)"
      using h lt full by (simp add: arr_remove_step_def s)
    have u: "unat (di + 1) = Suc (unat di)" using h lt unat_Suc_loop by blast
    have "j < Suc (unat di) \<longleftrightarrow> unat (idx ! j) < Suc (unat k)" if "j < length idx" for j
    proof -
      have "unat di < j \<Longrightarrow> unat k < unat (idx ! j)"
        using sorted_wrt_nth_less [OF sorted _ that, of "unat di"] h by (simp add: word_less_nat_alt)
      then show ?thesis using d h that by (metis less_Suc_eq linorder_neqE_nat not_less_eq)
    qed
    then show ?thesis using st I h u True k
      by (auto simp: arr_remove_inv_def arr_kept_Suc Let_def)
  next
    case False
    then have h: "unat di < length idx \<Longrightarrow> idx ! unat di \<noteq> k" using hit by auto
    let ?arr = "arr'[unat newi := arr ! unat k]"
    have "arr' ! unat k = arr ! unat k" using I(2) len k by (simp add: nth_append)
    then have st: "arr_remove_step full n k s = Some (?arr, di, newi + 1)"
      using h lt full len I k
      by (auto simp: arr_remove_step_def s aget_word aset_word)
    have kept: "arr_kept arr idx (Suc (unat k)) = ?kept @ [arr ! unat k]"
      using False k by (simp add: arr_kept_Suc)
    have "newi < len" using I(1) len(3) k(2) by (simp add: word_less_nat_alt)
    then have u: "unat (newi + 1) = Suc (unat newi)" by (rule unat_Suc_loop)
    have arr: "?arr = (?kept @ [arr ! unat k]) @ drop (Suc (length ?kept)) arr"
      using I(1,2) len k by (simp add: list_update_append Cons_nth_drop_Suc [symmetric])
    have "j < unat di \<longleftrightarrow> unat (idx ! j) < Suc (unat k)" if "j < length idx" for j
      using d that False by (metis imageI less_Suc_eq nth_mem)
    then show ?thesis using st I u kept arr
      by (auto simp: arr_remove_inv_def Let_def)
  qed
qed

lemma mem_bytes_length [simp]: "length (mem_bytes m p n) = n"
  by (simp add: mem_bytes_def)

lemma mem_bytes_nth [simp]: "i < n \<Longrightarrow> mem_bytes m p n ! i = m (p + of_nat i)"
  by (simp add: mem_bytes_def)

lemma mem_bytes_cong:
  "(\<And>i. i < n \<Longrightarrow> m' (p' + of_nat i) = m (p + of_nat i)) \<Longrightarrow> mem_bytes m' p' n = mem_bytes m p n"
  by (simp add: mem_bytes_def)

lemma cstr_iff:
  "cstr m p bs \<longleftrightarrow> 0 \<notin> set bs \<and> mem_bytes m p (length bs) = bs \<and> m (p + of_nat (length bs)) = 0"
proof (induction bs arbitrary: p)
  case Nil
  then show ?case by (simp add: mem_bytes_def)
next
  case (Cons b bs)
  then show ?case by (auto simp: mem_bytes_Suc add.assoc)
qed

lemma unat_off: "i < 2 ^ 32 \<Longrightarrow> unat (p + of_nat i - p :: u32) = i"
  by (simp add: unat_of_nat_small)

section \<open>Properties\<close>

text \<open>
  \<^verbatim>\<open>kmemcpy\<close> of two blocks that do not overlap makes the destination equal to the source in
  the sense of \<^verbatim>\<open>kmemcmp\<close>, leaves the source and every byte outside the destination as they
  were, and returns the destination.
\<close>

theorem kmemcpy_kmemcmp:
  assumes "n \<le> dst - src" "n \<le> src - dst"
  shows "snd (kmemcpy m dst src n) = dst \<and>
    kmemcmp (fst (kmemcpy m dst src n)) dst src n = 0 \<and>
    mem_bytes (fst (kmemcpy m dst src n)) dst (unat n) = mem_bytes m src (unat n) \<and>
    (\<forall>a. n \<le> a - dst \<longrightarrow> fst (kmemcpy m dst src n) a = m a)"
proof -
  let ?m = "fst (kmemcpy m dst src n)"
  have m: "?m = (\<lambda>a. if a - dst < n then m (src + (a - dst)) else m a)"
    using assms by (intro kmemcpy_mem) simp
  have off: "of_nat i < n" "unat (of_nat i :: u32) = i" if "i < unat n" for i
  proof -
    show "unat (of_nat i :: u32) = i"
      using that unsigned_less [of n, where ?'a = nat] by (simp add: unat_of_nat_small)
    then show "of_nat i < n" using that by (simp add: word_less_nat_alt)
  qed
  have "\<not> src + of_nat i - dst < n" if "i < unat n" for i
  proof -
    let ?d = "src - dst"
    have ne: "dst \<noteq> src" using assms that by auto
    have "unat n \<le> unat (dst - src)" using assms(1) by (simp add: word_le_nat_alt)
    moreover have "unat ?d = 2 ^ 32 - unat (dst - src)"
      using unat_sub_if' [of 0 "dst - src"] ne by (simp add: unat_gt_0)
    ultimately have "unat ?d + i < 2 ^ 32"
      using that unsigned_less [of "dst - src", where ?'a = nat] by simp
    then have "unat (?d + of_nat i) = unat ?d + i" using off(2) [OF that]
      by (subst unat_add_nowrap) auto
    moreover have "src + of_nat i - dst = ?d + of_nat i" by simp
    ultimately have "unat (src + of_nat i - dst) = unat ?d + i" by (simp only:)
    then show ?thesis using assms(2) by (simp only: word_le_nat_alt word_less_nat_alt)
  qed
  then have "mem_bytes ?m src (unat n) = mem_bytes m src (unat n)"
    by (intro mem_bytes_cong) (simp only: m if_False)
  moreover have "mem_bytes ?m dst (unat n) = mem_bytes m src (unat n)"
    by (intro mem_bytes_cong) (simp add: m off)
  moreover have "n \<le> a - dst \<Longrightarrow> ?m a = m a" for a by (simp only: m linorder_not_le [symmetric]) simp
  moreover have "snd (kmemcpy m dst src n) = dst" by (simp add: kmemcpy_def)
  ultimately show ?thesis by (simp add: kmemcmp_bytes)
qed

theorem kmemcpy_kmemcmp_witness:
  "kmemcmp (fst (kmemcpy (\<lambda>a. ucast a) 0x2000 0x1000 16)) 0x2000 0x1000 16 = 0"
  using kmemcpy_kmemcmp [of 16 "0x2000" "0x1000" "\<lambda>a. ucast a"] by simp

text \<open>
  \<^verbatim>\<open>kstrcpy\<close> of a string to a place that does not overlap it terminates, leaves a copy of
  the string there whose \<^verbatim>\<open>kstrlen\<close> is the length of the string and which \<^verbatim>\<open>kstrcmp\<close> finds
  equal to the source, and returns the address of the terminating zero of the copy.
\<close>

theorem kstrcpy_roundtrip:
  assumes "cstr m src bs" "length bs < unat (dst - src)" "length bs < unat (src - dst)"
  shows "\<exists>m'. kstrcpy m dst src = Some (m', dst + of_nat (length bs)) \<and> cstr m' dst bs \<and>
    kstrlen m' dst = Some (of_nat (length bs)) \<and> kstrcmp m' dst src = Some 0"
proof -
  let ?n = "length bs"
  let ?m = "\<lambda>a. if unat (a - dst) \<le> ?n then (bs @ [0]) ! unat (a - dst) else m a"
  have n: "?n < 2 ^ 32" using assms(2) unsigned_less [of "dst - src", where ?'a = nat] by simp
  have cp: "kstrcpy m dst src = Some (?m, dst + of_nat ?n)"
    using kstrcpy_cstr [OF assms(1) n] assms(2) by simp
  have off: "unat (of_nat i :: u32) = i" if "i \<le> ?n" for i
    using that n by (simp add: unat_of_nat_small)
  have d: "cstr ?m dst bs"
    unfolding cstr_iff using assms(1)
    by (auto simp: cstr_iff off nth_append intro!: nth_equalityI)
  have sep: "\<not> unat (src + of_nat i - dst) \<le> ?n" if "i \<le> ?n" for i
  proof -
    have "dst - src \<noteq> 0" using assms(2) by auto
    then have "unat (src - dst) = 2 ^ 32 - unat (dst - src)"
      using unat_sub_if' [of 0 "dst - src"] by (simp add: unat_gt_0)
    then have "unat (src - dst + of_nat i) = unat (src - dst) + i"
      using that assms(2) off [OF that] unsigned_less [of "dst - src", where ?'a = nat]
      by (subst unat_add_nowrap) auto
    moreover have "src + of_nat i - dst = src - dst + of_nat i" by simp
    ultimately have "unat (src + of_nat i - dst) = unat (src - dst) + i" by (simp only:)
    then show ?thesis using assms(3) by simp
  qed
  have src: "mem_bytes ?m src ?n = mem_bytes m src ?n"
    by (intro mem_bytes_cong) (simp only: sep less_imp_le_nat if_False)
  have "\<not> unat (src + of_nat ?n - dst) \<le> ?n" using sep [of ?n] by blast
  then have "cstr ?m src bs" using assms(1) src unfolding cstr_iff by (simp only: if_False) simp
  then have "kstrcmp ?m dst src = Some 0" using kstrcmp_cstr [OF d] by fastforce
  moreover have "kstrlen ?m dst = Some (of_nat ?n)"
    using kstrlen_loop_cstr [of ?m dst 0 bs] d by (simp add: kstrlen_def)
  ultimately show ?thesis using cp d by blast
qed

theorem kstrcpy_roundtrip_witness:
  "\<exists>m'. kstrcpy ((\<lambda>a. 0)(0x1000 := 104, 0x1001 := 105)) 0x2000 0x1000 = Some (m', 0x2002) \<and>
    cstr m' 0x2000 [104, 105]"
  using kstrcpy_roundtrip [of "(\<lambda>a. 0)(0x1000 := 104, 0x1001 := 105)" "0x1000" "[104, 105]" "0x2000"]
  by auto

text \<open>
  For a non-zero alignment, \<^verbatim>\<open>align_address_to_lower\<close> returns the largest multiple of it not
  above the address, and \<^verbatim>\<open>align_address_to_upper\<close> the smallest multiple not below it,
  provided that multiple is still a 32-bit number.
\<close>

theorem align_address_correct:
  assumes "0 < ALIGN" and up: "up = align_address_to_upper addr ALIGN"
    and lo: "lo = align_address_to_lower addr ALIGN"
    and fits: "unat addr + (unat ALIGN - 1) < 2 ^ 32"
  shows "unat ALIGN dvd unat lo \<and> unat lo \<le> unat addr \<and> unat addr < unat lo + unat ALIGN \<and>
    unat ALIGN dvd unat up \<and> unat addr \<le> unat up \<and> unat up < unat addr + unat ALIGN"
proof -
  let ?a = "unat addr" and ?n = "unat ALIGN"
  have n: "0 < ?n" using assms(1) by (simp add: word_less_nat_alt)
  have "(?a + ?n - 1) div ?n * ?n \<le> ?a + ?n - 1" by simp
  then have u: "unat up = (?a + ?n - 1) div ?n * ?n"
    using fits n unfolding up by (intro align_upper_unat [OF assms(1)]) linarith
  have l: "unat lo = ?a div ?n * ?n" by (simp add: lo align_lower_unat)
  have "?a < ?a div ?n * ?n + ?n" using n by (metis add.commute div_mult_mod_eq mod_less_divisor nat_add_left_cancel_less)
  moreover have "?a + ?n - 1 < (?a + ?n - 1) div ?n * ?n + ?n"
    using n by (metis add.commute div_mult_mod_eq mod_less_divisor nat_add_left_cancel_less)
  ultimately have "?a \<le> unat up" "unat up < ?a + ?n" "?a < unat lo + ?n"
    using u l n \<open>(?a + ?n - 1) div ?n * ?n \<le> ?a + ?n - 1\<close> by linarith+
  then show ?thesis by (simp add: u l)
qed

theorem align_address_correct_witness:
  "unat (4096 :: u32) dvd unat (align_address_to_upper 4097 4096) \<and>
   (4097 :: nat) \<le> unat (align_address_to_upper 4097 4096)"
  using align_address_correct [of 4096 "align_address_to_upper 4097 4096" 4097 "align_address_to_lower 4097 4096"]
  by simp

text \<open>
  For a strictly increasing index list that lies in its array, \<^verbatim>\<open>arr_remove_element_u32\<close>
  stays within both arrays and moves the elements whose index is not listed to the front, in
  their order; the rest of the array keeps its old contents.
\<close>

theorem arr_remove_element_correct:
  assumes "unat arr_size \<le> length arr" "unat n \<le> length idx" "sorted_wrt (<) (take (unat n) idx)"
  shows "arr_remove_element_u32 arr idx arr_size n =
    Some (let kept = arr_kept arr (take (unat n) idx) (unat arr_size) in kept @ drop (length kept) arr)"
proof -
  let ?idx = "take (unat n) idx"
  have "\<exists>s'. for_opt (arr_remove_step idx n) 0 arr_size (arr, 0, 0) = Some s' \<and>
      arr_remove_inv arr ?idx (unat arr_size) s'"
  proof (rule for_opt_inv [where P = "arr_remove_inv arr ?idx"])
    show "arr_remove_inv arr ?idx (unat (0 :: u32)) (arr, 0, 0)"
      by (simp add: arr_remove_inv_def arr_kept_def)
  next
    fix k s
    assume "arr_remove_inv arr ?idx (unat k) s" "0 \<le> k" "k < arr_size"
    then show "\<exists>s'. arr_remove_step idx n k s = Some s' \<and> arr_remove_inv arr ?idx (Suc (unat k)) s'"
      using assms by (intro arr_remove_step_inv) (auto simp: word_less_nat_alt)
  qed simp
  then show ?thesis by (auto simp: arr_remove_element_u32_def arr_remove_inv_def Let_def)
qed

theorem arr_remove_element_correct_witness:
  "arr_remove_element_u32 [10, 20, 30, 40, 50, 60] [1, 3] 6 2 =
    Some (let kept = arr_kept [10, 20, 30, 40, 50, 60] [1, 3] 6 in kept @ drop (length kept) [10, 20, 30, 40, 50, 60])"
  using arr_remove_element_correct [of 6 "[10, 20, 30, 40, 50, 60]" 2 "[1, 3]"] by simp

text \<open>The self test \<^verbatim>\<open>test_kutil\<close> stays in bounds and passes.\<close>

theorem test_kutil_passes: "test_kutil = Some True"
  by code_simp

end
