(* ===== verification/HeapTable.thy ===== *)
theory HeapTable
  imports Kutil
begin

text \<open>
  The alternative heap of \<^verbatim>\<open>src/src/memory/heap.{h,c}\<close> and \<^verbatim>\<open>kheap.c\<close>: one byte per 4096-byte block in a
  table. The configuration \<^verbatim>\<open>OS_HEAP_MM_ALT\<close> selects it instead of the chunk heap of theory
  \<open>HeapDL\<close>. The buffer the table points to is a list of bytes; an access outside it is a fault.
\<close>

section \<open>Data\<close>

definition HEAP_BLOCK_TABLE_ENTRY_TAKEN :: u8 where "HEAP_BLOCK_TABLE_ENTRY_TAKEN = 1"
definition HEAP_BLOCK_TABLE_ENTRY_FREE :: u8 where "HEAP_BLOCK_TABLE_ENTRY_FREE = 0"
definition HEAP_BLOCK_HAS_NEXT :: u8 where "HEAP_BLOCK_HAS_NEXT = 0b10000000"
definition HEAP_BLOCK_IS_FIRST :: u8 where "HEAP_BLOCK_IS_FIRST = 0b01000000"

lemmas block_flags = HEAP_BLOCK_TABLE_ENTRY_TAKEN_def HEAP_BLOCK_TABLE_ENTRY_FREE_def
  HEAP_BLOCK_HAS_NEXT_def HEAP_BLOCK_IS_FIRST_def

record HEAP_TABLE =
  ht_entries :: "u8 list"
  ht_total_blocks :: u32

record HEAP =
  hb_table :: "HEAP_TABLE option"
  hb_start_addr :: u32

definition HBLOCK_SIZE :: u32 where "HBLOCK_SIZE = OS_HEAP_BLOCK_SIZE"

lemma HBLOCK_SIZE_val [simp]: "HBLOCK_SIZE = 4096"
  by (simp add: HBLOCK_SIZE_def OS_HEAP_BLOCK_SIZE_def)

section \<open>Operations\<close>

definition heap_validate_alignment :: "u32 \<Rightarrow> bool" where
  "heap_validate_alignment ptr \<longleftrightarrow> ptr mod HBLOCK_SIZE = 0"

definition heap_validate_table :: "u32 \<Rightarrow> u32 \<Rightarrow> HEAP_TABLE \<Rightarrow> int" where
  "heap_validate_table heap_start heap_end table =
     (let total_memory_size = heap_end - heap_start;
          expected_total_table_blocks = total_memory_size div HBLOCK_SIZE
      in if ht_total_blocks table \<noteq> expected_total_table_blocks then - EINVARG else 0)"

text \<open>Misaligned bounds set \<^verbatim>\<open>res\<close> and jump to \<^verbatim>\<open>out\<close>, where 0 is returned all the same.\<close>

definition heap_create :: "HEAP \<Rightarrow> u32 \<Rightarrow> u32 \<Rightarrow> HEAP_TABLE \<Rightarrow> (HEAP \<times> int) option" where
  "heap_create heap heap_start heap_end table =
     (if \<not> heap_validate_alignment heap_start \<or> \<not> heap_validate_alignment heap_end then Some (heap, 0)
      else let res = heap_validate_table heap_start heap_end table in
        if res < 0 then Some (heap, res)
        else if length (ht_entries table) < unat (ht_total_blocks table) then None
        else let n = unat (ht_total_blocks table);
                 table = table\<lparr>ht_entries := replicate n 0 @ drop n (ht_entries table)\<rparr>
             in Some (\<lparr>hb_table = Some table, hb_start_addr = heap_start\<rparr>, 0))"

definition heap_table_heap_align_to_upper :: "u32 \<Rightarrow> u32" where
  "heap_table_heap_align_to_upper val =
     (let residual = val mod HBLOCK_SIZE in
      if residual = 0 then val else val + (HBLOCK_SIZE - residual))"

definition heap_table_heap_align_to_lower :: "u32 \<Rightarrow> u32" where
  "heap_table_heap_align_to_lower val =
     (let residual = val mod HBLOCK_SIZE in
      if residual = 0 then val else val - residual)"

definition heap_get_entry_type :: "u8 \<Rightarrow> u32" where
  "heap_get_entry_type entry = ucast (entry AND 0x0f)"

text \<open>\<open>n\<close> is the number of blocks from \<open>i\<close> to the end of the table.\<close>

fun heap_get_start_block_loop :: "u8 list \<Rightarrow> u32 \<Rightarrow> nat \<Rightarrow> nat \<Rightarrow> u32 \<Rightarrow> u32 option" where
  "heap_get_start_block_loop entries total_blocks 0 i counter = Some (word_of_int (- ENOMEM))"
| "heap_get_start_block_loop entries total_blocks (Suc n) i counter = do {
     e \<leftarrow> aget entries (int i);
     if heap_get_entry_type e \<noteq> ucast HEAP_BLOCK_TABLE_ENTRY_FREE
     then heap_get_start_block_loop entries total_blocks n (Suc i) 0
     else if counter + 1 = total_blocks then Some (of_nat i)
     else heap_get_start_block_loop entries total_blocks n (Suc i) (counter + 1)
   }"

definition heap_get_start_block :: "HEAP \<Rightarrow> u32 \<Rightarrow> u32 option" where
  "heap_get_start_block heap total_blocks = do {
     table \<leftarrow> hb_table heap;
     heap_get_start_block_loop (ht_entries table) total_blocks (unat (ht_total_blocks table)) 0 0
   }"

definition heap_block_to_address :: "HEAP \<Rightarrow> u32 \<Rightarrow> u32" where
  "heap_block_to_address heap block = hb_start_addr heap + block * HBLOCK_SIZE"

text \<open>The loop over the middle entries; \<open>n\<close> is the number of turns left.\<close>

fun heap_mark_middle :: "u8 \<Rightarrow> nat \<Rightarrow> int \<Rightarrow> u8 list \<Rightarrow> u8 list option" where
  "heap_mark_middle entry 0 i entries = Some entries"
| "heap_mark_middle entry (Suc n) i entries = do {
     entries \<leftarrow> aset entries i entry;
     heap_mark_middle entry n (i + 1) entries
   }"

definition heap_mark_blocks_taken :: "HEAP \<Rightarrow> u32 \<Rightarrow> u32 \<Rightarrow> HEAP option" where
  "heap_mark_blocks_taken heap start_block total_blocks = do {
     let end_block = start_block + total_blocks - 1;
     let entry = HEAP_BLOCK_TABLE_ENTRY_TAKEN;
     let entry = (if total_blocks > 1 then entry OR HEAP_BLOCK_HAS_NEXT else entry);
     table \<leftarrow> hb_table heap;
     entries \<leftarrow> aset (ht_entries table) (uint start_block) (entry OR HEAP_BLOCK_IS_FIRST);
     entries \<leftarrow> heap_mark_middle entry (nat (uint end_block - 1 - uint start_block)) (uint start_block + 1) entries;
     entries \<leftarrow> aset entries (uint end_block) HEAP_BLOCK_TABLE_ENTRY_TAKEN;
     Some (heap\<lparr>hb_table := Some (table\<lparr>ht_entries := entries\<rparr>)\<rparr>)
   }"

definition heap_malloc_blocks :: "HEAP \<Rightarrow> u32 \<Rightarrow> (HEAP \<times> u32) option" where
  "heap_malloc_blocks heap total_blocks = do {
     start_block \<leftarrow> heap_get_start_block heap total_blocks;
     if sint start_block < 0 then Some (heap, 0)
     else do {
       heap' \<leftarrow> heap_mark_blocks_taken heap start_block total_blocks;
       Some (heap', heap_block_to_address heap start_block)
     }
   }"

definition heap_malloc :: "HEAP \<Rightarrow> u32 \<Rightarrow> (HEAP \<times> u32) option" where
  "heap_malloc heap sz =
     (let aligned_size = heap_table_heap_align_to_upper sz;
          total_blocks = aligned_size div HBLOCK_SIZE
      in heap_malloc_blocks heap total_blocks)"

definition heap_address_to_block :: "HEAP \<Rightarrow> u32 \<Rightarrow> int" where
  "heap_address_to_block heap ptr = uint ((ptr - hb_start_addr heap) div HBLOCK_SIZE)"

definition heap_mark_blocks_free :: "HEAP \<Rightarrow> int \<Rightarrow> HEAP option" where
  "heap_mark_blocks_free heap start_block = do {
     table \<leftarrow> hb_table heap;
     e \<leftarrow> aget (ht_entries table) start_block;
     if e AND 1 \<noteq> HEAP_BLOCK_TABLE_ENTRY_FREE then do {
       entries \<leftarrow> aset (ht_entries table) start_block HEAP_BLOCK_TABLE_ENTRY_FREE;
       Some (heap\<lparr>hb_table := Some (table\<lparr>ht_entries := entries\<rparr>)\<rparr>)
     } else Some heap
   }"

definition heap_free :: "HEAP \<Rightarrow> u32 \<Rightarrow> HEAP option" where
  "heap_free heap ptr = heap_mark_blocks_free heap (heap_address_to_block heap ptr)"

text \<open>The kernel's instance (\<^verbatim>\<open>kheap.c\<close>). \<open>buf\<close> is the memory at \<^verbatim>\<open>OS_HEAP_TABLE_ADDRESS\<close>; the message printed on failure is not part of the state.\<close>

definition k_heap_table_mm_init :: "HEAP \<Rightarrow> u8 list \<Rightarrow> HEAP option" where
  "k_heap_table_mm_init kernel_heap buf =
     (let total_memory_blocks = OS_HEAP_SIZE_BYTES div OS_HEAP_BLOCK_SIZE;
          table = \<lparr>ht_entries = buf, ht_total_blocks = total_memory_blocks\<rparr>;
          heap_end = OS_HEAP_ADDRESS + OS_HEAP_SIZE_BYTES
      in map_option fst (heap_create kernel_heap OS_HEAP_ADDRESS heap_end table))"

definition k_heap_table_mm_malloc :: "HEAP \<Rightarrow> u32 \<Rightarrow> (HEAP \<times> u32) option" where
  "k_heap_table_mm_malloc kernel_heap sz = heap_malloc kernel_heap sz"

definition k_heap_table_mm_free :: "HEAP \<Rightarrow> u32 \<Rightarrow> HEAP option" where
  "k_heap_table_mm_free kernel_heap ptr = heap_free kernel_heap ptr"

section \<open>Requests of one block\<close>

definition heap_table_wf :: "HEAP \<Rightarrow> bool" where
  "heap_table_wf heap \<longleftrightarrow> (case hb_table heap of None \<Rightarrow> False | Some t \<Rightarrow>
     length (ht_entries t) = unat (ht_total_blocks t) \<and> unat (ht_total_blocks t) < 2 ^ 31 \<and>
     unat (hb_start_addr heap) + 4096 * unat (ht_total_blocks t) \<le> 2 ^ 32)"

abbreviation entries_of :: "HEAP \<Rightarrow> u8 list" where
  "entries_of heap \<equiv> ht_entries (the (hb_table heap))"

definition block_free :: "u8 \<Rightarrow> bool" where
  "block_free e \<longleftrightarrow> e AND 0x0f = 0"

lemma entry_type_free: "heap_get_entry_type e = ucast HEAP_BLOCK_TABLE_ENTRY_FREE \<longleftrightarrow> block_free e"
  by (simp add: heap_get_entry_type_def block_flags block_free_def del: unsigned_and_eq)

text \<open>The search for one block finds the first free one.\<close>

lemma start_block_loop_one:
  assumes "i + n = length entries"
  shows "heap_get_start_block_loop entries 1 n i 0 =
    Some (case List.find (\<lambda>j. block_free (entries ! j)) [i..<length entries] of
      None \<Rightarrow> word_of_int (- ENOMEM) | Some j \<Rightarrow> of_nat j)"
  using assms
proof (induction n arbitrary: i)
  case (Suc n)
  then have i: "i < length entries" by simp
  then have "aget entries (int i) = Some (entries ! i)" by (simp add: aget_def)
  moreover have "[i..<length entries] = i # [Suc i..<length entries]" using i by (rule upt_conv_Cons)
  ultimately show ?case
    using Suc.IH [of "Suc i"] Suc.prems by (simp add: entry_type_free)
qed simp

lemma align_to_upper_same: "heap_table_heap_align_to_upper v = align_address_to_upper v 4096"
  by (simp add: heap_table_heap_align_to_upper_def align_address_to_upper_def Let_def)

lemma one_block_request:
  assumes "0 < sz" "sz \<le> 4096"
  shows "heap_table_heap_align_to_upper sz div 4096 = 1"
proof -
  have "0 < unat sz" "unat sz \<le> 4096" using assms by (simp_all add: word_less_nat_alt word_le_nat_alt)
  then have "(unat sz + 4095) div 4096 = 1"
    by (intro div_nat_eqI) auto
  then have "unat (align_address_to_upper sz 4096) = 4096"
    using align_upper_unat [of 4096 sz] by simp
  then have "align_address_to_upper sz 4096 = 4096" by (simp add: word_unat_eq_iff)
  then show ?thesis by (simp add: align_to_upper_same)
qed

lemma mark_one_block:
  assumes "hb_table heap = Some t" "i < length (ht_entries t)" "i < 2 ^ 31"
  shows "heap_mark_blocks_taken heap (of_nat i) 1 =
    Some (heap\<lparr>hb_table := Some (t\<lparr>ht_entries := (ht_entries t)[i := HEAP_BLOCK_TABLE_ENTRY_TAKEN]\<rparr>)\<rparr>)"
proof -
  have "unat (of_nat i :: u32) = i" using assms(3) by (simp add: unat_of_nat_small)
  then show ?thesis using assms by (simp add: heap_mark_blocks_taken_def aset_word)
qed

lemma block_address:
  assumes "unat start + 4096 * n \<le> 2 ^ 32" "i < n" "n < 2 ^ 31"
  shows "unat (start + of_nat i * 4096 :: u32) = unat start + 4096 * i"
    and "(of_nat i * 4096 :: u32) div 4096 = of_nat i"
proof -
  have i: "unat (of_nat i :: u32) = i" using assms by (simp add: unat_of_nat_small)
  have le: "4096 * i + 4096 \<le> 4096 * n" using assms(2) by simp
  then have m: "unat (of_nat i * 4096 :: u32) = 4096 * i"
    using assms(1) i by (simp add: unat_word_ariths)
  then show "unat (start + of_nat i * 4096 :: u32) = unat start + 4096 * i"
    using assms(1) le by (subst unat_add_nowrap) auto
  show "(of_nat i * 4096 :: u32) div 4096 = of_nat i"
    using m i by (simp add: word_unat_eq_iff unat_div_distrib)
qed

text \<open>
  A request of at most one block on a well-formed table takes the first free block: it returns
  its address, which lies inside the heap, and marks it and no other block as taken; when no
  block is free it returns the null pointer and changes nothing. Freeing the returned address
  makes the block free again.
\<close>

theorem heap_malloc_one_block:
  assumes wf: "heap_table_wf heap" and sz: "0 < sz" "sz \<le> 4096"
  shows "case List.find (\<lambda>j. block_free (entries_of heap ! j)) [0..<length (entries_of heap)] of
      None \<Rightarrow> heap_malloc heap sz = Some (heap, 0)
    | Some i \<Rightarrow> \<exists>heap' p. heap_malloc heap sz = Some (heap', p) \<and>
        unat p = unat (hb_start_addr heap) + 4096 * i \<and> i < length (entries_of heap) \<and>
        entries_of heap' = (entries_of heap)[i := HEAP_BLOCK_TABLE_ENTRY_TAKEN] \<and> heap_table_wf heap' \<and>
        (\<exists>heap''. heap_free heap' p = Some heap'' \<and>
          entries_of heap'' = (entries_of heap)[i := HEAP_BLOCK_TABLE_ENTRY_FREE])"
proof -
  obtain t where t: "hb_table heap = Some t" "length (ht_entries t) = unat (ht_total_blocks t)"
    "unat (ht_total_blocks t) < 2 ^ 31" "unat (hb_start_addr heap) + 4096 * unat (ht_total_blocks t) \<le> 2 ^ 32"
    using wf by (auto simp: heap_table_wf_def split: option.splits)
  let ?f = "List.find (\<lambda>j. block_free (ht_entries t ! j)) [0..<length (ht_entries t)]"
  note one = one_block_request [OF sz]
  have start: "heap_get_start_block heap 1 = Some (case ?f of None \<Rightarrow> word_of_int (- ENOMEM) | Some j \<Rightarrow> of_nat j)"
    using start_block_loop_one [of 0 "unat (ht_total_blocks t)" "ht_entries t"] t
    by (simp add: heap_get_start_block_def)
  show ?thesis
  proof (cases ?f)
    case None
    then show ?thesis using start one t
      by (simp add: heap_malloc_def heap_malloc_blocks_def ENOMEM_def)
  next
    case (Some i)
    have i: "i < length (ht_entries t)" using Some by (auto simp: find_Some_iff)
    then have i31: "i < 2 ^ 31" using t by simp
    let ?t = "t\<lparr>ht_entries := (ht_entries t)[i := HEAP_BLOCK_TABLE_ENTRY_TAKEN]\<rparr>"
    let ?heap = "heap\<lparr>hb_table := Some ?t\<rparr>" and ?p = "hb_start_addr heap + of_nat i * 4096"
    have "0 \<le> sint (of_nat i :: u32)"
      using i31 by (simp add: sint_small unat_of_nat_small)
    then have m: "heap_malloc heap sz = Some (?heap, ?p)"
      using start one Some mark_one_block [OF t(1) i i31]
      by (simp add: heap_malloc_def heap_malloc_blocks_def heap_block_to_address_def)
    have addr: "unat ?p = unat (hb_start_addr heap) + 4096 * i"
      and blk: "(of_nat i * 4096 :: u32) div 4096 = of_nat i"
      using block_address [OF t(4)] i t(2,3) by auto
    have "uint (of_nat i :: u32) = int i" using i31 by (simp add: uint_nat unat_of_nat_small)
    then have "heap_free ?heap ?p = Some (?heap\<lparr>hb_table :=
        Some (t\<lparr>ht_entries := (ht_entries t)[i := HEAP_BLOCK_TABLE_ENTRY_FREE]\<rparr>)\<rparr>)"
      using i blk by (simp add: heap_free_def heap_address_to_block_def heap_mark_blocks_free_def aget_def
          aset_def block_flags)
    then show ?thesis using m addr i t Some by (simp add: heap_table_wf_def)
  qed
qed

definition heap_small :: "u8 list \<Rightarrow> HEAP" where
  "heap_small es = \<lparr>hb_table = Some \<lparr>ht_entries = es, ht_total_blocks = of_nat (length es)\<rparr>, hb_start_addr = 0x10000\<rparr>"

theorem heap_malloc_one_block_witness:
  "\<exists>heap' p. heap_malloc (heap_small [1, 0, 1, 0]) 100 = Some (heap', p) \<and> unat p = 0x11000"
  using heap_malloc_one_block [of "heap_small [1, 0, 1, 0]" 100]
  by (force simp: heap_small_def heap_table_wf_def block_free_def upt_rec)


end
