(* ===== verification/Arith64.thy ===== *)
theory Arith64
  imports Prelude
begin

text \<open>
  The 64-bit arithmetic of \<^verbatim>\<open>src/src/util/arith64.c\<close>, the routines the compiler calls for
  64-bit shifts and divisions on the 32-bit target. A signed 64-bit value is its bit pattern, a
  64-bit word, read with \<open>sint\<close>. The union \<^verbatim>\<open>arith64_word\<close> is given by the functions that read
  and write its two halves. A division by zero raises an exception: the value \<open>None\<close>.
\<close>

section \<open>The halves of a word\<close>

definition arith64_hi :: "u64 \<Rightarrow> u32" where
  "arith64_hi n = ucast (drop_bit 32 n)"

definition arith64_lo :: "u64 \<Rightarrow> u32" where
  "arith64_lo n = ucast n"

definition arith64_word :: "u32 \<Rightarrow> u32 \<Rightarrow> u64" where
  "arith64_word hi lo = push_bit 32 (ucast hi) OR ucast lo"

text \<open>\<^verbatim>\<open>arith64_neg(a, b)\<close>: invert and increment when \<open>b\<close> is negative.\<close>

definition arith64_neg :: "u64 \<Rightarrow> u64 \<Rightarrow> u64" where
  "arith64_neg a b = (a XOR (of_bool (sint b \<ge> 0) - 1)) + of_bool (sint b < 0)"

definition arith64_abs :: "u64 \<Rightarrow> u64" where
  "arith64_abs a = arith64_neg a a"

definition absvdi2 :: "u64 \<Rightarrow> u64" where
  "absvdi2 a = arith64_abs a"

section \<open>Shifts\<close>

definition ashldi3 :: "u64 \<Rightarrow> u32 \<Rightarrow> u64" where
  "ashldi3 a b =
     (let hi = arith64_hi a; lo = arith64_lo a; b = unat (b AND 63)
      in if b \<ge> 32 then arith64_word (push_bit (b - 32) lo) 0
         else if b \<noteq> 0 then arith64_word (drop_bit (32 - b) lo OR push_bit b hi) (push_bit b lo)
         else arith64_word hi lo)"

definition ashrdi3 :: "u64 \<Rightarrow> u32 \<Rightarrow> u64" where
  "ashrdi3 a b =
     (let hi = arith64_hi a; lo = arith64_lo a; b = unat (b AND 63)
      in if b \<ge> 32 then arith64_word (signed_drop_bit 31 hi) (signed_drop_bit (b - 32) hi)
         else if b \<noteq> 0 then arith64_word (signed_drop_bit b hi) (push_bit (32 - b) hi OR drop_bit b lo)
         else arith64_word hi lo)"

definition lshrdi3 :: "u64 \<Rightarrow> u32 \<Rightarrow> u64" where
  "lshrdi3 a b =
     (let hi = arith64_hi a; lo = arith64_lo a; b = unat (b AND 63)
      in if b \<ge> 32 then arith64_word 0 (drop_bit (b - 32) hi)
         else if b \<noteq> 0 then arith64_word (drop_bit b hi) (push_bit (32 - b) hi OR drop_bit b lo)
         else arith64_word hi lo)"

section \<open>Counting zeros and ones\<close>

text \<open>
  One line of the counting functions: \<^verbatim>\<open>b = !(a & mask) << s; n += b; a <<= b\<close> (or \<^verbatim>\<open>>>\<close>), where
  \<open>w\<close> is \<open>1 << s\<close>.
\<close>

definition clz_line :: "'a::len word \<Rightarrow> nat \<Rightarrow> nat \<times> 'a word \<Rightarrow> nat \<times> 'a word" where
  "clz_line m w s = (case s of (n, a) \<Rightarrow> let b = (if a AND m = 0 then w else 0) in (n + b, push_bit b a))"

definition ctz_line :: "'a::len word \<Rightarrow> nat \<Rightarrow> nat \<times> 'a word \<Rightarrow> nat \<times> 'a word" where
  "ctz_line m w s = (case s of (n, a) \<Rightarrow> let b = (if a AND m = 0 then w else 0) in (n + b, drop_bit b a))"

definition clzsi2 :: "u32 \<Rightarrow> nat" where
  "clzsi2 a =
     (let s = clz_line 0xffff0000 16 (0, a);
          s = clz_line 0xff000000 8 s;
          s = clz_line 0xf0000000 4 s;
          s = clz_line 0xc0000000 2 s
      in fst s + (if snd s AND 0x80000000 = 0 then 1 else 0))"

definition clzdi2 :: "u64 \<Rightarrow> nat" where
  "clzdi2 a =
     (let s = clz_line 0xffffffff00000000 32 (0, a);
          s = clz_line 0xffff000000000000 16 s;
          s = clz_line 0xff00000000000000 8 s;
          s = clz_line 0xf000000000000000 4 s;
          s = clz_line 0xc000000000000000 2 s
      in fst s + (if snd s AND 0x8000000000000000 = 0 then 1 else 0))"

definition ctzsi2 :: "u32 \<Rightarrow> nat" where
  "ctzsi2 a =
     (let s = ctz_line 0x0000ffff 16 (0, a);
          s = ctz_line 0x000000ff 8 s;
          s = ctz_line 0x0000000f 4 s;
          s = ctz_line 0x00000003 2 s
      in fst s + (if snd s AND 0x00000001 = 0 then 1 else 0))"

definition ctzdi2 :: "u64 \<Rightarrow> nat" where
  "ctzdi2 a =
     (let s = ctz_line 0x00000000ffffffff 32 (0, a);
          s = ctz_line 0x000000000000ffff 16 s;
          s = ctz_line 0x00000000000000ff 8 s;
          s = ctz_line 0x000000000000000f 4 s;
          s = ctz_line 0x0000000000000003 2 s
      in fst s + (if snd s AND 0x0000000000000001 = 0 then 1 else 0))"

definition ffsdi2 :: "u64 \<Rightarrow> nat" where
  "ffsdi2 a = (if a \<noteq> 0 then ctzdi2 a + 1 else 0)"

definition popcountsi2 :: "u32 \<Rightarrow> u32" where
  "popcountsi2 a =
     (let a = a - (drop_bit 1 a AND 0x55555555);
          a = (drop_bit 2 a AND 0x33333333) + (a AND 0x33333333);
          a = (a + drop_bit 4 a) AND 0x0F0F0F0F;
          a = a + drop_bit 16 a
      in (a + drop_bit 8 a) AND 63)"

definition popcountdi2 :: "u64 \<Rightarrow> u64" where
  "popcountdi2 a =
     (let a = a - (drop_bit 1 a AND 0x5555555555555555);
          a = (drop_bit 2 a AND 0x3333333333333333) + (a AND 0x3333333333333333);
          a = (a + drop_bit 4 a) AND 0x0F0F0F0F0F0F0F0F;
          a = a + drop_bit 32 a;
          a = a + drop_bit 16 a
      in (a + drop_bit 8 a) AND 127)"

section \<open>Division\<close>

text \<open>The loop of the long division; the first argument is \<^verbatim>\<open>bits\<close>. It returns \<^verbatim>\<open>rem\<close>, \<^verbatim>\<open>a\<close>, \<^verbatim>\<open>wrap\<close>.\<close>

fun divmod_loop :: "nat \<Rightarrow> u64 \<Rightarrow> u64 \<Rightarrow> u64 \<Rightarrow> u64 \<Rightarrow> u64 \<times> u64 \<times> u64" where
  "divmod_loop 0 b rem a wrap = (rem, a, wrap)"
| "divmod_loop (Suc bits) b rem a wrap =
     (let rem = push_bit 1 rem OR drop_bit 63 a;
          a = push_bit 1 a OR (wrap AND 1);
          wrap = signed_drop_bit 63 (b - rem - 1);
          rem = rem - (b AND wrap)
      in divmod_loop bits b rem a wrap)"

text \<open>Quotient and remainder; a caller that passes \<^verbatim>\<open>NULL\<close> for \<^verbatim>\<open>c\<close> ignores the remainder.\<close>

definition divmoddi4 :: "u64 \<Rightarrow> u64 \<Rightarrow> (u64 \<times> u64) option" where
  "divmoddi4 a b =
     (if b > a then Some (0, a)
      else if arith64_hi b = 0 \<and> b = 0 then None
      else if arith64_hi b = 0 \<and> b = 1 then Some (a, 0)
      else if arith64_hi b = 0 \<and> arith64_hi a = 0 then
        Some (ucast (arith64_lo a div arith64_lo b), ucast (arith64_lo a mod arith64_lo b))
      else
        (let bits = nat (int (clzdi2 b) - int (clzdi2 a) + 1);
             rem = drop_bit bits a;
             (rem, a, wrap) = divmod_loop bits b rem (push_bit (64 - bits) a) 0
         in Some (push_bit 1 a OR (wrap AND 1), rem)))"

definition udivdi3 :: "u64 \<Rightarrow> u64 \<Rightarrow> u64 option" where
  "udivdi3 a b = map_option fst (divmoddi4 a b)"

definition umoddi3 :: "u64 \<Rightarrow> u64 \<Rightarrow> u64 option" where
  "umoddi3 a b = map_option snd (divmoddi4 a b)"

definition divdi3 :: "u64 \<Rightarrow> u64 \<Rightarrow> u64 option" where
  "divdi3 a b = map_option (\<lambda>(q, r). arith64_neg q (a XOR b)) (divmoddi4 (arith64_abs a) (arith64_abs b))"

definition moddi3 :: "u64 \<Rightarrow> u64 \<Rightarrow> u64 option" where
  "moddi3 a b = map_option (\<lambda>(q, r). arith64_neg r a) (divmoddi4 (arith64_abs a) (arith64_abs b))"

section \<open>Shifts are correct\<close>

lemma bit_arith64_word: "bit (arith64_word hi lo) n \<longleftrightarrow> (if n < 32 then bit lo n else n < 64 \<and> bit hi (n - 32))"
  by (auto simp: arith64_word_def bit_or_iff bit_push_bit_iff bit_ucast_iff dest: bit_imp_le_length)

lemma bit_hi_lo: "bit (arith64_hi a) n \<longleftrightarrow> n < 32 \<and> bit a (n + 32)" "bit (arith64_lo a) n \<longleftrightarrow> n < 32 \<and> bit a n"
  by (auto simp: arith64_hi_def arith64_lo_def bit_ucast_iff bit_drop_bit_eq ac_simps)

lemma word_hi_lo: "arith64_word (arith64_hi a) (arith64_lo a) = a"
  by (rule bit_word_eqI) (auto simp: bit_arith64_word bit_hi_lo)

lemmas shift_bits = bit_arith64_word bit_hi_lo bit_or_iff bit_push_bit_iff bit_drop_bit_eq bit_signed_drop_bit_iff

lemma ashldi3_push_bit: "ashldi3 a b = push_bit (unat (b AND 63)) a"
proof -
  define k where "k = unat (b AND 63)"
  have "unat (b AND 63) \<le> 63" using word_and_le1 [of b 63] by (simp add: word_le_nat_alt)
  then have k: "k \<le> 63" by (simp add: k_def)
  show ?thesis unfolding ashldi3_def Let_def k_def [symmetric]
    by (rule bit_word_eqI) (use k in \<open>auto simp: shift_bits word_hi_lo not_le not_less dest: bit_imp_le_length\<close>)
qed

lemma lshrdi3_drop_bit: "lshrdi3 a b = drop_bit (unat (b AND 63)) a"
proof -
  define k where "k = unat (b AND 63)"
  have k: "k \<le> 63" using word_and_le1 [of b 63] by (simp add: word_le_nat_alt k_def)
  show ?thesis unfolding lshrdi3_def Let_def k_def [symmetric]
    by (rule bit_word_eqI) (use k in \<open>auto simp: shift_bits word_hi_lo not_le not_less ac_simps dest: bit_imp_le_length\<close>)
qed

lemma ashrdi3_signed_drop_bit: "ashrdi3 a b = signed_drop_bit (unat (b AND 63)) a"
proof -
  define k where "k = unat (b AND 63)"
  have k: "k \<le> 63" using word_and_le1 [of b 63] by (simp add: word_le_nat_alt k_def)
  have hi: "bit (signed_drop_bit j (arith64_hi a)) n = (n < 32 \<and> bit a (if 32 - j \<le> n then 63 else 32 + j + n))" for j n
    by (auto simp: bit_signed_drop_bit_iff bit_hi_lo ac_simps dest: bit_imp_le_length)
  have sd: "bit (signed_drop_bit k a) n = bit a (if 64 - k \<le> n then 63 else k + n)" if "n < 64" for n
    using that by (simp add: bit_signed_drop_bit_iff)
  have "bit (arith64_word (signed_drop_bit 31 (arith64_hi a)) (signed_drop_bit (k - 32) (arith64_hi a))) n =
      bit (signed_drop_bit k a) n" if "n < 64" "32 \<le> k" for n
  proof (cases "n < 32")
    case True
    then have "32 - (k - 32) \<le> n \<longleftrightarrow> 64 - k \<le> n" "32 + (k - 32) + n = k + n" using that k by auto
    then show ?thesis using True that sd [of n] by (simp only: bit_arith64_word hi) simp
  next
    case False
    then have "(if 32 - 31 \<le> n - 32 then 63 else 32 + 31 + (n - 32)) = (63 :: nat)" "64 - k \<le> n" "n - 32 < 32" using that k by auto
    then show ?thesis using False that sd [of n] by (simp only: bit_arith64_word hi) simp
  qed
  moreover have "bit (arith64_word (signed_drop_bit k (arith64_hi a)) (push_bit (32 - k) (arith64_hi a) OR drop_bit k (arith64_lo a))) n =
      bit (signed_drop_bit k a) n" if "n < 64" "k < 32" "k \<noteq> 0" for n
  proof (cases "n < 32")
    case True
    then have "(32 - k \<le> n \<and> n - (32 - k) < 32 \<and> bit a (n - (32 - k) + 32) \<or> k + n < 32 \<and> bit a (k + n)) = bit a (k + n)"
      using that by (cases "k + n < 32") (auto simp: not_less add.commute)
    moreover have "\<not> 64 - k \<le> n" using True that by simp
    ultimately show ?thesis using True that sd [of n]
      by (simp add: bit_arith64_word bit_or_iff bit_push_bit_iff bit_drop_bit_eq bit_hi_lo ac_simps)
  next
    case False
    then have "32 - k \<le> n - 32 \<longleftrightarrow> 64 - k \<le> n" "32 + k + (n - 32) = k + n" "n - 32 < 32" using that by auto
    then show ?thesis using False that sd [of n] by (simp only: bit_arith64_word hi) simp
  qed
  ultimately show ?thesis unfolding ashrdi3_def Let_def k_def [symmetric]
    by (intro bit_word_eqI) (auto simp: word_hi_lo not_le)
qed

section \<open>Leading zeros\<close>

lemma and_high_mask_eq_0:
  fixes a :: "'a::len word"
  assumes "k \<le> LENGTH('a)"
  shows "a AND NOT (mask k) = 0 \<longleftrightarrow> unat a < 2 ^ k"
proof -
  have "a AND NOT (mask k) = 0 \<longleftrightarrow> take_bit k a = a"
    by (auto simp: bit_eq_iff bit_simps)
  also have "\<dots> \<longleftrightarrow> take_bit k (unat a) = unat a" by (metis unsigned_take_bit_eq word_unat_eq_iff)
  finally show ?thesis by (simp add: take_bit_nat_eq_self_iff)
qed

text \<open>One line keeps the product and moves the leading one into the upper \<open>w\<close> bits.\<close>

lemma clz_line_correct:
  fixes a :: "'a::len word"
  assumes "w \<le> LENGTH('a)" "m = NOT (mask (LENGTH('a) - w))" "2 ^ (LENGTH('a) - 2 * w) \<le> unat a"
    and "clz_line m w (n, a) = (n', a')"
  shows "\<exists>b. n' = n + b \<and> unat a' = unat a * 2 ^ b \<and> 2 ^ (LENGTH('a) - w) \<le> unat a'"
proof (cases "unat a < 2 ^ (LENGTH('a) - w)")
  case True
  then have "a AND m = 0" using assms(1,2) and_high_mask_eq_0 [of "LENGTH('a) - w" a] by simp
  then have r: "n' = n + w" "a' = push_bit w a" using assms(4) by (auto simp: clz_line_def)
  have lt: "unat a * 2 ^ w < 2 ^ LENGTH('a)"
    using True assms(1) by (metis le_add_diff_inverse2 mult.commute mult_less_cancel1 power_add zero_less_numeral zero_less_power)
  have u: "unat (push_bit w a) = unat a * 2 ^ w"
    using lt by (subst unsigned_push_bit_eq) (simp add: push_bit_eq_mult take_bit_nat_eq_self_iff mult.commute)
  have "(2::nat) ^ (LENGTH('a) - w) \<le> 2 ^ (LENGTH('a) - 2 * w) * 2 ^ w"
    by (metis diff_le_mono le_diff_conv le_add_diff_inverse2 mult_2 nat_le_linear one_le_numeral power_add power_increasing diff_diff_left)
  also have "\<dots> \<le> unat a * 2 ^ w" using assms(3) by simp
  finally show ?thesis using r u by auto
next
  case False
  then have "a AND m \<noteq> 0" using assms(1,2) and_high_mask_eq_0 [of "LENGTH('a) - w" a] by simp
  then show ?thesis using False assms(4) by (auto simp: clz_line_def)
qed

lemma clzdi2_correct:
  assumes "a \<noteq> 0"
  shows "2 ^ 63 \<le> unat a * 2 ^ clzdi2 a \<and> unat a * 2 ^ clzdi2 a < 2 ^ 64"
proof -
  have pos: "2 ^ (LENGTH(64) - 2 * 32) \<le> unat a" using assms by (simp add: unat_gt_0 Suc_le_eq)
  obtain n1 a1 where s1: "clz_line 0xffffffff00000000 32 (0, a) = (n1, a1)" by fastforce
  obtain n2 a2 where s2: "clz_line 0xffff000000000000 16 (n1, a1) = (n2, a2)" by fastforce
  obtain n3 a3 where s3: "clz_line 0xff00000000000000 8 (n2, a2) = (n3, a3)" by fastforce
  obtain n4 a4 where s4: "clz_line 0xf000000000000000 4 (n3, a3) = (n4, a4)" by fastforce
  obtain n5 a5 where s5: "clz_line 0xc000000000000000 2 (n4, a4) = (n5, a5)" by fastforce
  have m: "(0xffffffff00000000 :: u64) = NOT (mask (LENGTH(64) - 32))" "(0xffff000000000000 :: u64) = NOT (mask (LENGTH(64) - 16))"
    "(0xff00000000000000 :: u64) = NOT (mask (LENGTH(64) - 8))" "(0xf000000000000000 :: u64) = NOT (mask (LENGTH(64) - 4))"
    "(0xc000000000000000 :: u64) = NOT (mask (LENGTH(64) - 2))" "(0x8000000000000000 :: u64) = NOT (mask (LENGTH(64) - 1))"
    by (simp_all add: mask_eq_exp_minus_1)
  obtain b1 where b1: "n1 = b1" "unat a1 = unat a * 2 ^ b1" "2 ^ 32 \<le> unat a1"
    using clz_line_correct [OF _ m(1) _ s1] pos by auto
  obtain b2 where b2: "n2 = n1 + b2" "unat a2 = unat a1 * 2 ^ b2" "2 ^ 48 \<le> unat a2"
    using clz_line_correct [OF _ m(2) _ s2] b1 by auto
  obtain b3 where b3: "n3 = n2 + b3" "unat a3 = unat a2 * 2 ^ b3" "2 ^ 56 \<le> unat a3"
    using clz_line_correct [OF _ m(3) _ s3] b2 by auto
  obtain b4 where b4: "n4 = n3 + b4" "unat a4 = unat a3 * 2 ^ b4" "2 ^ 60 \<le> unat a4"
    using clz_line_correct [OF _ m(4) _ s4] b3 by auto
  obtain b5 where b5: "n5 = n4 + b5" "unat a5 = unat a4 * 2 ^ b5" "2 ^ 62 \<le> unat a5"
    using clz_line_correct [OF _ m(5) _ s5] b4 by auto
  have u5: "unat a5 = unat a * 2 ^ n5" using b1 b2 b3 b4 b5 by (simp add: power_add)
  have z: "a5 AND 0x8000000000000000 = 0 \<longleftrightarrow> unat a5 < 2 ^ 63"
    unfolding m(6) using and_high_mask_eq_0 [of 63 a5] by simp
  have c: "clzdi2 a = n5 + (if unat a5 < 2 ^ 63 then 1 else 0)"
    using z by (simp add: clzdi2_def Let_def s1 s2 s3 s4 s5)
  have "unat a5 < 2 ^ 64" using unsigned_less [of a5, where ?'a = nat] by simp
  then show ?thesis using b5(3) u5 by (auto simp: c)
qed

section \<open>Division\<close>

lemma signed_drop_bit_63: "signed_drop_bit 63 (x :: u64) = (if unat x < 2 ^ 63 then 0 else -1)"
proof -
  have "bit x 63 \<longleftrightarrow> odd (unat x div 2 ^ 63)" by (metis bit_iff_odd bit_unsigned_iff possible_bit_nat)
  moreover have "unat x div 2 ^ 63 = (if unat x < 2 ^ 63 then 0 else 1)"
    using unsigned_less [of x, where ?'a = nat] by (auto intro!: div_nat_eqI)
  ultimately have "bit x 63 \<longleftrightarrow> \<not> unat x < 2 ^ 63" by simp
  then show ?thesis
    by (intro bit_word_eqI) (auto simp: bit_signed_drop_bit_iff not_le less_Suc_eq_le)
qed

text \<open>
  The invariant with \<open>m\<close> turns to go: \<open>rem\<close> and the quotient bits collected in \<open>a\<close> and \<open>wrap\<close>
  are those of \<open>N div 2 ^ m\<close>, and the upper \<open>m\<close> bits of \<open>a\<close> are the lower \<open>m\<close> bits of \<open>N\<close>.
\<close>

definition div_inv :: "nat \<Rightarrow> nat \<Rightarrow> nat \<Rightarrow> u64 \<Rightarrow> u64 \<Rightarrow> u64 \<Rightarrow> bool" where
  "div_inv m N B rem a wrap \<longleftrightarrow>
     unat rem = N div 2 ^ m mod B \<and>
     unat a = N mod 2 ^ m * 2 ^ (64 - m) + N div 2 ^ m div B div 2 \<and>
     N div 2 ^ m div B div 2 < 2 ^ (64 - m) \<and>
     wrap = (if odd (N div 2 ^ m div B) then -1 else 0)"

lemma div_step_arith:
  fixes N B m :: nat
  assumes "0 < B"
  defines "bt \<equiv> N mod 2 ^ Suc m div 2 ^ m"
  defines "r \<equiv> 2 * (N div 2 ^ Suc m mod B) + bt"
  shows "N div 2 ^ m = 2 * (N div 2 ^ Suc m) + bt" "bt \<le> 1" "N mod 2 ^ Suc m = bt * 2 ^ m + N mod 2 ^ m" "r < 2 * B"
    "N div 2 ^ m mod B = (if r < B then r else r - B)"
    "N div 2 ^ m div B = 2 * (N div 2 ^ Suc m div B) + (if r < B then 0 else 1)"
proof -
  let ?M = "N div 2 ^ Suc m"
  show M: "N div 2 ^ m = 2 * ?M + bt"
  proof -
    have "N = ?M * 2 ^ Suc m + N mod 2 ^ Suc m" by (rule div_mod_decomp)
    then have "N div 2 ^ m = (?M * 2 * 2 ^ m + N mod 2 ^ Suc m) div 2 ^ m" by (metis mult.assoc power_Suc)
    then show ?thesis by (simp add: bt_def)
  qed
  have "bt < 2" unfolding bt_def by (rule less_mult_imp_div_less) simp
  then show bt: "bt \<le> 1" by simp
  show "N mod 2 ^ Suc m = bt * 2 ^ m + N mod 2 ^ m"
    using div_mod_decomp [of "N mod 2 ^ Suc m" "2 ^ m"] mod_mod_cancel [of "2 ^ m" "2 ^ Suc m" N] by (simp add: bt_def)
  have rb: "?M mod B < B" using assms(1) by simp
  then show r2: "r < 2 * B" using bt by (simp add: r_def)
  have e: "N div 2 ^ m = 2 * (?M div B) * B + r"
  proof -
    have "2 * k = 2 * (k div B) * B + 2 * (k mod B)" for k
      by (metis add_mult_distrib2 div_mult_mod_eq mult.assoc)
    from arg_cong [OF this [of ?M], of "\<lambda>k. k + bt"] show ?thesis unfolding M r_def by (simp only: add.assoc)
  qed
  show "N div 2 ^ m mod B = (if r < B then r else r - B)"
  proof -
    have "r mod B = r - B" if "\<not> r < B" using that r2 le_mod_geq [of B r] by simp
    then show ?thesis unfolding e by simp
  qed
  show "N div 2 ^ m div B = 2 * (?M div B) + (if r < B then 0 else 1)"
  proof (cases "r < B")
    case False
    then have "r div B = 1" using r2 by (intro div_nat_eqI) auto
    then show ?thesis unfolding e using False assms(1) by simp
  qed (use assms(1) in \<open>simp add: e\<close>)
qed

lemma mod_le_one: "(k :: nat) mod 2 \<le> 1"
  by simp

lemma odd_wrap_and_1: "(if odd k then -1 else 0 :: u64) AND 1 = of_nat (k mod 2)"
  by (auto simp: odd_iff_mod_2_eq_one even_iff_mod_2_eq_zero)

lemma push_bit_1_or:
  fixes x :: u64
  assumes "b \<le> 1"
  shows "push_bit 1 x OR of_nat b = 2 * x + of_nat b"
proof -
  have "push_bit 1 x AND 1 = 0" by (rule bit_word_eqI) (auto simp only: bit_and_iff bit_push_bit_iff bit_1_iff bit_0_eq bot_apply, simp_all)
  then have "push_bit 1 x OR 1 = push_bit 1 x + 1" by (simp add: disjunctive_add_eq_or)
  moreover have "b = 0 \<or> b = 1" using assms by auto
  ultimately show ?thesis by (auto simp: push_bit_eq_mult mult.commute)
qed

lemma len64: "LENGTH(64) = 64"
  by simp

lemma unat_ucast_u32 [simp]: "unat (ucast (x :: u32) :: u64) = unat x"
  by transfer simp

lemma unat_lt_64: "unat (x :: u64) < 2 ^ 64"
  using unsigned_less [of x, where ?'a = nat] by simp

lemma unat_double_plus:
  fixes x :: u64
  assumes "2 * unat x + b < 2 ^ 64"
  shows "unat (2 * x + of_nat b) = 2 * unat x + b"
  using assms by (simp add: unat_word_ariths unat_of_nat)

lemma div_step:
  assumes inv: "div_inv (Suc m) N B rem a wrap" and B: "0 < B" "B < 2 ^ 64" "unat b = B" and N: "N < 2 ^ 64" and m: "m < 64"
    and big: "B \<le> 2 ^ 63 \<or> m = 0 \<and> B \<le> N"
  defines "rem1 \<equiv> push_bit 1 rem OR drop_bit 63 a"
  defines "wrap1 \<equiv> signed_drop_bit 63 (b - rem1 - 1)"
  shows "div_inv m N B (rem1 - (b AND wrap1)) (push_bit 1 a OR (wrap AND 1)) wrap1"
proof -
  define M where "M = N div 2 ^ Suc m"
  define bt where "bt = N mod 2 ^ Suc m div 2 ^ m"
  define r where "r = 2 * (M mod B) + bt"
  note ar = div_step_arith [OF B(1), of N m, folded bt_def M_def, folded r_def]
  note i = inv [unfolded div_inv_def, folded M_def]
  define x where "x = N mod 2 ^ m"
  define L where "L = M div B div 2"
  have pw: "(2 :: nat) ^ 63 = 2 ^ m * 2 ^ (63 - m)" "(2 :: nat) ^ 64 = 2 ^ m * 2 ^ (64 - m)" "(2 :: nat) ^ (64 - m) = 2 * 2 ^ (63 - m)"
    using m by (simp_all flip: power_add power_Suc)
  have ua: "unat a = (bt * 2 ^ m + x) * 2 ^ (63 - m) + L" and L: "L < 2 ^ (63 - m)"
    using i ar(3) by (simp_all add: L_def x_def)
  have lo: "x * 2 ^ (63 - m) + L < 2 ^ 63"
  proof -
    have "Suc x \<le> 2 ^ m" by (simp add: x_def Suc_le_eq)
    then have "Suc x * 2 ^ (63 - m) \<le> 2 ^ m * 2 ^ (63 - m)" by (rule mult_le_mono1)
    then show ?thesis using L unfolding pw(1) by simp
  qed
  have "unat a = bt * 2 ^ 63 + (x * 2 ^ (63 - m) + L)" using ua unfolding pw(1) by (simp add: algebra_simps)
  then have "unat a div 2 ^ 63 = bt" using lo by simp
  then have "unat (drop_bit 63 a) = bt" by (subst unat_drop_bit_eq) (simp only: drop_bit_eq_div)
  then have top: "drop_bit 63 a = of_nat bt" by (metis word_unat_eq_iff unat_of_nat_small unat_lt_64 len64)
  have rN: "r = N" if "\<not> B \<le> 2 ^ 63"
  proof -
    have "M < 2 ^ 63" using N that big by (simp add: M_def)
    then show ?thesis using that big ar(1) by (simp add: r_def M_def)
  qed
  have r2: "r < 2 * B" using ar(4) by (simp add: r_def)
  have r64: "r < 2 ^ 64" using r2 rN N by (cases "B \<le> 2 ^ 63") simp_all
  have rem1: "unat rem1 = r"
    using push_bit_1_or [OF ar(2), of rem] unat_double_plus [of rem bt] r64 i by (simp add: rem1_def top r_def)
  have wrap1: "wrap1 = (if r < B then 0 else -1)"
  proof (cases "r < B")
    case True
    then have "B \<le> 2 ^ 63" using rN big by (cases "B \<le> 2 ^ 63") simp_all
    moreover have "unat (b - rem1 - 1) = B - r - 1" using True B rem1 by (simp add: unat_sub_if')
    ultimately show ?thesis using True by (simp add: wrap1_def signed_drop_bit_63)
  next
    case False
    then have "unat (b - rem1 - 1) = 2 ^ 64 - (r - B) - 1" using B rem1 r64 by (auto simp: unat_sub_if' Suc_le_eq)
    moreover have "r - B < 2 ^ 63" using r2 r64 by (cases "B \<le> 2 ^ 63") simp_all
    ultimately show ?thesis using False by (simp add: wrap1_def signed_drop_bit_63)
  qed
  have "unat (rem1 - (b AND wrap1)) = N div 2 ^ m mod B"
    using wrap1 rem1 B ar(5) by (simp add: unat_sub_if')
  moreover have "unat (push_bit 1 a OR (wrap AND 1)) = x * 2 ^ (64 - m) + M div B"
  proof -
    have "wrap AND 1 = of_nat (M div B mod 2)" using i odd_wrap_and_1 [of "M div B"] by simp
    then have "push_bit 1 a OR (wrap AND 1) = 2 * a + of_nat (M div B mod 2)"
      using push_bit_1_or [of "M div B mod 2" a] by (simp only: mod_le_one)
    then have "unat (push_bit 1 a OR (wrap AND 1)) = (2 * unat a + M div B mod 2) mod 2 ^ 64"
      by (simp add: unat_word_ariths unat_of_nat mod_simps)
    also have "2 * unat a + M div B mod 2 = x * 2 ^ (64 - m) + M div B + bt * 2 ^ 64"
      using ua unfolding pw(2,3) L_def by (simp add: algebra_simps)
    also have "(x * 2 ^ (64 - m) + M div B + bt * 2 ^ 64) mod 2 ^ 64 = x * 2 ^ (64 - m) + M div B"
      using lo L unfolding pw(3) L_def by simp
    finally show ?thesis .
  qed
  moreover have "M div B < 2 ^ (64 - m)" using L unfolding pw(3) L_def by simp
  ultimately show ?thesis using wrap1 ar(6) by (simp add: div_inv_def x_def)
qed

lemma divmod_loop_correct:
  assumes "div_inv m N B rem a wrap" "0 < B" "B < 2 ^ 64" "unat b = B" "N < 2 ^ 64" "m \<le> 64"
    and "m = 0 \<or> B \<le> 2 ^ 63 \<or> m = 1 \<and> B \<le> N"
  shows "\<exists>rem' a' wrap'. divmod_loop m b rem a wrap = (rem', a', wrap') \<and> div_inv 0 N B rem' a' wrap'"
  using assms
proof (induction m arbitrary: rem a wrap)
  case (Suc m)
  note st = div_step [OF Suc.prems(1-5)]
  have "m < 64" "B \<le> 2 ^ 63 \<or> m = 0 \<and> B \<le> N" using Suc.prems by auto
  from Suc.IH [OF st [OF this]] Suc.prems show ?case by (auto simp: Let_def)
qed simp

text \<open>The number of bits the loop runs over is enough.\<close>

lemma divmod_bits:
  fixes a b :: u64
  assumes "b \<noteq> 0" "b \<le> a"
  defines "n \<equiv> nat (int (clzdi2 b) - int (clzdi2 a) + 1)"
  shows "n \<le> 64" "unat a < unat b * 2 ^ n" "unat b \<le> 2 ^ 63 \<or> n = 1"
proof -
  have a0: "a \<noteq> 0" using assms(1,2) by auto
  have le: "unat b \<le> unat a" "1 \<le> unat b" using assms(1,2) by (simp_all add: word_le_nat_alt unat_gt_0 Suc_le_eq)
  note ca = clzdi2_correct [OF a0] and cb = clzdi2_correct [OF assms(1)]
  have "clzdi2 b < 64"
  proof (rule ccontr)
    assume "\<not> clzdi2 b < 64"
    then have "(2 :: nat) ^ 64 \<le> 2 ^ clzdi2 b" by (intro power_increasing) simp_all
    also have "\<dots> \<le> unat b * 2 ^ clzdi2 b" using le(2) by simp
    finally show False using cb by simp
  qed
  moreover have ge: "clzdi2 a \<le> clzdi2 b"
  proof (rule ccontr)
    assume "\<not> clzdi2 a \<le> clzdi2 b"
    then have "(2 :: nat) ^ Suc (clzdi2 b) \<le> 2 ^ clzdi2 a" by (intro power_increasing) simp_all
    then have "unat b * 2 ^ Suc (clzdi2 b) \<le> unat a * 2 ^ clzdi2 a" using le by (intro mult_le_mono) auto
    then show False using ca cb by simp
  qed
  ultimately show "n \<le> 64" by (simp add: n_def)
  have n: "n + clzdi2 a = Suc (clzdi2 b)" using ge by (simp add: n_def)
  have "unat a * 2 ^ clzdi2 a < unat b * 2 ^ Suc (clzdi2 b)" using ca cb by simp
  also have "\<dots> = unat b * 2 ^ n * 2 ^ clzdi2 a" by (simp only: n [symmetric] power_add mult.assoc)
  finally show "unat a < unat b * 2 ^ n" by (simp only: mult_less_cancel2)
  show "unat b \<le> 2 ^ 63 \<or> n = 1"
  proof (cases "clzdi2 b")
    case 0 then show ?thesis using ge by (simp add: n_def)
  next
    case (Suc k)
    then have "(2 :: nat) ^ 1 \<le> 2 ^ clzdi2 b" by (intro power_increasing) simp_all
    then have "unat b * 2 \<le> unat b * 2 ^ clzdi2 b" by (intro mult_le_mono) simp_all
    then have "unat b * 2 < 2 ^ 64" using cb by linarith
    then show ?thesis by simp
  qed
qed

lemma hi_0_lo: "arith64_hi a = 0 \<Longrightarrow> ucast (arith64_lo a) = a"
proof -
  assume h: "arith64_hi a = 0"
  have "bit a n \<longleftrightarrow> n < 32 \<and> bit a n" if "n < 64" for n
    using arg_cong [OF h, of "\<lambda>w. bit w (n - 32)"] that by (cases "n < 32") (auto simp: bit_hi_lo not_less)
  then show ?thesis by (intro bit_word_eqI) (auto simp: bit_ucast_iff bit_hi_lo)
qed

lemma divmoddi4_correct:
  assumes "b \<noteq> 0"
  shows "divmoddi4 a b = Some (a div b, a mod b)"
proof -
  consider "b > a" | "\<not> b > a" "arith64_hi b = 0" "b = 1" | "\<not> b > a" "arith64_hi b = 0" "b \<noteq> 1" "arith64_hi a = 0"
    | "\<not> b > a" "\<not> (arith64_hi b = 0 \<and> b = 1)" "\<not> (arith64_hi b = 0 \<and> arith64_hi a = 0)"
    by blast
  then show ?thesis
  proof cases
    case 3
    have u: "unat (arith64_lo a) = unat a" "unat (arith64_lo b) = unat b"
      using hi_0_lo [OF 3(2)] hi_0_lo [OF 3(4)] unat_ucast_u32 by metis+
    then have "ucast (arith64_lo a div arith64_lo b) = a div b" "ucast (arith64_lo a mod arith64_lo b) = a mod b"
      by (simp_all add: word_unat_eq_iff unat_ucast_u32 unat_div unat_mod)
    then show ?thesis using 3 assms by (simp add: divmoddi4_def)
  next
    case 4
    define n where "n = nat (int (clzdi2 b) - int (clzdi2 a) + 1)"
    have le: "b \<le> a" using 4(1) by simp
    note nb = divmod_bits [OF assms le, folded n_def]
    have B: "0 < unat b" using assms by (simp add: unat_gt_0)
    have q0: "unat a div 2 ^ n < unat b" using nb(2) by (simp add: less_mult_imp_div_less)
    have "unat (push_bit (64 - n) a) = unat a mod 2 ^ n * 2 ^ (64 - n)"
    proof -
      have "(2 :: nat) ^ 64 = 2 ^ n * 2 ^ (64 - n)" using nb(1) by (simp flip: power_add)
      then show ?thesis by (subst unsigned_push_bit_eq) (simp add: push_bit_eq_mult take_bit_eq_mod mult_mod_left)
    qed
    moreover have "unat (drop_bit n a) = unat a div 2 ^ n" by (subst unat_drop_bit_eq) (simp only: drop_bit_eq_div)
    ultimately have inv: "div_inv n (unat a) (unat b) (drop_bit n a) (push_bit (64 - n) a) 0"
      using q0 by (simp add: div_inv_def)
    obtain r' a' w' where l: "divmod_loop n b (drop_bit n a) (push_bit (64 - n) a) 0 = (r', a', w')"
      and inv': "div_inv 0 (unat a) (unat b) r' a' w'"
      using divmod_loop_correct [OF inv B unat_lt_64 refl unat_lt_64 nb(1)] nb(3) le by (auto simp: word_le_nat_alt)
    have "unat r' = unat a mod unat b" "unat a' = unat a div unat b div 2" "w' AND 1 = of_nat (unat a div unat b mod 2)"
      using inv' odd_wrap_and_1 [of "unat a div unat b"] by (simp_all add: div_inv_def)
    moreover have "unat a div unat b < 2 ^ 64" using unat_lt_64 [of a] div_le_dividend [of "unat a" "unat b"] by linarith
    moreover have "push_bit 1 a' OR of_nat (unat a div unat b mod 2) = 2 * a' + of_nat (unat a div unat b mod 2)"
      by (rule push_bit_1_or) simp
    ultimately have "r' = a mod b" "push_bit 1 a' OR (w' AND 1) = a div b"
      using unat_double_plus [of a' "unat a div unat b mod 2"]
      by (simp_all only:) (simp_all add: word_unat_eq_iff unat_mod unat_div)
    then show ?thesis using 4 assms by (auto simp: divmoddi4_def n_def [symmetric] l Let_def)
  qed (use assms in \<open>simp_all add: divmoddi4_def div_word_less mod_word_less\<close>)
qed

section \<open>Properties\<close>

lemma arith64_neg_eq: "arith64_neg a b = (if sint b < 0 then - a else a)"
  using minus_eq_not_plus_1 [of a] by (simp add: arith64_neg_def)

lemma arith64_abs_eq: "arith64_abs a = (if sint a < 0 then - a else a)"
  by (simp add: arith64_abs_def arith64_neg_eq)

lemma divmoddi4_0: "divmoddi4 a 0 = None"
  by (simp add: divmoddi4_def arith64_hi_def)

lemma sint_xor_neg: "sint (a XOR b :: u64) < 0 \<longleftrightarrow> (sint a < 0) \<noteq> (sint b < 0)"
  by (simp flip: bit_last_iff add: bit_xor_iff)

text \<open>
  C25: The compiler's division helpers are division: for every divisor but 0, for which they raise the
  exception, the unsigned routines return the quotient and the remainder of the 64-bit values, and the
  signed ones divide the absolute values and set the signs as C does (the quotient is negative if
  the signs differ, the remainder has the sign of the dividend).
\<close>

theorem arith64_division_correct:
  "udivdi3 a b = (if b = 0 then None else Some (a div b)) \<and>
   umoddi3 a b = (if b = 0 then None else Some (a mod b)) \<and>
   divdi3 a b = (if b = 0 then None else
      Some (let q = arith64_abs a div arith64_abs b in if (sint a < 0) \<noteq> (sint b < 0) then - q else q)) \<and>
   moddi3 a b = (if b = 0 then None else
      Some (let r = arith64_abs a mod arith64_abs b in if sint a < 0 then - r else r)) \<and>
   arith64_abs a = (if sint a < 0 then - a else a)"
proof (cases "b = 0")
  case True
  then show ?thesis
    by (simp add: udivdi3_def umoddi3_def divdi3_def moddi3_def divmoddi4_0 arith64_abs_eq)
next
  case False
  then have "arith64_abs b \<noteq> 0" by (simp add: arith64_abs_eq)
  then show ?thesis using False
    by (simp add: udivdi3_def umoddi3_def divdi3_def moddi3_def divmoddi4_correct arith64_neg_eq sint_xor_neg Let_def)
      (simp add: arith64_abs_eq)
qed

text \<open>
  The shift helpers, which work on the two 32-bit halves, are the shifts of the 64-bit value by the
  count modulo 64, logical and arithmetic.
\<close>

theorem arith64_shifts_correct:
  "ashldi3 a b = push_bit (unat b mod 64) a \<and> lshrdi3 a b = drop_bit (unat b mod 64) a \<and>
   ashrdi3 a b = signed_drop_bit (unat b mod 64) a"
proof -
  have "b AND 63 = take_bit 6 b" by (simp add: take_bit_eq_mask mask_eq_exp_minus_1)
  then have "unat (b AND 63) = unat b mod 64" by (simp add: unat_mod take_bit_eq_mod)
  then show ?thesis by (simp add: ashldi3_push_bit lshrdi3_drop_bit ashrdi3_signed_drop_bit)
qed

end
