(* ===== verification/Dlist.thy ===== *)
theory Dlist
  imports Prelude
begin

text \<open>
  The circular doubly linked list of \<^verbatim>\<open>src/src/util/dlist.{h,c}\<close>. A store maps the address of a
  \<^verbatim>\<open>DLIST\<close> node to its two pointers; the type of addresses is a parameter, so that the heap
  (32-bit addresses) and the timer table (array indices) use the same operations. Every
  operation writes its pointers one after the other, in the order of the source, so that
  aliased arguments behave as in C. \<open>dl_ring h xs\<close> says that \<open>xs\<close> is a circular list in \<open>h\<close>;
  the locale \<open>circular_list\<close> states what the clients may rely on.
\<close>

record 'a DLIST =
  dl_next :: 'a
  dl_prev :: 'a

type_synonym 'a dstore = "'a \<Rightarrow> 'a DLIST"

section \<open>Operations\<close>

definition set_next :: "'a \<Rightarrow> 'a \<Rightarrow> 'a dstore \<Rightarrow> 'a dstore" where
  "set_next p v h = h(p := (h p)\<lparr>dl_next := v\<rparr>)"

definition set_prev :: "'a \<Rightarrow> 'a \<Rightarrow> 'a dstore \<Rightarrow> 'a dstore" where
  "set_prev p v h = h(p := (h p)\<lparr>dl_prev := v\<rparr>)"

definition dlist_init :: "'a \<Rightarrow> 'a dstore \<Rightarrow> 'a dstore" where
  "dlist_init d h = set_prev d d (set_next d d h)"

definition dlist_insert_after :: "'a \<Rightarrow> 'a \<Rightarrow> 'a dstore \<Rightarrow> 'a dstore \<times> bool" where
  "dlist_insert_after d0 dnew_a h =
     (let d1 = dl_next (h d0);
          dnew_z = dl_prev (h dnew_a);
          h = set_next d0 dnew_a h;
          h = set_prev dnew_a d0 h;
          h = set_next dnew_z d1 h;
          h = set_prev d1 dnew_z h
      in (h, True))"

definition dlist_insert_before :: "'a \<Rightarrow> 'a \<Rightarrow> 'a dstore \<Rightarrow> 'a dstore \<times> bool" where
  "dlist_insert_before d0 dnew_a h =
     (let d999 = dl_prev (h d0);
          dnew_z = dl_prev (h dnew_a);
          h = set_prev d0 dnew_z h;
          h = set_next dnew_z d0 h;
          h = set_prev dnew_a d999 h;
          h = set_next d999 dnew_a h
      in (h, True))"

definition dlist_remove :: "'a \<Rightarrow> 'a dstore \<Rightarrow> 'a dstore \<times> bool" where
  "dlist_remove node h =
     (let d0 = dl_prev (h node);
          d2 = dl_next (h node);
          h = set_prev node node h;
          h = set_next node node h;
          h = set_next d0 d2 h;
          h = set_prev d2 d0 h
      in (h, False))"

text \<open>The callers ignore the returned flag; these name the store they leave.\<close>

abbreviation insert_after_st :: "'a \<Rightarrow> 'a \<Rightarrow> 'a dstore \<Rightarrow> 'a dstore" where
  "insert_after_st d0 a h \<equiv> fst (dlist_insert_after d0 a h)"

abbreviation insert_before_st :: "'a \<Rightarrow> 'a \<Rightarrow> 'a dstore \<Rightarrow> 'a dstore" where
  "insert_before_st d0 a h \<equiv> fst (dlist_insert_before d0 a h)"

abbreviation remove_st :: "'a \<Rightarrow> 'a dstore \<Rightarrow> 'a dstore" where
  "remove_st n h \<equiv> fst (dlist_remove n h)"

text \<open>
  The macro \<^verbatim>\<open>list_for_each_entry(pos, head, member)\<close> with a body that leaves the loop at the
  first entry satisfying \<open>P\<close>: the outer \<open>None\<close> is a walk that never comes back to
  \<open>head\<close>, \<open>Some None\<close> a walk that came back, \<open>Some (Some pos)\<close> the entry of the exit.
\<close>

partial_function (option) list_find :: "('a \<Rightarrow> bool) \<Rightarrow> ('a \<Rightarrow> 'a) \<Rightarrow> 'a \<Rightarrow> 'a \<Rightarrow> 'a option option" where
  "list_find P nxt head pos =
     (if pos = head then Some None
      else if P pos then Some (Some pos)
      else list_find P nxt head (nxt pos))"

text \<open>The same macro with a body that only counts the entries it visits.\<close>

partial_function (option) list_count :: "('a \<Rightarrow> 'a) \<Rightarrow> 'a \<Rightarrow> 'a \<Rightarrow> int \<Rightarrow> int option" where
  "list_count nxt head pos n =
     (if pos = head then Some n else list_count nxt head (nxt pos) (i32 (n + 1)))"

section \<open>Circular lists in the store\<close>

fun dl_chain :: "'a dstore \<Rightarrow> 'a list \<Rightarrow> bool" where
  "dl_chain h (x # y # zs) \<longleftrightarrow> dl_next (h x) = y \<and> dl_prev (h y) = x \<and> dl_chain h (y # zs)"
| "dl_chain h _ \<longleftrightarrow> True"

definition dl_ring :: "'a dstore \<Rightarrow> 'a list \<Rightarrow> bool" where
  "dl_ring h xs \<longleftrightarrow> xs \<noteq> [] \<and> distinct xs \<and> dl_chain h (xs @ [hd xs])"

lemma set_next_next [heap_simps]: "dl_next (set_next p v h q) = (if q = p then v else dl_next (h q))"
  by (simp add: set_next_def)

lemma set_next_prev [heap_simps]: "dl_prev (set_next p v h q) = dl_prev (h q)"
  by (simp add: set_next_def)

lemma set_prev_prev [heap_simps]: "dl_prev (set_prev p v h q) = (if q = p then v else dl_prev (h q))"
  by (simp add: set_prev_def)

lemma set_prev_next [heap_simps]: "dl_next (set_prev p v h q) = dl_next (h q)"
  by (simp add: set_prev_def)

lemma dl_eqI: "dl_next (f q) = dl_next (g q) \<Longrightarrow> dl_prev (f q) = dl_prev (g q) \<Longrightarrow> f q = (g q :: 'a DLIST)"
  by (cases "f q"; cases "g q") simp

lemmas dlist_op_defs = dlist_insert_after_def dlist_insert_before_def dlist_remove_def dlist_init_def Let_def

lemma dl_chain_append: "dl_chain h (xs @ y # ys) \<longleftrightarrow> dl_chain h (xs @ [y]) \<and> dl_chain h (y # ys)"
  by (induction h xs rule: dl_chain.induct) auto

lemma dl_chain_cong:
  assumes "\<And>x. x \<in> set (butlast xs) \<Longrightarrow> dl_next (h' x) = dl_next (h x)"
    and "\<And>x. x \<in> set (tl xs) \<Longrightarrow> dl_prev (h' x) = dl_prev (h x)"
  shows "dl_chain h' xs = dl_chain h xs"
  using assms
proof (induction xs)
  case (Cons x xs)
  show ?case
  proof (cases xs)
    case (Cons y ys)
    have "dl_chain h' xs = dl_chain h xs"
      by (rule Cons.IH) (use Cons.prems \<open>xs = y # ys\<close> in auto)
    with Cons Cons.prems show ?thesis by simp
  qed simp
qed simp

lemma dl_ring_distinct: "dl_ring h xs \<Longrightarrow> distinct xs"
  by (simp add: dl_ring_def)

lemma dl_ring_Cons: "dl_ring h (x # xs) \<longleftrightarrow> distinct (x # xs) \<and> dl_chain h (x # xs @ [x])"
  by (simp add: dl_ring_def)

lemma dl_ring_single: "dl_ring h [x] \<longleftrightarrow> dl_next (h x) = x \<and> dl_prev (h x) = x"
  by (simp add: dl_ring_def)

lemma dl_ring_rotate1: "dl_ring h (x # xs) = dl_ring h (xs @ [x])"
proof (cases xs)
  case (Cons y ys)
  have "dl_chain h (x # y # ys @ [x]) \<longleftrightarrow> dl_chain h (y # ys @ [x, y])"
    using dl_chain_append [of h "y # ys" x "[y]"] by auto
  with Cons show ?thesis by (auto simp: dl_ring_def)
qed simp

lemma dl_ring_rotate: "dl_ring h (xs @ ys) = dl_ring h (ys @ xs)"
proof (induction xs arbitrary: ys)
  case (Cons x xs)
  have "dl_ring h ((x # xs) @ ys) = dl_ring h (xs @ (ys @ [x]))"
    using dl_ring_rotate1 [of h x "xs @ ys"] by simp
  also have "\<dots> = dl_ring h (ys @ x # xs)"
    using Cons.IH [of "ys @ [x]"] by simp
  finally show ?case .
qed simp

lemma dl_ring_cong:
  assumes "\<And>x. x \<in> set xs \<Longrightarrow> h' x = h x"
  shows "dl_ring h' xs = dl_ring h xs"
proof (cases xs)
  case (Cons y ys)
  have "dl_chain h' (y # ys @ [y]) = dl_chain h (y # ys @ [y])"
    by (rule dl_chain_cong) (use assms Cons in \<open>auto simp: butlast_append\<close>)
  with Cons show ?thesis by (simp add: dl_ring_def)
qed (simp add: dl_ring_def)

lemma dl_ring_next: "dl_ring h (x # y # zs) \<Longrightarrow> dl_next (h x) = y"
  by (simp add: dl_ring_def)

lemma dl_ring_prev_hd: "dl_ring h (x # xs) \<Longrightarrow> dl_prev (h x) = last (x # xs)"
proof (cases xs rule: rev_cases)
  case (snoc ys y)
  assume "dl_ring h (x # xs)"
  then have "dl_chain h ((x # ys) @ y # [x])" using snoc by (simp add: dl_ring_def)
  then have "dl_chain h (y # [x])" using dl_chain_append [of h "x # ys" y "[x]"] by blast
  with snoc show ?thesis by simp
qed (simp add: dl_ring_single)

lemma dl_ring_next_hd: "dl_ring h (x # xs) \<Longrightarrow> dl_next (h x) = hd (xs @ [x])"
  by (cases xs) (auto simp: dl_ring_def)

lemma dl_ring_next_last: "dl_ring h (x # xs) \<Longrightarrow> dl_next (h (last (x # xs))) = x"
proof (cases xs rule: rev_cases)
  case (snoc ys y)
  assume "dl_ring h (x # xs)"
  then have "dl_ring h (y # x # ys)" using snoc dl_ring_rotate [of h "x # ys" "[y]"] by simp
  with snoc show ?thesis by (simp add: dl_ring_next)
qed (simp add: dl_ring_single)

section \<open>The operations on circular lists\<close>

lemma dlist_init_ring: "dl_ring (dlist_init d h) [d]"
  by (simp add: dl_ring_single dlist_init_def heap_simps)

lemma dlist_init_frame: "q \<noteq> d \<Longrightarrow> dlist_init d h q = h q"
  by (simp add: dlist_init_def set_next_def set_prev_def)

lemma insert_after_ring:
  assumes r: "dl_ring h (d0 # xs)" and s: "dl_ring h (a # ys)"
    and dis: "set (d0 # xs) \<inter> set (a # ys) = {}"
  shows "dl_ring (insert_after_st d0 a h) (d0 # a # ys @ xs)"
proof -
  let ?h = "insert_after_st d0 a h" and ?d1 = "hd (xs @ [d0])"
  obtain bs z where bz: "a # ys = bs @ [z]" by (cases "a # ys" rule: rev_cases) auto
  have z: "dl_prev (h a) = z" using dl_ring_prev_hd [OF s] bz by simp
  have d1: "dl_next (h d0) = ?d1" using dl_ring_next_hd [OF r] .
  have dx: "distinct (d0 # xs)" and dy: "distinct (bs @ [z])"
    using r s bz by (auto simp: dl_ring_def)
  have nxt: "dl_next (?h q) = (if q = z then ?d1 else if q = d0 then a else dl_next (h q))" for q
    by (simp add: dlist_op_defs heap_simps z d1)
  have prv: "dl_prev (?h q) = (if q = ?d1 then z else if q = a then d0 else dl_prev (h q))" for q
    by (simp add: dlist_op_defs heap_simps z d1)
  have d1in: "?d1 \<in> set (d0 # xs)" by (cases xs) auto
  have zin: "z \<in> set (a # ys)" using bz by simp
  have sep: "z \<noteq> d0" "a \<noteq> ?d1" "a \<noteq> d0" using dis d1in zin by auto
  have "dl_chain h (bs @ [z])"
    using s bz dl_chain_append [of h bs z "[a]"]
    by (metis append.assoc append_Cons append_Nil dl_ring_def list.sel(1))
  moreover have "dl_chain ?h (bs @ [z]) = dl_chain h (bs @ [z])"
  proof (rule dl_chain_cong)
    fix q assume "q \<in> set (butlast (bs @ [z]))"
    then show "dl_next (?h q) = dl_next (h q)" using dy dis bz nxt by auto
  next
    fix q assume q: "q \<in> set (tl (bs @ [z]))"
    then have "q \<in> set ys" using bz by (metis list.sel(3))
    then show "dl_prev (?h q) = dl_prev (h q)" using s dis d1in prv by (auto simp: dl_ring_def)
  qed
  ultimately have c1: "dl_chain ?h (bs @ [z])" by simp
  have "dl_chain h (xs @ [d0])" using r by (cases xs) (auto simp: dl_ring_def)
  moreover have "dl_chain ?h (xs @ [d0]) = dl_chain h (xs @ [d0])"
  proof (rule dl_chain_cong)
    fix q assume "q \<in> set (butlast (xs @ [d0]))"
    then show "dl_next (?h q) = dl_next (h q)" using dx dis zin nxt by auto
  next
    fix q assume q: "q \<in> set (tl (xs @ [d0]))"
    then have "q \<noteq> ?d1" "q \<in> set (d0 # xs)" using dx by (cases xs; auto)+
    then show "dl_prev (?h q) = dl_prev (h q)" using dis prv by auto
  qed
  ultimately have c2: "dl_chain ?h (xs @ [d0])" by simp
  have "dl_chain ?h (z # xs @ [d0])"
    using c2 by (cases xs) (auto simp: nxt prv)
  then have "dl_chain ?h (bs @ z # xs @ [d0])"
    using c1 dl_chain_append [of ?h bs z "xs @ [d0]"] by simp
  moreover have "bs @ z # xs @ [d0] = a # ys @ xs @ [d0]"
    using bz by (metis append.assoc append_Cons append_Nil)
  ultimately have "dl_chain ?h (d0 # a # ys @ xs @ [d0])"
    using sep by (simp add: nxt prv)
  moreover have "distinct (d0 # a # ys @ xs)" using r s dis by (auto simp: dl_ring_def)
  ultimately show ?thesis by (simp add: dl_ring_def)
qed

lemma insert_after_frame:
  assumes "dl_ring h (d0 # xs)" "dl_ring h (a # ys)" "q \<notin> set (d0 # xs)" "q \<notin> set (a # ys)"
  shows "insert_after_st d0 a h q = h q"
proof -
  have "dl_prev (h a) \<in> set (a # ys)" using dl_ring_prev_hd [OF assms(2)] by auto
  moreover have "dl_next (h d0) \<in> set (d0 # xs)"
    using dl_ring_next_hd [OF assms(1)] by (cases xs) auto
  ultimately show ?thesis using assms(3,4)
    by (intro dl_eqI) (auto simp: dlist_op_defs heap_simps)
qed

lemma insert_before_eq:
  assumes r: "dl_ring h (d0 # xs)" and s: "dl_ring h (a # ys)"
    and dis: "set (d0 # xs) \<inter> set (a # ys) = {}"
  shows "insert_before_st d0 a h = insert_after_st (last (d0 # xs)) a h"
proof -
  let ?l = "last (d0 # xs)" and ?z = "last (a # ys)"
  have v: "dl_prev (h d0) = ?l" "dl_prev (h a) = ?z" "dl_next (h ?l) = d0"
    using dl_ring_prev_hd [OF r] dl_ring_prev_hd [OF s] dl_ring_next_last [OF r] by auto
  have "?l \<in> set (d0 # xs)" "?z \<in> set (a # ys)" by (rule last_in_set, simp)+
  then have "?l \<noteq> ?z" "a \<noteq> d0" using dis by auto
  then show ?thesis
    by (intro ext dl_eqI) (auto simp: dlist_op_defs heap_simps v simp del: last.simps)
qed

lemma insert_before_ring:
  assumes r: "dl_ring h (d0 # xs)" and s: "dl_ring h (a # ys)"
    and dis: "set (d0 # xs) \<inter> set (a # ys) = {}"
  shows "dl_ring (insert_before_st d0 a h) (d0 # xs @ a # ys)"
proof -
  obtain bs z where bz: "d0 # xs = bs @ [z]" by (cases "d0 # xs" rule: rev_cases) auto
  have "dl_ring h (z # bs)" using r bz dl_ring_rotate1 by metis
  moreover have "set (z # bs) \<inter> set (a # ys) = {}" using dis bz by auto
  ultimately have "dl_ring (insert_after_st z a h) (z # a # ys @ bs)"
    using insert_after_ring s by metis
  then have "dl_ring (insert_after_st z a h) ((bs @ [z]) @ a # ys)"
    using dl_ring_rotate [of _ "z # a # ys" bs] by simp
  moreover have "insert_before_st d0 a h = insert_after_st z a h"
    using insert_before_eq [OF assms] bz by simp
  ultimately show ?thesis using bz by (metis append_Cons)
qed

lemma insert_before_frame:
  assumes "dl_ring h (d0 # xs)" "dl_ring h (a # ys)" "q \<notin> set (d0 # xs)" "q \<notin> set (a # ys)"
  shows "insert_before_st d0 a h q = h q"
proof -
  have "dl_prev (h a) \<in> set (a # ys)" using dl_ring_prev_hd [OF assms(2)] by auto
  moreover have "dl_prev (h d0) \<in> set (d0 # xs)" using dl_ring_prev_hd [OF assms(1)] by auto
  ultimately show ?thesis using assms(3,4)
    by (intro dl_eqI) (auto simp: dlist_op_defs heap_simps)
qed

lemma remove_single: "dl_ring h [n] \<Longrightarrow> remove_st n h = h"
  by (intro ext dl_eqI) (auto simp: dlist_op_defs heap_simps dl_ring_single)

lemma remove_ring:
  assumes r: "dl_ring h (n # xs)"
  shows "dl_ring (remove_st n h) [n]" and "xs \<noteq> [] \<Longrightarrow> dl_ring (remove_st n h) xs"
proof -
  let ?h = "remove_st n h"
  show "dl_ring ?h [n]"
  proof (cases "xs = []")
    case True then show ?thesis using r remove_single by metis
  next
    case False
    then have "hd (xs @ [n]) \<noteq> n" "last (n # xs) \<noteq> n" using r by (auto simp: dl_ring_def)
    then show ?thesis using dl_ring_prev_hd [OF r] dl_ring_next_hd [OF r]
      by (auto simp: dl_ring_single dlist_op_defs heap_simps simp del: last.simps)
  qed
  assume ne: "xs \<noteq> []"
  obtain bs z where bz: "xs = bs @ [z]" using ne by (cases xs rule: rev_cases) auto
  have v: "dl_prev (h n) = z" "dl_next (h n) = hd xs"
    using dl_ring_prev_hd [OF r] dl_ring_next_hd [OF r] bz ne by (auto simp: hd_append)
  have d: "distinct (n # xs)" using r by (simp add: dl_ring_def)
  have nz: "n \<noteq> z" "n \<noteq> hd xs" using d bz hd_in_set [OF ne] by auto
  have nxt: "dl_next (?h q) = (if q = z then hd xs else if q = n then n else dl_next (h q))" for q
    by (auto simp: dlist_op_defs heap_simps v)
  have prv: "dl_prev (?h q) = (if q = hd xs then z else if q = n then n else dl_prev (h q))" for q
    by (auto simp: dlist_op_defs heap_simps v)
  have "dl_chain h ((n # bs) @ z # [n])" using r bz by (simp add: dl_ring_def)
  then have "dl_chain h (n # bs @ [z])" using dl_chain_append [of h "n # bs" z "[n]"] by simp
  then have "dl_chain h (bs @ [z])" by (cases bs) auto
  moreover have "dl_chain ?h (bs @ [z]) = dl_chain h (bs @ [z])"
  proof (rule dl_chain_cong)
    fix q assume "q \<in> set (butlast (bs @ [z]))"
    then show "dl_next (?h q) = dl_next (h q)" using d bz nxt by auto
  next
    fix q assume q: "q \<in> set (tl (bs @ [z]))"
    then have "q \<noteq> hd xs" "q \<noteq> n" using d bz by (cases bs; auto)+
    then show "dl_prev (?h q) = dl_prev (h q)" using prv by auto
  qed
  ultimately have "dl_chain ?h (bs @ [z])" by simp
  then have "dl_chain ?h (bs @ z # [hd xs])" using dl_chain_append [of ?h bs z "[hd xs]"]
    by (simp add: nxt prv)
  then show "dl_ring ?h xs" using d bz ne by (simp add: dl_ring_def)
qed

lemma remove_frame:
  assumes "dl_ring h (n # xs)" "q \<notin> set (n # xs)"
  shows "remove_st n h q = h q"
proof -
  have "dl_prev (h n) \<in> set (n # xs)" using dl_ring_prev_hd [OF assms(1)] by auto
  moreover have "dl_next (h n) \<in> set (n # xs)"
    using dl_ring_next_hd [OF assms(1)] by (cases xs) auto
  ultimately show ?thesis using assms(2)
    by (intro dl_eqI) (auto simp: dlist_op_defs heap_simps)
qed

section \<open>The contract the clients rely on\<close>

text \<open>
  What the heap and the timer table use of the lists: which list is threaded through the
  store after an insertion or a removal, that other lists are untouched, and what a walk
  with \<^verbatim>\<open>list_for_each_entry\<close> finds.
\<close>

locale circular_list =
  fixes nxt :: "'h \<Rightarrow> 'a \<Rightarrow> 'a"
    and prv :: "'h \<Rightarrow> 'a \<Rightarrow> 'a"
    and ins_after :: "'a \<Rightarrow> 'a \<Rightarrow> 'h \<Rightarrow> 'h"
    and ins_before :: "'a \<Rightarrow> 'a \<Rightarrow> 'h \<Rightarrow> 'h"
    and rem :: "'a \<Rightarrow> 'h \<Rightarrow> 'h"
    and ring :: "'h \<Rightarrow> 'a list \<Rightarrow> bool"
  assumes ring_distinct: "ring h xs \<Longrightarrow> distinct xs"
    and ring_rotate: "ring h (xs @ ys) = ring h (ys @ xs)"
    and ring_nxt: "ring h (x # xs) \<Longrightarrow> nxt h x = hd (xs @ [x])"
    and ring_prv: "ring h (x # xs) \<Longrightarrow> prv h x = last (x # xs)"
    and ring_ins_after: "ring h (d # xs) \<Longrightarrow> ring h (a # ys) \<Longrightarrow> set (d # xs) \<inter> set (a # ys) = {} \<Longrightarrow>
      ring (ins_after d a h) (d # a # ys @ xs)"
    and ring_ins_before: "ring h (d # xs) \<Longrightarrow> ring h (a # ys) \<Longrightarrow> set (d # xs) \<inter> set (a # ys) = {} \<Longrightarrow>
      ring (ins_before d a h) (d # xs @ a # ys)"
    and ring_rem_node: "ring h (n # xs) \<Longrightarrow> ring (rem n h) [n]"
    and ring_rem: "ring h (n # xs) \<Longrightarrow> xs \<noteq> [] \<Longrightarrow> ring (rem n h) xs"
    and frame_ins_after: "ring h (d # xs) \<Longrightarrow> ring h (a # ys) \<Longrightarrow> ring h zs \<Longrightarrow>
      set zs \<inter> (set (d # xs) \<union> set (a # ys)) = {} \<Longrightarrow> ring (ins_after d a h) zs"
    and frame_ins_before: "ring h (d # xs) \<Longrightarrow> ring h (a # ys) \<Longrightarrow> ring h zs \<Longrightarrow>
      set zs \<inter> (set (d # xs) \<union> set (a # ys)) = {} \<Longrightarrow> ring (ins_before d a h) zs"
    and frame_rem: "ring h (n # xs) \<Longrightarrow> ring h zs \<Longrightarrow> set zs \<inter> set (n # xs) = {} \<Longrightarrow> ring (rem n h) zs"
begin

lemma ring_nxt_in: "ring h (xs @ x # y # ys) \<Longrightarrow> nxt h x = y"
  using ring_rotate [of h xs "x # y # ys"] ring_nxt [of h x "y # ys @ xs"] by simp

lemma ring_prv_in: "ring h (xs @ x # y # ys) \<Longrightarrow> prv h y = x"
  using ring_rotate [of h "xs @ [x]" "y # ys"] ring_prv [of h y "ys @ xs @ [x]"] by simp

lemma ring_walk:
  "ring h (x # ys @ zs) \<Longrightarrow> list_find P (nxt h) x (hd (zs @ [x])) = Some (List.find P zs)"
proof (induction zs arbitrary: ys)
  case Nil
  then show ?case by (simp add: list_find.simps)
next
  case (Cons z zs)
  have "z \<noteq> x" using ring_distinct [OF Cons.prems] by auto
  moreover have "nxt h z = hd (zs @ [x])"
    using Cons.prems ring_rotate [of h "x # ys" "z # zs"] ring_nxt [of h z "zs @ x # ys"]
    by (cases zs) auto
  moreover have "list_find P (nxt h) x (hd (zs @ [x])) = Some (List.find P zs)"
    using Cons.IH [of "ys @ [z]"] Cons.prems by simp
  ultimately show ?case by (simp add: list_find.simps [of P _ x z])
qed

lemma find_ring: "ring h (x # xs) \<Longrightarrow> list_find P (nxt h) x (nxt h x) = Some (List.find P xs)"
  using ring_walk [of h x "[]" xs P] by (simp add: ring_nxt)

lemma ring_count:
  "ring h (x # ys @ zs) \<Longrightarrow> 0 \<le> n \<Longrightarrow> n + int (length zs) < 2147483648 \<Longrightarrow>
   list_count (nxt h) x (hd (zs @ [x])) n = Some (n + int (length zs))"
proof (induction zs arbitrary: ys n)
  case Nil
  then show ?case by (simp add: list_count.simps)
next
  case (Cons z zs)
  have "z \<noteq> x" using ring_distinct [OF Cons.prems(1)] by auto
  moreover have "nxt h z = hd (zs @ [x])"
    using Cons.prems(1) ring_rotate [of h "x # ys" "z # zs"] ring_nxt [of h z "zs @ x # ys"]
    by (cases zs) auto
  moreover have "i32 (n + 1) = n + 1" using Cons.prems by (simp add: in_i32_def)
  ultimately show ?case using Cons.IH [of "ys @ [z]" "n + 1"] Cons.prems
    by (simp add: list_count.simps [of _ x z])
qed

lemma ring_insert_in:
  assumes "ring h (xs @ p # ys)" "ring h [a]" "a \<notin> set (xs @ p # ys)"
  shows "ring (ins_before p a h) (xs @ a # p # ys)"
proof -
  have "ring h (p # ys @ xs)" using assms(1) ring_rotate [of h xs "p # ys"] by simp
  then have "ring (ins_before p a h) ((p # ys) @ (xs @ [a]))"
    using ring_ins_before [of h p "ys @ xs" a "[]"] assms(2,3) by auto
  then show ?thesis using ring_rotate [of _ "p # ys" "xs @ [a]"] by simp
qed

lemma ring_insert_after_in:
  assumes "ring h (xs @ p # ys)" "ring h [a]" "a \<notin> set (xs @ p # ys)"
  shows "ring (ins_after p a h) (xs @ p # a # ys)"
proof -
  have "ring h (p # ys @ xs)" using assms(1) ring_rotate [of h xs "p # ys"] by simp
  then have "ring (ins_after p a h) ((p # a # ys) @ xs)"
    using ring_ins_after [of h p "ys @ xs" a "[]"] assms(2,3) by auto
  then show ?thesis using ring_rotate [of _ "p # a # ys" xs] by simp
qed

lemma frame_insert_after_in:
  assumes "ring h (xs @ p # ys)" "ring h [a]" "ring h zs" "set zs \<inter> (set (xs @ p # ys) \<union> {a}) = {}"
  shows "ring (ins_after p a h) zs"
proof -
  have "ring h (p # ys @ xs)" using assms(1) ring_rotate [of h xs "p # ys"] by simp
  then show ?thesis using frame_ins_after [of h p "ys @ xs" a "[]" zs] assms(2-4) by auto
qed

lemma frame_insert_in:
  assumes "ring h (xs @ p # ys)" "ring h [a]" "ring h zs" "set zs \<inter> (set (xs @ p # ys) \<union> {a}) = {}"
  shows "ring (ins_before p a h) zs"
proof -
  have "ring h (p # ys @ xs)" using assms(1) ring_rotate [of h xs "p # ys"] by simp
  then show ?thesis using frame_ins_before [of h p "ys @ xs" a "[]" zs] assms(2-4) by auto
qed

lemma ring_remove_in:
  assumes "ring h (xs @ n # ys)" "xs @ ys \<noteq> []"
  shows "ring (rem n h) (xs @ ys)" and "ring (rem n h) [n]"
proof -
  have r: "ring h (n # ys @ xs)" using assms(1) ring_rotate [of h xs "n # ys"] by simp
  show "ring (rem n h) [n]" by (rule ring_rem_node [OF r])
  have "ring (rem n h) (ys @ xs)" using ring_rem [OF r] assms(2) by auto
  then show "ring (rem n h) (xs @ ys)" using ring_rotate [of _ ys xs] by simp
qed

lemma ring_remove_node_in:
  assumes "ring h (xs @ n # ys)"
  shows "ring (rem n h) [n]"
  using assms ring_rotate [of h xs "n # ys"] ring_rem_node [of h n "ys @ xs"] by simp

lemma frame_remove_in:
  assumes "ring h (xs @ n # ys)" "ring h zs" "set zs \<inter> set (xs @ n # ys) = {}"
  shows "ring (rem n h) zs"
proof -
  have "ring h (n # ys @ xs)" using assms(1) ring_rotate [of h xs "n # ys"] by simp
  then show ?thesis using frame_rem [of h n "ys @ xs" zs] assms(2,3) by auto
qed

text \<open>
  Two disjoint lists \<open>A\<close> and \<open>F\<close> and a set \<open>U\<close> of nodes that are in no list (linked to
  themselves), as a client with several list heads keeps them.
\<close>

definition lists :: "'h \<Rightarrow> 'a list \<Rightarrow> 'a list \<Rightarrow> 'a set \<Rightarrow> bool" where
  "lists h A F U \<longleftrightarrow> ring h A \<and> ring h F \<and> (\<forall>u\<in>U. ring h [u]) \<and>
     set A \<inter> set F = {} \<and> U \<inter> set A = {} \<and> U \<inter> set F = {}"

lemma lists_sym: "lists h A F U \<Longrightarrow> lists h F A U"
  by (auto simp: lists_def)

lemma lists_weaken: "lists h A F U \<Longrightarrow> U' \<subseteq> U \<Longrightarrow> lists h A F U'"
  by (auto simp: lists_def)

lemma lists_ins_after:
  assumes "lists h (xs @ p # ys) F (insert n U)" "n \<notin> U"
  shows "lists (ins_after p n h) (xs @ p # n # ys) F U"
  unfolding lists_def
proof (intro conjI ballI)
  have r: "ring h (xs @ p # ys)" "ring h [n]" "ring h F" using assms(1) by (auto simp: lists_def)
  show "ring (ins_after p n h) (xs @ p # n # ys)"
    by (rule ring_insert_after_in [OF r(1,2)]) (use assms in \<open>auto simp: lists_def\<close>)
  show "ring (ins_after p n h) F"
    by (rule frame_insert_after_in [OF r]) (use assms in \<open>auto simp: lists_def\<close>)
  fix u assume "u \<in> U"
  then show "ring (ins_after p n h) [u]"
    using assms by (intro frame_insert_after_in [OF r(1,2)]) (auto simp: lists_def)
qed (use assms in \<open>auto simp: lists_def\<close>)

lemma lists_ins_before:
  assumes "lists h (xs @ p # ys) F (insert n U)" "n \<notin> U"
  shows "lists (ins_before p n h) (xs @ n # p # ys) F U"
  unfolding lists_def
proof (intro conjI ballI)
  have r: "ring h (xs @ p # ys)" "ring h [n]" "ring h F" using assms(1) by (auto simp: lists_def)
  show "ring (ins_before p n h) (xs @ n # p # ys)"
    by (rule ring_insert_in [OF r(1,2)]) (use assms in \<open>auto simp: lists_def\<close>)
  show "ring (ins_before p n h) F"
    by (rule frame_insert_in [OF r]) (use assms in \<open>auto simp: lists_def\<close>)
  fix u assume "u \<in> U"
  then show "ring (ins_before p n h) [u]"
    using assms by (intro frame_insert_in [OF r(1,2)]) (auto simp: lists_def)
qed (use assms in \<open>auto simp: lists_def\<close>)

lemma lists_remove:
  assumes "lists h (xs @ n # ys) F U" "xs @ ys \<noteq> []"
  shows "lists (rem n h) (xs @ ys) F (insert n U)"
  unfolding lists_def
proof (intro conjI ballI)
  have r: "ring h (xs @ n # ys)" "ring h F" using assms(1) by (auto simp: lists_def)
  show "ring (rem n h) (xs @ ys)" by (rule ring_remove_in(1) [OF r(1) assms(2)])
  show "ring (rem n h) F"
    by (rule frame_remove_in [OF r]) (use assms in \<open>auto simp: lists_def\<close>)
  fix u assume "u \<in> insert n U"
  then show "ring (rem n h) [u]"
    using assms ring_remove_node_in [OF r(1)]
    by (cases "u = n") (auto simp: lists_def intro!: frame_remove_in [OF r(1)])
qed (use assms ring_distinct [of h "xs @ n # ys"] in \<open>auto simp: lists_def\<close>)

end

interpretation dl: circular_list "\<lambda>h x. dl_next (h x)" "\<lambda>h x. dl_prev (h x)"
  insert_after_st insert_before_st remove_st dl_ring
proof (unfold_locales, goal_cases)
  case 1 then show ?case by (rule dl_ring_distinct)
next
  case 2 show ?case by (rule dl_ring_rotate)
next
  case 3 then show ?case by (rule dl_ring_next_hd)
next
  case 4 then show ?case by (rule dl_ring_prev_hd)
next
  case 5 then show ?case by (rule insert_after_ring)
next
  case 6 then show ?case by (rule insert_before_ring)
next
  case 7 then show ?case by (rule remove_ring(1))
next
  case 8 then show ?case by (rule remove_ring(2))
next
  case (9 h d xs a ys zs)
  have "insert_after_st d a h q = h q" if "q \<in> set zs" for q
    by (rule insert_after_frame [OF 9(1,2)]) (use 9(4) that in auto)
  then show ?case using 9(3) dl_ring_cong [of zs "insert_after_st d a h" h] by simp
next
  case (10 h d xs a ys zs)
  have "insert_before_st d a h q = h q" if "q \<in> set zs" for q
    by (rule insert_before_frame [OF 10(1,2)]) (use 10(4) that in auto)
  then show ?case using 10(3) dl_ring_cong [of zs "insert_before_st d a h" h] by simp
next
  case (11 h n xs zs)
  have "remove_st n h q = h q" if "q \<in> set zs" for q
    by (rule remove_frame [OF 11(1)]) (use 11(3) that in auto)
  then show ?case using 11(2) dl_ring_cong [of zs "remove_st n h" h] by simp
qed

lemma lists_init:
  assumes "dl.lists h A F U" "n \<notin> set A \<union> set F \<union> U"
  shows "dl.lists (dlist_init n h) A F (insert n U)"
proof -
  have eq: "dl_ring (dlist_init n h) zs = dl_ring h zs" if "n \<notin> set zs" for zs
    by (rule dl_ring_cong) (use that dlist_init_frame in metis)
  have "dl_ring (dlist_init n h) [u]" if "u \<in> U" for u
    using that assms eq [of "[u]"] by (auto simp: dl.lists_def)
  with eq show ?thesis using assms dlist_init_ring [of n h] by (auto simp: dl.lists_def)
qed

end
