(* ===== verification/Allocator.thy ===== *)
theory Allocator
  imports Prelude
begin

text \<open>
  The contract between the kernel heap and its users: what a user of an allocation function and
  a release function may rely on. The heap (theory \<open>HeapDL\<close>) and the front end
  \<^verbatim>\<open>kmalloc\<close>/\<^verbatim>\<open>kfree\<close> (theory \<open>Memory\<close>) both provide it; what follows for a user that
  calls them in any order is proved here once.
\<close>

section \<open>A user that allocates and releases in any order\<close>

text \<open>\<open>Alloc s\<close> asks for \<open>s\<close> bytes and keeps the pointer if it is not null, \<open>Release i\<close> gives the i-th kept pointer back.\<close>

datatype alloc_op = Alloc u32 | Release nat

fun run_op ::
  "(u32 \<Rightarrow> 'h \<Rightarrow> ('h \<times> u32) option) \<Rightarrow> (u32 \<Rightarrow> 'h \<Rightarrow> 'h) \<Rightarrow> alloc_op \<Rightarrow>
   'h \<times> (u32 \<times> u32) list \<Rightarrow> ('h \<times> (u32 \<times> u32) list) option" where
  "run_op alloc dealloc (Alloc s) (h, ps) =
     map_option (\<lambda>(h', p). (h', if p = 0 then ps else (p, s) # ps)) (alloc s h)"
| "run_op alloc dealloc (Release i) (h, ps) =
     Some (if i < length ps then (dealloc (fst (ps ! i)) h, take i ps @ drop (Suc i) ps) else (h, ps))"

fun run_ops ::
  "(u32 \<Rightarrow> 'h \<Rightarrow> ('h \<times> u32) option) \<Rightarrow> (u32 \<Rightarrow> 'h \<Rightarrow> 'h) \<Rightarrow> alloc_op list \<Rightarrow>
   'h \<times> (u32 \<times> u32) list \<Rightarrow> ('h \<times> (u32 \<times> u32) list) option" where
  "run_ops alloc dealloc [] st = Some st"
| "run_ops alloc dealloc (x # xs) st = Option.bind (run_op alloc dealloc x st) (run_ops alloc dealloc xs)"

fun op_sizes_ok :: "(u32 \<Rightarrow> bool) \<Rightarrow> alloc_op \<Rightarrow> bool" where
  "op_sizes_ok ok (Alloc s) = ok s"
| "op_sizes_ok ok (Release i) = True"

text \<open>Two blocks, given by their address and length, have no byte in common.\<close>

definition apart :: "u32 \<times> nat \<Rightarrow> u32 \<times> nat \<Rightarrow> bool" where
  "apart = (\<lambda>(p, n) (q, k). unat p + n \<le> unat q \<or> unat q + k \<le> unat p)"

text \<open>The blocks a user holds: not null, inside the address space, pairwise apart.\<close>

definition blocks_ok :: "(u32 \<times> u32) list \<Rightarrow> bool" where
  "blocks_ok ps \<longleftrightarrow> (\<forall>(p, s)\<in>set ps. p \<noteq> 0 \<and> unat p + unat s \<le> 2 ^ 32) \<and>
     sorted_wrt (\<lambda>(p, s) (q, t). p \<noteq> q \<and> apart (p, unat s) (q, unat t)) ps"

section \<open>The contract\<close>

locale allocator =
  fixes rel :: "'h \<Rightarrow> (u32 \<times> nat) set \<Rightarrow> bool"
    and alloc :: "u32 \<Rightarrow> 'h \<Rightarrow> ('h \<times> u32) option"
    and dealloc :: "u32 \<Rightarrow> 'h \<Rightarrow> 'h"
    and ok :: "u32 \<Rightarrow> bool"
  assumes block_range: "rel h L \<Longrightarrow> (p, n) \<in> L \<Longrightarrow> p \<noteq> 0 \<and> unat p + n \<le> 2 ^ 32"
    and block_apart: "rel h L \<Longrightarrow> b \<in> L \<Longrightarrow> b' \<in> L \<Longrightarrow> b \<noteq> b' \<Longrightarrow> fst b \<noteq> fst b' \<and> apart b b'"
    and alloc_total: "rel h L \<Longrightarrow> ok s \<Longrightarrow> \<exists>h' p. alloc s h = Some (h', p)"
    and alloc_null: "rel h L \<Longrightarrow> ok s \<Longrightarrow> alloc s h = Some (h', 0) \<Longrightarrow> h' = h"
    and alloc_block: "rel h L \<Longrightarrow> ok s \<Longrightarrow> alloc s h = Some (h', p) \<Longrightarrow> p \<noteq> 0 \<Longrightarrow>
      \<exists>n. unat s \<le> n \<and> (\<forall>k. (p, k) \<notin> L) \<and> rel h' (insert (p, n) L)"
    and dealloc_block: "rel h L \<Longrightarrow> (p, n) \<in> L \<Longrightarrow> rel (dealloc p h) (L - {(p, n)})"
    and dealloc_null: "dealloc 0 h = h"
begin

text \<open>The kept pointers are exactly the blocks of the heap that are in use.\<close>

definition held :: "'h \<Rightarrow> (u32 \<times> u32) list \<Rightarrow> bool" where
  "held h ps \<longleftrightarrow> (\<exists>L. rel h L \<and> distinct (map fst ps) \<and> fst ` L = fst ` set ps \<and>
     (\<forall>b\<in>set ps. \<exists>n. unat (snd b) \<le> n \<and> (fst b, n) \<in> L))"

lemma held_blocks_ok:
  assumes "held h ps"
  shows "blocks_ok ps"
proof -
  obtain L where L: "rel h L" "distinct (map fst ps)"
    and in_L: "\<And>p s. (p, s) \<in> set ps \<Longrightarrow> \<exists>n. unat s \<le> n \<and> (p, n) \<in> L"
    using assms unfolding held_def by (metis fst_conv snd_conv)
  have "p \<noteq> 0 \<and> unat p + unat s \<le> 2 ^ 32" if ps: "(p, s) \<in> set ps" for p s
  proof -
    obtain n where n: "unat s \<le> n" "(p, n) \<in> L" using in_L [OF ps] by blast
    then show ?thesis using block_range [OF L(1) n(2)] by linarith
  qed
  moreover have "p \<noteq> q \<and> apart (p, unat s) (q, unat t)"
    if ps: "(p, s) \<in> set ps" "(q, t) \<in> set ps" "p \<noteq> q" for p s q t
  proof -
    obtain n k where nk: "unat s \<le> n" "(p, n) \<in> L" "unat t \<le> k" "(q, k) \<in> L"
      using in_L [OF ps(1)] in_L [OF ps(2)] by blast
    then have "apart (p, n) (q, k)" using block_apart [OF L(1) nk(2,4)] ps(3) by auto
    then show ?thesis using nk ps(3) by (auto simp: apart_def)
  qed
  ultimately have "\<forall>(p, s)\<in>set ps. p \<noteq> 0 \<and> unat p + unat s \<le> 2 ^ 32"
    "\<And>b b'. b \<in> set ps \<Longrightarrow> b' \<in> set ps \<Longrightarrow> fst b \<noteq> fst b' \<Longrightarrow>
      (\<lambda>(p, s) (q, t). p \<noteq> q \<and> apart (p, unat s) (q, unat t)) b b'"
    by auto
  moreover have "sorted_wrt (\<lambda>b b'. fst b \<noteq> fst b') ps"
    using L(2) by (simp add: distinct_conv_nth sorted_wrt_iff_nth_less)
  ultimately show ?thesis
    unfolding blocks_ok_def by (auto intro: sorted_wrt_mono_rel [rotated])
qed

lemma run_op_held:
  assumes h: "held h ps" and ok: "op_sizes_ok ok x"
  shows "\<exists>h' ps'. run_op alloc dealloc x (h, ps) = Some (h', ps') \<and> held h' ps'"
proof -
  obtain L where L: "rel h L" "distinct (map fst ps)" "fst ` L = fst ` set ps"
    and in_L: "\<forall>b\<in>set ps. \<exists>n. unat (snd b) \<le> n \<and> (fst b, n) \<in> L"
    using h unfolding held_def by blast
  show ?thesis
  proof (cases x)
    case (Alloc s)
    then have s: "ok s" using ok by simp
    obtain h' p where a: "alloc s h = Some (h', p)" using alloc_total [OF L(1) s] by blast
    show ?thesis
    proof (cases "p = 0")
      case True
      then show ?thesis using h a alloc_null [OF L(1) s] Alloc by auto
    next
      case False
      obtain n where n: "unat s \<le> n" "\<forall>k. (p, k) \<notin> L" "rel h' (insert (p, n) L)"
        using alloc_block [OF L(1) s a False] by blast
      have "p \<notin> fst ` set ps" 
      proof
        assume "p \<in> fst ` set ps"
        then have "p \<in> fst ` L" by (simp only: L(3))
        then show False using n(2) by auto
      qed
      then have "held h' ((p, s) # ps)" unfolding held_def
        using L(2,3) n in_L by (intro exI [of _ "insert (p, n) L"]) auto
      then show ?thesis using a False Alloc by simp
    qed
  next
    case (Release i)
    show ?thesis
    proof (cases "i < length ps")
      case True
      obtain p s where ps: "ps ! i = (p, s)" by (cases "ps ! i")
      let ?ps = "take i ps @ drop (Suc i) ps"
      obtain n where n: "(p, n) \<in> L" using in_L nth_mem [OF True] ps by (metis fst_conv)
      have split: "ps = take i ps @ (p, s) # drop (Suc i) ps" using id_take_nth_drop [OF True] ps by simp
      have d: "distinct (map fst (take i ps @ (p, s) # drop (Suc i) ps))" using L(2) split by metis
      have set_ps: "set ps = insert (p, s) (set ?ps)" by (subst split) simp
      have p: "p \<notin> fst ` set ?ps" using d by auto
      have uniq: "m = n" if "(p, m) \<in> L" for m using block_apart [OF L(1) that n] by auto
      have "rel (dealloc p h) (L - {(p, n)})" by (rule dealloc_block [OF L(1) n])
      moreover have "fst ` (L - {(p, n)}) = fst ` set ?ps"
      proof -
        have "fst ` (L - {(p, n)}) = fst ` L - {p}" using uniq by force
        then show ?thesis using L(3) set_ps p by auto
      qed
      moreover have "\<forall>b\<in>set ?ps. \<exists>m. unat (snd b) \<le> m \<and> (fst b, m) \<in> L - {(p, n)}"
      proof
        fix b assume b: "b \<in> set ?ps"
        then obtain m where "unat (snd b) \<le> m" "(fst b, m) \<in> L" using in_L set_ps by auto
        moreover have "fst b \<noteq> p" using b p by auto
        ultimately show "\<exists>m. unat (snd b) \<le> m \<and> (fst b, m) \<in> L - {(p, n)}" by auto
      qed
      moreover have "distinct (map fst ?ps)" using d by auto
      ultimately have "held (dealloc p h) ?ps" unfolding held_def by blast
      then show ?thesis using Release True ps by simp
    qed (use h Release in simp)
  qed
qed

lemma run_ops_held:
  assumes "held h ps" "list_all (op_sizes_ok ok) xs"
  shows "\<exists>h' ps'. run_ops alloc dealloc xs (h, ps) = Some (h', ps') \<and> held h' ps'"
  using assms
proof (induction xs arbitrary: h ps)
  case (Cons x xs)
  then obtain h1 ps1 where "run_op alloc dealloc x (h, ps) = Some (h1, ps1)" "held h1 ps1"
    using run_op_held [of h ps x] by auto
  then show ?case using Cons.IH [of h1 ps1] Cons.prems by simp
qed simp

lemma held_empty: "rel h {} \<Longrightarrow> held h []"
  by (auto simp: held_def)

lemma run_ops_blocks:
  assumes "rel h {}" "list_all (op_sizes_ok ok) xs"
  shows "\<exists>h' ps. run_ops alloc dealloc xs (h, []) = Some (h', ps) \<and> blocks_ok ps"
  using run_ops_held [OF held_empty [OF assms(1)] assms(2)] held_blocks_ok by blast

end

end
