(* ===== verification/HeapDL.thy ===== *)
theory HeapDL
  imports Kutil Dlist Allocator
begin

text \<open>
  The kernel heap of \<^verbatim>\<open>src/src/memory/heapdl.{h,c}\<close>: chunks with a header of 32 bytes, linked in
  one circular list of all chunks and one of the free chunks. The memory that holds the headers
  is split by field: \<open>hp_links\<close> maps the address of every \<^verbatim>\<open>DLIST\<close> to its two pointers,
  \<open>hp_used\<close> and \<open>hp_size\<close> map the address of a \<^verbatim>\<open>CHUNK\<close> to its fields. The global variables of
  the file are the other fields. A pointer to a chunk is its address, \<^verbatim>\<open>NULL\<close> is 0.
\<close>

section \<open>Layout and state\<close>

text \<open>
  \<^verbatim>\<open>struct CHUNK\<close> of the 32-bit build: \<^verbatim>\<open>all\<close> at offset 0, \<^verbatim>\<open>isUsed\<close> at 8, \<^verbatim>\<open>size\<close> at 12,
  \<^verbatim>\<open>free\<close> at 16, padded to a multiple of the alignment 16.
\<close>

definition sizeof_CHUNK :: u32 where "sizeof_CHUNK = 32"

definition free_of :: "u32 \<Rightarrow> u32" where "free_of c = c + 16"

definition container_of_free :: "u32 \<Rightarrow> u32" where "container_of_free p = p - 16"

definition all_of :: "u32 \<Rightarrow> u32" where "all_of c = c"

definition container_of_all :: "u32 \<Rightarrow> u32" where "container_of_all p = p"

record heapdl =
  hp_links :: "u32 dstore"
  hp_used :: "u32 \<Rightarrow> bool"
  hp_size :: "u32 \<Rightarrow> u32"
  hp_first :: u32
  hp_last :: u32
  hp_free_chunk_head :: u32
  hp_mem_all :: u32
  hp_mem_free :: u32

definition header_size :: u32 where
  "header_size = align_address_to_upper sizeof_CHUNK OS_MEMORY_ALIGN"

definition set_used :: "u32 \<Rightarrow> bool \<Rightarrow> heapdl \<Rightarrow> heapdl" where
  "set_used c b hp = hp\<lparr>hp_used := (hp_used hp)(c := b)\<rparr>"

definition set_size :: "u32 \<Rightarrow> u32 \<Rightarrow> heapdl \<Rightarrow> heapdl" where
  "set_size c n hp = hp\<lparr>hp_size := (hp_size hp)(c := n)\<rparr>"

definition upd_links :: "(u32 dstore \<Rightarrow> u32 dstore) \<Rightarrow> heapdl \<Rightarrow> heapdl" where
  "upd_links f hp = hp\<lparr>hp_links := f (hp_links hp)\<rparr>"

section \<open>Operations\<close>

definition chunk_init :: "u32 \<Rightarrow> heapdl \<Rightarrow> heapdl" where
  "chunk_init chunk hp =
     (let hp = upd_links (\<lambda>h. set_prev (all_of chunk) (all_of chunk) (set_next (all_of chunk) (all_of chunk) h)) hp;
          hp = set_used chunk False hp;
          hp = set_size chunk header_size hp
      in upd_links (\<lambda>h. set_prev (free_of chunk) (free_of chunk) (set_next (free_of chunk) (free_of chunk) h)) hp)"

definition k_heapdl_mm_init :: "u32 \<Rightarrow> u32 \<Rightarrow> heapdl \<Rightarrow> heapdl" where
  "k_heapdl_mm_init mem_start mem_end hp =
     (let aligned_m_start = align_address_to_upper mem_start OS_HEAP_BLOCK_SIZE;
          aligned_m_end = align_address_to_lower mem_end OS_HEAP_BLOCK_SIZE;
          first = aligned_m_start;
          second = first + sizeof_CHUNK;
          last = aligned_m_end - sizeof_CHUNK;
          hp = hp\<lparr>hp_first := first, hp_last := last\<rparr>;
          hp = chunk_init first hp;
          hp = chunk_init second hp;
          hp = chunk_init last hp;
          hp = upd_links (insert_after_st (all_of first) (all_of second)) hp;
          hp = upd_links (insert_after_st (all_of second) (all_of last)) hp;
          hp = set_used first True hp;
          hp = set_used last True hp;
          hp = set_size second (last - second) hp;
          hp = hp\<lparr>hp_free_chunk_head := first\<rparr>;
          hp = upd_links (insert_after_st (free_of first) (free_of second)) hp;
          hp = hp\<lparr>hp_mem_free := hp_size hp second - header_size\<rparr>
      in hp\<lparr>hp_mem_all := hp_mem_free hp\<rparr>)"

definition chunk_calc_actual_free :: "heapdl \<Rightarrow> u32 \<Rightarrow> u32" where
  "chunk_calc_actual_free hp chunk = hp_size hp chunk - header_size"

definition chunk_calc_free_offset :: "u32 \<Rightarrow> u32" where
  "chunk_calc_free_offset chunk = chunk + header_size"

definition chunk_slice :: "u32 \<Rightarrow> u32 \<Rightarrow> heapdl \<Rightarrow> heapdl" where
  "chunk_slice chunk s hp =
     (let chunkB = chunk_calc_free_offset chunk + s;
          hp = chunk_init chunkB hp;
          hp = set_size chunkB (chunk_calc_actual_free hp chunk - s) hp;
          hp = set_size chunk (hp_size hp chunk - hp_size hp chunkB) hp;
          hp = upd_links (insert_after_st (all_of chunk) (all_of chunkB)) hp
      in upd_links (insert_after_st (free_of chunk) (free_of chunkB)) hp)"

definition chunk_engage :: "u32 \<Rightarrow> heapdl \<Rightarrow> heapdl" where
  "chunk_engage chunk hp =
     (let hp = set_used chunk True hp;
          hp = upd_links (remove_st (free_of chunk)) hp
      in hp\<lparr>hp_mem_free := hp_mem_free hp - hp_size hp chunk\<rparr>)"

definition chunk_merge :: "u32 \<Rightarrow> u32 \<Rightarrow> heapdl \<Rightarrow> heapdl" where
  "chunk_merge chunkA chunkB hp =
     (let hp = upd_links (remove_st (all_of chunkB)) hp;
          hp = upd_links (remove_st (free_of chunkB)) hp;
          hp = set_size chunkA (hp_size hp chunkA + hp_size hp chunkB) hp
      in hp\<lparr>hp_mem_free := hp_mem_free hp + sizeof_CHUNK\<rparr>)"

definition chunk_free :: "u32 \<Rightarrow> heapdl \<Rightarrow> heapdl" where
  "chunk_free chunk hp =
     (let hp = set_used chunk False hp;
          hp = hp\<lparr>hp_mem_free := hp_mem_free hp + (hp_size hp chunk - sizeof_CHUNK)\<rparr>;
          prevChunk = container_of_all (dl_prev (hp_links hp (all_of chunk)));
          nextChunk = container_of_all (dl_next (hp_links hp (all_of chunk)))
      in if \<not> hp_used hp prevChunk then
           chunk_merge prevChunk chunk (upd_links (insert_after_st (free_of prevChunk) (free_of chunk)) hp)
         else if \<not> hp_used hp nextChunk then
           chunk_merge chunk nextChunk (upd_links (insert_before_st (free_of nextChunk) (free_of chunk)) hp)
         else upd_links (insert_after_st (free_of (hp_free_chunk_head hp)) (free_of chunk)) hp)"

definition k_heapdl_mm_get_free :: "heapdl \<Rightarrow> u32" where
  "k_heapdl_mm_get_free hp = hp_mem_free hp"

definition k_heapdl_mm_get_usage :: "heapdl \<Rightarrow> u32" where
  "k_heapdl_mm_get_usage hp = hp_mem_all hp - hp_mem_free hp"

definition debug_get_chunksfree :: "heapdl \<Rightarrow> int option" where
  "debug_get_chunksfree hp =
     (let head = free_of (hp_free_chunk_head hp); nxt = (\<lambda>p. dl_next (hp_links hp p))
      in list_count nxt head (nxt head) 0)"

text \<open>
  The loop of this function casts the entries of the list of all chunks with the member \<^verbatim>\<open>free\<close>;
  the cast and the address of the member cancel, so the walk is over the \<^verbatim>\<open>DLIST\<close> nodes.
\<close>

definition debug_get_chunks :: "heapdl \<Rightarrow> int option" where
  "debug_get_chunks hp =
     (let head = all_of (hp_free_chunk_head hp); nxt = (\<lambda>p. dl_next (hp_links hp p))
      in map_option (\<lambda>count. i32 (count + 1)) (list_count nxt head (nxt head) 0))"

text \<open>The test of the loop body: neither of the two \<^verbatim>\<open>continue\<close> statements is taken.\<close>

definition chunk_fits :: "heapdl \<Rightarrow> u32 \<Rightarrow> u32 \<Rightarrow> bool" where
  "chunk_fits hp s p =
     (let pos = container_of_free p
      in \<not> hp_size hp pos < s \<and> \<not> chunk_calc_actual_free hp pos < s)"

definition k_heapdl_mm_malloc :: "u32 \<Rightarrow> heapdl \<Rightarrow> (heapdl \<times> u32) option" where
  "k_heapdl_mm_malloc s hp =
     (let head = free_of (hp_free_chunk_head hp); nxt = (\<lambda>p. dl_next (hp_links hp p)) in
      if s > hp_mem_free hp \<or> hp_mem_free hp = 0 \<or> nxt head = head then Some (hp, 0)
      else do {
        found \<leftarrow> list_find (chunk_fits hp s) nxt head (nxt head);
        case found of
          None \<Rightarrow> Some (hp, 0)
        | Some p \<Rightarrow>
            (let pos = container_of_free p; chunk_free = chunk_calc_actual_free hp pos in
             if chunk_free - s < OS_HEAP_BLOCK_SIZE
             then Some (chunk_engage pos hp, chunk_calc_free_offset pos)
             else Some (chunk_engage pos (chunk_slice pos s hp), chunk_calc_free_offset pos))
      })"

definition chunk_calc_chunk_by_ptr :: "u32 \<Rightarrow> u32" where
  "chunk_calc_chunk_by_ptr ptr = ptr - header_size"

definition k_heapdl_mm_free :: "u32 \<Rightarrow> heapdl \<Rightarrow> heapdl" where
  "k_heapdl_mm_free ptr hp =
     (if ptr = 0 then hp
      else let chunk = chunk_calc_chunk_by_ptr ptr
           in if hp_used hp chunk then chunk_free chunk hp else hp)"

lemma header_size_32 [simp]: "header_size = 32"
  by (simp add: header_size_def align_address_to_upper_def sizeof_CHUNK_def OS_MEMORY_ALIGN_def)

lemmas layout_defs = sizeof_CHUNK_def free_of_def container_of_free_def all_of_def container_of_all_def
  chunk_calc_free_offset_def chunk_calc_actual_free_def chunk_calc_chunk_by_ptr_def

lemma heapdl_upd_sel [simp]:
  "hp_links (set_used c b hp) = hp_links hp" "hp_links (set_size c n hp) = hp_links hp"
  "hp_links (upd_links f hp) = f (hp_links hp)"
  "hp_used (set_used c b hp) = (hp_used hp)(c := b)" "hp_used (set_size c n hp) = hp_used hp"
  "hp_used (upd_links f hp) = hp_used hp"
  "hp_size (set_used c b hp) = hp_size hp" "hp_size (set_size c n hp) = (hp_size hp)(c := n)"
  "hp_size (upd_links f hp) = hp_size hp"
  "hp_first (set_used c b hp) = hp_first hp" "hp_first (set_size c n hp) = hp_first hp"
  "hp_first (upd_links f hp) = hp_first hp"
  "hp_last (set_used c b hp) = hp_last hp" "hp_last (set_size c n hp) = hp_last hp"
  "hp_last (upd_links f hp) = hp_last hp"
  "hp_free_chunk_head (set_used c b hp) = hp_free_chunk_head hp"
  "hp_free_chunk_head (set_size c n hp) = hp_free_chunk_head hp"
  "hp_free_chunk_head (upd_links f hp) = hp_free_chunk_head hp"
  "hp_mem_free (set_used c b hp) = hp_mem_free hp" "hp_mem_free (set_size c n hp) = hp_mem_free hp"
  "hp_mem_free (upd_links f hp) = hp_mem_free hp"
  "hp_mem_all (set_used c b hp) = hp_mem_all hp" "hp_mem_all (set_size c n hp) = hp_mem_all hp"
  "hp_mem_all (upd_links f hp) = hp_mem_all hp"
  by (simp_all add: set_used_def set_size_def upd_links_def)

section \<open>The heap invariant\<close>

text \<open>Every chunk is at least a header long and ends where the next one starts.\<close>

fun tiles :: "(u32 \<Rightarrow> u32) \<Rightarrow> u32 list \<Rightarrow> bool" where
  "tiles sz (c # d # cs) \<longleftrightarrow> 32 \<le> unat (sz c) \<and> unat c + unat (sz c) = unat d \<and> tiles sz (d # cs)"
| "tiles sz _ \<longleftrightarrow> True"

definition spaced :: "u32 list \<Rightarrow> bool" where
  "spaced cs \<longleftrightarrow> sorted_wrt (\<lambda>c d. unat c + 32 \<le> unat d) cs \<and> (\<forall>c\<in>set cs. unat c + 32 \<le> 2 ^ 32)"

text \<open>
  \<open>heap_rel hp mid fs\<close>: between the guards \<^verbatim>\<open>first\<close> and \<^verbatim>\<open>last\<close> the heap consists of the chunks
  \<open>mid\<close>, in the order of their addresses and without gaps; \<open>fs\<close> are the free ones, in the order
  of the free list, and the \<^verbatim>\<open>free\<close> nodes of the used ones are in no list.
\<close>

definition heap_rel :: "heapdl \<Rightarrow> u32 list \<Rightarrow> u32 list \<Rightarrow> bool" where
  "heap_rel hp mid fs \<longleftrightarrow>
     dl.lists (hp_links hp) (hp_first hp # mid @ [hp_last hp]) (map free_of (hp_first hp # fs))
       (free_of ` {c \<in> set mid. hp_used hp c}) \<and>
     set fs = {c \<in> set mid. \<not> hp_used hp c} \<and>
     hp_used hp (hp_first hp) \<and> hp_used hp (hp_last hp) \<and> hp_free_chunk_head hp = hp_first hp \<and>
     unat (hp_first hp) + 32 = unat (hd (mid @ [hp_last hp])) \<and>
     tiles (hp_size hp) (mid @ [hp_last hp]) \<and> unat (hp_last hp) + 32 \<le> 2 ^ 32 \<and>
     (\<forall>c\<in>set (hp_first hp # mid @ [hp_last hp]). 16 dvd unat c)"

lemma tiles_append: "tiles sz (xs @ y # ys) \<longleftrightarrow> tiles sz (xs @ [y]) \<and> tiles sz (y # ys)"
  by (induction sz xs rule: tiles.induct) auto

lemma tiles_cong: "(\<And>c. c \<in> set (butlast cs) \<Longrightarrow> sz' c = sz c) \<Longrightarrow> tiles sz' cs = tiles sz cs"
  by (induction sz cs rule: tiles.induct) auto

lemma tiles_less: "tiles sz (c # cs) \<Longrightarrow> d \<in> set cs \<Longrightarrow> unat c + 32 \<le> unat d"
proof (induction cs arbitrary: c)
  case (Cons e cs)
  then show ?case by (cases "d = e") fastforce+
qed simp

lemma tiles_sorted: "tiles sz cs \<Longrightarrow> sorted_wrt (\<lambda>c d. unat c + 32 \<le> unat d) cs"
proof (induction sz cs rule: tiles.induct)
  case (1 sz c d cs)
  then show ?case using tiles_less [OF 1(2)] by auto
qed auto

lemma heap_rel_spaced:
  assumes "heap_rel hp mid fs"
  shows "spaced (hp_first hp # mid @ [hp_last hp])"
proof -
  let ?z = "hp_last hp"
  have t: "tiles (hp_size hp) (mid @ [?z])" and z: "unat ?z + 32 \<le> 2 ^ 32"
    and a: "unat (hp_first hp) + 32 = unat (hd (mid @ [?z]))"
    using assms by (auto simp: heap_rel_def)
  note s = tiles_sorted [OF t]
  have le: "unat (hd (mid @ [?z])) \<le> unat d" if "d \<in> set (mid @ [?z])" for d
    using that s by (cases mid) fastforce+
  have "unat c \<le> unat ?z" if "c \<in> set (mid @ [?z])" for c
    using that s by (auto simp: sorted_wrt_append)
  then show ?thesis using s a z le [of ?z] le by (force simp: spaced_def)
qed

lemma unat_free_of: "unat c + 32 \<le> 2 ^ 32 \<Longrightarrow> unat (free_of c) = unat c + 16"
  by (simp add: free_of_def unat_add_nowrap)

lemma free_of_inj [simp]: "free_of c = free_of d \<longleftrightarrow> c = d"
  by (simp add: free_of_def)

lemma container_free [simp]: "container_of_free (free_of c) = c"
  by (simp add: free_of_def container_of_free_def)

lemma spaced_between:
  assumes "spaced cs" "c \<in> set cs" "d \<in> set cs" "c \<noteq> d"
  shows "unat c + 32 \<le> unat d \<or> unat d + 32 \<le> unat c"
proof -
  have "(\<forall>c\<in>set xs. \<forall>d\<in>set xs. c \<noteq> d \<longrightarrow> unat c + 32 \<le> unat d \<or> unat d + 32 \<le> unat c)"
    if "sorted_wrt (\<lambda>c d. unat c + 32 \<le> unat d) xs" for xs :: "u32 list"
    using that by (induction xs) auto
  then show ?thesis using assms by (auto simp: spaced_def)
qed

lemma spaced_free_of:
  assumes "spaced cs" "c \<in> set cs" "d \<in> set cs"
  shows "free_of c \<noteq> d"
proof
  assume "free_of c = d"
  then have "unat d = unat c + 16" using assms unat_free_of by (force simp: spaced_def)
  then show False using spaced_between [OF assms] by (cases "c = d") auto
qed

lemma spaced_distinct: "spaced cs \<Longrightarrow> distinct cs"
proof -
  have "sorted_wrt (\<lambda>c d. unat c + 32 \<le> unat d) xs \<Longrightarrow> distinct xs" for xs :: "u32 list"
    by (induction xs) fastforce+
  then show "spaced cs \<Longrightarrow> distinct cs" by (simp add: spaced_def)
qed

text \<open>A chunk inside the heap and its neighbour.\<close>

lemma heap_rel_chunk:
  assumes "heap_rel hp (as @ c # bs) fs" "d = hd (bs @ [hp_last hp])"
  shows "32 \<le> unat (hp_size hp c)" "unat c + unat (hp_size hp c) = unat d" "unat d + 32 \<le> 2 ^ 32"
proof -
  have "tiles (hp_size hp) (c # bs @ [hp_last hp])"
    using assms(1) tiles_append [of _ as c "bs @ [hp_last hp]"] by (simp add: heap_rel_def)
  then show "32 \<le> unat (hp_size hp c)" "unat c + unat (hp_size hp c) = unat d"
    using assms(2) by (cases bs; simp)+
  have "d \<in> set (hp_first hp # (as @ c # bs) @ [hp_last hp])" using assms(2) by (cases bs) auto
  then show "unat d + 32 \<le> 2 ^ 32" using heap_rel_spaced [OF assms(1)] by (auto simp: spaced_def)
qed

section \<open>Every operation keeps the invariant\<close>

lemma heap_rel_fs_distinct: "heap_rel hp mid fs \<Longrightarrow> distinct fs"
  using dl.ring_distinct [of "hp_links hp" "map free_of (hp_first hp # fs)"]
  by (auto simp: heap_rel_def dl.lists_def distinct_map)

lemma heap_rel_guards:
  assumes "heap_rel hp mid fs"
  shows "hp_first hp \<notin> set mid" "hp_last hp \<notin> set mid" "hp_first hp \<noteq> hp_last hp" "distinct mid"
  using spaced_distinct [OF heap_rel_spaced [OF assms]] by auto

lemma heap_relI:
  assumes "dl.lists (hp_links hp) (hp_first hp # mid @ [hp_last hp]) (map free_of (hp_first hp # fs)) U"
    and "\<And>c. c \<in> set mid \<Longrightarrow> hp_used hp c \<Longrightarrow> free_of c \<in> U"
    and "\<And>c. c \<in> set fs \<longleftrightarrow> c \<in> set mid \<and> \<not> hp_used hp c"
    and "hp_used hp (hp_first hp)" "hp_used hp (hp_last hp)" "hp_free_chunk_head hp = hp_first hp"
    and "unat (hp_first hp) + 32 = unat (hd (mid @ [hp_last hp]))"
    and "tiles (hp_size hp) (mid @ [hp_last hp])" "unat (hp_last hp) + 32 \<le> 2 ^ 32"
    and "\<And>c. c \<in> set (hp_first hp # mid @ [hp_last hp]) \<Longrightarrow> 16 dvd unat c"
  shows "heap_rel hp mid fs"
  using assms dl.lists_weaken [OF assms(1), of "free_of ` {c \<in> set mid. hp_used hp c}"]
  by (auto simp: heap_rel_def)

lemma chunk_engage_rel:
  assumes "heap_rel hp mid (xs @ c # ys)"
  shows "heap_rel (chunk_engage c hp) mid (xs @ ys)"
proof -
  let ?h = "hp_links hp" and ?a = "hp_first hp" and ?z = "hp_last hp"
  let ?U = "free_of ` {c \<in> set mid. hp_used hp c}"
  have c: "c \<in> set mid" "\<not> hp_used hp c" and fs: "set (xs @ c # ys) = {c \<in> set mid. \<not> hp_used hp c}"
    using assms by (auto simp: heap_rel_def)
  have "dl.lists ?h (map free_of (?a # xs) @ free_of c # map free_of ys) (?a # mid @ [?z]) ?U"
    using assms dl.lists_sym by (auto simp: heap_rel_def)
  then have "dl.lists (remove_st (free_of c) ?h) (map free_of (?a # xs) @ map free_of ys) (?a # mid @ [?z])
      (insert (free_of c) ?U)"
    by (rule dl.lists_remove) simp
  then have l: "dl.lists (remove_st (free_of c) ?h) (?a # mid @ [?z]) (map free_of (?a # xs @ ys))
      (insert (free_of c) ?U)"
    using dl.lists_sym by auto
  show ?thesis
  proof (rule heap_relI)
    show "dl.lists (hp_links (chunk_engage c hp)) (hp_first (chunk_engage c hp) # mid @ [hp_last (chunk_engage c hp)])
        (map free_of (hp_first (chunk_engage c hp) # xs @ ys)) (insert (free_of c) ?U)"
      using l by (simp add: chunk_engage_def Let_def)
    fix d
    show "d \<in> set (xs @ ys) \<longleftrightarrow> d \<in> set mid \<and> \<not> hp_used (chunk_engage c hp) d"
      using fs heap_rel_fs_distinct [OF assms] by (auto simp: chunk_engage_def Let_def)
  qed (use assms in \<open>auto simp: heap_rel_def chunk_engage_def Let_def\<close>)
qed

lemma chunk_slice_sizes:
  assumes "heap_rel hp (as @ c # bs) fs" "b = c + 32 + s" "unat s + 64 \<le> unat (hp_size hp c)"
  shows "unat b = unat c + 32 + unat s" "unat (hp_size hp c - 32 - s) = unat (hp_size hp c) - 32 - unat s"
    and "unat (hp_size hp c - (hp_size hp c - 32 - s)) = 32 + unat s" "b \<noteq> c"
proof -
  have e: "unat c + unat (hp_size hp c) + 32 \<le> 2 ^ 32" using heap_rel_chunk [OF assms(1)] by simp
  have 1: "unat (c + 32) = unat c + 32" using e assms(3) by (subst unat_add_nowrap) auto
  then show "unat b = unat c + 32 + unat s" unfolding assms(2)
    using e assms(3) by (subst unat_add_nowrap) auto
  then show "b \<noteq> c" by auto
  have 2: "unat (hp_size hp c - 32) = unat (hp_size hp c) - 32"
    using assms(3) by (subst unat_sub_nowrap) auto
  then show "unat (hp_size hp c - 32 - s) = unat (hp_size hp c) - 32 - unat s"
    using assms(3) by (subst unat_sub_nowrap) auto
  then show "unat (hp_size hp c - (hp_size hp c - 32 - s)) = 32 + unat s"
    using assms(3) by (subst unat_sub_nowrap) auto
qed

text \<open>The header of the new chunk lies between the sliced chunk and its neighbour.\<close>

lemma chunk_slice_fresh:
  assumes "heap_rel hp (as @ c # bs) fs" "unat b = unat c + 32 + unat s" "unat s + 64 \<le> unat (hp_size hp c)"
  shows "spaced (hp_first hp # (as @ c # b # bs) @ [hp_last hp])"
proof -
  let ?d = "hd (bs @ [hp_last hp])"
  let ?L = "hp_first hp # as @ [c]" and ?R = "bs @ [hp_last hp]"
  have sp: "spaced (?L @ ?R)" using heap_rel_spaced [OF assms(1)] by simp
  then have LR: "sorted_wrt (\<lambda>c d. unat c + 32 \<le> unat d) ?L" "sorted_wrt (\<lambda>c d. unat c + 32 \<le> unat d) ?R"
    and x: "\<And>e f. e \<in> set ?L \<Longrightarrow> f \<in> set ?R \<Longrightarrow> unat e + 32 \<le> unat f"
    and top: "\<And>e. e \<in> set (?L @ ?R) \<Longrightarrow> unat e + 32 \<le> 2 ^ 32"
    unfolding spaced_def sorted_wrt_append by blast+
  have d: "unat b + 32 \<le> unat ?d" "unat ?d + 32 \<le> 2 ^ 32"
    using heap_rel_chunk [OF assms(1) refl] assms(2,3) by simp_all
  have "unat ?d \<le> unat e" if "e \<in> set ?R" for e
    using that LR(2) by (cases bs) auto
  then have r: "unat b + 32 \<le> unat e" if "e \<in> set ?R" for e using d(1) that by (meson order.trans)
  have "unat e \<le> unat c" if "e \<in> set ?L" for e using that LR(1) by (auto simp: sorted_wrt_append)
  then have l: "unat e + 32 \<le> unat b" if "e \<in> set ?L" for e using that assms(2) by fastforce
  have "sorted_wrt (\<lambda>c d. unat c + 32 \<le> unat d) (?L @ b # ?R)"
    unfolding sorted_wrt_append using LR x l r by simp
  moreover have "unat e + 32 \<le> 2 ^ 32" if "e \<in> set (?L @ b # ?R)" for e
    using that top d by (cases "e = b") auto
  ultimately show ?thesis unfolding spaced_def by simp
qed

lemma chunk_init_sel [simp]:
  "hp_links (chunk_init c hp) = dlist_init (free_of c) (dlist_init c (hp_links hp))"
  "hp_used (chunk_init c hp) = (hp_used hp)(c := False)"
  "hp_size (chunk_init c hp) = (hp_size hp)(c := 32)"
  "hp_first (chunk_init c hp) = hp_first hp" "hp_last (chunk_init c hp) = hp_last hp"
  "hp_free_chunk_head (chunk_init c hp) = hp_free_chunk_head hp"
  "hp_mem_free (chunk_init c hp) = hp_mem_free hp" "hp_mem_all (chunk_init c hp) = hp_mem_all hp"
  by (simp_all add: chunk_init_def Let_def dlist_init_def all_of_def)

lemma chunk_slice_sel:
  assumes "b = c + 32 + s" "b \<noteq> c"
  shows "hp_links (chunk_slice c s hp) =
      insert_after_st (free_of c) (free_of b)
        (insert_after_st c b (dlist_init (free_of b) (dlist_init b (hp_links hp))))"
    "hp_used (chunk_slice c s hp) = (hp_used hp)(b := False)"
    "hp_size (chunk_slice c s hp) =
      (hp_size hp)(b := hp_size hp c - 32 - s, c := hp_size hp c - (hp_size hp c - 32 - s))"
    "hp_first (chunk_slice c s hp) = hp_first hp" "hp_last (chunk_slice c s hp) = hp_last hp"
    "hp_free_chunk_head (chunk_slice c s hp) = hp_free_chunk_head hp"
    "hp_mem_free (chunk_slice c s hp) = hp_mem_free hp" "hp_mem_all (chunk_slice c s hp) = hp_mem_all hp"
  using assms
  by (simp_all add: chunk_slice_def Let_def chunk_calc_free_offset_def chunk_calc_actual_free_def
      all_of_def fun_eq_iff)

lemma chunk_slice_lists:
  assumes r: "heap_rel hp (as @ c # bs) (xs @ c # ys)" and b: "b = c + 32 + s" "b \<noteq> c"
    and sp: "spaced (hp_first hp # (as @ c # b # bs) @ [hp_last hp])"
  shows "dl.lists (hp_links (chunk_slice c s hp)) (hp_first hp # (as @ c # b # bs) @ [hp_last hp])
      (map free_of (hp_first hp # xs @ c # b # ys)) (free_of ` {e \<in> set (as @ c # bs). hp_used hp e})"
proof -
  let ?h = "hp_links hp" and ?a = "hp_first hp" and ?z = "hp_last hp"
  let ?U = "free_of ` {e \<in> set (as @ c # bs). hp_used hp e}"
  let ?A = "?a # (as @ c # bs) @ [?z]" and ?F = "map free_of (?a # xs @ c # ys)"
  have bA: "b \<notin> set ?A" using spaced_distinct [OF sp] by auto
  have bin: "b \<in> set (?a # (as @ c # b # bs) @ [?z])" by simp
  have ne: "free_of e \<noteq> b" "free_of b \<noteq> e" if "e \<in> insert b (set ?A)" for e
  proof -
    have e: "e \<in> set (?a # (as @ c # b # bs) @ [?z])" using that by auto
    show "free_of e \<noteq> b" "free_of b \<noteq> e" using spaced_free_of [OF sp e bin] spaced_free_of [OF sp bin e] by auto
  qed
  have "set (xs @ c # ys) \<subseteq> set (as @ c # bs)" using r unfolding heap_rel_def by blast
  then have sub: "set ?F \<union> ?U \<subseteq> free_of ` set ?A" by auto
  have "b \<notin> free_of ` set ?A"
    by (rule notI, erule imageE) (use ne(1) in \<open>metis insertCI\<close>)
  then have bn: "b \<notin> set ?F \<union> ?U" by (rule contra_subsetD [OF sub])
  have fb: "free_of b \<notin> set ?F \<union> ?U" by (rule contra_subsetD [OF sub]) (use bA in auto)
  have l0: "dl.lists ?h ?A ?F ?U" using r unfolding heap_rel_def by blast
  have "b \<notin> set ?A \<union> set ?F \<union> ?U" using bA bn by simp
  note l1 = lists_init [OF l0 this]
  have "free_of b \<notin> set ?A \<union> set ?F \<union> insert b ?U"
  proof -
    have "free_of b \<notin> insert b (set ?A)" using ne(2) by metis
    then show ?thesis using fb by simp
  qed
  from lists_init [OF l1 this]
  have l2: "dl.lists (dlist_init (free_of b) (dlist_init b ?h)) ((?a # as) @ c # (bs @ [?z]))
      (map free_of (?a # xs @ c # ys)) (insert b (insert (free_of b) ?U))"
    by (simp only: insert_commute [of b] append_Cons append_assoc)
  have "b \<notin> insert (free_of b) ?U" using bn ne(2) [of b] by simp
  from dl.lists_sym [OF dl.lists_ins_after [OF l2 this]]
  have "dl.lists (insert_after_st c b (dlist_init (free_of b) (dlist_init b ?h)))
      (map free_of (?a # xs) @ free_of c # map free_of ys) ((?a # as) @ c # b # (bs @ [?z])) (insert (free_of b) ?U)"
    by (simp only: list.map map_append append_Cons)
  from dl.lists_sym [OF dl.lists_ins_after [OF this]] fb show ?thesis
    by (simp only: chunk_slice_sel(1) [OF b] list.map map_append append_Cons append_assoc Un_iff de_Morgan_disj simp_thms)
qed

lemma chunk_slice_tiles:
  assumes r: "heap_rel hp (as @ c # bs) fs" and b: "b = c + 32 + s"
    and room: "unat s + 64 \<le> unat (hp_size hp c)"
    and d: "distinct ((as @ c # b # bs) @ [hp_last hp])"
  shows "tiles (hp_size (chunk_slice c s hp)) ((as @ c # b # bs) @ [hp_last hp])"
proof -
  let ?z = "hp_last hp" and ?sz = "hp_size (chunk_slice c s hp)"
  note sz = chunk_slice_sizes [OF r b room]
  note sel = chunk_slice_sel(3) [OF b sz(4), of hp]
  have t0: "tiles (hp_size hp) (as @ [c])" "tiles (hp_size hp) (c # bs @ [?z])"
    using r tiles_append [of _ as c "bs @ [?z]"] by (auto simp: heap_rel_def)
  have "tiles ?sz (as @ [c]) = tiles (hp_size hp) (as @ [c])"
    using d by (intro tiles_cong) (auto simp: sel)
  moreover have "tiles ?sz (bs @ [?z]) = tiles (hp_size hp) (bs @ [?z])"
    using d by (intro tiles_cong) (auto simp: sel)
  moreover have "tiles (hp_size hp) (bs @ [?z])" using t0(2) by (cases bs) auto
  moreover have "unat b + unat (?sz b) = unat (hd (bs @ [?z]))" "32 \<le> unat (?sz b)"
    "unat c + unat (?sz c) = unat b" "32 \<le> unat (?sz c)"
    using heap_rel_chunk(2) [OF r refl] sz room by (simp_all add: sel)
  ultimately show ?thesis
    using t0 tiles_append [of ?sz as c "b # bs @ [?z]"] by (cases bs) auto
qed

lemma chunk_slice_rel:
  assumes r: "heap_rel hp (as @ c # bs) (xs @ c # ys)" and b: "b = c + 32 + s"
    and room: "unat s + 64 \<le> unat (hp_size hp c)" and al: "16 dvd unat s"
  shows "heap_rel (chunk_slice c s hp) (as @ c # b # bs) (xs @ c # b # ys)"
proof -
  let ?a = "hp_first hp" and ?z = "hp_last hp" and ?hp = "chunk_slice c s hp"
  let ?U = "free_of ` {e \<in> set (as @ c # bs). hp_used hp e}"
  note sz = chunk_slice_sizes [OF r b room]
  note sel = chunk_slice_sel [OF b sz(4), of hp]
  have sp: "spaced (?a # (as @ c # b # bs) @ [?z])" by (rule chunk_slice_fresh [OF r sz(1) room])
  have bf: "b \<noteq> ?a" "b \<noteq> ?z" "b \<notin> set (as @ c # bs)" using spaced_distinct [OF sp] by auto
  have fs: "set (xs @ c # ys) = {e \<in> set (as @ c # bs). \<not> hp_used hp e}" using r by (simp add: heap_rel_def)
  have l: "dl.lists (hp_links ?hp) (hp_first ?hp # (as @ c # b # bs) @ [hp_last ?hp])
      (map free_of (hp_first ?hp # xs @ c # b # ys)) ?U"
    unfolding sel(4,5) by (rule chunk_slice_lists [OF r b sz(4) sp])
  have t: "tiles (hp_size ?hp) ((as @ c # b # bs) @ [hp_last ?hp])"
    unfolding sel(5) by (rule chunk_slice_tiles [OF r b room]) (use spaced_distinct [OF sp] in simp)
  have u: "hp_used ?hp e \<longleftrightarrow> e \<noteq> b \<and> hp_used hp e" for e by (simp add: sel(2))
  have al_b: "16 dvd unat b" using r al sz(1) by (simp add: heap_rel_def)
  show ?thesis
  proof (rule heap_relI [OF l])
    fix e
    have "e \<in> set (xs @ c # ys) \<longleftrightarrow> e \<in> set (as @ c # bs) \<and> \<not> hp_used hp e" using fs by blast
    then show "e \<in> set (xs @ c # b # ys) \<longleftrightarrow> e \<in> set (as @ c # b # bs) \<and> \<not> hp_used ?hp e"
      using bf(3) by (cases "e = b") (simp_all add: u)
  next
    show "unat (hp_first ?hp) + 32 = unat (hd ((as @ c # b # bs) @ [hp_last ?hp]))"
      using r by (cases as) (simp_all add: heap_rel_def sel(4,5))
  next
    fix e assume "e \<in> set (hp_first ?hp # (as @ c # b # bs) @ [hp_last ?hp])"
    then show "16 dvd unat e" using r al_b by (auto simp: heap_rel_def sel(4,5))
  qed (use r t bf in \<open>auto simp: heap_rel_def sel(4-6) u\<close>)
qed

text \<open>Merging a free chunk with the free chunk after it, whatever its place in the free list.\<close>

lemma chunk_merge_sel:
  "hp_links (chunk_merge c d hp) = remove_st (free_of d) (remove_st d (hp_links hp))"
  "hp_used (chunk_merge c d hp) = hp_used hp"
  "hp_size (chunk_merge c d hp) = (hp_size hp)(c := hp_size hp c + hp_size hp d)"
  "hp_first (chunk_merge c d hp) = hp_first hp" "hp_last (chunk_merge c d hp) = hp_last hp"
  "hp_free_chunk_head (chunk_merge c d hp) = hp_free_chunk_head hp"
  by (simp_all add: chunk_merge_def Let_def all_of_def)

lemma chunk_merge_lists:
  assumes r: "heap_rel hp (as @ c # d # bs) (xs @ d # ys)"
  shows "dl.lists (hp_links (chunk_merge c d hp)) (hp_first hp # (as @ c # bs) @ [hp_last hp])
      (map free_of (hp_first hp # xs @ ys)) (free_of ` {e \<in> set (as @ c # d # bs). hp_used hp e})"
proof -
  let ?a = "hp_first hp" and ?z = "hp_last hp" and ?h = "hp_links hp"
  let ?U = "free_of ` {e \<in> set (as @ c # d # bs). hp_used hp e}"
  have "dl.lists ?h ((?a # as @ [c]) @ d # (bs @ [?z])) (map free_of (?a # xs @ d # ys)) ?U"
    using r by (simp add: heap_rel_def)
  from dl.lists_remove [OF this]
  have "dl.lists (remove_st d ?h) ((?a # as @ [c]) @ (bs @ [?z])) (map free_of (?a # xs @ d # ys)) (insert d ?U)"
    by simp
  from dl.lists_sym [OF this]
  have "dl.lists (remove_st d ?h) (map free_of (?a # xs) @ free_of d # map free_of ys)
      ((?a # as @ [c]) @ (bs @ [?z])) (insert d ?U)"
    by simp
  from dl.lists_remove [OF this]
  have "dl.lists (hp_links (chunk_merge c d hp)) (map free_of (?a # xs) @ map free_of ys)
      ((?a # as @ [c]) @ (bs @ [?z])) (insert (free_of d) (insert d ?U))"
    by (simp add: chunk_merge_sel)
  from dl.lists_weaken [OF dl.lists_sym [OF this], of ?U] show ?thesis by auto
qed

lemma chunk_merge_tiles:
  assumes r: "heap_rel hp (as @ c # d # bs) fs"
  shows "tiles (hp_size (chunk_merge c d hp)) ((as @ c # bs) @ [hp_last hp])"
proof -
  let ?z = "hp_last hp" and ?sz = "hp_size (chunk_merge c d hp)"
  have di: "distinct (as @ c # d # bs)" using heap_rel_guards [OF r] by simp
  have t0: "tiles (hp_size hp) (as @ [c])" "tiles (hp_size hp) (c # d # bs @ [?z])"
    using r tiles_append [of _ as c "d # bs @ [?z]"] by (auto simp: heap_rel_def)
  have "tiles ?sz (as @ [c]) = tiles (hp_size hp) (as @ [c])"
    using di by (intro tiles_cong) (auto simp: chunk_merge_sel)
  moreover have "tiles ?sz (bs @ [?z]) = tiles (hp_size hp) (bs @ [?z])"
    using di by (intro tiles_cong) (auto simp: chunk_merge_sel)
  moreover have "tiles (hp_size hp) (bs @ [?z])" using t0(2) by (cases bs) auto
  moreover have "unat (?sz c) = unat (hp_size hp c) + unat (hp_size hp d)"
  proof -
    have "heap_rel hp ((as @ [c]) @ d # bs) fs" using r by simp
    note dd = heap_rel_chunk [OF this refl] and cc = heap_rel_chunk [OF r refl]
    have "unat (hp_size hp c) + unat (hp_size hp d) < 2 ^ 32" using dd(2,3) cc(2) by simp
    then show ?thesis by (simp add: chunk_merge_sel unat_add_nowrap)
  qed
  ultimately show ?thesis
    using t0 tiles_append [of ?sz as c "bs @ [?z]"] by (cases bs) auto
qed

lemma chunk_merge_rel:
  assumes r: "heap_rel hp (as @ c # d # bs) (xs @ d # ys)"
  shows "heap_rel (chunk_merge c d hp) (as @ c # bs) (xs @ ys)"
proof (rule heap_relI)
  let ?hp = "chunk_merge c d hp"
  show "dl.lists (hp_links ?hp) (hp_first ?hp # (as @ c # bs) @ [hp_last ?hp])
      (map free_of (hp_first ?hp # xs @ ys)) (free_of ` {e \<in> set (as @ c # d # bs). hp_used hp e})"
    unfolding chunk_merge_sel(4,5) by (rule chunk_merge_lists [OF r])
  show "tiles (hp_size ?hp) ((as @ c # bs) @ [hp_last ?hp])"
    unfolding chunk_merge_sel(5) by (rule chunk_merge_tiles [OF r])
  show "unat (hp_first ?hp) + 32 = unat (hd ((as @ c # bs) @ [hp_last ?hp]))"
    using r by (cases as) (simp_all add: heap_rel_def chunk_merge_sel)
  fix e
  have "e \<in> set (xs @ d # ys) \<longleftrightarrow> e \<in> set (as @ c # d # bs) \<and> \<not> hp_used hp e"
    using r unfolding heap_rel_def by blast
  then show "e \<in> set (xs @ ys) \<longleftrightarrow> e \<in> set (as @ c # bs) \<and> \<not> hp_used ?hp e"
    using heap_rel_fs_distinct [OF r] heap_rel_guards(4) [OF r]
    by (cases "e = d") (auto simp: chunk_merge_sel)
qed (use r in \<open>auto simp: heap_rel_def chunk_merge_sel\<close>)

text \<open>Marking a used chunk as free and putting it into the free list, before any merge.\<close>

lemma chunk_release_rel:
  assumes r: "heap_rel hp mid (xs @ ys)" and c: "c \<in> set mid" "hp_used hp c"
    and links: "hp_links hp' = h'" "hp_used hp' = (hp_used hp)(c := False)" "hp_size hp' = hp_size hp"
      "hp_first hp' = hp_first hp" "hp_last hp' = hp_last hp" "hp_free_chunk_head hp' = hp_free_chunk_head hp"
    and h': "dl.lists h' (map free_of (hp_first hp # xs @ c # ys)) (hp_first hp # mid @ [hp_last hp])
      (free_of ` {e \<in> set mid. hp_used hp e} - {free_of c})"
  shows "heap_rel hp' mid (xs @ c # ys)"
proof (rule heap_relI)
  show "dl.lists (hp_links hp') (hp_first hp' # mid @ [hp_last hp']) (map free_of (hp_first hp' # xs @ c # ys))
      (free_of ` {e \<in> set mid. hp_used hp e} - {free_of c})"
    using dl.lists_sym [OF h'] links by simp
  fix e
  have "e \<in> set (xs @ ys) \<longleftrightarrow> e \<in> set mid \<and> \<not> hp_used hp e" using r by (auto simp: heap_rel_def)
  then show "e \<in> set (xs @ c # ys) \<longleftrightarrow> e \<in> set mid \<and> \<not> hp_used hp' e"
    using c links by (cases "e = c") auto
next
  fix e assume "e \<in> set mid" "hp_used hp' e"
  then show "free_of e \<in> free_of ` {e \<in> set mid. hp_used hp e} - {free_of c}"
    using links(2) by (cases "e = c") auto
qed (use r c heap_rel_guards [OF r] links in \<open>auto simp: heap_rel_def\<close>)

text \<open>The neighbours of a chunk in the list of all chunks.\<close>

lemma heap_rel_neighbours:
  assumes "heap_rel hp (as @ c # bs) fs"
  shows "dl_prev (hp_links hp c) = last (hp_first hp # as)" "dl_next (hp_links hp c) = hd (bs @ [hp_last hp])"
proof -
  have ring: "dl_ring (hp_links hp) ((hp_first hp # as) @ c # bs @ [hp_last hp])"
    using assms by (simp add: heap_rel_def dl.lists_def)
  show "dl_next (hp_links hp c) = hd (bs @ [hp_last hp])"
    using dl.ring_nxt_in [of "hp_links hp" "hp_first hp # as" c] ring by (cases bs) auto
  obtain ps p where p: "hp_first hp # as = ps @ [p]" by (cases "hp_first hp # as" rule: rev_cases) auto
  then show "dl_prev (hp_links hp c) = last (hp_first hp # as)"
    using dl.ring_prv_in [of "hp_links hp" ps p c "bs @ [hp_last hp]"] ring by simp
qed

text \<open>The address and the length of the memory that belongs to the users of the heap.\<close>

definition live :: "heapdl \<Rightarrow> u32 list \<Rightarrow> (u32 \<times> nat) set" where
  "live hp mid = (\<lambda>c. (c + 32, unat (hp_size hp c) - 32)) ` {c \<in> set mid. hp_used hp c}"

definition chunk_release :: "u32 \<Rightarrow> (u32 dstore \<Rightarrow> u32 dstore) \<Rightarrow> heapdl \<Rightarrow> heapdl" where
  "chunk_release c f hp =
     upd_links f (set_used c False hp)\<lparr>hp_mem_free := hp_mem_free hp + (hp_size hp c - 32)\<rparr>"

lemma chunk_release_sel:
  "hp_links (chunk_release c f hp) = f (hp_links hp)"
  "hp_used (chunk_release c f hp) = (hp_used hp)(c := False)" "hp_size (chunk_release c f hp) = hp_size hp"
  "hp_first (chunk_release c f hp) = hp_first hp" "hp_last (chunk_release c f hp) = hp_last hp"
  "hp_free_chunk_head (chunk_release c f hp) = hp_free_chunk_head hp"
  by (simp_all add: chunk_release_def)

lemma upd_links_mem_free: "upd_links f (hp\<lparr>hp_mem_free := n\<rparr>) = (upd_links f hp)\<lparr>hp_mem_free := n\<rparr>"
  by (simp add: upd_links_def)

lemma chunk_free_cases:
  assumes r: "heap_rel hp (as @ c # bs) fs" and c: "hp_used hp c"
  defines "p \<equiv> last (hp_first hp # as)" and "d \<equiv> hd (bs @ [hp_last hp])"
  shows "\<not> hp_used hp p \<Longrightarrow>
      chunk_free c hp = chunk_merge p c (chunk_release c (insert_after_st (free_of p) (free_of c)) hp)"
    and "hp_used hp p \<Longrightarrow> \<not> hp_used hp d \<Longrightarrow>
      chunk_free c hp = chunk_merge c d (chunk_release c (insert_before_st (free_of d) (free_of c)) hp)"
    and "hp_used hp p \<Longrightarrow> hp_used hp d \<Longrightarrow>
      chunk_free c hp = chunk_release c (insert_after_st (free_of (hp_first hp)) (free_of c)) hp"
proof -
  have di: "distinct (hp_first hp # (as @ c # bs) @ [hp_last hp])"
    by (rule spaced_distinct [OF heap_rel_spaced [OF r]])
  have "p \<in> set (hp_first hp # as)" unfolding p_def by (rule last_in_set) simp
  moreover have "d \<in> set (bs @ [hp_last hp])" unfolding d_def by (rule hd_in_set) simp
  ultimately have ne: "p \<noteq> c" "d \<noteq> c" using di by auto
  have nb: "dl_prev (hp_links hp c) = p" "dl_next (hp_links hp c) = d"
    using heap_rel_neighbours [OF r] by (simp_all add: p_def d_def)
  have hd: "hp_free_chunk_head hp = hp_first hp" using r by (simp add: heap_rel_def)
  note defs = chunk_free_def chunk_release_def Let_def all_of_def container_of_all_def nb ne
    upd_links_mem_free sizeof_CHUNK_def hd
  show "\<not> hp_used hp p \<Longrightarrow>
      chunk_free c hp = chunk_merge p c (chunk_release c (insert_after_st (free_of p) (free_of c)) hp)"
    by (simp add: defs)
  show "hp_used hp p \<Longrightarrow> \<not> hp_used hp d \<Longrightarrow>
      chunk_free c hp = chunk_merge c d (chunk_release c (insert_before_st (free_of d) (free_of c)) hp)"
    by (simp add: defs)
  show "hp_used hp p \<Longrightarrow> hp_used hp d \<Longrightarrow>
      chunk_free c hp = chunk_release c (insert_after_st (free_of (hp_first hp)) (free_of c)) hp"
    by (simp add: defs)
qed

lemma chunk_release_after:
  assumes r: "heap_rel hp mid fs" and c: "c \<in> set mid" "hp_used hp c"
    and fs: "hp_first hp # fs = xs @ p # ys"
  shows "heap_rel (chunk_release c (insert_after_st (free_of p) (free_of c)) hp) mid (tl (xs @ [p]) @ c # ys)"
proof -
  let ?A = "hp_first hp # mid @ [hp_last hp]" and ?U = "free_of ` {e \<in> set mid. hp_used hp e}"
  have "dl.lists (hp_links hp) (map free_of (xs @ p # ys)) ?A ?U"
    using r unfolding heap_rel_def fs by (blast intro: dl.lists_sym)
  moreover have "insert (free_of c) (?U - {free_of c}) = ?U" using c by auto
  ultimately have "dl.lists (hp_links hp) (map free_of xs @ free_of p # map free_of ys) ?A
      (insert (free_of c) (?U - {free_of c}))"
    by (simp only: list.map map_append)
  from dl.lists_ins_after [OF this]
  have "dl.lists (insert_after_st (free_of p) (free_of c) (hp_links hp))
      (map free_of (xs @ p # c # ys)) ?A (?U - {free_of c})" by simp
  moreover have "xs @ p # c # ys = hp_first hp # tl (xs @ [p]) @ c # ys" "tl (xs @ [p]) @ ys = fs"
    using fs by (cases xs; auto)+
  ultimately show ?thesis
    by (intro chunk_release_rel [where hp = hp]) (use r c in \<open>simp_all add: chunk_release_sel\<close>)
qed

lemma chunk_release_before:
  assumes r: "heap_rel hp mid (xs @ p # ys)" and c: "c \<in> set mid" "hp_used hp c"
  shows "heap_rel (chunk_release c (insert_before_st (free_of p) (free_of c)) hp) mid (xs @ c # p # ys)"
proof -
  let ?A = "hp_first hp # mid @ [hp_last hp]" and ?U = "free_of ` {e \<in> set mid. hp_used hp e}"
  have "dl.lists (hp_links hp) (map free_of (hp_first hp # xs @ p # ys)) ?A ?U"
    using r unfolding heap_rel_def by (blast intro: dl.lists_sym)
  moreover have "insert (free_of c) (?U - {free_of c}) = ?U" using c by auto
  ultimately have "dl.lists (hp_links hp) (map free_of (hp_first hp # xs) @ free_of p # map free_of ys) ?A
      (insert (free_of c) (?U - {free_of c}))"
    by (simp only: list.map map_append append_Cons)
  from dl.lists_ins_before [OF this]
  have "dl.lists (insert_before_st (free_of p) (free_of c) (hp_links hp))
      (map free_of (hp_first hp # xs @ c # p # ys)) ?A (?U - {free_of c})" by simp
  then show ?thesis
    by (intro chunk_release_rel [where hp = hp and xs = xs and ys = "p # ys" and c = c]) (use r c in \<open>simp_all add: chunk_release_sel\<close>)
qed

lemma chunk_free_live:
  assumes "heap_rel hp mid fs" "c \<in> set mid" "hp_used hp c"
    and "\<And>e. hp_used hp' e \<longleftrightarrow> e \<noteq> c \<and> hp_used hp e"
    and "\<And>e. hp_used hp' e \<Longrightarrow> hp_size hp' e = hp_size hp e"
    and "\<And>e. hp_used hp' e \<Longrightarrow> e \<in> set mid' \<longleftrightarrow> e \<in> set mid"
  shows "live hp' mid' = live hp mid - {(c + 32, unat (hp_size hp c) - 32)}"
proof -
  have "{e \<in> set mid'. hp_used hp' e} = {e \<in> set mid. hp_used hp e} - {c}" using assms(4,6) by auto
  then have "live hp' mid' = (\<lambda>e. (e + 32, unat (hp_size hp e) - 32)) ` ({e \<in> set mid. hp_used hp e} - {c})"
    unfolding live_def using assms(4,5) by (intro image_cong) auto
  also have "\<dots> = live hp mid - {(c + 32, unat (hp_size hp c) - 32)}" by (auto simp: live_def)
  finally show ?thesis .
qed

lemma chunk_free_rel:
  assumes r: "heap_rel hp mid fs" and c: "c \<in> set mid" "hp_used hp c"
  shows "\<exists>mid' fs'. heap_rel (chunk_free c hp) mid' fs' \<and>
    live (chunk_free c hp) mid' = live hp mid - {(c + 32, unat (hp_size hp c) - 32)}"
proof -
  obtain as bs where mid: "mid = as @ c # bs" using c by (auto simp: in_set_conv_decomp)
  let ?p = "last (hp_first hp # as)" and ?d = "hd (bs @ [hp_last hp])"
  note cs = chunk_free_cases [OF r [unfolded mid] c(2)]
  have guard: "hp_used hp (hp_first hp)" "hp_used hp (hp_last hp)" using r by (auto simp: heap_rel_def)
  have fs: "e \<in> set fs" if "e \<in> set mid" "\<not> hp_used hp e" for e using r that by (auto simp: heap_rel_def)
  consider (prev) "\<not> hp_used hp ?p" | (succ) "hp_used hp ?p" "\<not> hp_used hp ?d"
    | (none) "hp_used hp ?p" "hp_used hp ?d" by blast
  then show ?thesis
  proof cases
    case prev
    then have "as \<noteq> []" using guard by auto
    then obtain as' p where as: "as = as' @ [p]" "?p = p" by (cases as rule: rev_cases) auto
    then obtain xs ys where f: "fs = xs @ p # ys"
      using fs [of p] prev mid by (auto simp: in_set_conv_decomp)
    let ?hp = "chunk_release c (insert_after_st (free_of p) (free_of c)) hp"
    have "heap_rel ?hp mid (tl ((hp_first hp # xs) @ [p]) @ c # ys)"
      by (rule chunk_release_after [OF r c]) (simp add: f)
    then have "heap_rel ?hp (as' @ p # c # bs) ((xs @ [p]) @ c # ys)" by (simp add: mid as)
    from chunk_merge_rel [OF this]
    have "heap_rel (chunk_free c hp) (as' @ p # bs) ((xs @ [p]) @ ys)" using cs(1) prev as by simp
    moreover have "live (chunk_free c hp) (as' @ p # bs) = live hp mid - {(c + 32, unat (hp_size hp c) - 32)}"
      by (rule chunk_free_live [OF r c])
        (use cs(1) prev as in \<open>auto simp: chunk_merge_sel chunk_release_sel mid split: if_splits\<close>)
    ultimately show ?thesis by blast
  next
    case succ
    then have "bs \<noteq> []" using guard by auto
    then obtain d bs' where bs: "bs = d # bs'" "?d = d" by (cases bs) auto
    then obtain xs ys where f: "fs = xs @ d # ys"
      using fs [of d] succ mid by (auto simp: in_set_conv_decomp)
    let ?hp = "chunk_release c (insert_before_st (free_of d) (free_of c)) hp"
    have "heap_rel ?hp mid (xs @ c # d # ys)"
      by (rule chunk_release_before [OF r [unfolded f] c])
    then have "heap_rel ?hp (as @ c # d # bs') ((xs @ [c]) @ d # ys)" by (simp add: mid bs)
    from chunk_merge_rel [OF this]
    have "heap_rel (chunk_free c hp) (as @ c # bs') ((xs @ [c]) @ ys)" using cs(2) succ bs by simp
    moreover have "live (chunk_free c hp) (as @ c # bs') = live hp mid - {(c + 32, unat (hp_size hp c) - 32)}"
      by (rule chunk_free_live [OF r c])
        (use cs(2) succ bs in \<open>auto simp: chunk_merge_sel chunk_release_sel mid split: if_splits\<close>)
    ultimately show ?thesis by blast
  next
    case none
    have "heap_rel (chunk_free c hp) mid (tl ([] @ [hp_first hp]) @ c # fs)"
      using chunk_release_after [OF r c, of "[]" "hp_first hp" fs] cs(3) none by simp
    moreover have "live (chunk_free c hp) mid = live hp mid - {(c + 32, unat (hp_size hp c) - 32)}"
      by (rule chunk_free_live [OF r c]) (use cs(3) none in \<open>auto simp: chunk_release_sel\<close>)
    ultimately show ?thesis by blast
  qed
qed

text \<open>
  The walk of \<^verbatim>\<open>k_heapdl_mm_malloc\<close> over the free list always ends, and takes the first chunk of the
  list whose usable part is large enough.
\<close>

lemma chunk_fits_iff:
  assumes "heap_rel hp mid fs" "c \<in> set mid"
  shows "chunk_fits hp s (free_of c) \<longleftrightarrow> unat s + 32 \<le> unat (hp_size hp c)"
proof -
  obtain as bs where mid: "mid = as @ c # bs" using assms(2) by (auto simp: in_set_conv_decomp)
  have "32 \<le> unat (hp_size hp c)" using heap_rel_chunk(1) [OF assms(1) [unfolded mid] refl] .
  then have "unat (hp_size hp c - 32) = unat (hp_size hp c) - 32" by (subst unat_sub_nowrap) auto
  then show ?thesis using \<open>32 \<le> unat (hp_size hp c)\<close>
    by (auto simp: chunk_fits_def Let_def chunk_calc_actual_free_def word_less_nat_alt)
qed

lemma malloc_walk:
  assumes "heap_rel hp mid fs"
  shows "list_find (chunk_fits hp s) (\<lambda>p. dl_next (hp_links hp p)) (free_of (hp_first hp))
      (dl_next (hp_links hp (free_of (hp_first hp)))) =
    Some (map_option free_of (List.find (\<lambda>c. unat s + 32 \<le> unat (hp_size hp c)) fs))"
proof -
  have "dl_ring (hp_links hp) (free_of (hp_first hp) # map free_of fs)"
    using assms by (simp add: heap_rel_def dl.lists_def)
  from dl.find_ring [OF this, of "chunk_fits hp s"]
  have "list_find (chunk_fits hp s) (\<lambda>p. dl_next (hp_links hp p)) (free_of (hp_first hp))
      (dl_next (hp_links hp (free_of (hp_first hp)))) = Some (List.find (chunk_fits hp s) (map free_of fs))" .
  also have "List.find (chunk_fits hp s) (map free_of fs) =
      map_option free_of (List.find (\<lambda>c. unat s + 32 \<le> unat (hp_size hp c)) fs)"
  proof -
    have "set fs \<subseteq> set mid" using assms by (auto simp: heap_rel_def)
    then show ?thesis using chunk_fits_iff [OF assms] by (induction fs) auto
  qed
  finally show ?thesis .
qed

text \<open>A successful allocation: the chunk found leaves the free list, sliced when it is much too large.\<close>

lemma engage_sel:
  "hp_used (chunk_engage c hp) = (hp_used hp)(c := True)" "hp_size (chunk_engage c hp) = hp_size hp"
  "hp_mem_free (chunk_engage c hp) = hp_mem_free hp - hp_size hp c"
  "hp_first (chunk_engage c hp) = hp_first hp" "hp_last (chunk_engage c hp) = hp_last hp"
  by (simp_all add: chunk_engage_def Let_def)

lemma live_engage:
  assumes "heap_rel hp mid fs" "c \<in> set fs"
  shows "live (chunk_engage c hp) mid = insert (c + 32, unat (hp_size hp c) - 32) (live hp mid)"
proof -
  have "c \<in> set mid" using assms by (auto simp: heap_rel_def)
  then have "{e \<in> set mid. hp_used (chunk_engage c hp) e} = insert c {e \<in> set mid. hp_used hp e}"
    by (auto simp: engage_sel)
  then show ?thesis by (simp only: live_def engage_sel(2) image_insert)
qed

lemma live_slice:
  assumes "heap_rel hp (as @ c # bs) fs" "c \<in> set fs" "b = c + 32 + s" "unat s + 64 \<le> unat (hp_size hp c)"
  shows "live (chunk_slice c s hp) (as @ c # b # bs) = live hp (as @ c # bs)"
proof -
  note sz = chunk_slice_sizes [OF assms(1,3,4)] and sel = chunk_slice_sel [OF assms(3), of hp]
  have "\<not> hp_used hp c" using assms(1,2) by (auto simp: heap_rel_def)
  moreover have "b \<notin> set (as @ c # bs)"
    using spaced_distinct [OF chunk_slice_fresh [OF assms(1) sz(1) assms(4)]] by auto
  ultimately show ?thesis unfolding live_def using sz(4)
    by (intro image_cong) (auto simp: sel)
qed

lemma malloc_found:
  assumes r: "heap_rel hp mid fs" and c: "c \<in> set fs" and fit: "unat s + 32 \<le> unat (hp_size hp c)"
    and al: "16 dvd unat s"
  defines "hp' \<equiv> (if chunk_calc_actual_free hp c - s < OS_HEAP_BLOCK_SIZE then chunk_engage c hp
    else chunk_engage c (chunk_slice c s hp))"
  shows "\<exists>mid' fs' n. heap_rel hp' mid' fs' \<and> unat s \<le> n \<and> live hp' mid' = insert (c + 32, n) (live hp mid)"
proof -
  have "c \<in> set mid" using r c by (auto simp: heap_rel_def)
  then obtain as bs where mid: "mid = as @ c # bs" by (auto simp: in_set_conv_decomp)
  obtain xs ys where fs: "fs = xs @ c # ys" using c by (auto simp: in_set_conv_decomp)
  show ?thesis
  proof (cases "chunk_calc_actual_free hp c - s < OS_HEAP_BLOCK_SIZE")
    case True
    then have "heap_rel hp' mid (xs @ ys)" using chunk_engage_rel r fs by (simp add: hp'_def)
    moreover have "live hp' mid = insert (c + 32, unat (hp_size hp c) - 32) (live hp mid)"
      using True live_engage [OF r c] by (simp add: hp'_def)
    moreover have "unat s \<le> unat (hp_size hp c) - 32" using fit by simp
    ultimately show ?thesis by blast
  next
    case False
    let ?hp = "chunk_slice c s hp" and ?b = "c + 32 + s"
    have f: "unat (hp_size hp c - 32) = unat (hp_size hp c) - 32" using fit by (subst unat_sub_nowrap) auto
    then have "unat (hp_size hp c - 32 - s) = unat (hp_size hp c) - 32 - unat s"
      using fit by (subst unat_sub_nowrap) auto
    then have room: "unat s + 64 \<le> unat (hp_size hp c)"
      using False by (simp add: chunk_calc_actual_free_def OS_HEAP_BLOCK_SIZE_def word_less_nat_alt)
    have r1: "heap_rel ?hp (as @ c # ?b # bs) (xs @ c # ?b # ys)"
      by (rule chunk_slice_rel [OF r [unfolded mid fs] refl room al])
    note sz = chunk_slice_sizes [OF r [unfolded mid] refl room]
    have "heap_rel hp' (as @ c # ?b # bs) (xs @ ?b # ys)"
      using chunk_engage_rel [OF r1] False by (simp add: hp'_def)
    moreover have "live hp' (as @ c # ?b # bs) = insert (c + 32, unat s) (live hp mid)"
      using live_engage [OF r1, of c] False live_slice [OF r [unfolded mid] c refl room] sz(3)
      by (simp add: hp'_def mid chunk_slice_sel(3) [OF refl sz(4)])
    ultimately show ?thesis by blast
  qed
qed

lemma find_SomeD: "List.find P xs = Some x \<Longrightarrow> x \<in> set xs \<and> P x"
  by (induction xs) (auto split: if_splits)

lemma malloc_cases:
  assumes r: "heap_rel hp mid fs" and al: "16 dvd unat s"
  obtains "k_heapdl_mm_malloc s hp = Some (hp, 0)"
  | hp' mid' fs' c n where "k_heapdl_mm_malloc s hp = Some (hp', c + 32)" "c \<in> set mid" "\<not> hp_used hp c"
    "heap_rel hp' mid' fs'" "unat s \<le> n" "live hp' mid' = insert (c + 32, n) (live hp mid)"
proof -
  let ?head = "free_of (hp_first hp)" and ?nxt = "\<lambda>p. dl_next (hp_links hp p)"
  let ?f = "List.find (\<lambda>c. unat s + 32 \<le> unat (hp_size hp c)) fs"
  have hd: "hp_free_chunk_head hp = hp_first hp" using r by (simp add: heap_rel_def)
  note walk = malloc_walk [OF r, of s]
  show thesis
  proof (cases "s > hp_mem_free hp \<or> hp_mem_free hp = 0 \<or> ?nxt ?head = ?head")
    case True
    then show thesis using that(1) by (simp add: k_heapdl_mm_malloc_def Let_def hd)
  next
    case False
    note nf = False
    show thesis
    proof (cases ?f)
      case None
      then show thesis using that(1) nf walk by (simp add: k_heapdl_mm_malloc_def Let_def hd)
    next
      case (Some c)
      let ?hp = "if chunk_calc_actual_free hp c - s < OS_HEAP_BLOCK_SIZE then chunk_engage c hp
        else chunk_engage c (chunk_slice c s hp)"
      have c: "c \<in> set fs" "unat s + 32 \<le> unat (hp_size hp c)" using find_SomeD [OF Some] by auto
      then have "c \<in> set mid" "\<not> hp_used hp c" using r by (auto simp: heap_rel_def)
      moreover have "k_heapdl_mm_malloc s hp = Some (?hp, c + 32)"
        using nf walk Some by (simp add: k_heapdl_mm_malloc_def Let_def hd chunk_calc_free_offset_def)
      ultimately show thesis using that(2) malloc_found [OF r c al] by blast
    qed
  qed
qed

section \<open>Initialisation\<close>

lemma heap_init_sel:
  fixes a z :: u32 and hp :: heapdl
  assumes "a = align_address_to_upper mem_start 4096" "z = align_address_to_lower mem_end 4096 - 32"
    and "a + 32 \<noteq> z" "a \<noteq> z"
  defines "hp' \<equiv> k_heapdl_mm_init mem_start mem_end hp"
  shows "hp_links hp' = insert_after_st (free_of a) (free_of (a + 32))
      (insert_after_st (a + 32) z (insert_after_st a (a + 32)
        (dlist_init (free_of z) (dlist_init z (dlist_init (free_of (a + 32)) (dlist_init (a + 32)
          (dlist_init (free_of a) (dlist_init a (hp_links hp)))))))))"
    "hp_used hp' = (hp_used hp)(a + 32 := False, a := True, z := True)"
    "hp_size hp' = (hp_size hp)(a := 32, z := 32, a + 32 := z - (a + 32))"
    "hp_first hp' = a" "hp_last hp' = z" "hp_free_chunk_head hp' = a"
    "hp_mem_free hp' = z - (a + 32) - 32" "hp_mem_all hp' = z - (a + 32) - 32"
  using assms(1-4)
  by (simp_all add: hp'_def k_heapdl_mm_init_def Let_def sizeof_CHUNK_def OS_HEAP_BLOCK_SIZE_def all_of_def
      fun_eq_iff)

lemma heap_init_lists:
  assumes sp: "spaced [a, b, z]"
  shows "dl.lists (insert_after_st (free_of a) (free_of b) (insert_after_st b z (insert_after_st a b
        (dlist_init (free_of z) (dlist_init z (dlist_init (free_of b) (dlist_init b
          (dlist_init (free_of a) (dlist_init a h)))))))))
      [a, b, z] [free_of a, free_of b] {}"
proof -
  have di: "a \<noteq> b" "b \<noteq> z" "a \<noteq> z" using spaced_distinct [OF sp] by auto
  have ne: "free_of e \<noteq> f" if "e \<in> set [a, b, z]" "f \<in> set [a, b, z]" for e f
    using spaced_free_of [OF sp that] .
  then have n: "free_of a \<noteq> a" "free_of a \<noteq> b" "free_of a \<noteq> z" "free_of b \<noteq> a" "free_of b \<noteq> b"
    "free_of b \<noteq> z" "free_of z \<noteq> a" "free_of z \<noteq> b" "free_of z \<noteq> z"
    by simp_all
  let ?h0 = "dlist_init (free_of a) (dlist_init a h)"
  have "dl_ring ?h0 [a]" using n(1) dlist_init_ring [of a h] dlist_init_frame [of a "free_of a"]
    by (simp add: dl_ring_single)
  then have l0: "dl.lists ?h0 [a] [free_of a] {}"
    using dlist_init_ring [of "free_of a" "dlist_init a h"] n(1) by (simp add: dl.lists_def)
  note l1 = lists_init [OF l0, of b]
  note l2 = lists_init [OF l1, of "free_of b"]
  note l3 = lists_init [OF l2, of z]
  note l4 = lists_init [OF l3, of "free_of z"]
  let ?h4 = "dlist_init (free_of z) (dlist_init z (dlist_init (free_of b) (dlist_init b ?h0)))"
  have l4': "dl.lists ?h4 ([] @ a # []) [free_of a] (insert b {z, free_of b})"
    by (rule dl.lists_weaken) (use l4 n di in auto)
  have "dl.lists (insert_after_st a b ?h4) ([a] @ b # []) [free_of a] (insert z {free_of b})"
    using dl.lists_ins_after [OF l4'] n di by simp
  from dl.lists_ins_after [OF this]
  have "dl.lists (insert_after_st b z (insert_after_st a b ?h4)) [a, b, z] ([] @ free_of a # []) (insert (free_of b) {})"
    using n by simp
  from dl.lists_sym [OF dl.lists_ins_after [OF dl.lists_sym [OF this]]] show ?thesis by simp
qed

lemma k_heapdl_mm_init_rel:
  fixes mem_start mem_end :: u32 and hp :: heapdl
  assumes a: "a = align_address_to_upper mem_start 4096" and z: "z = align_address_to_lower mem_end 4096 - 32"
    and len: "unat a + 96 \<le> unat (align_address_to_lower mem_end 4096)" and al: "4096 dvd unat a"
  shows "heap_rel (k_heapdl_mm_init mem_start mem_end hp) [a + 32] [a + 32]"
    and "live (k_heapdl_mm_init mem_start mem_end hp) [a + 32] = {}"
proof -
  let ?hp = "k_heapdl_mm_init mem_start mem_end hp" and ?e = "align_address_to_lower mem_end 4096"
  have b: "unat (a + 32) = unat a + 32"
    using len unsigned_less [of ?e, where ?'a = nat] by (subst unat_add_nowrap) auto
  have uz: "unat z = unat ?e - 32" unfolding z using len by (subst unat_sub_nowrap) auto
  have sp: "spaced [a, a + 32, z]"
    using b uz len unsigned_less [of ?e, where ?'a = nat] by (auto simp: spaced_def)
  have ne: "a + 32 \<noteq> z" "a \<noteq> z" using spaced_distinct [OF sp] by auto
  note sel = heap_init_sel [OF a z ne, of hp]
  have sz: "unat (z - (a + 32)) = unat z - (unat a + 32)" using b uz len by (subst unat_sub_nowrap) auto
  have "4096 dvd unat ?e" by (simp add: align_lower_unat)
  then have "16 dvd unat ?e" "16 dvd unat a" using al by (auto intro: dvd_trans [of 16 4096])
  moreover from this have "16 dvd unat z" using uz len by (simp add: dvd_diff_nat)
  ultimately have al': "16 dvd unat a" "16 dvd unat z" "16 dvd unat (a + 32)" using b by auto
  show "heap_rel ?hp [a + 32] [a + 32]"
  proof (rule heap_relI)
    show "dl.lists (hp_links ?hp) (hp_first ?hp # [a + 32] @ [hp_last ?hp])
        (map free_of (hp_first ?hp # [a + 32])) {}"
      unfolding sel(1,4,5) using heap_init_lists [OF sp] by simp
  qed (use sel ne b uz len sz al' unsigned_less [of ?e, where ?'a = nat] in auto)
  show "live ?hp [a + 32] = {}" using ne by (simp add: live_def sel)
qed

section \<open>The heap provides the allocator contract\<close>

definition heap_live_rel :: "heapdl \<Rightarrow> (u32 \<times> nat) set \<Rightarrow> bool" where
  "heap_live_rel hp L \<longleftrightarrow> (\<exists>mid fs. heap_rel hp mid fs \<and> L = live hp mid)"

lemma live_chunk:
  assumes "heap_rel hp mid fs" "c \<in> set mid"
  shows "unat (c + 32) = unat c + 32" "unat c + unat (hp_size hp c) \<le> 2 ^ 32" "32 \<le> unat (hp_size hp c)"
proof -
  obtain as bs where mid: "mid = as @ c # bs" using assms(2) by (auto simp: in_set_conv_decomp)
  note ch = heap_rel_chunk [OF assms(1) [unfolded mid] refl]
  show "unat c + unat (hp_size hp c) \<le> 2 ^ 32" "32 \<le> unat (hp_size hp c)" using ch by auto
  then show "unat (c + 32) = unat c + 32" using ch by (subst unat_add_nowrap) auto
qed

lemma tiles_end: "tiles sz (c # cs) \<Longrightarrow> d \<in> set cs \<Longrightarrow> unat c + unat (sz c) \<le> unat d"
  using tiles_less by (cases cs) fastforce+

lemma chunks_apart:
  assumes r: "heap_rel hp mid fs" and "c \<in> set mid" "d \<in> set mid" "c \<noteq> d"
  shows "unat c + unat (hp_size hp c) \<le> unat d \<or> unat d + unat (hp_size hp d) \<le> unat c"
proof -
  have t: "tiles (hp_size hp) (mid @ [hp_last hp])" using r by (simp add: heap_rel_def)
  have "unat x + unat (hp_size hp x) \<le> unat y" if "mid = as @ x # bs" "y \<in> set bs" for as bs x y
    using t that tiles_append [of _ as x "bs @ [hp_last hp]"] tiles_end [of _ x "bs @ [hp_last hp]" y] by simp
  moreover obtain as bs where mid: "mid = as @ c # bs" using assms(2) by (auto simp: in_set_conv_decomp)
  moreover have "d \<in> set bs \<or> (\<exists>as' bs'. mid = as' @ d # bs' \<and> c \<in> set bs')"
  proof (cases "d \<in> set bs")
    case False
    then have "d \<in> set as" using assms(3,4) mid by auto
    then obtain as1 as2 where "as = as1 @ d # as2" by (auto simp: in_set_conv_decomp)
    then have "mid = as1 @ d # (as2 @ c # bs)" using mid by simp
    then show ?thesis by (metis in_set_conv_decomp)
  qed simp
  ultimately show ?thesis by metis
qed

interpretation hdl: allocator heap_live_rel k_heapdl_mm_malloc k_heapdl_mm_free "\<lambda>s. 16 dvd unat s"
proof (unfold_locales, goal_cases)
  case (1 h L p n)
  then show ?case using live_chunk by (fastforce simp: heap_live_rel_def live_def)
next
  case (2 h L b b')
  then obtain mid fs c d where r: "heap_rel h mid fs" and cd: "c \<in> set mid" "d \<in> set mid" "c \<noteq> d"
    and b: "b = (c + 32, unat (hp_size h c) - 32)" "b' = (d + 32, unat (hp_size h d) - 32)"
    unfolding heap_live_rel_def live_def by auto
  show ?case
    using chunks_apart [OF r cd] live_chunk [OF r cd(1)] live_chunk [OF r cd(2)] cd(3) b
    by (auto simp: apart_def)
next
  case (3 h L s)
  then obtain mid fs where r: "heap_rel h mid fs" by (auto simp: heap_live_rel_def)
  show ?case by (rule malloc_cases [OF r 3(2)]) auto
next
  case (4 h L s h')
  then obtain mid fs where r: "heap_rel h mid fs" by (auto simp: heap_live_rel_def)
  show ?case
  proof (rule malloc_cases [OF r 4(2)])
    fix hp' mid' fs' c n
    assume m: "k_heapdl_mm_malloc s h = Some (hp', c + 32)" "c \<in> set mid"
    then have "c + 32 = 0" using 4(3) by simp
    then have "unat (c + 32) = 0" by simp
    then show "h' = h" using live_chunk(1) [OF r m(2)] by linarith
  qed (use 4 in simp)
next
  case (5 h L s h' p)
  then obtain mid fs where r: "heap_rel h mid fs" and L: "L = live h mid" by (auto simp: heap_live_rel_def)
  show ?case
  proof (rule malloc_cases [OF r 5(2)])
    fix hp' mid' fs' c n
    assume m: "k_heapdl_mm_malloc s h = Some (hp', c + 32)" "c \<in> set mid" "\<not> hp_used h c"
      "heap_rel hp' mid' fs'" "unat s \<le> n" "live hp' mid' = insert (c + 32, n) (live h mid)"
    then have "h' = hp'" "p = c + 32" using 5(3) by auto
    moreover have "\<forall>k. (c + 32, k) \<notin> live h mid" using m(3) by (auto simp: live_def)
    moreover have "heap_live_rel hp' (insert (c + 32, n) L)"
      unfolding heap_live_rel_def L m(6) [symmetric] using m(4) by blast
    ultimately show ?thesis using m(5) L by blast
  qed (use 5 in simp)
next
  case (6 h L p n)
  then obtain mid fs c where r: "heap_rel h mid fs" and L: "L = live h mid"
    and c: "c \<in> set mid" "hp_used h c" "p = c + 32" "n = unat (hp_size h c) - 32"
    by (auto simp: heap_live_rel_def live_def)
  have "p \<noteq> 0" using live_chunk(1) [OF r c(1)] c(3) by auto
  then have "k_heapdl_mm_free p h = chunk_free c h"
    using c by (simp add: k_heapdl_mm_free_def Let_def chunk_calc_chunk_by_ptr_def)
  then show ?case using chunk_free_rel [OF r c(1,2)] c L by (auto simp: heap_live_rel_def)
next
  case (7 h)
  show ?case by (simp add: k_heapdl_mm_free_def)
qed

lemma heap_init_ok:
  fixes hp :: heapdl
  assumes "unat mem_start + 8191 \<le> unat mem_end"
  defines "hp' \<equiv> k_heapdl_mm_init mem_start mem_end hp"
  shows "heap_live_rel hp' {}"
    and "hp_mem_free hp' = hp_last hp' - hp_first hp' - 64" "hp_mem_all hp' = hp_mem_free hp'"
    and "hp_first hp' = align_address_to_upper mem_start 4096"
    and "hp_last hp' = align_address_to_lower mem_end 4096 - 32"
proof -
  let ?a = "align_address_to_upper mem_start 4096" and ?e = "align_address_to_lower mem_end 4096"
  have "unat mem_start + 4095 < 2 ^ 32" using assms(1) unsigned_less [of mem_end, where ?'a = nat] by simp
  moreover have "(unat mem_start + 4095) div 4096 * 4096 \<le> unat mem_start + 4095" by simp
  ultimately have a: "unat ?a = (unat mem_start + 4095) div 4096 * 4096"
    using align_upper_unat [of 4096 mem_start] by simp
  have e: "unat ?e = unat mem_end div 4096 * 4096" by (simp add: align_lower_unat)
  have "(unat mem_start + 4095) div 4096 + 1 \<le> unat mem_end div 4096"
    using div_le_mono [OF assms(1), of 4096] by simp
  then have "((unat mem_start + 4095) div 4096 + 1) * 4096 \<le> unat mem_end div 4096 * 4096"
    by (rule mult_le_mono1)
  then have len: "unat ?a + 4096 \<le> unat ?e" unfolding a e by simp
  then have len': "unat ?a + 96 \<le> unat ?e" by simp
  have al: "4096 dvd unat ?a" by (simp add: a)
  show "heap_live_rel hp' {}"
    using k_heapdl_mm_init_rel [OF refl refl len' al, of hp] unfolding heap_live_rel_def hp'_def by metis
  have "unat (?e - 32) = unat ?e - 32" using len by (subst unat_sub_nowrap) auto
  moreover have "unat (?a + 32) = unat ?a + 32"
    using len unsigned_less [of ?e, where ?'a = nat] by (subst unat_add_nowrap) auto
  ultimately have "unat (?a + 32) \<noteq> unat (?e - 32)" "unat ?a \<noteq> unat (?e - 32)" using len by simp_all
  then have "?a + 32 \<noteq> ?e - 32" "?a \<noteq> ?e - 32" by metis+
  note sel = heap_init_sel [OF refl refl this, of hp, folded hp'_def]
  show "hp_mem_free hp' = hp_last hp' - hp_first hp' - 64" "hp_mem_all hp' = hp_mem_free hp'"
    "hp_first hp' = ?a" "hp_last hp' = ?e - 32"
    by (simp_all add: sel)
qed

lemma live_range:
  assumes r: "heap_rel hp mid fs" and b: "(p, n) \<in> live hp mid"
  shows "16 dvd unat p" "unat (hp_first hp) + 64 \<le> unat p" "unat p + n \<le> unat (hp_last hp)"
proof -
  obtain c where c: "c \<in> set mid" "p = c + 32" "n = unat (hp_size hp c) - 32"
    using b by (auto simp: live_def)
  note ch = live_chunk [OF r c(1)]
  show "16 dvd unat p" using r c ch(1) by (auto simp: heap_rel_def)
  show "unat (hp_first hp) + 64 \<le> unat p"
    using heap_rel_spaced [OF r] c ch(1) by (auto simp: spaced_def)
  obtain as bs where "mid = as @ c # bs" using c(1) by (auto simp: in_set_conv_decomp)
  then have "tiles (hp_size hp) (c # bs @ [hp_last hp])"
    using r tiles_append [of _ as c "bs @ [hp_last hp]"] by (simp add: heap_rel_def)
  then show "unat p + n \<le> unat (hp_last hp)"
    using tiles_end [of "hp_size hp" c "bs @ [hp_last hp]" "hp_last hp"] c ch by simp
qed

lemma malloc_guards:
  assumes "k_heapdl_mm_malloc s hp = Some (hp', p)"
  shows "hp_first hp' = hp_first hp" "hp_last hp' = hp_last hp"
proof -
  have "hp_first (chunk_slice c s hp) = hp_first hp" "hp_last (chunk_slice c s hp) = hp_last hp" for c
    by (simp_all add: chunk_slice_def Let_def)
  then show "hp_first hp' = hp_first hp" "hp_last hp' = hp_last hp"
    using assms
    by (auto simp: k_heapdl_mm_malloc_def Let_def engage_sel bind_eq_Some_conv2
        split: if_splits option.splits)
qed

section \<open>Properties\<close>

text \<open>
  C1: On a well-formed heap, \<^verbatim>\<open>k_heapdl_mm_malloc\<close> of an aligned size always returns. Either it
  returns the null pointer and changes nothing, or it returns the address of a new block of at
  least the requested size that is aligned, lies inside the heap and shares no byte with a block
  in use, and the heap is well-formed again with exactly this block added.
\<close>

theorem k_heapdl_mm_malloc_correct:
  assumes "heap_live_rel hp L" "16 dvd unat s"
  shows "\<exists>hp' p. k_heapdl_mm_malloc s hp = Some (hp', p) \<and>
    (if p = 0 then hp' = hp
     else \<exists>n. unat s \<le> n \<and> heap_live_rel hp' (insert (p, n) L) \<and> 16 dvd unat p \<and>
       unat (hp_first hp) + 64 \<le> unat p \<and> unat p + n \<le> unat (hp_last hp) \<and>
       (\<forall>b\<in>L. fst b \<noteq> p \<and> apart b (p, n)))"
proof -
  obtain mid fs where r: "heap_rel hp mid fs" and L: "L = live hp mid"
    using assms(1) by (auto simp: heap_live_rel_def)
  obtain hp' p where m: "k_heapdl_mm_malloc s hp = Some (hp', p)"
    using hdl.alloc_total [OF assms] by blast
  show ?thesis
  proof (cases "p = 0")
    case True
    then show ?thesis using m hdl.alloc_null [OF assms] by auto
  next
    case False
    obtain n where n: "unat s \<le> n" "\<forall>k. (p, k) \<notin> L" "heap_live_rel hp' (insert (p, n) L)"
      using hdl.alloc_block [OF assms m False] by blast
    have "b \<noteq> (p, n)" if "b \<in> L" for b using n(2) that by auto
    then have ap: "\<forall>b\<in>L. fst b \<noteq> p \<and> apart b (p, n)"
      using hdl.block_apart [OF n(3)] by fastforce
    obtain mid' fs' where r': "heap_rel hp' mid' fs'" "(p, n) \<in> live hp' mid'"
      using n(3) by (auto simp: heap_live_rel_def)
    show ?thesis using m False n(1,3) ap live_range [OF r'] malloc_guards [OF m] by auto
  qed
qed

text \<open>A small heap of four pages, used to instantiate the properties.\<close>

definition heap4 :: heapdl where
  "heap4 = k_heapdl_mm_init 0x1000 0x5000
     \<lparr>hp_links = (\<lambda>_. \<lparr>dl_next = 0, dl_prev = 0\<rparr>), hp_used = (\<lambda>_. False), hp_size = (\<lambda>_. 0),
      hp_first = 0, hp_last = 0, hp_free_chunk_head = 0, hp_mem_all = 0, hp_mem_free = 0\<rparr>"

lemma heap4_ok: "heap_live_rel heap4 {}"
  unfolding heap4_def by (rule heap_init_ok(1)) simp

theorem k_heapdl_mm_malloc_correct_witness:
  "\<exists>hp' p. k_heapdl_mm_malloc 0x1000 heap4 = Some (hp', p) \<and>
    (if p = 0 then hp' = heap4 else \<exists>n. (0x1000 :: nat) \<le> n \<and> heap_live_rel hp' (insert (p, n) {}))"
  using k_heapdl_mm_malloc_correct [OF heap4_ok, of "0x1000"] by fastforce

text \<open>
  C2: \<^verbatim>\<open>k_heapdl_mm_free\<close> of a block in use removes exactly this block and leaves a well-formed
  heap; of the null pointer it does nothing; and freeing the same pointer again does nothing.
\<close>

theorem k_heapdl_mm_free_correct:
  assumes "heap_live_rel hp L" "(p, n) \<in> L"
  shows "heap_live_rel (k_heapdl_mm_free p hp) (L - {(p, n)}) \<and> k_heapdl_mm_free 0 hp = hp \<and>
    k_heapdl_mm_free p (k_heapdl_mm_free p hp) = k_heapdl_mm_free p hp"
proof -
  have "\<not> hp_used (chunk_free c hp) c" for c
    by (simp add: chunk_free_def Let_def chunk_merge_sel)
  then show ?thesis using hdl.dealloc_block [OF assms] by (simp add: k_heapdl_mm_free_def Let_def)
qed

lemma heap4_rel: "heap_rel heap4 [0x1020] [0x1020]" and heap4_size: "hp_size heap4 0x1020 = 0x3fc0"
  and heap4_first: "hp_first heap4 = 0x1000" and heap4_last: "hp_last heap4 = 0x4fe0" and heap4_free: "hp_mem_free heap4 = 0x3fa0"
proof -
  have a: "(0x1000 :: u32) = align_address_to_upper 0x1000 4096"
    "(0x4fe0 :: u32) = align_address_to_lower 0x5000 4096 - 32"
    by (simp_all add: align_address_to_upper_def align_address_to_lower_def)
  show "heap_rel heap4 [0x1020] [0x1020]"
    using k_heapdl_mm_init_rel(1) [OF a] by (simp add: heap4_def align_address_to_lower_def)
  show "hp_size heap4 0x1020 = 0x3fc0" "hp_first heap4 = 0x1000" "hp_last heap4 = 0x4fe0" "hp_mem_free heap4 = 0x3fa0"
    using heap_init_sel(3,4,5,7) [OF a] by (simp_all add: heap4_def)
qed

lemma heap4_malloc:
  assumes "s \<le> 0x3fa0"
  shows "k_heapdl_mm_malloc s heap4 =
    Some (if 0x3fa0 - s < 0x1000 then chunk_engage 0x1020 heap4
          else chunk_engage 0x1020 (chunk_slice 0x1020 s heap4), 0x1040)"
proof -
  have s: "unat s \<le> 0x3fa0" using assms by (simp add: word_le_nat_alt)
  have hd: "hp_free_chunk_head heap4 = 0x1000"
    using heap4_rel by (simp add: heap_rel_def heap4_first)
  have "dl_ring (hp_links heap4) [free_of 0x1000, free_of 0x1020]"
    using heap4_rel by (simp add: heap_rel_def heap4_first dl.lists_def)
  then have "dl_next (hp_links heap4 (free_of 0x1000)) = free_of 0x1020"
    by (rule dl_ring_next)
  then show ?thesis
    using malloc_walk [OF heap4_rel, of s] assms s
    by (simp add: k_heapdl_mm_malloc_def Let_def hd heap4_free heap4_first heap4_size
        chunk_calc_free_offset_def chunk_calc_actual_free_def OS_HEAP_BLOCK_SIZE_def linorder_not_less)
qed

theorem k_heapdl_mm_free_correct_witness:
  "\<exists>hp p n. heap_live_rel hp {(p, n)} \<and> heap_live_rel (k_heapdl_mm_free p hp) {}"
proof -
  obtain hp' where m: "k_heapdl_mm_malloc 0x1000 heap4 = Some (hp', 0x1040)"
    using heap4_malloc [of "0x1000"] by simp
  obtain n where "heap_live_rel hp' {(0x1040, n)}" using hdl.alloc_block [OF heap4_ok _ m] by auto
  with k_heapdl_mm_free_correct [OF this, of "0x1040" n] show ?thesis by auto
qed

text \<open>
  Initialising the heap on a region of at least two pages gives a well-formed heap without
  blocks in use, whose free memory is the region between the guard chunks less one header and
  whose usage is 0. From there, any sequence of allocations (of aligned sizes) and releases
  returns, and at every time the blocks handed out are not null and pairwise disjoint.
\<close>

theorem heapdl_trace_disjoint:
  assumes "unat mem_start + 8191 \<le> unat mem_end" "list_all (op_sizes_ok (\<lambda>s. 16 dvd unat s)) xs"
  shows "k_heapdl_mm_get_usage (k_heapdl_mm_init mem_start mem_end hp) = 0 \<and>
    (\<exists>hp' ps. run_ops k_heapdl_mm_malloc k_heapdl_mm_free xs (k_heapdl_mm_init mem_start mem_end hp, []) =
       Some (hp', ps) \<and> blocks_ok ps)"
  using hdl.run_ops_blocks [OF heap_init_ok(1) [OF assms(1)] assms(2)] heap_init_ok(3) [OF assms(1)]
  by (simp add: k_heapdl_mm_get_usage_def)

theorem heapdl_trace_disjoint_witness:
  "\<exists>hp' ps. run_ops k_heapdl_mm_malloc k_heapdl_mm_free [Alloc 64, Alloc 4096, Release 0, Alloc 32]
     (k_heapdl_mm_init 0x1000 0x9000 heap4, []) = Some (hp', ps) \<and> blocks_ok ps"
  using heapdl_trace_disjoint [of "0x1000" "0x9000" "[Alloc 64, Alloc 4096, Release 0, Alloc 32]" heap4] by simp

text \<open>
  The two debug counters always return, and give the number of free chunks and of all chunks,
  the two guards included.
\<close>

theorem debug_counts_correct:
  assumes "heap_rel hp mid fs" "length mid < 2147483646"
  shows "debug_get_chunksfree hp = Some (int (length fs)) \<and>
    debug_get_chunks hp = Some (int (length mid) + 2)"
proof -
  have r: "dl_ring (hp_links hp) (free_of (hp_first hp) # [] @ map free_of fs)"
    "dl_ring (hp_links hp) (hp_first hp # [] @ (mid @ [hp_last hp]))"
    and hd: "hp_free_chunk_head hp = hp_first hp" and sub: "set fs \<subseteq> set mid"
    using assms(1) by (auto simp: heap_rel_def dl.lists_def)
  have "length fs \<le> length mid"
    using card_mono [OF _ sub] distinct_card [OF heap_rel_fs_distinct [OF assms(1)]]
      distinct_card [OF heap_rel_guards(4) [OF assms(1)]] by simp
  then have "debug_get_chunksfree hp = Some (int (length fs))"
    using dl.ring_count [OF r(1), of 0] dl.ring_nxt [of "hp_links hp" "free_of (hp_first hp)" "map free_of fs"] r assms(2)
    by (simp add: debug_get_chunksfree_def Let_def hd)
  moreover have "debug_get_chunks hp = Some (int (length mid) + 2)"
    using dl.ring_count [OF r(2), of 0] dl.ring_nxt [of "hp_links hp" "hp_first hp" "mid @ [hp_last hp]"] r assms(2)
    by (simp add: debug_get_chunks_def Let_def hd all_of_def i32_eq)
  ultimately show ?thesis by simp
qed

theorem debug_counts_correct_witness:
  "debug_get_chunksfree heap4 = Some 1 \<and> debug_get_chunks heap4 = Some 3"
  using debug_counts_correct [OF heap4_rel] by simp

section \<open>The free memory counter\<close>

text \<open>The bytes the free chunks can hold, which \<^verbatim>\<open>mem_free\<close> is meant to be.\<close>

definition free_bytes :: "heapdl \<Rightarrow> u32 list \<Rightarrow> u32" where
  "free_bytes hp fs = (\<Sum>c\<leftarrow>fs. hp_size hp c - 32)"

text \<open>
  The counter \<^verbatim>\<open>mem_free\<close> stays exact when a chunk is sliced before it is handed out, but
  \<^verbatim>\<open>chunk_engage\<close> subtracts the header too, so every allocation that takes a whole chunk
  leaves the counter 32 bytes too low.
\<close>

theorem mem_free_accounting:
  assumes r: "heap_rel hp (as @ c # bs) (xs @ c # ys)" and exact: "hp_mem_free hp = free_bytes hp (xs @ c # ys)"
    and room: "unat s + 64 \<le> unat (hp_size hp c)"
  shows "hp_mem_free (chunk_engage c hp) = free_bytes (chunk_engage c hp) (xs @ ys) - 32 \<and>
    hp_mem_free (chunk_engage c (chunk_slice c s hp)) =
      free_bytes (chunk_engage c (chunk_slice c s hp)) (xs @ (c + 32 + s) # ys)"
proof -
  note sz = chunk_slice_sizes [OF r refl room] and sel = chunk_slice_sel [OF refl, of c s hp]
  have fresh: "c + 32 + s \<notin> set (as @ c # bs)"
    using spaced_distinct [OF chunk_slice_fresh [OF r sz(1) room]] by auto
  have sub: "set (xs @ c # ys) \<subseteq> set (as @ c # bs)" using r unfolding heap_rel_def by blast
  have "c \<notin> set xs" "c \<notin> set ys" using heap_rel_fs_distinct [OF r] by auto
  moreover have "c + 32 + s \<notin> set xs" "c + 32 + s \<notin> set ys" using fresh sub by auto
  ultimately have m: "map (\<lambda>e. hp_size (chunk_slice c s hp) e - 32) xs = map (\<lambda>e. hp_size hp e - 32) xs"
    "map (\<lambda>e. hp_size (chunk_slice c s hp) e - 32) ys = map (\<lambda>e. hp_size hp e - 32) ys"
    by (auto simp: sel(3) [OF sz(4)])
  have "hp_size (chunk_slice c s hp) c = 32 + s"
    "hp_size (chunk_slice c s hp) (c + 32 + s) = hp_size hp c - 32 - s"
    using sz(4) by (simp_all add: sel(3) [OF sz(4)])
  then show ?thesis using exact
    by (simp add: free_bytes_def engage_sel sel(7) [OF sz(4)] m del: map_eq_conv)
qed

theorem mem_free_accounting_witness:
  "hp_mem_free (chunk_engage 0x1020 heap4) = free_bytes (chunk_engage 0x1020 heap4) [] - 32"
  using mem_free_accounting [of heap4 "[]" "0x1020" "[]" "[]" "[]" 0] heap4_rel heap4_size heap4_free
  by (simp add: free_bytes_def)

text \<open>
  The counter can wrap below zero: on the heap of four pages an allocation of all its memory
  leaves \<^verbatim>\<open>mem_free\<close> at \<open>2\<^sup>3\<^sup>2 - 32\<close>.
\<close>

lemma heapdl_free_underflow:
  "\<exists>hp'. k_heapdl_mm_malloc 0x3fa0 heap4 = Some (hp', 0x1040) \<and> k_heapdl_mm_get_free hp' = 0xffffffe0"
  using heap4_malloc [of "0x3fa0"]
  by (simp add: k_heapdl_mm_get_free_def engage_sel heap4_free heap4_size)

end
