(* ===== verification/Memory.thy ===== *)
theory Memory
  imports HeapDL HeapTable
begin

text \<open>
  The memory front end of \<^verbatim>\<open>src/src/memory/memory.c\<close>: \<^verbatim>\<open>kmalloc\<close>, \<^verbatim>\<open>kzalloc\<close> and \<^verbatim>\<open>kfree\<close> over the heap selected by the
  configuration, and the memory test \<^verbatim>\<open>kmemtest\<close>. The processor and the memory chips are not
  part of the sources: the registers and the cells the test uses are a parameter.
\<close>

section \<open>Allocation\<close>

definition OS_HEAP_MM_ALT :: int where "OS_HEAP_MM_ALT = 0"

record mm =
  mm_dl :: heapdl
  mm_tab :: HEAP
  mm_mem :: memory

definition k_mm_init :: "u8 list \<Rightarrow> mm \<Rightarrow> mm option" where
  "k_mm_init table_buf s =
     (if OS_HEAP_MM_ALT = 1
      then map_option (\<lambda>h. s\<lparr>mm_tab := h\<rparr>) (k_heap_table_mm_init (mm_tab s) table_buf)
      else Some (s\<lparr>mm_dl := k_heapdl_mm_init OS_HEAP_ADDRESS (OS_HEAP_ADDRESS + OS_HEAP_SIZE_BYTES) (mm_dl s)\<rparr>))"

definition kmalloc_switch :: "u32 \<Rightarrow> mm \<Rightarrow> (mm \<times> u32) option" where
  "kmalloc_switch sz s =
     (if OS_HEAP_MM_ALT = 1
      then map_option (\<lambda>(h, p). (s\<lparr>mm_tab := h\<rparr>, p)) (k_heap_table_mm_malloc (mm_tab s) sz)
      else map_option (\<lambda>(h, p). (s\<lparr>mm_dl := h\<rparr>, p)) (k_heapdl_mm_malloc sz (mm_dl s)))"

definition kmalloc :: "u32 \<Rightarrow> mm \<Rightarrow> (mm \<times> u32) option" where
  "kmalloc sz s = kmalloc_switch (align_address_to_upper sz OS_HEAP_BLOCK_SIZE) s"

definition kzalloc :: "u32 \<Rightarrow> mm \<Rightarrow> (mm \<times> u32) option" where
  "kzalloc sz s = do {
     (s, ptr) \<leftarrow> kmalloc sz s;
     if ptr = 0 then Some (s, 0)
     else Some (s\<lparr>mm_mem := fst (kmemset (mm_mem s) ptr 0 sz)\<rparr>, ptr)
   }"

definition kfree :: "u32 \<Rightarrow> mm \<Rightarrow> mm" where
  "kfree ptr s = s\<lparr>mm_dl := k_heapdl_mm_free ptr (mm_dl s)\<rparr>"

section \<open>The memory test\<close>

text \<open>What the test uses of the machine: 32-bit memory cells and the registers EFLAGS and CR0.\<close>

record 'h machine =
  rd32 :: "u32 \<Rightarrow> 'h \<Rightarrow> u32"
  wr32 :: "u32 \<Rightarrow> u32 \<Rightarrow> 'h \<Rightarrow> 'h"
  io_get_eflags :: "'h \<Rightarrow> u32"
  io_set_eflags :: "u32 \<Rightarrow> 'h \<Rightarrow> 'h"
  io_get_cr0 :: "'h \<Rightarrow> u32"
  io_set_cr0 :: "u32 \<Rightarrow> 'h \<Rightarrow> 'h"

definition EFLAGS_MASK_AC :: u32 where "EFLAGS_MASK_AC = 0x00040000"
definition CR0_MASK_CD :: u32 where "CR0_MASK_CD = push_bit 30 1"

text \<open>The loop; its result is the state and the address of the early return, or the final value of the counter.\<close>

partial_function (option) kmemtest_loop ::
  "'h machine \<Rightarrow> u32 \<Rightarrow> u32 \<Rightarrow> 'h \<Rightarrow> ('h \<times> u32) option" where
  "kmemtest_loop M addr_current mem_end h =
     (if \<not> addr_current < mem_end then Some (h, addr_current - 0x1000)
      else
        (let p = addr_current;
             original_data = rd32 M p h;
             h = wr32 M p 0xaa55aa55 h;
             h = wr32 M p (NOT (rd32 M p h)) h
         in if rd32 M p h \<noteq> 0x55aa55aa then Some (wr32 M p original_data h, addr_current)
            else let h = wr32 M p (NOT (rd32 M p h)) h
            in if rd32 M p h \<noteq> 0xaa55aa55 then Some (wr32 M p original_data h, addr_current)
               else kmemtest_loop M (addr_current + 0x1000) mem_end (wr32 M p original_data h)))"

definition kmemtest_subtest :: "'h machine \<Rightarrow> u32 \<Rightarrow> u32 \<Rightarrow> 'h \<Rightarrow> ('h \<times> u32) option" where
  "kmemtest_subtest M mem_start mem_end h = kmemtest_loop M mem_start mem_end h"

definition kmemtest :: "'h machine \<Rightarrow> u32 \<Rightarrow> u32 \<Rightarrow> 'h \<Rightarrow> ('h \<times> u32) option" where
  "kmemtest M mem_start mem_end h =
     (let eflagsbk = io_get_eflags M h;
          eflags = eflagsbk OR EFLAGS_MASK_AC;
          h = io_set_eflags M eflags h;
          eflags = io_get_eflags M h;
          is_486_or_above = isMaskBitsAllSet eflags EFLAGS_MASK_AC;
          h = io_set_eflags M eflagsbk h;
          cr0bk = io_get_cr0 M h;
          h = (if is_486_or_above then io_set_cr0 M (cr0bk OR CR0_MASK_CD) h else h)
      in do {
        (h, res) \<leftarrow> kmemtest_subtest M mem_start mem_end h;
        let h = (if is_486_or_above then io_set_cr0 M cr0bk h else h);
        Some (h, res)
      })"

section \<open>kmalloc and kfree provide the allocator contract\<close>

text \<open>Sizes whose alignment to the next page does not wrap around.\<close>

definition kmalloc_ok :: "u32 \<Rightarrow> bool" where
  "kmalloc_ok sz \<longleftrightarrow> sz \<le> 0xfffff000"

lemma kmalloc_aligned:
  assumes "kmalloc_ok sz"
  shows "unat sz \<le> unat (align_address_to_upper sz 4096)" "16 dvd unat (align_address_to_upper sz 4096)"
proof -
  have le: "unat sz \<le> 4294963200" using assms by (simp add: kmalloc_ok_def word_le_nat_alt)
  have "(unat sz + 4095) div 4096 * 4096 \<le> 4294963200"
    using div_le_mono [of "unat sz + 4095" "4294963200 + 4095" 4096] le by simp
  then have u: "unat (align_address_to_upper sz 4096) = (unat sz + 4095) div 4096 * 4096"
    using align_upper_unat [of 4096 sz] by simp
  have "unat sz + 4095 < (unat sz + 4095) div 4096 * 4096 + 4096"
    using div_mult_mod_eq [of "unat sz + 4095" 4096] mod_less_divisor [of 4096 "unat sz + 4095"] by linarith
  then show "unat sz \<le> unat (align_address_to_upper sz 4096)" using u by simp
  have "16 dvd (unat sz + 4095) div 4096 * (4096 :: nat)" by simp
  then show "16 dvd unat (align_address_to_upper sz 4096)" using u by simp
qed

lemma kmalloc_eq:
  "kmalloc sz s = map_option (\<lambda>(h, p). (s\<lparr>mm_dl := h\<rparr>, p))
     (k_heapdl_mm_malloc (align_address_to_upper sz 4096) (mm_dl s))"
  by (simp add: kmalloc_def kmalloc_switch_def OS_HEAP_MM_ALT_def OS_HEAP_BLOCK_SIZE_def)

definition mm_rel :: "mm \<Rightarrow> (u32 \<times> nat) set \<Rightarrow> bool" where
  "mm_rel s L \<longleftrightarrow> heap_live_rel (mm_dl s) L"

interpretation kmm: allocator mm_rel kmalloc kfree kmalloc_ok
proof (unfold_locales, goal_cases)
  case (1 h L p n)
  then show ?case using hdl.block_range by (auto simp: mm_rel_def)
next
  case (2 h L b b')
  then show ?case using hdl.block_apart unfolding mm_rel_def by blast
next
  case (3 h L s)
  then show ?case using hdl.alloc_total kmalloc_aligned(2) by (force simp: mm_rel_def kmalloc_eq)
next
  case (4 h L s h')
  then show ?case using hdl.alloc_null kmalloc_aligned(2) by (force simp: mm_rel_def kmalloc_eq)
next
  case (5 h L s h' p)
  then obtain hp' where m: "k_heapdl_mm_malloc (align_address_to_upper s 4096) (mm_dl h) = Some (hp', p)"
    and h': "h' = h\<lparr>mm_dl := hp'\<rparr>" by (auto simp: kmalloc_eq)
  obtain n where n: "unat (align_address_to_upper s 4096) \<le> n" "\<forall>k. (p, k) \<notin> L" "heap_live_rel hp' (insert (p, n) L)"
    using hdl.alloc_block [OF _ kmalloc_aligned(2) m] 5 by (auto simp: mm_rel_def)
  have "unat s \<le> n" using n(1) kmalloc_aligned(1) [OF 5(2)] by linarith
  then show ?case using n h' by (auto simp: mm_rel_def)
next
  case (6 h L p n)
  then show ?case using hdl.dealloc_block by (simp add: mm_rel_def kfree_def)
next
  case (7 h)
  show ?case by (simp add: kfree_def k_heapdl_mm_free_def)
qed

section \<open>Properties\<close>

lemma k_mm_init_rel: "\<exists>s'. k_mm_init buf s = Some s' \<and> mm_rel s' {}"
  using heap_init_ok(1) [of OS_HEAP_ADDRESS "OS_HEAP_ADDRESS + OS_HEAP_SIZE_BYTES" "mm_dl s"]
  by (simp add: k_mm_init_def OS_HEAP_MM_ALT_def mm_rel_def OS_HEAP_ADDRESS_def OS_HEAP_SIZE_BYTES_def)

text \<open>
  C3: After \<^verbatim>\<open>k_mm_init\<close>, any sequence of \<^verbatim>\<open>kmalloc\<close> (of sizes up to \<open>2\<^sup>3\<^sup>2 - 4096\<close>) and \<^verbatim>\<open>kfree\<close> calls
  returns, and at every time the blocks handed out are not null, at least as large as
  requested, inside the address space and pairwise disjoint.
\<close>

theorem kmalloc_trace_disjoint:
  assumes "list_all (op_sizes_ok kmalloc_ok) xs"
  shows "\<exists>s0 s' ps. k_mm_init buf s = Some s0 \<and> run_ops kmalloc kfree xs (s0, []) = Some (s', ps) \<and> blocks_ok ps"
  using k_mm_init_rel [of buf s] kmm.run_ops_blocks [OF _ assms] by blast

theorem kmalloc_trace_disjoint_witness:
  "\<exists>s0 s' ps. k_mm_init [] \<lparr>mm_dl = heap4, mm_tab = heap_small [], mm_mem = (\<lambda>_. 0)\<rparr> = Some s0 \<and>
    run_ops kmalloc kfree [Alloc 10, Alloc 5000, Release 1, Alloc 1] (s0, []) = Some (s', ps) \<and> blocks_ok ps"
  by (rule kmalloc_trace_disjoint) (simp add: kmalloc_ok_def)



text \<open>
  C38: A size above \<open>2\<^sup>3\<^sup>2 - 4096\<close> is aligned to 0, and \<^verbatim>\<open>kmalloc\<close> then succeeds with a block that is far
  smaller than the request.
\<close>

lemma kmalloc_wraps:
  assumes "0xfffff000 < sz"
  shows "kmalloc sz s = kmalloc 0 s"
proof -
  have gt: "4294963200 < unat sz" using assms by (simp add: word_less_nat_alt)
  have lt: "unat sz < 4294967296" using unsigned_less [of sz, where ?'a = nat] by simp
  define k where "k = unat sz - 4294963200"
  have k: "unat sz = k + 1048575 * 4096" "0 < k" "k < 4096" using gt lt by (auto simp: k_def)
  then have "unat sz mod 4096 = k" by (simp only: mod_mult_self1 mod_less)
  then have r: "unat (sz mod 4096) = k" by (simp add: unat_mod_distrib)
  then have "unat (4096 - sz mod 4096) = 4096 - k" using k by (subst unat_sub_nowrap) auto
  then have "unat (sz + (4096 - sz mod 4096)) = 0" using k by (simp add: unat_word_ariths)
  then have "sz + (4096 - sz mod 4096) = 0" by (simp add: unat_eq_zero)
  moreover have "sz mod 4096 \<noteq> 0" using r k(2) by (metis less_irrefl unat_0)
  ultimately have "align_address_to_upper sz 4096 = align_address_to_upper 0 4096"
    by (simp add: align_address_to_upper_def)
  then show ?thesis by (simp add: kmalloc_eq)
qed

lemma kmalloc_wraps_small_block:
  "\<exists>s' n. kmalloc 0xfffff001 \<lparr>mm_dl = heap4, mm_tab = heap_small [], mm_mem = (\<lambda>_. 0)\<rparr> = Some (s', 0x1040) \<and>
    mm_rel s' {(0x1040, n)} \<and> n < 0x5000"
proof -
  let ?s = "\<lparr>mm_dl = heap4, mm_tab = heap_small [], mm_mem = (\<lambda>_. 0)\<rparr>"
  obtain hp' where hp': "k_heapdl_mm_malloc 0 heap4 = Some (hp', 0x1040)"
    using heap4_malloc [of 0] by simp
  obtain n where n: "heap_live_rel hp' {(0x1040, n)}" using hdl.alloc_block [OF heap4_ok _ hp'] by auto
  obtain mid fs where "heap_rel hp' mid fs" "(0x1040, n) \<in> live hp' mid"
    using n by (auto simp: heap_live_rel_def)
  from live_range(3) [OF this] have "n < 0x5000"
    using malloc_guards(2) [OF hp'] by (simp add: heap4_last)
  then show ?thesis using n hp' kmalloc_wraps [of "0xfffff001" ?s]
    by (auto simp: kmalloc_eq mm_rel_def align_address_to_upper_def)
qed

section \<open>The memory test\<close>

text \<open>A cell that keeps what is written to it, and an address with no memory behind it.\<close>

definition is_ram :: "'h machine \<Rightarrow> u32 \<Rightarrow> bool" where
  "is_ram M a \<longleftrightarrow> (\<forall>h v. rd32 M a (wr32 M a v h) = v)"

definition no_ram :: "'h machine \<Rightarrow> u32 \<Rightarrow> bool" where
  "no_ram M a \<longleftrightarrow> (\<forall>h v. rd32 M a (wr32 M a v h) = 0xffffffff)"

lemma kmemtest_loop_ram:
  assumes "\<And>k. k < n \<Longrightarrow> is_ram M (a + of_nat k * 0x1000)" "\<And>k. k < n \<Longrightarrow> a + of_nat k * 0x1000 < e"
  shows "\<exists>h'. kmemtest_loop M a e h = kmemtest_loop M (a + of_nat n * 0x1000) e h'"
  using assms
proof (induction n arbitrary: a h)
  case (Suc n)
  have ram: "rd32 M a (wr32 M a v h) = v" for v h using Suc.prems(1) [of 0] by (simp add: is_ram_def)
  have "a < e" using Suc.prems(2) [of 0] by simp
  then have "\<exists>h1. kmemtest_loop M a e h = kmemtest_loop M (a + 0x1000) e h1"
    by (subst kmemtest_loop.simps) (auto simp: Let_def ram)
  then obtain h1 where h1: "kmemtest_loop M a e h = kmemtest_loop M (a + 0x1000) e h1" by blast
  have "\<exists>h'. kmemtest_loop M (a + 0x1000) e h1 = kmemtest_loop M (a + 0x1000 + of_nat n * 0x1000) e h'"
    by (rule Suc.IH) (use Suc.prems(1) [of "Suc k" for k] Suc.prems(2) [of "Suc k" for k]
        in \<open>auto simp: algebra_simps\<close>)
  then show ?case using h1 by (simp add: algebra_simps)
qed auto

lemma kmemtest_loop_keeps:
  assumes "\<And>a v h. f (wr32 M a v h) = f h" "kmemtest_loop M a e h = Some r"
  shows "f (fst r) = f h"
proof -
  have "M' = M \<longrightarrow> f (fst r) = f h" if "kmemtest_loop M' a e h = Some r" for M' a e h r
    using that
  proof (rule kmemtest_loop.raw_induct [where P = "\<lambda>M' a e h r. M' = M \<longrightarrow> f (fst r) = f h", rotated])
    fix loop :: "'a machine \<Rightarrow> u32 \<Rightarrow> u32 \<Rightarrow> 'a \<Rightarrow> ('a \<times> u32) option" and M' a e h r
    assume IH: "\<And>M' a e h r. loop M' a e h = Some r \<Longrightarrow> M' = M \<longrightarrow> f (fst r) = f h"
    assume body: "(if \<not> a < e then Some (h, a - 0x1000)
      else
        (let p = a;
             original_data = rd32 M' p h;
             h = wr32 M' p 0xaa55aa55 h;
             h = wr32 M' p (NOT (rd32 M' p h)) h
         in if rd32 M' p h \<noteq> 0x55aa55aa then Some (wr32 M' p original_data h, a)
            else let h = wr32 M' p (NOT (rd32 M' p h)) h
            in if rd32 M' p h \<noteq> 0xaa55aa55 then Some (wr32 M' p original_data h, a)
               else loop M' (a + 0x1000) e (wr32 M' p original_data h))) = Some r"
    show "M' = M \<longrightarrow> f (fst r) = f h"
      using body IH [of M' "a + 0x1000" e _ r] by (auto simp: Let_def assms(1) split: if_splits)
  qed
  then show ?thesis using assms(2) by blast
qed

text \<open>
  If memory cells answer at the first \<open>n\<close> pages from \<^verbatim>\<open>mem_start\<close> and the page after them has
  no memory, \<^verbatim>\<open>kmemtest\<close> returns the address of that page, provided it is below \<^verbatim>\<open>mem_end\<close>; if the \<open>n\<close>
  pages are all there is below \<^verbatim>\<open>mem_end\<close>, it returns the address of the last one. EFLAGS and
  CR0 have their old values afterwards, if the processor keeps what is written to CR0, restores
  EFLAGS from a value read from it, and memory writes and the two registers do not interfere.
\<close>

theorem kmemtest_correct:
  assumes ram: "\<And>k. k < n \<Longrightarrow> is_ram M (mem_start + of_nat k * 0x1000)"
    and below: "\<And>k. k < n \<Longrightarrow> mem_start + of_nat k * 0x1000 < mem_end"
    and stop: "stopa = mem_start + of_nat n * 0x1000" "stopa < mem_end \<Longrightarrow> no_ram M stopa"
    and cr0: "\<And>v h. io_get_cr0 M (io_set_cr0 M v h) = v"
      "\<And>v h. io_get_eflags M (io_set_cr0 M v h) = io_get_eflags M h"
      "\<And>v h. io_get_cr0 M (io_set_eflags M v h) = io_get_cr0 M h"
    and eflags: "\<And>h h'. io_get_eflags M (io_set_eflags M (io_get_eflags M h) h') = io_get_eflags M h"
    and wr: "\<And>a v h. io_get_cr0 M (wr32 M a v h) = io_get_cr0 M h"
      "\<And>a v h. io_get_eflags M (wr32 M a v h) = io_get_eflags M h"
  shows "\<exists>h'. kmemtest M mem_start mem_end h = Some (h', if stopa < mem_end then stopa else stopa - 0x1000) \<and>
    io_get_cr0 M h' = io_get_cr0 M h \<and> io_get_eflags M h' = io_get_eflags M h"
proof -
  let ?r = "if stopa < mem_end then stopa else stopa - 0x1000"
  have sub: "\<exists>h'. kmemtest_subtest M mem_start mem_end h = Some (h', ?r)" for h
  proof -
    obtain h1 where "kmemtest_loop M mem_start mem_end h = kmemtest_loop M stopa mem_end h1"
      using kmemtest_loop_ram [of n M mem_start mem_end h] ram below stop(1) by blast
    moreover have "\<exists>h'. kmemtest_loop M stopa mem_end h1 = Some (h', ?r)"
      using stop(2) by (subst kmemtest_loop.simps) (auto simp: Let_def no_ram_def)
    ultimately show ?thesis by (simp add: kmemtest_subtest_def)
  qed
  have keep: "io_get_cr0 M h' = io_get_cr0 M h \<and> io_get_eflags M h' = io_get_eflags M h"
    if "kmemtest_subtest M mem_start mem_end h = Some (h', r)" for h h' r
    using kmemtest_loop_keeps [of "io_get_cr0 M" M mem_start mem_end h "(h', r)"]
      kmemtest_loop_keeps [of "io_get_eflags M" M mem_start mem_end h "(h', r)"] that wr
    by (simp add: kmemtest_subtest_def)
  let ?h1 = "io_set_eflags M (io_get_eflags M h) (io_set_eflags M (io_get_eflags M h OR EFLAGS_MASK_AC) h)"
  let ?b = "isMaskBitsAllSet (io_get_eflags M (io_set_eflags M (io_get_eflags M h OR EFLAGS_MASK_AC) h)) EFLAGS_MASK_AC"
  let ?h2 = "if ?b then io_set_cr0 M (io_get_cr0 M ?h1 OR CR0_MASK_CD) ?h1 else ?h1"
  obtain h3 where h3: "kmemtest_subtest M mem_start mem_end ?h2 = Some (h3, ?r)" using sub by blast
  then have "kmemtest M mem_start mem_end h =
      Some (if ?b then io_set_cr0 M (io_get_cr0 M ?h1) h3 else h3, ?r)"
    by (simp add: kmemtest_def Let_def)
  moreover note keep [OF h3]
  ultimately show ?thesis by (auto simp: cr0 eflags split: if_splits)
qed

text \<open>A machine with memory below 0x3000.\<close>

definition small_machine :: "((u32 \<Rightarrow> u32) \<times> u32 \<times> u32) machine" where
  "small_machine =
     \<lparr>rd32 = (\<lambda>a (m, e, c). if a < 0x3000 then m a else 0xffffffff),
      wr32 = (\<lambda>a v (m, e, c). (m(a := v), e, c)),
      io_get_eflags = (\<lambda>(m, e, c). e), io_set_eflags = (\<lambda>v (m, e, c). (m, v, c)),
      io_get_cr0 = (\<lambda>(m, e, c). c), io_set_cr0 = (\<lambda>v (m, e, c). (m, e, v))\<rparr>"

theorem kmemtest_correct_witness:
  "\<exists>h'. kmemtest small_machine 0x1000 0x8000 (\<lambda>_. 0, 2, 0x11) = Some (h', 0x3000)"
proof -
  have two: "k < 2 \<Longrightarrow> k = 0 \<or> k = (1 :: nat)" for k by auto
  have ram: "is_ram small_machine (0x1000 + of_nat k * 0x1000)" "0x1000 + of_nat k * 0x1000 < (0x8000 :: u32)"
    if "k < 2" for k
    using two [OF that] by (auto simp: is_ram_def small_machine_def)
  show ?thesis
    using kmemtest_correct [of 2 small_machine "0x1000" "0x8000" "0x3000" "(\<lambda>_. 0, 2, 0x11)", OF ram]
    by (auto simp: no_ram_def small_machine_def)
qed

end
