(* ===== verification/Paging.thy ===== *)
theory Paging
  imports Memory
begin

text \<open>
  The page tables of \<^verbatim>\<open>src/src/memory/paging/paging.{h,c}\<close>. Bit fields are words of their width; a page
  directory is the list of its 1024 entries, and the page tables are a map from the address of a table
  to its entries. \<open>page_walk\<close> is the translation the processor does with them (Intel manual, 32-bit paging).
\<close>

section \<open>Data\<close>

record PAGE_DIRECTORY_ENTRY_4KB =
  pde_P :: "1 word"
  pde_R_W :: "1 word"
  pde_U_S :: "1 word"
  pde_A :: "1 word"
  pde_PWT :: "1 word"
  pde_PCD :: "1 word"
  pde_AVL1 :: "1 word"
  pde_PS :: "1 word"
  pde_AVL0 :: "4 word"
  pde_higher_address :: "20 word"

record PAGE_TABLE_ENTRY_4KB =
  pte_P :: "1 word"
  pte_R_W :: "1 word"
  pte_U_S :: "1 word"
  pte_PWT :: "1 word"
  pte_PCD :: "1 word"
  pte_A :: "1 word"
  pte_D :: "1 word"
  pte_PAT :: "1 word"
  pte_G :: "1 word"
  pte_AVL :: "3 word"
  pte_higher_address :: "20 word"

type_synonym page_tables = "u32 \<Rightarrow> PAGE_TABLE_ENTRY_4KB list"

record paging =
  pg_entries :: "PAGE_DIRECTORY_ENTRY_4KB list"
  pg_entries_addr :: u32
  pg_tables :: page_tables
  pg_current_directory :: u32

definition PAGE_OS_PAGE_SIZE :: u32 where "PAGE_OS_PAGE_SIZE = 4096"
definition PAGE_DIRECTORY_TOTAL_ENTRIES :: u32 where "PAGE_DIRECTORY_TOTAL_ENTRIES = 1024"
definition PAGE_TABLE_TOTAL_ENTRIES :: u32 where "PAGE_TABLE_TOTAL_ENTRIES = 1024"

lemmas page_sizes = PAGE_OS_PAGE_SIZE_def PAGE_DIRECTORY_TOTAL_ENTRIES_def PAGE_TABLE_TOTAL_ENTRIES_def

section \<open>Operations\<close>

definition pd_entry_set_flags :: "PAGE_DIRECTORY_ENTRY_4KB \<Rightarrow> u32 \<Rightarrow> PAGE_DIRECTORY_ENTRY_4KB" where
  "pd_entry_set_flags e flags =
     e\<lparr>pde_AVL0 := ucast (drop_bit 8 flags AND 0xf),
       pde_PS := ucast (drop_bit 7 flags AND 1),
       pde_AVL1 := ucast (drop_bit 6 flags AND 1),
       pde_A := ucast (drop_bit 5 flags AND 1),
       pde_PCD := ucast (drop_bit 4 flags AND 1),
       pde_PWT := ucast (drop_bit 3 flags AND 1),
       pde_U_S := ucast (drop_bit 2 flags AND 1),
       pde_R_W := ucast (drop_bit 1 flags AND 1),
       pde_P := ucast (flags AND 1)\<rparr>"

definition pd_entry_to_val :: "PAGE_DIRECTORY_ENTRY_4KB \<Rightarrow> u32" where
  "pd_entry_to_val e =
     push_bit 12 (scast (pde_higher_address e))
     OR push_bit 8 (ucast (pde_AVL0 e))
     OR push_bit 7 (ucast (pde_PS e))
     OR push_bit 6 (ucast (pde_AVL1 e))
     OR push_bit 5 (ucast (pde_A e))
     OR push_bit 4 (ucast (pde_PCD e))
     OR push_bit 3 (ucast (pde_PWT e))
     OR push_bit 2 (ucast (pde_U_S e))
     OR push_bit 1 (ucast (pde_R_W e))
     OR ucast (pde_P e)"

definition pd_table_set :: "u32 \<Rightarrow> PAGE_TABLE_ENTRY_4KB \<Rightarrow> PAGE_TABLE_ENTRY_4KB" where
  "pd_table_set data e =
     e\<lparr>pte_higher_address := ucast (drop_bit 12 data AND 0xfffff),
       pte_AVL := ucast (drop_bit 9 data AND 7),
       pte_G := ucast (drop_bit 8 data AND 1),
       pte_PAT := ucast (drop_bit 7 data AND 1),
       pte_D := ucast (drop_bit 6 data AND 1),
       pte_A := ucast (drop_bit 5 data AND 1),
       pte_PCD := ucast (drop_bit 4 data AND 1),
       pte_PWT := ucast (drop_bit 3 data AND 1),
       pte_U_S := ucast (drop_bit 2 data AND 1),
       pte_R_W := ucast (drop_bit 1 data AND 1),
       pte_P := ucast (data AND 1)\<rparr>"

definition pde_zero :: PAGE_DIRECTORY_ENTRY_4KB where
  "pde_zero = \<lparr>pde_P = 0, pde_R_W = 0, pde_U_S = 0, pde_A = 0, pde_PWT = 0, pde_PCD = 0, pde_AVL1 = 0, pde_PS = 0,
     pde_AVL0 = 0, pde_higher_address = 0\<rparr>"

definition pte_zero :: PAGE_TABLE_ENTRY_4KB where
  "pte_zero = \<lparr>pte_P = 0, pte_R_W = 0, pte_U_S = 0, pte_PWT = 0, pte_PCD = 0, pte_A = 0, pte_D = 0, pte_PAT = 0,
     pte_G = 0, pte_AVL = 0, pte_higher_address = 0\<rparr>"

text \<open>The inner loop of \<^verbatim>\<open>pd_init\<close> fills one table; \<open>n\<close> is the number of turns left.\<close>

fun pt_fill :: "nat \<Rightarrow> nat \<Rightarrow> u64 \<Rightarrow> PAGE_TABLE_ENTRY_4KB list \<Rightarrow> (PAGE_TABLE_ENTRY_4KB list \<times> u64) option" where
  "pt_fill 0 j address_offset table = Some (table, address_offset)"
| "pt_fill (Suc n) j address_offset table = do {
     let real_mem_address = address_offset;
     let address_offset = address_offset + 4096;
     e \<leftarrow> aget table (int j);
     table \<leftarrow> aset table (int j) (e\<lparr>pte_higher_address := ucast (drop_bit 12 real_mem_address AND 0xfffff),
       pte_U_S := 1, pte_R_W := 1, pte_P := 1\<rparr>);
     pt_fill n (Suc j) address_offset table
   }"

fun pd_fill :: "u32 \<Rightarrow> nat \<Rightarrow> nat \<Rightarrow> u64 \<Rightarrow> mm \<Rightarrow> PAGE_DIRECTORY_ENTRY_4KB list \<Rightarrow> page_tables \<Rightarrow>
    (mm \<times> PAGE_DIRECTORY_ENTRY_4KB list \<times> page_tables) option" where
  "pd_fill flags 0 i address_offset m pd_entries tabs = Some (m, pd_entries, tabs)"
| "pd_fill flags (Suc n) i address_offset m pd_entries tabs = do {
     (m, table) \<leftarrow> kzalloc (4 * PAGE_TABLE_TOTAL_ENTRIES) m;
     if table = 0 then None
     else do {
       e \<leftarrow> aget pd_entries (int i);
       let e = e\<lparr>pde_higher_address := ucast (drop_bit 12 table AND 0xfffff)\<rparr>;
       pd_entries \<leftarrow> aset pd_entries (int i) (pd_entry_set_flags e flags);
       (entries, address_offset) \<leftarrow> pt_fill (unat PAGE_TABLE_TOTAL_ENTRIES) 0 address_offset
         (replicate (unat PAGE_TABLE_TOTAL_ENTRIES) pte_zero);
       pd_fill flags n (Suc i) address_offset m pd_entries (tabs(table := entries))
     }
   }"

text \<open>The directory structure is aligned to, and thus as large as, a page.\<close>

definition pd_init :: "u32 \<Rightarrow> mm \<Rightarrow> paging \<Rightarrow> (mm \<times> paging \<times> u32) option" where
  "pd_init flags m pg = do {
     (m, pd) \<leftarrow> kzalloc 4096 m;
     (m, pd_entries) \<leftarrow> kzalloc (4 * PAGE_DIRECTORY_TOTAL_ENTRIES) m;
     if pd = 0 \<or> pd_entries = 0 then None
     else do {
       (m, es, tabs) \<leftarrow> pd_fill flags (unat PAGE_DIRECTORY_TOTAL_ENTRIES) 0 0 m
         (replicate (unat PAGE_DIRECTORY_TOTAL_ENTRIES) pde_zero) (pg_tables pg);
       Some (m, pg\<lparr>pg_entries := es, pg_entries_addr := pd_entries, pg_tables := tabs\<rparr>, pd)
     }
   }"

text \<open>\<open>load\<close> is the effect of \<^verbatim>\<open>paging_load_directory\<close>, an assembly routine that writes CR3.\<close>

definition paging_switch :: "(u32 \<Rightarrow> 'h \<Rightarrow> 'h) \<Rightarrow> u32 \<Rightarrow> paging \<Rightarrow> 'h \<Rightarrow> paging \<times> 'h" where
  "paging_switch load directory pg h = (pg\<lparr>pg_current_directory := directory\<rparr>, load (pg_entries_addr pg) h)"

definition is_address_aligned_4KB :: "u32 \<Rightarrow> bool" where
  "is_address_aligned_4KB addr \<longleftrightarrow> addr mod PAGE_OS_PAGE_SIZE = 0"

definition align_addr_to_lower :: "u32 \<Rightarrow> u32" where
  "align_addr_to_lower val =
     (let residual = val mod PAGE_OS_PAGE_SIZE
      in if residual = 0 then val else val - residual)"

definition vaddress_to_page_indexes :: "u32 \<Rightarrow> u32 \<times> u32" where
  "vaddress_to_page_indexes virtual_address =
     (let a = align_addr_to_lower virtual_address
      in (a div (PAGE_OS_PAGE_SIZE * PAGE_DIRECTORY_TOTAL_ENTRIES),
          a mod (PAGE_OS_PAGE_SIZE * PAGE_DIRECTORY_TOTAL_ENTRIES) div PAGE_OS_PAGE_SIZE))"

text \<open>The address of the table an entry of the directory refers to.\<close>

definition pde_table :: "PAGE_DIRECTORY_ENTRY_4KB \<Rightarrow> u32" where
  "pde_table e = push_bit 12 (scast (pde_higher_address e))"

definition paging_set_page :: "PAGE_DIRECTORY_ENTRY_4KB list \<Rightarrow> u32 \<Rightarrow> u32 \<Rightarrow> page_tables \<Rightarrow> (page_tables \<times> u32) option" where
  "paging_set_page dir virtual_address data tabs = do {
     let (dir_index, table_index) = vaddress_to_page_indexes virtual_address;
     e \<leftarrow> aget dir (uint dir_index);
     let table = pde_table e;
     t \<leftarrow> aget (tabs table) (uint table_index);
     ts \<leftarrow> aset (tabs table) (uint table_index) (pd_table_set data t);
     Some (tabs(table := ts), 0)
   }"

section \<open>The translation of the processor\<close>

definition dir_bits :: "u32 \<Rightarrow> u32" where "dir_bits va = drop_bit 22 va"
definition table_bits :: "u32 \<Rightarrow> u32" where "table_bits va = drop_bit 12 va AND 0x3ff"
definition offset_bits :: "u32 \<Rightarrow> u32" where "offset_bits va = va AND 0xfff"

definition page_walk :: "PAGE_DIRECTORY_ENTRY_4KB list \<Rightarrow> page_tables \<Rightarrow> u32 \<Rightarrow> u32 option" where
  "page_walk dir tabs va = do {
     e \<leftarrow> aget dir (uint (dir_bits va));
     if pde_P e = 0 then None
     else do {
       t \<leftarrow> aget (tabs (pde_table e)) (uint (table_bits va));
       if pte_P t = 0 then None
       else Some (push_bit 12 (scast (pte_higher_address t)) OR offset_bits va)
     }
   }"

section \<open>Indexes and entries\<close>

lemma bits_unat:
  "unat (dir_bits va) = unat va div 4194304" "unat (table_bits va) = unat va div 4096 mod 1024"
  "unat (offset_bits va) = unat va mod 4096"
proof -
  have t: "x AND 0x3ff = take_bit 10 x" for x :: u32 by (simp add: take_bit_eq_mask mask_eq_exp_minus_1)
  have d: "unat (drop_bit k va) = unat va div 2 ^ k" for k by (subst unat_drop_bit_eq) (simp only: drop_bit_eq_div)
  have m: "unat (take_bit k x) = unat x mod 2 ^ k" for k and x :: u32 by (metis take_bit_eq_mod unsigned_take_bit_eq)
  show "unat (dir_bits va) = unat va div 4194304" using d [of 22] by (simp add: dir_bits_def)
  show "unat (table_bits va) = unat va div 4096 mod 1024" unfolding table_bits_def t m d by simp
  show "unat (offset_bits va) = unat va mod 4096" unfolding offset_bits_def and_lit(4) m by simp
qed

lemma align_lower_unat_page: "unat (align_addr_to_lower va) = unat va div 4096 * 4096"
proof -
  have m: "unat (va mod 4096) = unat va mod 4096" by (simp add: unat_mod)
  then have "unat (va - va mod 4096) = unat va - unat va mod 4096" using unat_sub_nowrap [of "va mod 4096" va] by (simp only: mod_less_eq_dividend)
  then have "unat (va - va mod 4096) = unat va div 4096 * 4096" by (simp only: minus_mod_eq_div_mult)
  moreover have "align_addr_to_lower va = va - va mod 4096"
    by (simp add: align_addr_to_lower_def Let_def page_sizes del: minus_mod_eq_div_mult minus_mod_eq_mult_div)
  ultimately show ?thesis by (simp only:)
qed

lemma page_indexes: "vaddress_to_page_indexes va = (dir_bits va, table_bits va)"
proof -
  have "unat va div 4096 * 4096 div 4194304 = unat va div 4194304"
    using div_mult2_eq [of "unat va" 4096 1024] div_mult_mult1 [of 4096 "unat va div 4096" 1024] by (simp add: mult.commute)
  moreover have "unat va div 4096 * 4096 mod 4194304 div 4096 = unat va div 4096 mod 1024"
    using mult_mod_right [of 4096 "unat va div 4096" 1024] by (simp add: mult.commute)
  ultimately show ?thesis
    by (simp add: vaddress_to_page_indexes_def Let_def page_sizes word_unat_eq_iff unat_div unat_mod align_lower_unat_page bits_unat)
qed

lemma pd_table_set_sel:
  "push_bit 12 (scast (pte_higher_address (pd_table_set data e))) = (data AND 0xfffff000 :: u32)"
  "pte_P (pd_table_set data e) = 0 \<longleftrightarrow> \<not> bit data 0"
proof -
  have m: "(0xfffff000 :: u32) = NOT (mask 12)" by (simp add: mask_eq_exp_minus_1)
  show "push_bit 12 (scast (pte_higher_address (pd_table_set data e))) = (data AND 0xfffff000 :: u32)" unfolding m
    by (rule bit_word_eqI) (auto simp: pd_table_set_def and_lit bit_simps)
  have "pte_P (pd_table_set data e) = 0 \<longleftrightarrow> \<not> bit (pte_P (pd_table_set data e)) 0"
    using bit_word_eqI [of "pte_P (pd_table_set data e)" 0] by auto
  then show "pte_P (pd_table_set data e) = 0 \<longleftrightarrow> \<not> bit data 0"
    by (simp add: pd_table_set_def bit_simps)
qed

section \<open>Properties\<close>

text \<open>
  C35: \<^verbatim>\<open>paging_set_page\<close> on a present directory entry, with the present bit in the data: it returns 0, every
  address of the page is then translated to the frame given by the upper 20 bits of the data
  plus its offset in the page, and no address that is translated by another entry of a table changes
  its translation.
\<close>

theorem paging_set_page_correct:
  assumes "length dir = 1024" "pde_P (dir ! unat (dir_bits va)) \<noteq> 0"
    and "length (tabs (pde_table (dir ! unat (dir_bits va)))) = 1024" "bit data 0"
  shows "\<exists>tabs'. paging_set_page dir va data tabs = Some (tabs', 0) \<and>
    (\<forall>w. dir_bits w = dir_bits va \<and> table_bits w = table_bits va \<longrightarrow>
       page_walk dir tabs' w = Some ((data AND 0xfffff000) OR offset_bits w)) \<and>
    (\<forall>w. pde_table (dir ! unat (dir_bits w)) \<noteq> pde_table (dir ! unat (dir_bits va)) \<or> table_bits w \<noteq> table_bits va \<longrightarrow>
       page_walk dir tabs' w = page_walk dir tabs w)"
proof -
  let ?e = "dir ! unat (dir_bits va)"
  let ?T = "tabs (pde_table ?e)" and ?i = "unat (table_bits va)"
  have di: "unat (dir_bits w) < 1024" for w
    using unsigned_less [of w, where ?'a = nat] by (simp add: bits_unat less_mult_imp_div_less)
  have ti: "unat (table_bits w) < 1024" for w by (simp add: bits_unat)
  let ?tabs = "tabs(pde_table ?e := ?T[?i := pd_table_set data (?T ! ?i)])"
  have "paging_set_page dir va data tabs = Some (?tabs, 0)"
    using assms(1,3) di [of va] ti [of va] by (simp add: paging_set_page_def page_indexes aget_word aset_word Let_def)
  moreover have "page_walk dir ?tabs w = Some ((data AND 0xfffff000) OR offset_bits w)"
    if "dir_bits w = dir_bits va" "table_bits w = table_bits va" for w
    using that assms di [of va] ti [of va] by (simp add: page_walk_def aget_word pd_table_set_sel)
  moreover have "page_walk dir ?tabs w = page_walk dir tabs w"
    if "pde_table (dir ! unat (dir_bits w)) \<noteq> pde_table ?e \<or> table_bits w \<noteq> table_bits va" for w
    using that assms(1) di [of w] word_unat_eq_iff [of "table_bits w" "table_bits va"]
    by (auto simp: page_walk_def aget_word)
  ultimately show ?thesis by blast
qed

definition ex_dir :: "PAGE_DIRECTORY_ENTRY_4KB list" where
  "ex_dir = replicate 1024 (pde_zero\<lparr>pde_P := 1, pde_higher_address := 5\<rparr>)"

theorem paging_set_page_correct_witness:
  "\<exists>tabs'. paging_set_page ex_dir 0x1234 0xabcd7 (\<lambda>_. replicate 1024 pte_zero) = Some (tabs', 0) \<and>
     page_walk ex_dir tabs' 0x1234 = Some 0xab234"
proof -
  have "unat (dir_bits 0x1234) < 1024" by (simp add: bits_unat)
  then have "ex_dir ! unat (dir_bits 0x1234) = pde_zero\<lparr>pde_P := 1, pde_higher_address := 5\<rparr>" by (simp add: ex_dir_def)
  moreover have "(0xabcd7 AND 0xfffff000) OR offset_bits 0x1234 = 0xab234" by (simp add: offset_bits_def)
  ultimately show ?thesis
    using paging_set_page_correct [of ex_dir "0x1234" "\<lambda>_. replicate 1024 pte_zero" "0xabcd7"]
    by (auto simp: ex_dir_def)
qed

end
