(* ===== verification/TextMode.thy ===== *)
theory TextMode
  imports Kutil
begin

text \<open>
  The colour text mode terminal of \<^verbatim>\<open>src/src/drivers/graphic/colortextmode.c\<close>: 25 rows of 80 cells of
  sixteen bits, indexed from the start of the video memory, and the position of the cursor.
\<close>

section \<open>Operations\<close>

record terminal =
  tt_video_mem :: "int \<Rightarrow> u16"
  tt_row :: u16
  tt_col :: u16

definition VGA_WIDTH :: int where "VGA_WIDTH = 80"
definition VGA_HEIGHT :: int where "VGA_HEIGHT = 25"

lemmas vga_sizes = VGA_WIDTH_def VGA_HEIGHT_def

text \<open>The type \<^verbatim>\<open>char\<close> is signed and is promoted before the two halves are combined.\<close>

definition colortextmode_terminal_make_char :: "u8 \<Rightarrow> u8 \<Rightarrow> u16" where
  "colortextmode_terminal_make_char c color = ucast (push_bit 8 (ucast color :: u32) OR scast c)"

definition colortextmode_terminal_put_char :: "int \<Rightarrow> int \<Rightarrow> u8 \<Rightarrow> u8 \<Rightarrow> terminal \<Rightarrow> terminal" where
  "colortextmode_terminal_put_char x y c color t =
     t\<lparr>tt_video_mem := (tt_video_mem t)(y * VGA_WIDTH + x := colortextmode_terminal_make_char c color)\<rparr>"

definition colortextmode_terminal_initialize :: "terminal \<Rightarrow> terminal" where
  "colortextmode_terminal_initialize t =
     fold (\<lambda>y t. fold (\<lambda>x t. colortextmode_terminal_put_char x y 32 0 t) [0..VGA_WIDTH - 1] t) [0..VGA_HEIGHT - 1] t"

definition terminal_scroll :: "terminal \<Rightarrow> terminal" where
  "terminal_scroll t =
     (let t = fold (\<lambda>y t. fold (\<lambda>x t. t\<lparr>tt_video_mem := (tt_video_mem t)((y - 1) * VGA_WIDTH + x := tt_video_mem t (y * VGA_WIDTH + x))\<rparr>)
            [0..VGA_WIDTH - 1] t) [1..VGA_HEIGHT - 1] t
      in fold (\<lambda>z t. colortextmode_terminal_put_char z (VGA_HEIGHT - 1) 32 0 t) [0..VGA_WIDTH - 1] t)"

definition current_terminal_row_scrolldown :: "terminal \<Rightarrow> terminal" where
  "current_terminal_row_scrolldown t =
     (let t = t\<lparr>tt_row := tt_row t + 1\<rparr>
      in if uint (tt_row t) \<ge> VGA_HEIGHT then (terminal_scroll t)\<lparr>tt_row := word_of_int (VGA_HEIGHT - 1)\<rparr> else t)"

definition terminal_write_char :: "u8 \<Rightarrow> u8 \<Rightarrow> terminal \<Rightarrow> terminal" where
  "terminal_write_char c color t =
     (if c = 10 then current_terminal_row_scrolldown (t\<lparr>tt_col := 0\<rparr>)
      else
        (let t = colortextmode_terminal_put_char (uint (tt_col t)) (uint (tt_row t)) c color t;
             t = t\<lparr>tt_col := tt_col t + 1\<rparr>
         in if uint (tt_col t) \<ge> VGA_WIDTH then current_terminal_row_scrolldown (t\<lparr>tt_col := 0\<rparr>) else t))"

text \<open>The loop over the characters of an array; reading behind its end is \<open>None\<close>.\<close>

fun kprint_loop :: "nat \<Rightarrow> nat \<Rightarrow> u8 list \<Rightarrow> u8 \<Rightarrow> terminal \<Rightarrow> terminal option" where
  "kprint_loop 0 i str color t = Some t"
| "kprint_loop (Suc n) i str color t = do {
     c \<leftarrow> aget str (int i);
     kprint_loop n (Suc i) str color (terminal_write_char c color t)
   }"

definition kprint_error_msg :: "u8 list" where
  "kprint_error_msg = map (\<lambda>c. of_nat (of_char c)) ''kernel.c/colortextmode_kprint: Input too long'' @ [0]"

definition colortextmode_kprint :: "u8 list \<Rightarrow> u32 \<Rightarrow> u8 \<Rightarrow> terminal \<Rightarrow> terminal option" where
  "colortextmode_kprint str len color t =
     (if len > 51200 then kprint_loop (unat len) 0 kprint_error_msg 4 t
      else kprint_loop (unat len) 0 str color t)"

text \<open>\<open>str\<close> is the array, with a terminating zero; the length is that of the string in it.\<close>

definition colortextmode_kfprint :: "u8 list \<Rightarrow> u8 \<Rightarrow> terminal \<Rightarrow> terminal option" where
  "colortextmode_kfprint str color t =
     colortextmode_kprint str (of_nat (length (takeWhile (\<lambda>c. c \<noteq> 0) str))) color t"

section \<open>The screen as a grid\<close>

definition cell :: "terminal \<Rightarrow> int \<Rightarrow> int \<Rightarrow> u16" where
  "cell t x y = tt_video_mem t (y * 80 + x)"

definition blank :: u16 where
  "blank = colortextmode_terminal_make_char 32 0"

text \<open>The cursor is on the screen.\<close>

definition cursor_ok :: "terminal \<Rightarrow> bool" where
  "cursor_ok t \<longleftrightarrow> uint (tt_row t) < 25 \<and> uint (tt_col t) < 80"

lemma put_char_mem:
  "tt_video_mem (colortextmode_terminal_put_char x y c col t) = (tt_video_mem t)(y * 80 + x := colortextmode_terminal_make_char c col)"
  "tt_row (colortextmode_terminal_put_char x y c col t) = tt_row t" "tt_col (colortextmode_terminal_put_char x y c col t) = tt_col t"
  by (simp_all add: colortextmode_terminal_put_char_def vga_sizes)

lemma put_row:
  "fold (\<lambda>x t. colortextmode_terminal_put_char x y c col t) xs t =
     t\<lparr>tt_video_mem := (\<lambda>i. if i \<in> (\<lambda>x. y * 80 + x) ` set xs then colortextmode_terminal_make_char c col else tt_video_mem t i)\<rparr>"
  by (induction xs arbitrary: t) (auto simp: colortextmode_terminal_put_char_def vga_sizes fun_eq_iff)

lemma copy_row:
  assumes "set xs \<subseteq> {0..<80}" "distinct xs"
  shows "fold (\<lambda>x t. t\<lparr>tt_video_mem := (tt_video_mem t)((y - 1) * 80 + x := tt_video_mem t (y * 80 + x))\<rparr>) xs t =
     t\<lparr>tt_video_mem := (\<lambda>i. if i \<in> (\<lambda>x. (y - 1) * 80 + x) ` set xs then tt_video_mem t (i + 80) else tt_video_mem t i)\<rparr>"
  using assms
proof (induction xs arbitrary: t rule: rev_induct)
  case (snoc x xs)
  have "y * 80 + x \<notin> (\<lambda>x. (y - 1) * 80 + x) ` set xs" using snoc.prems by auto
  then show ?case using snoc by (auto simp: fun_eq_iff)
qed simp

lemma copy_rows:
  assumes "0 \<le> n" "n < 25"
  shows "fold (\<lambda>y t. fold (\<lambda>x t. t\<lparr>tt_video_mem := (tt_video_mem t)((y - 1) * 80 + x := tt_video_mem t (y * 80 + x))\<rparr>) [0..79] t) [1..n] t =
     t\<lparr>tt_video_mem := (\<lambda>i. if 0 \<le> i \<and> i < n * 80 then tt_video_mem t (i + 80) else tt_video_mem t i)\<rparr>"
  using assms
proof (induction "nat n" arbitrary: n)
  case 0
  then have "(\<lambda>i. if 0 \<le> i \<and> i < n * 80 then tt_video_mem t (i + 80) else tt_video_mem t i) = tt_video_mem t" by (auto simp: fun_eq_iff)
  then show ?case using 0 by simp
next
  case (Suc k)
  let ?F = "\<lambda>y t. fold (\<lambda>x t. t\<lparr>tt_video_mem := (tt_video_mem t)((y - 1) * 80 + x := tt_video_mem t (y * 80 + x))\<rparr>) [0..79] t"
  have "k = nat (n - 1)" "0 \<le> n - 1" "n - 1 < 25" using Suc by simp_all
  note IH = Suc.hyps(1) [OF this]
  have "[1..n] = [1..n - 1] @ [n]" using Suc.prems Suc.hyps(2) by (intro upto_rec2) simp
  then have "fold ?F [1..n] t = ?F n (fold ?F [1..n - 1] t)" by simp
  also have "\<dots> = ?F n (t\<lparr>tt_video_mem := (\<lambda>i. if 0 \<le> i \<and> i < (n - 1) * 80 then tt_video_mem t (i + 80) else tt_video_mem t i)\<rparr>)"
    by (simp only: IH)
  also have "?F n s = s\<lparr>tt_video_mem := (\<lambda>i. if (n - 1) * 80 \<le> i \<and> i < n * 80 then tt_video_mem s (i + 80) else tt_video_mem s i)\<rparr>" for s
  proof -
    have "i \<in> (\<lambda>x. (n - 1) * 80 + x) ` set [0..79] \<longleftrightarrow> (n - 1) * 80 \<le> i \<and> i < n * 80" for i
    proof
      assume "(n - 1) * 80 \<le> i \<and> i < n * 80"
      then show "i \<in> (\<lambda>x. (n - 1) * 80 + x) ` set [0..79]" by (intro image_eqI [of _ _ "i - (n - 1) * 80"]) auto
    qed auto
    moreover have "set [0..79] \<subseteq> {0..<80 :: int}" by auto
    ultimately show ?thesis using copy_row [of "[0..79]" n s] by (simp only: distinct_upto)
  qed
  also have "t\<lparr>tt_video_mem := (\<lambda>i. if 0 \<le> i \<and> i < (n - 1) * 80 then tt_video_mem t (i + 80) else tt_video_mem t i),
      tt_video_mem := (\<lambda>i. if (n - 1) * 80 \<le> i \<and> i < n * 80
        then tt_video_mem (t\<lparr>tt_video_mem := (\<lambda>i. if 0 \<le> i \<and> i < (n - 1) * 80 then tt_video_mem t (i + 80) else tt_video_mem t i)\<rparr>) (i + 80)
        else tt_video_mem (t\<lparr>tt_video_mem := (\<lambda>i. if 0 \<le> i \<and> i < (n - 1) * 80 then tt_video_mem t (i + 80) else tt_video_mem t i)\<rparr>) i)\<rparr> =
    t\<lparr>tt_video_mem := (\<lambda>i. if 0 \<le> i \<and> i < n * 80 then tt_video_mem t (i + 80) else tt_video_mem t i)\<rparr>"
  proof -
    have "(if (n - 1) * 80 \<le> i \<and> i < n * 80
        then (if 0 \<le> i + 80 \<and> i + 80 < (n - 1) * 80 then f (i + 80 + 80) else f (i + 80))
        else (if 0 \<le> i \<and> i < (n - 1) * 80 then f (i + 80) else f i)) = (if 0 \<le> i \<and> i < n * 80 then f (i + 80) else f i)"
      for f :: "int \<Rightarrow> u16" and i using Suc.prems Suc.hyps(2) by auto
    from this [of _ "tt_video_mem t"] show ?thesis by (simp cong: if_cong)
  qed
  finally show ?case .
qed

text \<open>Scrolling in closed form: every row moves up by one, the last one becomes blank.\<close>

lemma terminal_scroll_eq:
  "terminal_scroll t = t\<lparr>tt_video_mem := (\<lambda>i. if 0 \<le> i \<and> i < 1920 then tt_video_mem t (i + 80)
     else if 1920 \<le> i \<and> i < 2000 then blank else tt_video_mem t i)\<rparr>"
proof -
  have "i \<in> (\<lambda>x. 24 * 80 + x) ` set [0..79] \<longleftrightarrow> 1920 \<le> i \<and> i < (2000 :: int)" for i
  proof
    assume "1920 \<le> i \<and> i < (2000 :: int)"
    then show "i \<in> (\<lambda>x. 24 * 80 + x) ` set [0..79]" by (intro image_eqI [of _ _ "i - 1920"]) auto
  qed auto
  then show ?thesis
    using copy_rows [of 24 t] unfolding terminal_scroll_def Let_def vga_sizes
    by (auto simp: put_row blank_def fun_eq_iff)
qed

lemma scrolldown_ok:
  assumes "uint (tt_row t) < 25"
  shows "uint (tt_row (current_terminal_row_scrolldown t)) < 25" "tt_col (current_terminal_row_scrolldown t) = tt_col t"
    "i < 0 \<or> 2000 \<le> i \<Longrightarrow> tt_video_mem (current_terminal_row_scrolldown t) i = tt_video_mem t i"
  using assms by (auto simp: current_terminal_row_scrolldown_def terminal_scroll_eq Let_def vga_sizes)

lemma write_char_ok:
  assumes "cursor_ok t"
  shows "cursor_ok (terminal_write_char c color t)"
    "i < 0 \<or> 2000 \<le> i \<Longrightarrow> tt_video_mem (terminal_write_char c color t) i = tt_video_mem t i"
proof -
  have c: "uint (tt_row t) < 25" "uint (tt_col t) < 80" "0 \<le> uint (tt_row t)" "0 \<le> uint (tt_col t)"
    using assms by (simp_all add: cursor_ok_def)
  then have "uint (tt_col t + 1) = uint (tt_col t) + 1" by (simp add: uint_word_ariths)
  then show "cursor_ok (terminal_write_char c color t)"
    using c scrolldown_ok(1,2) unfolding cursor_ok_def terminal_write_char_def
    by (auto simp: Let_def vga_sizes put_char_mem not_le)
  assume "i < 0 \<or> 2000 \<le> i"
  moreover have "0 \<le> uint (tt_row t) * 80 + uint (tt_col t)" "uint (tt_row t) * 80 + uint (tt_col t) < 2000" using c by linarith+
  then have "i \<noteq> uint (tt_row t) * 80 + uint (tt_col t)" using calculation by linarith
  ultimately show "tt_video_mem (terminal_write_char c color t) i = tt_video_mem t i"
    using c scrolldown_ok(3) unfolding terminal_write_char_def by (auto simp: Let_def vga_sizes put_char_mem)
qed

text \<open>
  Printing in text mode: a string of at most 51200 characters is printed, the cursor stays on the
  screen and no cell outside the 80 by 25 cells of the screen is written.
\<close>

theorem colortextmode_kprint_in_bounds:
  assumes "cursor_ok t" "unat len \<le> length str" "len \<le> 51200"
  shows "\<exists>t'. colortextmode_kprint str len color t = Some t' \<and> cursor_ok t' \<and>
    (\<forall>i. i < 0 \<or> 2000 \<le> i \<longrightarrow> tt_video_mem t' i = tt_video_mem t i)"
proof -
  have "\<exists>t'. kprint_loop n i str color t = Some t' \<and> cursor_ok t' \<and>
      (\<forall>j. j < 0 \<or> 2000 \<le> j \<longrightarrow> tt_video_mem t' j = tt_video_mem t j)"
    if "cursor_ok t" "i + n \<le> length str" for n i t
    using that
  proof (induction n arbitrary: i t)
    case (Suc n)
    obtain c where c: "aget str (int i) = Some c" using Suc.prems(2) by (simp add: aget_in)
    have "\<exists>t'. kprint_loop n (Suc i) str color (terminal_write_char c color t) = Some t' \<and> cursor_ok t' \<and>
        (\<forall>j. j < 0 \<or> 2000 \<le> j \<longrightarrow> tt_video_mem t' j = tt_video_mem (terminal_write_char c color t) j)"
      using Suc.prems write_char_ok(1) by (intro Suc.IH) auto
    then show ?case using c write_char_ok(2) [OF Suc.prems(1)] by auto
  qed simp
  from this [of t 0 "unat len"] show ?thesis using assms by (simp add: colortextmode_kprint_def not_less [symmetric])
qed

theorem colortextmode_kprint_in_bounds_witness:
  "\<exists>t'. colortextmode_kprint [72, 105, 10] 3 7 \<lparr>tt_video_mem = (\<lambda>_. 0), tt_row = 24, tt_col = 79\<rparr> = Some t' \<and> cursor_ok t'"
  using colortextmode_kprint_in_bounds [of "\<lparr>tt_video_mem = (\<lambda>_. 0), tt_row = 24, tt_col = 79\<rparr>" 3 "[72, 105, 10]" 7]
  by (auto simp: cursor_ok_def)

text \<open>A longer string makes the error path read behind the end of its message.\<close>

lemma kprint_loop_beyond: "length str < i + n \<Longrightarrow> i \<le> length str \<Longrightarrow> kprint_loop n i str color t = None"
proof (induction n arbitrary: i t)
  case (Suc n)
  then show ?case by (cases "i < length str") (auto simp: aget_def)
qed simp

lemma colortextmode_kprint_long: "len > 51200 \<Longrightarrow> colortextmode_kprint str len color t = None"
  by (simp add: colortextmode_kprint_def kprint_loop_beyond kprint_error_msg_def word_less_nat_alt)

end
