(* ===== verification/Path.thy ===== *)
theory Path
  imports Memory
begin

text \<open>
  The path parser of \<^verbatim>\<open>src/src/fs/pathparser.{h,c}\<close>. A C string the parser walks over is the list of its bytes
  without the terminating zero (advancing the pointer drops a byte); the objects it allocates are
  kept at their addresses: the string buffers, the parts and the roots. Following a null pointer is \<open>None\<close>.
\<close>

section \<open>State\<close>

record PATH_ROOT =
  pr_drive_no :: int
  pr_first :: u32

record PATH_PART =
  pp_part :: u32
  pp_next :: u32

record fs =
  fs_mm :: mm
  fs_strs :: "u32 \<Rightarrow> u8 list"
  fs_parts :: "u32 \<Rightarrow> PATH_PART"
  fs_roots :: "u32 \<Rightarrow> PATH_ROOT"

definition sizeof_PATH_ROOT :: u32 where "sizeof_PATH_ROOT = 8"
definition sizeof_PATH_PART :: u32 where "sizeof_PATH_PART = 8"

section \<open>Operations\<close>

text \<open>\<^verbatim>\<open>kstrnlen\<close> of a buffer given by its bytes; a string that is walked over ends behind its last byte.\<close>

definition buf_strnlen :: "u8 list \<Rightarrow> nat \<Rightarrow> nat" where
  "buf_strnlen xs n = length (takeWhile (\<lambda>c. c \<noteq> 0) (take n xs))"

text \<open>The bytes 58 and 47 are the characters of ``:/''.\<close>

definition path_valid_format :: "u8 list option \<Rightarrow> bool" where
  "path_valid_format filename =
     (case filename of
        None \<Rightarrow> False
      | Some f \<Rightarrow> buf_strnlen f OS_PATH_MAX_LENGTH \<ge> 3 \<and> is_digit (f ! 0) \<and> take 2 (drop 1 f) = [58, 47])"

definition path_get_drive_number_by_path :: "u8 list \<Rightarrow> u8 list \<times> int" where
  "path_get_drive_number_by_path path =
     (if \<not> path_valid_format (Some path) then (path, - EBADPATH) else (drop 3 path, to_digit (path ! 0)))"

definition path_create_root :: "int \<Rightarrow> fs \<Rightarrow> (fs \<times> u32) option" where
  "path_create_root driver_number s = do {
     (m, pr) \<leftarrow> kzalloc sizeof_PATH_ROOT (fs_mm s);
     if pr = 0 then None
     else Some (s\<lparr>fs_mm := m, fs_roots := (fs_roots s)(pr := \<lparr>pr_drive_no = driver_number, pr_first = 0\<rparr>)\<rparr>, pr)
   }"

text \<open>The loop; \<open>n\<close> is the number of turns left. The result says whether the loop ended with a return.\<close>

fun path_part_loop :: "nat \<Rightarrow> nat \<Rightarrow> u8 list \<Rightarrow> u8 list \<Rightarrow> u8 list \<times> u8 list \<times> bool" where
  "path_part_loop 0 i path buf = (path, buf, False)"
| "path_part_loop (Suc n) i [] buf = ([], buf, False)"
| "path_part_loop (Suc n) i (c # path) buf =
     (if c = 47 \<and> buf_strnlen buf OS_PATH_MAX_LENGTH \<noteq> 0 then (path, buf, True)
      else path_part_loop n (Suc i) path (buf[i := c]))"

text \<open>The result is the new state, the path behind the part and the address of the part's string, 0 for \<^verbatim>\<open>NULL\<close>.\<close>

definition path_get_path_part :: "u8 list \<Rightarrow> fs \<Rightarrow> (fs \<times> u8 list \<times> u32) option" where
  "path_get_path_part path s = do {
     (m, path_part) \<leftarrow> kzalloc (of_nat OS_PATH_MAX_LENGTH) (fs_mm s);
     if path_part = 0 then None
     else
       (let (path, buf, returned) = path_part_loop OS_PATH_MAX_LENGTH 0 path (replicate OS_PATH_MAX_LENGTH 0)
        in if \<not> returned \<and> buf_strnlen buf OS_PATH_MAX_LENGTH = 0 then Some (s\<lparr>fs_mm := kfree path_part m\<rparr>, path, 0)
           else Some (s\<lparr>fs_mm := m, fs_strs := (fs_strs s)(path_part := buf)\<rparr>, path, path_part))
   }"

definition path_create_part :: "u32 \<Rightarrow> u8 list \<Rightarrow> fs \<Rightarrow> (fs \<times> u8 list \<times> u32) option" where
  "path_create_part prev path_str s = do {
     (s, path_str, path_part_str) \<leftarrow> path_get_path_part path_str s;
     if path_part_str = 0 then Some (s, path_str, 0)
     else do {
       (m, pp) \<leftarrow> kzalloc sizeof_PATH_PART (fs_mm s);
       if pp = 0 then None
       else
         (let parts = (fs_parts s)(pp := \<lparr>pp_part = path_part_str, pp_next = 0\<rparr>);
              parts = (if prev \<noteq> 0 then parts(prev := (parts prev)\<lparr>pp_next := pp\<rparr>) else parts)
          in Some (s\<lparr>fs_mm := m, fs_parts := parts\<rparr>, path_str, pp))
     }
   }"

text \<open>The first loop of \<^verbatim>\<open>path_free\<close>: the addresses of the parts, at most \<open>n\<close>, and the address behind them.\<close>

fun path_collect :: "nat \<Rightarrow> u32 \<Rightarrow> fs \<Rightarrow> u32 list \<times> u32" where
  "path_collect 0 pt s = ([], pt)"
| "path_collect (Suc n) pt s =
     (if pt = 0 then ([], 0) else let (ps, e) = path_collect n (pp_next (fs_parts s pt)) s in (pt # ps, e))"

text \<open>The second loop, from index \<open>i\<close> down to 0; \<open>n\<close> is \<open>i + 1\<close>. The array has \<^verbatim>\<open>OS_PATH_MAX_LENGTH\<close> entries.\<close>

fun path_free_loop :: "nat \<Rightarrow> u32 list \<Rightarrow> fs \<Rightarrow> fs option" where
  "path_free_loop 0 pt_ptr s = Some s"
| "path_free_loop (Suc i) pt_ptr s = do {
     pt \<leftarrow> aget pt_ptr (int i);
     if pt = 0 then None
     else path_free_loop i pt_ptr (s\<lparr>fs_mm := kfree pt (kfree (pp_part (fs_parts s pt)) (fs_mm s))\<rparr>)
   }"

definition path_free :: "u32 \<Rightarrow> fs \<Rightarrow> (fs \<times> u32) option" where
  "path_free root s =
     (if root = 0 then None
      else
        (let (ps, pt) = path_collect OS_PATH_MAX_LENGTH (pr_first (fs_roots s root)) s;
             pt_ptr = ps @ replicate (OS_PATH_MAX_LENGTH - length ps) 0
         in if pt \<noteq> 0 then Some (s, word_of_int (- EBADPATH))
            else do {
              s \<leftarrow> path_free_loop (Suc (length ps)) pt_ptr s;
              Some (s\<lparr>fs_mm := kfree root (fs_mm s)\<rparr>, 0)
            }))"

partial_function (option) path_parse_loop :: "u32 \<Rightarrow> u8 list \<Rightarrow> fs \<Rightarrow> fs option" where
  "path_parse_loop part path s =
     (if part = 0 then Some s
      else do {
        (s, path, part) \<leftarrow> path_create_part part path s;
        path_parse_loop part path s
      })"

text \<open>The parameter \<^verbatim>\<open>current_dir_path\<close> is not used by the source.\<close>

definition path_parse :: "u8 list \<Rightarrow> fs \<Rightarrow> (fs \<times> u32) option" where
  "path_parse path_str s =
     (if length path_str > OS_PATH_MAX_LENGTH then Some (s, 0)
      else
        (let (tmp_p_ptr, drive_number) = path_get_drive_number_by_path path_str
         in if drive_number < 0 then Some (s, 0)
            else do {
              (s, path_root) \<leftarrow> path_create_root drive_number s;
              if path_root = 0 then Some (s, 0)
              else do {
                (s, tmp_p_ptr, part) \<leftarrow> path_create_part 0 tmp_p_ptr s;
                if part = 0 then Some (s, 0)
                else do {
                  let s = s\<lparr>fs_roots := (fs_roots s)(path_root := (fs_roots s path_root)\<lparr>pr_first := part\<rparr>)\<rparr>;
                  s \<leftarrow> path_parse_loop part tmp_p_ptr s;
                  Some (s, path_root)
                }
              }
            }))"

section \<open>Room in the heap\<close>

text \<open>\<open>n\<close> allocations of one page succeed one after the other; every object of the parser takes a page.\<close>

fun room :: "nat \<Rightarrow> heapdl \<Rightarrow> bool" where
  "room 0 hp \<longleftrightarrow> True"
| "room (Suc n) hp \<longleftrightarrow> (case k_heapdl_mm_malloc 4096 hp of None \<Rightarrow> False | Some (hp, p) \<Rightarrow> p \<noteq> 0 \<and> room n hp)"

lemma kzalloc_room:
  assumes "mm_rel m L" "room (Suc n) (mm_dl m)" "align_address_to_upper sz 4096 = 4096" "kmalloc_ok sz"
  obtains m' p k where "kzalloc sz m = Some (m', p)" "p \<noteq> 0" "p \<notin> fst ` L" "mm_rel m' (insert (p, k) L)" "room n (mm_dl m')"
proof -
  obtain hp p where r: "k_heapdl_mm_malloc 4096 (mm_dl m) = Some (hp, p)" "p \<noteq> 0" "room n hp"
    using assms(2) by (auto split: option.splits)
  then have a: "kmalloc sz m = Some (m\<lparr>mm_dl := hp\<rparr>, p)" by (simp add: kmalloc_eq assms(3))
  obtain k where "\<forall>i. (p, i) \<notin> L" "mm_rel (m\<lparr>mm_dl := hp\<rparr>) (insert (p, k) L)"
    using kmm.alloc_block [OF assms(1,4) a r(2)] by blast
  with a r that show thesis by (force simp: kzalloc_def mm_rel_def)
qed

text \<open>A heap with one free chunk and an exact count of its free bytes, as it is after initialisation.\<close>

lemma malloc_single:
  assumes r: "heap_rel hp mid [c]" and f: "hp_mem_free hp = hp_size hp c - 32" and big: "8256 \<le> unat (hp_size hp c)"
  shows "\<exists>hp' mid'. k_heapdl_mm_malloc 4096 hp = Some (hp', c + 32) \<and> c + 32 \<noteq> 0 \<and> heap_rel hp' mid' [c + 32 + 4096] \<and>
    hp_mem_free hp' = hp_size hp' (c + 32 + 4096) - 32 \<and> unat (hp_size hp' (c + 32 + 4096)) = unat (hp_size hp c) - 4128"
proof -
  let ?b = "c + 32 + 4096" and ?hp = "chunk_slice c 4096 hp"
  have "c \<in> set mid" using r by (auto simp: heap_rel_def)
  then obtain as bs where mid: "mid = as @ c # bs" by (auto simp: in_set_conv_decomp)
  have al: "16 dvd unat (4096 :: u32)" by simp
  have fit: "unat (4096 :: u32) + 64 \<le> unat (hp_size hp c)" using big by simp
  note r' = r [unfolded mid] and sz = chunk_slice_sizes [OF r [unfolded mid] refl fit]
  note sel = chunk_slice_sel [OF refl sz(4), of hp]
  have rel: "heap_rel ?hp (as @ c # ?b # bs) ([] @ c # ?b # [])" using chunk_slice_rel [of hp as c bs "[]" "[]", OF _ refl fit al] r' by simp
  have f1: "unat (hp_size hp c - 32) = unat (hp_size hp c) - 32" using big by (subst unat_sub_nowrap) auto
  have "\<not> hp_size hp c - 32 - 4096 < 4096" using sz(2) big by (simp add: word_less_nat_alt)
  moreover have "\<not> hp_mem_free hp < 4096" "hp_mem_free hp \<noteq> 0"
    using f1 big f by (auto simp: word_less_nat_alt unat_eq_zero [symmetric])
  moreover have "dl_next (hp_links hp (free_of (hp_first hp))) = free_of c"
  proof -
    have "dl_ring (hp_links hp) [free_of (hp_first hp), free_of c]" using r by (simp add: heap_rel_def dl.lists_def)
    then show ?thesis by (rule dl_ring_next)
  qed
  moreover have "c \<noteq> hp_first hp" using spaced_distinct [OF heap_rel_spaced [OF r]] mid by auto
  ultimately have "k_heapdl_mm_malloc 4096 hp = Some (chunk_engage c ?hp, c + 32)"
    using malloc_walk [OF r, of 4096] r fit
    by (simp add: k_heapdl_mm_malloc_def Let_def heap_rel_def chunk_calc_free_offset_def chunk_calc_actual_free_def OS_HEAP_BLOCK_SIZE_def)
  moreover have "heap_rel (chunk_engage c ?hp) (as @ c # ?b # bs) [?b]" using chunk_engage_rel [OF rel] by simp
  moreover have "hp_mem_free (chunk_engage c ?hp) = hp_size (chunk_engage c ?hp) ?b - 32"
    using sz(4) by (simp add: engage_sel sel(3,7) f)
  moreover have "unat (hp_size (chunk_engage c ?hp) ?b) = unat (hp_size hp c) - 4128" using sz(2,4) by (simp add: engage_sel sel(3))
  moreover have "c + 32 \<noteq> 0"
  proof -
    have "(c + 32, unat (hp_size ?hp c) - 32) \<in> live (chunk_engage c ?hp) (as @ c # ?b # bs)"
      using live_engage [OF rel] by simp
    from live_range(2) [OF calculation(2) this] show ?thesis by auto
  qed
  ultimately show ?thesis by blast
qed

lemma room_single:
  assumes "heap_rel hp mid [c]" "hp_mem_free hp = hp_size hp c - 32" "4128 * n + 4128 \<le> unat (hp_size hp c)"
  shows "room n hp"
  using assms
proof (induction n arbitrary: hp mid c)
  case (Suc n)
  then obtain hp' mid' where "k_heapdl_mm_malloc 4096 hp = Some (hp', c + 32)" "c + 32 \<noteq> 0" "heap_rel hp' mid' [c + 32 + 4096]"
    "hp_mem_free hp' = hp_size hp' (c + 32 + 4096) - 32" "unat (hp_size hp' (c + 32 + 4096)) = unat (hp_size hp c) - 4128"
    using malloc_single [of hp mid c] by auto
  then show ?case using Suc.IH [of hp' mid' "c + 32 + 4096"] Suc.prems(3) by simp
qed simp

lemma room_init:
  assumes "n < 20000"
  shows "\<exists>m. k_mm_init buf m0 = Some m \<and> mm_rel m {} \<and> room n (mm_dl m)"
proof -
  let ?a = "OS_HEAP_ADDRESS" and ?e = "OS_HEAP_ADDRESS + OS_HEAP_SIZE_BYTES"
  let ?hp = "k_heapdl_mm_init ?a ?e (mm_dl m0)"
  have al: "?a = align_address_to_upper ?a 4096" "?e - 32 = align_address_to_lower ?e 4096 - 32"
    by (simp_all add: align_address_to_upper_def align_address_to_lower_def OS_HEAP_ADDRESS_def OS_HEAP_SIZE_BYTES_def)
  have "heap_rel ?hp [?a + 32] [?a + 32]"
    by (rule k_heapdl_mm_init_rel(1) [OF al]) (simp_all add: align_address_to_lower_def OS_HEAP_ADDRESS_def OS_HEAP_SIZE_BYTES_def)
  moreover note heap_init_sel(3,7) [OF al, of "mm_dl m0"]
  ultimately have "room n ?hp" using assms
    by (intro room_single [of ?hp "[?a + 32]" "?a + 32"]) (simp_all add: OS_HEAP_ADDRESS_def OS_HEAP_SIZE_BYTES_def)
  moreover obtain m where "k_mm_init buf m0 = Some m" "mm_rel m {}" using k_mm_init_rel by blast
  ultimately show ?thesis by (auto simp: k_mm_init_def OS_HEAP_MM_ALT_def)
qed

section \<open>The parts of a path\<close>

definition slash :: u8 where "slash = 47"

text \<open>What the parser makes of a path behind the drive: a part is everything up to the next slash that is not its first byte.\<close>

function path_parts :: "u8 list \<Rightarrow> u8 list list" where
  "path_parts [] = []"
| "path_parts (c # path) = (c # takeWhile (\<lambda>c. c \<noteq> slash) path) # path_parts (drop 1 (dropWhile (\<lambda>c. c \<noteq> slash) path))"
  by pat_completeness auto
termination
  by (relation "measure length") (auto simp: less_Suc_eq_le intro: le_trans [OF diff_le_self length_dropWhile_le])

fun path_join :: "u8 list list \<Rightarrow> u8 list" where
  "path_join [] = []"
| "path_join [p] = p"
| "path_join (p # ps) = p @ slash # path_join ps"

definition part_name :: "u8 list \<Rightarrow> bool" where
  "part_name p \<longleftrightarrow> p \<noteq> [] \<and> slash \<notin> set p \<and> 0 \<notin> set p"

lemma path_parts_join: "\<forall>p\<in>set ps. part_name p \<Longrightarrow> path_parts (path_join ps) = ps"
proof (induction ps rule: path_join.induct)
  case (2 p)
  then obtain c q where "p = c # q" "slash \<notin> set q" by (cases p) (auto simp: part_name_def)
  moreover from this have w: "takeWhile (\<lambda>c. c \<noteq> slash) q = q" "dropWhile (\<lambda>c. c \<noteq> slash) q = []" by auto
  ultimately show ?case by (simp only: path_join.simps path_parts.simps w drop_Nil)
next
  case (3 p r ps)
  then obtain c q where "p = c # q" "slash \<notin> set q" by (cases p) (auto simp: part_name_def)
  moreover have "slash \<notin> set q \<Longrightarrow> takeWhile (\<lambda>c. c \<noteq> slash) (q @ slash # xs) = q"
    "slash \<notin> set q \<Longrightarrow> dropWhile (\<lambda>c. c \<noteq> slash) (q @ slash # xs) = slash # xs" for q xs
    by (induction q) auto
  ultimately show ?case using 3 by simp
qed simp

lemma path_join_bytes: "\<forall>p\<in>set ps. part_name p \<Longrightarrow> 0 \<notin> set (path_join ps)"
  by (induction ps rule: path_join.induct) (auto simp: part_name_def slash_def)

definition pad :: "u8 list \<Rightarrow> u8 list" where
  "pad x = x @ replicate (OS_PATH_MAX_LENGTH - length x) 0"

lemma buf_strnlen_pad:
  assumes "0 \<notin> set x" "length x \<le> OS_PATH_MAX_LENGTH"
  shows "buf_strnlen (pad x) OS_PATH_MAX_LENGTH = length x"
proof -
  have "takeWhile (\<lambda>c. c \<noteq> 0) (x @ replicate n 0) = x" for n using assms(1) by (cases n) (auto simp: takeWhile_append2 takeWhile_tail)
  then show ?thesis using assms(2) by (simp add: buf_strnlen_def pad_def)
qed

lemma pad_upd: "length x < OS_PATH_MAX_LENGTH \<Longrightarrow> (pad x)[length x := c] = pad (x @ [c])"
  by (simp add: pad_def list_update_append Suc_diff_Suc [symmetric])

lemma path_part_loop_pad:
  assumes "x \<noteq> []" "0 \<notin> set x" "0 \<notin> set path" "length x + length path \<le> OS_PATH_MAX_LENGTH" "n = OS_PATH_MAX_LENGTH - length x"
  shows "path_part_loop n (length x) path (pad x) =
    (drop 1 (dropWhile (\<lambda>c. c \<noteq> slash) path), pad (x @ takeWhile (\<lambda>c. c \<noteq> slash) path), slash \<in> set path)"
  using assms
proof (induction path arbitrary: x n)
  case Nil
  have "path_part_loop n (length x) [] (pad x) = ([], pad x, False)" by (cases n) simp_all
  then show ?case by simp
next
  case (Cons c path)
  then have n: "n = Suc (n - 1)" by simp
  have "buf_strnlen (pad x) OS_PATH_MAX_LENGTH = length x" using Cons.prems by (intro buf_strnlen_pad) auto
  then have "path_part_loop n (length x) (c # path) (pad x) =
    (if c = slash then (path, pad x, True) else path_part_loop (n - 1) (length (x @ [c])) path (pad (x @ [c])))"
    using Cons.prems pad_upd [of x c] by (subst n) (simp add: slash_def)
  then show ?case using Cons.IH [of "x @ [c]" "n - 1"] Cons.prems by (simp add: slash_def)
qed

lemma path_part_loop_first:
  assumes "0 \<notin> set (c # path)" "length (c # path) \<le> OS_PATH_MAX_LENGTH"
  shows "path_part_loop OS_PATH_MAX_LENGTH 0 (c # path) (replicate OS_PATH_MAX_LENGTH 0) =
    (drop 1 (dropWhile (\<lambda>c. c \<noteq> slash) path), pad (c # takeWhile (\<lambda>c. c \<noteq> slash) path), slash \<in> set path)"
proof -
  obtain n where n: "OS_PATH_MAX_LENGTH = Suc n" by (simp add: OS_PATH_MAX_LENGTH_def)
  have e: "replicate OS_PATH_MAX_LENGTH 0 = pad []" by (simp add: pad_def)
  have "path_part_loop (Suc n) 0 (c # path) (pad []) = path_part_loop n (length [c]) path (pad [c])"
    using buf_strnlen_pad [of "[]"] pad_upd [of "[]" c] by (simp add: n)
  also have "\<dots> = (drop 1 (dropWhile (\<lambda>c. c \<noteq> slash) path), pad ([c] @ takeWhile (\<lambda>c. c \<noteq> slash) path), slash \<in> set path)"
    using assms by (intro path_part_loop_pad) (auto simp: n)
  finally show ?thesis unfolding e by (simp only: n [symmetric] append_Cons append_Nil)
qed

section \<open>Parsing\<close>

text \<open>The heap has the blocks \<open>L\<close> in use and room for \<open>n\<close> more.\<close>

definition fs_ok :: "fs \<Rightarrow> (u32 \<times> nat) set \<Rightarrow> nat \<Rightarrow> bool" where
  "fs_ok s L n \<longleftrightarrow> mm_rel (fs_mm s) L \<and> room n (mm_dl (fs_mm s))"

lemma one_page:
  "align_address_to_upper sizeof_PATH_ROOT 4096 = 4096" "align_address_to_upper sizeof_PATH_PART 4096 = 4096"
  "align_address_to_upper (of_nat OS_PATH_MAX_LENGTH) 4096 = 4096"
  "kmalloc_ok sizeof_PATH_ROOT" "kmalloc_ok sizeof_PATH_PART" "kmalloc_ok (of_nat OS_PATH_MAX_LENGTH)"
  by (simp_all add: align_address_to_upper_def sizeof_PATH_ROOT_def sizeof_PATH_PART_def OS_PATH_MAX_LENGTH_def kmalloc_ok_def)

lemma kzalloc_fs:
  assumes "fs_ok s L (Suc n)" "align_address_to_upper sz 4096 = 4096" "kmalloc_ok sz"
  obtains m p k where "kzalloc sz (fs_mm s) = Some (m, p)" "p \<noteq> 0" "p \<notin> fst ` L" "fs_ok (s\<lparr>fs_mm := m\<rparr>) (insert (p, k) L) n"
proof -
  from assms(1) have "mm_rel (fs_mm s) L" "room (Suc n) (mm_dl (fs_mm s))" by (simp_all only: fs_ok_def)
  from kzalloc_room [OF this assms(2,3)] obtain m p k where "kzalloc sz (fs_mm s) = Some (m, p)" "p \<noteq> 0" "p \<notin> fst ` L"
    "mm_rel m (insert (p, k) L)" "room n (mm_dl m)" .
  then show thesis by (intro that [of m p k]) (simp_all add: fs_ok_def)
qed

lemma fs_ok_upd [simp]:
  "fs_ok (s\<lparr>fs_strs := a\<rparr>) L n = fs_ok s L n" "fs_ok (s\<lparr>fs_parts := b\<rparr>) L n = fs_ok s L n" "fs_ok (s\<lparr>fs_roots := c\<rparr>) L n = fs_ok s L n"
  by (simp_all add: fs_ok_def)

lemma path_get_path_part_end:
  assumes "fs_ok s L (Suc n)"
  shows "\<exists>m. path_get_path_part [] s = Some (s\<lparr>fs_mm := m\<rparr>, [], 0)"
proof -
  obtain m p k where m: "kzalloc (of_nat OS_PATH_MAX_LENGTH) (fs_mm s) = Some (m, p)" "p \<noteq> 0"
    using kzalloc_fs [OF assms one_page(3,6)] by metis
  have "path_part_loop n 0 [] b = ([], b, False)" for n b by (cases n) simp_all
  moreover have "buf_strnlen (replicate OS_PATH_MAX_LENGTH 0) OS_PATH_MAX_LENGTH = 0"
    by (simp add: buf_strnlen_def takeWhile_eq_Nil_iff)
  ultimately show ?thesis using m by (auto simp: path_get_path_part_def)
qed

lemma path_get_path_part_next:
  assumes "fs_ok s L (Suc n)" "0 \<notin> set (c # path)" "length (c # path) \<le> OS_PATH_MAX_LENGTH"
  obtains m p k where "path_get_path_part (c # path) s =
      Some (s\<lparr>fs_mm := m, fs_strs := (fs_strs s)(p := pad (c # takeWhile (\<lambda>c. c \<noteq> slash) path))\<rparr>, drop 1 (dropWhile (\<lambda>c. c \<noteq> slash) path), p)"
    "p \<noteq> 0" "p \<notin> fst ` L" "fs_ok (s\<lparr>fs_mm := m\<rparr>) (insert (p, k) L) n"
proof -
  obtain m p k where m: "kzalloc (of_nat OS_PATH_MAX_LENGTH) (fs_mm s) = Some (m, p)" "p \<noteq> 0" "p \<notin> fst ` L"
    "fs_ok (s\<lparr>fs_mm := m\<rparr>) (insert (p, k) L) n"
    using kzalloc_fs [OF assms(1) one_page(3,6)] .
  let ?x = "c # takeWhile (\<lambda>c. c \<noteq> slash) path"
  have "length (takeWhile (\<lambda>c. c \<noteq> slash) path) \<le> length path" by (rule length_takeWhile_le)
  then have "length ?x \<le> OS_PATH_MAX_LENGTH" using assms(3) by simp
  moreover have "0 \<notin> set ?x" using assms(2) by (auto dest: set_takeWhileD)
  ultimately have "buf_strnlen (pad ?x) OS_PATH_MAX_LENGTH = length ?x" by (intro buf_strnlen_pad)
  then show thesis
    using m path_part_loop_first [OF assms(2,3)] by (intro that [where m = m and p = p and k = k]) (simp_all add: path_get_path_part_def)
qed

lemma path_create_part_next:
  assumes "fs_ok s L (Suc (Suc n))" "0 \<notin> set (c # path)" "length (c # path) \<le> OS_PATH_MAX_LENGTH" "prev = 0 \<or> prev \<in> fst ` L"
  obtains m p q k l where "path_create_part prev (c # path) s =
      Some (s\<lparr>fs_mm := m, fs_strs := (fs_strs s)(p := pad (c # takeWhile (\<lambda>c. c \<noteq> slash) path)),
        fs_parts := (let ps = (fs_parts s)(q := \<lparr>pp_part = p, pp_next = 0\<rparr>) in if prev \<noteq> 0 then ps(prev := (fs_parts s prev)\<lparr>pp_next := q\<rparr>) else ps)\<rparr>,
        drop 1 (dropWhile (\<lambda>c. c \<noteq> slash) path), q)"
    "p \<noteq> 0" "q \<noteq> 0" "p \<notin> fst ` L" "q \<notin> fst ` L" "fs_ok (s\<lparr>fs_mm := m\<rparr>) (insert (q, l) (insert (p, k) L)) n"
proof -
  let ?x = "c # takeWhile (\<lambda>c. c \<noteq> slash) path"
  obtain m p k where m: "path_get_path_part (c # path) s =
      Some (s\<lparr>fs_mm := m, fs_strs := (fs_strs s)(p := pad ?x)\<rparr>, drop 1 (dropWhile (\<lambda>c. c \<noteq> slash) path), p)"
    "p \<noteq> 0" "p \<notin> fst ` L" "fs_ok (s\<lparr>fs_mm := m\<rparr>) (insert (p, k) L) (Suc n)"
    using path_get_path_part_next [OF assms(1-3)] .
  obtain m' q l where m': "kzalloc sizeof_PATH_PART (fs_mm (s\<lparr>fs_mm := m\<rparr>)) = Some (m', q)" "q \<noteq> 0" "q \<notin> fst ` insert (p, k) L"
    "fs_ok (s\<lparr>fs_mm := m\<rparr>\<lparr>fs_mm := m'\<rparr>) (insert (q, l) (insert (p, k) L)) n"
    using kzalloc_fs [OF m(4) one_page(2,5)] .
  have "prev \<noteq> q" if "prev \<noteq> 0" using that assms(4) m'(3) by auto
  then show thesis using m m' by (intro that [where m = m' and p = p and q = q and l = l and k = k]) (simp_all add: path_create_part_def Let_def)
qed

lemma path_create_part_end:
  assumes "fs_ok s L (Suc n)"
  shows "\<exists>m. path_create_part prev [] s = Some (s\<lparr>fs_mm := m\<rparr>, [], 0)"
  using path_get_path_part_end [OF assms] by (auto simp: path_create_part_def)

text \<open>The list of parts from an address on.\<close>

fun part_list :: "fs \<Rightarrow> u32 \<Rightarrow> u8 list list \<Rightarrow> bool" where
  "part_list s p [] \<longleftrightarrow> p = 0"
| "part_list s p (x # xs) \<longleftrightarrow>
     p \<noteq> 0 \<and> fs_strs s (pp_part (fs_parts s p)) = pad x \<and> part_list s (pp_next (fs_parts s p)) xs"

lemma rest_bytes: "set (drop 1 (dropWhile P xs)) \<subseteq> set xs" "length (drop 1 (dropWhile P xs)) \<le> length xs"
  using set_dropWhileD set_drop_subset [of 1 "dropWhile P xs"] length_dropWhile_le [of P xs] by (fastforce, simp)

lemma path_parse_loop_ok:
  assumes "fs_ok s L (2 * length (path_parts path) + 1)" "0 \<notin> set path" "length path \<le> OS_PATH_MAX_LENGTH"
    and "part \<noteq> 0" "part \<in> fst ` L" "pp_next (fs_parts s part) = 0"
  shows "\<exists>s'. path_parse_loop part path s = Some s' \<and> part_list s' (pp_next (fs_parts s' part)) (path_parts path) \<and>
    pp_part (fs_parts s' part) = pp_part (fs_parts s part) \<and> (\<forall>a\<in>fst ` L. fs_strs s' a = fs_strs s a) \<and>
    (\<forall>a\<in>fst ` L. a \<noteq> part \<longrightarrow> fs_parts s' a = fs_parts s a) \<and> fs_roots s' = fs_roots s"
  using assms
proof (induction path arbitrary: s L part rule: path_parts.induct)
  case 1
  obtain m where "path_create_part part [] s = Some (s\<lparr>fs_mm := m\<rparr>, [], 0)"
    using path_create_part_end [of s L 0 part] 1(1) by auto
  moreover have "path_parse_loop 0 [] t = Some t" for t by (simp add: path_parse_loop.simps)
  ultimately show ?case using 1 by (subst path_parse_loop.simps) simp
next
  case (2 c path)
  let ?x = "c # takeWhile (\<lambda>c. c \<noteq> slash) path" and ?r = "drop 1 (dropWhile (\<lambda>c. c \<noteq> slash) path)"
  have "fs_ok s L (Suc (Suc (2 * length (path_parts ?r) + 1)))" using 2(2) by simp
  then obtain m p q k l where st: "path_create_part part (c # path) s =
      Some (s\<lparr>fs_mm := m, fs_strs := (fs_strs s)(p := pad ?x),
        fs_parts := (let ps = (fs_parts s)(q := \<lparr>pp_part = p, pp_next = 0\<rparr>) in if part \<noteq> 0 then ps(part := (fs_parts s part)\<lparr>pp_next := q\<rparr>) else ps)\<rparr>, ?r, q)"
    and new: "p \<noteq> 0" "q \<noteq> 0" "p \<notin> fst ` L" "q \<notin> fst ` L" and ok: "fs_ok (s\<lparr>fs_mm := m\<rparr>) (insert (q, l) (insert (p, k) L)) (2 * length (path_parts ?r) + 1)"
    using 2(3,4,6) by (metis path_create_part_next)
  define t where "t = s\<lparr>fs_mm := m, fs_strs := (fs_strs s)(p := pad ?x), fs_parts := (fs_parts s)(q := \<lparr>pp_part = p, pp_next = 0\<rparr>, part := (fs_parts s part)\<lparr>pp_next := q\<rparr>)\<rparr>"
  let ?L = "insert (q, l) (insert (p, k) L)"
  have ne: "q \<noteq> part" using new 2(6) by auto
  have "path_parse_loop part (c # path) s = path_parse_loop q ?r t"
    using st 2(5) by (subst path_parse_loop.simps) (simp add: t_def)
  moreover have "fs_ok t ?L (2 * length (path_parts ?r) + 1)" using ok by (simp add: t_def)
  moreover have "0 \<notin> set ?r" "length ?r \<le> OS_PATH_MAX_LENGTH" using 2(3,4) rest_bytes [of "\<lambda>c. c \<noteq> slash" path] by auto
  ultimately obtain s' where s': "path_parse_loop part (c # path) s = Some s'" "part_list s' (pp_next (fs_parts s' q)) (path_parts ?r)"
    "pp_part (fs_parts s' q) = p" "\<forall>a\<in>fst ` ?L. fs_strs s' a = fs_strs t a" "\<forall>a\<in>fst ` ?L. a \<noteq> q \<longrightarrow> fs_parts s' a = fs_parts t a"
    "fs_roots s' = fs_roots t"
    using 2(1) [of t ?L q] new ne by (auto simp: t_def)
  have pt: "fs_parts s' part = (fs_parts s part)\<lparr>pp_next := q\<rparr>" using s'(5) 2(6) ne by (auto simp: t_def)
  have "fs_strs s' p = pad ?x" using s'(4) by (simp add: t_def)
  then have "part_list s' (pp_next (fs_parts s' part)) (path_parts (c # path))" using pt s'(2,3) new by simp
  moreover have "\<forall>a\<in>fst ` L. fs_strs s' a = fs_strs s a" using s'(4) new(3) by (auto simp: t_def)
  moreover have "\<forall>a\<in>fst ` L. a \<noteq> part \<longrightarrow> fs_parts s' a = fs_parts s a"
  proof (intro ballI impI)
    fix a assume a: "a \<in> fst ` L" "a \<noteq> part"
    then have "a \<noteq> q" using new(4) by auto
    then show "fs_parts s' a = fs_parts s a" using s'(5) [rule_format, of a] a by (simp add: t_def)
  qed
  ultimately show ?case using s' pt by (auto simp: t_def)
qed

lemma digit_facts: "is_digit d \<Longrightarrow> d \<noteq> 0 \<and> 0 \<le> to_digit d"
  by (auto simp: is_digit_def to_digit_def)

text \<open>
  C17: Parsing undoes joining. For a drive digit and a list of names (not empty, without slash and zero
  byte) whose path fits into \<^verbatim>\<open>OS_PATH_MAX_LENGTH\<close>, and a heap with room for two blocks per name and two more, \<^verbatim>\<open>path_parse\<close>
  returns a root with the number of the drive and the list of exactly these names.
\<close>

theorem path_parse_correct:
  assumes "fs_ok s L (2 * length ps + 2)" "is_digit d" "ps \<noteq> []" "\<forall>p\<in>set ps. part_name p"
    and "length (path_join ps) + 3 \<le> OS_PATH_MAX_LENGTH"
  shows "\<exists>s' r. path_parse (d # 58 # slash # path_join ps) s = Some (s', r) \<and> r \<noteq> 0 \<and>
    pr_drive_no (fs_roots s' r) = to_digit d \<and> part_list s' (pr_first (fs_roots s' r)) ps"
proof -
  let ?path = "path_join ps"
  have parts: "path_parts ?path = ps" and zero: "0 \<notin> set ?path" by (rule path_parts_join path_join_bytes, rule assms(4))+
  have "buf_strnlen (d # 58 # slash # ?path) OS_PATH_MAX_LENGTH = min OS_PATH_MAX_LENGTH (length (d # 58 # slash # ?path))"
    using digit_facts [OF assms(2)] zero assms(5) unfolding buf_strnlen_def by (subst takeWhile_eq_all_conv [THEN iffD2]) (auto simp: slash_def dest: in_set_takeD)
  then have drv: "path_get_drive_number_by_path (d # 58 # slash # ?path) = (?path, to_digit d)"
    using assms(2,5) by (simp add: path_get_drive_number_by_path_def path_valid_format_def slash_def)
  have "fs_ok s L (Suc (2 * length ps + 1))" using assms(1) by simp
  from kzalloc_fs [OF this one_page(1,4)] obtain m r k where r: "kzalloc sizeof_PATH_ROOT (fs_mm s) = Some (m, r)" "r \<noteq> 0" "r \<notin> fst ` L"
    "fs_ok (s\<lparr>fs_mm := m\<rparr>) (insert (r, k) L) (2 * length ps + 1)" .
  define s1 where "s1 = s\<lparr>fs_mm := m, fs_roots := (fs_roots s)(r := \<lparr>pr_drive_no = to_digit d, pr_first = 0\<rparr>)\<rparr>"
  have "?path \<noteq> []" using parts assms(3) by auto
  then obtain c rest where path: "?path = c # rest" by (cases ?path) auto
  let ?r = "drop 1 (dropWhile (\<lambda>c. c \<noteq> slash) rest)" and ?x = "c # takeWhile (\<lambda>c. c \<noteq> slash) rest"
  have ps: "ps = ?x # path_parts ?r" using parts path by simp
  have "fs_ok s1 (insert (r, k) L) (Suc (Suc (2 * length (path_parts ?r) + 1)))" using r(4) ps by (simp add: s1_def)
  moreover have "0 \<notin> set (c # rest)" "length (c # rest) \<le> OS_PATH_MAX_LENGTH" using zero assms(5) path by auto
  ultimately obtain m' p q k' l where cp: "path_create_part 0 (c # rest) s1 = Some (s1\<lparr>fs_mm := m', fs_strs := (fs_strs s1)(p := pad ?x),
        fs_parts := (let ps = (fs_parts s1)(q := \<lparr>pp_part = p, pp_next = 0\<rparr>) in if (0 :: u32) \<noteq> 0 then ps(0 := (fs_parts s1 0)\<lparr>pp_next := q\<rparr>) else ps)\<rparr>, ?r, q)"
    and new: "p \<noteq> 0" "q \<noteq> 0" "p \<notin> fst ` insert (r, k) L" "q \<notin> fst ` insert (r, k) L"
      "fs_ok (s1\<lparr>fs_mm := m'\<rparr>) (insert (q, l) (insert (p, k') (insert (r, k) L))) (2 * length (path_parts ?r) + 1)"
    by (rule path_create_part_next [where prev = 0, OF _ _ _ disjI1 [OF refl]])
  define t where "t = s1\<lparr>fs_mm := m', fs_strs := (fs_strs s1)(p := pad ?x), fs_parts := (fs_parts s1)(q := \<lparr>pp_part = p, pp_next = 0\<rparr>),
    fs_roots := (fs_roots s1)(r := (fs_roots s1 r)\<lparr>pr_first := q\<rparr>)\<rparr>"
  let ?L = "insert (q, l) (insert (p, k') (insert (r, k) L))"
  have "fs_ok t ?L (2 * length (path_parts ?r) + 1)" using new(5) by (simp add: t_def)
  moreover have "0 \<notin> set ?r" "length ?r \<le> OS_PATH_MAX_LENGTH" using zero assms(5) path rest_bytes [of "\<lambda>c. c \<noteq> slash" rest] by auto
  ultimately obtain s' where s': "path_parse_loop q ?r t = Some s'" "part_list s' (pp_next (fs_parts s' q)) (path_parts ?r)"
    "pp_part (fs_parts s' q) = p" "fs_strs s' p = pad ?x" "fs_roots s' = fs_roots t"
    using path_parse_loop_ok [of t ?L ?r q] new by (auto simp: t_def)
  have "path_parse (d # 58 # slash # ?path) s = Some (s', r)"
    using assms(5) drv digit_facts [OF assms(2)] r(1,2) cp new(2) s'(1)
    by (simp add: path_parse_def path_create_root_def s1_def [symmetric] t_def path)
  moreover have "part_list s' q ps" unfolding ps using s' new by simp
  ultimately show ?thesis using s'(5) r(2) by (auto simp: t_def s1_def)
qed

text \<open>The example: the path ``0:/opt/bin'' on a freshly initialised heap.\<close>

lemma path_parse_correct_witness:
  "\<exists>m s' r. k_mm_init [] \<lparr>mm_dl = heap4, mm_tab = heap_small [], mm_mem = (\<lambda>_. 7)\<rparr> = Some m \<and>
    path_parse [48, 58, 47, 111, 112, 116, 47, 98, 105, 110]
      \<lparr>fs_mm = m, fs_strs = (\<lambda>_. []), fs_parts = (\<lambda>_. \<lparr>pp_part = 0, pp_next = 0\<rparr>), fs_roots = (\<lambda>_. \<lparr>pr_drive_no = 0, pr_first = 0\<rparr>)\<rparr> = Some (s', r) \<and>
    r \<noteq> 0 \<and> pr_drive_no (fs_roots s' r) = 0 \<and> part_list s' (pr_first (fs_roots s' r)) [[111, 112, 116], [98, 105, 110]]"
proof -
  obtain m where m: "k_mm_init [] \<lparr>mm_dl = heap4, mm_tab = heap_small [], mm_mem = (\<lambda>_. 7)\<rparr> = Some m" "mm_rel m {}" "room 6 (mm_dl m)"
    using room_init [of 6] by auto
  let ?s = "\<lparr>fs_mm = m, fs_strs = (\<lambda>_. []), fs_parts = (\<lambda>_. \<lparr>pp_part = 0, pp_next = 0\<rparr>), fs_roots = (\<lambda>_. \<lparr>pr_drive_no = 0, pr_first = 0\<rparr>)\<rparr>"
  have "fs_ok ?s {} (2 * length [[111, 112, 116], [98, 105, 110 :: u8]] + 2)" using m by (simp add: fs_ok_def)
  from path_parse_correct [OF this, of 48] m(1) show ?thesis
    by (simp add: is_digit_def to_digit_def part_name_def slash_def OS_PATH_MAX_LENGTH_def)
qed

text \<open>With more slashes than one in a row the slashes become part of the names.\<close>

lemma path_parts_slashes: "path_parts [47, 47, 47, 102, 47, 98] = [[47], [47, 102], [98]]"
  by (simp add: slash_def)

lemma path_collect_list:
  assumes "part_list s p xs" "length xs < n"
  shows "\<exists>ps. path_collect n p s = (ps, 0) \<and> length ps = length xs"
  using assms
proof (induction xs arbitrary: p n)
  case Nil
  then show ?case by (cases n) auto
next
  case (Cons x xs)
  then obtain n' where n: "n = Suc n'" by (cases n) auto
  obtain ps where "path_collect n' (pp_next (fs_parts s p)) s = (ps, 0)" "length ps = length xs"
    using Cons.IH [of "pp_next (fs_parts s p)" n'] Cons.prems n by auto
  then show ?case using n Cons.prems by simp
qed

text \<open>
  C40: \<^verbatim>\<open>path_free\<close> of a root with fewer than \<^verbatim>\<open>OS_PATH_MAX_LENGTH\<close> parts always follows a null pointer: its second loop
  starts at the index behind the last part, where the array of pointers holds \<^verbatim>\<open>NULL\<close>.
\<close>

theorem path_free_null:
  assumes "root \<noteq> 0" "part_list s (pr_first (fs_roots s root)) xs" "length xs < OS_PATH_MAX_LENGTH"
  shows "path_free root s = None"
proof -
  obtain ps where "path_collect OS_PATH_MAX_LENGTH (pr_first (fs_roots s root)) s = (ps, 0)" "length ps = length xs"
    using path_collect_list [OF assms(2,3)] by blast
  moreover from this assms(3) have "aget (ps @ replicate (OS_PATH_MAX_LENGTH - length ps) 0) (int (length ps)) = Some 0"
    by (simp add: aget_in nth_append)
  ultimately show ?thesis using assms(1) by (simp add: path_free_def)
qed

lemma path_free_null_witness:
  "path_free 1 \<lparr>fs_mm = \<lparr>mm_dl = heap4, mm_tab = heap_small [], mm_mem = (\<lambda>_. 7)\<rparr>, fs_strs = (\<lambda>_. pad [98]),
     fs_parts = (\<lambda>_. \<lparr>pp_part = 2, pp_next = 0\<rparr>), fs_roots = (\<lambda>_. \<lparr>pr_drive_no = 0, pr_first = 3\<rparr>)\<rparr> = None"
  by (rule path_free_null [of _ _ "[[98]]"]) (simp_all add: OS_PATH_MAX_LENGTH_def)

end
