(* ===== verification/Fifo.thy ===== *)
theory Fifo
  imports Prelude
begin

text \<open>
  The ring buffer of \<^verbatim>\<open>src/src/util/fifo.{h,c}\<close> that carries every event of the kernel (keyboard,
  mouse, timers). A \<^verbatim>\<open>FIFO32 *\<close> is \<open>FIFO32 option\<close>; the array behind \<^verbatim>\<open>buf\<close> is the
  list inside \<open>fifo_buf\<close>. The theory proves that a well-formed buffer refines a bounded
  queue: the locale \<open>bounded_queue\<close> states that contract, its interpretation discharges it.
\<close>

record FIFO32 =
  fifo_buf :: "int list option"
  fifo_buflen :: int
  fifo_free :: int
  fifo_next_r :: int
  fifo_next_w :: int
  fifo_flags :: int

section \<open>Operations\<close>

definition fifo32_init :: "FIFO32 option \<Rightarrow> int list option \<Rightarrow> int \<Rightarrow> FIFO32 option" where
  "fifo32_init fifo buf buflen =
     (case fifo of None \<Rightarrow> None
      | Some f \<Rightarrow>
          (case buf of None \<Rightarrow> Some f
           | Some b \<Rightarrow> Some (f\<lparr>fifo_buflen := buflen, fifo_buf := Some b, fifo_free := buflen,
                             fifo_flags := 0, fifo_next_w := 0, fifo_next_r := 0\<rparr>)))"

definition fifo32_enqueue :: "FIFO32 option \<Rightarrow> int \<Rightarrow> (FIFO32 option \<times> int) option" where
  "fifo32_enqueue fifo data =
     (case fifo of None \<Rightarrow> Some (None, - EIO)
      | Some f \<Rightarrow>
          (case fifo_buf f of None \<Rightarrow> Some (Some f, - EIO)
           | Some b \<Rightarrow>
               if fifo_free f = 0 then Some (Some f, - EIO)
               else do {
                 b' \<leftarrow> aset b (fifo_next_w f) data;
                 let w = i32 (fifo_next_w f + 1);
                 let w' = (if w = fifo_buflen f then 0 else w);
                 Some (Some (f\<lparr>fifo_buf := Some b', fifo_next_w := w',
                               fifo_free := i32 (fifo_free f - 1)\<rparr>), 0)
               }))"

definition fifo32_dequeue :: "FIFO32 option \<Rightarrow> (FIFO32 option \<times> int) option" where
  "fifo32_dequeue fifo =
     (case fifo of None \<Rightarrow> Some (None, - EIO)
      | Some f \<Rightarrow>
          if fifo_free f = fifo_buflen f then Some (Some f, - EIO)
          else do {
            b \<leftarrow> fifo_buf f;
            data \<leftarrow> aget b (fifo_next_r f);
            let r = i32 (fifo_next_r f + 1);
            let r' = (if r = fifo_buflen f then 0 else r);
            Some (Some (f\<lparr>fifo_next_r := r', fifo_free := i32 (fifo_free f + 1)\<rparr>), data)
          })"

definition fifo32_peek :: "FIFO32 option \<Rightarrow> int option" where
  "fifo32_peek fifo =
     do {
       f \<leftarrow> fifo;
       if fifo_free f = fifo_buflen f then Some (- EIO)
       else do {
         b \<leftarrow> fifo_buf f;
         aget b (fifo_next_r f)
       }
     }"

definition fifo32_status_getUsageB :: "FIFO32 option \<Rightarrow> int" where
  "fifo32_status_getUsageB fifo =
     (case fifo of None \<Rightarrow> - EIO | Some f \<Rightarrow> i32 (fifo_buflen f - fifo_free f))"

section \<open>The built-in self test\<close>

text \<open>
  The loops of \<^verbatim>\<open>test_fifo32\<close>; the inner \<open>None\<close> is the early \<^verbatim>\<open>return false\<close>. Loop counters run
  over the values of the \<^verbatim>\<open>uint8_t\<close> variable \<open>i\<close>; \<open>val\<close> is the enqueued value, \<open>exp\<close> the
  expected usage (no check for the one loop that has none).
\<close>

fun test_enq :: "(int \<Rightarrow> int) \<Rightarrow> (int \<Rightarrow> int option) \<Rightarrow> int list \<Rightarrow> FIFO32 \<Rightarrow> FIFO32 option option" where
  "test_enq val exp [] f = Some (Some f)"
| "test_enq val exp (i # is) f =
     do {
       (f', _) \<leftarrow> fifo32_enqueue (Some f) (val i);
       f'' \<leftarrow> f';
       (case exp i of None \<Rightarrow> test_enq val exp is f''
        | Some n \<Rightarrow> if fifo32_status_getUsageB (Some f'') \<noteq> n then Some None
                    else test_enq val exp is f'')
     }"

fun test_deq :: "(int \<Rightarrow> int option) \<Rightarrow> (int \<Rightarrow> int option) \<Rightarrow> (int \<Rightarrow> int option) \<Rightarrow> int list \<Rightarrow> FIFO32 \<Rightarrow>
    FIFO32 option option" where
  "test_deq pk val exp [] f = Some (Some f)"
| "test_deq pk val exp (i # is) f =
     do {
       dp \<leftarrow> (case pk i of None \<Rightarrow> Some 0 | Some _ \<Rightarrow> fifo32_peek (Some f));
       (f', d) \<leftarrow> fifo32_dequeue (Some f);
       f'' \<leftarrow> f';
       (if (case pk i of None \<Rightarrow> False | Some p \<Rightarrow> dp mod 256 \<noteq> p) then Some None
        else if (case val i of None \<Rightarrow> False | Some v \<Rightarrow> (if pk i = None then d else d mod 256) \<noteq> v)
          then Some None
        else if (case exp i of None \<Rightarrow> False | Some n \<Rightarrow> fifo32_status_getUsageB (Some f'') \<noteq> n)
          then Some None
        else test_deq pk val exp is f'')
     }"

definition and_then :: "'a option option \<Rightarrow> ('a \<Rightarrow> 'b option option) \<Rightarrow> 'b option option" where
  "and_then x k = do { y \<leftarrow> x; (case y of None \<Rightarrow> Some None | Some z \<Rightarrow> k z) }"

definition test_fifo32 :: "bool option" where
  "test_fifo32 =
     do {
       f0 \<leftarrow> fifo32_init
             (Some \<lparr>fifo_buf = None, fifo_buflen = 0, fifo_free = 0, fifo_next_r = 0,
                    fifo_next_w = 0, fifo_flags = 0\<rparr>)
             (Some (replicate 8 0)) 8;
       r \<leftarrow> and_then (test_enq (\<lambda>i. i) (\<lambda>i. Some (i - 0x40 + 1)) [0x40..0x47] f0) (\<lambda>f.
           and_then (test_deq Some Some (\<lambda>i. Some (0x48 - i - 1)) [0x40..0x47] f) (\<lambda>f.
           and_then (test_enq (\<lambda>i. 0) (\<lambda>i. Some (i - 0x40 + 1)) [0x40..0x47] f) (\<lambda>f.
           and_then (test_deq (\<lambda>_. None) (\<lambda>_. Some 0) (\<lambda>i. Some (0x48 - i - 1)) [0x40..0x47] f) (\<lambda>f.
           and_then (test_enq (\<lambda>i. i) (\<lambda>_. None) [0x40..0x43] f) (\<lambda>f.
           and_then (test_deq (\<lambda>_. None) (\<lambda>_. None) (\<lambda>_. None) [0x40..0x42] f) (\<lambda>f.
           and_then (test_enq (\<lambda>i. i) (\<lambda>i. Some (i - 0x43 + 1)) [0x44..0x4a] f) (\<lambda>f.
           test_deq Some Some (\<lambda>_. None) [0x43..0x4a] f)))))));
       Some (r \<noteq> None)
     }"

section \<open>Well-formed buffers and the queue they hold\<close>

definition fifo_wf :: "FIFO32 \<Rightarrow> bool" where
  "fifo_wf f \<longleftrightarrow>
     (case fifo_buf f of None \<Rightarrow> False
      | Some b \<Rightarrow>
          0 < fifo_buflen f \<and> fifo_buflen f = int (length b) \<and> fifo_buflen f < 2147483648 \<and>
          0 \<le> fifo_free f \<and> fifo_free f \<le> fifo_buflen f \<and>
          0 \<le> fifo_next_r f \<and> fifo_next_r f < fifo_buflen f \<and>
          fifo_next_w f = (fifo_next_r f + (fifo_buflen f - fifo_free f)) mod fifo_buflen f)"

definition fifo_used :: "FIFO32 \<Rightarrow> nat" where
  "fifo_used f = nat (fifo_buflen f - fifo_free f)"

definition fifo_contents :: "FIFO32 \<Rightarrow> int list" where
  "fifo_contents f =
     map (\<lambda>k. the (fifo_buf f) ! ((nat (fifo_next_r f) + k) mod nat (fifo_buflen f))) [0..<fifo_used f]"

lemma length_fifo_contents [simp]: "length (fifo_contents f) = fifo_used f"
  by (simp add: fifo_contents_def)

lemma fifo_wfE:
  assumes "fifo_wf f"
  obtains b n r u where "fifo_buf f = Some b" "length b = n" "0 < n" "fifo_buflen f = int n"
    "int n < 2147483648" "fifo_next_r f = int r" "r < n" "fifo_free f = int n - int u" "u \<le> n"
    "fifo_next_w f = int ((r + u) mod n)" "fifo_used f = u"
proof -
  from assms obtain b where b: "fifo_buf f = Some b" by (auto simp: fifo_wf_def split: option.splits)
  let ?n = "length b" and ?r = "nat (fifo_next_r f)" and ?u = "nat (fifo_buflen f - fifo_free f)"
  have "fifo_next_w f = int ((?r + ?u) mod ?n)"
    using assms b by (simp add: fifo_wf_def zmod_int)
  moreover have "0 < ?n" "fifo_buflen f = int ?n" "?r < ?n" "fifo_free f = int ?n - int ?u"
    "?u \<le> ?n" "fifo_next_r f = int ?r" "int ?n < 2147483648" using assms b by (auto simp: fifo_wf_def)
  ultimately show thesis using that [of b ?n ?r ?u] b by (simp add: fifo_used_def)
qed

lemma wrap_step:
  fixes w n :: nat
  shows "w < n \<Longrightarrow> (if int w + 1 = int n then 0 else int w + 1) = int (Suc w mod n)"
  by (auto simp: mod_Suc)

lemma mod_add_neq:
  fixes r k u n :: nat
  assumes "k < u" "u \<le> n" "u - k < n"
  shows "(r + k) mod n \<noteq> (r + u) mod n"
proof
  assume "(r + k) mod n = (r + u) mod n"
  then have "n dvd (r + u) - (r + k)" using assms by (intro mod_eq_dvd_iff_nat [THEN iffD1]) auto
  then have "n dvd u - k" by simp
  then show False using assms by (auto dest: dvd_imp_le)
qed

lemma fifo_enqueue_ok:
  assumes wf: "fifo_wf f" and space: "fifo_used f < nat (fifo_buflen f)"
  shows "\<exists>f'. fifo32_enqueue (Some f) x = Some (Some f', 0) \<and> fifo_wf f' \<and>
     fifo_contents f' = fifo_contents f @ [x] \<and> fifo_buflen f' = fifo_buflen f"
proof -
  obtain b n r u where f: "fifo_buf f = Some b" "length b = n" "0 < n" "fifo_buflen f = int n"
    "int n < 2147483648" "fifo_next_r f = int r" "r < n" "fifo_free f = int n - int u" "u \<le> n"
    "fifo_next_w f = int ((r + u) mod n)" "fifo_used f = u"
    using fifo_wfE [OF wf] by metis
  let ?w = "(r + u) mod n"
  let ?f = "f\<lparr>fifo_buf := Some (b[?w := x]), fifo_next_w := int (Suc ?w mod n),
      fifo_free := int n - int u - 1\<rparr>"
  have un: "u < n" using space f by simp
  have wn: "?w < n" using f by simp
  have i: "i32 (int ?w + 1) = int ?w + 1" using wn f(5) by (intro i32_eq) linarith+
  have enq: "fifo32_enqueue (Some f) x = Some (Some ?f, 0)"
    using f un wn wrap_step [OF wn]
    by (simp add: fifo32_enqueue_def arr_simps i32_eq i Let_def)
  have "int (Suc ?w mod n) = (int r + (int n - (int n - int u - 1))) mod int n"
    by (simp add: zmod_int mod_simps ac_simps)
  then have wf': "fifo_wf ?f" using f un by (simp add: fifo_wf_def)
  have used: "fifo_used ?f = Suc u" using f un by (simp add: fifo_used_def)
  have neq: "k \<in> set [0..<u] \<Longrightarrow> ?w \<noteq> (r + k) mod n" for k
    using mod_add_neq [of k u n r] un by (auto simp: less_imp_diff_less)
  have "fifo_contents ?f = map (\<lambda>k. b[?w := x] ! ((r + k) mod n)) [0..<Suc u]"
    using f used by (simp add: fifo_contents_def del: upt_Suc)
  also have "\<dots> = map (\<lambda>k. b ! ((r + k) mod n)) [0..<u] @ [x]"
    using f(2) wn neq by (simp add: nth_list_update cong: map_cong)
  also have "\<dots> = fifo_contents f @ [x]" using f by (simp add: fifo_contents_def)
  finally show ?thesis using enq wf' f(4) by (intro exI [of _ ?f]) simp
qed

lemma fifo_enqueue_full:
  assumes "fifo_wf f" "fifo_used f = nat (fifo_buflen f)"
  shows "fifo32_enqueue (Some f) x = Some (Some f, - EIO)"
proof -
  have "fifo_free f = 0" using assms by (auto simp: fifo_wf_def fifo_used_def split: option.splits)
  then show ?thesis by (auto simp: fifo32_enqueue_def split: option.splits)
qed

lemma fifo_contents_Cons:
  assumes "fifo_wf f" "fifo_contents f = x # xs"
  shows "\<exists>f'. fifo32_dequeue (Some f) = Some (Some f', x) \<and> fifo32_peek (Some f) = Some x \<and> fifo_wf f' \<and>
     fifo_contents f' = xs \<and> fifo_buflen f' = fifo_buflen f"
proof -
  obtain b n r u where f: "fifo_buf f = Some b" "length b = n" "0 < n" "fifo_buflen f = int n"
    "int n < 2147483648" "fifo_next_r f = int r" "r < n" "fifo_free f = int n - int u" "u \<le> n"
    "fifo_next_w f = int ((r + u) mod n)" "fifo_used f = u"
    using fifo_wfE [OF assms(1)] by metis
  have "u \<noteq> 0" using assms(2) f(11) length_fifo_contents [of f] by (metis list.size(3) neq_Nil_conv length_0_conv)
  then obtain v where v: "u = Suc v" by (cases u) auto
  have c: "fifo_contents f = map (\<lambda>k. b ! ((r + k) mod n)) [0..<u]"
    using f by (simp add: fifo_contents_def)
  have c': "fifo_contents f = b ! r # map (\<lambda>k. b ! ((r + Suc k) mod n)) [0..<v]"
    unfolding c v upt_conv_Cons [OF zero_less_Suc] map_Suc_upt [symmetric] using f by simp
  let ?f = "f\<lparr>fifo_next_r := int (Suc r mod n), fifo_free := int n - int v\<rparr>"
  have deq: "fifo32_dequeue (Some f) = Some (Some ?f, b ! r)"
    using f v wrap_step [OF f(7)] by (simp add: fifo32_dequeue_def arr_simps i32_eq Let_def)
  have pk: "fifo32_peek (Some f) = Some (b ! r)"
    using f v by (simp add: fifo32_peek_def arr_simps)
  have "int ((r + u) mod n) = (int (Suc r mod n) + (int n - (int n - int v))) mod int n"
    by (simp add: v zmod_int mod_simps ac_simps)
  then have wf': "fifo_wf ?f" using f v by (simp add: fifo_wf_def)
  have "fifo_used ?f = v" using f by (simp add: fifo_used_def)
  then have "fifo_contents ?f = map (\<lambda>k. b ! ((r + Suc k) mod n)) [0..<v]"
    using f by (simp add: fifo_contents_def nat_int_add mod_simps)
  then show ?thesis using deq pk wf' c' assms(2) f(4) by (intro exI [of _ ?f]) simp
qed

lemma fifo_contents_Nil:
  assumes "fifo_wf f" "fifo_contents f = []"
  shows "fifo32_dequeue (Some f) = Some (Some f, - EIO)" "fifo32_peek (Some f) = Some (- EIO)"
proof -
  have "fifo_used f = 0" using assms(2) by (metis length_0_conv length_fifo_contents)
  then have "fifo_free f = fifo_buflen f"
    using assms(1) by (auto simp: fifo_wf_def fifo_used_def split: option.splits)
  then show "fifo32_dequeue (Some f) = Some (Some f, - EIO)" "fifo32_peek (Some f) = Some (- EIO)"
    by (simp_all add: fifo32_dequeue_def fifo32_peek_def)
qed

lemma fifo_init_wf:
  assumes "b \<noteq> []" "int (length b) < 2147483648"
  shows "\<exists>f. fifo32_init (Some f0) (Some b) (int (length b)) = Some f \<and> fifo_wf f \<and>
    fifo_contents f = [] \<and> fifo_buflen f = int (length b)"
  using assms by (auto simp: fifo32_init_def fifo_wf_def fifo_contents_def fifo_used_def)

lemma fifo_used_le: "fifo_wf f \<Longrightarrow> fifo_used f \<le> nat (fifo_buflen f)"
  by (auto simp: fifo_wf_def fifo_used_def split: option.splits)

section \<open>The contract: a bounded queue\<close>

text \<open>Elements of any type; \<open>ok\<close> and \<open>full\<close> are the results of an insertion. Taking from an empty queue changes nothing.\<close>

fun enq_all :: "('q \<Rightarrow> 'a \<Rightarrow> ('q \<times> 'e) option) \<Rightarrow> 'q \<Rightarrow> 'a list \<Rightarrow> 'q option" where
  "enq_all enq q [] = Some q"
| "enq_all enq q (x # xs) = do { (q', _) \<leftarrow> enq q x; enq_all enq q' xs }"

fun deq_n :: "('q \<Rightarrow> ('q \<times> 'a) option) \<Rightarrow> nat \<Rightarrow> 'q \<Rightarrow> ('q \<times> 'a list) option" where
  "deq_n deq 0 q = Some (q, [])"
| "deq_n deq (Suc n) q = do { (q', x) \<leftarrow> deq q; (q'', xs) \<leftarrow> deq_n deq n q'; Some (q'', x # xs) }"

locale bounded_queue =
  fixes inv :: "'q \<Rightarrow> bool"
    and contents :: "'q \<Rightarrow> 'a list"
    and cap :: "'q \<Rightarrow> nat"
    and enq :: "'q \<Rightarrow> 'a \<Rightarrow> ('q \<times> 'e) option"
    and deq :: "'q \<Rightarrow> ('q \<times> 'a) option"
    and ok :: 'e
    and full :: 'e
  assumes bounded: "inv q \<Longrightarrow> length (contents q) \<le> cap q"
    and enq_ok: "inv q \<Longrightarrow> length (contents q) < cap q \<Longrightarrow>
      \<exists>q'. enq q x = Some (q', ok) \<and> inv q' \<and> contents q' = contents q @ [x] \<and> cap q' = cap q"
    and enq_full: "inv q \<Longrightarrow> length (contents q) = cap q \<Longrightarrow> enq q x = Some (q, full)"
    and deq_ok: "inv q \<Longrightarrow> contents q = x # xs \<Longrightarrow>
      \<exists>q'. deq q = Some (q', x) \<and> inv q' \<and> contents q' = xs \<and> cap q' = cap q"
    and deq_empty: "inv q \<Longrightarrow> contents q = [] \<Longrightarrow> \<exists>e. deq q = Some (q, e)"
begin

lemma enq_all_spec:
  assumes "inv q"
  shows "\<exists>q'. enq_all enq q xs = Some q' \<and> inv q' \<and> cap q' = cap q \<and>
    contents q' = take (cap q) (contents q @ xs)"
  using assms
proof (induction xs arbitrary: q)
  case Nil
  then show ?case using bounded by (intro exI [of _ q]) simp
next
  case (Cons x xs)
  show ?case
  proof (cases "length (contents q) < cap q")
    case True
    then obtain q1 where q1: "enq q x = Some (q1, ok)" "inv q1" "contents q1 = contents q @ [x]"
      "cap q1 = cap q" using enq_ok Cons.prems by blast
    from Cons.IH [OF q1(2)] q1 show ?thesis by auto
  next
    case False
    then have f: "length (contents q) = cap q" using bounded [OF Cons.prems] by simp
    with Cons.IH [OF Cons.prems] enq_full [OF Cons.prems f] show ?thesis by auto
  qed
qed

lemma deq_n_spec:
  assumes "inv q" "n \<le> length (contents q)"
  shows "\<exists>q'. deq_n deq n q = Some (q', take n (contents q)) \<and> inv q' \<and>
    contents q' = drop n (contents q) \<and> cap q' = cap q"
  using assms
proof (induction n arbitrary: q)
  case (Suc n)
  then obtain x xs where c: "contents q = x # xs" by (cases "contents q") auto
  then obtain q1 where q1: "deq q = Some (q1, x)" "inv q1" "contents q1 = xs" "cap q1 = cap q"
    using deq_ok Suc.prems by blast
  then obtain q2 where "deq_n deq n q1 = Some (q2, take n xs)" "inv q2" "contents q2 = drop n xs"
      "cap q2 = cap q1" using Suc.IH [of q1] Suc.prems c by auto
  with q1 c show ?case by auto
qed simp

lemma fifo_order:
  assumes "inv q" "contents q = []" "length xs \<le> cap q"
  shows "\<exists>q1 q2. enq_all enq q xs = Some q1 \<and> deq_n deq (length xs) q1 = Some (q2, xs) \<and> inv q2 \<and> contents q2 = []"
proof -
  obtain q1 where q1: "enq_all enq q xs = Some q1" "inv q1" "cap q1 = cap q" "contents q1 = xs"
    using enq_all_spec [OF assms(1), of xs] assms(2,3) by auto
  then show ?thesis using deq_n_spec [of q1 "length xs"] by auto
qed

end

definition fifo_enq :: "FIFO32 \<Rightarrow> int \<Rightarrow> (FIFO32 \<times> int) option" where
  "fifo_enq q x = do { (f, r) \<leftarrow> fifo32_enqueue (Some q) x; f' \<leftarrow> f; Some (f', r) }"

definition fifo_deq :: "FIFO32 \<Rightarrow> (FIFO32 \<times> int) option" where
  "fifo_deq q = do { (f, r) \<leftarrow> fifo32_dequeue (Some q); f' \<leftarrow> f; Some (f', r) }"

interpretation fq: bounded_queue fifo_wf fifo_contents "\<lambda>f. nat (fifo_buflen f)" fifo_enq fifo_deq 0 "- EIO"
proof (unfold_locales, goal_cases)
  case (1 q) then show ?case using fifo_used_le by simp
next
  case (2 q x) then show ?case using fifo_enqueue_ok [of q x] by (auto simp: fifo_enq_def)
next
  case (3 q x) then show ?case using fifo_enqueue_full [of q x] by (auto simp: fifo_enq_def)
next
  case (4 q x xs) then show ?case using fifo_contents_Cons [of q x xs] by (auto simp: fifo_deq_def)
next
  case (5 q) then show ?case using fifo_contents_Nil [of q] by (auto simp: fifo_deq_def)
qed

section \<open>Properties\<close>

text \<open>
  C37: on a well-formed buffer with a free slot, enqueueing succeeds, returns 0, keeps the buffer
  well-formed and appends the value to the queue it holds; on a full buffer it returns
  \<^verbatim>\<open>-EIO\<close> and changes nothing. No write leaves the array.
\<close>

theorem fifo32_enqueue_refines:
  assumes "fifo_wf f"
  shows "if length (fifo_contents f) < nat (fifo_buflen f)
    then \<exists>f'. fifo32_enqueue (Some f) x = Some (Some f', 0) \<and> fifo_wf f' \<and>
           fifo_contents f' = fifo_contents f @ [x] \<and> fifo_buflen f' = fifo_buflen f
    else fifo32_enqueue (Some f) x = Some (Some f, - EIO)"
  using fifo_enqueue_ok [OF assms, of x] fifo_enqueue_full [OF assms, of x] fifo_used_le [OF assms]
  by auto

theorem fifo32_enqueue_refines_witness:
  "\<exists>f'. fifo32_enqueue (Some \<lparr>fifo_buf = Some [7, 0], fifo_buflen = 2, fifo_free = 1,
      fifo_next_r = 0, fifo_next_w = 1, fifo_flags = 0\<rparr>) 9 = Some (Some f', 0) \<and>
    fifo_wf f' \<and> fifo_contents f' = [7, 9]"
proof -
  let ?f = "\<lparr>fifo_buf = Some [7, 0], fifo_buflen = 2, fifo_free = 1,
      fifo_next_r = 0, fifo_next_w = 1, fifo_flags = 0\<rparr>"
  have "fifo_wf ?f" and "fifo_contents ?f = [7]" and "fifo_buflen ?f = 2"
    by (simp_all add: fifo_wf_def fifo_contents_def fifo_used_def)
  with fifo32_enqueue_refines [of ?f 9] show ?thesis by auto
qed

text \<open>
  on a well-formed buffer, dequeueing and peeking return the oldest value, dequeueing drops
  exactly that value and keeps the buffer well-formed; on an empty buffer both return
  \<^verbatim>\<open>-EIO\<close> and nothing changes. No read leaves the array.
\<close>

theorem fifo32_dequeue_refines:
  assumes "fifo_wf f"
  shows "case fifo_contents f of
      [] \<Rightarrow> fifo32_dequeue (Some f) = Some (Some f, - EIO) \<and> fifo32_peek (Some f) = Some (- EIO)
    | x # xs \<Rightarrow> fifo32_peek (Some f) = Some x \<and>
        (\<exists>f'. fifo32_dequeue (Some f) = Some (Some f', x) \<and> fifo_wf f' \<and> fifo_contents f' = xs \<and>
              fifo_buflen f' = fifo_buflen f)"
  using fifo_contents_Nil [OF assms] fifo_contents_Cons [OF assms] by (auto split: list.splits)

theorem fifo32_dequeue_refines_witness:
  "\<exists>f'. fifo32_dequeue (Some \<lparr>fifo_buf = Some [7, 9], fifo_buflen = 2, fifo_free = 0,
      fifo_next_r = 1, fifo_next_w = 1, fifo_flags = 0\<rparr>) = Some (Some f', 9) \<and>
    fifo_wf f' \<and> fifo_contents f' = [7]"
proof -
  let ?f = "\<lparr>fifo_buf = Some [7, 9], fifo_buflen = 2, fifo_free = 0,
      fifo_next_r = 1, fifo_next_w = 1, fifo_flags = 0\<rparr>"
  have "fifo_wf ?f" and "fifo_contents ?f = [9, 7]"
    by (simp_all add: fifo_wf_def fifo_contents_def fifo_used_def upt_rec)
  with fifo32_dequeue_refines [of ?f] show ?thesis by auto
qed

text \<open>
  first in, first out. A buffer initialised over an array with room for the values \<open>xs\<close>
  accepts all of them, and as many dequeues give back exactly \<open>xs\<close> in order and leave the
  buffer empty.
\<close>

theorem fifo32_roundtrip:
  assumes "b \<noteq> []" "int (length b) < 2147483648" "length xs \<le> length b"
  shows "\<exists>f f1 f2. fifo32_init (Some f0) (Some b) (int (length b)) = Some f \<and>
    enq_all fifo_enq f xs = Some f1 \<and> deq_n fifo_deq (length xs) f1 = Some (f2, xs) \<and>
    fifo_contents f2 = []"
proof -
  obtain f where f: "fifo32_init (Some f0) (Some b) (int (length b)) = Some f" "fifo_wf f"
    "fifo_contents f = []" "fifo_buflen f = int (length b)"
    using fifo_init_wf [OF assms(1,2)] by blast
  from fq.fifo_order [OF f(2,3), of xs] f assms(3) show ?thesis by auto
qed

theorem fifo32_roundtrip_witness:
  "\<exists>f f1 f2. fifo32_init (Some undefined) (Some [0, 0, 0]) (int (length [0::int, 0, 0])) = Some f \<and>
    enq_all fifo_enq f [5, 6] = Some f1 \<and> deq_n fifo_deq (length [5::int, 6]) f1 = Some (f2, [5, 6]) \<and>
    fifo_contents f2 = []"
  by (rule fifo32_roundtrip) simp_all

text \<open>the ring buffer's own self test returns \<^verbatim>\<open>true\<close>.\<close>

theorem test_fifo32_passes: "test_fifo32 = Some True"
  by code_simp

end
