(* ===== verification/Machine.thy ===== *)
theory Machine
  imports Kutil
begin

text \<open>
  The processor as the C code sees it (\<^verbatim>\<open>src/src/io/io.{h,c}\<close>) and the interrupt controllers
  (\<^verbatim>\<open>src/src/pic/pic.c\<close>). The assembly routines are modelled by their effect: EFLAGS, the
  descriptor table registers and the task register are fields; every port access, table load,
  far jump and halt is appended to a log. What a device answers to a port read is a function
  \<open>dev\<close> of the port and of the log so far, a parameter of the operations that read ports.
\<close>

section \<open>The processor\<close>

datatype io_event =
    Out8 u16 u8 | Out16 u16 u16 | In8 u16 u8 | In16 u16 u16 | Lgdt u16 u32 | Lidt u16 u32 | Ltr u16 | Farjmp u32 u16
  | Halt

record cpu =
  cpu_eflags :: u32
  cpu_gdtr :: "u16 \<times> u32"
  cpu_idtr :: "u16 \<times> u32"
  cpu_tr :: u16
  cpu_log :: "io_event list"

definition FLAGS_MASK_IF :: u32 where "FLAGS_MASK_IF = 0x0200"

definition emit :: "io_event \<Rightarrow> cpu \<Rightarrow> cpu" where
  "emit e c = c\<lparr>cpu_log := cpu_log c @ [e]\<rparr>"

definition io_cli :: "cpu \<Rightarrow> cpu" where
  "io_cli c = c\<lparr>cpu_eflags := cpu_eflags c AND NOT FLAGS_MASK_IF\<rparr>"

definition io_sti :: "cpu \<Rightarrow> cpu" where
  "io_sti c = c\<lparr>cpu_eflags := cpu_eflags c OR FLAGS_MASK_IF\<rparr>"

definition io_out8 :: "u16 \<Rightarrow> u8 \<Rightarrow> cpu \<Rightarrow> cpu" where
  "io_out8 port v c = emit (Out8 port v) c"

definition io_in8 :: "(u16 \<Rightarrow> io_event list \<Rightarrow> u8) \<Rightarrow> u16 \<Rightarrow> cpu \<Rightarrow> u8 \<times> cpu" where
  "io_in8 dev port c = (let v = dev port (cpu_log c) in (v, emit (In8 port v) c))"

definition gdt_reload :: "u16 \<Rightarrow> u32 \<Rightarrow> cpu \<Rightarrow> cpu" where
  "gdt_reload limit base c = emit (Lgdt limit base) (c\<lparr>cpu_gdtr := (limit, base)\<rparr>)"

definition idt_load :: "u16 \<Rightarrow> u32 \<Rightarrow> cpu \<Rightarrow> cpu" where
  "idt_load limit base c = emit (Lidt limit base) (c\<lparr>cpu_idtr := (limit, base)\<rparr>)"

definition gdt_ltr :: "u16 \<Rightarrow> cpu \<Rightarrow> cpu" where
  "gdt_ltr sel c = emit (Ltr sel) (c\<lparr>cpu_tr := sel\<rparr>)"

text \<open>A far jump to a task state segment: the processor saves the old task and resumes the new one.\<close>

definition farjmp :: "u32 \<Rightarrow> u16 \<Rightarrow> cpu \<Rightarrow> cpu" where
  "farjmp eip cs c = emit (Farjmp eip cs) (c\<lparr>cpu_tr := cs\<rparr>)"

definition io_hlt :: "cpu \<Rightarrow> cpu" where
  "io_hlt c = emit Halt c"

definition io_wait :: "cpu \<Rightarrow> cpu" where
  "io_wait c = io_out8 0x80 0 c"

definition io_get_is_cli :: "cpu \<Rightarrow> bool" where
  "io_get_is_cli c = (if isMaskBitsAllSet (cpu_eflags c) FLAGS_MASK_IF then False else True)"

text \<open>The pattern of the callers: disable interrupts, work, enable them again if they were enabled.\<close>

definition cli_unless :: "bool \<Rightarrow> cpu \<Rightarrow> cpu" where
  "cli_unless isCli c = (if \<not> isCli then io_cli c else c)"

definition sti_unless :: "bool \<Rightarrow> cpu \<Rightarrow> cpu" where
  "sti_unless isCli c = (if \<not> isCli then io_sti c else c)"

section \<open>The interrupt controllers\<close>

definition PIC0_COMMAND :: u16 where "PIC0_COMMAND = 0x20"
definition PIC0_DATA :: u16 where "PIC0_DATA = PIC0_COMMAND + 1"
definition PIC1_COMMAND :: u16 where "PIC1_COMMAND = 0xA0"
definition PIC1_DATA :: u16 where "PIC1_DATA = PIC1_COMMAND + 1"
definition ICW1_INIT :: u8 where "ICW1_INIT = 0x10"
definition ICW1_ICW4P :: u8 where "ICW1_ICW4P = 0x01"
definition ICW1_LEVEL :: u8 where "ICW1_LEVEL = 0x08"
definition ICW4_8086 :: u8 where "ICW4_8086 = 0x01"
definition PIC_SIG_EOI_SP :: u8 where "PIC_SIG_EOI_SP = 0x60"
definition DEBUG_NO_TIMER :: bool where "DEBUG_NO_TIMER = False"

lemmas pic_defs = PIC0_COMMAND_def PIC0_DATA_def PIC1_COMMAND_def PIC1_DATA_def ICW1_INIT_def
  ICW1_ICW4P_def ICW1_LEVEL_def ICW4_8086_def PIC_SIG_EOI_SP_def DEBUG_NO_TIMER_def

definition PIC_sendEOI :: "u8 \<Rightarrow> cpu \<Rightarrow> cpu" where
  "PIC_sendEOI irq c =
     (if irq < 8 then io_out8 PIC0_COMMAND (PIC_SIG_EOI_SP OR irq) c
      else if irq < 16 \<and> irq \<ge> 8 then
        (let c = io_out8 PIC1_COMMAND (PIC_SIG_EOI_SP OR (irq - 8)) c
         in io_out8 PIC0_COMMAND (PIC_SIG_EOI_SP OR 2) c)
      else c)"

definition PIC_init :: "u8 \<Rightarrow> u8 \<Rightarrow> cpu \<Rightarrow> cpu" where
  "PIC_init offset0 offset1 c =
     (let c = io_out8 PIC0_DATA 0xff c;
          c = io_out8 PIC1_DATA 0xff c;
          c = io_out8 PIC0_COMMAND (ICW1_INIT OR ICW1_ICW4P) c;
          c = io_out8 PIC0_DATA offset0 c;
          c = io_out8 PIC0_DATA (push_bit 2 1) c;
          c = io_out8 PIC0_DATA ICW4_8086 c;
          c = io_out8 PIC1_COMMAND (ICW1_INIT OR ICW1_ICW4P OR ICW1_LEVEL) c;
          c = io_out8 PIC1_DATA offset1 c;
          c = io_out8 PIC1_DATA 2 c;
          c = io_out8 PIC1_DATA ICW4_8086 c;
          c = (if DEBUG_NO_TIMER then io_out8 PIC0_DATA (0xff XOR (push_bit 1 1 OR push_bit 2 1)) c
               else io_out8 PIC0_DATA (0xff XOR (1 OR push_bit 1 1 OR push_bit 2 1)) c)
      in io_out8 PIC1_DATA (0xff XOR push_bit 4 1) c)"

section \<open>What an 8259 controller makes of the writes\<close>

text \<open>
  The documented behaviour of the 8259: a write with bit 4 set to the command port starts the
  initialisation; the next writes to the data port are ICW2 (the vector offset), ICW3 and, if
  bit 0 of ICW1 was set, ICW4; any other write to the data port sets the interrupt mask. A
  specific end of interrupt (0x60 + n) on the command port clears the in-service bit n.
\<close>

record pic8259 =
  pic_expect :: nat
  pic_icw4 :: bool
  pic_offset :: u8
  pic_mask :: u8
  pic_isr :: "nat set"

definition pic_write :: "bool \<Rightarrow> u8 \<Rightarrow> pic8259 \<Rightarrow> pic8259" where
  "pic_write is_data v p =
     (if \<not> is_data then
        (if bit v 4 then p\<lparr>pic_expect := 2, pic_icw4 := bit v 0, pic_mask := 0, pic_isr := {}\<rparr>
         else if v AND 0xe0 = 0x60 then p\<lparr>pic_isr := pic_isr p - {unat (v AND 7)}\<rparr>
         else p)
      else if pic_expect p = 2 then p\<lparr>pic_expect := 3, pic_offset := v\<rparr>
      else if pic_expect p = 3 then p\<lparr>pic_expect := (if pic_icw4 p then 4 else 0)\<rparr>
      else if pic_expect p = 4 then p\<lparr>pic_expect := 0\<rparr>
      else p\<lparr>pic_mask := v\<rparr>)"

fun pic_event :: "u16 \<Rightarrow> pic8259 \<Rightarrow> io_event \<Rightarrow> pic8259" where
  "pic_event base p (Out8 port v) =
     (if port = base then pic_write False v p else if port = base + 1 then pic_write True v p else p)"
| "pic_event base p _ = p"

definition pic_run :: "u16 \<Rightarrow> pic8259 \<Rightarrow> io_event list \<Rightarrow> pic8259" where
  "pic_run base = foldl (pic_event base)"

definition new_events :: "cpu \<Rightarrow> cpu \<Rightarrow> io_event list" where
  "new_events c c' = drop (length (cpu_log c)) (cpu_log c')"

lemma emit_sel [simp]:
  "cpu_log (emit e c) = cpu_log c @ [e]" "cpu_eflags (emit e c) = cpu_eflags c"
  "cpu_gdtr (emit e c) = cpu_gdtr c" "cpu_idtr (emit e c) = cpu_idtr c" "cpu_tr (emit e c) = cpu_tr c"
  by (simp_all add: emit_def)

lemma cli_sel [simp]:
  "cpu_log (io_cli c) = cpu_log c" "cpu_log (io_sti c) = cpu_log c"
  "cpu_gdtr (io_cli c) = cpu_gdtr c" "cpu_gdtr (io_sti c) = cpu_gdtr c"
  "cpu_tr (io_cli c) = cpu_tr c" "cpu_tr (io_sti c) = cpu_tr c"
  by (simp_all add: io_cli_def io_sti_def)

text \<open>
  After \<^verbatim>\<open>PIC_init\<close> both controllers have finished their initialisation, deliver their
  interrupts from the given vectors on, and let exactly IRQ 0, 1, 2 and 12 through.
\<close>

theorem PIC_init_correct:
  assumes ev: "ev = new_events c (PIC_init offset0 offset1 c)"
    and pm: "qm = pic_run 0x20 pm ev" and psl: "qsl = pic_run 0xA0 psl ev"
    and idle: "pic_expect pm = 0" "pic_expect psl = 0"
  shows "pic_expect qm = 0 \<and> pic_expect qsl = 0 \<and> pic_offset qm = offset0 \<and> pic_offset qsl = offset1 \<and>
    (\<forall>n < 8. \<not> bit (pic_mask qm) n \<longleftrightarrow> n \<in> {0, 1, 2}) \<and>
    (\<forall>n < 8. \<not> bit (pic_mask qsl) n \<longleftrightarrow> n + 8 = 12)"
proof -
  have e: "ev = [Out8 0x21 0xff, Out8 0xA1 0xff, Out8 0x20 0x11, Out8 0x21 offset0, Out8 0x21 4, Out8 0x21 1,
      Out8 0xA0 0x19, Out8 0xA1 offset1, Out8 0xA1 2, Out8 0xA1 1, Out8 0x21 0xf8, Out8 0xA1 0xef]"
    by (simp add: ev PIC_init_def new_events_def Let_def io_out8_def pic_defs)
  have b: "bit (0x11 :: u8) 4" "bit (0x11 :: u8) 0" "bit (0x19 :: u8) 4" "bit (0x19 :: u8) 0" by simp_all
  have qm: "qm = pm\<lparr>pic_expect := 0, pic_icw4 := True, pic_offset := offset0, pic_mask := 0xf8, pic_isr := {}\<rparr>"
    using idle by (simp add: pm e pic_run_def pic_write_def b)
  have qsl: "qsl = psl\<lparr>pic_expect := 0, pic_icw4 := True, pic_offset := offset1, pic_mask := 0xef, pic_isr := {}\<rparr>"
    using idle by (simp add: psl e pic_run_def pic_write_def b)
  have m0: "\<forall>n < 8. \<not> bit (0xf8 :: u8) n \<longleftrightarrow> n \<in> {0, 1, 2}"
    by (simp add: All_less_Suc numeral_eq_Suc)
  have m1: "\<forall>n < 8. \<not> bit (0xef :: u8) n \<longleftrightarrow> n + 8 = 12"
    by (simp add: All_less_Suc numeral_eq_Suc)
  show ?thesis unfolding qm qsl using m0 m1 by simp
qed

definition pic_idle :: pic8259 where
  "pic_idle = \<lparr>pic_expect = 0, pic_icw4 = False, pic_offset = 8, pic_mask = 0, pic_isr = {0, 1, 2, 4}\<rparr>"

definition cpu0 :: cpu where
  "cpu0 = \<lparr>cpu_eflags = 0x202, cpu_gdtr = (0, 0), cpu_idtr = (0, 0), cpu_tr = 0, cpu_log = []\<rparr>"

theorem PIC_init_correct_witness:
  "pic_offset (pic_run 0x20 pic_idle (new_events cpu0 (PIC_init 0x20 0x28 cpu0))) = 0x20 \<and>
   pic_offset (pic_run 0xA0 pic_idle (new_events cpu0 (PIC_init 0x20 0x28 cpu0))) = 0x28"
  using PIC_init_correct [OF refl refl refl, of pic_idle pic_idle cpu0 "0x20" "0x28"]
  by (simp add: pic_idle_def)

text \<open>
  \<^verbatim>\<open>PIC_sendEOI\<close> ends the service of exactly the given interrupt: for IRQ 0 to 7 on the master, for
  IRQ 8 to 15 on the slave and of the cascade line 2 on the master; other numbers send nothing.
\<close>

theorem PIC_sendEOI_correct:
  assumes ev: "ev = new_events c (PIC_sendEOI irq c)"
    and pm: "qm = pic_run 0x20 pm ev" and psl: "qsl = pic_run 0xA0 psl ev"
  shows "pic_isr qm = pic_isr pm - (if irq < 8 then {unat irq} else if irq < 16 then {2} else {}) \<and>
    pic_isr qsl = pic_isr psl - (if 8 \<le> irq \<and> irq < 16 then {unat (irq - 8)} else {})"
proof -
  have sp: "\<not> bit (0x60 OR n) 4 \<and> (0x60 OR n) AND 0xe0 = 0x60 \<and> (0x60 OR n) AND 7 = n" if "n < 8" for n :: u8
  proof -
    have "n \<in> {0, 1, 2, 3, 4, 5, 6, 7}"
    proof -
      have "unat n < 8" using that by (simp add: word_less_nat_alt)
      then have "unat n \<in> {0, 1, 2, 3, 4, 5, 6, 7}" by auto
      then show ?thesis by (auto simp: word_unat_eq_iff)
    qed
    then show ?thesis by auto
  qed
  consider "irq < 8" | "8 \<le> irq" "irq < 16" | "16 \<le> irq" by fastforce
  then show ?thesis
  proof cases
    case 1
    then have "ev = [Out8 0x20 (0x60 OR irq)]"
      by (simp add: ev PIC_sendEOI_def new_events_def io_out8_def pic_defs)
    then show ?thesis using 1 sp [OF 1] by (auto simp: pm psl pic_run_def pic_write_def)
  next
    case 2
    then have lt: "irq - 8 < 8" by (simp add: word_less_nat_alt word_le_nat_alt unat_sub_nowrap)
    have "ev = [Out8 0xA0 (0x60 OR (irq - 8)), Out8 0x20 (0x60 OR 2)]"
      using 2 by (simp add: ev PIC_sendEOI_def new_events_def io_out8_def pic_defs Let_def)
    then show ?thesis using 2 sp [OF lt] sp [of 2] by (auto simp: pm psl pic_run_def pic_write_def)
  next
    case 3
    then have n: "\<not> irq < 8" "\<not> irq < 16" by (simp_all add: word_le_nat_alt word_less_nat_alt)
    then have "ev = []" by (simp add: ev PIC_sendEOI_def new_events_def)
    then show ?thesis using n by (auto simp: pm psl pic_run_def)
  qed
qed

theorem PIC_sendEOI_correct_witness:
  "pic_isr (pic_run 0xA0 pic_idle (new_events cpu0 (PIC_sendEOI 12 cpu0))) = {0, 1, 2}"
proof -
  have "pic_isr (pic_run 0xA0 pic_idle (new_events cpu0 (PIC_sendEOI 12 cpu0))) = pic_isr pic_idle - {4}"
    using PIC_sendEOI_correct [where c = cpu0 and irq = 12 and pm = pic_idle and psl = pic_idle, OF refl refl refl]
    by simp
  also have "pic_isr pic_idle - {4} = {0, 1, 2}" by (auto simp: pic_idle_def)
  finally show ?thesis .
qed

end
