(* ===== verification/Gdt.thy ===== *)
theory Gdt
  imports Machine
begin

text \<open>
  The segment descriptors of \<^verbatim>\<open>src/src/gdt/gdt.{h,c}\<close>: encoding a descriptor, importing the boot
  loader's table from memory, appending descriptors and loading the table. The table \<^verbatim>\<open>gdts\<close> is a list of
  8192 descriptors; its address is fixed by the linker and a parameter.
\<close>

section \<open>Data\<close>

record GDT32SD =
  sd_limit_low :: u16
  sd_base_low :: u16
  sd_base_mid :: u8
  sd_access_byte :: u8
  sd_limit_high :: "4 word"
  sd_flags :: "4 word"
  sd_base_high :: u8

record GDTR32 =
  gr_limit :: u16
  gr_base :: u32

record gdt_state =
  gdt_gdtr :: GDTR32
  gdt_gdts :: "GDT32SD list"

text \<open>The packed layout: two bit fields share the seventh byte, the first one in its low half.\<close>

definition sd_bytes :: "GDT32SD \<Rightarrow> u8 list" where
  "sd_bytes sd =
     [ucast (sd_limit_low sd), ucast (drop_bit 8 (sd_limit_low sd)),
      ucast (sd_base_low sd), ucast (drop_bit 8 (sd_base_low sd)),
      sd_base_mid sd, sd_access_byte sd,
      ucast (sd_limit_high sd) OR push_bit 4 (ucast (sd_flags sd)), sd_base_high sd]"

definition sd_of_bytes :: "u8 list \<Rightarrow> GDT32SD" where
  "sd_of_bytes bs =
     \<lparr>sd_limit_low = ucast (bs ! 0) OR push_bit 8 (ucast (bs ! 1)),
      sd_base_low = ucast (bs ! 2) OR push_bit 8 (ucast (bs ! 3)),
      sd_base_mid = bs ! 4, sd_access_byte = bs ! 5,
      sd_limit_high = ucast (bs ! 6), sd_flags = ucast (drop_bit 4 (bs ! 6)), sd_base_high = bs ! 7\<rparr>"

fun sds_of_bytes :: "u8 list \<Rightarrow> GDT32SD list" where
  "sds_of_bytes (a # b # c # d # e # f # g # h # bs) = sd_of_bytes [a, b, c, d, e, f, g, h] # sds_of_bytes bs"
| "sds_of_bytes _ = []"

section \<open>Operations\<close>

definition gdt_set_segmdesc :: "GDT32SD \<Rightarrow> u32 \<Rightarrow> u32 \<Rightarrow> u8 \<Rightarrow> GDT32SD" where
  "gdt_set_segmdesc sd limit base ar =
     sd\<lparr>sd_flags := 0xc,
        sd_limit_low := ucast (limit AND 0xffff),
        sd_base_low := ucast (base AND 0xffff),
        sd_base_mid := ucast (drop_bit 16 base AND 0xff),
        sd_access_byte := ar AND 0xff,
        sd_limit_high := ucast (drop_bit 16 limit AND 0x0f),
        sd_base_high := ucast (drop_bit 24 base AND 0xff)\<rparr>"

text \<open>The copy of \<open>limit + 1\<close> bytes over the beginning of the table; at most 65536 bytes, the size of the table.\<close>

definition gdt_import :: "u32 \<Rightarrow> memory \<Rightarrow> GDTR32 \<Rightarrow> gdt_state \<Rightarrow> gdt_state" where
  "gdt_import gdts_addr m gdtrSrc g =
     (let n = unat (gr_limit gdtrSrc) + 1;
          src = mem_bytes m (gr_base gdtrSrc) n;
          dst = concat (map sd_bytes (gdt_gdts g))
      in \<lparr>gdt_gdtr = \<lparr>gr_limit = gr_limit gdtrSrc, gr_base = gdts_addr\<rparr>,
          gdt_gdts = sds_of_bytes (src @ drop n dst)\<rparr>)"

definition mem_u32 :: "memory \<Rightarrow> u32 \<Rightarrow> u32" where
  "mem_u32 m a = ucast (m a) OR push_bit 8 (ucast (m (a + 1))) OR push_bit 16 (ucast (m (a + 2)))
     OR push_bit 24 (ucast (m (a + 3)))"

definition mem_u16 :: "memory \<Rightarrow> u32 \<Rightarrow> u16" where
  "mem_u16 m a = ucast (m a) OR push_bit 8 (ucast (m (a + 1)))"

definition OS_BOOT_GDTR0 :: u32 where "OS_BOOT_GDTR0 = 0x0fe8"

definition gdt_read_gdtr0 :: "u32 \<Rightarrow> memory \<Rightarrow> gdt_state \<Rightarrow> gdt_state" where
  "gdt_read_gdtr0 gdts_addr m g =
     (let p = mem_u32 m OS_BOOT_GDTR0;
          gdtr0 = \<lparr>gr_limit = mem_u16 m p, gr_base = mem_u32 m (p + 2)\<rparr>
      in gdt_import gdts_addr m gdtr0 g)"

definition gdt_append :: "gdt_state \<Rightarrow> GDT32SD \<Rightarrow> (gdt_state \<times> u16) option" where
  "gdt_append g d1 = do {
     let r = gdt_gdtr g;
     let d_len = (uint (gr_limit r) + 1) div 8;
     gdts \<leftarrow> aset (gdt_gdts g) d_len d1;
     Some (g\<lparr>gdt_gdts := gdts, gdt_gdtr := r\<lparr>gr_limit := gr_limit r + 8\<rparr>\<rparr>, word_of_int (d_len * 8))
   }"

definition gdt1_reload :: "GDTR32 option \<Rightarrow> cpu \<Rightarrow> cpu \<times> bool" where
  "gdt1_reload r c = (case r of None \<Rightarrow> (c, False) | Some r \<Rightarrow> (gdt_reload (gr_limit r) (gr_base r) c, True))"

definition gdt_migration :: "u32 \<Rightarrow> memory \<Rightarrow> gdt_state \<Rightarrow> cpu \<Rightarrow> gdt_state \<times> cpu" where
  "gdt_migration gdts_addr m g c =
     (let g = gdt_read_gdtr0 gdts_addr m g;
          isCli = io_get_is_cli c;
          c = cli_unless isCli c;
          c = gdt_reload (gr_limit (gdt_gdtr g)) (gr_base (gdt_gdtr g)) c
      in (g, sti_unless isCli c))"

section \<open>What the processor reads from a descriptor\<close>

definition sd_base :: "GDT32SD \<Rightarrow> u32" where
  "sd_base sd = ucast (sd_base_low sd) OR push_bit 16 (ucast (sd_base_mid sd)) OR push_bit 24 (ucast (sd_base_high sd))"

definition sd_limit :: "GDT32SD \<Rightarrow> u32" where
  "sd_limit sd = ucast (sd_limit_low sd) OR push_bit 16 (ucast (sd_limit_high sd))"

lemma word16_bytes: "ucast (ucast w :: u8) OR push_bit 8 (ucast (ucast (drop_bit 8 w) :: u8)) = (w :: u16)"
  by (rule bit_word_eqI) (auto simp: bit_simps)

lemma nibbles:
  "ucast (ucast (x :: 4 word) OR push_bit 4 (ucast (y :: 4 word)) :: u8) = x"
  "ucast (drop_bit 4 (ucast (x :: 4 word)) OR drop_bit 4 (push_bit 4 (ucast (y :: 4 word))) :: u8) = y"
  by (rule bit_word_eqI, auto simp: bit_simps dest: bit_imp_le_length)+

lemma sd_bytes_roundtrip: "sd_of_bytes (sd_bytes sd) = (sd :: GDT32SD)"
  by (cases sd) (simp add: sd_of_bytes_def sd_bytes_def word16_bytes nibbles)

lemma sd_base_set [simp]: "sd_base (gdt_set_segmdesc sd limit base ar) = base"
proof (rule bit_word_eqI)
  fix n
  show "bit (sd_base (gdt_set_segmdesc sd limit base ar)) n = bit base n" if "n < LENGTH(32)"
    using that by (cases "n < 16"; cases "n < 24") (auto simp: sd_base_def gdt_set_segmdesc_def and_lit bit_simps)
qed

lemma sd_limit_set [simp]: "sd_limit (gdt_set_segmdesc sd limit base ar) = limit AND 0xfffff"
  by (rule bit_word_eqI) (auto simp: sd_limit_def gdt_set_segmdesc_def and_lit bit_simps)

lemma sd_access_set [simp]: "sd_access_byte (gdt_set_segmdesc sd limit base ar) = ar"
  by (rule bit_word_eqI) (auto simp: gdt_set_segmdesc_def and_lit bit_simps)

text \<open>
  Encoding and decoding a descriptor: the processor reads back the base and the low 20 bits of
  the limit that \<^verbatim>\<open>gdt_set_segmdesc\<close> was given, and the packed bytes of the descriptor determine it.
\<close>

theorem gdt_segmdesc_roundtrip:
  "sd_base (gdt_set_segmdesc sd limit base ar) = base \<and>
   sd_limit (gdt_set_segmdesc sd limit base ar) = limit AND 0xfffff \<and>
   sd_access_byte (gdt_set_segmdesc sd limit base ar) = ar \<and>
   sd_of_bytes (sd_bytes sd') = (sd' :: GDT32SD)"
  by (simp add: sd_bytes_roundtrip)

section \<open>Appending descriptors\<close>

text \<open>The table holds \<open>k\<close> descriptors.\<close>

definition gdt_len :: "gdt_state \<Rightarrow> nat \<Rightarrow> bool" where
  "gdt_len g k \<longleftrightarrow> length (gdt_gdts g) = 8192 \<and> 0 < k \<and> k \<le> 8192 \<and> unat (gr_limit (gdt_gdtr g)) = 8 * k - 1"

lemma gdt_append_len:
  assumes "gdt_len g k" "k < 8192"
  shows "\<exists>g'. gdt_append g d = Some (g', of_nat (8 * k)) \<and> gdt_len g' (Suc k) \<and>
    gdt_gdts g' = (gdt_gdts g)[k := d] \<and> gr_base (gdt_gdtr g') = gr_base (gdt_gdtr g)"
proof -
  let ?l = "gr_limit (gdt_gdtr g)"
  have l: "unat ?l = 8 * k - 1" "0 < k" "length (gdt_gdts g) = 8192" using assms by (auto simp: gdt_len_def)
  then have "uint ?l + 1 = 8 * int k" by (simp add: uint_nat)
  then have d: "(uint ?l + 1) div 8 = int k" by simp
  have "unat (?l + 8) = 8 * Suc k - 1" using l assms(2) by (subst unat_add_nowrap) auto
  then show ?thesis using l assms(2)
    by (simp add: gdt_append_def Let_def d aset_def gdt_len_def mult.commute)
qed

fun gdt_append_all :: "gdt_state \<Rightarrow> GDT32SD list \<Rightarrow> (gdt_state \<times> u16 list) option" where
  "gdt_append_all g [] = Some (g, [])"
| "gdt_append_all g (d # ds) = do {
     (g, sel) \<leftarrow> gdt_append g d;
     (g, sels) \<leftarrow> gdt_append_all g ds;
     Some (g, sel # sels)
   }"

lemma gdt_append_all_len:
  assumes "gdt_len g k" "k + length ds \<le> 8192"
  shows "\<exists>g'. gdt_append_all g ds = Some (g', map (\<lambda>i. of_nat (8 * (k + i))) [0..<length ds]) \<and>
    gdt_len g' (k + length ds) \<and> gr_base (gdt_gdtr g') = gr_base (gdt_gdtr g) \<and>
    gdt_gdts g' = take k (gdt_gdts g) @ ds @ drop (k + length ds) (gdt_gdts g)"
  using assms
proof (induction ds arbitrary: g k)
  case Nil
  then show ?case by simp
next
  case (Cons d ds)
  obtain g1 where g1: "gdt_append g d = Some (g1, of_nat (8 * k))" "gdt_len g1 (Suc k)"
    "gdt_gdts g1 = (gdt_gdts g)[k := d]" "gr_base (gdt_gdtr g1) = gr_base (gdt_gdtr g)"
    using gdt_append_len [of g k d] Cons.prems by auto
  have len: "length (gdt_gdts g) = 8192" using Cons.prems(1) by (simp add: gdt_len_def)
  have "take (Suc k) ((gdt_gdts g)[k := d]) = take k (gdt_gdts g) @ [d]"
    using len Cons.prems(2) by (simp add: take_Suc_conv_app_nth)
  moreover have "[0..<length (d # ds)] = 0 # map Suc [0..<length ds]"
    by (simp add: upt_conv_Cons map_Suc_upt del: upt_Suc)
  ultimately show ?case using Cons.IH [OF g1(2)] Cons.prems(2) g1
    by (auto simp: o_def)
qed

text \<open>
  Appending descriptors to a table of \<open>k\<close> descriptors puts them behind the existing ones in
  order, returns as selectors the byte offsets of the new descriptors, keeps the others and lets
  the limit cover the longer table.
\<close>

theorem gdt_append_correct:
  assumes "gdt_len g k" "k + length ds \<le> 8192"
  shows "\<exists>g' sels. gdt_append_all g ds = Some (g', sels) \<and> gdt_len g' (k + length ds) \<and>
    (\<forall>i < length ds. gdt_gdts g' ! (unat (sels ! i) div 8) = ds ! i) \<and>
    (\<forall>i < k. gdt_gdts g' ! i = gdt_gdts g ! i)"
proof -
  obtain g' where g': "gdt_append_all g ds = Some (g', map (\<lambda>i. of_nat (8 * (k + i))) [0..<length ds])"
    "gdt_len g' (k + length ds)" "gdt_gdts g' = take k (gdt_gdts g) @ ds @ drop (k + length ds) (gdt_gdts g)"
    using gdt_append_all_len [OF assms] by blast
  have len: "length (gdt_gdts g) = 8192" using assms(1) by (simp add: gdt_len_def)
  have "unat (of_nat (8 * (k + i)) :: u16) div 8 = k + i" if "i < length ds" for i
    using that assms(2) by (simp add: unat_of_nat_small del: of_nat_mult of_nat_add)
  then show ?thesis using g' assms(2) len by (auto simp: nth_append)
qed

definition sd0 :: GDT32SD where
  "sd0 = \<lparr>sd_limit_low = 0, sd_base_low = 0, sd_base_mid = 0, sd_access_byte = 0, sd_limit_high = 0,
          sd_flags = 0, sd_base_high = 0\<rparr>"

definition gdt3 :: gdt_state where
  "gdt3 = \<lparr>gdt_gdtr = \<lparr>gr_limit = 23, gr_base = 0x8000\<rparr>, gdt_gdts = replicate 8192 sd0\<rparr>"

lemma gdt3_len: "gdt_len gdt3 3"
  by (simp add: gdt_len_def gdt3_def)

theorem gdt_append_correct_witness:
  "\<exists>g' sels. gdt_append_all gdt3 [gdt_set_segmdesc sd0 104 0x123456 0x89] = Some (g', sels) \<and>
     gdt_gdts g' ! (unat (sels ! 0) div 8) = gdt_set_segmdesc sd0 104 0x123456 0x89"
  using gdt_append_correct [OF gdt3_len, of "[gdt_set_segmdesc sd0 104 0x123456 0x89]"] by auto

section \<open>Moving the table\<close>

lemma sds_of_bytes_nth:
  "8 * Suc i \<le> length bs \<Longrightarrow> i < length (sds_of_bytes bs) \<and> sds_of_bytes bs ! i = sd_of_bytes (take 8 (drop (8 * i) bs))"
proof (induction bs arbitrary: i rule: sds_of_bytes.induct)
  case (1 a b c d e f g h bs)
  have "drop (8 + n) (a # b # c # d # e # f # g # h # bs) = drop n bs" for n
    by (simp add: drop_drop [symmetric] add.commute [of 8] del: drop_drop)
  then show ?case using 1 by (cases i) auto
qed auto

lemma sti_cli_eflags:
  "cpu_eflags (sti_unless (io_get_is_cli c) (f (cli_unless (io_get_is_cli c) c))) = cpu_eflags c"
  if "\<And>c. cpu_eflags (f c) = cpu_eflags c"
proof (cases "cpu_eflags c AND 0x200 = 0x200")
  case True
  have "cpu_eflags c AND NOT 0x200 OR 0x200 = cpu_eflags c OR (cpu_eflags c AND 0x200)"
    unfolding True by (rule bit_word_eqI) (auto simp only: bit_or_iff bit_and_iff bit_not_iff possible_bit_word)
  also have "\<dots> = cpu_eflags c" by (rule bit_word_eqI) (auto simp only: bit_or_iff bit_and_iff)
  finally have "cpu_eflags c AND NOT 0x200 OR 0x200 = cpu_eflags c" .
  with True show ?thesis
    by (simp add: sti_unless_def cli_unless_def io_sti_def io_cli_def io_get_is_cli_def isMaskBitsAllSet_def
        FLAGS_MASK_IF_def that)
next
  case False
  then show ?thesis
    by (simp add: sti_unless_def cli_unless_def io_get_is_cli_def isMaskBitsAllSet_def FLAGS_MASK_IF_def that)
qed

text \<open>
  \<^verbatim>\<open>gdt_migration\<close> gives the processor a table at the new address with the same limit and with the boot
  loader's descriptors at the same selectors, and leaves the interrupt flag as it was.
\<close>

theorem gdt_migration_correct:
  assumes p: "p = mem_u32 m 0x0fe8" and lim: "unat (mem_u16 m p) + 1 = 8 * k"
    and g': "(g', c') = gdt_migration gdts_addr m g c"
  shows "cpu_gdtr c' = (mem_u16 m p, gdts_addr) \<and> cpu_eflags c' = cpu_eflags c \<and>
    (\<forall>i < k. gdt_gdts g' ! i = sd_of_bytes (mem_bytes m (mem_u32 m (p + 2) + of_nat (8 * i)) 8))"
proof -
  let ?b = "mem_u32 m (p + 2)" and ?n = "unat (mem_u16 m p) + 1"
  let ?bs = "mem_bytes m ?b ?n @ drop ?n (concat (map sd_bytes (gdt_gdts g)))"
  have gg: "g' = \<lparr>gdt_gdtr = \<lparr>gr_limit = mem_u16 m p, gr_base = gdts_addr\<rparr>, gdt_gdts = sds_of_bytes ?bs\<rparr>"
    using g' by (simp add: gdt_migration_def gdt_read_gdtr0_def gdt_import_def Let_def OS_BOOT_GDTR0_def p)
  have "gdt_gdts g' ! i = sd_of_bytes (mem_bytes m (?b + of_nat (8 * i)) 8)" if "i < k" for i
  proof -
    have "8 * Suc i \<le> 8 * k" using that by simp
    then have le: "8 * Suc i \<le> ?n" using lim by simp
    then have "gdt_gdts g' ! i = sd_of_bytes (take 8 (drop (8 * i) ?bs))"
      using sds_of_bytes_nth [of i ?bs] by (simp add: gg)
    also have "take 8 (drop (8 * i) ?bs) = mem_bytes m (?b + of_nat (8 * i)) 8"
      using le by (intro nth_equalityI) (auto simp: nth_append algebra_simps)
    finally show ?thesis .
  qed
  moreover have "cpu_gdtr c' = (mem_u16 m p, gdts_addr)"
    using g' gg by (auto simp: gdt_migration_def Let_def sti_unless_def gdt_reload_def gdt_read_gdtr0_def gdt_import_def)
  moreover have "cpu_eflags c' = cpu_eflags c"
    using g' sti_cli_eflags [of "gdt_reload (gr_limit (gdt_gdtr (gdt_read_gdtr0 gdts_addr m g)))
      (gr_base (gdt_gdtr (gdt_read_gdtr0 gdts_addr m g)))" c]
    by (simp add: gdt_migration_def Let_def gdt_reload_def)
  ultimately show ?thesis by simp
qed

text \<open>A memory with the boot loader's register image at 0x7000 and a table of three descriptors at 0x7010.\<close>

definition boot_mem :: memory where
  "boot_mem = (\<lambda>a. 0)(0x0fe9 := 0x70, 0x7000 := 23, 0x7002 := 0x10, 0x7003 := 0x70, 0x701d := 0x92, 0x7025 := 0x9a)"

lemma boot_mem_gdtr:
  "mem_u32 boot_mem 0x0fe8 = 0x7000" "mem_u16 boot_mem 0x7000 = 23" "mem_u32 boot_mem 0x7002 = 0x7010"
  by (simp_all add: mem_u32_def mem_u16_def boot_mem_def)

theorem gdt_migration_correct_witness:
  "cpu_gdtr (snd (gdt_migration 0x9000 boot_mem gdt3 cpu0)) = (23, 0x9000) \<and>
   gdt_gdts (fst (gdt_migration 0x9000 boot_mem gdt3 cpu0)) ! 2 = sd_of_bytes (mem_bytes boot_mem 0x7020 8)"
  using gdt_migration_correct [of "0x7000" boot_mem 3 _ _ "0x9000" gdt3 cpu0, OF _ _ prod.collapse]
  by (simp add: boot_mem_gdtr)

end
