(* ===== verification/Process.thy ===== *)
theory Process
  imports Prelude
begin

text \<open>
  The scheduler tables of \<^verbatim>\<open>src/src/kernel/process.{h,c}\<close>: a fixed array of tasks and ten priority
  levels, each with an array of the tasks that are ready on it. A \<^verbatim>\<open>TASK *\<close> is the index of the
  task in \<^verbatim>\<open>tasks0\<close>. The functions that also use the timer or jump to a task (\<^verbatim>\<open>mprocess_init\<close>,
  \<^verbatim>\<open>mprocess_task_autoswitch\<close>, \<^verbatim>\<open>mprocess_task_sleep\<close>) are completed in theory \<open>Sched\<close>; their work on
  the tables is here.
\<close>

section \<open>Data\<close>

record TSS32 =
  tss_link :: u32
  tss_esp0 :: u32
  tss_ss0 :: u32
  tss_esp1 :: u32
  tss_ss1 :: u32
  tss_esp2 :: u32
  tss_ss2 :: u32
  tss_cr3 :: u32
  tss_eip :: u32
  tss_eflags :: u32
  tss_eax :: u32
  tss_ecx :: u32
  tss_edx :: u32
  tss_ebx :: u32
  tss_esp :: u32
  tss_ebp :: u32
  tss_esi :: u32
  tss_edi :: u32
  tss_es :: u32
  tss_cs :: u32
  tss_ss :: u32
  tss_ds :: u32
  tss_fs :: u32
  tss_gs :: u32
  tss_ldtr :: u32
  tss_iopb :: u32
  tss_ssp :: u32

record TASK =
  tk_sel :: u32
  tk_flags :: u32
  tk_priority :: u32
  tk_level :: int
  tk_tss :: TSS32

record TASKLEVEL =
  tl_running :: int
  tl_now :: int
  tl_tasks :: "nat option list"

record TASKCTL =
  tc_now_lv :: int
  tc_lv_change :: bool
  tc_level :: "TASKLEVEL list"
  tc_tasks0 :: "TASK list"

definition MPROCESS_FLAGS_FREE :: u32 where "MPROCESS_FLAGS_FREE = 0"
definition MPROCESS_FLAGS_ALLOCATED :: u32 where "MPROCESS_FLAGS_ALLOCATED = 1"
definition MPROCESS_FLAGS_RUNNING :: u32 where "MPROCESS_FLAGS_RUNNING = 2"

lemmas mprocess_flags = MPROCESS_FLAGS_FREE_def MPROCESS_FLAGS_ALLOCATED_def MPROCESS_FLAGS_RUNNING_def

section \<open>Access through pointers\<close>

definition get_task :: "TASKCTL \<Rightarrow> nat \<Rightarrow> TASK option" where
  "get_task tc t = aget (tc_tasks0 tc) (int t)"

definition upd_task :: "nat \<Rightarrow> (TASK \<Rightarrow> TASK) \<Rightarrow> TASKCTL \<Rightarrow> TASKCTL option" where
  "upd_task t f tc = do {
     k \<leftarrow> aget (tc_tasks0 tc) (int t);
     ts \<leftarrow> aset (tc_tasks0 tc) (int t) (f k);
     Some (tc\<lparr>tc_tasks0 := ts\<rparr>)
   }"

definition get_level :: "TASKCTL \<Rightarrow> int \<Rightarrow> TASKLEVEL option" where
  "get_level tc l = aget (tc_level tc) l"

definition set_level :: "int \<Rightarrow> TASKLEVEL \<Rightarrow> TASKCTL \<Rightarrow> TASKCTL option" where
  "set_level l lev tc = do { ls \<leftarrow> aset (tc_level tc) l lev; Some (tc\<lparr>tc_level := ls\<rparr>) }"

section \<open>Operations\<close>

text \<open>The values \<^verbatim>\<open>mprocess_task_alloc\<close> writes into the task it found.\<close>

definition task_reset :: "TASK \<Rightarrow> TASK" where
  "task_reset k =
     k\<lparr>tk_flags := MPROCESS_FLAGS_ALLOCATED, tk_priority := 2,
       tk_tss := (tk_tss k)\<lparr>tss_eflags := 0x00000202, tss_eax := 0, tss_ecx := 0, tss_edx := 0, tss_ebx := 0,
         tss_ebp := 0, tss_esi := 0, tss_edi := 0, tss_es := 0, tss_ds := 0, tss_fs := 0, tss_gs := 0,
         tss_ldtr := 0, tss_iopb := 0x40000000\<rparr>\<rparr>"

fun task_alloc_loop :: "nat \<Rightarrow> nat \<Rightarrow> TASKCTL \<Rightarrow> (TASKCTL \<times> nat option) option" where
  "task_alloc_loop 0 i tc = Some (tc, None)"
| "task_alloc_loop (Suc n) i tc = do {
     k \<leftarrow> get_task tc i;
     if tk_flags k = MPROCESS_FLAGS_FREE then do {
       tc \<leftarrow> upd_task i task_reset tc;
       Some (tc, Some i)
     } else task_alloc_loop n (Suc i) tc
   }"

definition mprocess_task_alloc :: "TASKCTL \<Rightarrow> (TASKCTL \<times> nat option) option" where
  "mprocess_task_alloc tc = task_alloc_loop OS_MPROCESS_TASK_MAX 0 tc"

text \<open>
  The search loops of \<^verbatim>\<open>__mprocess_task_add\<close> and \<^verbatim>\<open>mprocess_task_remove\<close>: the index where the task
  was found, or the number of entries; \<open>n\<close> is the number of entries left.
\<close>

fun task_scan :: "nat option list \<Rightarrow> nat \<Rightarrow> nat \<Rightarrow> int \<Rightarrow> int option" where
  "task_scan tasks t 0 i = Some i"
| "task_scan tasks t (Suc n) i = do {
     x \<leftarrow> aget tasks i;
     if x = Some t then Some i else task_scan tasks t n (i + 1)
   }"

definition mprocess_task_add :: "nat \<Rightarrow> TASKCTL \<Rightarrow> TASKCTL option" where
  "mprocess_task_add t tc = do {
     k \<leftarrow> get_task tc t;
     lev \<leftarrow> get_level tc (tk_level k);
     i \<leftarrow> task_scan (tl_tasks lev) t (nat (tl_running lev)) 0;
     if i < tl_running lev then Some tc
     else do {
       tasks \<leftarrow> aset (tl_tasks lev) (tl_running lev) (Some t);
       tc \<leftarrow> set_level (tk_level k) (lev\<lparr>tl_tasks := tasks, tl_running := i32 (tl_running lev + 1)\<rparr>) tc;
       upd_task t (\<lambda>k. k\<lparr>tk_flags := MPROCESS_FLAGS_RUNNING\<rparr>) tc
     }
   }"

text \<open>The shifting loop; \<open>n\<close> is the number of turns left.\<close>

fun task_shift :: "nat \<Rightarrow> int \<Rightarrow> nat option list \<Rightarrow> nat option list option" where
  "task_shift 0 i tasks = Some tasks"
| "task_shift (Suc n) i tasks = do {
     x \<leftarrow> aget tasks (i + 1);
     tasks \<leftarrow> aset tasks i x;
     task_shift n (i + 1) tasks
   }"

text \<open>What \<^verbatim>\<open>mprocess_task_remove\<close> does to the level of the task, once it found the task at \<open>i\<close>.\<close>

definition level_remove :: "int \<Rightarrow> TASKLEVEL \<Rightarrow> TASKLEVEL option" where
  "level_remove i lev = do {
     let running = i32 (tl_running lev - 1);
     let now = (if i < tl_now lev then i32 (tl_now lev - 1) else tl_now lev);
     let now = (if now \<ge> running then 0 else now);
     tasks \<leftarrow> task_shift (nat (running - i)) i (tl_tasks lev);
     Some (lev\<lparr>tl_running := running, tl_now := now, tl_tasks := tasks\<rparr>)
   }"

definition mprocess_task_remove :: "nat option \<Rightarrow> TASKCTL \<Rightarrow> TASKCTL option" where
  "mprocess_task_remove task tc =
     (case task of None \<Rightarrow> Some tc
      | Some t \<Rightarrow> do {
          k \<leftarrow> get_task tc t;
          lev \<leftarrow> get_level tc (tk_level k);
          i \<leftarrow> task_scan (tl_tasks lev) t (nat (tl_running lev)) 0;
          lev \<leftarrow> level_remove i lev;
          tc \<leftarrow> upd_task t (\<lambda>k. k\<lparr>tk_flags := MPROCESS_FLAGS_ALLOCATED\<rparr>) tc;
          tc \<leftarrow> set_level (tk_level k) lev tc;
          Some (if tl_running lev = 0 then tc\<lparr>tc_lv_change := True\<rparr> else tc)
        })"

fun first_level_loop :: "TASKLEVEL list \<Rightarrow> nat \<Rightarrow> int \<Rightarrow> int option" where
  "first_level_loop levels 0 i = Some i"
| "first_level_loop levels (Suc n) i = do {
     lev \<leftarrow> aget levels i;
     if tl_running lev > 0 then Some i else first_level_loop levels n (i + 1)
   }"

definition mprocess_task_update_currentlv :: "TASKCTL \<Rightarrow> TASKCTL option" where
  "mprocess_task_update_currentlv tc = do {
     i \<leftarrow> first_level_loop (tc_level tc) OS_MPROCESS_TASKLEVELS_MAX 0;
     let i = (if i \<ge> int OS_MPROCESS_TASKLEVELS_MAX then int OS_MPROCESS_TASKLEVELS_MAX - 1 else i);
     Some (tc\<lparr>tc_now_lv := i, tc_lv_change := False\<rparr>)
   }"

definition mprocess_task_get_current :: "TASKCTL \<Rightarrow> nat option option" where
  "mprocess_task_get_current tc = do {
     lev \<leftarrow> get_level tc (tc_now_lv tc);
     aget (tl_tasks lev) (tl_now lev)
   }"

definition mprocess_task_run :: "nat option \<Rightarrow> int \<Rightarrow> u32 \<Rightarrow> TASKCTL \<Rightarrow> TASKCTL option" where
  "mprocess_task_run task level priority tc =
     (case task of None \<Rightarrow> Some tc
      | Some t \<Rightarrow> do {
          k \<leftarrow> get_task tc t;
          let level = (if level < 0 then tk_level k else level);
          tc \<leftarrow> (if priority > 0 then upd_task t (\<lambda>k. k\<lparr>tk_priority := priority\<rparr>) tc else Some tc);
          tc \<leftarrow> (if tk_flags k = MPROCESS_FLAGS_RUNNING \<and> tk_level k \<noteq> level
                 then mprocess_task_remove (Some t) tc else Some tc);
          k \<leftarrow> get_task tc t;
          tc \<leftarrow> (if tk_flags k = MPROCESS_FLAGS_ALLOCATED then do {
                   tc \<leftarrow> upd_task t (\<lambda>k. k\<lparr>tk_level := level\<rparr>) tc;
                   mprocess_task_add t tc
                 } else Some tc);
          Some (tc\<lparr>tc_lv_change := True\<rparr>)
        })"

text \<open>The part of \<^verbatim>\<open>mprocess_task_autoswitch\<close> that selects the next task: the new table, the current and the next task.\<close>

definition autoswitch_select :: "TASKCTL \<Rightarrow> (TASKCTL \<times> nat option \<times> nat option) option" where
  "autoswitch_select tc = do {
     lev \<leftarrow> get_level tc (tc_now_lv tc);
     taskCurrent \<leftarrow> aget (tl_tasks lev) (tl_now lev);
     let now = i32 (tl_now lev + 1);
     let now = (if now = tl_running lev then 0 else now);
     tc \<leftarrow> set_level (tc_now_lv tc) (lev\<lparr>tl_now := now\<rparr>) tc;
     tc \<leftarrow> (if tc_lv_change tc then mprocess_task_update_currentlv tc else Some tc);
     lev \<leftarrow> get_level tc (tc_now_lv tc);
     taskNext \<leftarrow> aget (tl_tasks lev) (tl_now lev);
     Some (tc, taskCurrent, taskNext)
   }"

section \<open>The invariant\<close>

definition ready :: "TASKLEVEL \<Rightarrow> nat list" where
  "ready lev = map the (take (nat (tl_running lev)) (tl_tasks lev))"

definition level_ok :: "TASK list \<Rightarrow> nat \<Rightarrow> TASKLEVEL \<Rightarrow> bool" where
  "level_ok tasks0 l lev \<longleftrightarrow>
     0 \<le> tl_running lev \<and> tl_running lev \<le> int OS_MPROCESS_TASKLEVEL_TASKS_MAX \<and>
     length (tl_tasks lev) = OS_MPROCESS_TASKLEVEL_TASKS_MAX \<and>
     None \<notin> set (take (nat (tl_running lev)) (tl_tasks lev)) \<and> distinct (ready lev) \<and>
     0 \<le> tl_now lev \<and> tl_now lev < max 1 (tl_running lev) \<and>
     (\<forall>t\<in>set (ready lev). t < length tasks0 \<and> tk_flags (tasks0 ! t) = MPROCESS_FLAGS_RUNNING \<and>
        tk_level (tasks0 ! t) = int l)"

definition sched_ok :: "TASKCTL \<Rightarrow> bool" where
  "sched_ok tc \<longleftrightarrow>
     length (tc_tasks0 tc) = OS_MPROCESS_TASK_MAX \<and> length (tc_level tc) = OS_MPROCESS_TASKLEVELS_MAX \<and>
     (\<forall>l < OS_MPROCESS_TASKLEVELS_MAX. level_ok (tc_tasks0 tc) l (tc_level tc ! l)) \<and>
     (\<forall>t < OS_MPROCESS_TASK_MAX. tk_flags (tc_tasks0 tc ! t) = MPROCESS_FLAGS_RUNNING \<longrightarrow>
        0 \<le> tk_level (tc_tasks0 tc ! t) \<and> tk_level (tc_tasks0 tc ! t) < int OS_MPROCESS_TASKLEVELS_MAX \<and>
        t \<in> set (ready (tc_level tc ! nat (tk_level (tc_tasks0 tc ! t))))) \<and>
     0 \<le> tc_now_lv tc \<and> tc_now_lv tc < int OS_MPROCESS_TASKLEVELS_MAX"

lemmas mprocess_max = OS_MPROCESS_TASK_MAX_def OS_MPROCESS_TASKLEVELS_MAX_def OS_MPROCESS_TASKLEVEL_TASKS_MAX_def

section \<open>The loops\<close>

lemma task_scan_spec:
  "i + n \<le> length xs \<Longrightarrow>
   task_scan xs t n (int i) = Some (int (i + length (takeWhile (\<lambda>x. x \<noteq> Some t) (take n (drop i xs)))))"
proof (induction n arbitrary: i)
  case (Suc n)
  then have i: "i < length xs" by simp
  then have d: "drop i xs = xs ! i # drop (Suc i) xs" by (simp add: Cons_nth_drop_Suc)
  have "task_scan xs t n (int (Suc i)) =
      Some (int (Suc i + length (takeWhile (\<lambda>x. x \<noteq> Some t) (take n (drop (Suc i) xs)))))"
    by (rule Suc.IH) (use Suc.prems in simp)
  then show ?case using i d by (simp add: aget_def add.commute)
qed simp

lemma task_shift_spec:
  "i + n < length xs \<Longrightarrow>
   task_shift n (int i) xs = Some (take i xs @ take n (drop (Suc i) xs) @ drop (i + n) xs)"
proof (induction n arbitrary: i xs)
  case (Suc n)
  let ?xs = "xs[i := xs ! Suc i]"
  have i: "Suc i < length xs" using Suc.prems by simp
  have "task_shift n (int (Suc i)) ?xs = Some (take (Suc i) ?xs @ take n (drop (Suc (Suc i)) ?xs) @ drop (Suc i + n) ?xs)"
    by (rule Suc.IH) (use Suc.prems in simp)
  moreover have "take (Suc i) ?xs = take i xs @ [xs ! Suc i]" using i by (simp add: take_Suc_conv_app_nth)
  moreover have "take (Suc n) (drop (Suc i) xs) = xs ! Suc i # take n (drop (Suc (Suc i)) xs)"
    using i by (simp add: take_Suc_conv_app_nth Cons_nth_drop_Suc [symmetric])
  ultimately show ?case using i by (simp add: aget_def aset_def nat_add_distrib add.commute)
qed simp

lemma first_level_spec:
  "i + n \<le> length levels \<Longrightarrow>
   first_level_loop levels n (int i) =
     Some (int (i + length (takeWhile (\<lambda>lev. \<not> tl_running lev > 0) (take n (drop i levels)))))"
proof (induction n arbitrary: i)
  case (Suc n)
  then have i: "i < length levels" by simp
  then have d: "drop i levels = levels ! i # drop (Suc i) levels" by (simp add: Cons_nth_drop_Suc)
  have "first_level_loop levels n (int (Suc i)) =
      Some (int (Suc i + length (takeWhile (\<lambda>lev. \<not> tl_running lev > 0) (take n (drop (Suc i) levels)))))"
    by (rule Suc.IH) (use Suc.prems in simp)
  then show ?case using i d by (simp add: aget_def add.commute)
qed simp

section \<open>One level\<close>

lemma level_ok_ready:
  assumes "level_ok tasks0 l lev"
  shows "take (nat (tl_running lev)) (tl_tasks lev) = map Some (ready lev)"
    and "length (ready lev) = nat (tl_running lev)" "nat (tl_running lev) \<le> length (tl_tasks lev)"
    "length (tl_tasks lev) = 100" "0 \<le> tl_running lev"
proof -
  let ?xs = "take (nat (tl_running lev)) (tl_tasks lev)"
  have "None \<notin> set ?xs" using assms by (simp add: level_ok_def)
  then have "map (\<lambda>x. Some (the x)) ?xs = ?xs" by (intro map_idI) (metis option.exhaust_sel)
  then show "?xs = map Some (ready lev)" by (simp add: ready_def o_def)
  show "nat (tl_running lev) \<le> length (tl_tasks lev)" "length (tl_tasks lev) = 100" "0 \<le> tl_running lev"
    using assms by (auto simp: level_ok_def mprocess_max)
  then show "length (ready lev) = nat (tl_running lev)" by (simp add: ready_def)
qed

lemma level_scan:
  assumes "level_ok tasks0 l lev"
  shows "task_scan (tl_tasks lev) t (nat (tl_running lev)) 0 =
    Some (int (length (takeWhile (\<lambda>x. x \<noteq> t) (ready lev))))"
  using task_scan_spec [of 0 "nat (tl_running lev)" "tl_tasks lev" t] level_ok_ready [OF assms]
  by (simp add: takeWhile_map o_def)

lemma ready_nth:
  assumes "level_ok tasks0 l lev" "0 \<le> i" "i < tl_running lev"
  shows "aget (tl_tasks lev) i = Some (Some (ready lev ! nat i))"
proof -
  note r = level_ok_ready [OF assms(1)]
  have "tl_tasks lev ! nat i = take (nat (tl_running lev)) (tl_tasks lev) ! nat i" using assms(2,3) by simp
  also have "\<dots> = Some (ready lev ! nat i)" using assms(2,3) r by (simp add: nat_less_iff)
  finally show ?thesis using assms(2,3) r by (simp add: aget_def)
qed

lemma ready_upd: "ready (lev\<lparr>tl_now := n\<rparr>) = ready lev"
  by (simp add: ready_def)

lemma ready_add:
  assumes "level_ok tasks0 l lev" "tl_running lev < 100"
    and "lev' = lev\<lparr>tl_tasks := (tl_tasks lev)[nat (tl_running lev) := Some t], tl_running := tl_running lev + 1\<rparr>"
  shows "ready lev' = ready lev @ [t]" "take (nat (tl_running lev')) (tl_tasks lev') = map Some (ready lev @ [t])"
proof -
  note r = level_ok_ready [OF assms(1)]
  have "nat (tl_running lev + 1) = Suc (nat (tl_running lev))" using r(5) by simp
  moreover have "nat (tl_running lev) < length (tl_tasks lev)" using r(4,5) assms(2) by simp
  ultimately show "take (nat (tl_running lev')) (tl_tasks lev') = map Some (ready lev @ [t])"
    using r by (simp add: assms(3) take_Suc_conv_app_nth)
  then show "ready lev' = ready lev @ [t]" by (simp add: ready_def o_def)
qed

lemma ready_remove:
  assumes "level_ok tasks0 l lev" "ready lev = xs @ t # ys"
    and "lev' = lev\<lparr>tl_running := tl_running lev - 1, tl_now := now,
      tl_tasks := take (length xs) (tl_tasks lev) @ take (length ys) (drop (Suc (length xs)) (tl_tasks lev)) @
        drop (length xs + length ys) (tl_tasks lev)\<rparr>"
  shows "ready lev' = xs @ ys" "take (nat (tl_running lev')) (tl_tasks lev') = map Some (xs @ ys)"
    "length (tl_tasks lev') = 100"
proof -
  note r = level_ok_ready [OF assms(1)]
  have len: "nat (tl_running lev) = Suc (length xs + length ys)" using r(2) assms(2) by simp
  have tk: "take (Suc (length xs + length ys)) (tl_tasks lev) = map Some (xs @ t # ys)" using r(1) len assms(2) by simp
  have a: "take (length xs) (tl_tasks lev) = map Some xs"
    using arg_cong [OF tk, of "take (length xs)"] by (simp add: min_def)
  have b: "take (length ys) (drop (Suc (length xs)) (tl_tasks lev)) = map Some ys"
    using arg_cong [OF tk, of "drop (Suc (length xs))"] by (simp add: drop_take)
  have c: "nat (tl_running lev - 1) = length xs + length ys" using len by simp
  show "take (nat (tl_running lev')) (tl_tasks lev') = map Some (xs @ ys)"
    by (simp add: assms(3) a b c)
  then show "ready lev' = xs @ ys" by (simp add: ready_def o_def)
  show "length (tl_tasks lev') = 100" using r(3,4) len by (simp add: assms(3))
qed

section \<open>Every operation keeps the invariant\<close>

lemma level_ok_cong:
  assumes "level_ok tasks0 l lev" "length tasks0' = length tasks0"
    and "\<And>t. t \<in> set (ready lev) \<Longrightarrow> tk_flags (tasks0' ! t) = tk_flags (tasks0 ! t) \<and> tk_level (tasks0' ! t) = tk_level (tasks0 ! t)"
  shows "level_ok tasks0' l lev"
  using assms by (auto simp: level_ok_def)

text \<open>A step that changes one task and the level it belongs to.\<close>

lemma sched_ok_upd:
  assumes ok: "sched_ok tc" and l: "l < 10" and t: "t < 1000"
    and tc': "tc_tasks0 tc' = (tc_tasks0 tc)[t := k']" "tc_level tc' = (tc_level tc)[l := lev']"
      "0 \<le> tc_now_lv tc'" "tc_now_lv tc' < 10"
    and lev': "level_ok ((tc_tasks0 tc)[t := k']) l lev'"
    and other: "\<And>l'. l' < 10 \<Longrightarrow> l' \<noteq> l \<Longrightarrow> t \<notin> set (ready (tc_level tc ! l'))"
    and same: "set (ready lev') - {t} = set (ready (tc_level tc ! l)) - {t}"
    and run: "tk_flags k' = MPROCESS_FLAGS_RUNNING \<Longrightarrow> tk_level k' = int l \<and> t \<in> set (ready lev')"
  shows "sched_ok tc'"
proof -
  have len: "length (tc_tasks0 tc) = 1000" "length (tc_level tc) = 10" using ok by (auto simp: sched_ok_def mprocess_max)
  have lo: "level_ok (tc_tasks0 tc') l' (tc_level tc' ! l')" if "l' < 10" for l'
  proof (cases "l' = l")
    case True
    then show ?thesis using lev' tc' len l by simp
  next
    case False
    have "level_ok (tc_tasks0 tc) l' (tc_level tc ! l')" using ok that by (simp add: sched_ok_def mprocess_max)
    then have "level_ok ((tc_tasks0 tc)[t := k']) l' (tc_level tc ! l')"
    proof (rule level_ok_cong)
      fix u assume "u \<in> set (ready (tc_level tc ! l'))"
      then have "u \<noteq> t" using other [OF that False] by blast
      then show "tk_flags ((tc_tasks0 tc)[t := k'] ! u) = tk_flags (tc_tasks0 tc ! u) \<and>
          tk_level ((tc_tasks0 tc)[t := k'] ! u) = tk_level (tc_tasks0 tc ! u)"
        by simp
    qed simp
    then show ?thesis using False tc' by simp
  qed
  moreover have "0 \<le> tk_level (tc_tasks0 tc' ! u) \<and> tk_level (tc_tasks0 tc' ! u) < 10 \<and>
      u \<in> set (ready (tc_level tc' ! nat (tk_level (tc_tasks0 tc' ! u))))"
    if u: "u < 1000" "tk_flags (tc_tasks0 tc' ! u) = MPROCESS_FLAGS_RUNNING" for u
  proof (cases "u = t")
    case True
    then show ?thesis using run u tc' len l t by simp
  next
    case False
    then have k: "tc_tasks0 tc' ! u = tc_tasks0 tc ! u" using tc' by simp
    have old: "0 \<le> tk_level (tc_tasks0 tc ! u)" "tk_level (tc_tasks0 tc ! u) < 10"
      "u \<in> set (ready (tc_level tc ! nat (tk_level (tc_tasks0 tc ! u))))"
      using ok u k by (auto simp: sched_ok_def mprocess_max)
    show ?thesis
    proof (cases "nat (tk_level (tc_tasks0 tc ! u)) = l")
      case True
      then show ?thesis using old k tc' len l same False by auto
    next
      case False
      then show ?thesis using old k tc' by simp
    qed
  qed
  ultimately show ?thesis using tc' len by (simp add: sched_ok_def mprocess_max)
qed

lemma sched_okD:
  assumes "sched_ok tc"
  shows "length (tc_tasks0 tc) = 1000" "length (tc_level tc) = 10"
    and "l < 10 \<Longrightarrow> level_ok (tc_tasks0 tc) l (tc_level tc ! l)"
    and "t < 1000 \<Longrightarrow> tk_flags (tc_tasks0 tc ! t) = MPROCESS_FLAGS_RUNNING \<Longrightarrow>
      0 \<le> tk_level (tc_tasks0 tc ! t) \<and> tk_level (tc_tasks0 tc ! t) < 10 \<and>
      t \<in> set (ready (tc_level tc ! nat (tk_level (tc_tasks0 tc ! t))))"
    and "0 \<le> tc_now_lv tc" "tc_now_lv tc < 10"
  using assms by (auto simp: sched_ok_def mprocess_max)

lemma ready_task:
  assumes "sched_ok tc" "l < 10" "t \<in> set (ready (tc_level tc ! l))"
  shows "t < 1000" "tk_flags (tc_tasks0 tc ! t) = MPROCESS_FLAGS_RUNNING" "tk_level (tc_tasks0 tc ! t) = int l"
  using sched_okD [OF assms(1)] assms(2,3) by (auto simp: level_ok_def)

lemma upd_task_ok: "t < length (tc_tasks0 tc) \<Longrightarrow>
    upd_task t f tc = Some (tc\<lparr>tc_tasks0 := (tc_tasks0 tc)[t := f (tc_tasks0 tc ! t)]\<rparr>)"
  by (simp add: upd_task_def aget_def aset_def)

lemma get_task_ok: "t < length (tc_tasks0 tc) \<Longrightarrow> get_task tc t = Some (tc_tasks0 tc ! t)"
  by (simp add: get_task_def aget_def)

lemma get_level_ok: "l < length (tc_level tc) \<Longrightarrow> get_level tc (int l) = Some (tc_level tc ! l)"
  by (simp add: get_level_def aget_def)

lemma set_level_ok: "l < length (tc_level tc) \<Longrightarrow> set_level (int l) lev tc = Some (tc\<lparr>tc_level := (tc_level tc)[l := lev]\<rparr>)"
  by (simp add: set_level_def aset_def)

text \<open>Adding a task that is not running, to a level with room for it, appends it to the ready tasks of its level.\<close>

lemma mprocess_task_add_ok:
  assumes ok: "sched_ok tc" and t: "t < 1000" and nr: "tk_flags (tc_tasks0 tc ! t) \<noteq> MPROCESS_FLAGS_RUNNING"
    and l: "tk_level (tc_tasks0 tc ! t) = int l" "l < 10" and room: "tl_running (tc_level tc ! l) < 100"
  shows "\<exists>tc'. mprocess_task_add t tc = Some tc' \<and> sched_ok tc' \<and>
    tc_tasks0 tc' = (tc_tasks0 tc)[t := (tc_tasks0 tc ! t)\<lparr>tk_flags := MPROCESS_FLAGS_RUNNING\<rparr>] \<and>
    ready (tc_level tc' ! l) = ready (tc_level tc ! l) @ [t] \<and> tl_now (tc_level tc' ! l) = tl_now (tc_level tc ! l) \<and>
    (\<forall>l'. l' \<noteq> l \<longrightarrow> tc_level tc' ! l' = tc_level tc ! l') \<and>
    tc_now_lv tc' = tc_now_lv tc \<and> tc_lv_change tc' = tc_lv_change tc"
proof -
  let ?k = "tc_tasks0 tc ! t" and ?lev = "tc_level tc ! l"
  note D = sched_okD [OF ok]
  have lo: "level_ok (tc_tasks0 tc) l ?lev" using D(3) l by simp
  note r = level_ok_ready [OF lo]
  have notin: "t \<notin> set (ready (tc_level tc ! l'))" if "l' < 10" for l'
    using ready_task(2) [OF ok that] nr by blast
  then have "takeWhile (\<lambda>x. x \<noteq> t) (ready ?lev) = ready ?lev" using l by (auto simp: takeWhile_eq_all_conv)
  then have "task_scan (tl_tasks ?lev) t (nat (tl_running ?lev)) 0 = Some (int (length (ready ?lev)))"
    using level_scan [OF lo, of t] by (simp only:)
  then have scan: "task_scan (tl_tasks ?lev) t (nat (tl_running ?lev)) 0 = Some (tl_running ?lev)"
    using r by simp
  let ?lev' = "?lev\<lparr>tl_tasks := (tl_tasks ?lev)[nat (tl_running ?lev) := Some t], tl_running := tl_running ?lev + 1\<rparr>"
  let ?k' = "?k\<lparr>tk_flags := MPROCESS_FLAGS_RUNNING\<rparr>"
  let ?tc = "tc\<lparr>tc_level := (tc_level tc)[l := ?lev'], tc_tasks0 := (tc_tasks0 tc)[t := ?k']\<rparr>"
  note ra = ready_add [OF lo room refl, of t]
  have add: "mprocess_task_add t tc = Some ?tc"
    using t l D(1,2) scan r room
    by (simp add: mprocess_task_add_def get_task_ok get_level_ok set_level_ok upd_task_ok aset_def i32_eq)
  have "level_ok ((tc_tasks0 tc)[t := ?k']) l ?lev'"
    unfolding level_ok_def ra
    using lo ra r room notin [OF l(2)] t l D(1) ready_task [OF ok l(2)]
    by (auto simp: level_ok_def mprocess_max nth_list_update)
  then have "sched_ok ?tc"
    by (intro sched_ok_upd [OF ok l(2) t]) (use ra notin D l in auto)
  then show ?thesis using add ra(1) D(2) l by auto
qed

lemma level_remove_ok:
  assumes lo: "level_ok tasks0 l lev" and rd: "ready lev = xs @ t # ys"
  shows "\<exists>lev'. level_remove (int (length xs)) lev = Some lev' \<and> ready lev' = xs @ ys \<and>
    take (nat (tl_running lev')) (tl_tasks lev') = map Some (xs @ ys) \<and> length (tl_tasks lev') = 100 \<and>
    tl_running lev' = int (length xs + length ys) \<and> 0 \<le> tl_now lev' \<and> tl_now lev' < max 1 (tl_running lev')"
proof -
  let ?n = "int (length xs + length ys)"
  note r = level_ok_ready [OF lo]
  have run: "tl_running lev = ?n + 1" using r(2,5) rd by simp
  have le: "?n + 1 \<le> 100" "0 \<le> tl_now lev" "tl_now lev < ?n + 1"
    using lo run by (auto simp: level_ok_def mprocess_max)
  let ?tasks = "take (length xs) (tl_tasks lev) @ take (length ys) (drop (Suc (length xs)) (tl_tasks lev)) @
        drop (length xs + length ys) (tl_tasks lev)"
  have shift: "task_shift (length ys) (int (length xs)) (tl_tasks lev) = Some ?tasks"
    using r(4) le(1) by (intro task_shift_spec) simp
  define now where "now = (let now = (if int (length xs) < tl_now lev then i32 (tl_now lev - 1) else tl_now lev)
    in if now \<ge> ?n then 0 else now)"
  have n: "i32 (tl_running lev - 1) = ?n" "i32 (tl_now lev - 1) = tl_now lev - 1" "nat (?n - int (length xs)) = length ys"
    using run le by (simp_all add: i32_eq)
  have "level_remove (int (length xs)) lev = Some (lev\<lparr>tl_running := ?n, tl_now := now, tl_tasks := ?tasks\<rparr>)"
    unfolding level_remove_def n(1) Let_def n(3) shift now_def by (simp only: Option.bind.bind_lunit)
  moreover have "?n = tl_running lev - 1" using run by simp
  moreover have "0 \<le> now" "now < max 1 ?n" using le n(2) by (auto simp: now_def Let_def)
  ultimately show ?thesis using ready_remove [OF lo rd refl, of now] by auto
qed

text \<open>Removing a running task takes it out of the ready tasks of its level and keeps the current position valid.\<close>

lemma mprocess_task_remove_ok:
  assumes ok: "sched_ok tc" and l: "l < 10" and rd: "ready (tc_level tc ! l) = xs @ t # ys"
  shows "\<exists>tc'. mprocess_task_remove (Some t) tc = Some tc' \<and> sched_ok tc' \<and>
    tc_tasks0 tc' = (tc_tasks0 tc)[t := (tc_tasks0 tc ! t)\<lparr>tk_flags := MPROCESS_FLAGS_ALLOCATED\<rparr>] \<and>
    ready (tc_level tc' ! l) = xs @ ys \<and> (\<forall>l'. l' \<noteq> l \<longrightarrow> tc_level tc' ! l' = tc_level tc ! l') \<and>
    tc_now_lv tc' = tc_now_lv tc \<and> tc_lv_change tc' = (tc_lv_change tc \<or> xs @ ys = [])"
proof -
  let ?k = "tc_tasks0 tc ! t" and ?lev = "tc_level tc ! l"
  note D = sched_okD [OF ok]
  have lo: "level_ok (tc_tasks0 tc) l ?lev" using D(3) l by simp
  have t: "t < 1000" "tk_level ?k = int l" "tk_flags ?k = MPROCESS_FLAGS_RUNNING"
    using ready_task [OF ok l, of t] rd by auto
  have di: "distinct (xs @ t # ys)" using lo rd by (simp add: level_ok_def)
  have "takeWhile (\<lambda>x. x \<noteq> t) (ready ?lev) = xs" using rd di by (simp add: takeWhile_append)
  then have scan: "task_scan (tl_tasks ?lev) t (nat (tl_running ?lev)) 0 = Some (int (length xs))"
    using level_scan [OF lo, of t] by simp
  obtain lev' where lev': "level_remove (int (length xs)) ?lev = Some lev'" "ready lev' = xs @ ys"
    "take (nat (tl_running lev')) (tl_tasks lev') = map Some (xs @ ys)" "length (tl_tasks lev') = 100"
    "tl_running lev' = int (length xs + length ys)" "0 \<le> tl_now lev'" "tl_now lev' < max 1 (tl_running lev')"
    using level_remove_ok [OF lo rd] by blast
  let ?k' = "?k\<lparr>tk_flags := MPROCESS_FLAGS_ALLOCATED\<rparr>"
  let ?tc = "tc\<lparr>tc_tasks0 := (tc_tasks0 tc)[t := ?k'], tc_level := (tc_level tc)[l := lev']\<rparr>"
  let ?tc' = "if tl_running lev' = 0 then ?tc\<lparr>tc_lv_change := True\<rparr> else ?tc"
  have rem: "mprocess_task_remove (Some t) tc = Some ?tc'"
    using t l D(1,2) scan lev'(1)
    by (simp add: mprocess_task_remove_def get_task_ok get_level_ok set_level_ok upd_task_ok)
  have "tl_running lev' \<le> 100" using lo rd lev'(5) level_ok_ready(2,5) [OF lo] by (auto simp: level_ok_def mprocess_max)
  then have "level_ok ((tc_tasks0 tc)[t := ?k']) l lev'"
    unfolding level_ok_def lev'(2,3)
    using lev'(4-7) di ready_task [OF ok l] D(1) rd by (auto simp: mprocess_max nth_list_update)
  then have "sched_ok ?tc'"
  proof (rule sched_ok_upd [OF ok l t(1), rotated 4])
    fix l' assume l': "l' < 10" "l' \<noteq> l"
    show "t \<notin> set (ready (tc_level tc ! l'))" using ready_task(3) [OF ok l'(1), of t] t(2) l'(2) by auto
  qed (use lev' rd di D in \<open>auto simp: mprocess_flags\<close>)
  moreover have "tl_running lev' = 0 \<longleftrightarrow> xs @ ys = []" using lev'(5) by (auto simp flip: of_nat_add)
  ultimately show ?thesis using rem lev'(2) D(2) l by auto
qed

text \<open>
  Running a task: a sleeping task goes to the end of the ready tasks of the given level, a running
  task moves to the given level if that is another one; priority 0 and a negative level keep the
  old values.
\<close>

definition run_level :: "TASKCTL \<Rightarrow> nat \<Rightarrow> int \<Rightarrow> int" where
  "run_level tc t level = (if level < 0 then tk_level (tc_tasks0 tc ! t) else level)"

definition run_priority :: "TASKCTL \<Rightarrow> nat \<Rightarrow> u32 \<Rightarrow> u32" where
  "run_priority tc t p = (if p > 0 then p else tk_priority (tc_tasks0 tc ! t))"

lemma sched_ok_priority:
  assumes "sched_ok tc" "t < 1000"
  shows "sched_ok (tc\<lparr>tc_tasks0 := (tc_tasks0 tc)[t := (tc_tasks0 tc ! t)\<lparr>tk_priority := p\<rparr>]\<rparr>)"
proof -
  let ?ts = "(tc_tasks0 tc)[t := (tc_tasks0 tc ! t)\<lparr>tk_priority := p\<rparr>]"
  note D = sched_okD [OF assms(1)]
  have eq: "tk_flags (?ts ! u) = tk_flags (tc_tasks0 tc ! u)" "tk_level (?ts ! u) = tk_level (tc_tasks0 tc ! u)" for u
    using assms(2) D(1) by (cases "u = t"; simp)+
  have "level_ok ?ts l (tc_level tc ! l)" if "l < 10" for l
    by (rule level_ok_cong [OF D(3) [OF that]]) (simp_all add: eq)
  then show ?thesis using D by (simp add: sched_ok_def mprocess_max eq)
qed

lemma sched_ok_lv_change [simp]: "sched_ok (tc\<lparr>tc_lv_change := b\<rparr>) = sched_ok tc"
  by (simp add: sched_ok_def)

lemma sched_ok_idle_level:
  assumes "sched_ok tc" "t < 1000" "tk_flags (tc_tasks0 tc ! t) \<noteq> MPROCESS_FLAGS_RUNNING"
  shows "sched_ok (tc\<lparr>tc_tasks0 := (tc_tasks0 tc)[t := (tc_tasks0 tc ! t)\<lparr>tk_level := l\<rparr>]\<rparr>)"
proof -
  let ?ts = "(tc_tasks0 tc)[t := (tc_tasks0 tc ! t)\<lparr>tk_level := l\<rparr>]"
  note D = sched_okD [OF assms(1)]
  have "level_ok ?ts l' (tc_level tc ! l')" if "l' < 10" for l'
  proof (rule level_ok_cong [OF D(3) [OF that]])
    fix u assume "u \<in> set (ready (tc_level tc ! l'))"
    then have "u \<noteq> t" using ready_task(2) [OF assms(1) that] assms(3) by blast
    then show "tk_flags (?ts ! u) = tk_flags (tc_tasks0 tc ! u) \<and> tk_level (?ts ! u) = tk_level (tc_tasks0 tc ! u)"
      by simp
  qed simp
  moreover have "0 \<le> tk_level (?ts ! u) \<and> tk_level (?ts ! u) < 10 \<and>
      u \<in> set (ready (tc_level tc ! nat (tk_level (?ts ! u))))"
    if "u < 1000" "tk_flags (?ts ! u) = MPROCESS_FLAGS_RUNNING" for u
  proof -
    have "u \<noteq> t" using that assms(2,3) D(1) by auto
    then show ?thesis using that D(4) [of u] by simp
  qed
  ultimately show ?thesis using D by (simp add: sched_ok_def mprocess_max)
qed

lemma mprocess_task_run_ok:
  assumes ok: "sched_ok tc" and t: "t < 1000" and lv: "run_level tc t level = int l" "l < 10"
    and fl: "tk_flags (tc_tasks0 tc ! t) \<in> {MPROCESS_FLAGS_ALLOCATED, MPROCESS_FLAGS_RUNNING}"
    and room: "tl_running (tc_level tc ! l) < 100"
  shows "\<exists>tc'. mprocess_task_run (Some t) level p tc = Some tc' \<and> sched_ok tc' \<and>
    t \<in> set (ready (tc_level tc' ! l)) \<and> tk_priority (tc_tasks0 tc' ! t) = run_priority tc t p \<and>
    tc_lv_change tc' \<and> tc_now_lv tc' = tc_now_lv tc"
proof -
  note D = sched_okD [OF ok]
  let ?k = "tc_tasks0 tc ! t"
  define tc1 where "tc1 = tc\<lparr>tc_tasks0 := (tc_tasks0 tc)[t := ?k\<lparr>tk_priority := run_priority tc t p\<rparr>]\<rparr>"
  have ok1: "sched_ok tc1" unfolding tc1_def by (rule sched_ok_priority [OF ok t])
  have k1: "tc_tasks0 tc1 ! t = ?k\<lparr>tk_priority := run_priority tc t p\<rparr>" using t D(1) by (simp add: tc1_def)
  have pr: "(if p > 0 then upd_task t (\<lambda>k. k\<lparr>tk_priority := p\<rparr>) tc else Some tc) = Some tc1"
    using t D(1) by (simp add: upd_task_ok tc1_def run_priority_def list_update_id)
  note D1 = sched_okD [OF ok1]
  have lev1: "tc_level tc1 = tc_level tc" "tc_now_lv tc1 = tc_now_lv tc" by (simp_all add: tc1_def)
  define body where "body = (\<lambda>tc2. do {
      k \<leftarrow> get_task tc2 t;
      tc \<leftarrow> (if tk_flags k = MPROCESS_FLAGS_ALLOCATED then do {
                   tc \<leftarrow> upd_task t (\<lambda>k. k\<lparr>tk_level := int l\<rparr>) tc2;
                   mprocess_task_add t tc
                 } else Some tc2);
      Some (tc\<lparr>tc_lv_change := True\<rparr>)})"
  have run: "mprocess_task_run (Some t) level p tc =
      do { tc2 \<leftarrow> (if tk_flags ?k = MPROCESS_FLAGS_RUNNING \<and> tk_level ?k \<noteq> int l
                 then mprocess_task_remove (Some t) tc1 else Some tc1); body tc2 }"
    using t D(1) pr lv(1)
    by (cases "level < 0") (simp_all add: mprocess_task_run_def get_task_ok run_level_def body_def Let_def cong: if_cong)
  have sleep: "\<exists>tc'. body tc2 = Some tc' \<and> sched_ok tc' \<and> t \<in> set (ready (tc_level tc' ! l)) \<and>
      tk_priority (tc_tasks0 tc' ! t) = run_priority tc t p \<and> tc_lv_change tc' \<and> tc_now_lv tc' = tc_now_lv tc"
    if ok2: "sched_ok tc2" and a: "tk_flags (tc_tasks0 tc2 ! t) = MPROCESS_FLAGS_ALLOCATED"
      and rm: "tl_running (tc_level tc2 ! l) < 100" and p2: "tk_priority (tc_tasks0 tc2 ! t) = run_priority tc t p"
      and n2: "tc_now_lv tc2 = tc_now_lv tc" for tc2
  proof -
    note D2 = sched_okD [OF ok2]
    let ?tc3 = "tc2\<lparr>tc_tasks0 := (tc_tasks0 tc2)[t := (tc_tasks0 tc2 ! t)\<lparr>tk_level := int l\<rparr>]\<rparr>"
    have ok3: "sched_ok ?tc3" by (rule sched_ok_idle_level [OF ok2 t]) (simp add: a mprocess_flags)
    obtain tc4 where tc4: "mprocess_task_add t ?tc3 = Some tc4" "sched_ok tc4"
        "tc_tasks0 tc4 = (tc_tasks0 ?tc3)[t := (tc_tasks0 ?tc3 ! t)\<lparr>tk_flags := MPROCESS_FLAGS_RUNNING\<rparr>]"
        "ready (tc_level tc4 ! l) = ready (tc_level ?tc3 ! l) @ [t]" "tc_now_lv tc4 = tc_now_lv ?tc3"
      using mprocess_task_add_ok [OF ok3 t, of l] a lv(2) rm t D2(1) by (auto simp: mprocess_flags)
    have "body tc2 = Some (tc4\<lparr>tc_lv_change := True\<rparr>)"
      using t D2(1) a tc4(1) by (simp add: body_def get_task_ok upd_task_ok)
    then show ?thesis using tc4 t D2(1) p2 n2 by simp
  qed
  show ?thesis
  proof (cases "tk_flags ?k = MPROCESS_FLAGS_RUNNING")
    case False
    then have "tk_flags ?k = MPROCESS_FLAGS_ALLOCATED" using fl by simp
    then show ?thesis using run False sleep [OF ok1] k1 room lev1 by (simp add: mprocess_flags)
  next
    case True
    then have rd: "0 \<le> tk_level ?k" "tk_level ?k < 10" "t \<in> set (ready (tc_level tc ! nat (tk_level ?k)))"
      using D(4) [OF t] by auto
    show ?thesis
    proof (cases "tk_level ?k = int l")
      case same: True
      have "body tc1 = Some (tc1\<lparr>tc_lv_change := True\<rparr>)"
        using t D1(1) k1 True by (simp add: body_def get_task_ok mprocess_flags)
      then show ?thesis using run same rd ok1 k1 lev1 by simp
    next
      case False
      have n10: "nat (tk_level ?k) < 10" using rd by simp
      obtain xs ys where sp: "ready (tc_level tc1 ! nat (tk_level ?k)) = xs @ t # ys"
        using rd(3) lev1 by (auto simp: in_set_conv_decomp)
      obtain tc2 where tc2: "mprocess_task_remove (Some t) tc1 = Some tc2" "sched_ok tc2"
        "tc_tasks0 tc2 = (tc_tasks0 tc1)[t := (tc_tasks0 tc1 ! t)\<lparr>tk_flags := MPROCESS_FLAGS_ALLOCATED\<rparr>]"
        "\<forall>l'. l' \<noteq> nat (tk_level ?k) \<longrightarrow> tc_level tc2 ! l' = tc_level tc1 ! l'" "tc_now_lv tc2 = tc_now_lv tc1"
        using mprocess_task_remove_ok [OF ok1 n10 sp] by blast
      have "l \<noteq> nat (tk_level ?k)" using False rd by auto
      then have "tl_running (tc_level tc2 ! l) < 100" using tc2(4) lev1 room by simp
      then show ?thesis using run True False tc2 sleep [OF tc2(2)] t D1(1) k1 lev1 by simp
    qed
  qed
qed

section \<open>Choosing the next task\<close>

text \<open>The highest priority level with a ready task (level 0 is the highest).\<close>

definition highest :: "TASKCTL \<Rightarrow> nat" where
  "highest tc = length (takeWhile (\<lambda>lev. \<not> tl_running lev > 0) (tc_level tc))"

lemma highest_cong: "map tl_running (tc_level tc') = map tl_running (tc_level tc) \<Longrightarrow> highest tc' = highest tc"
proof -
  have "highest tc = length (takeWhile (\<lambda>n. \<not> n > 0) (map tl_running (tc_level tc)))" for tc
    by (simp add: highest_def takeWhile_map o_def)
  then show "map tl_running (tc_level tc') = map tl_running (tc_level tc) \<Longrightarrow> highest tc' = highest tc" by simp
qed

lemma highest_ok:
  assumes "sched_ok tc" "l < 10" "tl_running (tc_level tc ! l) > 0"
  shows "highest tc < 10" "highest tc \<le> l" "tl_running (tc_level tc ! highest tc) > 0"
    "\<And>l'. l' < highest tc \<Longrightarrow> ready (tc_level tc ! l') = []"
proof -
  have len: "length (tc_level tc) = 10" using sched_okD [OF assms(1)] by simp
  show le: "highest tc \<le> l"
    unfolding highest_def using assms(2,3) len
    by (metis (no_types, lifting) linorder_not_less nth_mem set_takeWhileD takeWhile_nth)
  then show h: "highest tc < 10" using assms(2) by simp
  show "tl_running (tc_level tc ! highest tc) > 0"
    using nth_length_takeWhile [of "\<lambda>lev. \<not> tl_running lev > 0" "tc_level tc"] h len by (simp add: highest_def)
  fix l' assume l': "l' < highest tc"
  then have "\<not> tl_running (tc_level tc ! l') > 0"
    unfolding highest_def by (metis (no_types, lifting) nth_mem set_takeWhileD takeWhile_nth)
  moreover have "level_ok (tc_tasks0 tc) l' (tc_level tc ! l')" using sched_okD(3) [OF assms(1), of l'] l' h by simp
  ultimately show "ready (tc_level tc ! l') = []" using level_ok_ready(2) by fastforce
qed

lemma update_currentlv_ok:
  assumes "sched_ok tc" "l < 10" "tl_running (tc_level tc ! l) > 0"
  shows "mprocess_task_update_currentlv tc = Some (tc\<lparr>tc_now_lv := int (highest tc), tc_lv_change := False\<rparr>)"
proof -
  have "length (tc_level tc) = 10" using sched_okD [OF assms(1)] by simp
  then have "first_level_loop (tc_level tc) 10 0 = Some (int (highest tc))"
    using first_level_spec [of 0 10 "tc_level tc"] by (simp add: highest_def)
  then show ?thesis using highest_ok(1) [OF assms]
    by (simp add: mprocess_task_update_currentlv_def mprocess_max Let_def)
qed

lemma sched_ok_now_lv:
  assumes "sched_ok tc" "l < 10"
  shows "sched_ok (tc\<lparr>tc_now_lv := int l, tc_lv_change := b\<rparr>)"
  using assms by (simp add: sched_ok_def mprocess_max)

lemma sched_ok_now:
  assumes "sched_ok tc" "l < 10" "0 \<le> n" "n < max 1 (tl_running (tc_level tc ! l))"
  shows "sched_ok (tc\<lparr>tc_level := (tc_level tc)[l := (tc_level tc ! l)\<lparr>tl_now := n\<rparr>]\<rparr>)"
proof -
  note D = sched_okD [OF assms(1)]
  let ?L = "(tc_level tc)[l := (tc_level tc ! l)\<lparr>tl_now := n\<rparr>]"
  have rd: "ready (?L ! l') = ready (tc_level tc ! l')" for l'
    using D(2) assms(2) by (cases "l' = l") (simp_all add: ready_upd)
  have "level_ok (tc_tasks0 tc) l' (?L ! l')" if "l' < 10" for l'
    using D(3) [OF that] assms D(2) by (cases "l' = l") (auto simp: level_ok_def ready_upd)
  then show ?thesis using D by (simp add: sched_ok_def mprocess_max rd)
qed

lemma autoswitch_select_ok:
  assumes ok: "sched_ok tc" and l: "tc_now_lv tc = int l" and run: "tl_running (tc_level tc ! l) > 0"
  defines "n \<equiv> nat (tl_now (tc_level tc ! l))" and "r \<equiv> ready (tc_level tc ! l)"
    and "l' \<equiv> (if tc_lv_change tc then highest tc else l)"
  shows "\<exists>tc'. autoswitch_select tc = Some (tc', Some (r ! n),
      Some (if l' = l then r ! ((n + 1) mod length r) else ready (tc_level tc ! l') ! nat (tl_now (tc_level tc ! l')))) \<and>
    sched_ok tc' \<and> tc_tasks0 tc' = tc_tasks0 tc \<and> tc_now_lv tc' = int l' \<and> \<not> tc_lv_change tc' \<and>
    (\<forall>k. ready (tc_level tc' ! k) = ready (tc_level tc ! k)) \<and>
    tl_now (tc_level tc' ! l) = int ((n + 1) mod length r)"
proof -
  note D = sched_okD [OF ok]
  let ?lev = "tc_level tc ! l"
  have l10: "l < 10" using D(5,6) l by simp
  have lo: "level_ok (tc_tasks0 tc) l ?lev" using D(3) l10 by simp
  have now: "0 \<le> tl_now ?lev" "tl_now ?lev < tl_running ?lev" "tl_running ?lev \<le> 100"
    using lo run by (auto simp: level_ok_def mprocess_max)
  have len: "tl_running ?lev = int (length r)" using level_ok_ready(2,5) [OF lo] by (simp add: r_def)
  let ?now = "if i32 (tl_now ?lev + 1) = tl_running ?lev then 0 else i32 (tl_now ?lev + 1)"
  have nowv: "?now = int ((n + 1) mod length r)"
  proof (cases "n + 1 = length r")
    case True
    then show ?thesis using now len by (simp add: i32_eq n_def)
  next
    case False
    then have "n + 1 < length r" using now len by (simp add: n_def nat_less_iff)
    then show ?thesis using now len by (auto simp: i32_eq n_def)
  qed
  define tc1 where "tc1 = tc\<lparr>tc_level := (tc_level tc)[l := ?lev\<lparr>tl_now := int ((n + 1) mod length r)\<rparr>]\<rparr>"
  have rpos: "0 < length r" using run len by simp
  have ok1: "sched_ok tc1" unfolding tc1_def
    by (rule sched_ok_now [OF ok l10]) (use len rpos in \<open>simp_all add: less_max_iff_disj\<close>)
  have lev1: "tc_level tc1 ! l = ?lev\<lparr>tl_now := int ((n + 1) mod length r)\<rparr>"
    "k \<noteq> l \<Longrightarrow> tc_level tc1 ! k = tc_level tc ! k" for k
    using D(2) l10 by (simp_all add: tc1_def)
  have run1: "map tl_running (tc_level tc1) = map tl_running (tc_level tc)"
    using D(2) l10 list_update_id [of "map tl_running (tc_level tc)" l]
    by (simp add: tc1_def map_update)
  have hi: "highest tc1 = highest tc" by (rule highest_cong [OF run1])
  have rd1: "ready (tc_level tc1 ! k) = ready (tc_level tc ! k)" for k
    using lev1 by (cases "k = l") (simp_all add: ready_upd)
  have pos1: "tl_running (tc_level tc1 ! l) > 0" using run lev1 by simp
  define tc2 where "tc2 = (if tc_lv_change tc then tc1\<lparr>tc_now_lv := int (highest tc), tc_lv_change := False\<rparr> else tc1)"
  have upd: "(if tc_lv_change tc1 then mprocess_task_update_currentlv tc1 else Some tc1) = Some tc2"
    using update_currentlv_ok [OF ok1 l10 pos1] by (simp add: tc2_def hi) (simp add: tc1_def)
  have h10: "highest tc < 10" "tl_running (tc_level tc1 ! highest tc) > 0"
    using highest_ok(1,3) [OF ok1 l10 pos1] hi by simp_all
  have l': "l' < 10" "tl_running (tc_level tc1 ! l') > 0" using h10 l10 pos1 by (simp_all add: l'_def)
  have ok2: "sched_ok tc2" using sched_ok_now_lv [OF ok1 h10(1)] ok1 by (simp add: tc2_def)
  have tc2: "tc_level tc2 = tc_level tc1" "tc_now_lv tc2 = int l'" "\<not> tc_lv_change tc2" "tc_tasks0 tc2 = tc_tasks0 tc"
    using l by (simp_all add: tc2_def l'_def tc1_def)
  have lo2: "level_ok (tc_tasks0 tc2) l' (tc_level tc1 ! l')" using sched_okD(3) [OF ok2 l'(1)] tc2(1) by simp
  then have nb: "0 \<le> tl_now (tc_level tc1 ! l')" "tl_now (tc_level tc1 ! l') < tl_running (tc_level tc1 ! l')"
    using l'(2) by (auto simp: level_ok_def)
  have nxt: "aget (tl_tasks (tc_level tc1 ! l')) (tl_now (tc_level tc1 ! l')) =
      Some (Some (ready (tc_level tc ! l') ! nat (tl_now (tc_level tc1 ! l'))))"
    using ready_nth [OF lo2 nb] by (simp add: rd1)
  have cur: "aget (tl_tasks ?lev) (tl_now ?lev) = Some (Some (r ! n))"
    using ready_nth [OF lo now(1,2)] by (simp add: r_def n_def)
  have get1: "get_level tc (int l) = Some ?lev" using l10 D(2) by (simp add: get_level_ok)
  have set1: "set_level (int l) (?lev\<lparr>tl_now := ?now\<rparr>) tc = Some tc1"
    unfolding nowv using l10 D(2) by (simp add: set_level_ok tc1_def)
  have get2: "get_level tc2 (tc_now_lv tc2) = Some (tc_level tc1 ! l')"
    using l'(1) sched_okD(2) [OF ok2] tc2 by (simp add: get_level_ok)
  have "autoswitch_select tc = Some (tc2, Some (r ! n), Some (ready (tc_level tc ! l') ! nat (tl_now (tc_level tc1 ! l'))))"
    by (simp only: autoswitch_select_def Let_def l get1 cur set1 upd get2 nxt Option.bind.bind_lunit)
  moreover have "nat (tl_now (tc_level tc1 ! l')) = (if l' = l then (n + 1) mod length r else nat (tl_now (tc_level tc ! l')))"
    using lev1 by simp
  ultimately show ?thesis using ok2 tc2 rd1 lev1(1) by (auto simp: r_def)
qed

section \<open>Properties\<close>

text \<open>A table with the boot task on level 0 and the idle task on level 9, both ready, as \<^verbatim>\<open>mprocess_init\<close> leaves it.\<close>

definition tss0 :: TSS32 where
  "tss0 = \<lparr>tss_link = 0, tss_esp0 = 0, tss_ss0 = 0, tss_esp1 = 0, tss_ss1 = 0, tss_esp2 = 0, tss_ss2 = 0, tss_cr3 = 0,
     tss_eip = 0, tss_eflags = 0, tss_eax = 0, tss_ecx = 0, tss_edx = 0, tss_ebx = 0, tss_esp = 0, tss_ebp = 0,
     tss_esi = 0, tss_edi = 0, tss_es = 0, tss_cs = 0, tss_ss = 0, tss_ds = 0, tss_fs = 0, tss_gs = 0, tss_ldtr = 0,
     tss_iopb = 0, tss_ssp = 0\<rparr>"

definition task0 :: TASK where
  "task0 = \<lparr>tk_sel = 24, tk_flags = 0, tk_priority = 2, tk_level = 0, tk_tss = tss0\<rparr>"

definition level0 :: "nat list \<Rightarrow> TASKLEVEL" where
  "level0 ts = \<lparr>tl_running = int (length ts), tl_now = 0, tl_tasks = map Some ts @ replicate (100 - length ts) None\<rparr>"

definition taskctl0 :: TASKCTL where
  "taskctl0 = \<lparr>tc_now_lv = 0, tc_lv_change = False,
     tc_level = level0 [0, 2] # replicate 8 (level0 []) @ [level0 [1]],
     tc_tasks0 = [task0\<lparr>tk_flags := 2\<rparr>, task0\<lparr>tk_flags := 2, tk_level := 9\<rparr>, task0\<lparr>tk_flags := 2\<rparr>, task0\<lparr>tk_flags := 1\<rparr>] @
       replicate 996 task0\<rparr>"

lemma level0_ready: "length ts \<le> 100 \<Longrightarrow> ready (level0 ts) = ts"
  by (simp add: ready_def level0_def o_def)

lemma taskctl0_level:
  "l < 10 \<Longrightarrow> tc_level taskctl0 ! l = (if l = 0 then level0 [0, 2] else if l = 9 then level0 [1] else level0 [])"
  by (auto simp: taskctl0_def nth_Cons' nth_append)

lemma taskctl0_task:
  "t < 1000 \<Longrightarrow> tc_tasks0 taskctl0 ! t = (if t = 0 \<or> t = 2 then task0\<lparr>tk_flags := 2\<rparr> else
      if t = 1 then task0\<lparr>tk_flags := 2, tk_level := 9\<rparr> else if t = 3 then task0\<lparr>tk_flags := 1\<rparr> else task0)"
  by (auto simp: taskctl0_def nth_Cons' nth_append)

lemma taskctl0_sel: "tc_now_lv taskctl0 = 0" "\<not> tc_lv_change taskctl0"
  by (simp_all add: taskctl0_def)

lemma taskctl0_ok: "sched_ok taskctl0"
proof -
  note lv = taskctl0_level and tk = taskctl0_task
  have len: "length (tc_tasks0 taskctl0) = 1000" "length (tc_level taskctl0) = 10" by (simp_all add: taskctl0_def)
  have "level_ok (tc_tasks0 taskctl0) l (tc_level taskctl0 ! l)" if "l < 10" for l
    using that unfolding level_ok_def lv [OF that]
    by (auto simp: level0_ready len tk mprocess_flags task0_def) (auto simp: level0_def mprocess_max)
  moreover have "tk_flags (tc_tasks0 taskctl0 ! t) = 2 \<longrightarrow> t \<in> {0, 1, 2}" if "t < 1000" for t
    using tk [OF that] by (auto simp: task0_def)
  ultimately show ?thesis using len
    by (auto simp: sched_ok_def mprocess_max mprocess_flags tk lv level0_ready task0_def taskctl0_def [THEN arg_cong, of tc_now_lv])
qed



text \<open>The autoswitch repeated \<open>k\<close> times: the tables and the task that runs then.\<close>

fun autoswitch_iter :: "nat \<Rightarrow> TASKCTL \<Rightarrow> TASKCTL option" where
  "autoswitch_iter 0 tc = Some tc"
| "autoswitch_iter (Suc k) tc = do { (tc, cur, nxt) \<leftarrow> autoswitch_select tc; autoswitch_iter k tc }"

lemma autoswitch_iter_ok:
  assumes "sched_ok tc" "tc_now_lv tc = int l" "r = ready (tc_level tc ! l)" "r \<noteq> []" "\<not> tc_lv_change tc"
    and "tl_now (tc_level tc ! l) = int n"
  shows "\<exists>tc'. autoswitch_iter k tc = Some tc' \<and> sched_ok tc' \<and> tc_now_lv tc' = int l \<and>
    ready (tc_level tc' ! l) = r \<and> tl_now (tc_level tc' ! l) = int ((n + k) mod length r) \<and> n < length r"
  using assms
proof (induction k arbitrary: tc n)
  case 0
  have l10: "l < 10" using sched_okD(5,6) [OF 0(1)] 0(2) by simp
  have "level_ok (tc_tasks0 tc) l (tc_level tc ! l)" using sched_okD(3) [OF 0(1) l10] .
  then have "int n < max 1 (int (length r))" using 0 level_ok_ready(2,5) by (auto simp: level_ok_def)
  then have "n < length r" using 0(4) by (auto simp: less_max_iff_disj)
  then show ?case using 0 by simp
next
  case (Suc k)
  have l10: "l < 10" using sched_okD(5,6) [OF Suc.prems(1)] Suc.prems(2) by simp
  have lo: "level_ok (tc_tasks0 tc) l (tc_level tc ! l)" using sched_okD(3) [OF Suc.prems(1) l10] .
  have len: "tl_running (tc_level tc ! l) = int (length r)" using level_ok_ready(2,5) [OF lo] Suc.prems(3) by simp
  then have nr: "n < length r" using lo Suc.prems(4,6) by (auto simp: level_ok_def less_max_iff_disj)
  obtain tc1 where tc1: "autoswitch_select tc = Some (tc1, Some (r ! n), Some (r ! ((n + 1) mod length r)))"
    "sched_ok tc1" "tc_now_lv tc1 = int l" "\<not> tc_lv_change tc1"
    "\<forall>k. ready (tc_level tc1 ! k) = ready (tc_level tc ! k)" "tl_now (tc_level tc1 ! l) = int ((n + 1) mod length r)"
    using autoswitch_select_ok [OF Suc.prems(1,2)] Suc.prems(3-6) len by auto
  have "\<exists>tc'. autoswitch_iter k tc1 = Some tc' \<and> sched_ok tc' \<and> tc_now_lv tc' = int l \<and>
    ready (tc_level tc' ! l) = r \<and> tl_now (tc_level tc' ! l) = int (((n + 1) mod length r + k) mod length r) \<and>
    (n + 1) mod length r < length r"
    by (rule Suc.IH) (use tc1 Suc.prems in auto)
  moreover have "((n + 1) mod length r + k) mod length r = (n + Suc k) mod length r"
    by (simp add: mod_add_left_eq)
  ultimately show ?case using tc1(1) nr by auto
qed



text \<open>
  When the current level has been emptied (its only task was moved to another level), the
  autoswitch still advances the position of that level from 0 to 1. The position then points
  behind the next task that will be put on the level, and the tables are inconsistent.
\<close>

theorem autoswitch_emptied_level:
  assumes ok: "sched_ok tc" and l: "tc_now_lv tc = int l" "ready (tc_level tc ! l) = []"
    and other: "tc_lv_change tc" "l' < 10" "ready (tc_level tc ! l') \<noteq> []"
  shows "\<exists>tc' cur nxt. autoswitch_select tc = Some (tc', cur, nxt) \<and> tl_now (tc_level tc' ! l) = 1 \<and>
    ready (tc_level tc' ! l) = [] \<and> \<not> sched_ok tc'"
proof -
  note D = sched_okD [OF ok]
  have l10: "l < 10" using D(5,6) l by simp
  have lo: "level_ok (tc_tasks0 tc) l (tc_level tc ! l)" by (rule D(3) [OF l10])
  have run0: "tl_running (tc_level tc ! l) = 0" and now0: "tl_now (tc_level tc ! l) = 0"
    using level_ok_ready(2,5) [OF lo] l(2) lo by (auto simp: level_ok_def)
  have lo': "level_ok (tc_tasks0 tc) l' (tc_level tc ! l')" by (rule D(3) [OF other(2)])
  have pos: "tl_running (tc_level tc ! l') > 0" using level_ok_ready(2) [OF lo'] other(3) by (cases "tl_running (tc_level tc ! l') > 0") auto
  then have ne: "l' \<noteq> l" using run0 by auto
  define tc1 where "tc1 = tc\<lparr>tc_level := (tc_level tc)[l := (tc_level tc ! l)\<lparr>tl_now := 1\<rparr>]\<rparr>"
  have lev1: "tc_level tc1 ! l = (tc_level tc ! l)\<lparr>tl_now := 1\<rparr>" "k \<noteq> l \<Longrightarrow> tc_level tc1 ! k = tc_level tc ! k" for k
    using D(2) l10 by (simp_all add: tc1_def)
  have hi: "highest tc1 = highest tc"
    using D(2) l10 list_update_id [of "map tl_running (tc_level tc)" l]
    by (intro highest_cong) (simp add: tc1_def map_update)
  note h = highest_ok [OF ok other(2) pos]
  have hl: "highest tc \<noteq> l" using h(3) run0 by auto
  have "length (tc_level tc1) = 10" using D(2) by (simp add: tc1_def)
  then have "first_level_loop (tc_level tc1) 10 0 = Some (int (highest tc1))"
    using first_level_spec [of 0 10 "tc_level tc1"] by (simp add: highest_def)
  then have upd: "mprocess_task_update_currentlv tc1 = Some (tc1\<lparr>tc_now_lv := int (highest tc), tc_lv_change := False\<rparr>)"
    using h(1) by (simp add: mprocess_task_update_currentlv_def mprocess_max Let_def hi)
  let ?tc2 = "tc1\<lparr>tc_now_lv := int (highest tc), tc_lv_change := False\<rparr>"
  have loh: "level_ok (tc_tasks0 tc) (highest tc) (tc_level tc ! highest tc)" by (rule D(3) [OF h(1)])
  then have "aget (tl_tasks (tc_level tc ! highest tc)) (tl_now (tc_level tc ! highest tc)) =
      Some (Some (ready (tc_level tc ! highest tc) ! nat (tl_now (tc_level tc ! highest tc))))"
    using h(3) by (intro ready_nth) (auto simp: level_ok_def)
  moreover have "aget (tl_tasks (tc_level tc ! l)) 0 = Some (tl_tasks (tc_level tc ! l) ! 0)"
    using level_ok_ready(4) [OF lo] by (simp add: aget_def)
  ultimately have "autoswitch_select tc = Some (?tc2, tl_tasks (tc_level tc ! l) ! 0,
      Some (ready (tc_level tc ! highest tc) ! nat (tl_now (tc_level tc ! highest tc))))"
    using l l10 D(2) run0 now0 upd other(1) h(1) lev1(2) [OF hl]
    by (simp add: autoswitch_select_def get_level_ok set_level_ok i32_eq tc1_def [symmetric])
      (simp add: tc1_def get_level_ok)
  moreover have "\<not> sched_ok ?tc2"
  proof
    assume "sched_ok ?tc2"
    then have "level_ok (tc_tasks0 ?tc2) l (tc_level tc1 ! l)" using sched_okD(3) l10 by fastforce
    then show False using lev1(1) run0 by (simp add: level_ok_def)
  qed
  ultimately show ?thesis using lev1(1) l(2) by (auto simp: ready_upd)
qed

theorem autoswitch_emptied_level_witness:
  "\<exists>tc tc' cur nxt. sched_ok tc \<and> autoswitch_select tc = Some (tc', cur, nxt) \<and> \<not> sched_ok tc'"
proof -
  have "ready (tc_level taskctl0 ! 0) = [] @ 0 # [2]" by (simp add: taskctl0_level level0_ready)
  from mprocess_task_remove_ok [OF taskctl0_ok _ this]
  obtain tc1 where tc1: "sched_ok tc1" "ready (tc_level tc1 ! 0) = [] @ 2 # []" "tc_now_lv tc1 = 0"
    "tc_level tc1 ! 9 = tc_level taskctl0 ! 9" by (auto simp: taskctl0_sel)
  from mprocess_task_remove_ok [OF tc1(1) _ tc1(2)]
  obtain tc2 where tc2: "sched_ok tc2" "ready (tc_level tc2 ! 0) = []" "tc_now_lv tc2 = 0" "tc_lv_change tc2"
    "tc_level tc2 ! 9 = tc_level taskctl0 ! 9" using tc1(3,4) by auto
  have "ready (tc_level tc2 ! 9) = [1]" using tc2(5) by (simp add: taskctl0_level level0_ready)
  then show ?thesis using autoswitch_emptied_level [OF tc2(1), of 0 9] tc2 by auto
qed

end
