(* ===== verification/Timer.thy ===== *)
theory Timer
  imports Dlist
begin

text \<open>
  The timer table of \<^verbatim>\<open>src/src/pic/timer.{h,c}\<close>: 500 timers, of which the last is the guard node of a circular
  list that holds the free and the running timers in the order of their target ticks. A
  \<^verbatim>\<open>TIMER *\<close> is the index of its element, which also names its list node; a \<^verbatim>\<open>MPFIFO32 *\<close> is an address,
  0 for \<^verbatim>\<open>NULL\<close>. The interrupt handler and the functions that use the heap are in theory \<open>Sched\<close>.
\<close>

section \<open>Data\<close>

record TIMER =
  tm_target_tick :: u32
  tm_flags :: u32
  tm_fifo :: u32
  tm_data :: u8

record TIMERCTL =
  ctl_tick :: u32
  ctl_listtail :: nat
  ctl_next_alarm :: u32
  ctl_timer :: "nat \<Rightarrow> TIMER"
  ctl_links :: "nat dstore"

definition TIMER_FLAGS_FREE :: u32 where "TIMER_FLAGS_FREE = 0"
definition TIMER_FLAGS_ALLOCATED :: u32 where "TIMER_FLAGS_ALLOCATED = 1"
definition TIMER_FLAGS_ONCOUNTDOWN :: u32 where "TIMER_FLAGS_ONCOUNTDOWN = 2"
definition TIMER_FLAGS_GUARDNODE :: u32 where "TIMER_FLAGS_GUARDNODE = 0xffff"
definition UINT32_MAX :: u32 where "UINT32_MAX = 0xffffffff"

lemmas timer_flags = TIMER_FLAGS_FREE_def TIMER_FLAGS_ALLOCATED_def TIMER_FLAGS_ONCOUNTDOWN_def
  TIMER_FLAGS_GUARDNODE_def

definition upd_timer :: "nat \<Rightarrow> (TIMER \<Rightarrow> TIMER) \<Rightarrow> TIMERCTL \<Rightarrow> TIMERCTL" where
  "upd_timer t f c = c\<lparr>ctl_timer := (ctl_timer c)(t := f (ctl_timer c t))\<rparr>"

definition upd_ctl_links :: "(nat dstore \<Rightarrow> nat dstore) \<Rightarrow> TIMERCTL \<Rightarrow> TIMERCTL" where
  "upd_ctl_links f c = c\<lparr>ctl_links := f (ctl_links c)\<rparr>"

abbreviation target :: "TIMERCTL \<Rightarrow> nat \<Rightarrow> u32" where
  "target c t \<equiv> tm_target_tick (ctl_timer c t)"

abbreviation flags :: "TIMERCTL \<Rightarrow> nat \<Rightarrow> u32" where
  "flags c t \<equiv> tm_flags (ctl_timer c t)"

section \<open>Operations\<close>

definition timer_set_default_params :: "nat option \<Rightarrow> TIMERCTL \<Rightarrow> TIMERCTL" where
  "timer_set_default_params t c =
     (case t of None \<Rightarrow> c
      | Some t \<Rightarrow>
          upd_ctl_links (dlist_init t)
            (upd_timer t (\<lambda>m. m\<lparr>tm_flags := TIMER_FLAGS_FREE, tm_data := 0, tm_fifo := 0, tm_target_tick := UINT32_MAX\<rparr>) c))"

text \<open>The loop that connects the timers; \<open>n\<close> is the number of turns left.\<close>

fun timerctl_init_loop :: "nat \<Rightarrow> nat \<Rightarrow> nat \<Rightarrow> TIMERCTL \<Rightarrow> TIMERCTL" where
  "timerctl_init_loop 0 i prev c = c"
| "timerctl_init_loop (Suc n) i prev c =
     timerctl_init_loop n (Suc i) i (upd_ctl_links (insert_after_st prev i) (timer_set_default_params (Some i) c))"

definition timerctl_init :: "TIMERCTL \<Rightarrow> TIMERCTL" where
  "timerctl_init c =
     (let c = c\<lparr>ctl_tick := 0, ctl_next_alarm := UINT32_MAX\<rparr>;
          timerTail = OS_MAX_TIMER - 1;
          c = c\<lparr>ctl_listtail := timerTail\<rparr>;
          c = timer_set_default_params (Some timerTail) c;
          c = upd_timer timerTail (\<lambda>m. m\<lparr>tm_flags := TIMER_FLAGS_GUARDNODE\<rparr>) c
      in timerctl_init_loop (OS_MAX_TIMER - 1) 0 timerTail c)"

definition get_timer_prev :: "TIMERCTL \<Rightarrow> nat option \<Rightarrow> nat option" where
  "get_timer_prev c timer = (case timer of None \<Rightarrow> None | Some t \<Rightarrow> Some (dl_prev (ctl_links c t)))"

definition get_timer_next :: "TIMERCTL \<Rightarrow> nat option \<Rightarrow> nat option" where
  "get_timer_next c timer = (case timer of None \<Rightarrow> None | Some t \<Rightarrow> Some (dl_next (ctl_links c t)))"

fun timer_alloc_loop :: "nat \<Rightarrow> nat \<Rightarrow> u32 \<Rightarrow> TIMERCTL \<Rightarrow> TIMERCTL \<times> nat option" where
  "timer_alloc_loop 0 i fifo32 c = (c, None)"
| "timer_alloc_loop (Suc n) i fifo32 c =
     (if flags c i = TIMER_FLAGS_FREE then
        (let c = upd_timer i (\<lambda>m. m\<lparr>tm_flags := TIMER_FLAGS_ALLOCATED, tm_fifo := fifo32\<rparr>) c
         in (upd_ctl_links (remove_st i) c, Some i))
      else timer_alloc_loop n (Suc i) fifo32 c)"

definition timer_alloc_customfifo :: "u32 \<Rightarrow> TIMERCTL \<Rightarrow> TIMERCTL \<times> nat option" where
  "timer_alloc_customfifo fifo32 c = timer_alloc_loop OS_MAX_TIMER 0 fifo32 c"

text \<open>
  The loop that puts timer \<open>t\<close> in front of the first timer behind \<open>head\<close> whose target is not
  smaller; if the walk comes back to \<open>head\<close>, nothing is inserted.
\<close>

definition timer_insert :: "nat \<Rightarrow> nat \<Rightarrow> TIMERCTL \<Rightarrow> TIMERCTL option" where
  "timer_insert head t c = do {
     pos \<leftarrow> list_find (\<lambda>p. target c p \<ge> target c t) (\<lambda>p. dl_next (ctl_links c p)) head (dl_next (ctl_links c head));
     case pos of None \<Rightarrow> Some c | Some p \<Rightarrow> Some (upd_ctl_links (insert_before_st p t) c)
   }"

text \<open>Setting the parameters and updating the next alarm, the same in both cases of \<^verbatim>\<open>timer_settimer\<close>.\<close>

definition timer_arm :: "nat \<Rightarrow> u32 \<Rightarrow> u8 \<Rightarrow> TIMERCTL \<Rightarrow> TIMERCTL" where
  "timer_arm t timeout data c =
     (let c = upd_timer t (\<lambda>m. m\<lparr>tm_target_tick := ctl_tick c + timeout, tm_flags := TIMER_FLAGS_ONCOUNTDOWN, tm_data := data\<rparr>) c
      in if ctl_next_alarm c > target c t then c\<lparr>ctl_next_alarm := target c t\<rparr> else c)"

definition timer_settimer :: "nat option \<Rightarrow> u32 \<Rightarrow> u8 \<Rightarrow> TIMERCTL \<Rightarrow> TIMERCTL option" where
  "timer_settimer timer timeout data c =
     (case timer of None \<Rightarrow> Some c
      | Some t \<Rightarrow> do {
          let data = (if data = 0 then tm_data (ctl_timer c t) else data);
          c \<leftarrow> (if flags c t = TIMER_FLAGS_ONCOUNTDOWN then
                 (let c = (if ctl_next_alarm c = target c t then c\<lparr>ctl_next_alarm := target c (the (get_timer_next c timer))\<rparr> else c);
                      prevTimer = the (get_timer_prev c timer);
                      c = upd_ctl_links (remove_st t) c;
                      c = timer_arm t timeout data c;
                      head = (if target c prevTimer < target c t then prevTimer else ctl_listtail c)
                  in timer_insert head t c)
               else Some c);
          (if flags c t = TIMER_FLAGS_ALLOCATED then timer_insert (ctl_listtail c) t (timer_arm t timeout data c)
           else Some c)
        })"

text \<open>\<^verbatim>\<open>timer_free\<close> up to the release of the timer's FIFO in the heap; the second component is its address.\<close>

definition timer_free_ctl :: "nat option \<Rightarrow> TIMERCTL \<Rightarrow> TIMERCTL \<times> u32" where
  "timer_free_ctl timer c =
     (case timer of None \<Rightarrow> (c, 0)
      | Some t \<Rightarrow>
          if flags c t = TIMER_FLAGS_GUARDNODE then (c, 0)
          else
            (let c = (if flags c t = TIMER_FLAGS_ONCOUNTDOWN \<and> ctl_next_alarm c = target c t
                      then c\<lparr>ctl_next_alarm := target c (the (get_timer_next c timer))\<rparr> else c);
                 c = upd_ctl_links (remove_st t) c;
                 fifo = tm_fifo (ctl_timer c t);
                 c = timer_set_default_params (Some t) c;
                 c = upd_ctl_links (insert_before_st (ctl_listtail c) t) c
             in (c, fifo)))"

definition timer_gettick :: "TIMERCTL \<Rightarrow> int" where
  "timer_gettick c = sint (ctl_tick c)"

section \<open>The invariant\<close>

text \<open>The main list behind the guard, and the timers \<open>U\<close> that are in no list.\<close>

definition links_ok :: "nat dstore \<Rightarrow> nat list \<Rightarrow> nat set \<Rightarrow> bool" where
  "links_ok h xs U \<longleftrightarrow> dl_ring h (499 # xs) \<and> (\<forall>u\<in>U. dl_ring h [u]) \<and> U \<inter> set (499 # xs) = {}"

definition timers_ok :: "TIMERCTL \<Rightarrow> nat list \<Rightarrow> bool" where
  "timers_ok c xs \<longleftrightarrow>
     ctl_listtail c = 499 \<and> flags c 499 = TIMER_FLAGS_GUARDNODE \<and> target c 499 = UINT32_MAX \<and>
     links_ok (ctl_links c) xs {t. t < 499 \<and> flags c t = TIMER_FLAGS_ALLOCATED} \<and>
     set xs = {t. t < 499 \<and> flags c t \<in> {TIMER_FLAGS_FREE, TIMER_FLAGS_ONCOUNTDOWN}} \<and>
     (\<forall>t < 499. flags c t \<in> {TIMER_FLAGS_FREE, TIMER_FLAGS_ALLOCATED, TIMER_FLAGS_ONCOUNTDOWN}) \<and>
     (\<forall>t < 499. flags c t = TIMER_FLAGS_FREE \<longrightarrow> target c t = UINT32_MAX) \<and>
     sorted (map (target c) xs)"

text \<open>The next alarm is the target of the first timer of the list.\<close>

definition alarm_ok :: "TIMERCTL \<Rightarrow> nat list \<Rightarrow> bool" where
  "alarm_ok c xs \<longleftrightarrow> ctl_next_alarm c = target c (hd (xs @ [499]))"

section \<open>Links\<close>

lemma links_ok_distinct: "links_ok h xs U \<Longrightarrow> distinct xs \<and> 499 \<notin> set xs"
  using dl.ring_distinct [of h "499 # xs"] by (auto simp: links_ok_def)

lemma links_insert_before:
  assumes "links_ok h (xs @ ys) (insert t U)" "t \<notin> U" "t \<noteq> 499"
  shows "links_ok (insert_before_st (hd (ys @ [499])) t h) (xs @ t # ys) U"
proof (cases ys)
  case Nil
  have r: "dl_ring h ([] @ 499 # xs)" and a: "dl_ring h [t]" and n: "t \<notin> set ([] @ 499 # xs)"
    using assms Nil by (auto simp: links_ok_def)
  have "dl_ring (insert_before_st 499 t h) ([] @ t # 499 # xs)" by (rule dl.ring_insert_in [OF r a n])
  then have "dl_ring (insert_before_st 499 t h) (499 # xs @ [t])"
    using dl.ring_rotate [of _ "[t]" "499 # xs"] by simp
  moreover have "dl_ring (insert_before_st 499 t h) [u]" if "u \<in> U" for u
    by (rule dl.frame_insert_in [OF r a]) (use assms that in \<open>auto simp: links_ok_def Nil\<close>)
  ultimately show ?thesis using assms Nil by (auto simp: links_ok_def)
next
  case (Cons y zs)
  have r: "dl_ring h ((499 # xs) @ y # zs)" and a: "dl_ring h [t]" and n: "t \<notin> set ((499 # xs) @ y # zs)"
    using assms Cons by (auto simp: links_ok_def)
  have "dl_ring (insert_before_st y t h) ((499 # xs) @ t # y # zs)" by (rule dl.ring_insert_in [OF r a n])
  moreover have "dl_ring (insert_before_st y t h) [u]" if "u \<in> U" for u
    by (rule dl.frame_insert_in [OF r a]) (use assms that in \<open>auto simp: links_ok_def Cons\<close>)
  ultimately show ?thesis using assms Cons by (auto simp: links_ok_def)
qed

lemma links_remove:
  assumes "links_ok h (xs @ t # ys) U"
  shows "links_ok (remove_st t h) (xs @ ys) (insert t U)"
proof -
  have r: "dl_ring h ((499 # xs) @ t # ys)" using assms by (simp add: links_ok_def)
  have "dl_ring (remove_st t h) ((499 # xs) @ ys)" by (rule dl.ring_remove_in [OF r]) simp
  moreover have "dl_ring (remove_st t h) [t]" by (rule dl.ring_remove_node_in [OF r])
  moreover have "dl_ring (remove_st t h) [u]" if "u \<in> U" for u
    by (rule dl.frame_remove_in [OF r]) (use assms that in \<open>auto simp: links_ok_def\<close>)
  ultimately show ?thesis using assms dl.ring_distinct [OF r] by (auto simp: links_ok_def)
qed

lemma links_init:
  assumes "links_ok h xs U" "t \<notin> set xs" "t \<noteq> 499"
  shows "links_ok (dlist_init t h) xs (insert t U)"
proof -
  have "dl_ring (dlist_init t h) zs = dl_ring h zs" if "t \<notin> set zs" for zs
    by (rule dl_ring_cong) (use that in \<open>metis dlist_init_frame\<close>)
  then have "dl_ring (dlist_init t h) (499 # xs)" "\<And>u. u \<in> U \<Longrightarrow> u \<noteq> t \<Longrightarrow> dl_ring (dlist_init t h) [u]"
    using assms by (auto simp: links_ok_def)
  then show ?thesis using assms dlist_init_ring [of t h] by (auto simp: links_ok_def)
qed

lemma links_next: "links_ok h (xs @ t # ys) U \<Longrightarrow> dl_next (h t) = hd (ys @ [499])"
proof -
  assume "links_ok h (xs @ t # ys) U"
  then have "dl_ring h (t # ys @ 499 # xs)"
    using dl.ring_rotate [of h "499 # xs" "t # ys"] by (simp add: links_ok_def)
  then show "dl_next (h t) = hd (ys @ [499])" using dl.ring_nxt [of h t "ys @ 499 # xs"] by (cases ys) auto
qed

lemma links_prev: "links_ok h (xs @ t # ys) U \<Longrightarrow> dl_prev (h t) = last (499 # xs)"
proof -
  assume "links_ok h (xs @ t # ys) U"
  then have "dl_ring h (t # ys @ 499 # xs)"
    using dl.ring_rotate [of h "499 # xs" "t # ys"] by (simp add: links_ok_def)
  then show "dl_prev (h t) = last (499 # xs)" using dl.ring_prv [of h t "ys @ 499 # xs"] by simp
qed

lemma links_find_guard:
  "links_ok h xs U \<Longrightarrow> list_find P (\<lambda>p. dl_next (h p)) 499 (dl_next (h 499)) = Some (List.find P xs)"
  using dl.find_ring [of h 499 xs P] by (simp add: links_ok_def)

lemma links_find_from:
  assumes "links_ok h (xs @ p # ys) U"
  shows "list_find P (\<lambda>p. dl_next (h p)) p (dl_next (h p)) = Some (List.find P (ys @ 499 # xs))"
proof -
  have "dl_ring h (p # ys @ 499 # xs)"
    using assms dl.ring_rotate [of h "499 # xs" "p # ys"] by (simp add: links_ok_def)
  then show ?thesis using dl.find_ring [of h p "ys @ 499 # xs" P] by simp
qed

section \<open>The operations keep the invariant\<close>

lemma OS_MAX_TIMER_499 [simp]: "OS_MAX_TIMER = 500"
  by (simp add: OS_MAX_TIMER_def)

lemma upd_timer_sel [simp]:
  "ctl_timer (upd_timer t f c) = (ctl_timer c)(t := f (ctl_timer c t))"
  "ctl_links (upd_timer t f c) = ctl_links c" "ctl_listtail (upd_timer t f c) = ctl_listtail c"
  "ctl_next_alarm (upd_timer t f c) = ctl_next_alarm c" "ctl_tick (upd_timer t f c) = ctl_tick c"
  by (simp_all add: upd_timer_def)

lemma upd_ctl_links_sel [simp]:
  "ctl_timer (upd_ctl_links f c) = ctl_timer c"
  "ctl_links (upd_ctl_links f c) = f (ctl_links c)" "ctl_listtail (upd_ctl_links f c) = ctl_listtail c"
  "ctl_next_alarm (upd_ctl_links f c) = ctl_next_alarm c" "ctl_tick (upd_ctl_links f c) = ctl_tick c"
  by (simp_all add: upd_ctl_links_def)

lemma set_default_sel [simp]:
  "ctl_timer (timer_set_default_params (Some t) c) =
     (ctl_timer c)(t := (ctl_timer c t)\<lparr>tm_flags := TIMER_FLAGS_FREE, tm_data := 0, tm_fifo := 0, tm_target_tick := UINT32_MAX\<rparr>)"
  "ctl_links (timer_set_default_params (Some t) c) = dlist_init t (ctl_links c)"
  "ctl_listtail (timer_set_default_params (Some t) c) = ctl_listtail c"
  "ctl_next_alarm (timer_set_default_params (Some t) c) = ctl_next_alarm c"
  "ctl_tick (timer_set_default_params (Some t) c) = ctl_tick c"
  by (simp_all add: timer_set_default_params_def)

lemma u32_le_MAX [simp]: "(x :: u32) \<le> UINT32_MAX"
  using unsigned_less [of x, where ?'a = nat] by (simp add: UINT32_MAX_def word_le_nat_alt)

subsection \<open>Initialisation\<close>

lemma timerctl_init_loop_ok:
  "links_ok (ctl_links c) [0..<i] {} \<Longrightarrow> i + n \<le> 499 \<Longrightarrow> prev = last (499 # [0..<i]) \<Longrightarrow>
   (let c' = timerctl_init_loop n i prev c in
      links_ok (ctl_links c') [0..<i + n] {} \<and> ctl_listtail c' = ctl_listtail c \<and>
      ctl_next_alarm c' = ctl_next_alarm c \<and> ctl_tick c' = ctl_tick c \<and>
      (\<forall>t. if i \<le> t \<and> t < i + n then flags c' t = TIMER_FLAGS_FREE \<and> target c' t = UINT32_MAX
           else ctl_timer c' t = ctl_timer c t))"
proof (induction n arbitrary: i prev c)
  case 0
  then show ?case by (auto simp: Let_def)
next
  case (Suc n)
  let ?c = "upd_ctl_links (insert_after_st prev i) (timer_set_default_params (Some i) c)"
  have "links_ok (dlist_init i (ctl_links c)) [0..<i] {i}" using links_init [OF Suc.prems(1), of i] Suc.prems by simp
  then have r: "dl_ring (dlist_init i (ctl_links c)) (499 # [0..<i])" and a: "dl_ring (dlist_init i (ctl_links c)) [i]"
    by (auto simp: links_ok_def)
  obtain us where us: "499 # [0..<i] = us @ [prev]" using Suc.prems(3) by (metis append_butlast_last_id list.distinct(1))
  have "dl_ring (insert_after_st prev i (dlist_init i (ctl_links c))) (us @ prev # i # [])"
  proof (rule dl.ring_insert_after_in)
    show "dl_ring (dlist_init i (ctl_links c)) (us @ prev # [])" using r unfolding us .
    have "i \<notin> set (499 # [0..<i])" using Suc.prems(2) by simp
    then show "i \<notin> set (us @ prev # [])" unfolding us .
  qed (rule a)
  moreover have "us @ prev # i # [] = 499 # [0..<Suc i]" using arg_cong [OF us, of "\<lambda>l. l @ [i]"] by simp
  ultimately have "links_ok (ctl_links ?c) [0..<Suc i] {}" by (simp add: links_ok_def)
  note IH = Suc.IH [OF this, of i]
  define c2 where "c2 = timerctl_init_loop n (Suc i) i ?c"
  have L: "links_ok (ctl_links c2) [0..<i + Suc n] {}" "ctl_listtail c2 = ctl_listtail c"
      "ctl_next_alarm c2 = ctl_next_alarm c" "ctl_tick c2 = ctl_tick c"
    and T: "\<And>t. if Suc i \<le> t \<and> t < Suc i + n then flags c2 t = TIMER_FLAGS_FREE \<and> target c2 t = UINT32_MAX
      else ctl_timer c2 t = ctl_timer ?c t"
    using IH Suc.prems(2) by (simp_all add: c2_def Let_def)
  have "if i \<le> t \<and> t < i + Suc n then flags c2 t = TIMER_FLAGS_FREE \<and> target c2 t = UINT32_MAX
      else ctl_timer c2 t = ctl_timer c t" for t
    using T [of t] by (cases "t = i") (auto split: if_splits)
  then show ?case using L by (simp add: c2_def [symmetric] Let_def)
qed


lemma timerctl_init_invariant:
  "timers_ok (timerctl_init c) [0..<499] \<and> alarm_ok (timerctl_init c) [0..<499] \<and> ctl_tick (timerctl_init c) = 0"
proof -
  define c1 where "c1 = upd_timer 499 (\<lambda>m. m\<lparr>tm_flags := TIMER_FLAGS_GUARDNODE\<rparr>)
    (timer_set_default_params (Some 499) (c\<lparr>ctl_tick := 0, ctl_next_alarm := UINT32_MAX, ctl_listtail := 499\<rparr>))"
  have c: "timerctl_init c = timerctl_init_loop 499 0 499 c1"
    by (simp add: timerctl_init_def c1_def Let_def)
  have "links_ok (ctl_links c1) [0..<0] {}"
    using dlist_init_ring [of 499 "ctl_links c"] by (simp add: c1_def links_ok_def)
  from timerctl_init_loop_ok [OF this, of 499 499]
  have L: "links_ok (ctl_links (timerctl_init c)) [0..<499] {}" "ctl_listtail (timerctl_init c) = ctl_listtail c1"
    "ctl_next_alarm (timerctl_init c) = ctl_next_alarm c1" "ctl_tick (timerctl_init c) = ctl_tick c1"
    and T: "\<And>t. if t < 499 then flags (timerctl_init c) t = TIMER_FLAGS_FREE \<and> target (timerctl_init c) t = UINT32_MAX
      else ctl_timer (timerctl_init c) t = ctl_timer c1 t"
    by (simp_all add: c [symmetric] Let_def)
  have l: "links_ok (ctl_links (timerctl_init c)) [0..<499] {}" "ctl_listtail (timerctl_init c) = 499"
    "ctl_next_alarm (timerctl_init c) = UINT32_MAX" "ctl_tick (timerctl_init c) = 0"
    and t: "\<And>t. t < 499 \<Longrightarrow> flags (timerctl_init c) t = TIMER_FLAGS_FREE \<and> target (timerctl_init c) t = UINT32_MAX"
    and g: "flags (timerctl_init c) 499 = TIMER_FLAGS_GUARDNODE" "target (timerctl_init c) 499 = UINT32_MAX"
    using L T T [of 499] by (simp_all add: c1_def)
  have "map (target (timerctl_init c)) [0..<499] = replicate 499 UINT32_MAX"
    by (rule nth_equalityI) (simp_all add: t)
  then have "sorted (map (target (timerctl_init c)) [0..<499])" by (simp add: sorted_replicate)
  moreover have na: "{t. t < 499 \<and> flags (timerctl_init c) t = TIMER_FLAGS_ALLOCATED} = {}"
    using t by (auto simp: timer_flags)
  ultimately show ?thesis using l g t
    unfolding timers_ok_def alarm_ok_def na by (auto simp: hd_append)
qed

subsection \<open>Allocation\<close>

lemma timers_okD:
  assumes "timers_ok c xs"
  shows "links_ok (ctl_links c) xs {t. t < 499 \<and> flags c t = TIMER_FLAGS_ALLOCATED}" "distinct xs" "499 \<notin> set xs"
    "ctl_listtail c = 499" "target c 499 = UINT32_MAX" "flags c 499 = TIMER_FLAGS_GUARDNODE" "sorted (map (target c) xs)"
    "\<And>t. t \<in> set xs \<longleftrightarrow> t < 499 \<and> (flags c t = TIMER_FLAGS_FREE \<or> flags c t = TIMER_FLAGS_ONCOUNTDOWN)"
    "\<And>t. t < 499 \<Longrightarrow> flags c t = TIMER_FLAGS_FREE \<or> flags c t = TIMER_FLAGS_ALLOCATED \<or> flags c t = TIMER_FLAGS_ONCOUNTDOWN"
    "\<And>t. t < 499 \<Longrightarrow> flags c t = TIMER_FLAGS_FREE \<Longrightarrow> target c t = UINT32_MAX"
  using assms links_ok_distinct [of "ctl_links c" xs "{t. t < 499 \<and> flags c t = TIMER_FLAGS_ALLOCATED}"]
  by (auto simp: timers_ok_def)

text \<open>Taking a timer out of the list and marking it allocated.\<close>

lemma timers_ok_detach:
  assumes ok: "timers_ok c (xs @ t # ys)"
    and c': "ctl_links c' = remove_st t (ctl_links c)" "ctl_listtail c' = ctl_listtail c"
      "\<And>u. u \<noteq> t \<Longrightarrow> ctl_timer c' u = ctl_timer c u" "flags c' t = TIMER_FLAGS_ALLOCATED"
  shows "timers_ok c' (xs @ ys)"
proof -
  note d = timers_okD [OF ok]
  have t: "t < 499" using d(8) [of t] by simp
  have "insert t {u. u < 499 \<and> flags c u = TIMER_FLAGS_ALLOCATED} = {u. u < 499 \<and> flags c' u = TIMER_FLAGS_ALLOCATED}"
    using t c'(3,4) by force
  then have "links_ok (ctl_links c') (xs @ ys) {u. u < 499 \<and> flags c' u = TIMER_FLAGS_ALLOCATED}"
    using links_remove [OF d(1)] c'(1) by simp
  moreover have "set (xs @ ys) = {u. u < 499 \<and> flags c' u \<in> {TIMER_FLAGS_FREE, TIMER_FLAGS_ONCOUNTDOWN}}" (is "_ = ?S")
  proof (rule set_eqI)
    fix u
    show "u \<in> set (xs @ ys) \<longleftrightarrow> u \<in> ?S"
      using d(2) d(8) [of u] c'(3) [of u] c'(4) by (cases "u = t") (auto simp: timer_flags)
  qed
  moreover have "map (target c') (xs @ ys) = map (target c) (xs @ ys)"
    using d(2) by (intro map_cong refl arg_cong [where f = tm_target_tick] c'(3)) auto
  then have "sorted (map (target c') (xs @ ys))" using d(7) by (simp only:) (auto simp: sorted_append)
  moreover have "ctl_timer c' 499 = ctl_timer c 499" using t c'(3) by simp
  moreover have "\<forall>u<499. flags c' u \<in> {TIMER_FLAGS_FREE, TIMER_FLAGS_ALLOCATED, TIMER_FLAGS_ONCOUNTDOWN}"
    using d(9) c'(3,4) by (metis insert_iff)
  moreover have "\<forall>u<499. flags c' u = TIMER_FLAGS_FREE \<longrightarrow> target c' u = UINT32_MAX"
    using d(10) c'(3,4) by (metis TIMER_FLAGS_ALLOCATED_def TIMER_FLAGS_FREE_def zero_neq_one)
  ultimately show ?thesis using d(4,5,6) c'(2) unfolding timers_ok_def by simp
qed

text \<open>The allocator finds the first free timer.\<close>

lemma timer_alloc_loop_find:
  "timer_alloc_loop n i fifo c =
     (case List.find (\<lambda>t. flags c t = TIMER_FLAGS_FREE) [i..<i + n] of
        None \<Rightarrow> (c, None)
      | Some t \<Rightarrow> (upd_ctl_links (remove_st t) (upd_timer t (\<lambda>m. m\<lparr>tm_flags := TIMER_FLAGS_ALLOCATED, tm_fifo := fifo\<rparr>) c), Some t))"
proof (induction n arbitrary: i)
  case (Suc n)
  have "[i..<i + Suc n] = i # [Suc i..<Suc i + n]" by (simp add: upt_conv_Cons)
  then show ?case using Suc by (simp add: Let_def)
qed simp

lemma hd_sorted_max:
  assumes "sorted (map f xs)" "x \<in> set xs" "f (hd xs) = (UINT32_MAX :: u32)"
  shows "f x = UINT32_MAX"
  using assms by (cases xs) (auto intro: antisym u32_le_MAX)

lemma timer_alloc_ok:
  assumes ok: "timers_ok c xs" and r: "timer_alloc_customfifo fifo c = (c', Some t)"
  shows "t < 499 \<and> flags c t = TIMER_FLAGS_FREE \<and> flags c' t = TIMER_FLAGS_ALLOCATED \<and> tm_fifo (ctl_timer c' t) = fifo \<and>
    timers_ok c' (remove1 t xs) \<and> (alarm_ok c xs \<longrightarrow> alarm_ok c' (remove1 t xs)) \<and> (\<forall>u. u \<noteq> t \<longrightarrow> ctl_timer c' u = ctl_timer c u)"
proof -
  note d = timers_okD [OF ok]
  have f: "List.find (\<lambda>t. flags c t = TIMER_FLAGS_FREE) [0..<500] = Some t"
    and c': "c' = upd_ctl_links (remove_st t) (upd_timer t (\<lambda>m. m\<lparr>tm_flags := TIMER_FLAGS_ALLOCATED, tm_fifo := fifo\<rparr>) c)"
    using r by (auto simp: timer_alloc_customfifo_def timer_alloc_loop_find split: option.splits)
  have fr: "flags c t = TIMER_FLAGS_FREE" "t < 500" using f by (auto simp: find_Some_iff)
  have t: "t < 499" using d(6) fr by (cases "t = 499") (auto simp: timer_flags)
  have tx: "t \<in> set xs" using d(8) fr t by simp
  then obtain as bs where ab: "xs = as @ t # bs" "t \<notin> set as" by (meson split_list_first)
  have ok': "timers_ok c' (as @ bs)" by (rule timers_ok_detach [of c as t bs]) (use ok ab in \<open>simp_all add: c'\<close>)
  have "alarm_ok c' (as @ bs)" if al: "alarm_ok c xs"
  proof (cases as)
    case Nil
    have m: "target c t = UINT32_MAX" by (rule d(10)) (use t fr in simp_all)
    have "target c (hd (bs @ [499])) = UINT32_MAX"
      using d(7,5) Nil ab m by (cases bs) (auto intro: antisym)
    then show ?thesis using al Nil ab m d(2,3) by (cases bs) (auto simp: alarm_ok_def c')
  next
    case (Cons a as') then show ?thesis using al ab by (simp add: alarm_ok_def c')
  qed
  with ok' fr t show ?thesis using ab by (simp add: c' remove1_append)
qed

lemma timer_alloc_None:
  assumes "timers_ok c xs"
  shows "timer_alloc_customfifo fifo c = (c', None) \<longleftrightarrow> c' = c \<and> (\<forall>t < 499. flags c t \<noteq> TIMER_FLAGS_FREE)"
proof -
  have "(\<forall>t < 500. flags c t \<noteq> TIMER_FLAGS_FREE) \<longleftrightarrow> (\<forall>t < 499. flags c t \<noteq> TIMER_FLAGS_FREE)"
  proof -
    have "t < 500 \<longleftrightarrow> t < 499 \<or> t = 499" for t :: nat by auto
    then show ?thesis using timers_okD(6) [OF assms] by (auto simp: timer_flags)
  qed
  then show ?thesis
    by (auto simp: timer_alloc_customfifo_def timer_alloc_loop_find find_None_iff find_Some_iff split: option.splits)
qed

subsection \<open>Setting a timer\<close>

text \<open>Putting a timer without a list place in front of the first timer whose target is not smaller.\<close>

lemma timers_ok_attach:
  assumes ok: "timers_ok c (xs @ ys)" and t: "t < 499" "flags c t = TIMER_FLAGS_ALLOCATED"
    and c': "ctl_links c' = insert_before_st (hd (ys @ [499])) t (ctl_links c)" "ctl_listtail c' = ctl_listtail c"
      "\<And>u. u \<noteq> t \<Longrightarrow> ctl_timer c' u = ctl_timer c u"
      "flags c' t = TIMER_FLAGS_ONCOUNTDOWN \<or> flags c' t = TIMER_FLAGS_FREE \<and> target c' t = UINT32_MAX"
    and lo: "\<And>u. u \<in> set xs \<Longrightarrow> target c u \<le> target c' t" and hi: "\<And>u. u \<in> set ys \<Longrightarrow> target c' t \<le> target c u"
  shows "timers_ok c' (xs @ t # ys)"
proof -
  note d = timers_okD [OF ok]
  let ?A = "\<lambda>c. {u. u < 499 \<and> flags c u = TIMER_FLAGS_ALLOCATED}"
  have nt: "t \<notin> set xs" "t \<notin> set ys" using d(8) [of t] t(2) by (auto simp: timer_flags)
  have "?A c = insert t (?A c')" "t \<notin> ?A c'" using t c'(3,4) by (force simp: timer_flags)+
  then have "links_ok (ctl_links c') (xs @ t # ys) (?A c')"
    using links_insert_before [of "ctl_links c" xs ys t "?A c'"] d(1) c'(1) t by simp
  moreover have "set (xs @ t # ys) = {u. u < 499 \<and> flags c' u \<in> {TIMER_FLAGS_FREE, TIMER_FLAGS_ONCOUNTDOWN}}" (is "_ = ?S")
  proof (rule set_eqI)
    fix u
    show "u \<in> set (xs @ t # ys) \<longleftrightarrow> u \<in> ?S"
      using d(8) [of u] c'(3) [of u] c'(4) t by (cases "u = t") auto
  qed
  moreover have m: "target c' u = target c u" if "u \<in> set xs \<union> set ys" for u
    by (rule arg_cong [where f = tm_target_tick], rule c'(3)) (use nt that in auto)
  then have "map (target c') xs = map (target c) xs" "map (target c') ys = map (target c) ys" by auto
  then have "sorted (map (target c') xs)" "sorted (map (target c') ys)"
    using d(7) by (simp_all only: map_append sorted_append)
  then have "sorted (map (target c') (xs @ t # ys))" using d(7) lo hi m by (auto simp: sorted_append)
  moreover have "ctl_timer c' 499 = ctl_timer c 499" using t c'(3) by simp
  moreover have "\<forall>u<499. flags c' u \<in> {TIMER_FLAGS_FREE, TIMER_FLAGS_ALLOCATED, TIMER_FLAGS_ONCOUNTDOWN}"
    using d(9) c'(3,4) by (metis insert_iff)
  moreover have "\<forall>u<499. flags c' u = TIMER_FLAGS_FREE \<longrightarrow> target c' u = UINT32_MAX"
  proof (intro allI impI)
    fix u assume "u < 499" "flags c' u = TIMER_FLAGS_FREE"
    then show "target c' u = UINT32_MAX" using d(10) [of u] c'(3) [of u] c'(4) by (cases "u = t") (auto simp: timer_flags)
  qed
  ultimately show ?thesis using d(4,5,6) c'(2) unfolding timers_ok_def by simp
qed

abbreviation before :: "TIMERCTL \<Rightarrow> u32 \<Rightarrow> nat list \<Rightarrow> nat list" where
  "before c T xs \<equiv> takeWhile (\<lambda>u. target c u < T) xs"

abbreviation behind :: "TIMERCTL \<Rightarrow> u32 \<Rightarrow> nat list \<Rightarrow> nat list" where
  "behind c T xs \<equiv> dropWhile (\<lambda>u. target c u < T) xs"

lemma find_behind: "List.find (\<lambda>u. T \<le> target c u) xs = (case behind c T xs of [] \<Rightarrow> None | p # _ \<Rightarrow> Some p)"
  by (simp add: find_dropWhile comp_def not_le)

lemma behind_ge:
  assumes "sorted (map (target c) xs)" "u \<in> set (behind c T xs)"
  shows "T \<le> target c u"
  using assms
proof (induction xs)
  case (Cons x xs)
  show ?case
  proof (cases "target c x < T")
    case False
    then have "T \<le> target c x" "u = x \<or> u \<in> set xs" using Cons.prems(2) by auto
    then show ?thesis using Cons.prems(1) by auto
  qed (use Cons in auto)
qed simp

lemma timer_arm_sel:
  "ctl_links (timer_arm t timeout data c) = ctl_links c" "ctl_listtail (timer_arm t timeout data c) = ctl_listtail c"
  "ctl_tick (timer_arm t timeout data c) = ctl_tick c"
  "ctl_timer (timer_arm t timeout data c) =
     (ctl_timer c)(t := (ctl_timer c t)\<lparr>tm_target_tick := ctl_tick c + timeout, tm_flags := TIMER_FLAGS_ONCOUNTDOWN, tm_data := data\<rparr>)"
  "ctl_next_alarm (timer_arm t timeout data c) = min (ctl_next_alarm c) (ctl_tick c + timeout)"
  by (auto simp: timer_arm_def Let_def min_def)

text \<open>The alarm after a timer with target \<open>T\<close> has been put in its place.\<close>

lemma alarm_ok_attach:
  assumes al: "al = target c (hd (xs @ [499]))" and T: "target c' t = T" "ctl_next_alarm c' = min al T"
    and fr: "\<And>u. u \<in> set (499 # xs) \<Longrightarrow> target c' u = target c u" and g: "target c 499 = UINT32_MAX"
  shows "alarm_ok c' (before c T xs @ t # behind c T xs)"
proof (cases xs)
  case Nil then show ?thesis using assms u32_le_MAX [of T] by (simp add: alarm_ok_def min.absorb2)
next
  case (Cons x ys) then show ?thesis using assms by (auto simp: alarm_ok_def min_def)
qed

lemma timer_insert_guard:
  assumes "links_ok (ctl_links c) xs U" "\<exists>u\<in>set xs. target c t \<le> target c u"
  shows "timer_insert 499 t c =
    Some (upd_ctl_links (insert_before_st (hd (behind c (target c t) xs @ [499])) t) c)"
proof -
  have "behind c (target c t) xs \<noteq> []" using assms(2) by (auto simp: not_less)
  then show ?thesis
    by (cases "behind c (target c t) xs") (simp_all add: timer_insert_def links_find_guard [OF assms(1)] find_behind)
qed

lemma timer_insert_guard_lost:
  assumes "links_ok (ctl_links c) xs U" "\<forall>u\<in>set xs. target c u < target c t"
  shows "timer_insert 499 t c = Some c"
proof -
  have "List.find (\<lambda>u. target c t \<le> target c u) xs = None" using assms(2) by (auto simp: find_None_iff not_le)
  then show ?thesis by (simp add: timer_insert_def links_find_guard [OF assms(1)])
qed

lemma timer_insert_from:
  assumes "links_ok (ctl_links c) (as @ p # bs) U" "target c 499 = UINT32_MAX"
  shows "timer_insert p t c =
    Some (upd_ctl_links (insert_before_st (hd (behind c (target c t) bs @ [499])) t) c)"
proof -
  have "List.find (\<lambda>u. target c t \<le> target c u) (bs @ 499 # as) = Some (hd (behind c (target c t) bs @ [499]))"
  proof (induction bs)
    case Nil show ?case using assms(2) by simp
  qed (auto simp: not_le)
  then show ?thesis by (simp add: timer_insert_def links_find_from [OF assms(1)])
qed

lemma timer_settimer_allocated:
  assumes ok: "timers_ok c xs" and t: "t < 499" "flags c t = TIMER_FLAGS_ALLOCATED"
    and T: "T = ctl_tick c + timeout" and ex: "\<exists>u\<in>set xs. T \<le> target c u"
  obtains c' where "timer_settimer (Some t) timeout data c = Some c'"
    "timers_ok c' (before c T xs @ t # behind c T xs)"
    "alarm_ok c xs \<Longrightarrow> alarm_ok c' (before c T xs @ t # behind c T xs)"
    "ctl_timer c' t = (ctl_timer c t)\<lparr>tm_target_tick := T, tm_flags := TIMER_FLAGS_ONCOUNTDOWN,
       tm_data := if data = 0 then tm_data (ctl_timer c t) else data\<rparr>"
    "\<And>u. u \<noteq> t \<Longrightarrow> ctl_timer c' u = ctl_timer c u" "ctl_tick c' = ctl_tick c"
proof -
  note d = timers_okD [OF ok]
  define da where "da = (if data = 0 then tm_data (ctl_timer c t) else data)"
  define c1 where "c1 = timer_arm t timeout da c"
  have nt: "t \<notin> set xs" using d(8) [of t] t(2) by (auto simp: timer_flags)
  have tg: "target c1 u = (if u = t then T else target c u)" for u by (simp add: c1_def timer_arm_sel T)
  have B: "before c1 T xs = before c T xs" "behind c1 T xs = behind c T xs"
    using nt tg by (auto intro!: takeWhile_cong dropWhile_cong)
  have ex1: "\<exists>u\<in>set xs. target c1 t \<le> target c1 u" using ex nt tg by (metis (full_types))
  have "links_ok (ctl_links c1) xs {t. t < 499 \<and> flags c t = TIMER_FLAGS_ALLOCATED}"
    using d(1) by (simp add: c1_def timer_arm_sel)
  note ins = timer_insert_guard [OF this ex1]
  define c' where "c' = upd_ctl_links (insert_before_st (hd (behind c T xs @ [499])) t) c1"
  have s: "timer_settimer (Some t) timeout data c = Some c'"
    using ins t d(4) tg [of t] B by (simp add: timer_settimer_def timer_flags Let_def c1_def [symmetric] da_def [symmetric] c'_def)
  have "timers_ok c' (before c T xs @ t # behind c T xs)"
  proof (rule timers_ok_attach [of c])
    show "u \<in> set (before c T xs) \<Longrightarrow> target c u \<le> target c' t" for u
      using set_takeWhileD [of u "\<lambda>u. target c u < T" xs] tg [of t] by (simp add: c'_def less_imp_le)
    show "u \<in> set (behind c T xs) \<Longrightarrow> target c' t \<le> target c u" for u
      using behind_ge [OF d(7), of u T] tg [of t] by (simp add: c'_def)
  qed (use ok t in \<open>auto simp: c'_def c1_def timer_arm_sel\<close>)
  moreover have "alarm_ok c' (before c T xs @ t # behind c T xs)" if al: "alarm_ok c xs"
    by (rule alarm_ok_attach [of "ctl_next_alarm c"])
      (use al d(5) nt t T in \<open>auto simp: alarm_ok_def c'_def c1_def timer_arm_sel\<close>)
  ultimately show ?thesis by (intro that [OF s]) (simp_all add: c'_def c1_def timer_arm_sel T da_def)
qed

text \<open>
  A running timer: it leaves its place and is put in again, the search starting at the timer
  in front of its old place when that one is due earlier.
\<close>

lemma before_append_all:
  "\<forall>u\<in>set as. target c u < T \<Longrightarrow> before c T (as @ bs) = as @ before c T bs \<and> behind c T (as @ bs) = behind c T bs"
  by (induction as) auto

lemma timer_settimer_running:
  assumes ok: "timers_ok c (as @ t # bs)" and f: "flags c t = TIMER_FLAGS_ONCOUNTDOWN"
    and T: "T = ctl_tick c + timeout" and ex: "as \<noteq> [] \<or> (\<exists>u\<in>set bs. T \<le> target c u)"
  obtains c' where "timer_settimer (Some t) timeout data c = Some c'"
    "timers_ok c' (before c T (as @ bs) @ t # behind c T (as @ bs))"
    "ctl_next_alarm c' = min (if ctl_next_alarm c = target c t then target c (hd (bs @ [499])) else ctl_next_alarm c) T"
    "ctl_timer c' t = (ctl_timer c t)\<lparr>tm_target_tick := T, tm_flags := TIMER_FLAGS_ONCOUNTDOWN,
       tm_data := if data = 0 then tm_data (ctl_timer c t) else data\<rparr>"
    "\<And>u. u \<noteq> t \<Longrightarrow> ctl_timer c' u = ctl_timer c u" "ctl_tick c' = ctl_tick c"
proof -
  note d = timers_okD [OF ok]
  define da where "da = (if data = 0 then tm_data (ctl_timer c t) else data)"
  define c1 where "c1 = (if ctl_next_alarm c = target c t then c\<lparr>ctl_next_alarm := target c (hd (bs @ [499]))\<rparr> else c)"
  define c2 where "c2 = timer_arm t timeout da (upd_ctl_links (remove_st t) c1)"
  define p where "p = last (499 # as)"
  have t: "t < 499" "t \<noteq> 499" using d(8) [of t] by auto
  have nt: "t \<notin> set (as @ bs)" using d(2) by auto
  have c1: "ctl_links c1 = ctl_links c" "ctl_listtail c1 = 499" "ctl_timer c1 = ctl_timer c" "ctl_tick c1 = ctl_tick c"
    using d(4) by (auto simp: c1_def)
  have tg: "target c2 u = (if u = t then T else target c u)" for u by (simp add: c2_def timer_arm_sel c1 T)
  have l2: "ctl_links c2 = remove_st t (ctl_links c)" "ctl_listtail c2 = 499" by (simp_all add: c2_def timer_arm_sel c1)
  have L: "links_ok (ctl_links c2) (as @ bs) (insert t {t. t < 499 \<and> flags c t = TIMER_FLAGS_ALLOCATED})"
    using links_remove [OF d(1)] l2 by simp
  have B: "before c2 T zs = before c T zs" "behind c2 T zs = behind c T zs" if "set zs \<subseteq> set (as @ bs)" for zs
    using nt tg that by (auto intro!: takeWhile_cong dropWhile_cong)
  have ins: "timer_insert (if target c2 p < target c2 t then p else 499) t c2 =
      Some (upd_ctl_links (insert_before_st (hd (behind c T (as @ bs) @ [499])) t) c2)"
  proof (cases "target c2 p < target c2 t")
    case True
    have "as \<noteq> []"
    proof
      assume "as = []"
      then have "target c2 p = UINT32_MAX" using t d(5) tg by (simp add: p_def)
      then show False using True u32_le_MAX [of "target c2 t"] by (simp add: not_less [symmetric])
    qed
    then obtain as' where as': "as = as' @ [p]" by (auto simp: p_def intro: append_butlast_last_id [symmetric])
    have "p \<noteq> t" using nt as' by auto
    then have "\<forall>u\<in>set as. target c u < T" using True tg d(7) by (auto simp: as' sorted_append)
    then have "behind c T (as @ bs) = behind c2 T bs" using before_append_all [of as c T bs] B by simp
    then show ?thesis using True timer_insert_from [of c2 as' p bs _ t] L as' t d(5) tg by simp
  next
    case False
    have "T \<le> target c p" if "as \<noteq> []"
    proof -
      have "p \<in> set as" using that by (simp add: p_def)
      then show ?thesis using False tg nt by (auto simp: not_less split: if_splits)
    qed
    then have "\<exists>u\<in>set (as @ bs). target c2 t \<le> target c2 u"
      using ex tg nt by (cases "as = []") (auto simp: p_def split: if_splits)
    then show ?thesis using False timer_insert_guard [OF L] B tg by simp
  qed
  define c' where "c' = upd_ctl_links (insert_before_st (hd (behind c T (as @ bs) @ [499])) t) c2"
  have n: "the (get_timer_next c (Some t)) = hd (bs @ [499])" and pv: "the (get_timer_prev c1 (Some t)) = p"
    using links_next [OF d(1)] links_prev [OF d(1)] c1(1) by (simp_all add: get_timer_next_def get_timer_prev_def p_def)
  have "timer_settimer (Some t) timeout data c =
      timer_insert (if target c2 p < target c2 t then p else ctl_listtail c2) t c2 \<bind>
      (\<lambda>c. if flags c t = TIMER_FLAGS_ALLOCATED then timer_insert (ctl_listtail c) t (timer_arm t timeout da c) else Some c)"
    unfolding timer_settimer_def Let_def option.case if_P [OF f] n c1_def [symmetric] pv da_def [symmetric] c2_def [symmetric] ..
  also have "\<dots> = Some c'"
    using ins by (simp only: l2(2) c'_def) (simp add: c2_def timer_arm_sel timer_flags)
  finally have s: "timer_settimer (Some t) timeout data c = Some c'" .
  define c0 where "c0 = upd_ctl_links (remove_st t) (upd_timer t (\<lambda>m. m\<lparr>tm_flags := TIMER_FLAGS_ALLOCATED\<rparr>) c)"
  have ok0: "timers_ok c0 (as @ bs)" by (rule timers_ok_detach [OF ok]) (simp_all add: c0_def)
  note d0 = timers_okD [OF ok0]
  have tg0: "target c0 u = target c u" for u by (simp add: c0_def)
  have "timers_ok c' (before c T (as @ bs) @ t # behind c T (as @ bs))"
  proof (rule timers_ok_attach [of c0])
    show "u \<in> set (before c T (as @ bs)) \<Longrightarrow> target c0 u \<le> target c' t" for u
      using set_takeWhileD [of u "\<lambda>u. target c u < T" "as @ bs"] tg [of t] tg0 by (simp add: c'_def less_imp_le)
    show "u \<in> set (behind c T (as @ bs)) \<Longrightarrow> target c' t \<le> target c0 u" for u
      using behind_ge [OF d0(7), of u T] tg [of t] tg0 by (simp add: c'_def)
  qed (use ok0 t l2 d(4) c1 in \<open>auto simp: c'_def c0_def c2_def timer_arm_sel\<close>)
  moreover have "ctl_next_alarm c' = min (if ctl_next_alarm c = target c t then target c (hd (bs @ [499])) else ctl_next_alarm c) T"
    by (simp add: c'_def c2_def timer_arm_sel T c1) (simp add: c1_def)
  ultimately show ?thesis by (intro that [OF s]) (simp_all add: c'_def c2_def timer_arm_sel T da_def c1)
qed

subsection \<open>Freeing a timer\<close>

lemma dropWhile_neq: "t \<notin> set as \<Longrightarrow> dropWhile (\<lambda>u. u \<noteq> t) (as @ t # bs) = t # bs"
  by (induction as) auto

lemma timers_ok_free:
  assumes ok: "timers_ok c xs" and t: "t < 499"
    and r: "timer_free_ctl (Some t) c = (c', fifo)"
  shows "timers_ok c' (remove1 t xs @ [t])" and "fifo = tm_fifo (ctl_timer c t)"
    and "flags c' t = TIMER_FLAGS_FREE" "tm_fifo (ctl_timer c' t) = 0"
    and "\<And>u. u \<noteq> t \<Longrightarrow> ctl_timer c' u = ctl_timer c u" "ctl_tick c' = ctl_tick c"
    and "ctl_next_alarm c' = (if flags c t = TIMER_FLAGS_ONCOUNTDOWN \<and> ctl_next_alarm c = target c t
           then target c (hd (tl (dropWhile (\<lambda>u. u \<noteq> t) xs) @ [499])) else ctl_next_alarm c)"
proof -
  note d = timers_okD [OF ok]
  have ng: "flags c t \<noteq> TIMER_FLAGS_GUARDNODE" using d(9) [OF t] by (auto simp: timer_flags)
  have nx: "dl_next (ctl_links c t) = hd (tl (dropWhile (\<lambda>u. u \<noteq> t) xs) @ [499])" if "flags c t = TIMER_FLAGS_ONCOUNTDOWN"
  proof -
    have "t \<in> set xs" using d(8) t that by simp
    then obtain as bs where ab: "xs = as @ t # bs" "t \<notin> set as" by (meson split_list_first)
    then have "dropWhile (\<lambda>u. u \<noteq> t) xs = t # bs" by (simp add: dropWhile_neq)
    then show ?thesis using links_next [of "ctl_links c" as t bs] d(1) ab by simp
  qed
  define c1 where "c1 = (if flags c t = TIMER_FLAGS_ONCOUNTDOWN \<and> ctl_next_alarm c = target c t
    then c\<lparr>ctl_next_alarm := target c (the (get_timer_next c (Some t)))\<rparr> else c)"
  have c1: "ctl_links c1 = ctl_links c" "ctl_listtail c1 = 499" "ctl_timer c1 = ctl_timer c" "ctl_tick c1 = ctl_tick c"
    using d(4) by (auto simp: c1_def)
  have c': "c' = upd_ctl_links (insert_before_st 499 t) (timer_set_default_params (Some t) (upd_ctl_links (remove_st t) c1))"
    and fifo: "fifo = tm_fifo (ctl_timer c t)"
    using r ng c1 by (auto simp: timer_free_ctl_def Let_def c1_def [symmetric])
  define c0 where "c0 = upd_ctl_links (dlist_init t) (upd_ctl_links (remove_st t)
    (upd_timer t (\<lambda>m. m\<lparr>tm_flags := TIMER_FLAGS_ALLOCATED\<rparr>) c))"
  let ?c1 = "upd_ctl_links (remove_st t) (upd_timer t (\<lambda>m. m\<lparr>tm_flags := TIMER_FLAGS_ALLOCATED\<rparr>) c)"
  have ok1: "timers_ok ?c1 (remove1 t xs)"
  proof (cases "t \<in> set xs")
    case True
    then obtain as bs where ab: "xs = as @ t # bs" "t \<notin> set as" by (meson split_list_first)
    show ?thesis using timers_ok_detach [of c as t bs ?c1] ok ab by (simp add: remove1_append)
  next
    case False
    then have al: "flags c t = TIMER_FLAGS_ALLOCATED" using d(8,9) [of t] t by auto
    then have "remove_st t (ctl_links c) = ctl_links c" using d(1) t by (intro remove_single) (auto simp: links_ok_def)
    moreover have "(ctl_timer c t)\<lparr>tm_flags := TIMER_FLAGS_ALLOCATED\<rparr> = ctl_timer c t"
      using al by (cases "ctl_timer c t") simp
    ultimately have "?c1 = c" by (simp add: upd_ctl_links_def upd_timer_def)
    then show ?thesis using ok False by (simp add: remove1_idem)
  qed
  note d1 = timers_okD [OF ok1]
  have nt: "t \<notin> set (remove1 t xs)" using d(2) by simp
  have in0: "ctl_links c0 = dlist_init t (ctl_links ?c1)" "ctl_timer c0 = ctl_timer ?c1" "ctl_listtail c0 = ctl_listtail ?c1"
    by (simp_all add: c0_def)
  have "insert t {u. u < 499 \<and> flags ?c1 u = TIMER_FLAGS_ALLOCATED} = {u. u < 499 \<and> flags ?c1 u = TIMER_FLAGS_ALLOCATED}"
    using t by auto
  then have "links_ok (ctl_links c0) (remove1 t xs) {u. u < 499 \<and> flags c0 u = TIMER_FLAGS_ALLOCATED}"
    using links_init [OF d1(1) nt] t unfolding in0 by simp
  then have ok0: "timers_ok c0 (remove1 t xs)" using ok1 unfolding timers_ok_def in0 by blast
  have "timers_ok c' (remove1 t xs @ t # [])"
    by (rule timers_ok_attach [of c0]) (use ok0 t d(4) in \<open>simp_all add: c' c0_def c1\<close>)
  then show "timers_ok c' (remove1 t xs @ [t])" .
  show "ctl_next_alarm c' = (if flags c t = TIMER_FLAGS_ONCOUNTDOWN \<and> ctl_next_alarm c = target c t
       then target c (hd (tl (dropWhile (\<lambda>u. u \<noteq> t) xs) @ [499])) else ctl_next_alarm c)"
    using nx by (simp add: c' c1_def get_timer_next_def)
qed (use r timers_okD(9) [OF ok t] in \<open>auto simp: timer_free_ctl_def Let_def timer_flags split: if_splits\<close>)

section \<open>Properties\<close>

lemma timer_settimer_free: "flags c t = TIMER_FLAGS_FREE \<Longrightarrow> timer_settimer (Some t) timeout data c = Some c"
  by (simp add: timer_settimer_def timer_flags Let_def)

lemma timer_settimer_ok:
  assumes ok: "timers_ok c xs"
    and t: "t < 499" "flags c t \<noteq> TIMER_FLAGS_FREE"
    and fr: "u < 499" "flags c u = TIMER_FLAGS_FREE"
  shows "let T = ctl_tick c + timeout; zs = remove1 t xs in
    \<exists>c'. timer_settimer (Some t) timeout data c = Some c' \<and>
      timers_ok c' (before c T zs @ t # behind c T zs) \<and>
      (alarm_ok c xs \<and> (flags c t = TIMER_FLAGS_ALLOCATED \<or> t = hd xs \<or> target c t \<noteq> target c (hd xs))
        \<longrightarrow> alarm_ok c' (before c T zs @ t # behind c T zs)) \<and>
      ctl_timer c' t = (ctl_timer c t)\<lparr>tm_target_tick := T, tm_flags := TIMER_FLAGS_ONCOUNTDOWN,
        tm_data := if data = 0 then tm_data (ctl_timer c t) else data\<rparr> \<and>
      (\<forall>v. v \<noteq> t \<longrightarrow> ctl_timer c' v = ctl_timer c v)"
proof (cases "flags c t = TIMER_FLAGS_ALLOCATED")
  case True
  note d = timers_okD [OF ok]
  have "u \<in> set xs" "target c u = UINT32_MAX" using d(8,10) [of u] fr by simp_all
  then have ex: "\<exists>u\<in>set xs. ctl_tick c + timeout \<le> target c u" by (intro bexI [of _ u]) auto
  have rm: "remove1 t xs = xs" using d(8) [of t] True by (auto simp: timer_flags intro!: remove1_idem)
  show ?thesis unfolding Let_def rm
    by (rule timer_settimer_allocated [OF ok t(1) True refl ex, of data]) blast
next
  case False
  note d = timers_okD [OF ok]
  have on: "flags c t = TIMER_FLAGS_ONCOUNTDOWN" using d(9) [OF t(1)] t(2) False by blast
  then have "t \<in> set xs" using d(8) t by simp
  then obtain as bs where ab: "xs = as @ t # bs" "t \<notin> set as" by (meson split_list_first)
  let ?T = "ctl_tick c + timeout"
  have u: "u \<in> set xs" "target c u = UINT32_MAX" using d(8,10) [of u] fr by simp_all
  then have "u \<in> set as \<union> set bs" using ab on fr by (auto simp: timer_flags)
  then have ex: "as \<noteq> [] \<or> (\<exists>u\<in>set bs. ?T \<le> target c u)" using u(2) by (cases as) (auto intro!: bexI [of _ u])
  have rm: "remove1 t xs = as @ bs" using ab by (simp add: remove1_append)
  obtain c' where c': "timer_settimer (Some t) timeout data c = Some c'"
    "timers_ok c' (before c ?T (as @ bs) @ t # behind c ?T (as @ bs))"
    "ctl_next_alarm c' = min (if ctl_next_alarm c = target c t then target c (hd (bs @ [499])) else ctl_next_alarm c) ?T"
    "ctl_timer c' t = (ctl_timer c t)\<lparr>tm_target_tick := ?T, tm_flags := TIMER_FLAGS_ONCOUNTDOWN,
       tm_data := if data = 0 then tm_data (ctl_timer c t) else data\<rparr>"
    "\<And>u. u \<noteq> t \<Longrightarrow> ctl_timer c' u = ctl_timer c u"
    by (rule timer_settimer_running [OF ok [unfolded ab] on refl ex, where data = data]) blast
  have "alarm_ok c' (before c ?T (as @ bs) @ t # behind c ?T (as @ bs))"
    if al: "alarm_ok c xs" and first: "t = hd xs \<or> target c t \<noteq> target c (hd xs)"
  proof (rule alarm_ok_attach [OF _ _ c'(3)])
    show "(if ctl_next_alarm c = target c t then target c (hd (bs @ [499])) else ctl_next_alarm c) =
        target c (hd ((as @ bs) @ [499]))"
      using al first ab by (cases as) (auto simp: alarm_ok_def)
    show "\<And>v. v \<in> set (499 # as @ bs) \<Longrightarrow> target c' v = target c v"
      using c'(5) d(2) t ab by (metis Un_iff distinct_append distinct.simps(2) set_ConsD set_append nat_neq_iff)
  qed (use c' d(5) in auto)
  then show ?thesis using c' False by (simp add: rm)
qed


text \<open>
  When no timer in the list is due at the new target or later, which needs all 499 timers to be in
  use, the walk over the list ends without inserting: the call marks the timer as counting
  down and may even announce it as the next alarm, but the timer is in no list and can
  never go off, and the table is not well formed any more.
\<close>

theorem timer_settimer_lost:
  assumes ok: "timers_ok c xs" and t: "t < 499" "flags c t = TIMER_FLAGS_ALLOCATED"
    and all: "\<forall>u\<in>set xs. target c u < ctl_tick c + timeout"
  shows "\<exists>c'. timer_settimer (Some t) timeout data c = Some c' \<and>
    flags c' t = TIMER_FLAGS_ONCOUNTDOWN \<and> dl_ring (ctl_links c') (499 # xs) \<and> t \<notin> set xs \<and> \<not> (\<exists>ys. timers_ok c' ys)"
proof -
  note d = timers_okD [OF ok]
  define c' where "c' = timer_arm t timeout (if data = 0 then tm_data (ctl_timer c t) else data) c"
  have nt: "t \<notin> set xs" using d(8) [of t] t(2) by (auto simp: timer_flags)
  have L: "links_ok (ctl_links c') xs {t. t < 499 \<and> flags c t = TIMER_FLAGS_ALLOCATED}"
    using d(1) by (simp add: c'_def timer_arm_sel)
  have "\<forall>u\<in>set xs. target c' u < target c' t" using all nt by (auto simp: c'_def timer_arm_sel)
  then have s: "timer_settimer (Some t) timeout data c = Some c'"
    using timer_insert_guard_lost [OF L] t d(4)
    by (simp add: timer_settimer_def timer_flags Let_def c'_def [symmetric])
  have on: "flags c' t = TIMER_FLAGS_ONCOUNTDOWN" by (simp add: c'_def timer_arm_sel)
  have lone: "dl_ring (ctl_links c') [t]" using L t by (auto simp: links_ok_def)
  have "\<not> timers_ok c' ys" for ys
  proof
    assume ok': "timers_ok c' ys"
    note d' = timers_okD [OF ok']
    have "t \<in> set ys" using d'(8) on t by simp
    then obtain as bs where ab: "ys = as @ t # bs" by (meson split_list)
    then show False using links_next [of "ctl_links c'" as t bs] d'(1,2,3) lone by (cases bs) (auto simp: dl_ring_single)
  qed
  then show ?thesis using s on L nt by (auto simp: links_ok_def)
qed

text \<open>
  When several timers share the next alarm and one that is not the first of them is set to a
  later tick, or freed, the next alarm becomes the target of the timer behind it, although
  the first one is still due at the old tick: it goes off late.
\<close>

theorem timer_alarm_too_late:
  assumes ok: "timers_ok c (a # as @ t # bs)" and al: "alarm_ok c (a # as @ t # bs)"
    and f: "flags c t = TIMER_FLAGS_ONCOUNTDOWN" and sh: "target c t = target c a"
    and later: "target c a < target c (hd (bs @ [499]))" "target c a < ctl_tick c + timeout"
  shows "(\<exists>c' zs. timer_settimer (Some t) timeout data c = Some c' \<and> timers_ok c' (a # zs) \<and>
           target c' a = target c a \<and> target c' a < ctl_next_alarm c') \<and>
         (\<exists>c' zs fifo. timer_free_ctl (Some t) c = (c', fifo) \<and> timers_ok c' (a # zs) \<and>
           target c' a = target c a \<and> target c' a < ctl_next_alarm c')"
proof -
  note d = timers_okD [OF ok]
  have at: "a \<noteq> t" "t < 499" "t \<notin> set as" using d(2) d(8) [of t] by auto
  have n: "ctl_next_alarm c = target c t" using al sh by (simp add: alarm_ok_def)
  have ok': "timers_ok c ((a # as) @ t # bs)" using ok by simp
  obtain c1 where c1: "timer_settimer (Some t) timeout data c = Some c1"
    "timers_ok c1 (before c (ctl_tick c + timeout) ((a # as) @ bs) @ t # behind c (ctl_tick c + timeout) ((a # as) @ bs))"
    "ctl_next_alarm c1 = min (if ctl_next_alarm c = target c t then target c (hd (bs @ [499])) else ctl_next_alarm c) (ctl_tick c + timeout)"
    "\<And>u. u \<noteq> t \<Longrightarrow> ctl_timer c1 u = ctl_timer c u"
    by (rule timer_settimer_running [OF ok' f refl, where data = data and timeout = timeout]) simp_all
  have "timers_ok c1 (a # before c (ctl_tick c + timeout) (as @ bs) @ t # behind c (ctl_tick c + timeout) (as @ bs))"
    using c1(2) later(2) by simp
  moreover have "target c1 a = target c a" "target c a < ctl_next_alarm c1" using c1(3,4) at n later by simp_all
  moreover obtain c2 fifo where c2: "timer_free_ctl (Some t) c = (c2, fifo)" by fastforce
  note fr = timers_ok_free [OF ok at(2) c2]
  have "dropWhile (\<lambda>u. u \<noteq> t) (a # as @ t # bs) = t # bs" using at dropWhile_neq [of t as bs] by simp
  then have "timers_ok c2 (a # (as @ bs) @ [t])" "target c2 a = target c a" "target c a < ctl_next_alarm c2"
    using fr(1,5,7) at n f later(1) by (simp_all add: remove1_append)
  ultimately show ?thesis using c1(1) c2 by metis
qed

text \<open>The operations of the table as steps; a timer is only set while some timer is free.\<close>

inductive timer_step :: "TIMERCTL \<Rightarrow> TIMERCTL \<Rightarrow> bool" where
  step_alloc: "timer_alloc_customfifo fifo c = (c', res) \<Longrightarrow> timer_step c c'"
| step_settimer: "t < 499 \<Longrightarrow> u < 499 \<Longrightarrow> flags c u = TIMER_FLAGS_FREE \<Longrightarrow>
    timer_settimer (Some t) timeout data c = Some c' \<Longrightarrow> timer_step c c'"
| step_free: "t < 500 \<Longrightarrow> timer_free_ctl (Some t) c = (c', fifo) \<Longrightarrow> timer_step c c'"

lemma timer_step_ok:
  assumes "timer_step c c'" "timers_ok c xs"
  shows "\<exists>ys. timers_ok c' ys"
  using assms
proof (induction rule: timer_step.induct)
  case (step_alloc fifo c c' res)
  then show ?case
    using timer_alloc_ok [of c xs fifo c'] timer_alloc_None [of c xs fifo c'] by (cases res) auto
next
  case (step_settimer t u c timeout data c')
  then show ?case
    using timer_settimer_ok [of c xs t u timeout data] timer_settimer_free [of c t timeout data]
    by (cases "flags c t = TIMER_FLAGS_FREE") (auto simp: Let_def)
next
  case (step_free t c c' fifo)
  show ?case
  proof (cases "t = 499")
    case True
    then show ?thesis using step_free timers_okD(6) [of c xs] by (auto simp: timer_free_ctl_def)
  next
    case False
    then show ?thesis using timers_ok_free(1) [of c xs t c' fifo] step_free by auto
  qed
qed


text \<open>
  Allocation: with a free timer in the table, the call returns the one of lowest index, allocated and
  with the given FIFO, taken out of the list without changing the order of the others or the
  next alarm; without a free timer it returns \<^verbatim>\<open>NULL\<close> and changes nothing.
\<close>

theorem timer_alloc_correct:
  assumes ok: "timers_ok c xs" and al: "alarm_ok c xs"
  shows "case timer_alloc_customfifo fifo c of
      (c', None) \<Rightarrow> c' = c \<and> (\<forall>t < 499. flags c t \<noteq> TIMER_FLAGS_FREE)
    | (c', Some t) \<Rightarrow> t < 499 \<and> flags c t = TIMER_FLAGS_FREE \<and> (\<forall>u < t. flags c u \<noteq> TIMER_FLAGS_FREE) \<and>
        ctl_timer c' = (ctl_timer c)(t := (ctl_timer c t)\<lparr>tm_flags := TIMER_FLAGS_ALLOCATED, tm_fifo := fifo\<rparr>) \<and>
        timers_ok c' (remove1 t xs) \<and> alarm_ok c' (remove1 t xs) \<and> ctl_next_alarm c' = ctl_next_alarm c"
proof -
  obtain c' res where r: "timer_alloc_customfifo fifo c = (c', res)" by fastforce
  show ?thesis
  proof (cases res)
    case None
    then have "c' = c \<and> (\<forall>t < 499. flags c t \<noteq> TIMER_FLAGS_FREE)" using r timer_alloc_None [OF ok, of fifo c'] by simp
    then show ?thesis unfolding r None by simp
  next
    case (Some t)
    have f: "List.find (\<lambda>t. flags c t = TIMER_FLAGS_FREE) [0..<500] = Some t"
      and c': "c' = upd_ctl_links (remove_st t) (upd_timer t (\<lambda>m. m\<lparr>tm_flags := TIMER_FLAGS_ALLOCATED, tm_fifo := fifo\<rparr>) c)"
      using r Some by (auto simp: timer_alloc_customfifo_def timer_alloc_loop_find split: option.splits)
    have "\<forall>u < t. flags c u \<noteq> TIMER_FLAGS_FREE" using f by (auto simp: find_Some_iff)
    then show ?thesis using r Some timer_alloc_ok [OF ok, of fifo c' t] al by (simp add: c')
  qed
qed

section \<open>Examples\<close>

text \<open>
  A table in which timer 0 is due at tick 10, timer 1 is \<open>m\<close>, behind it in the list, and all
  other timers are allocated.
\<close>

definition ex_links :: "nat dstore" where
  "ex_links t = (if t = 499 then \<lparr>dl_next = 0, dl_prev = 1\<rparr> else if t = 0 then \<lparr>dl_next = 1, dl_prev = 499\<rparr>
     else if t = 1 then \<lparr>dl_next = 499, dl_prev = 0\<rparr> else \<lparr>dl_next = t, dl_prev = t\<rparr>)"

definition ex_table :: "TIMER \<Rightarrow> TIMERCTL" where
  "ex_table m = \<lparr>ctl_tick = 0, ctl_listtail = 499, ctl_next_alarm = 10,
     ctl_timer = (\<lambda>t. if t = 499 then \<lparr>tm_target_tick = UINT32_MAX, tm_flags = TIMER_FLAGS_GUARDNODE, tm_fifo = 0, tm_data = 0\<rparr>
       else if t = 0 then \<lparr>tm_target_tick = 10, tm_flags = TIMER_FLAGS_ONCOUNTDOWN, tm_fifo = 0, tm_data = 1\<rparr>
       else if t = 1 then m
       else \<lparr>tm_target_tick = 0, tm_flags = TIMER_FLAGS_ALLOCATED, tm_fifo = 0, tm_data = 2\<rparr>),
     ctl_links = ex_links\<rparr>"

definition ex_same :: TIMER where
  "ex_same = \<lparr>tm_target_tick = 10, tm_flags = TIMER_FLAGS_ONCOUNTDOWN, tm_fifo = 0, tm_data = 3\<rparr>"

definition ex_free :: TIMER where
  "ex_free = \<lparr>tm_target_tick = UINT32_MAX, tm_flags = TIMER_FLAGS_FREE, tm_fifo = 0, tm_data = 0\<rparr>"

lemma ex_links_ok: "links_ok ex_links [0, 1] {t. 1 < t \<and> t < 499}"
  by (auto simp: links_ok_def dl_ring_def ex_links_def)

lemma ex_table_flags:
  "flags (ex_table m) t = (if t = 499 then TIMER_FLAGS_GUARDNODE else if t = 0 then TIMER_FLAGS_ONCOUNTDOWN
     else if t = 1 then tm_flags m else TIMER_FLAGS_ALLOCATED)"
  "target (ex_table m) t = (if t = 499 then UINT32_MAX else if t = 0 then 10 else if t = 1 then tm_target_tick m else 0)"
  "ctl_links (ex_table m) = ex_links" "ctl_listtail (ex_table m) = 499" "ctl_next_alarm (ex_table m) = 10"
  by (simp_all add: ex_table_def)

lemma ex_table_ok:
  assumes "m = ex_same \<or> m = ex_free"
  shows "timers_ok (ex_table m) [0, 1] \<and> alarm_ok (ex_table m) [0, 1]"
proof -
  have m: "tm_flags m = TIMER_FLAGS_ONCOUNTDOWN \<and> tm_target_tick m = 10 \<or>
      tm_flags m = TIMER_FLAGS_FREE \<and> tm_target_tick m = UINT32_MAX"
    using assms by (auto simp: ex_same_def ex_free_def)
  have "{t. t < 499 \<and> flags (ex_table m) t = TIMER_FLAGS_ALLOCATED} = {t. 1 < t \<and> t < 499}"
    using m by (auto simp: ex_table_flags timer_flags split: if_splits)
  moreover have "set [0, 1] = {t. t < 499 \<and> flags (ex_table m) t \<in> {TIMER_FLAGS_FREE, TIMER_FLAGS_ONCOUNTDOWN}}"
    using m by (auto simp: ex_table_flags timer_flags split: if_splits)
  moreover have "\<forall>t<499. flags (ex_table m) t = TIMER_FLAGS_FREE \<longrightarrow> target (ex_table m) t = UINT32_MAX"
    using m by (auto simp: ex_table_flags timer_flags split: if_splits)
  moreover have "\<forall>t<499. flags (ex_table m) t \<in> {TIMER_FLAGS_FREE, TIMER_FLAGS_ALLOCATED, TIMER_FLAGS_ONCOUNTDOWN}"
    using m by (auto simp: ex_table_flags)
  moreover have "sorted (map (target (ex_table m)) [0, 1])" using m by (auto simp: ex_table_flags)
  ultimately show ?thesis using ex_links_ok unfolding timers_ok_def alarm_ok_def by (simp add: ex_table_flags(1,2) ex_table_flags(3-5))
qed

lemma ex_table_sel:
  "ctl_tick (ex_table m) = 0" "flags (ex_table m) 0 = TIMER_FLAGS_ONCOUNTDOWN" "target (ex_table m) 0 = 10"
  "flags (ex_table m) 1 = tm_flags m" "target (ex_table m) 1 = tm_target_tick m" "flags (ex_table m) 2 = TIMER_FLAGS_ALLOCATED"
  "target (ex_table m) 499 = UINT32_MAX"
  "tm_flags m = TIMER_FLAGS_FREE \<Longrightarrow> flags (ex_table m) t = TIMER_FLAGS_FREE \<Longrightarrow> t = 1"
  by (auto simp: ex_table_def timer_flags split: if_splits)

lemmas ex_sel = ex_table_sel(1-7) ex_table_sel(4,5) [unfolded One_nat_def]

lemmas ex_timer_defs = ex_same_def ex_free_def timer_flags UINT32_MAX_def


theorem timer_settimer_lost_witness:
  "\<exists>c'. timer_settimer (Some 2) 20 7 (ex_table ex_same) = Some c' \<and> flags c' 2 = TIMER_FLAGS_ONCOUNTDOWN \<and>
     dl_ring (ctl_links c') [499, 0, 1] \<and> \<not> (\<exists>ys. timers_ok c' ys)"
proof -
  have "flags (ex_table ex_same) 2 = TIMER_FLAGS_ALLOCATED"
    "\<forall>u\<in>set [0, 1]. target (ex_table ex_same) u < ctl_tick (ex_table ex_same) + 20"
    by (simp_all add: ex_sel ex_same_def)
  then show ?thesis
    using timer_settimer_lost [of "ex_table ex_same" "[0, 1]" 2 20 7] ex_table_ok [of ex_same] by auto
qed

theorem timer_alarm_too_late_witness:
  "(\<exists>c' zs. timer_settimer (Some 1) 20 7 (ex_table ex_same) = Some c' \<and> timers_ok c' (0 # zs) \<and>
     target c' 0 = 10 \<and> 10 < ctl_next_alarm c')"
proof -
  have h: "target (ex_table ex_same) 0 = 10" "target (ex_table ex_same) 1 = 10" "target (ex_table ex_same) 499 = 0xffffffff"
    "flags (ex_table ex_same) 1 = TIMER_FLAGS_ONCOUNTDOWN" "ctl_tick (ex_table ex_same) = 0"
    by (simp_all add: ex_sel ex_timer_defs)
  have "\<exists>c' zs. timer_settimer (Some 1) 20 7 (ex_table ex_same) = Some c' \<and> timers_ok c' (0 # zs) \<and>
      target c' 0 = target (ex_table ex_same) 0 \<and> target c' 0 < ctl_next_alarm c'"
    using timer_alarm_too_late [of "ex_table ex_same" 0 "[]" 1 "[]" 20 7] ex_table_ok [of ex_same] h by simp
  then show ?thesis using h(1) by metis
qed

theorem timer_alloc_correct_witness:
  "\<exists>c'. timer_alloc_customfifo 64 (ex_table ex_free) = (c', Some 1) \<and> timers_ok c' [0] \<and> alarm_ok c' [0]"
proof -
  obtain c' res where r: "timer_alloc_customfifo 64 (ex_table ex_free) = (c', res)" by fastforce
  have f: "flags (ex_table ex_free) 1 = TIMER_FLAGS_FREE" by (simp only: ex_table_sel) (simp add: ex_free_def)
  note c = timer_alloc_correct [of "ex_table ex_free" "[0, 1]" 64, unfolded r prod.case]
  have "res \<noteq> None"
  proof
    assume "res = None"
    then have "\<forall>t < 499. flags (ex_table ex_free) t \<noteq> TIMER_FLAGS_FREE" using c ex_table_ok [of ex_free] by simp
    then show False using f by (metis one_less_numeral_iff semiring_norm(77))
  qed
  then obtain t where t: "res = Some t" by blast
  then have "t = 1" using c ex_table_ok [of ex_free] ex_table_sel(8) [of ex_free t] by (simp add: ex_free_def)
  then show ?thesis using c ex_table_ok [of ex_free] r t by simp
qed


end
