(* ===== verification/Sched.thy ===== *)
theory Sched
  imports Fifo Memory Gdt Process Timer
begin

text \<open>
  The parts of the kernel that work together: the FIFOs that wake their task
  (\<^verbatim>\<open>src/src/kernel/mprocessfifo.{h,c}\<close>), the timers with their FIFOs and the timer interrupt
  (\<^verbatim>\<open>src/src/pic/timer.c\<close>), and the task switches (\<^verbatim>\<open>src/src/kernel/process.c\<close>). The state \<open>kernel\<close>
  holds the globals of these files; a \<^verbatim>\<open>MPFIFO32 *\<close> is its address, 0 for \<^verbatim>\<open>NULL\<close>. A far jump to another
  task is an event of the processor log.
\<close>

section \<open>State\<close>

record MPFIFO32 =
  mp_fifo32 :: FIFO32
  mp_bufaddr :: u32
  mp_task :: "nat option"

record kernel =
  ks_cpu :: cpu
  ks_gdt :: gdt_state
  ks_mm :: mm
  ks_timerctl :: TIMERCTL
  ks_tssTimer :: "nat option"
  ks_taskctl :: TASKCTL
  ks_taskctl_addr :: u32
  ks_fifos :: "u32 \<Rightarrow> MPFIFO32"
  ks_mpguard :: int

definition on_cpu :: "(cpu \<Rightarrow> cpu) \<Rightarrow> kernel \<Rightarrow> kernel" where
  "on_cpu f s = s\<lparr>ks_cpu := f (ks_cpu s)\<rparr>"

definition on_timers :: "(TIMERCTL \<Rightarrow> TIMERCTL option) \<Rightarrow> kernel \<Rightarrow> kernel option" where
  "on_timers f s = do { c \<leftarrow> f (ks_timerctl s); Some (s\<lparr>ks_timerctl := c\<rparr>) }"

definition on_tasks :: "(TASKCTL \<Rightarrow> TASKCTL option) \<Rightarrow> kernel \<Rightarrow> kernel option" where
  "on_tasks f s = do { tc \<leftarrow> f (ks_taskctl s); Some (s\<lparr>ks_taskctl := tc\<rparr>) }"

section \<open>FIFOs that wake a task\<close>

definition fifo_at :: "kernel \<Rightarrow> u32 \<Rightarrow> FIFO32 option" where
  "fifo_at s f = (if f = 0 then None else Some (mp_fifo32 (ks_fifos s f)))"

definition set_fifo :: "u32 \<Rightarrow> FIFO32 option \<Rightarrow> kernel \<Rightarrow> kernel" where
  "set_fifo f v s =
     (case v of None \<Rightarrow> s | Some v \<Rightarrow> s\<lparr>ks_fifos := (ks_fifos s)(f := (ks_fifos s f)\<lparr>mp_fifo32 := v\<rparr>)\<rparr>)"

text \<open>\<open>buf\<close> is the address of the array and \<open>bs\<close> its contents.\<close>

definition mpfifo32_init :: "u32 \<Rightarrow> u32 \<Rightarrow> int list \<Rightarrow> int \<Rightarrow> nat option \<Rightarrow> kernel \<Rightarrow> kernel" where
  "mpfifo32_init f buf bs sz task s =
     (if f = 0 then s
      else if buf = 0 then s
      else
        (let s = set_fifo f (fifo32_init (fifo_at s f) (Some bs) sz) s
         in s\<lparr>ks_fifos := (ks_fifos s)(f := (ks_fifos s f)\<lparr>mp_bufaddr := buf, mp_task := task\<rparr>)\<rparr>))"

definition mpfifo32_enqueue :: "u32 \<Rightarrow> int \<Rightarrow> kernel \<Rightarrow> (kernel \<times> int) option" where
  "mpfifo32_enqueue f data s =
     (if f = 0 then Some (s, - EIO)
      else do {
        (q, res) \<leftarrow> fifo32_enqueue (fifo_at s f) data;
        let s = set_fifo f q s;
        (case mp_task (ks_fifos s f) of
           None \<Rightarrow> Some (s, res)
         | Some t \<Rightarrow> do {
             k \<leftarrow> get_task (ks_taskctl s) t;
             s \<leftarrow> (if tk_flags k = MPROCESS_FLAGS_ALLOCATED
                   then on_tasks (mprocess_task_run (Some t) (-1) 0) s else Some s);
             Some (s, res)
           })
      })"

definition mpfifo32_dequeue :: "u32 \<Rightarrow> kernel \<Rightarrow> (kernel \<times> int) option" where
  "mpfifo32_dequeue f s = do {
     (q, res) \<leftarrow> fifo32_dequeue (fifo_at s f);
     Some (set_fifo f q s, res)
   }"

definition mpfifo32_peek :: "u32 \<Rightarrow> kernel \<Rightarrow> int option" where
  "mpfifo32_peek f s = fifo32_peek (fifo_at s f)"

definition mpfifo32_status_getUsageB :: "u32 \<Rightarrow> kernel \<Rightarrow> int" where
  "mpfifo32_status_getUsageB f s = fifo32_status_getUsageB (fifo_at s f)"

section \<open>Timers and the timer interrupt\<close>

definition sizeof_FIFO32 :: u32 where "sizeof_FIFO32 = 24"

definition timer_alloc :: "kernel \<Rightarrow> (kernel \<times> nat option) option" where
  "timer_alloc s = do {
     (m, fifo32buf) \<leftarrow> kzalloc 512 (ks_mm s);
     (m, timer_fifo) \<leftarrow> kzalloc sizeof_FIFO32 m;
     let s = mpfifo32_init timer_fifo fifo32buf (replicate 128 0) 128 None (s\<lparr>ks_mm := m\<rparr>);
     let (c, t) = timer_alloc_customfifo timer_fifo (ks_timerctl s);
     Some (s\<lparr>ks_timerctl := c\<rparr>, t)
   }"

definition timer_free :: "nat option \<Rightarrow> kernel \<Rightarrow> kernel" where
  "timer_free timer s =
     (let (c, fifo) = timer_free_ctl timer (ks_timerctl s);
          s = s\<lparr>ks_timerctl := c\<rparr>
      in if fifo \<noteq> 0 then s\<lparr>ks_mm := kfree fifo (kfree (mp_bufaddr (ks_fifos s fifo)) (ks_mm s))\<rparr> else s)"

definition PIT_CNT0 :: u16 where "PIT_CNT0 = 0x0040"
definition PIT_CTRL :: u16 where "PIT_CTRL = 0x0043"

definition PIT_init :: "kernel \<Rightarrow> kernel" where
  "PIT_init s =
     (let isCli = io_get_is_cli (ks_cpu s);
          s = on_cpu (cli_unless isCli) s;
          s = on_cpu (io_out8 PIT_CTRL 0x34) s;
          s = on_cpu (io_out8 PIT_CNT0 0x9c) s;
          s = on_cpu (io_out8 PIT_CNT0 0x2e) s;
          (c, t) = timer_alloc_customfifo 0 (timerctl_init (ks_timerctl s));
          s = s\<lparr>ks_timerctl := c, ks_tssTimer := t\<rparr>
      in on_cpu (sti_unless isCli) s)"

definition timer_get_tssTimer :: "kernel \<Rightarrow> nat option" where
  "timer_get_tssTimer s = ks_tssTimer s"

text \<open>A switch to the next task, called when the scheduler's timer has gone off.\<close>

definition mprocess_task_autoswitch :: "kernel \<Rightarrow> kernel option" where
  "mprocess_task_autoswitch s = do {
     let tssTimer = timer_get_tssTimer s;
     (tc, taskCurrent, taskNext) \<leftarrow> autoswitch_select (ks_taskctl s);
     let s = s\<lparr>ks_taskctl := tc\<rparr>;
     nx \<leftarrow> taskNext;
     k \<leftarrow> get_task tc nx;
     s \<leftarrow> on_timers (timer_settimer tssTimer (tk_priority k) 0) s;
     Some (if taskNext \<noteq> taskCurrent then on_cpu (farjmp 0 (ucast (tk_sel k))) s else s)
   }"

text \<open>
  The loop of the interrupt handler: \<open>pos\<close> runs over the list behind the guard; every timer that is
  due sends its data and leaves the list, and the walk goes on behind its predecessor. The
  flag says whether the scheduler's timer was among them.
\<close>

partial_function (option) timer_fire_loop :: "nat \<Rightarrow> bool \<Rightarrow> kernel \<Rightarrow> (kernel \<times> bool) option" where
  "timer_fire_loop pos isTssTriggerred s =
     (if pos = ctl_listtail (ks_timerctl s) then Some (s, isTssTriggerred)
      else if target (ks_timerctl s) pos > ctl_tick (ks_timerctl s) then Some (s, isTssTriggerred)
      else do {
        let isTssTriggerred = (if \<not> isTssTriggerred \<and> ks_tssTimer s = Some pos then True else isTssTriggerred);
        (s, _) \<leftarrow> mpfifo32_enqueue (tm_fifo (ctl_timer (ks_timerctl s) pos)) (uint (tm_data (ctl_timer (ks_timerctl s) pos))) s;
        let prevTimer = the (get_timer_prev (ks_timerctl s) (Some pos));
        let c = upd_timer pos (\<lambda>m. m\<lparr>tm_flags := TIMER_FLAGS_ALLOCATED\<rparr>) (ks_timerctl s);
        let c = upd_ctl_links (remove_st pos) c;
        timer_fire_loop (dl_next (ctl_links c prevTimer)) isTssTriggerred (s\<lparr>ks_timerctl := c\<rparr>)
      })"

definition timer_int_handler :: "kernel \<Rightarrow> kernel option" where
  "timer_int_handler s =
     (let isCli = io_get_is_cli (ks_cpu s);
          s = on_cpu (cli_unless isCli) s;
          s = s\<lparr>ks_timerctl := (ks_timerctl s)\<lparr>ctl_tick := ctl_tick (ks_timerctl s) + 1\<rparr>\<rparr>
      in if ctl_next_alarm (ks_timerctl s) > ctl_tick (ks_timerctl s) then Some s
         else do {
           let head = ctl_listtail (ks_timerctl s);
           (s, isTssTriggerred) \<leftarrow> timer_fire_loop (dl_next (ctl_links (ks_timerctl s) head)) False s;
           let c = ks_timerctl s;
           let firstTimer = the (get_timer_next c (Some (ctl_listtail c)));
           let s = s\<lparr>ks_timerctl := c\<lparr>ctl_next_alarm := target c firstTimer\<rparr>\<rparr>;
           let s = on_cpu (sti_unless isCli) s;
           (if isTssTriggerred then mprocess_task_autoswitch s else Some s)
         })"

section \<open>Putting a task to sleep\<close>

definition mprocess_task_sleep :: "nat option \<Rightarrow> kernel \<Rightarrow> kernel option" where
  "mprocess_task_sleep task s =
     (case task of None \<Rightarrow> Some s
      | Some t \<Rightarrow> do {
          k \<leftarrow> get_task (ks_taskctl s) t;
          if tk_flags k \<noteq> MPROCESS_FLAGS_RUNNING then Some s
          else do {
            taskCurrent \<leftarrow> mprocess_task_get_current (ks_taskctl s);
            s \<leftarrow> on_tasks (mprocess_task_remove task) s;
            if task = taskCurrent then do {
              s \<leftarrow> on_tasks mprocess_task_update_currentlv s;
              taskCurrent \<leftarrow> mprocess_task_get_current (ks_taskctl s);
              cur \<leftarrow> taskCurrent;
              k \<leftarrow> get_task (ks_taskctl s) cur;
              Some (on_cpu (farjmp 0 (ucast (tk_sel k))) s)
            } else Some s
          }
        })"

text \<open>The idle task; \<open>n\<close> turns of its endless loop.\<close>

fun mprocess_task_idle :: "nat \<Rightarrow> cpu \<Rightarrow> cpu" where
  "mprocess_task_idle 0 c = c"
| "mprocess_task_idle (Suc n) c = mprocess_task_idle n (io_hlt c)"

section \<open>Initialisation of the scheduler\<close>

definition sizeof_TSS32 :: u32 where "sizeof_TSS32 = 108"
definition sizeof_TASK :: u32 where "sizeof_TASK = 16 + sizeof_TSS32"
definition sizeof_TASKCTL :: u32 where "sizeof_TASKCTL = 8 + 10 * 408 + 1000 * sizeof_TASK"

text \<open>The address of \<^verbatim>\<open>taskctl->tasks0[i].tss\<close>.\<close>

definition tss_addr :: "u32 \<Rightarrow> nat \<Rightarrow> u32" where
  "tss_addr taskctl i = taskctl + 8 + 10 * 408 + of_nat i * sizeof_TASK + 16"

text \<open>What \<^verbatim>\<open>kzalloc\<close> returns, read as a \<^verbatim>\<open>TASKCTL\<close>.\<close>

definition taskctl_zero :: TASKCTL where
  "taskctl_zero = \<lparr>tc_now_lv = 0, tc_lv_change = False,
     tc_level = replicate OS_MPROCESS_TASKLEVELS_MAX
       \<lparr>tl_running = 0, tl_now = 0, tl_tasks = replicate OS_MPROCESS_TASKLEVEL_TASKS_MAX None\<rparr>,
     tc_tasks0 = replicate OS_MPROCESS_TASK_MAX
       \<lparr>tk_sel = 0, tk_flags = 0, tk_priority = 0, tk_level = 0, tk_tss = tss0\<rparr>\<rparr>"

definition sd_zero :: GDT32SD where
  "sd_zero = \<lparr>sd_limit_low = 0, sd_base_low = 0, sd_base_mid = 0, sd_access_byte = 0, sd_limit_high = 0,
     sd_flags = 0, sd_base_high = 0\<rparr>"

text \<open>The loop that gives every task its descriptor; \<open>n\<close> is the number of turns left.\<close>

fun mprocess_init_loop :: "nat \<Rightarrow> nat \<Rightarrow> kernel \<Rightarrow> kernel option" where
  "mprocess_init_loop 0 i s = Some s"
| "mprocess_init_loop (Suc n) i s = do {
     s \<leftarrow> on_tasks (upd_task i (\<lambda>k. k\<lparr>tk_flags := MPROCESS_FLAGS_FREE,
            tk_sel := of_nat ((OS_MPROCESS_TSS_GDT_INDEX_START + i) * 8)\<rparr>)) s;
     let sd = gdt_set_segmdesc sd_zero sizeof_TSS32 (tss_addr (ks_taskctl_addr s) i) 0x89;
     (g, _) \<leftarrow> gdt_append (ks_gdt s) sd;
     mprocess_init_loop n (Suc i) (s\<lparr>ks_gdt := g\<rparr>)
   }"

definition OS_GDT_KERNEL_CODE_SEGMENT_SELECTOR :: u32 where "OS_GDT_KERNEL_CODE_SEGMENT_SELECTOR = 2 * 8"
definition OS_GDT_KERNEL_DATA_SEGMENT_SELECTOR :: u32 where "OS_GDT_KERNEL_DATA_SEGMENT_SELECTOR = 1 * 8"

text \<open>\<open>idle_addr\<close> is the address of \<^verbatim>\<open>__mprocess_task_idle\<close>.\<close>

definition idle_task_setup :: "u32 \<Rightarrow> u32 \<Rightarrow> TASK \<Rightarrow> TASK" where
  "idle_task_setup idle_addr stack k =
     k\<lparr>tk_level := int OS_MPROCESS_TASKLEVELS_MAX - 1, tk_priority := 1,
       tk_tss := (tk_tss k)\<lparr>tss_esp := stack + 4096 - 4, tss_eip := idle_addr,
         tss_cs := OS_GDT_KERNEL_CODE_SEGMENT_SELECTOR, tss_es := OS_GDT_KERNEL_DATA_SEGMENT_SELECTOR,
         tss_ss := OS_GDT_KERNEL_DATA_SEGMENT_SELECTOR, tss_ds := OS_GDT_KERNEL_DATA_SEGMENT_SELECTOR,
         tss_fs := OS_GDT_KERNEL_DATA_SEGMENT_SELECTOR, tss_gs := OS_GDT_KERNEL_DATA_SEGMENT_SELECTOR\<rparr>\<rparr>"

definition mprocess_init :: "u32 \<Rightarrow> kernel \<Rightarrow> (kernel \<times> nat) option" where
  "mprocess_init idle_addr s = do {
     let s = s\<lparr>ks_mpguard := i32 (ks_mpguard s + 1)\<rparr>;
     let s = (if ks_mpguard s > 1 then on_cpu io_hlt s else s);
     (m, p) \<leftarrow> kzalloc sizeof_TASKCTL (ks_mm s);
     if p = 0 then None
     else do {
       let s = s\<lparr>ks_mm := m, ks_taskctl_addr := p, ks_taskctl := taskctl_zero\<rparr>;
       s \<leftarrow> mprocess_init_loop OS_MPROCESS_TASK_MAX 0 s;
       let isCli = io_get_is_cli (ks_cpu s);
       let s = on_cpu (cli_unless isCli) s;
       let s = on_cpu (\<lambda>c. fst (gdt1_reload (Some (gdt_gdtr (ks_gdt s))) c)) s;
       (tc, task) \<leftarrow> mprocess_task_alloc (ks_taskctl s);
       t \<leftarrow> task;
       tc \<leftarrow> upd_task t (\<lambda>k. k\<lparr>tk_flags := MPROCESS_FLAGS_RUNNING, tk_priority := 2, tk_level := 0\<rparr>) tc;
       tc \<leftarrow> mprocess_task_add t tc;
       tc \<leftarrow> mprocess_task_update_currentlv tc;
       k \<leftarrow> get_task tc t;
       let s = on_cpu (gdt_ltr (ucast (tk_sel k))) (s\<lparr>ks_taskctl := tc\<rparr>);
       s \<leftarrow> on_timers (timer_settimer (timer_get_tssTimer s) (tk_priority k) 0) s;
       (tc, taskIdle) \<leftarrow> mprocess_task_alloc (ks_taskctl s);
       ti \<leftarrow> taskIdle;
       (m, stack) \<leftarrow> kmalloc 4096 (ks_mm s);
       tc \<leftarrow> upd_task ti (idle_task_setup idle_addr stack) tc;
       tc \<leftarrow> mprocess_task_run (Some ti) (-1) 0 tc;
       let s = s\<lparr>ks_mm := m, ks_taskctl := tc\<rparr>;
       Some (on_cpu (sti_unless isCli) s, t)
     }
   }"

section \<open>The timer interrupt\<close>

text \<open>The specification of the loop: the given timers send their data, one after the other.\<close>

fun fire_all :: "nat list \<Rightarrow> kernel \<Rightarrow> kernel option" where
  "fire_all [] s = Some s"
| "fire_all (t # ts) s = do {
     (s, _) \<leftarrow> mpfifo32_enqueue (tm_fifo (ctl_timer (ks_timerctl s) t)) (uint (tm_data (ctl_timer (ks_timerctl s) t))) s;
     fire_all ts s
   }"

lemma mpfifo32_enqueue_NULL [simp]: "mpfifo32_enqueue 0 d s = Some (s, - EIO)"
  by (simp add: mpfifo32_enqueue_def)

lemma mpfifo32_enqueue_timerctl:
  "mpfifo32_enqueue f d (s\<lparr>ks_timerctl := c\<rparr>) =
     map_option (\<lambda>(s, r). (s\<lparr>ks_timerctl := c\<rparr>, r)) (mpfifo32_enqueue f d s)"
  by (auto simp: mpfifo32_enqueue_def fifo_at_def set_fifo_def on_tasks_def Let_def split: option.splits Option.bind_splits)

lemma mpfifo32_enqueue_frame:
  "mpfifo32_enqueue f d s = Some (s', r) \<Longrightarrow>
   ks_timerctl s' = ks_timerctl s \<and> ks_tssTimer s' = ks_tssTimer s \<and> ks_cpu s' = ks_cpu s \<and> ks_gdt s' = ks_gdt s \<and> ks_mm s' = ks_mm s"
  by (auto simp: mpfifo32_enqueue_def fifo_at_def set_fifo_def on_tasks_def Let_def
      split: if_splits option.splits Option.bind_splits)

lemma fire_all_timerctl:
  assumes "\<And>t. t \<in> set ts \<Longrightarrow> tm_fifo (ctl_timer c t) = tm_fifo (ctl_timer (ks_timerctl s) t) \<and>
      tm_data (ctl_timer c t) = tm_data (ctl_timer (ks_timerctl s) t)"
  shows "fire_all ts (s\<lparr>ks_timerctl := c\<rparr>) = map_option (\<lambda>s. s\<lparr>ks_timerctl := c\<rparr>) (fire_all ts s)"
  using assms
proof (induction ts arbitrary: s)
  case (Cons t ts)
  show ?case
  proof (cases "mpfifo32_enqueue (tm_fifo (ctl_timer (ks_timerctl s) t)) (uint (tm_data (ctl_timer (ks_timerctl s) t))) s")
    case None
    then show ?thesis using Cons.prems by (simp add: mpfifo32_enqueue_timerctl)
  next
    case (Some r)
    obtain s1 x where r: "r = (s1, x)" by fastforce
    then have "ks_timerctl s1 = ks_timerctl s" using Some mpfifo32_enqueue_frame by blast
    then have "fire_all ts (s1\<lparr>ks_timerctl := c\<rparr>) = map_option (\<lambda>s. s\<lparr>ks_timerctl := c\<rparr>) (fire_all ts s1)"
      by (intro Cons.IH) (use Cons.prems in auto)
    then show ?thesis using Some r Cons.prems by (simp add: mpfifo32_enqueue_timerctl)
  qed
qed simp

lemma ks_timerctl_upd: "ks_timerctl (s\<lparr>ks_timerctl := c\<rparr>) = c"
  by simp

lemma links_next_guard: "links_ok h xs U \<Longrightarrow> dl_next (h 499) = hd (xs @ [499])"
  using dl.ring_nxt [of h 499 xs] by (simp add: links_ok_def)

text \<open>The loop fires exactly the timers that are due, in the order of the list.\<close>

lemma timer_fire_loop_correct:
  assumes "timers_ok (ks_timerctl s) xs" "ctl_tick (ks_timerctl s) = now"
  defines "due \<equiv> \<lambda>t. target (ks_timerctl s) t \<le> now"
  shows "\<exists>c'. timers_ok c' (dropWhile due xs) \<and> ctl_tick c' = now \<and> ctl_next_alarm c' = ctl_next_alarm (ks_timerctl s) \<and>
    (\<forall>t. ctl_timer c' t = (if t \<in> set (takeWhile due xs) then (ctl_timer (ks_timerctl s) t)\<lparr>tm_flags := TIMER_FLAGS_ALLOCATED\<rparr>
       else ctl_timer (ks_timerctl s) t)) \<and>
    timer_fire_loop (hd (xs @ [499])) b s =
      map_option (\<lambda>s'. (s'\<lparr>ks_timerctl := c'\<rparr>, b \<or> (\<exists>t\<in>set (takeWhile due xs). ks_tssTimer s = Some t)))
        (fire_all (takeWhile due xs) s)"
  using assms(1,2) unfolding due_def
proof (induction xs arbitrary: s b)
  case Nil
  have "ctl_listtail (ks_timerctl s) = 499" using timers_okD(4) [OF Nil(1)] .
  then show ?case using Nil by (intro exI [of _ "ks_timerctl s"]) (simp add: timer_fire_loop.simps)
next
  case (Cons x xs)
  let ?c = "ks_timerctl s"
  note d = timers_okD [OF Cons.prems(1)]
  have x: "x \<noteq> 499" "x \<notin> set xs" using d(2,3) by auto
  show ?case
  proof (cases "target ?c x \<le> now")
    case False
    then have "now < target ?c x" by simp
    then show ?thesis using False Cons.prems d(4) x by (intro exI [of _ ?c]) (simp add: timer_fire_loop.simps)
  next
    case True
    define c1 where "c1 = upd_ctl_links (remove_st x) (upd_timer x (\<lambda>m. m\<lparr>tm_flags := TIMER_FLAGS_ALLOCATED\<rparr>) ?c)"
    have ok1: "timers_ok c1 xs"
      using timers_ok_detach [of ?c "[]" x xs c1] Cons.prems(1) by (simp add: c1_def)
    have c1: "ctl_tick c1 = now" "ctl_next_alarm c1 = ctl_next_alarm ?c" "ctl_listtail c1 = 499"
      "ctl_timer c1 = (ctl_timer ?c)(x := (ctl_timer ?c x)\<lparr>tm_flags := TIMER_FLAGS_ALLOCATED\<rparr>)"
      using Cons.prems(2) d(4) by (simp_all add: c1_def)
    have tw: "takeWhile (\<lambda>t. target c1 t \<le> now) xs = takeWhile (\<lambda>t. target ?c t \<le> now) xs"
      "dropWhile (\<lambda>t. target c1 t \<le> now) xs = dropWhile (\<lambda>t. target ?c t \<le> now) xs"
      using x by (auto simp: c1(4) intro!: takeWhile_cong dropWhile_cong)
    have prev: "the (get_timer_prev ?c (Some x)) = 499"
      using links_prev [of "ctl_links ?c" "[]" x xs] d(1) by (simp add: get_timer_prev_def)
    have nx: "dl_next (ctl_links c1 499) = hd (xs @ [499])" using links_next_guard [OF timers_okD(1) [OF ok1]] .
    then have nx': "dl_next (remove_st x (ctl_links ?c) 499) = hd (xs @ [499])" by (simp add: c1_def)
    have nlt: "\<not> now < target ?c x" using True by simp
    let ?e = "mpfifo32_enqueue (tm_fifo (ctl_timer ?c x)) (uint (tm_data (ctl_timer ?c x))) s"
    let ?b = "b \<or> ks_tssTimer s = Some x"
    have step: "timer_fire_loop (hd ((x # xs) @ [499])) b s =
        ?e \<bind> (\<lambda>(s1, _). timer_fire_loop (hd (xs @ [499])) ?b (s1\<lparr>ks_timerctl := c1\<rparr>))"
    proof (cases ?e)
      case None
      then show ?thesis using d(4) x(1) True Cons.prems(2) by (simp add: timer_fire_loop.simps not_less Let_def)
    next
      case (Some r)
      obtain s1 y where r: "r = (s1, y)" by fastforce
      then have "ks_timerctl s1 = ?c" using Some mpfifo32_enqueue_frame by blast
      then show ?thesis using Some r d(4) x(1) nlt Cons.prems(2) prev nx'
        by (subst timer_fire_loop.simps) (simp add: Let_def c1_def [symmetric])
    qed
    let ?due = "takeWhile (\<lambda>t. target ?c t \<le> now) xs"
    have xd: "x \<notin> set ?due" using x(2) set_takeWhileD by fastforce
    note IH = Cons.IH [of "s1\<lparr>ks_timerctl := c1\<rparr>" ?b for s1, simplified, OF ok1 c1(1), unfolded tw c1(2) ks_timerctl_upd]
    show ?thesis
    proof (cases ?e)
      case None
      from IH [of s] obtain c' where c': "timers_ok c' (dropWhile (\<lambda>t. target ?c t \<le> now) xs)" "ctl_tick c' = now"
        "ctl_next_alarm c' = ctl_next_alarm ?c"
        "\<forall>t. ctl_timer c' t = (if t \<in> set ?due then (ctl_timer c1 t)\<lparr>tm_flags := TIMER_FLAGS_ALLOCATED\<rparr> else ctl_timer c1 t)"
        by blast
      show ?thesis
        by (rule exI [of _ c']) (use c' step None True xd in \<open>simp add: c1(4)\<close>)
    next
      case (Some r)
      obtain s1 y where r: "r = (s1, y)" by fastforce
      then have fr: "ks_timerctl s1 = ?c" "ks_tssTimer s1 = ks_tssTimer s" using Some mpfifo32_enqueue_frame by blast+
      from IH [of s1] obtain c' where c': "timers_ok c' (dropWhile (\<lambda>t. target ?c t \<le> now) xs)" "ctl_tick c' = now"
        "ctl_next_alarm c' = ctl_next_alarm ?c"
        "\<forall>t. ctl_timer c' t = (if t \<in> set ?due then (ctl_timer c1 t)\<lparr>tm_flags := TIMER_FLAGS_ALLOCATED\<rparr> else ctl_timer c1 t)"
        "timer_fire_loop (hd (xs @ [499])) ?b (s1\<lparr>ks_timerctl := c1\<rparr>) =
           map_option (\<lambda>s'. (s'\<lparr>ks_timerctl := c'\<rparr>, b \<or> ks_tssTimer s = Some x \<or> (\<exists>t\<in>set ?due. ks_tssTimer s1 = Some t)))
             (fire_all ?due (s1\<lparr>ks_timerctl := c1\<rparr>))"
        by blast
      have "fire_all ?due (s1\<lparr>ks_timerctl := c1\<rparr>) = map_option (\<lambda>s. s\<lparr>ks_timerctl := c1\<rparr>) (fire_all ?due s1)"
        by (rule fire_all_timerctl) (use xd in \<open>auto simp: c1(4) fr\<close>)
      then show ?thesis
        by (intro exI [of _ c']) (use c' step Some r True xd fr in \<open>simp add: c1(4) option.map_comp o_def disj_assoc\<close>)
    qed
  qed
qed

lemma timers_ok_tick [simp]: "timers_ok (c\<lparr>ctl_tick := k\<rparr>) xs = timers_ok c xs"
  "timers_ok (c\<lparr>ctl_next_alarm := k\<rparr>) xs = timers_ok c xs"
  by (simp_all add: timers_ok_def)

lemma fire_all_frame:
  "fire_all ts s = Some s' \<Longrightarrow> ks_timerctl s' = ks_timerctl s \<and> ks_tssTimer s' = ks_tssTimer s \<and> ks_cpu s' = ks_cpu s"
proof (induction ts arbitrary: s)
  case (Cons t ts)
  then obtain s1 r where "mpfifo32_enqueue (tm_fifo (ctl_timer (ks_timerctl s) t)) (uint (tm_data (ctl_timer (ks_timerctl s) t))) s = Some (s1, r)"
    "fire_all ts s1 = Some s'" by (auto split: Option.bind_splits)
  then show ?case using Cons.IH [of s1] mpfifo32_enqueue_frame by fastforce
qed simp

lemma timer_int_handler_ok:
  assumes ok: "timers_ok (ks_timerctl s) xs" and now: "now = ctl_tick (ks_timerctl s) + 1"
    and fire: "ctl_next_alarm (ks_timerctl s) \<le> now"
  defines "due \<equiv> \<lambda>t. target (ks_timerctl s) t \<le> now"
    and "isCli \<equiv> io_get_is_cli (ks_cpu s)"
    and "s0 \<equiv> on_cpu (cli_unless (io_get_is_cli (ks_cpu s)))
      (s\<lparr>ks_timerctl := (ks_timerctl s)\<lparr>ctl_tick := ctl_tick (ks_timerctl s) + 1\<rparr>\<rparr>)"
  shows "\<exists>c'. timers_ok c' (dropWhile due xs) \<and> alarm_ok c' (dropWhile due xs) \<and> ctl_tick c' = now \<and>
    (\<forall>t. ctl_timer c' t = (if t \<in> set (takeWhile due xs) then (ctl_timer (ks_timerctl s) t)\<lparr>tm_flags := TIMER_FLAGS_ALLOCATED\<rparr>
       else ctl_timer (ks_timerctl s) t)) \<and>
    timer_int_handler s = fire_all (takeWhile due xs) s0 \<bind> (\<lambda>s1.
      let s2 = on_cpu (sti_unless isCli) (s1\<lparr>ks_timerctl := c'\<rparr>)
      in if \<exists>t\<in>set (takeWhile due xs). ks_tssTimer s = Some t then mprocess_task_autoswitch s2 else Some s2)"
proof -
  have s0: "ks_timerctl s0 = (ks_timerctl s)\<lparr>ctl_tick := now\<rparr>" "ks_tssTimer s0 = ks_tssTimer s"
    by (simp_all add: s0_def on_cpu_def now)
  have ok0: "timers_ok (ks_timerctl s0) xs" using ok s0 by simp
  note d = timers_okD [OF ok0]
  have tk: "ctl_tick (ks_timerctl s0) = now" by (simp add: s0)
  obtain c1 where c1: "timers_ok c1 (dropWhile due xs)" "ctl_tick c1 = now"
    "\<forall>t. ctl_timer c1 t = (if t \<in> set (takeWhile due xs) then (ctl_timer (ks_timerctl s) t)\<lparr>tm_flags := TIMER_FLAGS_ALLOCATED\<rparr>
       else ctl_timer (ks_timerctl s) t)"
    "timer_fire_loop (hd (xs @ [499])) False s0 =
      map_option (\<lambda>s'. (s'\<lparr>ks_timerctl := c1\<rparr>, \<exists>t\<in>set (takeWhile due xs). ks_tssTimer s = Some t))
        (fire_all (takeWhile due xs) s0)"
    using timer_fire_loop_correct [OF ok0 tk, of False] by (auto simp: s0 due_def)
  have nx: "dl_next (ctl_links (ks_timerctl s0) 499) = hd (xs @ [499])" using links_next_guard [OF d(1)] .
  have nx1: "dl_next (ctl_links c1 499) = hd (dropWhile due xs @ [499])" using links_next_guard [OF timers_okD(1) [OF c1(1)]] .
  have lt1: "ctl_listtail c1 = 499" using timers_okD(4) [OF c1(1)] .
  define c' where "c' = c1\<lparr>ctl_next_alarm := target c1 (hd (dropWhile due xs @ [499]))\<rparr>"
  have "timer_int_handler s = timer_fire_loop (hd (xs @ [499])) False s0 \<bind> (\<lambda>(s, b).
      let c = ks_timerctl s; s = s\<lparr>ks_timerctl := c\<lparr>ctl_next_alarm := target c (the (get_timer_next c (Some (ctl_listtail c))))\<rparr>\<rparr>;
          s = on_cpu (sti_unless isCli) s in if b then mprocess_task_autoswitch s else Some s)"
  proof -
    have e: "(on_cpu (cli_unless isCli) s)\<lparr>ks_timerctl := (ks_timerctl (on_cpu (cli_unless isCli) s))
        \<lparr>ctl_tick := ctl_tick (ks_timerctl (on_cpu (cli_unless isCli) s)) + 1\<rparr>\<rparr> = s0"
      by (simp add: s0_def on_cpu_def isCli_def)
    have na: "\<not> ctl_next_alarm (ks_timerctl s0) > ctl_tick (ks_timerctl s0)" using fire by (simp add: s0)
    have "ctl_listtail (ks_timerctl s0) = 499" using d(4) .
    then show ?thesis
      unfolding timer_int_handler_def Let_def isCli_def [symmetric] e if_not_P [OF na] nx by (simp add: nx Let_def)
  qed
  also have "\<dots> = fire_all (takeWhile due xs) s0 \<bind> (\<lambda>s1. let s2 = on_cpu (sti_unless isCli) (s1\<lparr>ks_timerctl := c'\<rparr>)
      in if \<exists>t\<in>set (takeWhile due xs). ks_tssTimer s = Some t then mprocess_task_autoswitch s2 else Some s2)"
    by (cases "fire_all (takeWhile due xs) s0") (simp_all add: c1(4) lt1 get_timer_next_def nx1 c'_def Let_def)
  finally show ?thesis
    by (intro exI [of _ c']) (use c1 in \<open>auto simp: c'_def alarm_ok_def\<close>)
qed

section \<open>Sleeping and waking\<close>

lemma enqueue_wakes:
  assumes f: "f \<noteq> 0" and q: "fifo_wf (mp_fifo32 (ks_fifos s f))"
      "length (fifo_contents (mp_fifo32 (ks_fifos s f))) < nat (fifo_buflen (mp_fifo32 (ks_fifos s f)))"
    and t: "mp_task (ks_fifos s f) = Some t" "t < 1000" "sched_ok (ks_taskctl s)"
      "tk_flags (tc_tasks0 (ks_taskctl s) ! t) = MPROCESS_FLAGS_ALLOCATED"
    and l: "tk_level (tc_tasks0 (ks_taskctl s) ! t) = int l" "l < 10" "tl_running (tc_level (ks_taskctl s) ! l) < 100"
  shows "\<exists>s'. mpfifo32_enqueue f x s = Some (s', 0) \<and> fifo_wf (mp_fifo32 (ks_fifos s' f)) \<and>
    fifo_contents (mp_fifo32 (ks_fifos s' f)) = fifo_contents (mp_fifo32 (ks_fifos s f)) @ [x] \<and>
    sched_ok (ks_taskctl s') \<and> t \<in> set (ready (tc_level (ks_taskctl s') ! l)) \<and> tc_lv_change (ks_taskctl s') \<and>
    tk_priority (tc_tasks0 (ks_taskctl s') ! t) = tk_priority (tc_tasks0 (ks_taskctl s) ! t)"
proof -
  obtain q' where q': "fifo32_enqueue (Some (mp_fifo32 (ks_fifos s f))) x = Some (Some q', 0)" "fifo_wf q'"
    "fifo_contents q' = fifo_contents (mp_fifo32 (ks_fifos s f)) @ [x]"
    using fifo_enqueue_ok [OF q(1), of x] q by auto
  have "run_level (ks_taskctl s) t (-1) = int l" by (simp add: run_level_def l)
  from mprocess_task_run_ok [OF t(3,2) this l(2) _ l(3), of 0] obtain tc' where tc':
    "mprocess_task_run (Some t) (-1) 0 (ks_taskctl s) = Some tc'" "sched_ok tc'" "t \<in> set (ready (tc_level tc' ! l))"
    "tk_priority (tc_tasks0 tc' ! t) = run_priority (ks_taskctl s) t 0" "tc_lv_change tc'"
    using t(4) by auto
  have g: "get_task (ks_taskctl s) t = Some (tc_tasks0 (ks_taskctl s) ! t)"
    using t(2) sched_okD(1) [OF t(3)] by (simp add: get_task_def aget_def)
  show ?thesis
    using f q' t(1,4) tc' g
    by (simp add: mpfifo32_enqueue_def fifo_at_def set_fifo_def on_tasks_def Let_def run_priority_def)
qed

lemma get_current_ok:
  assumes ok: "sched_ok tc" and l: "tc_now_lv tc = int l" "tl_running (tc_level tc ! l) > 0"
  shows "mprocess_task_get_current tc = Some (Some (ready (tc_level tc ! l) ! nat (tl_now (tc_level tc ! l))))"
    "ready (tc_level tc ! l) ! nat (tl_now (tc_level tc ! l)) \<in> set (ready (tc_level tc ! l))"
proof -
  have l10: "l < 10" using sched_okD(5,6) [OF ok] l by simp
  have lo: "level_ok (tc_tasks0 tc) l (tc_level tc ! l)" using sched_okD(3) [OF ok l10] .
  have n: "0 \<le> tl_now (tc_level tc ! l)" "tl_now (tc_level tc ! l) < tl_running (tc_level tc ! l)"
    using lo l(2) by (auto simp: level_ok_def)
  then show "mprocess_task_get_current tc = Some (Some (ready (tc_level tc ! l) ! nat (tl_now (tc_level tc ! l))))"
    using ready_nth [OF lo n] l l10 sched_okD(2) [OF ok] by (simp add: mprocess_task_get_current_def get_level_ok)
  show "ready (tc_level tc ! l) ! nat (tl_now (tc_level tc ! l)) \<in> set (ready (tc_level tc ! l))"
    using n level_ok_ready(2) [OF lo] by (intro nth_mem) (simp add: nat_less_iff)
qed

lemma sleep_current:
  assumes ok: "sched_ok (ks_taskctl s)" and cur: "mprocess_task_get_current (ks_taskctl s) = Some (Some t)"
    and lv: "tc_now_lv (ks_taskctl s) = int l" "tl_running (tc_level (ks_taskctl s) ! l) > 0"
    and other: "l' < 10" "u \<in> set (ready (tc_level (ks_taskctl s) ! l'))" "u \<noteq> t"
  shows "\<exists>s' nx. mprocess_task_sleep (Some t) s = Some s' \<and> sched_ok (ks_taskctl s') \<and>
    tk_flags (tc_tasks0 (ks_taskctl s') ! t) = MPROCESS_FLAGS_ALLOCATED \<and>
    mprocess_task_get_current (ks_taskctl s') = Some (Some nx) \<and> nx \<noteq> t \<and> nx < 1000 \<and>
    cpu_tr (ks_cpu s') = ucast (tk_sel (tc_tasks0 (ks_taskctl s') ! nx))"
proof -
  let ?tc = "ks_taskctl s"
  note D = sched_okD [OF ok]
  have l10: "l < 10" using D(5,6) lv by simp
  have tr: "t \<in> set (ready (tc_level ?tc ! l))" using get_current_ok [OF ok lv] cur by simp
  then obtain xs ys where xy: "ready (tc_level ?tc ! l) = xs @ t # ys" by (meson split_list)
  have t: "t < 1000" "tk_flags (tc_tasks0 ?tc ! t) = MPROCESS_FLAGS_RUNNING"
    using ready_task [OF ok l10 tr] by auto
  have gt: "get_task ?tc t = Some (tc_tasks0 ?tc ! t)" using t D(1) by (simp add: get_task_def aget_def)
  obtain tc1 where tc1: "mprocess_task_remove (Some t) ?tc = Some tc1" "sched_ok tc1"
    "tc_tasks0 tc1 = (tc_tasks0 ?tc)[t := (tc_tasks0 ?tc ! t)\<lparr>tk_flags := MPROCESS_FLAGS_ALLOCATED\<rparr>]"
    "ready (tc_level tc1 ! l) = xs @ ys" "\<forall>l'. l' \<noteq> l \<longrightarrow> tc_level tc1 ! l' = tc_level ?tc ! l'"
    using mprocess_task_remove_ok [OF ok l10 xy] by blast
  have u1: "u \<in> set (ready (tc_level tc1 ! l'))" using other tc1(4,5) xy by (cases "l' = l") auto
  have fl: "tk_flags (tc_tasks0 tc1 ! t) = MPROCESS_FLAGS_ALLOCATED" using tc1(3) t(1) D(1) by simp
  have lo1: "level_ok (tc_tasks0 tc1) l' (tc_level tc1 ! l')" using sched_okD(3) [OF tc1(2) other(1)] .
  have run1: "tl_running (tc_level tc1 ! l') > 0" using u1 level_ok_ready(2) [OF lo1] by (cases "tl_running (tc_level tc1 ! l') > 0") auto
  note h = highest_ok [OF tc1(2) other(1) run1]
  define tc2 where "tc2 = tc1\<lparr>tc_now_lv := int (highest tc1), tc_lv_change := False\<rparr>"
  have ok2: "sched_ok tc2" using tc1(2) h(1) by (simp add: tc2_def sched_ok_def mprocess_max)
  have g2: "mprocess_task_get_current tc2 = Some (Some (ready (tc_level tc1 ! highest tc1) ! nat (tl_now (tc_level tc1 ! highest tc1))))"
    "ready (tc_level tc1 ! highest tc1) ! nat (tl_now (tc_level tc1 ! highest tc1)) \<in> set (ready (tc_level tc1 ! highest tc1))"
    using get_current_ok [OF ok2, of "highest tc1"] h(3) by (simp_all add: tc2_def)
  define nx where "nx = ready (tc_level tc1 ! highest tc1) ! nat (tl_now (tc_level tc1 ! highest tc1))"
  have nxr: "nx < 1000" "tk_flags (tc_tasks0 tc1 ! nx) = MPROCESS_FLAGS_RUNNING"
    using ready_task [OF tc1(2) h(1)] g2(2) by (auto simp: nx_def)
  then have ne: "nx \<noteq> t" using fl by (auto simp: mprocess_flags)
  have gn: "get_task tc2 nx = Some (tc_tasks0 tc1 ! nx)"
    using nxr(1) sched_okD(1) [OF tc1(2)] by (simp add: tc2_def get_task_def aget_def)
  have "mprocess_task_sleep (Some t) s = Some (on_cpu (farjmp 0 (ucast (tk_sel (tc_tasks0 tc1 ! nx)))) (s\<lparr>ks_taskctl := tc2\<rparr>))"
    using gt t(2) cur tc1(1) update_currentlv_ok [OF tc1(2) other(1) run1] g2(1) gn
    by (simp add: mprocess_task_sleep_def on_tasks_def tc2_def [symmetric] nx_def [symmetric])
  then show ?thesis using ok2 fl g2(1) ne nxr(1)
    by (auto simp: on_cpu_def farjmp_def emit_def tc2_def nx_def)
qed

section \<open>The descriptors of the tasks\<close>

lemma mprocess_init_loop_ok:
  assumes "gdt_len (ks_gdt s) (3 + i)" "length (tc_tasks0 (ks_taskctl s)) = 1000" "i + n \<le> 1000"
  shows "\<exists>s'. mprocess_init_loop n i s = Some s' \<and> gdt_len (ks_gdt s') (3 + i + n) \<and>
    length (tc_tasks0 (ks_taskctl s')) = 1000 \<and> ks_taskctl_addr s' = ks_taskctl_addr s \<and>
    (\<forall>j. (if i \<le> j \<and> j < i + n
       then tk_sel (tc_tasks0 (ks_taskctl s') ! j) = of_nat ((3 + j) * 8) \<and> tk_flags (tc_tasks0 (ks_taskctl s') ! j) = MPROCESS_FLAGS_FREE \<and>
         gdt_gdts (ks_gdt s') ! (3 + j) = gdt_set_segmdesc sd_zero sizeof_TSS32 (tss_addr (ks_taskctl_addr s) j) 0x89
       else tc_tasks0 (ks_taskctl s') ! j = tc_tasks0 (ks_taskctl s) ! j \<and>
         gdt_gdts (ks_gdt s') ! (3 + j) = gdt_gdts (ks_gdt s) ! (3 + j))) \<and>
    (\<forall>k < 3. gdt_gdts (ks_gdt s') ! k = gdt_gdts (ks_gdt s) ! k)"
  using assms
proof (induction n arbitrary: i s)
  case (Suc n)
  let ?k = "(tc_tasks0 (ks_taskctl s) ! i)\<lparr>tk_flags := MPROCESS_FLAGS_FREE, tk_sel := of_nat ((3 + i) * 8)\<rparr>"
  let ?sd = "gdt_set_segmdesc sd_zero sizeof_TSS32 (tss_addr (ks_taskctl_addr s) i) 0x89"
  obtain g where g: "gdt_append (ks_gdt s) ?sd = Some (g, of_nat (8 * (3 + i)))" "gdt_len g (3 + Suc i)"
    "gdt_gdts g = (gdt_gdts (ks_gdt s))[3 + i := ?sd]"
    using gdt_append_len [OF Suc.prems(1), of ?sd] Suc.prems(3) by auto
  define s1 where "s1 = s\<lparr>ks_taskctl := (ks_taskctl s)\<lparr>tc_tasks0 := (tc_tasks0 (ks_taskctl s))[i := ?k]\<rparr>, ks_gdt := g\<rparr>"
  have st: "mprocess_init_loop (Suc n) i s = mprocess_init_loop n (Suc i) s1"
    using g(1) Suc.prems(2,3)
    by (simp add: on_tasks_def upd_task_def aget_def aset_def s1_def OS_MPROCESS_TSS_GDT_INDEX_START_def Let_def)
  have len: "length (gdt_gdts (ks_gdt s)) = 8192" using Suc.prems(1) by (simp add: gdt_len_def)
  have "\<exists>s'. mprocess_init_loop n (Suc i) s1 = Some s' \<and> gdt_len (ks_gdt s') (3 + Suc i + n) \<and>
    length (tc_tasks0 (ks_taskctl s')) = 1000 \<and> ks_taskctl_addr s' = ks_taskctl_addr s1 \<and>
    (\<forall>j. (if Suc i \<le> j \<and> j < Suc i + n
       then tk_sel (tc_tasks0 (ks_taskctl s') ! j) = of_nat ((3 + j) * 8) \<and> tk_flags (tc_tasks0 (ks_taskctl s') ! j) = MPROCESS_FLAGS_FREE \<and>
         gdt_gdts (ks_gdt s') ! (3 + j) = gdt_set_segmdesc sd_zero sizeof_TSS32 (tss_addr (ks_taskctl_addr s1) j) 0x89
       else tc_tasks0 (ks_taskctl s') ! j = tc_tasks0 (ks_taskctl s1) ! j \<and>
         gdt_gdts (ks_gdt s') ! (3 + j) = gdt_gdts (ks_gdt s1) ! (3 + j))) \<and>
    (\<forall>k < 3. gdt_gdts (ks_gdt s') ! k = gdt_gdts (ks_gdt s1) ! k)"
    by (rule Suc.IH) (use g Suc.prems in \<open>simp_all add: s1_def\<close>)
  then obtain s' where s': "mprocess_init_loop n (Suc i) s1 = Some s'" "gdt_len (ks_gdt s') (3 + Suc i + n)"
    "length (tc_tasks0 (ks_taskctl s')) = 1000" "ks_taskctl_addr s' = ks_taskctl_addr s"
    and J: "\<And>j. (if Suc i \<le> j \<and> j < Suc i + n
       then tk_sel (tc_tasks0 (ks_taskctl s') ! j) = of_nat ((3 + j) * 8) \<and> tk_flags (tc_tasks0 (ks_taskctl s') ! j) = MPROCESS_FLAGS_FREE \<and>
         gdt_gdts (ks_gdt s') ! (3 + j) = gdt_set_segmdesc sd_zero sizeof_TSS32 (tss_addr (ks_taskctl_addr s) j) 0x89
       else tc_tasks0 (ks_taskctl s') ! j = tc_tasks0 (ks_taskctl s1) ! j \<and>
         gdt_gdts (ks_gdt s') ! (3 + j) = gdt_gdts g ! (3 + j))"
    and K: "\<forall>k < 3. gdt_gdts (ks_gdt s') ! k = gdt_gdts g ! k"
    by (auto simp: s1_def)
  have "if i \<le> j \<and> j < i + Suc n
       then tk_sel (tc_tasks0 (ks_taskctl s') ! j) = of_nat ((3 + j) * 8) \<and> tk_flags (tc_tasks0 (ks_taskctl s') ! j) = MPROCESS_FLAGS_FREE \<and>
         gdt_gdts (ks_gdt s') ! (3 + j) = gdt_set_segmdesc sd_zero sizeof_TSS32 (tss_addr (ks_taskctl_addr s) j) 0x89
       else tc_tasks0 (ks_taskctl s') ! j = tc_tasks0 (ks_taskctl s) ! j \<and>
         gdt_gdts (ks_gdt s') ! (3 + j) = gdt_gdts (ks_gdt s) ! (3 + j)" for j
    using J [of j] g(3) len Suc.prems(2,3) by (cases "j = i") (auto simp: s1_def split: if_splits)
  moreover have "\<forall>k < 3. gdt_gdts (ks_gdt s') ! k = gdt_gdts (ks_gdt s) ! k" using K g(3) by simp
  moreover have "gdt_len (ks_gdt s') (3 + i + Suc n)" using s'(2) by (simp add: add.assoc)
  ultimately show ?case unfolding st using s'(1,3,4) by blast
qed auto

section \<open>Properties\<close>

text \<open>
  C7: The timer interrupt, when the next alarm has been reached: it sends the data of exactly the timers
  that are due, in the order of the list, marks them allocated and takes them out of the list;
  the table stays well formed, the next alarm is the target of the first timer that is left, the
  interrupt flag is as before the call, and a task switch follows iff the scheduler's timer was among
  them. Before the next alarm only the tick counter advances; the interrupts stay disabled.
\<close>

theorem timer_int_handler_correct:
  assumes ok: "timers_ok (ks_timerctl s) xs"
  shows "let now = ctl_tick (ks_timerctl s) + 1; isCli = io_get_is_cli (ks_cpu s);
      s0 = on_cpu (cli_unless isCli) (s\<lparr>ks_timerctl := (ks_timerctl s)\<lparr>ctl_tick := now\<rparr>\<rparr>);
      due = takeWhile (\<lambda>t. target (ks_timerctl s) t \<le> now) xs;
      left = dropWhile (\<lambda>t. target (ks_timerctl s) t \<le> now) xs
    in if now < ctl_next_alarm (ks_timerctl s) then timer_int_handler s = Some s0
       else \<exists>c'. timers_ok c' left \<and> alarm_ok c' left \<and> ctl_tick c' = now \<and>
         (\<forall>t. ctl_timer c' t = (if t \<in> set due then (ctl_timer (ks_timerctl s) t)\<lparr>tm_flags := TIMER_FLAGS_ALLOCATED\<rparr>
            else ctl_timer (ks_timerctl s) t)) \<and>
         timer_int_handler s = fire_all due s0 \<bind> (\<lambda>s1.
           let s2 = on_cpu (sti_unless isCli) (s1\<lparr>ks_timerctl := c'\<rparr>)
           in if \<exists>t\<in>set due. ks_tssTimer s = Some t then mprocess_task_autoswitch s2 else Some s2)"
proof (cases "ctl_tick (ks_timerctl s) + 1 < ctl_next_alarm (ks_timerctl s)")
  case True
  then show ?thesis by (simp add: timer_int_handler_def Let_def on_cpu_def)
next
  case False
  then show ?thesis using timer_int_handler_ok [OF ok refl] unfolding Let_def if_not_P [OF False]
    by (simp add: not_less)
qed

text \<open>
  Putting data into the FIFO of a task that sleeps wakes it: the data is at the end of the queue, the
  task is ready again on its level with its old priority, the next switch chooses the level
  anew, and the tables stay consistent.
\<close>

theorem mpfifo32_enqueue_wakes:
  assumes "f \<noteq> 0" "fifo_wf (mp_fifo32 (ks_fifos s f))"
      "length (fifo_contents (mp_fifo32 (ks_fifos s f))) < nat (fifo_buflen (mp_fifo32 (ks_fifos s f)))"
    and "mp_task (ks_fifos s f) = Some t" "t < 1000" "sched_ok (ks_taskctl s)"
      "tk_flags (tc_tasks0 (ks_taskctl s) ! t) = MPROCESS_FLAGS_ALLOCATED"
    and "tk_level (tc_tasks0 (ks_taskctl s) ! t) = int l" "l < 10" "tl_running (tc_level (ks_taskctl s) ! l) < 100"
  shows "\<exists>s'. mpfifo32_enqueue f x s = Some (s', 0) \<and> fifo_wf (mp_fifo32 (ks_fifos s' f)) \<and>
    fifo_contents (mp_fifo32 (ks_fifos s' f)) = fifo_contents (mp_fifo32 (ks_fifos s f)) @ [x] \<and>
    sched_ok (ks_taskctl s') \<and> t \<in> set (ready (tc_level (ks_taskctl s') ! l)) \<and> tc_lv_change (ks_taskctl s') \<and>
    tk_priority (tc_tasks0 (ks_taskctl s') ! t) = tk_priority (tc_tasks0 (ks_taskctl s) ! t)"
  by (rule enqueue_wakes [OF assms])

text \<open>
  The current task puts itself to sleep while another task is ready: it leaves the ready tasks, and the
  processor switches to a different task, the current one of the highest level that has a
  ready task; the tables stay consistent.
\<close>

theorem mprocess_task_sleep_switches:
  assumes "sched_ok (ks_taskctl s)" "mprocess_task_get_current (ks_taskctl s) = Some (Some t)"
    and "tc_now_lv (ks_taskctl s) = int l" "tl_running (tc_level (ks_taskctl s) ! l) > 0"
    and "l' < 10" "u \<in> set (ready (tc_level (ks_taskctl s) ! l'))" "u \<noteq> t"
  shows "\<exists>s' nx. mprocess_task_sleep (Some t) s = Some s' \<and> sched_ok (ks_taskctl s') \<and>
    tk_flags (tc_tasks0 (ks_taskctl s') ! t) = MPROCESS_FLAGS_ALLOCATED \<and>
    mprocess_task_get_current (ks_taskctl s') = Some (Some nx) \<and> nx \<noteq> t \<and> nx < 1000 \<and>
    cpu_tr (ks_cpu s') = ucast (tk_sel (tc_tasks0 (ks_taskctl s') ! nx))"
  by (rule sleep_current [OF assms])

text \<open>
  The loop of \<^verbatim>\<open>mprocess_init\<close> over a table with the three descriptors of the boot loader: it returns, the
  selector of every task names a descriptor whose base is the address of that task's state
  segment and whose limit is its size, and the descriptors of the boot loader are kept. A far
  jump to the selector of a task thus resumes that task.
\<close>

theorem mprocess_init_descriptors:
  assumes "gdt_len (ks_gdt s) 3" "length (tc_tasks0 (ks_taskctl s)) = 1000"
  shows "\<exists>s'. mprocess_init_loop OS_MPROCESS_TASK_MAX 0 s = Some s' \<and> gdt_len (ks_gdt s') 1003 \<and>
    (\<forall>t < 1000. let sel = unat (tk_sel (tc_tasks0 (ks_taskctl s') ! t)); sd = gdt_gdts (ks_gdt s') ! (sel div 8)
       in sel mod 8 = 0 \<and> sel div 8 < 1003 \<and> tk_flags (tc_tasks0 (ks_taskctl s') ! t) = MPROCESS_FLAGS_FREE \<and>
          sd_base sd = tss_addr (ks_taskctl_addr s) t \<and> sd_limit sd = sizeof_TSS32 \<and> sd_access_byte sd = 0x89) \<and>
    (\<forall>k < 3. gdt_gdts (ks_gdt s') ! k = gdt_gdts (ks_gdt s) ! k)"
proof -
  obtain s' where s': "mprocess_init_loop 1000 0 s = Some s'" "gdt_len (ks_gdt s') 1003"
    "\<forall>k < 3. gdt_gdts (ks_gdt s') ! k = gdt_gdts (ks_gdt s) ! k"
    and J: "\<And>j. j < 1000 \<Longrightarrow> tk_sel (tc_tasks0 (ks_taskctl s') ! j) = of_nat ((3 + j) * 8) \<and>
      tk_flags (tc_tasks0 (ks_taskctl s') ! j) = MPROCESS_FLAGS_FREE \<and>
      gdt_gdts (ks_gdt s') ! (3 + j) = gdt_set_segmdesc sd_zero sizeof_TSS32 (tss_addr (ks_taskctl_addr s) j) 0x89"
    using mprocess_init_loop_ok [of s 0 1000] assms by auto
  have "unat (of_nat ((3 + j) * 8) :: u32) = (3 + j) * 8" if "j < 1000" for j
    using that by (intro unat_of_nat_small) simp
  then show ?thesis using s' J by (auto simp: mprocess_max Let_def sizeof_TSS32_def)
qed

section \<open>Examples\<close>

text \<open>A kernel with the example timers, of which timer 0 is the scheduler's, and the example tasks.\<close>

definition kernel0 :: kernel where
  "kernel0 = \<lparr>ks_cpu = cpu0, ks_gdt = gdt3,
     ks_mm = \<lparr>mm_dl = heap4, mm_tab = heap_small [], mm_mem = (\<lambda>_. 0)\<rparr>,
     ks_timerctl = (ex_table ex_free)\<lparr>ctl_tick := 9\<rparr>, ks_tssTimer = None,
     ks_taskctl = taskctl0, ks_taskctl_addr = 0x1020,
     ks_fifos = (\<lambda>_. \<lparr>mp_fifo32 = \<lparr>fifo_buf = Some [0, 0], fifo_buflen = 2, fifo_free = 2, fifo_next_r = 0, fifo_next_w = 0, fifo_flags = 0\<rparr>,
       mp_bufaddr = 0x2000, mp_task = Some 3\<rparr>),
     ks_mpguard = 0\<rparr>"

lemma kernel0_timers: "timers_ok (ks_timerctl kernel0) [0, 1]"
  using ex_table_ok [of ex_free] by (simp add: kernel0_def)

theorem timer_int_handler_correct_witness:
  "\<exists>s'. timer_int_handler kernel0 = Some s' \<and> timers_ok (ks_timerctl s') [1] \<and> flags (ks_timerctl s') 0 = TIMER_FLAGS_ALLOCATED"
proof -
  have tg: "target (ks_timerctl kernel0) 0 = 10" "target (ks_timerctl kernel0) 1 = UINT32_MAX"
    "ctl_tick (ks_timerctl kernel0) = 9" "ctl_next_alarm (ks_timerctl kernel0) = 10" "ks_tssTimer kernel0 = None"
    "tm_fifo (ctl_timer (ks_timerctl kernel0) 0) = 0"
    by (simp_all add: kernel0_def ex_table_def ex_free_def)
  then have tw: "takeWhile (\<lambda>t. target (ks_timerctl kernel0) t \<le> 9 + 1) [0, 1] = [0]"
    "dropWhile (\<lambda>t. target (ks_timerctl kernel0) t \<le> 9 + 1) [0, 1] = [1]"
    by (simp_all add: UINT32_MAX_def)
  then show ?thesis using timer_int_handler_correct [OF kernel0_timers] tg tw
    by (simp add: Let_def on_cpu_def) (auto simp: on_cpu_def)
qed

theorem mpfifo32_enqueue_wakes_witness:
  "\<exists>s'. mpfifo32_enqueue 64 7 kernel0 = Some (s', 0) \<and> fifo_contents (mp_fifo32 (ks_fifos s' 64)) = [7] \<and>
     3 \<in> set (ready (tc_level (ks_taskctl s') ! 0))"
proof -
  have "fifo_wf (mp_fifo32 (ks_fifos kernel0 64))" "fifo_contents (mp_fifo32 (ks_fifos kernel0 64)) = []"
    "fifo_buflen (mp_fifo32 (ks_fifos kernel0 64)) = 2" "mp_task (ks_fifos kernel0 64) = Some 3" "ks_taskctl kernel0 = taskctl0"
    by (simp_all add: kernel0_def fifo_wf_def fifo_contents_def fifo_used_def)
  then show ?thesis using mpfifo32_enqueue_wakes [of 64 kernel0 3 0 7] taskctl0_ok
    by (auto simp: taskctl0_task taskctl0_level task0_def mprocess_flags level0_def)
qed

theorem mprocess_task_sleep_switches_witness:
  "\<exists>s' nx. mprocess_task_sleep (Some 0) kernel0 = Some s' \<and> mprocess_task_get_current (ks_taskctl s') = Some (Some nx) \<and> nx \<noteq> 0"
proof -
  have k: "ks_taskctl kernel0 = taskctl0" by (simp add: kernel0_def)
  have "mprocess_task_get_current taskctl0 = Some (Some 0)"
    using get_current_ok(1) [OF taskctl0_ok, of 0] by (simp add: taskctl0_sel taskctl0_level level0_ready) (simp add: level0_def)
  then show ?thesis
    using mprocess_task_sleep_switches [of kernel0 0 0 0 2] taskctl0_ok
    by (auto simp: k taskctl0_sel taskctl0_level level0_ready) (auto simp: level0_def)
qed

theorem mprocess_init_descriptors_witness:
  "\<exists>s'. mprocess_init_loop OS_MPROCESS_TASK_MAX 0 kernel0 = Some s' \<and> gdt_len (ks_gdt s') 1003"
  using mprocess_init_descriptors [of kernel0] gdt3_len sched_okD(1) [OF taskctl0_ok] by (auto simp: kernel0_def)

end
