(* ===== verification/Graphics.thy ===== *)
theory Graphics
  imports Machine
begin

text \<open>
  Drawing (\<^verbatim>\<open>src/src/drivers/graphic/videomode.c\<close>): the primitives that write pixels, one byte each,
  into a buffer of memory, the windows and the desktop made of them, the font
  \<^verbatim>\<open>src/src/font/hankaku.c\<close> and the palette. A C string is the list of the bytes before its
  terminating zero. Coordinates are integers: their overflow is undefined behaviour in C, and the
  address of a pixel is computed modulo the size of the address space.
\<close>

section \<open>Colours and fonts\<close>

definition COL8_000000 :: u8 where "COL8_000000 = 0"
definition COL8_FF0000 :: u8 where "COL8_FF0000 = 1"
definition COL8_00FF00 :: u8 where "COL8_00FF00 = 2"
definition COL8_0000FF :: u8 where "COL8_0000FF = 4"
definition COL8_FFFFFF :: u8 where "COL8_FFFFFF = 7"
definition COL8_C6C6C6 :: u8 where "COL8_C6C6C6 = 8"
definition COL8_840000 :: u8 where "COL8_840000 = 9"
definition COL8_000084 :: u8 where "COL8_000084 = 12"
definition COL8_008484 :: u8 where "COL8_008484 = 14"
definition COL8_848484 :: u8 where "COL8_848484 = 15"

lemmas colours = COL8_000000_def COL8_FF0000_def COL8_00FF00_def COL8_0000FF_def COL8_FFFFFF_def COL8_C6C6C6_def
  COL8_840000_def COL8_000084_def COL8_008484_def COL8_848484_def

definition font_A :: "u8 list" where
  "font_A = [0x00, 0x18, 0x18, 0x18, 0x18, 0x24, 0x24, 0x24, 0x24, 0x7e, 0x42, 0x42, 0x42, 0xe7, 0x00, 0x00]"

text \<open>The rows of the font file, sixteen bytes for each character: first the characters 0 to 127, then
  128 to 255.\<close>

definition hankaku_low :: "u8 list list" where
  "hankaku_low = [
    [0, 0, 0, 0, 0, 0, 0, 0, 0, 0, 0, 0, 0, 0, 0, 0],
    [0, 0, 0x38, 0x44, 0x82, 0xaa, 0xaa, 0x82, 0x82, 0xaa, 0x92, 0x44, 0x38, 0, 0, 0],
    [0, 0, 0x38, 0x7c, 0xfe, 0xd6, 0xd6, 0xfe, 0xfe, 0xd6, 0xee, 0x7c, 0x38, 0, 0, 0],
    [0, 0, 0, 0, 0x6c, 0xfe, 0xfe, 0xfe, 0x7c, 0x38, 0x10, 0, 0, 0, 0, 0],
    [0, 0, 0, 0, 0x10, 0x38, 0x7c, 0xfe, 0x7c, 0x38, 0x10, 0, 0, 0, 0, 0],
    [0, 0, 0, 0, 0x10, 0x38, 0x54, 0xfe, 0x54, 0x10, 0x38, 0, 0, 0, 0, 0],
    [0, 0, 0, 0, 0x10, 0x38, 0x7c, 0xfe, 0xd6, 0x10, 0x38, 0, 0, 0, 0, 0],
    [0, 0, 0, 0, 0, 0, 0x18, 0x3c, 0x3c, 0x18, 0, 0, 0, 0, 0, 0],
    [0xff, 0xff, 0xff, 0xff, 0xff, 0xff, 0xe7, 0xc3, 0xc3, 0xe7, 0xff, 0xff, 0xff, 0xff, 0xff, 0xff],
    [0, 0, 0, 0, 0, 0x3c, 0x66, 0x42, 0x42, 0x66, 0x3c, 0, 0, 0, 0, 0],
    [0xff, 0xff, 0xff, 0xff, 0xff, 0xc3, 0x99, 0xbd, 0xbd, 0x99, 0xc3, 0xff, 0xff, 0xff, 0xff, 0xff],
    [0, 0x10, 0x38, 0x54, 0x92, 0x10, 0x10, 0x38, 0x44, 0x82, 0x82, 0x82, 0x44, 0x38, 0, 0],
    [0, 0x38, 0x44, 0x82, 0x82, 0x82, 0x44, 0x38, 0x10, 0x10, 0xfe, 0x10, 0x10, 0x10, 0, 0],
    [0, 0, 0xc, 0xe, 0xb, 0xb, 0xa, 0x8, 0x8, 0x18, 0x78, 0xf8, 0x70, 0, 0, 0],
    [0, 0, 0x1f, 0x1f, 0x11, 0x11, 0x11, 0x11, 0x11, 0x11, 0x77, 0xff, 0x66, 0, 0, 0],
    [0, 0, 0, 0, 0x10, 0x54, 0x38, 0x28, 0x38, 0x54, 0x10, 0, 0, 0, 0, 0],
    [0, 0x80, 0xc0, 0xe0, 0xf0, 0xf8, 0xfc, 0xfe, 0xfc, 0xf8, 0xf0, 0xe0, 0xc0, 0x80, 0, 0],
    [0, 0x2, 0x6, 0xe, 0x1e, 0x3e, 0x7e, 0xfe, 0x7e, 0x3e, 0x1e, 0xe, 0x6, 0x2, 0, 0],
    [0, 0, 0x10, 0x38, 0x54, 0x92, 0x10, 0x10, 0x10, 0x92, 0x54, 0x38, 0x10, 0, 0, 0],
    [0, 0, 0x44, 0x44, 0x44, 0x44, 0x44, 0x44, 0x44, 0x44, 0, 0, 0x44, 0x44, 0, 0],
    [0, 0x3e, 0x4a, 0x8a, 0x8a, 0x8a, 0x8a, 0x4a, 0x3a, 0xa, 0xa, 0xa, 0xa, 0xa, 0, 0],
    [0x7c, 0x82, 0x40, 0x20, 0x38, 0x44, 0x82, 0x82, 0x82, 0x44, 0x38, 0x8, 0x4, 0x82, 0x7c, 0],
    [0, 0, 0, 0, 0, 0, 0, 0, 0, 0, 0, 0xfe, 0xfe, 0xfe, 0, 0],
    [0, 0, 0x10, 0x38, 0x54, 0x92, 0x10, 0x10, 0x10, 0x92, 0x54, 0x38, 0x10, 0x7c, 0, 0],
    [0, 0x10, 0x38, 0x54, 0x92, 0x10, 0x10, 0x10, 0x10, 0x10, 0x10, 0x10, 0x10, 0x10, 0, 0],
    [0, 0x10, 0x10, 0x10, 0x10, 0x10, 0x10, 0x10, 0x10, 0x10, 0x92, 0x54, 0x38, 0x10, 0, 0],
    [0, 0, 0, 0, 0x10, 0x8, 0x4, 0xfe, 0x4, 0x8, 0x10, 0, 0, 0, 0, 0],
    [0, 0, 0, 0, 0x10, 0x20, 0x40, 0xfe, 0x40, 0x20, 0x10, 0, 0, 0, 0, 0],
    [0, 0, 0, 0, 0, 0, 0, 0, 0, 0, 0, 0x80, 0x80, 0xfe, 0, 0],
    [0, 0, 0, 0, 0, 0x28, 0x44, 0xfe, 0x44, 0x28, 0, 0, 0, 0, 0, 0],
    [0, 0, 0, 0, 0x10, 0x10, 0x38, 0x38, 0x7c, 0x7c, 0xfe, 0xfe, 0, 0, 0, 0],
    [0, 0, 0, 0, 0xfe, 0xfe, 0x7c, 0x7c, 0x38, 0x38, 0x10, 0x10, 0, 0, 0, 0],
    [0, 0, 0, 0, 0, 0, 0, 0, 0, 0, 0, 0, 0, 0, 0, 0],
    [0, 0x10, 0x10, 0x10, 0x10, 0x10, 0x10, 0x10, 0x10, 0x10, 0, 0, 0x10, 0x10, 0, 0],
    [0x28, 0x28, 0x28, 0, 0, 0, 0, 0, 0, 0, 0, 0, 0, 0, 0, 0],
    [0, 0x44, 0x44, 0x44, 0xfe, 0x44, 0x44, 0x44, 0x44, 0x44, 0xfe, 0x44, 0x44, 0x44, 0, 0],
    [0x10, 0x3a, 0x56, 0x92, 0x92, 0x90, 0x50, 0x38, 0x14, 0x12, 0x92, 0x92, 0xd4, 0xb8, 0x10, 0x10],
    [0x62, 0x92, 0x94, 0x94, 0x68, 0x8, 0x10, 0x10, 0x20, 0x2c, 0x52, 0x52, 0x92, 0x8c, 0, 0],
    [0, 0x70, 0x88, 0x88, 0x88, 0x90, 0x60, 0x47, 0xa2, 0x92, 0x8a, 0x84, 0x46, 0x39, 0, 0],
    [0x4, 0x8, 0x10, 0, 0, 0, 0, 0, 0, 0, 0, 0, 0, 0, 0, 0],
    [0x2, 0x4, 0x8, 0x8, 0x10, 0x10, 0x10, 0x10, 0x10, 0x10, 0x10, 0x8, 0x8, 0x4, 0x2, 0],
    [0x80, 0x40, 0x20, 0x20, 0x10, 0x10, 0x10, 0x10, 0x10, 0x10, 0x10, 0x20, 0x20, 0x40, 0x80, 0],
    [0, 0, 0, 0, 0, 0x10, 0x92, 0x54, 0x38, 0x54, 0x92, 0x10, 0, 0, 0, 0],
    [0, 0, 0, 0, 0, 0x10, 0x10, 0x10, 0xfe, 0x10, 0x10, 0x10, 0, 0, 0, 0],
    [0, 0, 0, 0, 0, 0, 0, 0, 0, 0, 0, 0x18, 0x18, 0x8, 0x8, 0x10],
    [0, 0, 0, 0, 0, 0, 0, 0, 0xfe, 0, 0, 0, 0, 0, 0, 0],
    [0, 0, 0, 0, 0, 0, 0, 0, 0, 0, 0, 0, 0x18, 0x18, 0, 0],
    [0x2, 0x2, 0x4, 0x4, 0x8, 0x8, 0x8, 0x10, 0x10, 0x20, 0x20, 0x40, 0x40, 0x40, 0x80, 0x80],
    [0, 0x18, 0x24, 0x24, 0x42, 0x42, 0x42, 0x42, 0x42, 0x42, 0x42, 0x24, 0x24, 0x18, 0, 0],
    [0, 0x8, 0x18, 0x28, 0x8, 0x8, 0x8, 0x8, 0x8, 0x8, 0x8, 0x8, 0x8, 0x3e, 0, 0],
    [0, 0x18, 0x24, 0x42, 0x42, 0x2, 0x4, 0x8, 0x10, 0x20, 0x20, 0x40, 0x40, 0x7e, 0, 0],
    [0, 0x18, 0x24, 0x42, 0x2, 0x2, 0x4, 0x18, 0x4, 0x2, 0x2, 0x42, 0x24, 0x18, 0, 0],
    [0, 0xc, 0xc, 0xc, 0x14, 0x14, 0x14, 0x24, 0x24, 0x44, 0x7e, 0x4, 0x4, 0x1e, 0, 0],
    [0, 0x7c, 0x40, 0x40, 0x40, 0x58, 0x64, 0x2, 0x2, 0x2, 0x2, 0x42, 0x24, 0x18, 0, 0],
    [0, 0x18, 0x24, 0x42, 0x40, 0x58, 0x64, 0x42, 0x42, 0x42, 0x42, 0x42, 0x24, 0x18, 0, 0],
    [0, 0x7e, 0x42, 0x42, 0x4, 0x4, 0x8, 0x8, 0x8, 0x10, 0x10, 0x10, 0x10, 0x38, 0, 0],
    [0, 0x18, 0x24, 0x42, 0x42, 0x42, 0x24, 0x18, 0x24, 0x42, 0x42, 0x42, 0x24, 0x18, 0, 0],
    [0, 0x18, 0x24, 0x42, 0x42, 0x42, 0x42, 0x42, 0x26, 0x1a, 0x2, 0x42, 0x24, 0x18, 0, 0],
    [0, 0, 0, 0, 0, 0x18, 0x18, 0, 0, 0, 0, 0, 0x18, 0x18, 0, 0],
    [0, 0, 0, 0, 0, 0x18, 0x18, 0, 0, 0, 0, 0x18, 0x18, 0x8, 0x8, 0x10],
    [0, 0x2, 0x4, 0x8, 0x10, 0x20, 0x40, 0x80, 0x80, 0x40, 0x20, 0x10, 0x8, 0x4, 0x2, 0],
    [0, 0, 0, 0, 0, 0, 0xfe, 0, 0, 0xfe, 0, 0, 0, 0, 0, 0],
    [0, 0x80, 0x40, 0x20, 0x10, 0x8, 0x4, 0x2, 0x2, 0x4, 0x8, 0x10, 0x20, 0x40, 0x80, 0],
    [0, 0x38, 0x44, 0x82, 0x82, 0x82, 0x4, 0x8, 0x10, 0x10, 0, 0, 0x18, 0x18, 0, 0],
    [0, 0x38, 0x44, 0x82, 0x9a, 0xaa, 0xaa, 0xaa, 0xaa, 0xaa, 0x9c, 0x80, 0x46, 0x38, 0, 0],
    [0, 0x18, 0x18, 0x18, 0x18, 0x24, 0x24, 0x24, 0x24, 0x7e, 0x42, 0x42, 0x42, 0xe7, 0, 0],
    [0, 0xf0, 0x48, 0x44, 0x44, 0x44, 0x48, 0x78, 0x44, 0x42, 0x42, 0x42, 0x44, 0xf8, 0, 0],
    [0, 0x3a, 0x46, 0x42, 0x82, 0x80, 0x80, 0x80, 0x80, 0x80, 0x82, 0x42, 0x44, 0x38, 0, 0],
    [0, 0xf8, 0x44, 0x44, 0x42, 0x42, 0x42, 0x42, 0x42, 0x42, 0x42, 0x44, 0x44, 0xf8, 0, 0],
    [0, 0xfe, 0x42, 0x42, 0x40, 0x40, 0x44, 0x7c, 0x44, 0x40, 0x40, 0x42, 0x42, 0xfe, 0, 0],
    [0, 0xfe, 0x42, 0x42, 0x40, 0x40, 0x44, 0x7c, 0x44, 0x44, 0x40, 0x40, 0x40, 0xf0, 0, 0],
    [0, 0x3a, 0x46, 0x42, 0x82, 0x80, 0x80, 0x9e, 0x82, 0x82, 0x82, 0x42, 0x46, 0x38, 0, 0],
    [0, 0xe7, 0x42, 0x42, 0x42, 0x42, 0x42, 0x7e, 0x42, 0x42, 0x42, 0x42, 0x42, 0xe7, 0, 0],
    [0, 0x7c, 0x10, 0x10, 0x10, 0x10, 0x10, 0x10, 0x10, 0x10, 0x10, 0x10, 0x10, 0x7c, 0, 0],
    [0, 0x1f, 0x4, 0x4, 0x4, 0x4, 0x4, 0x4, 0x4, 0x4, 0x4, 0x4, 0x84, 0x48, 0x30, 0],
    [0, 0xe7, 0x42, 0x44, 0x48, 0x50, 0x50, 0x60, 0x50, 0x50, 0x48, 0x44, 0x42, 0xe7, 0, 0],
    [0, 0xf0, 0x40, 0x40, 0x40, 0x40, 0x40, 0x40, 0x40, 0x40, 0x40, 0x42, 0x42, 0xfe, 0, 0],
    [0, 0xc3, 0x42, 0x66, 0x66, 0x66, 0x5a, 0x5a, 0x5a, 0x42, 0x42, 0x42, 0x42, 0xe7, 0, 0],
    [0, 0xc7, 0x42, 0x62, 0x62, 0x52, 0x52, 0x52, 0x4a, 0x4a, 0x4a, 0x46, 0x46, 0xe2, 0, 0],
    [0, 0x38, 0x44, 0x82, 0x82, 0x82, 0x82, 0x82, 0x82, 0x82, 0x82, 0x82, 0x44, 0x38, 0, 0],
    [0, 0xf8, 0x44, 0x42, 0x42, 0x42, 0x44, 0x78, 0x40, 0x40, 0x40, 0x40, 0x40, 0xf0, 0, 0],
    [0, 0x38, 0x44, 0x82, 0x82, 0x82, 0x82, 0x82, 0x82, 0x82, 0x92, 0x8a, 0x44, 0x3a, 0, 0],
    [0, 0xfc, 0x42, 0x42, 0x42, 0x42, 0x7c, 0x44, 0x42, 0x42, 0x42, 0x42, 0x42, 0xe7, 0, 0],
    [0, 0x3a, 0x46, 0x82, 0x82, 0x80, 0x40, 0x38, 0x4, 0x2, 0x82, 0x82, 0xc4, 0xb8, 0, 0],
    [0, 0xfe, 0x92, 0x92, 0x10, 0x10, 0x10, 0x10, 0x10, 0x10, 0x10, 0x10, 0x10, 0x7c, 0, 0],
    [0, 0xe7, 0x42, 0x42, 0x42, 0x42, 0x42, 0x42, 0x42, 0x42, 0x42, 0x42, 0x24, 0x3c, 0, 0],
    [0, 0xe7, 0x42, 0x42, 0x42, 0x42, 0x24, 0x24, 0x24, 0x24, 0x18, 0x18, 0x18, 0x18, 0, 0],
    [0, 0xe7, 0x42, 0x42, 0x42, 0x5a, 0x5a, 0x5a, 0x5a, 0x24, 0x24, 0x24, 0x24, 0x24, 0, 0],
    [0, 0xe7, 0x42, 0x42, 0x24, 0x24, 0x24, 0x18, 0x24, 0x24, 0x24, 0x42, 0x42, 0xe7, 0, 0],
    [0, 0xee, 0x44, 0x44, 0x44, 0x28, 0x28, 0x28, 0x10, 0x10, 0x10, 0x10, 0x10, 0x7c, 0, 0],
    [0, 0xfe, 0x84, 0x84, 0x8, 0x8, 0x10, 0x10, 0x20, 0x20, 0x40, 0x42, 0x82, 0xfe, 0, 0],
    [0, 0x3e, 0x20, 0x20, 0x20, 0x20, 0x20, 0x20, 0x20, 0x20, 0x20, 0x20, 0x20, 0x20, 0x3e, 0],
    [0x80, 0x80, 0x40, 0x40, 0x20, 0x20, 0x20, 0x10, 0x10, 0x8, 0x8, 0x4, 0x4, 0x4, 0x2, 0x2],
    [0, 0x7c, 0x4, 0x4, 0x4, 0x4, 0x4, 0x4, 0x4, 0x4, 0x4, 0x4, 0x4, 0x4, 0x7c, 0],
    [0, 0x10, 0x28, 0x44, 0x82, 0, 0, 0, 0, 0, 0, 0, 0, 0, 0, 0],
    [0, 0, 0, 0, 0, 0, 0, 0, 0, 0, 0, 0, 0, 0, 0xfe, 0],
    [0x10, 0x8, 0x4, 0, 0, 0, 0, 0, 0, 0, 0, 0, 0, 0, 0, 0],
    [0, 0, 0, 0, 0, 0x70, 0x8, 0x4, 0x3c, 0x44, 0x84, 0x84, 0x8c, 0x76, 0, 0],
    [0xc0, 0x40, 0x40, 0x40, 0x40, 0x58, 0x64, 0x42, 0x42, 0x42, 0x42, 0x42, 0x64, 0x58, 0, 0],
    [0, 0, 0, 0, 0, 0x30, 0x4c, 0x84, 0x84, 0x80, 0x80, 0x82, 0x44, 0x38, 0, 0],
    [0xc, 0x4, 0x4, 0x4, 0x4, 0x34, 0x4c, 0x84, 0x84, 0x84, 0x84, 0x84, 0x4c, 0x36, 0, 0],
    [0, 0, 0, 0, 0, 0x38, 0x44, 0x82, 0x82, 0xfc, 0x80, 0x82, 0x42, 0x3c, 0, 0],
    [0xe, 0x10, 0x10, 0x10, 0x10, 0x7c, 0x10, 0x10, 0x10, 0x10, 0x10, 0x10, 0x10, 0x7c, 0, 0],
    [0, 0, 0, 0, 0, 0x36, 0x4c, 0x84, 0x84, 0x84, 0x84, 0x4c, 0x34, 0x4, 0x4, 0x78],
    [0xc0, 0x40, 0x40, 0x40, 0x40, 0x58, 0x64, 0x42, 0x42, 0x42, 0x42, 0x42, 0x42, 0xe3, 0, 0],
    [0, 0x10, 0x10, 0, 0, 0x30, 0x10, 0x10, 0x10, 0x10, 0x10, 0x10, 0x10, 0x38, 0, 0],
    [0, 0x4, 0x4, 0, 0, 0xc, 0x4, 0x4, 0x4, 0x4, 0x4, 0x4, 0x4, 0x8, 0x8, 0x30],
    [0xc0, 0x40, 0x40, 0x40, 0x40, 0x4e, 0x44, 0x48, 0x50, 0x60, 0x50, 0x48, 0x44, 0xe6, 0, 0],
    [0x30, 0x10, 0x10, 0x10, 0x10, 0x10, 0x10, 0x10, 0x10, 0x10, 0x10, 0x10, 0x10, 0x38, 0, 0],
    [0, 0, 0, 0, 0, 0xf6, 0x49, 0x49, 0x49, 0x49, 0x49, 0x49, 0x49, 0xdb, 0, 0],
    [0, 0, 0, 0, 0, 0xd8, 0x64, 0x42, 0x42, 0x42, 0x42, 0x42, 0x42, 0xe3, 0, 0],
    [0, 0, 0, 0, 0, 0x38, 0x44, 0x82, 0x82, 0x82, 0x82, 0x82, 0x44, 0x38, 0, 0],
    [0, 0, 0, 0, 0, 0xd8, 0x64, 0x42, 0x42, 0x42, 0x42, 0x42, 0x64, 0x58, 0x40, 0xe0],
    [0, 0, 0, 0, 0, 0x34, 0x4c, 0x84, 0x84, 0x84, 0x84, 0x84, 0x4c, 0x34, 0x4, 0xe],
    [0, 0, 0, 0, 0, 0xdc, 0x62, 0x42, 0x40, 0x40, 0x40, 0x40, 0x40, 0xe0, 0, 0],
    [0, 0, 0, 0, 0, 0x7a, 0x86, 0x82, 0xc0, 0x38, 0x6, 0x82, 0xc2, 0xbc, 0, 0],
    [0, 0, 0x10, 0x10, 0x10, 0x7c, 0x10, 0x10, 0x10, 0x10, 0x10, 0x10, 0x10, 0xe, 0, 0],
    [0, 0, 0, 0, 0, 0xc6, 0x42, 0x42, 0x42, 0x42, 0x42, 0x42, 0x46, 0x3b, 0, 0],
    [0, 0, 0, 0, 0, 0xe7, 0x42, 0x42, 0x42, 0x24, 0x24, 0x24, 0x18, 0x18, 0, 0],
    [0, 0, 0, 0, 0, 0xe7, 0x42, 0x42, 0x5a, 0x5a, 0x5a, 0x24, 0x24, 0x24, 0, 0],
    [0, 0, 0, 0, 0, 0xc6, 0x44, 0x28, 0x28, 0x10, 0x28, 0x28, 0x44, 0xc6, 0, 0],
    [0, 0, 0, 0, 0, 0xe7, 0x42, 0x42, 0x24, 0x24, 0x24, 0x18, 0x18, 0x10, 0x10, 0x60],
    [0, 0, 0, 0, 0, 0xfe, 0x82, 0x84, 0x8, 0x10, 0x20, 0x42, 0x82, 0xfe, 0, 0],
    [0, 0x6, 0x8, 0x10, 0x10, 0x10, 0x10, 0x60, 0x10, 0x10, 0x10, 0x10, 0x8, 0x6, 0, 0],
    [0x10, 0x10, 0x10, 0x10, 0x10, 0x10, 0x10, 0x10, 0x10, 0x10, 0x10, 0x10, 0x10, 0x10, 0x10, 0x10],
    [0, 0x60, 0x10, 0x8, 0x8, 0x8, 0x8, 0x6, 0x8, 0x8, 0x8, 0x8, 0x10, 0x60, 0, 0],
    [0, 0x72, 0x8c, 0, 0, 0, 0, 0, 0, 0, 0, 0, 0, 0, 0, 0],
    [0, 0, 0, 0, 0x10, 0x28, 0x44, 0x82, 0xfe, 0x82, 0xfe, 0, 0, 0, 0, 0]]"

definition hankaku_high :: "u8 list list" where
  "hankaku_high = [
    [0, 0x38, 0x44, 0x82, 0x80, 0x80, 0x80, 0x80, 0x80, 0x80, 0x80, 0x82, 0x44, 0x38, 0x10, 0x20],
    [0, 0, 0x24, 0x24, 0, 0x82, 0x82, 0x82, 0x82, 0x82, 0x82, 0x82, 0x42, 0x3e, 0, 0],
    [0xc, 0x8, 0x10, 0, 0, 0x38, 0x44, 0x82, 0x82, 0xfe, 0x80, 0x82, 0x44, 0x38, 0, 0],
    [0, 0x10, 0x28, 0x44, 0, 0x78, 0x4, 0x4, 0x3c, 0x44, 0x84, 0x84, 0x44, 0x3e, 0, 0],
    [0, 0, 0x24, 0x24, 0, 0x78, 0x4, 0x4, 0x3c, 0x44, 0x84, 0x84, 0x44, 0x3e, 0, 0],
    [0x10, 0x8, 0x4, 0, 0, 0x78, 0x4, 0x4, 0x3c, 0x44, 0x84, 0x84, 0x44, 0x3e, 0, 0],
    [0, 0x18, 0x24, 0x18, 0, 0x78, 0x4, 0x4, 0x3c, 0x44, 0x84, 0x84, 0x44, 0x3e, 0, 0],
    [0, 0, 0, 0, 0, 0x3c, 0x42, 0x80, 0x80, 0x80, 0x80, 0x80, 0x42, 0x3c, 0x8, 0x10],
    [0, 0x10, 0x28, 0x44, 0, 0x38, 0x44, 0x82, 0x82, 0xfe, 0x80, 0x82, 0x44, 0x38, 0, 0],
    [0, 0, 0x24, 0x24, 0, 0x38, 0x44, 0x82, 0x82, 0xfe, 0x80, 0x82, 0x44, 0x38, 0, 0],
    [0x10, 0x8, 0x4, 0, 0, 0x38, 0x44, 0x82, 0x82, 0xfe, 0x80, 0x82, 0x44, 0x38, 0, 0],
    [0, 0, 0x24, 0x24, 0, 0x10, 0x10, 0x10, 0x10, 0x10, 0x10, 0x10, 0x10, 0x10, 0, 0],
    [0, 0x10, 0x28, 0x44, 0, 0x10, 0x10, 0x10, 0x10, 0x10, 0x10, 0x10, 0x10, 0x10, 0, 0],
    [0x10, 0x8, 0x4, 0, 0, 0x10, 0x10, 0x10, 0x10, 0x10, 0x10, 0x10, 0x10, 0x10, 0, 0],
    [0x24, 0x24, 0, 0x38, 0x44, 0x82, 0x82, 0x82, 0x82, 0xfe, 0x82, 0x82, 0x82, 0x82, 0, 0],
    [0, 0x38, 0x44, 0x38, 0x44, 0x82, 0x82, 0x82, 0x82, 0xfe, 0x82, 0x82, 0x82, 0x82, 0, 0],
    [0xc, 0x8, 0x10, 0xfe, 0x80, 0x80, 0x80, 0x80, 0xf8, 0x80, 0x80, 0x80, 0x80, 0xfe, 0, 0],
    [0, 0, 0, 0, 0, 0x60, 0x1c, 0x12, 0x72, 0x9e, 0x90, 0x90, 0x92, 0x6c, 0, 0],
    [0xc, 0x10, 0x20, 0x28, 0x28, 0x28, 0xfe, 0x28, 0x28, 0x28, 0x28, 0x28, 0x28, 0x28, 0, 0],
    [0, 0x10, 0x28, 0x44, 0, 0x38, 0x44, 0x82, 0x82, 0x82, 0x82, 0x82, 0x44, 0x38, 0, 0],
    [0, 0, 0x24, 0x24, 0, 0x38, 0x44, 0x82, 0x82, 0x82, 0x82, 0x82, 0x44, 0x38, 0, 0],
    [0x10, 0x8, 0x4, 0, 0, 0x38, 0x44, 0x82, 0x82, 0x82, 0x82, 0x82, 0x44, 0x38, 0, 0],
    [0, 0x10, 0x28, 0x44, 0, 0x82, 0x82, 0x82, 0x82, 0x82, 0x82, 0x82, 0x42, 0x3e, 0, 0],
    [0x10, 0x8, 0x4, 0, 0, 0x82, 0x82, 0x82, 0x82, 0x82, 0x82, 0x82, 0x42, 0x3e, 0, 0],
    [0, 0, 0x24, 0x24, 0, 0x82, 0x82, 0x44, 0x44, 0x28, 0x28, 0x10, 0x10, 0x20, 0x20, 0x40],
    [0x24, 0x24, 0, 0x38, 0x44, 0x82, 0x82, 0x82, 0x82, 0x82, 0x82, 0x82, 0x44, 0x38, 0, 0],
    [0x24, 0x24, 0, 0x82, 0x82, 0x82, 0x82, 0x82, 0x82, 0x82, 0x82, 0x82, 0x44, 0x38, 0, 0],
    [0, 0x28, 0x28, 0x28, 0x3c, 0x6a, 0xa8, 0xa8, 0xa8, 0xa8, 0xa8, 0x6a, 0x3c, 0x28, 0x28, 0x28],
    [0, 0xc, 0x12, 0x20, 0x20, 0x20, 0xfc, 0x20, 0x20, 0x20, 0x60, 0xa0, 0xb2, 0x4c, 0, 0],
    [0, 0x82, 0x82, 0x44, 0x28, 0x10, 0xfe, 0x10, 0x10, 0xfe, 0x10, 0x10, 0x10, 0x10, 0, 0],
    [0, 0xe0, 0x90, 0x88, 0x88, 0x88, 0x94, 0xe4, 0x9f, 0x84, 0x84, 0x84, 0x84, 0x84, 0, 0],
    [0, 0xc, 0x12, 0x10, 0x10, 0x10, 0xfe, 0x10, 0x10, 0x10, 0x10, 0x10, 0x90, 0x60, 0, 0],
    [0xc, 0x8, 0x10, 0, 0, 0x78, 0x4, 0x4, 0x3c, 0x44, 0x84, 0x84, 0x44, 0x3e, 0, 0],
    [0xc, 0x8, 0x10, 0, 0, 0x10, 0x10, 0x10, 0x10, 0x10, 0x10, 0x10, 0x10, 0x10, 0, 0],
    [0xc, 0x8, 0x10, 0, 0, 0x38, 0x44, 0x82, 0x82, 0x82, 0x82, 0x82, 0x44, 0x38, 0, 0],
    [0xc, 0x8, 0x10, 0, 0, 0x82, 0x82, 0x82, 0x82, 0x82, 0x82, 0x82, 0x42, 0x3e, 0, 0],
    [0, 0x12, 0x2a, 0x24, 0, 0xf8, 0x84, 0x82, 0x82, 0x82, 0x82, 0x82, 0x82, 0x82, 0, 0],
    [0x12, 0x2a, 0x24, 0, 0x82, 0xc2, 0xc2, 0xa2, 0x92, 0x92, 0x8a, 0x86, 0x86, 0x82, 0, 0],
    [0, 0, 0, 0x78, 0x4, 0x4, 0x3c, 0x44, 0x84, 0x84, 0x44, 0x3e, 0, 0xfe, 0, 0],
    [0, 0, 0, 0x38, 0x44, 0x82, 0x82, 0x82, 0x82, 0x82, 0x44, 0x38, 0, 0xfe, 0, 0],
    [0, 0x10, 0x10, 0, 0, 0x10, 0x10, 0x20, 0x44, 0x82, 0x82, 0x82, 0x44, 0x38, 0, 0],
    [0, 0, 0, 0, 0, 0, 0, 0, 0, 0, 0xfe, 0x80, 0x80, 0x80, 0, 0],
    [0, 0, 0, 0, 0, 0, 0, 0, 0, 0, 0xfe, 0x2, 0x2, 0x2, 0, 0],
    [0, 0x10, 0x30, 0x10, 0x10, 0x10, 0, 0xfe, 0, 0x78, 0x4, 0x38, 0x40, 0x7c, 0, 0],
    [0, 0x10, 0x30, 0x10, 0x10, 0x10, 0, 0xfe, 0, 0x18, 0x28, 0x48, 0x7c, 0x8, 0, 0],
    [0, 0x10, 0x10, 0, 0, 0x10, 0x10, 0x10, 0x10, 0x10, 0x10, 0x10, 0x10, 0x10, 0, 0],
    [0, 0, 0, 0, 0x12, 0x24, 0x48, 0x90, 0x90, 0x48, 0x24, 0x12, 0, 0, 0, 0],
    [0, 0, 0, 0, 0x90, 0x48, 0x24, 0x12, 0x12, 0x24, 0x48, 0x90, 0, 0, 0, 0],
    [0x11, 0x44, 0x11, 0x44, 0x11, 0x44, 0x11, 0x44, 0x11, 0x44, 0x11, 0x44, 0x11, 0x44, 0x11, 0x44],
    [0x55, 0xaa, 0x55, 0xaa, 0x55, 0xaa, 0x55, 0xaa, 0x55, 0xaa, 0x55, 0xaa, 0x55, 0xaa, 0x55, 0xaa],
    [0x77, 0xdd, 0x77, 0xdd, 0x77, 0xdd, 0x77, 0xdd, 0x77, 0xdd, 0x77, 0xdd, 0x77, 0xdd, 0x77, 0xdd],
    [0x10, 0x10, 0x10, 0x10, 0x10, 0x10, 0x10, 0x10, 0x10, 0x10, 0x10, 0x10, 0x10, 0x10, 0x10, 0x10],
    [0x10, 0x10, 0x10, 0x10, 0x10, 0x10, 0x10, 0xf0, 0x10, 0x10, 0x10, 0x10, 0x10, 0x10, 0x10, 0x10],
    [0x10, 0x10, 0x10, 0x10, 0x10, 0x10, 0x10, 0xf0, 0x10, 0xf0, 0x10, 0x10, 0x10, 0x10, 0x10, 0x10],
    [0x14, 0x14, 0x14, 0x14, 0x14, 0x14, 0x14, 0xf4, 0x14, 0x14, 0x14, 0x14, 0x14, 0x14, 0x14, 0x14],
    [0, 0, 0, 0, 0, 0, 0, 0xfc, 0x14, 0x14, 0x14, 0x14, 0x14, 0x14, 0x14, 0x14],
    [0, 0, 0, 0, 0, 0, 0, 0xf0, 0x10, 0xf0, 0x10, 0x10, 0x10, 0x10, 0x10, 0x10],
    [0x14, 0x14, 0x14, 0x14, 0x14, 0x14, 0x14, 0xf4, 0x4, 0xf4, 0x14, 0x14, 0x14, 0x14, 0x14, 0x14],
    [0x14, 0x14, 0x14, 0x14, 0x14, 0x14, 0x14, 0x14, 0x14, 0x14, 0x14, 0x14, 0x14, 0x14, 0x14, 0x14],
    [0, 0, 0, 0, 0, 0, 0, 0xfc, 0x4, 0xf4, 0x14, 0x14, 0x14, 0x14, 0x14, 0x14],
    [0x14, 0x14, 0x14, 0x14, 0x14, 0x14, 0x14, 0xf4, 0x4, 0xfc, 0, 0, 0, 0, 0, 0],
    [0x14, 0x14, 0x14, 0x14, 0x14, 0x14, 0x14, 0xfc, 0, 0, 0, 0, 0, 0, 0, 0],
    [0x10, 0x10, 0x10, 0x10, 0x10, 0x10, 0x10, 0xf0, 0x10, 0xf0, 0, 0, 0, 0, 0, 0],
    [0, 0, 0, 0, 0, 0, 0, 0xf0, 0x10, 0x10, 0x10, 0x10, 0x10, 0x10, 0x10, 0x10],
    [0x10, 0x10, 0x10, 0x10, 0x10, 0x10, 0x10, 0x1f, 0, 0, 0, 0, 0, 0, 0, 0],
    [0x10, 0x10, 0x10, 0x10, 0x10, 0x10, 0x10, 0xff, 0, 0, 0, 0, 0, 0, 0, 0],
    [0, 0, 0, 0, 0, 0, 0, 0xff, 0x10, 0x10, 0x10, 0x10, 0x10, 0x10, 0x10, 0x10],
    [0x10, 0x10, 0x10, 0x10, 0x10, 0x10, 0x10, 0x1f, 0x10, 0x10, 0x10, 0x10, 0x10, 0x10, 0x10, 0x10],
    [0, 0, 0, 0, 0, 0, 0, 0xff, 0, 0, 0, 0, 0, 0, 0, 0],
    [0x10, 0x10, 0x10, 0x10, 0x10, 0x10, 0x10, 0xff, 0x10, 0x10, 0x10, 0x10, 0x10, 0x10, 0x10, 0x10],
    [0x10, 0x10, 0x10, 0x10, 0x10, 0x10, 0x10, 0x1f, 0x10, 0x1f, 0x10, 0x10, 0x10, 0x10, 0x10, 0x10],
    [0x14, 0x14, 0x14, 0x14, 0x14, 0x14, 0x14, 0x17, 0x14, 0x14, 0x14, 0x14, 0x14, 0x14, 0x14, 0x14],
    [0x14, 0x14, 0x14, 0x14, 0x14, 0x14, 0x14, 0x17, 0x10, 0x1f, 0, 0, 0, 0, 0, 0],
    [0, 0, 0, 0, 0, 0, 0, 0x1f, 0x10, 0x17, 0x14, 0x14, 0x14, 0x14, 0x14, 0x14],
    [0x14, 0x14, 0x14, 0x14, 0x14, 0x14, 0x14, 0xf7, 0, 0xff, 0, 0, 0, 0, 0, 0],
    [0, 0, 0, 0, 0, 0, 0, 0xff, 0, 0xf7, 0x14, 0x14, 0x14, 0x14, 0x14, 0x14],
    [0x14, 0x14, 0x14, 0x14, 0x14, 0x14, 0x14, 0x17, 0x10, 0x17, 0x14, 0x14, 0x14, 0x14, 0x14, 0x14],
    [0, 0, 0, 0, 0, 0, 0, 0xff, 0, 0xff, 0, 0, 0, 0, 0, 0],
    [0x14, 0x14, 0x14, 0x14, 0x14, 0x14, 0x14, 0xf7, 0, 0xf7, 0x14, 0x14, 0x14, 0x14, 0x14, 0x14],
    [0x10, 0x10, 0x10, 0x10, 0x10, 0x10, 0x10, 0xff, 0, 0xff, 0, 0, 0, 0, 0, 0],
    [0x14, 0x14, 0x14, 0x14, 0x14, 0x14, 0x14, 0xff, 0, 0, 0, 0, 0, 0, 0, 0],
    [0, 0, 0, 0, 0, 0, 0, 0xff, 0, 0xff, 0x10, 0x10, 0x10, 0x10, 0x10, 0x10],
    [0, 0, 0, 0, 0, 0, 0, 0xff, 0x14, 0x14, 0x14, 0x14, 0x14, 0x14, 0x14, 0x14],
    [0x14, 0x14, 0x14, 0x14, 0x14, 0x14, 0x14, 0x1f, 0, 0, 0, 0, 0, 0, 0, 0],
    [0x10, 0x10, 0x10, 0x10, 0x10, 0x10, 0x10, 0x1f, 0x10, 0x1f, 0, 0, 0, 0, 0, 0],
    [0, 0, 0, 0, 0, 0, 0, 0x1f, 0x10, 0x1f, 0x10, 0x10, 0x10, 0x10, 0x10, 0x10],
    [0, 0, 0, 0, 0, 0, 0, 0x1f, 0x14, 0x14, 0x14, 0x14, 0x14, 0x14, 0x14, 0x14],
    [0x14, 0x14, 0x14, 0x14, 0x14, 0x14, 0x14, 0xf7, 0x14, 0x14, 0x14, 0x14, 0x14, 0x14, 0x14, 0x14],
    [0x10, 0x10, 0x10, 0x10, 0x10, 0x10, 0x10, 0xff, 0x10, 0xff, 0x10, 0x10, 0x10, 0x10, 0x10, 0x10],
    [0x10, 0x10, 0x10, 0x10, 0x10, 0x10, 0x10, 0xf0, 0, 0, 0, 0, 0, 0, 0, 0],
    [0, 0, 0, 0, 0, 0, 0, 0x1f, 0x10, 0x10, 0x10, 0x10, 0x10, 0x10, 0x10, 0x10],
    [0xff, 0xff, 0xff, 0xff, 0xff, 0xff, 0xff, 0xff, 0xff, 0xff, 0xff, 0xff, 0xff, 0xff, 0xff, 0xff],
    [0, 0, 0, 0, 0, 0, 0, 0, 0xff, 0xff, 0xff, 0xff, 0xff, 0xff, 0xff, 0xff],
    [0xf0, 0xf0, 0xf0, 0xf0, 0xf0, 0xf0, 0xf0, 0xf0, 0xf0, 0xf0, 0xf0, 0xf0, 0xf0, 0xf0, 0xf0, 0xf0],
    [0xf, 0xf, 0xf, 0xf, 0xf, 0xf, 0xf, 0xf, 0xf, 0xf, 0xf, 0xf, 0xf, 0xf, 0xf, 0xf],
    [0xff, 0xff, 0xff, 0xff, 0xff, 0xff, 0xff, 0xff, 0, 0, 0, 0, 0, 0, 0, 0],
    [0, 0, 0, 0, 0, 0, 0, 0, 0, 0, 0, 0, 0, 0, 0, 0],
    [0, 0, 0, 0, 0, 0, 0, 0, 0, 0, 0, 0, 0, 0, 0, 0],
    [0, 0, 0, 0, 0, 0, 0, 0, 0, 0, 0, 0, 0, 0, 0, 0],
    [0, 0, 0, 0, 0, 0, 0, 0, 0, 0, 0, 0, 0, 0, 0, 0],
    [0, 0, 0, 0, 0, 0, 0, 0, 0, 0, 0, 0, 0, 0, 0, 0],
    [0, 0, 0, 0, 0, 0, 0, 0, 0, 0, 0, 0, 0, 0, 0, 0],
    [0, 0, 0, 0, 0, 0, 0, 0, 0, 0, 0, 0, 0, 0, 0, 0],
    [0, 0, 0, 0, 0, 0, 0, 0, 0, 0, 0, 0, 0, 0, 0, 0],
    [0, 0, 0, 0, 0, 0, 0, 0, 0, 0, 0, 0, 0, 0, 0, 0],
    [0, 0, 0, 0, 0, 0, 0, 0, 0, 0, 0, 0, 0, 0, 0, 0],
    [0, 0, 0, 0, 0, 0, 0, 0, 0, 0, 0, 0, 0, 0, 0, 0],
    [0, 0, 0, 0, 0, 0, 0, 0, 0, 0, 0, 0, 0, 0, 0, 0],
    [0, 0, 0, 0, 0, 0, 0, 0, 0, 0, 0, 0, 0, 0, 0, 0],
    [0, 0, 0, 0, 0, 0, 0, 0, 0, 0, 0, 0, 0, 0, 0, 0],
    [0, 0, 0, 0, 0, 0, 0, 0, 0, 0, 0, 0, 0, 0, 0, 0],
    [0, 0, 0, 0, 0, 0, 0, 0, 0, 0, 0, 0, 0, 0, 0, 0],
    [0, 0, 0, 0, 0, 0, 0, 0, 0, 0, 0, 0, 0, 0, 0, 0],
    [0, 0, 0, 0, 0, 0, 0, 0, 0, 0, 0, 0, 0, 0, 0, 0],
    [0, 0, 0, 0, 0, 0, 0, 0, 0, 0, 0, 0, 0, 0, 0, 0],
    [0, 0, 0, 0, 0, 0, 0, 0, 0, 0, 0, 0, 0, 0, 0, 0],
    [0, 0, 0, 0, 0, 0, 0, 0, 0, 0, 0, 0, 0, 0, 0, 0],
    [0, 0, 0, 0, 0, 0, 0, 0, 0, 0, 0, 0, 0, 0, 0, 0],
    [0, 0, 0, 0, 0, 0, 0, 0, 0, 0, 0, 0, 0, 0, 0, 0],
    [0, 0, 0, 0, 0, 0, 0, 0, 0, 0, 0, 0, 0, 0, 0, 0],
    [0, 0, 0, 0, 0, 0, 0, 0, 0, 0, 0, 0, 0, 0, 0, 0],
    [0, 0, 0, 0, 0, 0, 0, 0, 0, 0, 0, 0, 0, 0, 0, 0],
    [0, 0, 0, 0, 0, 0, 0, 0, 0, 0, 0, 0, 0, 0, 0, 0],
    [0, 0, 0, 0, 0, 0, 0, 0, 0, 0, 0, 0, 0, 0, 0, 0],
    [0, 0, 0, 0, 0, 0, 0, 0, 0, 0, 0, 0, 0, 0, 0, 0],
    [0, 0, 0, 0, 0, 0, 0, 0, 0, 0, 0, 0, 0, 0, 0, 0],
    [0, 0, 0, 0, 0, 0, 0, 0, 0, 0, 0, 0, 0, 0, 0, 0],
    [0, 0, 0, 0, 0, 0, 0, 0, 0, 0, 0, 0, 0, 0, 0, 0]]"

definition hankaku :: "u8 list" where
  "hankaku = concat (hankaku_low @ hankaku_high)"

section \<open>Drawing primitives\<close>

definition putfont8_row :: "u32 \<Rightarrow> u8 \<Rightarrow> u8 \<Rightarrow> memory \<Rightarrow> memory" where
  "putfont8_row pt color row m =
     (let m = (if row AND 0x80 \<noteq> 0 then m(pt + 0 := color) else m);
          m = (if row AND 0x40 \<noteq> 0 then m(pt + 1 := color) else m);
          m = (if row AND 0x20 \<noteq> 0 then m(pt + 2 := color) else m);
          m = (if row AND 0x10 \<noteq> 0 then m(pt + 3 := color) else m);
          m = (if row AND 0x08 \<noteq> 0 then m(pt + 4 := color) else m);
          m = (if row AND 0x04 \<noteq> 0 then m(pt + 5 := color) else m);
          m = (if row AND 0x02 \<noteq> 0 then m(pt + 6 := color) else m);
          m = (if row AND 0x01 \<noteq> 0 then m(pt + 7 := color) else m)
      in m)"

text \<open>A pointer into a font is the array and the index; \<open>n\<close> is the number of rows left.\<close>

fun putfont8_loop :: "nat \<Rightarrow> int \<Rightarrow> u32 \<Rightarrow> int \<Rightarrow> int \<Rightarrow> int \<Rightarrow> u8 \<Rightarrow> u8 list \<Rightarrow> int \<Rightarrow> memory \<Rightarrow> memory option" where
  "putfont8_loop 0 i vram xsize x y color font off m = Some m"
| "putfont8_loop (Suc n) i vram xsize x y color font off m = do {
     row \<leftarrow> aget font (off + i);
     let pt = px vram ((y + i) * xsize + x);
     putfont8_loop n (i + 1) vram xsize x y color font off (putfont8_row pt color row m)
   }"

definition putfont8 :: "u32 \<Rightarrow> int \<Rightarrow> int \<Rightarrow> int \<Rightarrow> u8 \<Rightarrow> u8 list \<Rightarrow> int \<Rightarrow> memory \<Rightarrow> memory option" where
  "putfont8 vram xsize x y color font off m = putfont8_loop 16 0 vram xsize x y color font off m"

text \<open>The type \<^verbatim>\<open>char\<close> is signed.\<close>

fun putfonts8_asc :: "u32 \<Rightarrow> int \<Rightarrow> int \<Rightarrow> int \<Rightarrow> u8 \<Rightarrow> u8 list \<Rightarrow> memory \<Rightarrow> memory option" where
  "putfonts8_asc vram xsize x y color [] m = Some m"
| "putfonts8_asc vram xsize x y color (c # s) m = do {
     m \<leftarrow> putfont8 vram xsize x y color hankaku (sint c * 16) m;
     putfonts8_asc vram xsize (x + 8) y color s m
   }"

definition padding_l :: int where "padding_l = 8"

text \<open>The loop of \<^verbatim>\<open>putfonts8_ascv2\<close> over the globals \<^verbatim>\<open>posX\<close> and \<^verbatim>\<open>posY\<close>.\<close>

fun putfonts8_ascv2 :: "u32 \<Rightarrow> int \<Rightarrow> int \<Rightarrow> int \<Rightarrow> u8 \<Rightarrow> u8 list \<Rightarrow> memory \<Rightarrow> (memory \<times> int \<times> int) option" where
  "putfonts8_ascv2 vram xsize posX posY color [] m = Some (m, posX, posY)"
| "putfonts8_ascv2 vram xsize posX posY color (c # s) m =
     (if c = 10 then putfonts8_ascv2 vram xsize padding_l (posY + 24) color s m
      else do {
        m \<leftarrow> putfont8 vram xsize posX posY color hankaku (sint c * 16) m;
        let posX = posX + 8;
        if posX > xsize - 16 then putfonts8_ascv2 vram xsize padding_l (posY + 24) color s m
        else putfonts8_ascv2 vram xsize posX posY color s m
      })"

definition fill_until_eol :: "u32 \<Rightarrow> int \<Rightarrow> int \<Rightarrow> int \<Rightarrow> int \<Rightarrow> int \<Rightarrow> u8 \<Rightarrow> memory \<Rightarrow> memory" where
  "fill_until_eol buf bufWidth posX posY lineHeight padding_r fillColor m =
     fold (\<lambda>row m. for_up (\<lambda>p m. m(p := fillColor)) (px buf ((posY + row) * bufWidth + posX))
        (px buf ((posY + row + 1) * bufWidth - padding_r)) m) [0..lineHeight - 1] m"

definition wrap_pos_xy :: "int \<Rightarrow> int \<Rightarrow> int \<Rightarrow> int \<Rightarrow> int \<Rightarrow> int \<Rightarrow> int \<Rightarrow> int \<Rightarrow> int \<Rightarrow> int \<Rightarrow> int \<times> int" where
  "wrap_pos_xy bufWidth bufHeight posX posY fontWidth lineHeight padding_t padding_r padding_b pd_l =
     (let (posX, posY) = (if posX + fontWidth > bufWidth - padding_r then (pd_l, posY + lineHeight) else (posX, posY));
          posY = (if posY + lineHeight > bufHeight - padding_b then padding_t else posY)
      in (posX, posY))"

fun putfonts8_asc_buf :: "u32 \<Rightarrow> int \<Rightarrow> int \<Rightarrow> int \<Rightarrow> int \<Rightarrow> int \<Rightarrow> int \<Rightarrow> int \<Rightarrow> int \<Rightarrow> u8 \<Rightarrow> u8 list \<Rightarrow> memory \<Rightarrow>
    (memory \<times> int \<times> int) option" where
  "putfonts8_asc_buf buf bufWidth bufHeight posX posY pt pr pb pl color [] m = Some (m, posX, posY)"
| "putfonts8_asc_buf buf bufWidth bufHeight posX posY pt pr pb pl color (c # s) m =
     (if c = 10 then
        (let m = fill_until_eol buf bufWidth posX posY 24 pr COL8_000000 m;
             (posX, posY) = wrap_pos_xy bufWidth bufHeight pl (posY + 24) 8 24 pt pr pb pl
         in putfonts8_asc_buf buf bufWidth bufHeight posX posY pt pr pb pl color s m)
      else do {
        m \<leftarrow> putfont8 buf bufWidth posX posY color hankaku (sint c * 16) m;
        let (posX, posY) = wrap_pos_xy bufWidth bufHeight (posX + 8) posY 8 24 pt pr pb pl;
        putfonts8_asc_buf buf bufWidth bufHeight posX posY pt pr pb pl color s m
      })"

definition init_block_fill :: "u32 \<Rightarrow> u8 \<Rightarrow> u32 \<Rightarrow> memory \<Rightarrow> memory" where
  "init_block_fill block_start filling_color block_size_in_bytes m =
     for_up (\<lambda>i m. m(block_start + i := filling_color)) 0 block_size_in_bytes m"

definition boxfill8 :: "u32 \<Rightarrow> int \<Rightarrow> u8 \<Rightarrow> int \<Rightarrow> int \<Rightarrow> int \<Rightarrow> int \<Rightarrow> memory \<Rightarrow> memory" where
  "boxfill8 vram xsize color x0 y0 x1 y1 m =
     fold (\<lambda>y m. fold (\<lambda>x m. m(px vram (y * xsize + x) := color)) [x0..x1] m) [y0..y1] m"

definition putblock8_8 :: "u32 \<Rightarrow> int \<Rightarrow> int \<Rightarrow> int \<Rightarrow> int \<Rightarrow> int \<Rightarrow> u32 \<Rightarrow> int \<Rightarrow> memory \<Rightarrow> memory" where
  "putblock8_8 vram vxsize pxsize pysize px0 py0 buf bxsize m =
     fold (\<lambda>y m. fold (\<lambda>x m. m(px vram ((py0 + y) * vxsize + (px0 + x)) := m (px buf (y * bxsize + x)))) [0..pxsize - 1] m)
       [0..pysize - 1] m"

definition mouse_cursor :: "string list" where
  "mouse_cursor = [
    ''**************..'',
    ''*OOOOOOOOOOO*...'',
    ''*OOOOOOOOOO*....'',
    ''*OOOOOOOOO*.....'',
    ''*OOOOOOOO*......'',
    ''*OOOOOOO*.......'',
    ''*OOOOOOO*.......'',
    ''*OOOOOOOO*......'',
    ''*OOOO**OOO*.....'',
    ''*OOO*..*OOO*....'',
    ''*OO*....*OOO*...'',
    ''*O*......*OOO*..'',
    ''**........*OOO*.'',
    ''*..........*OOO*'',
    ''............*OO*'',
    ''.............***'']"

definition init_mouse_cursor8 :: "u32 \<Rightarrow> u8 \<Rightarrow> memory \<Rightarrow> memory" where
  "init_mouse_cursor8 mouseBuf back_color m =
     fold (\<lambda>y m. fold (\<lambda>x m.
         if mouse_cursor ! nat x ! nat y = CHR ''*'' then m(px mouseBuf (y * 16 + x) := COL8_000000)
         else if mouse_cursor ! nat y ! nat x = CHR ''O'' then m(px mouseBuf (y * 16 + x) := COL8_FFFFFF)
         else if mouse_cursor ! nat y ! nat x = CHR ''.'' then m(px mouseBuf (y * 16 + x) := back_color)
         else m) [0..15] m) [0..15] m"

definition closebtn :: "string list" where
  "closebtn = [
    ''OOOOOOOOOOOOOOO@'',
    ''OQQQQQQQQQQQQQ$@'',
    ''OQQQQQQQQQQQQQ$@'',
    ''OQQQ@@QQQQ@@QQ$@'',
    ''OQQQQ@@QQ@@QQQ$@'',
    ''OQQQQQ@@@@QQQQ$@'',
    ''OQQQQQQ@@QQQQQ$@'',
    ''OQQQQQ@@@@QQQQ$@'',
    ''OQQQQ@@QQ@@QQQ$@'',
    ''OQQQ@@QQQQ@@QQ$@'',
    ''OQQQQQQQQQQQQQ$@'',
    ''OQQQQQQQQQQQQQ$@'',
    ''O$$$$$$$$$$$$$$@'',
    ''@@@@@@@@@@@@@@@@'']"

definition closebtn_colour :: "char \<Rightarrow> u8" where
  "closebtn_colour c =
     (if c = CHR ''@'' then COL8_000000
      else if c = CHR ''$'' then COL8_848484
      else if c = CHR ''Q'' then COL8_C6C6C6
      else COL8_FFFFFF)"

definition make_wtitle8 :: "u32 \<Rightarrow> int \<Rightarrow> int \<Rightarrow> u8 list \<Rightarrow> bool \<Rightarrow> memory \<Rightarrow> memory option" where
  "make_wtitle8 buf xsize ysize title isFocus m =
     (let (titleFontColor, titleBarColor) = (if isFocus then (COL8_FFFFFF, COL8_000084) else (COL8_C6C6C6, COL8_848484));
          m = boxfill8 buf xsize titleBarColor 3 3 (xsize - 4) 20 m
      in do {
        m \<leftarrow> putfonts8_asc buf xsize 24 4 titleFontColor title m;
        Some (fold (\<lambda>y m. fold (\<lambda>x m.
            m(px buf ((5 + y) * xsize + (xsize - 21 + x)) := closebtn_colour (closebtn ! nat y ! nat x))) [0..15] m) [0..13] m)
      })"

definition make_window8 :: "u32 \<Rightarrow> int \<Rightarrow> int \<Rightarrow> u8 list \<Rightarrow> bool \<Rightarrow> memory \<Rightarrow> memory option" where
  "make_window8 buf xsize ysize title isFocus m =
     (let m = boxfill8 buf xsize COL8_C6C6C6 0 0 (xsize - 1) 0 m;
          m = boxfill8 buf xsize COL8_FFFFFF 1 1 (xsize - 2) 1 m;
          m = boxfill8 buf xsize COL8_C6C6C6 0 0 0 (ysize - 1) m;
          m = boxfill8 buf xsize COL8_FFFFFF 1 1 1 (ysize - 2) m;
          m = boxfill8 buf xsize COL8_848484 (xsize - 2) 1 (xsize - 2) (ysize - 2) m;
          m = boxfill8 buf xsize COL8_000000 (xsize - 1) 0 (xsize - 1) (ysize - 1) m;
          m = boxfill8 buf xsize COL8_C6C6C6 2 2 (xsize - 3) (ysize - 3) m;
          m = boxfill8 buf xsize COL8_848484 1 (ysize - 2) (xsize - 2) (ysize - 2) m;
          m = boxfill8 buf xsize COL8_000000 0 (ysize - 1) (xsize - 1) (ysize - 1) m
      in make_wtitle8 buf xsize ysize title isFocus m)"

definition draw_desktop :: "u32 \<Rightarrow> int \<Rightarrow> int \<Rightarrow> memory \<Rightarrow> memory" where
  "draw_desktop vram xsize ysize m =
     (let m = boxfill8 vram xsize COL8_008484 0 0 (xsize - 1) (ysize - 29) m;
          m = boxfill8 vram xsize COL8_C6C6C6 0 (ysize - 28) (xsize - 1) (ysize - 28) m;
          m = boxfill8 vram xsize COL8_FFFFFF 0 (ysize - 27) (xsize - 1) (ysize - 27) m;
          m = boxfill8 vram xsize COL8_C6C6C6 0 (ysize - 26) (xsize - 1) (ysize - 1) m;
          m = boxfill8 vram xsize COL8_FFFFFF 3 (ysize - 24) 59 (ysize - 24) m;
          m = boxfill8 vram xsize COL8_FFFFFF 2 (ysize - 24) 2 (ysize - 4) m;
          m = boxfill8 vram xsize COL8_848484 3 (ysize - 4) 59 (ysize - 4) m;
          m = boxfill8 vram xsize COL8_848484 59 (ysize - 23) 59 (ysize - 5) m;
          m = boxfill8 vram xsize COL8_000000 2 (ysize - 3) 59 (ysize - 3) m;
          m = boxfill8 vram xsize COL8_000000 60 (ysize - 24) 60 (ysize - 3) m;
          m = boxfill8 vram xsize COL8_848484 (xsize - 47) (ysize - 24) (xsize - 4) (ysize - 24) m;
          m = boxfill8 vram xsize COL8_848484 (xsize - 47) (ysize - 23) (xsize - 47) (ysize - 4) m;
          m = boxfill8 vram xsize COL8_FFFFFF (xsize - 47) (ysize - 3) (xsize - 4) (ysize - 3) m;
          m = boxfill8 vram xsize COL8_FFFFFF (xsize - 3) (ysize - 24) (xsize - 3) (ysize - 3) m
      in m)"

definition video_mem_start :: u32 where "video_mem_start = 0xa0000"
definition video_mem_end :: u32 where "video_mem_end = 0xaffff"

definition draw_stripes :: "memory \<Rightarrow> memory" where
  "draw_stripes m = for_up (\<lambda>i m. m(i := ucast (i AND 0x0f))) video_mem_start (video_mem_end + 1) m"

definition draw_three_boxes :: "memory \<Rightarrow> memory" where
  "draw_three_boxes m =
     (let m = boxfill8 video_mem_start 320 COL8_FF0000 20 20 120 120 m;
          m = boxfill8 video_mem_start 320 COL8_00FF00 70 50 170 150 m
      in boxfill8 video_mem_start 320 COL8_0000FF 120 80 220 180 m)"

definition write_some_chars :: "u32 \<Rightarrow> int \<Rightarrow> memory \<Rightarrow> memory option" where
  "write_some_chars vram scrnx m = do {
     m \<leftarrow> putfont8 vram scrnx 8 8 COL8_FFFFFF font_A 0 m;
     m \<leftarrow> putfont8 vram scrnx 16 8 COL8_FFFFFF hankaku (66 * 16) m;
     m \<leftarrow> putfont8 vram scrnx 24 8 COL8_FFFFFF hankaku (67 * 16) m;
     m \<leftarrow> putfont8 vram scrnx 40 8 COL8_FFFFFF hankaku (49 * 16) m;
     m \<leftarrow> putfont8 vram scrnx 48 8 COL8_FFFFFF hankaku (50 * 16) m;
     putfont8 vram scrnx 56 8 COL8_FFFFFF hankaku (51 * 16) m
   }"

section \<open>The palette\<close>

definition table_rgb :: "u8 list" where
  "table_rgb = [
    0x00, 0x00, 0x00,
    0xff, 0x00, 0x00,
    0x00, 0xff, 0x00,
    0xff, 0xff, 0x00,
    0x00, 0x00, 0xff,
    0xff, 0x00, 0xff,
    0x00, 0xff, 0xff,
    0xff, 0xff, 0xff,
    0xc6, 0xc6, 0xc6,
    0x84, 0x00, 0x00,
    0x00, 0x84, 0x00,
    0x84, 0x84, 0x00,
    0x00, 0x00, 0x84,
    0x84, 0x00, 0x84,
    0x00, 0x84, 0x84,
    0x84, 0x84, 0x84]"

text \<open>The loop of \<^verbatim>\<open>set_palette\<close>; \<open>n\<close> is the number of colours left, \<open>off\<close> the position in the table.\<close>

fun set_palette_loop :: "nat \<Rightarrow> u8 list \<Rightarrow> int \<Rightarrow> cpu \<Rightarrow> cpu option" where
  "set_palette_loop 0 rgb off c = Some c"
| "set_palette_loop (Suc n) rgb off c = do {
     r \<leftarrow> aget rgb off;
     g \<leftarrow> aget rgb (off + 1);
     b \<leftarrow> aget rgb (off + 2);
     set_palette_loop n rgb (off + 3) (io_out8 0x03c9 (b div 4) (io_out8 0x03c9 (g div 4) (io_out8 0x03c9 (r div 4) c)))
   }"

definition set_palette :: "u8 \<Rightarrow> u8 \<Rightarrow> u8 list \<Rightarrow> cpu \<Rightarrow> cpu option" where
  "set_palette start_i end_i rgb c =
     (let eflags = cpu_eflags c;
          c = io_cli c;
          c = io_out8 0x03c8 start_i c
      in do {
        c \<leftarrow> set_palette_loop (unat end_i + 1 - unat start_i) rgb 0 c;
        Some (c\<lparr>cpu_eflags := eflags\<rparr>)
      })"

definition init_palette :: "cpu \<Rightarrow> cpu option" where
  "init_palette c = set_palette 0 15 table_rgb c"

section \<open>What the primitives write\<close>

definition pixel :: "memory \<Rightarrow> u32 \<Rightarrow> int \<Rightarrow> int \<Rightarrow> int \<Rightarrow> u8" where
  "pixel m vram xsize x y = m (px vram (y * xsize + x))"

text \<open>Only the first \<open>n\<close> bytes of a buffer differ.\<close>

definition within :: "u32 \<Rightarrow> int \<Rightarrow> memory \<Rightarrow> memory \<Rightarrow> bool" where
  "within buf n m m' \<longleftrightarrow> (\<forall>p. m' p \<noteq> m p \<longrightarrow> p \<in> px buf ` {0..<n})"

lemma within_refl [simp]: "within buf n m m"
  by (simp add: within_def)

lemma within_trans: "within buf n m m' \<Longrightarrow> within buf n m' m'' \<Longrightarrow> within buf n m m''"
  unfolding within_def by metis

lemma pixel_index:
  assumes "0 \<le> x" "x < xs" "0 \<le> y" "y < ys"
  shows "0 \<le> y * xs + x" "y * xs + x < xs * (ys :: int)"
proof -
  show "0 \<le> y * xs + x" using assms by simp
  have "y * xs + x < y * xs + xs" using assms by simp
  also have "\<dots> = (y + 1) * xs" by (simp add: algebra_simps)
  also have "\<dots> \<le> ys * xs" using assms by (intro mult_right_mono) auto
  finally show "y * xs + x < xs * ys" by (simp add: mult.commute)
qed

lemma px_in_screen:
  assumes "0 \<le> x" "x < xs" "0 \<le> y" "y < ys"
  shows "px v (y * xs + x) \<in> px v ` {0..<xs * ys}"
  using pixel_index [OF assms] by (intro imageI) simp

lemma within_screenI:
  assumes "\<And>p. m' p \<noteq> m p \<Longrightarrow> \<exists>x y. p = px v (y * xs + x) \<and> 0 \<le> x \<and> x < xs \<and> 0 \<le> y \<and> y < ys"
  shows "within v (xs * ys) m m'"
  unfolding within_def using assms px_in_screen by blast

lemma upd_within:
  assumes "0 \<le> x" "x < xs" "0 \<le> y" "y < ys"
  shows "within v (xs * ys) m (m(px v (y * xs + x) := c))"
  using px_in_screen [OF assms] by (simp add: within_def)

lemma fold_within: "(\<And>x m. x \<in> set l \<Longrightarrow> within v n m (f x m)) \<Longrightarrow> within v n m (fold f l m)"
proof (induction l arbitrary: m)
  case (Cons x l)
  have "within v n m (f x m)" "within v n (f x m) (fold f l (f x m))" using Cons by simp_all
  then show ?case by (simp add: within_trans [of v n m "f x m"])
qed simp

lemma pixel_index_inj:
  assumes "0 \<le> x" "x < xs" "0 \<le> x'" "x' < (xs :: int)"
  shows "y * xs + x = y' * xs + x' \<longleftrightarrow> x = x' \<and> y = y'"
proof
  assume e: "y * xs + x = y' * xs + x'"
  have "(y * xs + x) mod xs = x" "(y' * xs + x') mod xs = x'" using assms by simp_all
  then have "x = x'" using e by simp
  then show "x = x' \<and> y = y'" using e assms by simp
qed simp

lemma pixel_px_inj:
  assumes "0 \<le> x" "x < xs" "0 \<le> y" "y < ys" "0 \<le> x'" "x' < xs" "0 \<le> y'" "y' < ys" "xs * ys \<le> 2 ^ 32"
  shows "px v (y * xs + x) = px v (y' * xs + x') \<longleftrightarrow> x = x' \<and> y = y'"
proof -
  have "y * xs + x < 2 ^ 32" "y' * xs + x' < 2 ^ 32"
    using pixel_index(2) [OF assms(1-4)] pixel_index(2) [OF assms(5-8)] assms(9) by linarith+
  then show ?thesis
    using pixel_index(1) [OF assms(1-4)] pixel_index(1) [OF assms(5-8)] pixel_index_inj [OF assms(1,2,5,6)]
    by (simp only: px_eq_iff)
qed

lemma fold_upd: "fold (\<lambda>x m. m(f x := c)) xs m p = (if p \<in> f ` set xs then c else m p)"
  by (induction xs arbitrary: m) auto

lemma fold_fold_upd:
  "fold (\<lambda>y m. fold (\<lambda>x m. m(f x y := c)) xs m) ys m p = (if \<exists>y\<in>set ys. p \<in> (\<lambda>x. f x y) ` set xs then c else m p)"
  by (induction ys arbitrary: m) (auto simp: fold_upd)

lemma boxfill8_at:
  "boxfill8 v xs col x0 y0 x1 y1 m p =
     (if \<exists>y\<in>{y0..y1}. \<exists>x\<in>{x0..x1}. p = px v (y * xs + x) then col else m p)"
  unfolding boxfill8_def fold_fold_upd by (simp add: image_iff)

lemma boxfill8_within:
  assumes "0 \<le> x0" "x1 < xs" "0 \<le> y0" "y1 < ys"
  shows "within v (xs * ys) m (boxfill8 v xs col x0 y0 x1 y1 m)"
proof (rule within_screenI)
  fix p assume "boxfill8 v xs col x0 y0 x1 y1 m p \<noteq> m p"
  then obtain x y where "p = px v (y * xs + x)" "y0 \<le> y" "y \<le> y1" "x0 \<le> x" "x \<le> x1"
    by (auto simp: boxfill8_at split: if_splits)
  then show "\<exists>x y. p = px v (y * xs + x) \<and> 0 \<le> x \<and> x < xs \<and> 0 \<le> y \<and> y < ys"
    using assms by (intro exI [of _ x] exI [of _ y]) auto
qed

text \<open>
  Filling a box: inside a screen of \<open>xs\<close> by \<open>ys\<close> pixels the points of the box, its edges included, get
  the colour, every other point keeps its own, and no byte outside the screen changes.
\<close>

theorem boxfill8_correct:
  assumes "0 \<le> x0" "x1 < xs" "0 \<le> y0" "y1 < ys" "xs * ys \<le> 2 ^ 32" "0 \<le> x" "x < xs" "0 \<le> y" "y < ys"
  shows "pixel (boxfill8 v xs col x0 y0 x1 y1 m) v xs x y =
      (if x0 \<le> x \<and> x \<le> x1 \<and> y0 \<le> y \<and> y \<le> y1 then col else pixel m v xs x y) \<and>
    within v (xs * ys) m (boxfill8 v xs col x0 y0 x1 y1 m)"
proof -
  have "(\<exists>y'\<in>{y0..y1}. \<exists>x'\<in>{x0..x1}. px v (y * xs + x) = px v (y' * xs + x')) \<longleftrightarrow>
      (\<exists>y'\<in>{y0..y1}. \<exists>x'\<in>{x0..x1}. x = x' \<and> y = y')"
    using pixel_px_inj [OF assms(6-9) _ _ _ _ assms(5)] assms(1-4) by (intro bex_cong refl) auto
  then show ?thesis using boxfill8_within [OF assms(1-4)] by (simp add: pixel_def boxfill8_at)
qed

theorem boxfill8_correct_witness:
  "pixel (boxfill8 0xa0000 320 1 20 20 120 120 (\<lambda>_. 0)) 0xa0000 320 120 20 = 1 \<and>
   pixel (boxfill8 0xa0000 320 1 20 20 120 120 (\<lambda>_. 0)) 0xa0000 320 121 20 = 0"
  using boxfill8_correct [of 20 120 320 20 120 200 120 20 "0xa0000" 1 "\<lambda>_. 0"]
    boxfill8_correct [of 20 120 320 20 120 200 121 20 "0xa0000" 1 "\<lambda>_. 0"] by (simp add: pixel_def)

section \<open>Glyphs\<close>

lemma putfont8_row_at:
  "putfont8_row pt col row m p = (if \<exists>j\<in>{0..7}. p = pt + word_of_int (int j) \<and> bit row (7 - j) then col else m p)"
proof -
  have b: "row AND 0x80 \<noteq> 0 \<longleftrightarrow> bit row 7" "row AND 0x40 \<noteq> 0 \<longleftrightarrow> bit row 6" "row AND 0x20 \<noteq> 0 \<longleftrightarrow> bit row 5"
    "row AND 0x10 \<noteq> 0 \<longleftrightarrow> bit row 4" "row AND 0x08 \<noteq> 0 \<longleftrightarrow> bit row 3" "row AND 0x04 \<noteq> 0 \<longleftrightarrow> bit row 2"
    "row AND 0x02 \<noteq> 0 \<longleftrightarrow> bit row 1" "row AND 0x01 \<noteq> 0 \<longleftrightarrow> bit row 0"
    using bit_iff_and_push_bit_not_eq_0 [of row] by (simp_all add: numeral_eq_Suc)
  have s: "{0..7 :: nat} = {0, 1, 2, 3, 4, 5, 6, 7}" by auto
  show ?thesis unfolding putfont8_row_def Let_def b s by auto
qed

lemma putfont8_loop_at:
  assumes "0 \<le> off + i" "off + i + int n \<le> int (length font)"
  shows "\<exists>m'. putfont8_loop n i v xs x y col font off m = Some m' \<and>
    (\<forall>p. m' p = (if \<exists>k<n. \<exists>j\<in>{0..7}. p = px v ((y + i + int k) * xs + x + int j) \<and> bit (font ! nat (off + i + int k)) (7 - j)
       then col else m p))"
  using assms
proof (induction n arbitrary: i m)
  case (Suc n)
  let ?m = "putfont8_row (px v ((y + i) * xs + x)) col (font ! nat (off + i)) m"
  have g: "aget font (off + i) = Some (font ! nat (off + i))" using Suc.prems by (simp add: aget_in)
  have "0 \<le> off + (i + 1)" "off + (i + 1) + int n \<le> int (length font)" using Suc.prems by simp_all
  from Suc.IH [OF this, of ?m] obtain m' where m': "putfont8_loop n (i + 1) v xs x y col font off ?m = Some m'"
    "\<And>p. m' p = (if \<exists>k<n. \<exists>j\<in>{0..7}. p = px v ((y + (i + 1) + int k) * xs + x + int j) \<and>
       bit (font ! nat (off + (i + 1) + int k)) (7 - j) then col else ?m p)"
    by blast
  let ?P = "\<lambda>p k. \<exists>j\<in>{0..7}. p = px v ((y + i + int k) * xs + x + int j) \<and> bit (font ! nat (off + i + int k)) (7 - j)"
  have sh: "(\<exists>j\<in>{0..7}. p = px v ((y + (i + 1) + int k) * xs + x + int j) \<and>
       bit (font ! nat (off + (i + 1) + int k)) (7 - j)) \<longleftrightarrow> ?P p (Suc k)" for p k
    by (simp add: algebra_simps)
  have z: "?m p = (if ?P p 0 then col else m p)" for p
    unfolding putfont8_row_at px_add by simp
  have "m' p = (if \<exists>k<Suc n. ?P p k then col else m p)" for p
    unfolding m'(2) sh z using less_Suc_eq_0_disj [of _ n] by auto
  then show ?case using m'(1) by (simp add: g)
qed simp

lemma hankaku_length [simp]: "length hankaku = 4096"
proof -
  have "map length hankaku_low = replicate 128 16" unfolding hankaku_low_def by (simp add: numeral_eq_Suc)
  moreover have "map length hankaku_high = replicate 128 16" unfolding hankaku_high_def by (simp add: numeral_eq_Suc)
  ultimately show ?thesis by (simp add: hankaku_def length_concat sum_list_replicate)
qed

lemma putfont8_draws:
  assumes "0 \<le> off" "off + 16 \<le> int (length font)" "xs * ys \<le> 2 ^ 32"
    and "0 \<le> x" "x + 8 \<le> xs" "0 \<le> y" "y + 16 \<le> ys"
  shows "\<exists>m'. putfont8 v xs x y col font off m = Some m' \<and> within v (xs * ys) m m' \<and>
    (\<forall>X\<in>{0..<xs}. \<forall>Y\<in>{0..<ys}. pixel m' v xs X Y =
      (if x \<le> X \<and> X < x + 8 \<and> y \<le> Y \<and> Y < y + 16 \<and> bit (font ! nat (off + (Y - y))) (7 - nat (X - x))
       then col else pixel m v xs X Y))"
proof -
  let ?Q = "\<lambda>k j. bit (font ! nat (off + int k)) (7 - j)"
  let ?P = "\<lambda>p. \<exists>k<16. \<exists>j\<in>{0..7}. p = px v ((y + int k) * xs + (x + int j)) \<and> ?Q k j"
  from putfont8_loop_at [of off 0 16 font v xs x y col m] obtain m' where
    m': "putfont8 v xs x y col font off m = Some m'" "\<And>p. m' p = (if ?P p then col else m p)"
    using assms(1,2) by (auto simp: putfont8_def add.assoc)
  have "within v (xs * ys) m m'"
  proof (rule within_screenI)
    fix p assume "m' p \<noteq> m p"
    then obtain k j where "k < 16" "j \<le> 7" "p = px v ((y + int k) * xs + (x + int j))"
      by (auto simp: m'(2) split: if_splits)
    then show "\<exists>x y. p = px v (y * xs + x) \<and> 0 \<le> x \<and> x < xs \<and> 0 \<le> y \<and> y < ys"
      using assms(4-7) by (intro exI [of _ "x + int j"] exI [of _ "y + int k"]) auto
  qed
  moreover have "?P (px v (Y * xs + X)) \<longleftrightarrow>
      x \<le> X \<and> X < x + 8 \<and> y \<le> Y \<and> Y < y + 16 \<and> ?Q (nat (Y - y)) (nat (X - x))"
    if "0 \<le> X" "X < xs" "0 \<le> Y" "Y < ys" for X Y
  proof -
    have "px v (Y * xs + X) = px v ((y + int k) * xs + (x + int j)) \<longleftrightarrow> X = x + int j \<and> Y = y + int k"
      if "k < 16" "j \<le> 7" for k j
      using pixel_px_inj [OF \<open>0 \<le> X\<close> \<open>X < xs\<close> \<open>0 \<le> Y\<close> \<open>Y < ys\<close> _ _ _ _ assms(3)] that assms(4-7) by simp
    then have "?P (px v (Y * xs + X)) \<longleftrightarrow> (\<exists>k<16. \<exists>j\<in>{0..7}. X = x + int j \<and> Y = y + int k \<and> ?Q k j)"
      by (metis atLeastAtMost_iff)
    also have "\<dots> \<longleftrightarrow> x \<le> X \<and> X < x + 8 \<and> y \<le> Y \<and> Y < y + 16 \<and> ?Q (nat (Y - y)) (nat (X - x))"
      by (auto intro!: exI [of _ "nat (Y - y)"] bexI [of _ "nat (X - x)"])
    finally show ?thesis .
  qed
  ultimately show ?thesis using m' by (intro exI [of _ m']) (auto simp: pixel_def)
qed

text \<open>
  Drawing a glyph that lies on the screen: the point in column \<open>i\<close> and row \<open>j\<close> of its eight by sixteen
  cell gets the colour exactly when the bit \<open>7 - i\<close> of row \<open>j\<close> of the font is set; every other point of
  the screen and every byte outside it stay as they were.
\<close>

theorem putfont8_correct:
  assumes "0 \<le> off" "off + 16 \<le> int (length font)" "xs * ys \<le> 2 ^ 32"
    and "0 \<le> x" "x + 8 \<le> xs" "0 \<le> y" "y + 16 \<le> ys"
  shows "\<exists>m'. putfont8 v xs x y col font off m = Some m' \<and> within v (xs * ys) m m' \<and>
    (\<forall>X\<in>{0..<xs}. \<forall>Y\<in>{0..<ys}. pixel m' v xs X Y =
      (if x \<le> X \<and> X < x + 8 \<and> y \<le> Y \<and> Y < y + 16 \<and> bit (font ! nat (off + (Y - y))) (7 - nat (X - x))
       then col else pixel m v xs X Y))"
  by (rule putfont8_draws [OF assms])

theorem putfont8_correct_witness:
  "\<exists>m'. putfont8 0xa0000 320 8 8 7 font_A 0 (\<lambda>_. 0) = Some m' \<and>
    pixel m' 0xa0000 320 11 9 = 7 \<and> pixel m' 0xa0000 320 10 9 = 0"
proof -
  have "(0 :: int) + 16 \<le> int (length font_A)" by (simp add: font_A_def)
  from putfont8_correct [OF order_refl this, of 320 200 8 8 "0xa0000" 7 "\<lambda>_. 0"] obtain m' where
    m': "putfont8 0xa0000 320 8 8 7 font_A 0 (\<lambda>_. 0) = Some m'"
    "\<forall>X\<in>{0..<320}. \<forall>Y\<in>{0..<200}. pixel m' 0xa0000 320 X Y =
      (if 8 \<le> X \<and> X < 8 + 8 \<and> 8 \<le> Y \<and> Y < 8 + 16 \<and> bit (font_A ! nat (0 + (Y - 8))) (7 - nat (X - 8))
       then 7 else pixel (\<lambda>_. 0) 0xa0000 320 X Y)"
    by auto
  have "bit (font_A ! 1) 4" "\<not> bit (font_A ! 1) 5" unfolding font_A_def by (simp_all add: bit_numeral_rec)
  then show ?thesis using m'(1) m'(2) [rule_format, of 11 9] m'(2) [rule_format, of 10 9] by (simp add: pixel_def)
qed

section \<open>Windows\<close>

lemma sint_small_u8: "unat (c :: u8) < 128 \<Longrightarrow> sint c = int (unat c)"
proof -
  assume "unat c < 128"
  then have "uint c < 128" using uint_less_int [of c 128] by simp
  moreover have "- 128 \<le> uint c" using unsigned_greater_eq [of c, where ?'a = int] by linarith
  ultimately have "signed_take_bit 7 (uint c) = uint c" by (intro signed_take_bit_int_eq_self) simp_all
  then show ?thesis by (simp add: sint_uint)
qed

lemma putfonts8_asc_within:
  assumes "\<forall>c\<in>set s. c < 128" "0 \<le> x" "x + 8 * int (length s) \<le> xs" "0 \<le> y" "y + 16 \<le> ys" "xs * ys \<le> 2 ^ 32"
  shows "\<exists>m'. putfonts8_asc v xs x y col s m = Some m' \<and> within v (xs * ys) m m'"
  using assms(1-3)
proof (induction s arbitrary: x m)
  case (Cons c s)
  have "unat c < 128" using Cons.prems(1) by (simp add: word_less_nat_alt)
  then have "0 \<le> sint c * 16" "sint c * 16 + 16 \<le> int (length hankaku)"
    using uint_less_int [of c 128] by (simp_all add: sint_small_u8)
  moreover have "x + 8 \<le> xs" using Cons.prems(3) by simp
  ultimately obtain m1 where
    m1: "putfont8 v xs x y col hankaku (sint c * 16) m = Some m1" "within v (xs * ys) m m1"
    using putfont8_draws [OF _ _ assms(6) Cons.prems(2) _ assms(4,5)] by blast
  moreover obtain m' where "putfonts8_asc v xs (x + 8) y col s m1 = Some m'" "within v (xs * ys) m1 m'"
    using Cons.IH [of "x + 8" m1] Cons.prems by auto
  ultimately show ?case using within_trans by auto
qed simp

lemma make_wtitle8_within:
  assumes "\<forall>c\<in>set title. c < 128" "24 + 8 * int (length title) \<le> xs" "21 \<le> ys" "xs * ys \<le> 2 ^ 32"
  shows "\<exists>m'. make_wtitle8 buf xs ys title isFocus m = Some m' \<and> within buf (xs * ys) m m'"
proof -
  have btn: "within buf (xs * ys) m
     (fold (\<lambda>y m. fold (\<lambda>x m. m(px buf ((5 + y) * xs + (xs - 21 + x)) := c x y)) [0..15] m) [0..13] m)" for m c
    using assms(2,3) by (intro fold_within upd_within) auto
  let ?f = "if isFocus then COL8_FFFFFF else COL8_C6C6C6" and ?b = "if isFocus then COL8_000084 else COL8_848484"
  let ?m = "boxfill8 buf xs ?b 3 3 (xs - 4) 20 m"
  obtain m1 where m1: "putfonts8_asc buf xs 24 4 ?f title ?m = Some m1" "within buf (xs * ys) ?m m1"
    using putfonts8_asc_within [OF assms(1) _ assms(2), of 4 ys buf ?f ?m] assms by auto
  have "within buf (xs * ys) m ?m" using assms by (intro boxfill8_within) auto
  then have w: "within buf (xs * ys) m m1" using m1(2) by (rule within_trans)
  have e: "make_wtitle8 buf xs ys title isFocus m =
      Some (fold (\<lambda>y m. fold (\<lambda>x m. m(px buf ((5 + y) * xs + (xs - 21 + x)) := closebtn_colour (closebtn ! nat y ! nat x)))
        [0..15] m) [0..13] m1)"
    using m1(1) unfolding make_wtitle8_def
    by (cases isFocus) (simp_all only: if_True if_False Let_def prod.case bind.bind_lunit)
  show ?thesis by (intro exI conjI, rule e, rule within_trans [OF w btn])
qed

text \<open>
  Drawing a window stays inside its buffer: for a window of at least 21 rows whose title of ASCII
  characters fits beside the corner, no byte outside the \<open>xs\<close> by \<open>ys\<close> buffer changes.
\<close>

theorem make_window8_in_bounds:
  assumes "\<forall>c\<in>set title. c < 128" "24 + 8 * int (length title) \<le> xs" "21 \<le> ys" "xs * ys \<le> 2 ^ 32"
  shows "\<exists>m'. make_window8 buf xs ys title isFocus m = Some m' \<and> within buf (xs * ys) m m'"
proof -
  note b = boxfill8_within [of _ _ xs _ _ ys buf]
  obtain m' where "make_window8 buf xs ys title isFocus m = Some m'"
    and w: "within buf (xs * ys)
      (boxfill8 buf xs COL8_000000 0 (ys - 1) (xs - 1) (ys - 1)
      (boxfill8 buf xs COL8_848484 1 (ys - 2) (xs - 2) (ys - 2)
      (boxfill8 buf xs COL8_C6C6C6 2 2 (xs - 3) (ys - 3)
      (boxfill8 buf xs COL8_000000 (xs - 1) 0 (xs - 1) (ys - 1)
      (boxfill8 buf xs COL8_848484 (xs - 2) 1 (xs - 2) (ys - 2)
      (boxfill8 buf xs COL8_FFFFFF 1 1 1 (ys - 2)
      (boxfill8 buf xs COL8_C6C6C6 0 0 0 (ys - 1)
      (boxfill8 buf xs COL8_FFFFFF 1 1 (xs - 2) 1
      (boxfill8 buf xs COL8_C6C6C6 0 0 (xs - 1) 0 m))))))))) m'"
    using make_wtitle8_within [OF assms] unfolding make_window8_def Let_def by blast
  moreover have "within buf (xs * ys) m m'"
    by (rule within_trans [OF _ w] | rule within_trans [OF _ b] | rule b | simp add: assms)+ (use assms in simp_all)
  ultimately show ?thesis by blast
qed

theorem make_window8_in_bounds_witness:
  "\<exists>m'. make_window8 0x1000 160 68 [119, 105, 110, 100, 111, 119] False (\<lambda>_. 0) = Some m' \<and>
    within 0x1000 (160 * 68) (\<lambda>_. 0) m'"
  by (rule make_window8_in_bounds) simp_all

lemma draw_desktop_within:
  assumes "61 \<le> xs" "28 \<le> ys"
  shows "within vram (xs * ys) m (draw_desktop vram xs ys m)"
  unfolding draw_desktop_def Let_def
  by (rule within_trans [OF _ boxfill8_within] | rule within_refl | use assms in simp)+

section \<open>Loops over all points of a block\<close>

text \<open>The points of a block in the order of two nested loops.\<close>

definition points :: "int list \<Rightarrow> int list \<Rightarrow> (int \<times> int) list" where
  "points xs ys = concat (map (\<lambda>y. map (\<lambda>x. (x, y)) xs) ys)"

lemma set_points: "set (points xs ys) = set xs \<times> set ys"
  by (auto simp: points_def)

lemma distinct_points: "distinct xs \<Longrightarrow> distinct ys \<Longrightarrow> distinct (points xs ys)"
  by (induction ys) (auto simp: points_def distinct_map inj_on_def)

lemma fold_points:
  "fold (\<lambda>y m. fold (\<lambda>x m. F x y m) xs m) ys m = fold (\<lambda>(x, y) m. F x y m) (points xs ys) m"
  by (induction ys arbitrary: m) (simp_all add: points_def fold_map comp_def)

lemma mouse_cursor_symmetric:
  assumes "x \<in> {0..15}" "y \<in> {0..15}"
  shows "mouse_cursor ! nat x ! nat y = CHR ''*'' \<longleftrightarrow> mouse_cursor ! nat y ! nat x = CHR ''*''"
    "mouse_cursor ! nat y ! nat x \<in> {CHR ''*'', CHR ''O'', CHR ''.''}"
proof -
  have "list_all (\<lambda>y. list_all (\<lambda>x. (mouse_cursor ! x ! y = CHR ''*'') = (mouse_cursor ! y ! x = CHR ''*'') \<and>
    mouse_cursor ! y ! x \<in> {CHR ''*'', CHR ''O'', CHR ''.''}) [0..<16]) [0..<16]"
    unfolding mouse_cursor_def by code_simp
  moreover have "nat x \<in> set [0..<16]" "nat y \<in> set [0..<16]" using assms by auto
  ultimately show "mouse_cursor ! nat x ! nat y = CHR ''*'' \<longleftrightarrow> mouse_cursor ! nat y ! nat x = CHR ''*''"
    "mouse_cursor ! nat y ! nat x \<in> {CHR ''*'', CHR ''O'', CHR ''.''}"
    unfolding list_all_iff by blast+
qed

definition cursor_colour :: "u8 \<Rightarrow> char \<Rightarrow> u8" where
  "cursor_colour back_color c = (if c = CHR ''*'' then COL8_000000 else if c = CHR ''O'' then COL8_FFFFFF else back_color)"

text \<open>
  The mouse cursor: although the loop tests the border character at the transposed position, the
  pattern is symmetric there, so each of the 256 bytes gets the colour of its own character.
\<close>

lemma init_mouse_cursor8_draws:
  assumes "x \<in> {0..15}" "y \<in> {0..15}"
  shows "pixel (init_mouse_cursor8 buf back m) buf 16 x y = cursor_colour back (mouse_cursor ! nat y ! nat x)"
proof -
  let ?I = "{0..15 :: int} \<times> {0..15 :: int}" and ?a = "\<lambda>(x, y). px buf (y * 16 + x)"
  let ?v = "\<lambda>(x, y). cursor_colour back (mouse_cursor ! nat y ! nat x)"
  have inj: "inj_on ?a ?I"
    by (rule inj_onI) (use pixel_px_inj [of _ 16 _ 16] in auto)
  have cong: "fold (\<lambda>(x, y) m. F x y m) l m = fold (\<lambda>i m. m(?a i := ?v i)) l m"
    if "set l \<subseteq> ?I" "\<And>x y m. (x, y) \<in> ?I \<Longrightarrow> F x y m = m(px buf (y * 16 + x) := ?v (x, y))" for l F m
    using that by (induction l arbitrary: m) auto
  have "init_mouse_cursor8 buf back m = fold (\<lambda>i m. m(?a i := ?v i)) (points [0..15] [0..15]) m"
    unfolding init_mouse_cursor8_def fold_points
  proof (rule cong)
    fix x y :: int and m assume xy: "(x, y) \<in> ?I"
    then show "(if mouse_cursor ! nat x ! nat y = CHR ''*'' then m(px buf (y * 16 + x) := COL8_000000)
         else if mouse_cursor ! nat y ! nat x = CHR ''O'' then m(px buf (y * 16 + x) := COL8_FFFFFF)
         else if mouse_cursor ! nat y ! nat x = CHR ''.'' then m(px buf (y * 16 + x) := back)
         else m) = m(px buf (y * 16 + x) := ?v (x, y))"
      using mouse_cursor_symmetric [of x y] by (auto simp: cursor_colour_def)
  qed (simp add: set_points del: upto_rec_numeral)
  moreover have "distinct (points [0..15] [0..15])" by (intro distinct_points) simp_all
  moreover have "set (points [0..15] [0..15]) = ?I" by (simp only: set_points set_upto)
  ultimately show ?thesis
    using fold_write_once [OF inj, of m "\<lambda>i _. ?v i" ?v "points [0..15] [0..15]"] assms by (auto simp: pixel_def)
qed

end
