(* ===== verification/Sheet.thy ===== *)
theory Sheet
  imports Memory Graphics
begin

text \<open>
  The window sheets of \<^verbatim>\<open>src/src/drivers/graphic/sheet.{h,c}\<close>: a stack of rectangular buffers with a map
  that says for each point of the screen which sheet is on top there. A \<^verbatim>\<open>SHEET *\<close> is the index of the
  structure in \<^verbatim>\<open>sheet0\<close>, \<open>None\<close> for \<^verbatim>\<open>NULL\<close>; buffers, the map and the screen are addresses in the memory.
\<close>

section \<open>Data\<close>

record SHEET =
  sh_buf :: u32
  sh_bufXsize :: int
  sh_bufYsize :: int
  sh_xStart :: int
  sh_yStart :: int
  sh_color_invisible :: int
  sh_z :: int
  sh_flags :: int
  sh_ctl :: u32
  sh_textbox :: u32

record SHTCTL =
  ct_vram :: u32
  ct_zMap :: u32
  ct_xsize :: int
  ct_ysize :: int
  ct_zTop :: int
  ct_sheets :: "nat option list"
  ct_sheet0 :: "SHEET list"

record TEXTBOX =
  tb_bufXS :: int
  tb_bufYS :: int
  tb_bufXE :: int
  tb_bufYE :: int
  tb_lineBuf :: u32
  tb_boxX :: int
  tb_boxY :: int
  tb_lineEolPos :: int
  tb_lineCharPos :: int
  tb_sheet :: "nat option"
  tb_bgColor :: u32
  tb_charBgColor :: u32
  tb_charColor :: u32
  tb_incrementX :: u32
  tb_incrementY :: u32

text \<open>The structure the pointer \<^verbatim>\<open>ctl\<close> refers to, the memory and the text boxes by address.\<close>

record gfx =
  gf_ctl :: SHTCTL
  gf_mm :: mm
  gf_boxes :: "u32 \<Rightarrow> TEXTBOX"

definition OS_VGA_MAX_SHEETS :: nat where "OS_VGA_MAX_SHEETS = 256"
definition SHEET_IN_USE :: int where "SHEET_IN_USE = 1"
definition OS_TEXTBOX_LINE_BUFFER_SIZE :: int where "OS_TEXTBOX_LINE_BUFFER_SIZE = 4096 * 10"
definition sizeof_SHTCTL :: u32 where "sizeof_SHTCTL = 11284"
definition sizeof_TEXTBOX :: u32 where "sizeof_TEXTBOX = 60"

definition sheet_zero :: SHEET where
  "sheet_zero = \<lparr>sh_buf = 0, sh_bufXsize = 0, sh_bufYsize = 0, sh_xStart = 0, sh_yStart = 0, sh_color_invisible = 0,
     sh_z = 0, sh_flags = 0, sh_ctl = 0, sh_textbox = 0\<rparr>"

definition textbox_zero :: TEXTBOX where
  "textbox_zero = \<lparr>tb_bufXS = 0, tb_bufYS = 0, tb_bufXE = 0, tb_bufYE = 0, tb_lineBuf = 0, tb_boxX = 0, tb_boxY = 0,
     tb_lineEolPos = 0, tb_lineCharPos = 0, tb_sheet = None, tb_bgColor = 0, tb_charBgColor = 0, tb_charColor = 0,
     tb_incrementX = 0, tb_incrementY = 0\<rparr>"

section \<open>Allocation\<close>

definition shtctl_init :: "u32 \<Rightarrow> int \<Rightarrow> int \<Rightarrow> mm \<Rightarrow> (mm \<times> (u32 \<times> SHTCTL) option) option" where
  "shtctl_init vram xsize ysize m = do {
     (m, ctl) \<leftarrow> kzalloc sizeof_SHTCTL m;
     if ctl = 0 then Some (m, None)
     else do {
       (m, zMap) \<leftarrow> kzalloc (word_of_int (xsize * ysize)) m;
       if zMap = 0 then Some (kfree ctl m, None)
       else Some (m, Some (ctl, \<lparr>ct_vram = vram, ct_zMap = zMap, ct_xsize = xsize, ct_ysize = ysize, ct_zTop = -1,
          ct_sheets = replicate OS_VGA_MAX_SHEETS None,
          ct_sheet0 = replicate OS_VGA_MAX_SHEETS (sheet_zero\<lparr>sh_flags := 0, sh_ctl := ctl\<rparr>)\<rparr>))
     }
   }"

text \<open>\<open>n\<close> is the number of sheets left to look at.\<close>

fun sheet_alloc_loop :: "nat \<Rightarrow> nat \<Rightarrow> SHTCTL \<Rightarrow> (SHTCTL \<times> nat option) option" where
  "sheet_alloc_loop 0 i ctl = Some (ctl, None)"
| "sheet_alloc_loop (Suc n) i ctl = do {
     s \<leftarrow> aget (ct_sheet0 ctl) (int i);
     if sh_flags s = 0 then do {
       ss \<leftarrow> aset (ct_sheet0 ctl) (int i) (s\<lparr>sh_flags := SHEET_IN_USE, sh_z := -1, sh_textbox := 0\<rparr>);
       Some (ctl\<lparr>ct_sheet0 := ss\<rparr>, Some i)
     }
     else sheet_alloc_loop n (Suc i) ctl
   }"

definition sheet_alloc :: "SHTCTL \<Rightarrow> (SHTCTL \<times> nat option) option" where
  "sheet_alloc ctl = sheet_alloc_loop OS_VGA_MAX_SHEETS 0 ctl"

definition get_sheet :: "SHTCTL \<Rightarrow> nat \<Rightarrow> SHEET option" where
  "get_sheet ctl i = aget (ct_sheet0 ctl) (int i)"

definition upd_sheet :: "nat \<Rightarrow> (SHEET \<Rightarrow> SHEET) \<Rightarrow> SHTCTL \<Rightarrow> SHTCTL option" where
  "upd_sheet i f ctl = do {
     s \<leftarrow> get_sheet ctl i;
     ss \<leftarrow> aset (ct_sheet0 ctl) (int i) (f s);
     Some (ctl\<lparr>ct_sheet0 := ss\<rparr>)
   }"

definition sheet_textbox_free :: "nat option \<Rightarrow> gfx \<Rightarrow> gfx option" where
  "sheet_textbox_free sheet g =
     (case sheet of
        None \<Rightarrow> Some g
      | Some i \<Rightarrow> do {
          s \<leftarrow> get_sheet (gf_ctl g) i;
          if sh_textbox s \<noteq> 0 then do {
            let m = kfree (tb_lineBuf (gf_boxes g (sh_textbox s))) (gf_mm g);
            let m = kfree (sh_textbox s) m;
            ctl \<leftarrow> upd_sheet i (\<lambda>s. s\<lparr>sh_textbox := 0\<rparr>) (gf_ctl g);
            Some (g\<lparr>gf_mm := m, gf_ctl := ctl\<rparr>)
          }
          else Some g
        })"

definition sheet_textbox_alloc :: "nat \<Rightarrow> int \<Rightarrow> int \<Rightarrow> int \<Rightarrow> int \<Rightarrow> int \<Rightarrow> int \<Rightarrow> int \<Rightarrow> gfx \<Rightarrow> gfx option" where
  "sheet_textbox_alloc i xS yS xE yE bgColor charBgColor charColor g = do {
     (m, t) \<leftarrow> kzalloc sizeof_TEXTBOX (gf_mm g);
     ctl \<leftarrow> upd_sheet i (\<lambda>s. s\<lparr>sh_textbox := t\<rparr>) (gf_ctl g);
     (m, lineBuf) \<leftarrow> kzalloc (word_of_int OS_TEXTBOX_LINE_BUFFER_SIZE) m;
     if t = 0 then None
     else do {
       let b = textbox_zero\<lparr>tb_lineBuf := lineBuf\<rparr>;
       if lineBuf \<noteq> 0 then do {
         let b = b\<lparr>tb_sheet := Some i, tb_boxX := 0, tb_boxY := 0, tb_lineCharPos := 0, tb_lineEolPos := 0,
            tb_bufXS := xS, tb_bufYS := yS, tb_bufXE := xE, tb_bufYE := yE, tb_incrementX := 8, tb_incrementY := 28,
            tb_bgColor := (if bgColor > -1 then word_of_int bgColor else ucast COL8_000000),
            tb_charBgColor := (if charBgColor > -1 then word_of_int charBgColor else ucast COL8_000000),
            tb_charColor := (if charColor > -1 then word_of_int charColor else ucast COL8_FFFFFF)\<rparr>;
         Some (g\<lparr>gf_mm := m, gf_ctl := ctl, gf_boxes := (gf_boxes g)(t := b)\<rparr>)
       }
       else sheet_textbox_free (Some i) (g\<lparr>gf_mm := m, gf_ctl := ctl, gf_boxes := (gf_boxes g)(t := b)\<rparr>)
     }
   }"

definition sheet_setbuf :: "nat \<Rightarrow> u32 \<Rightarrow> int \<Rightarrow> int \<Rightarrow> int \<Rightarrow> SHTCTL \<Rightarrow> SHTCTL option" where
  "sheet_setbuf i buf xsize ysize color_invisible ctl =
     upd_sheet i (\<lambda>s. s\<lparr>sh_buf := buf, sh_bufXsize := xsize, sh_bufYsize := ysize, sh_color_invisible := color_invisible\<rparr>) ctl"

section \<open>The map and the screen\<close>

definition clamp :: "int \<Rightarrow> int \<Rightarrow> int" where
  "clamp n v = (let v = (if v < 0 then 0 else v) in if v \<ge> n then n - 1 else v)"

text \<open>The area grows by one point on each side and is cut to the screen.\<close>

definition clip_screen :: "SHTCTL \<Rightarrow> int \<Rightarrow> int \<Rightarrow> int \<Rightarrow> int \<Rightarrow> int \<times> int \<times> int \<times> int" where
  "clip_screen ctl xStart yStart xEnd yEnd =
     (clamp (ct_xsize ctl) (xStart - 1), clamp (ct_ysize ctl) (yStart - 1),
      clamp (ct_xsize ctl) (xEnd + 1), clamp (ct_ysize ctl) (yEnd + 1))"

text \<open>The two nested loops over the part of a sheet's buffer that lies in an area of the screen.\<close>

definition for_region :: "SHEET \<Rightarrow> int \<times> int \<times> int \<times> int \<Rightarrow> (int \<Rightarrow> int \<Rightarrow> memory \<Rightarrow> memory) \<Rightarrow> memory \<Rightarrow> memory" where
  "for_region s r body m =
     (let (xStartOnScreen, yStartOnScreen, xEndOnScreen, yEndOnScreen) = r;
          xStartInBuf = xStartOnScreen - sh_xStart s;
          yStartInBuf = yStartOnScreen - sh_yStart s;
          xEndInBuf = xEndOnScreen - sh_xStart s;
          yEndInBuf = yEndOnScreen - sh_yStart s;
          xStartInBuf = (if xStartInBuf < 0 then 0 else xStartInBuf);
          yStartInBuf = (if yStartInBuf < 0 then 0 else yStartInBuf);
          xEndInBuf = (if xEndInBuf \<ge> sh_bufXsize s then sh_bufXsize s - 1 else xEndInBuf);
          yEndInBuf = (if yEndInBuf \<ge> sh_bufYsize s then sh_bufYsize s - 1 else yEndInBuf)
      in fold (\<lambda>bufY m. fold (\<lambda>bufX m. body bufX bufY m) [xStartInBuf..xEndInBuf] m) [yStartInBuf..yEndInBuf] m)"

definition zmap_point :: "SHTCTL \<Rightarrow> nat \<Rightarrow> SHEET \<Rightarrow> int \<Rightarrow> int \<Rightarrow> memory \<Rightarrow> memory" where
  "zmap_point ctl sheetId s bufX bufY m =
     (let y = sh_yStart s + bufY;
          x = sh_xStart s + bufX;
          color = m (px (sh_buf s) (bufY * sh_bufXsize s + bufX))
      in if uint color \<noteq> sh_color_invisible s
         then m(px (ct_zMap ctl) (ct_xsize ctl * y + x) := of_nat sheetId) else m)"

definition vram_point :: "SHTCTL \<Rightarrow> nat \<Rightarrow> SHEET \<Rightarrow> int \<Rightarrow> int \<Rightarrow> memory \<Rightarrow> memory" where
  "vram_point ctl sheetId s bufX bufY m =
     (let y = sh_yStart s + bufY;
          x = sh_xStart s + bufX;
          color = m (px (sh_buf s) (sh_bufXsize s * bufY + bufX))
      in if uint (m (px (ct_zMap ctl) (ct_xsize ctl * y + x))) = int sheetId
         then m(px (ct_vram ctl) (ct_xsize ctl * y + x) := color) else m)"

definition sheet_at :: "SHTCTL \<Rightarrow> int \<Rightarrow> (nat \<times> SHEET) option" where
  "sheet_at ctl z = do { p \<leftarrow> aget (ct_sheets ctl) z; i \<leftarrow> p; s \<leftarrow> get_sheet ctl i; Some (i, s) }"

definition sheet_update_zmap :: "SHTCTL \<Rightarrow> int \<Rightarrow> int \<Rightarrow> int \<Rightarrow> int \<Rightarrow> int \<Rightarrow> memory \<Rightarrow> memory option" where
  "sheet_update_zmap ctl xStart yStart xEnd yEnd zStart m =
     (let r = clip_screen ctl xStart yStart xEnd yEnd
      in fold_opt (\<lambda>z m. do {
           (sheetId, s) \<leftarrow> sheet_at ctl z;
           Some (for_region s r (zmap_point ctl sheetId s) m)
         }) [zStart..ct_zTop ctl] m)"

definition sheet_update_with_screenxy :: "SHTCTL \<Rightarrow> int \<Rightarrow> int \<Rightarrow> int \<Rightarrow> int \<Rightarrow> int \<Rightarrow> int \<Rightarrow> memory \<Rightarrow> memory option" where
  "sheet_update_with_screenxy ctl xStart yStart xEnd yEnd zStart zEnd m =
     (let r = clip_screen ctl xStart yStart xEnd yEnd;
          zEnd = (if zEnd = -1 then ct_zTop ctl else zEnd)
      in fold_opt (\<lambda>z m. do {
           (sheetId, s) \<leftarrow> sheet_at ctl z;
           Some (for_region s r (vram_point ctl sheetId s) m)
         }) [zStart..zEnd] m)"

definition sheet_update_sheet :: "nat \<Rightarrow> int \<Rightarrow> int \<Rightarrow> int \<Rightarrow> int \<Rightarrow> SHTCTL \<Rightarrow> memory \<Rightarrow> memory option" where
  "sheet_update_sheet i xStartInBuf yStartInBuf xEndInBuf yEndInBuf ctl m = do {
     s \<leftarrow> get_sheet ctl i;
     if sh_z s < 0 then Some m
     else sheet_update_with_screenxy ctl (sh_xStart s + xStartInBuf) (sh_yStart s + yStartInBuf)
       (sh_xStart s + xEndInBuf) (sh_yStart s + yEndInBuf) (sh_z s) (sh_z s) m
   }"

definition on_mem :: "(memory \<Rightarrow> memory option) \<Rightarrow> gfx \<Rightarrow> gfx option" where
  "on_mem f g = do { m \<leftarrow> f (mm_mem (gf_mm g)); Some (g\<lparr>gf_mm := (gf_mm g)\<lparr>mm_mem := m\<rparr>\<rparr>) }"

definition v_textbox_update_sheet :: "nat option \<Rightarrow> int \<Rightarrow> int \<Rightarrow> int \<Rightarrow> int \<Rightarrow> gfx \<Rightarrow> gfx option" where
  "v_textbox_update_sheet sheet xStartInTextbox yStartInTextbox xEndInTextbox yEndInTextbox g =
     (case sheet of
        None \<Rightarrow> Some g
      | Some i \<Rightarrow> do {
          s \<leftarrow> get_sheet (gf_ctl g) i;
          if sh_textbox s = 0 then Some g
          else
            (let t = gf_boxes g (sh_textbox s);
                 xStartInBuf = xStartInTextbox + tb_bufXS t;
                 yStartInBuf = yStartInTextbox + tb_bufYS t;
                 xEndInBuf = xEndInTextbox + tb_bufXS t;
                 yEndInBuf = yEndInTextbox + tb_bufYS t;
                 xStartInBuf = (if xStartInBuf > tb_bufXE t then tb_bufXE t else xStartInBuf);
                 yStartInBuf = (if yStartInBuf > tb_bufYE t then tb_bufYE t else yStartInBuf);
                 xEndInBuf = (if xEndInBuf > tb_bufXE t then tb_bufXE t else xEndInBuf);
                 yEndInBuf = (if yEndInBuf > tb_bufYE t then tb_bufYE t else yEndInBuf)
             in on_mem (sheet_update_sheet i xStartInBuf yStartInBuf xEndInBuf yEndInBuf (gf_ctl g)) g)
        })"

text \<open>The redraw of all sheets does not clip.\<close>

definition sheet_update_all :: "SHTCTL \<Rightarrow> memory \<Rightarrow> memory option" where
  "sheet_update_all ctl m =
     fold_opt (\<lambda>z m. do {
       (sheetId, s) \<leftarrow> sheet_at ctl z;
       Some (fold (\<lambda>bufY m. fold (\<lambda>bufX m. vram_point ctl sheetId s bufX bufY m) [0..sh_bufXsize s - 1] m) [0..sh_bufYsize s - 1] m)
     }) [0..ct_zTop ctl] m"

section \<open>The order of the sheets\<close>

definition sheets_move :: "int \<Rightarrow> int \<Rightarrow> SHTCTL \<Rightarrow> SHTCTL option" where
  "sheets_move src z ctl = do {
     p \<leftarrow> aget (ct_sheets ctl) src;
     ss \<leftarrow> aset (ct_sheets ctl) z p;
     i \<leftarrow> p;
     upd_sheet i (\<lambda>s. s\<lparr>sh_z := z\<rparr>) (ctl\<lparr>ct_sheets := ss\<rparr>)
   }"

text \<open>Repaint the area of a sheet: the map from \<open>z1\<close> up, the screen from \<open>z2\<close> to \<open>z3\<close>.\<close>

definition sheet_repaint :: "SHEET \<Rightarrow> int \<Rightarrow> int \<Rightarrow> int \<Rightarrow> SHTCTL \<Rightarrow> memory \<Rightarrow> (SHTCTL \<times> memory) option" where
  "sheet_repaint s z1 z2 z3 ctl m = do {
     m \<leftarrow> sheet_update_zmap ctl (sh_xStart s) (sh_yStart s) (sh_xStart s + sh_bufXsize s) (sh_yStart s + sh_bufYsize s) z1 m;
     m \<leftarrow> sheet_update_with_screenxy ctl (sh_xStart s) (sh_yStart s) (sh_xStart s + sh_bufXsize s)
       (sh_yStart s + sh_bufYsize s) z2 z3 m;
     Some (ctl, m)
   }"

definition normalize_z :: "SHTCTL \<Rightarrow> int \<Rightarrow> int" where
  "normalize_z ctl zNew =
     (let zNew = (if zNew > ct_zTop ctl + 1 then ct_zTop ctl + 1 else zNew)
      in if zNew < -1 then -1 else zNew)"

text \<open>The four kinds of move: hide, show, down and up.\<close>

definition sheet_restack :: "nat \<Rightarrow> SHEET \<Rightarrow> int \<Rightarrow> int \<Rightarrow> SHTCTL \<Rightarrow> memory \<Rightarrow> (SHTCTL \<times> memory) option" where
  "sheet_restack i s zOriginal zNew ctl m =
     (if zNew < 0 then do {
        ctl \<leftarrow> fold_opt (\<lambda>z. sheets_move (z + 1) z) [zOriginal..ct_zTop ctl - 1] ctl;
        sheet_repaint s 0 0 (zOriginal - 1) (ctl\<lparr>ct_zTop := ct_zTop ctl - 1\<rparr>) m
      }
      else if zOriginal < 0 then do {
        ctl \<leftarrow> fold_opt (\<lambda>z. sheets_move (z - 1) z) (rev [zNew + 1..ct_zTop ctl]) ctl;
        ss \<leftarrow> aset (ct_sheets ctl) zNew (Some i);
        sheet_repaint s zNew zNew zNew (ctl\<lparr>ct_sheets := ss, ct_zTop := ct_zTop ctl + 1\<rparr>) m
      }
      else if zOriginal > zNew then do {
        ctl \<leftarrow> fold_opt (\<lambda>z. sheets_move (z - 1) z) (rev [zNew + 1..zOriginal]) ctl;
        ss \<leftarrow> aset (ct_sheets ctl) zNew (Some i);
        sheet_repaint s zNew zNew (zOriginal - 1) (ctl\<lparr>ct_sheets := ss\<rparr>) m
      }
      else do {
        ctl \<leftarrow> fold_opt (\<lambda>z. sheets_move (z + 1) z) [zOriginal..zNew - 1] ctl;
        ss \<leftarrow> aset (ct_sheets ctl) zNew (Some i);
        sheet_repaint s zNew zNew zNew (ctl\<lparr>ct_sheets := ss\<rparr>) m
      })"

definition sheet_updown :: "nat \<Rightarrow> int \<Rightarrow> SHTCTL \<Rightarrow> memory \<Rightarrow> (SHTCTL \<times> memory) option" where
  "sheet_updown i zNew ctl m = do {
     s \<leftarrow> get_sheet ctl i;
     let zOriginal = sh_z s;
     let zNew = normalize_z ctl zNew;
     ctl \<leftarrow> upd_sheet i (\<lambda>s. s\<lparr>sh_z := zNew\<rparr>) ctl;
     if zOriginal = zNew then Some (ctl, m) else sheet_restack i s zOriginal zNew ctl m
   }"

definition sheet_slide :: "nat \<Rightarrow> int \<Rightarrow> int \<Rightarrow> SHTCTL \<Rightarrow> memory \<Rightarrow> (SHTCTL \<times> memory) option" where
  "sheet_slide i xDst yDst ctl m = do {
     s \<leftarrow> get_sheet ctl i;
     let xStart = sh_xStart s;
     let yStart = sh_yStart s;
     ctl \<leftarrow> upd_sheet i (\<lambda>s. s\<lparr>sh_xStart := xDst, sh_yStart := yDst\<rparr>) ctl;
     if sh_z s < 0 then Some (ctl, m)
     else do {
       m \<leftarrow> sheet_update_zmap ctl xStart yStart (xStart + sh_bufXsize s) (yStart + sh_bufYsize s) 0 m;
       m \<leftarrow> sheet_update_zmap ctl xDst yDst (xDst + sh_bufXsize s) (yDst + sh_bufYsize s) (sh_z s) m;
       m \<leftarrow> sheet_update_with_screenxy ctl xStart yStart (xStart + sh_bufXsize s) (yStart + sh_bufYsize s) 0 (sh_z s - 1) m;
       m \<leftarrow> sheet_update_with_screenxy ctl xDst yDst (xDst + sh_bufXsize s) (yDst + sh_bufYsize s) (sh_z s) (sh_z s) m;
       Some (ctl, m)
     }
   }"

text \<open>The calls that change the order or the place of a sheet, on the whole state.\<close>

definition on_sheets :: "(SHTCTL \<Rightarrow> memory \<Rightarrow> (SHTCTL \<times> memory) option) \<Rightarrow> gfx \<Rightarrow> gfx option" where
  "on_sheets f g = do {
     (ctl, m) \<leftarrow> f (gf_ctl g) (mm_mem (gf_mm g));
     Some (g\<lparr>gf_ctl := ctl, gf_mm := (gf_mm g)\<lparr>mm_mem := m\<rparr>\<rparr>)
   }"

definition sheet_free :: "nat \<Rightarrow> gfx \<Rightarrow> gfx option" where
  "sheet_free i g = do {
     g \<leftarrow> sheet_textbox_free (Some i) g;
     s \<leftarrow> get_sheet (gf_ctl g) i;
     g \<leftarrow> (if sh_z s \<ge> 0 then on_sheets (sheet_updown i (-1)) g else Some g);
     ctl \<leftarrow> upd_sheet i (\<lambda>s. s\<lparr>sh_flags := 0\<rparr>) (gf_ctl g);
     Some (g\<lparr>gf_ctl := ctl\<rparr>)
   }"

section \<open>Painting one sheet\<close>

definition covers :: "SHEET \<Rightarrow> int \<Rightarrow> int \<Rightarrow> bool" where
  "covers s x y \<longleftrightarrow> 0 \<le> x - sh_xStart s \<and> x - sh_xStart s < sh_bufXsize s \<and> 0 \<le> y - sh_yStart s \<and> y - sh_yStart s < sh_bufYsize s"

text \<open>The colour a sheet has at a point of the screen it covers.\<close>

definition colour_at :: "memory \<Rightarrow> SHEET \<Rightarrow> int \<Rightarrow> int \<Rightarrow> u8" where
  "colour_at m s x y = pixel m (sh_buf s) (sh_bufXsize s) (x - sh_xStart s) (y - sh_yStart s)"

definition visible_at :: "memory \<Rightarrow> SHEET \<Rightarrow> int \<Rightarrow> int \<Rightarrow> bool" where
  "visible_at m s x y \<longleftrightarrow> covers s x y \<and> uint (colour_at m s x y) \<noteq> sh_color_invisible s"

fun in_area :: "int \<times> int \<times> int \<times> int \<Rightarrow> int \<Rightarrow> int \<Rightarrow> bool" where
  "in_area (x0, y0, x1, y1) x y \<longleftrightarrow> x0 \<le> x \<and> x \<le> x1 \<and> y0 \<le> y \<and> y \<le> y1"

fun on_screen :: "int \<Rightarrow> int \<Rightarrow> int \<times> int \<times> int \<times> int \<Rightarrow> bool" where
  "on_screen xs ys (x0, y0, x1, y1) \<longleftrightarrow> 0 \<le> x0 \<and> x1 < xs \<and> 0 \<le> y0 \<and> y1 < ys"

text \<open>A loop over the part of a sheet in an area, whose body sets at most the point of the screen (or
  the map) it stands for, sets each point according to the state before the loop.\<close>

lemma for_region_writes:
  assumes r: "on_screen xs ys r" "xs * ys \<le> 2 ^ 32"
    and stable: "\<And>cx cy m'. 0 \<le> cx \<Longrightarrow> cx < sh_bufXsize s \<Longrightarrow> 0 \<le> cy \<Longrightarrow> cy < sh_bufYsize s \<Longrightarrow>
      in_area r (sh_xStart s + cx) (sh_yStart s + cy) \<Longrightarrow> within dst (xs * ys) m m' \<Longrightarrow> C cx cy m' = C cx cy m \<and> V cx cy m' = V cx cy m"
    and body: "\<And>cx cy m. body cx cy m =
      (if C cx cy m then m(px dst ((sh_yStart s + cy) * xs + (sh_xStart s + cx)) := V cx cy m) else m)"
  shows "within dst (xs * ys) m (for_region s r body m)"
    and "0 \<le> x \<Longrightarrow> x < xs \<Longrightarrow> 0 \<le> y \<Longrightarrow> y < ys \<Longrightarrow> pixel (for_region s r body m) dst xs x y =
      (if in_area r x y \<and> covers s x y \<and> C (x - sh_xStart s) (y - sh_yStart s) m
       then V (x - sh_xStart s) (y - sh_yStart s) m else pixel m dst xs x y)"
proof -
  obtain x0 y0 x1 y1 where re: "r = (x0, y0, x1, y1)" by (cases r) auto
  let ?X = "[max 0 (x0 - sh_xStart s)..min (x1 - sh_xStart s) (sh_bufXsize s - 1)]"
  let ?Y = "[max 0 (y0 - sh_yStart s)..min (y1 - sh_yStart s) (sh_bufYsize s - 1)]"
  let ?a = "\<lambda>(cx, cy). px dst ((sh_yStart s + cy) * xs + (sh_xStart s + cx))"
  let ?h = "\<lambda>(cx, cy) m. if C cx cy m then V cx cy m else m (?a (cx, cy))"
  let ?v = "\<lambda>i. ?h i m"
  let ?I = "set ?X \<times> set ?Y"
  have I: "(cx, cy) \<in> ?I \<longleftrightarrow> 0 \<le> cx \<and> cx < sh_bufXsize s \<and> 0 \<le> cy \<and> cy < sh_bufYsize s \<and> in_area r (sh_xStart s + cx) (sh_yStart s + cy)"
    for cx cy by (auto simp: re)
  have scr: "0 \<le> sh_xStart s + cx" "sh_xStart s + cx < xs" "0 \<le> sh_yStart s + cy" "sh_yStart s + cy < ys" if "(cx, cy) \<in> ?I" for cx cy
    using that r(1) unfolding I by (auto simp: re)
  have F: "for_region s r body m = fold (\<lambda>i m. m(?a i := ?h i m)) (points ?X ?Y) m"
  proof -
    have "for_region s r body m = fold (\<lambda>cy m. fold (\<lambda>cx m. body cx cy m) ?X m) ?Y m"
      unfolding for_region_def re by (auto simp: max_def min_def Let_def not_le not_less)
    moreover have "(\<lambda>(cx, cy) m. body cx cy m) = (\<lambda>i m. m(?a i := ?h i m))"
      by (auto simp: body fun_eq_iff)
    ultimately show ?thesis by (simp only: fold_points)
  qed
  have inj: "inj_on ?a ?I"
  proof (rule inj_onI, clarify)
    fix cx cy cx' cy' assume p: "cx \<in> set ?X" "cy \<in> set ?Y" "cx' \<in> set ?X" "cy' \<in> set ?Y"
      "px dst ((sh_yStart s + cy) * xs + (sh_xStart s + cx)) = px dst ((sh_yStart s + cy') * xs + (sh_xStart s + cx'))"
    have i: "(cx, cy) \<in> ?I" "(cx', cy') \<in> ?I" using p by blast+
    show "cx = cx' \<and> cy = cy'" using p(5) pixel_px_inj [OF scr [OF i(1)] scr [OF i(2)] r(2)] by simp
  qed
  have sub: "?a ` ?I \<subseteq> px dst ` {0..<xs * ys}" using scr px_in_screen by fastforce
  have W: "(\<forall>i\<in>set (points ?X ?Y). for_region s r body m (?a i) = ?v i) \<and>
      (\<forall>p. p \<notin> ?a ` set (points ?X ?Y) \<longrightarrow> for_region s r body m p = m p)"
    unfolding F
  proof (rule fold_write_once [OF inj])
    fix i m' assume i: "i \<in> ?I" "\<forall>p. p \<notin> ?a ` (?I - {i}) \<longrightarrow> m' p = m p"
    obtain cx cy where ib: "i = (cx, cy)" by (cases i) auto
    have "within dst (xs * ys) m m'" unfolding within_def using i(2) sub by blast
    then have "C cx cy m' = C cx cy m \<and> V cx cy m' = V cx cy m" using stable i(1) unfolding ib I by blast
    moreover have "?a i \<notin> ?a ` (?I - {i})" using inj i(1) by (simp add: inj_on_image_mem_iff)
    then have "m' (?a i) = m (?a i)" using i(2) by blast
    ultimately show "?h i m' = ?v i" by (simp add: ib)
  qed (simp_all add: set_points distinct_points)
  then have W1: "for_region s r body m (?a i) = ?v i" if "i \<in> ?I" for i using that by (simp only: set_points)
  have W2: "for_region s r body m p = m p" if "p \<notin> ?a ` ?I" for p using that W by (simp only: set_points) blast
  show "within dst (xs * ys) m (for_region s r body m)" unfolding within_def using W2 sub by blast
  assume xy: "0 \<le> x" "x < xs" "0 \<le> y" "y < ys"
  let ?b = "(x - sh_xStart s, y - sh_yStart s)"
  have bI: "?b \<in> ?I \<longleftrightarrow> in_area r x y \<and> covers s x y" unfolding I covers_def by auto
  show "pixel (for_region s r body m) dst xs x y =
      (if in_area r x y \<and> covers s x y \<and> C (x - sh_xStart s) (y - sh_yStart s) m
       then V (x - sh_xStart s) (y - sh_yStart s) m else pixel m dst xs x y)"
  proof (cases "?b \<in> ?I")
    case True
    then show ?thesis using W1 [OF True] bI by (simp add: pixel_def)
  next
    case False
    have "px dst (y * xs + x) \<notin> ?a ` ?I"
    proof
      assume "px dst (y * xs + x) \<in> ?a ` ?I"
      then obtain cx cy where b: "(cx, cy) \<in> ?I" "px dst (y * xs + x) = px dst ((sh_yStart s + cy) * xs + (sh_xStart s + cx))"
        by auto
      have "x = sh_xStart s + cx \<and> y = sh_yStart s + cy" using b(2) pixel_px_inj [OF xy scr [OF b(1)] r(2)] by simp
      then show False using False b(1) by simp
    qed
    then show ?thesis using W2 bI False by (auto simp: pixel_def)
  qed
qed

section \<open>The painter's algorithm\<close>

text \<open>The buffer of a sheet lies outside a screen-sized block of memory.\<close>

definition buf_apart :: "u32 \<Rightarrow> int \<Rightarrow> SHEET \<Rightarrow> bool" where
  "buf_apart dst n s \<longleftrightarrow>
     (\<forall>bx b_y. 0 \<le> bx \<longrightarrow> bx < sh_bufXsize s \<longrightarrow> 0 \<le> b_y \<longrightarrow> b_y < sh_bufYsize s \<longrightarrow>
        px (sh_buf s) (b_y * sh_bufXsize s + bx) \<notin> px dst ` {0..<n})"

lemma buf_within:
  assumes "within dst n m m'" "buf_apart dst n s" "0 \<le> bx" "bx < sh_bufXsize s" "0 \<le> b_y" "b_y < sh_bufYsize s"
  shows "m' (px (sh_buf s) (b_y * sh_bufXsize s + bx)) = m (px (sh_buf s) (b_y * sh_bufXsize s + bx))"
  using assms unfolding within_def buf_apart_def by blast

lemma colour_at_within: "within dst n m m' \<Longrightarrow> buf_apart dst n s \<Longrightarrow> covers s x y \<Longrightarrow> colour_at m' s x y = colour_at m s x y"
  by (simp add: covers_def colour_at_def pixel_def buf_within)

lemma visible_at_within: "within dst n m m' \<Longrightarrow> buf_apart dst n s \<Longrightarrow> visible_at m' s x y = visible_at m s x y"
  by (auto simp: visible_at_def colour_at_within)

definition zmap_sheet :: "SHTCTL \<Rightarrow> int \<times> int \<times> int \<times> int \<Rightarrow> nat \<times> SHEET \<Rightarrow> memory \<Rightarrow> memory" where
  "zmap_sheet ctl r is m = for_region (snd is) r (zmap_point ctl (fst is) (snd is)) m"

definition vram_sheet :: "SHTCTL \<Rightarrow> int \<times> int \<times> int \<times> int \<Rightarrow> nat \<times> SHEET \<Rightarrow> memory \<Rightarrow> memory" where
  "vram_sheet ctl r is m = for_region (snd is) r (vram_point ctl (fst is) (snd is)) m"

text \<open>A screen that fits the memory, with a map that does not share memory with it.\<close>

definition screen_ok :: "SHTCTL \<Rightarrow> bool" where
  "screen_ok ctl \<longleftrightarrow> 0 < ct_xsize ctl \<and> 0 < ct_ysize ctl \<and> ct_xsize ctl * ct_ysize ctl \<le> 2 ^ 32 \<and>
     px (ct_zMap ctl) ` {0..<ct_xsize ctl * ct_ysize ctl} \<inter> px (ct_vram ctl) ` {0..<ct_xsize ctl * ct_ysize ctl} = {}"

lemma screen_okD:
  assumes "screen_ok ctl"
  shows "0 < ct_xsize ctl" "0 < ct_ysize ctl" "ct_xsize ctl * ct_ysize ctl \<le> 2 ^ 32"
  using assms by (simp_all add: screen_ok_def)

lemma zmap_pixel_within_vram:
  assumes "screen_ok ctl" "within (ct_vram ctl) (ct_xsize ctl * ct_ysize ctl) m m'"
    and "0 \<le> x" "x < ct_xsize ctl" "0 \<le> y" "y < ct_ysize ctl"
  shows "pixel m' (ct_zMap ctl) (ct_xsize ctl) x y = pixel m (ct_zMap ctl) (ct_xsize ctl) x y"
  using px_in_screen [OF assms(3-6), of "ct_zMap ctl"] assms(1,2) unfolding pixel_def within_def screen_ok_def by blast

lemma zmap_sheet_paints:
  assumes "screen_ok ctl" "on_screen (ct_xsize ctl) (ct_ysize ctl) r" "buf_apart (ct_zMap ctl) (ct_xsize ctl * ct_ysize ctl) (snd is)"
  shows "within (ct_zMap ctl) (ct_xsize ctl * ct_ysize ctl) m (zmap_sheet ctl r is m)"
    and "0 \<le> x \<Longrightarrow> x < ct_xsize ctl \<Longrightarrow> 0 \<le> y \<Longrightarrow> y < ct_ysize ctl \<Longrightarrow>
      pixel (zmap_sheet ctl r is m) (ct_zMap ctl) (ct_xsize ctl) x y =
      (if in_area r x y \<and> visible_at m (snd is) x y then of_nat (fst is) else pixel m (ct_zMap ctl) (ct_xsize ctl) x y)"
proof -
  let ?s = "snd is"
  let ?C = "\<lambda>bx b_y m. uint (m (px (sh_buf ?s) (b_y * sh_bufXsize ?s + bx))) \<noteq> sh_color_invisible ?s"
  have st: "?C bx b_y m' = ?C bx b_y m" if "0 \<le> bx" "bx < sh_bufXsize ?s" "0 \<le> b_y" "b_y < sh_bufYsize ?s"
    "within (ct_zMap ctl) (ct_xsize ctl * ct_ysize ctl) m m'" for bx b_y m'
    using buf_within [OF that(5) assms(3) that(1-4)] by simp
  have b: "zmap_point ctl (fst is) ?s bx b_y m =
      (if ?C bx b_y m then m(px (ct_zMap ctl) ((sh_yStart ?s + b_y) * ct_xsize ctl + (sh_xStart ?s + bx)) := of_nat (fst is)) else m)"
    for bx b_y m by (simp add: zmap_point_def Let_def mult.commute)
  note w = for_region_writes [OF assms(2) screen_okD(3) [OF assms(1)], of ?s "ct_zMap ctl" m ?C "\<lambda>_ _ _. of_nat (fst is)",
      OF _ b]
  show "within (ct_zMap ctl) (ct_xsize ctl * ct_ysize ctl) m (zmap_sheet ctl r is m)"
    unfolding zmap_sheet_def by (rule w(1)) (use st in blast)
  assume xy: "0 \<le> x" "x < ct_xsize ctl" "0 \<le> y" "y < ct_ysize ctl"
  have "pixel (zmap_sheet ctl r is m) (ct_zMap ctl) (ct_xsize ctl) x y =
    (if in_area r x y \<and> covers ?s x y \<and> ?C (x - sh_xStart ?s) (y - sh_yStart ?s) m then of_nat (fst is)
     else pixel m (ct_zMap ctl) (ct_xsize ctl) x y)"
    unfolding zmap_sheet_def by (rule w(2)) (use st xy in blast)+
  then show "pixel (zmap_sheet ctl r is m) (ct_zMap ctl) (ct_xsize ctl) x y =
      (if in_area r x y \<and> visible_at m ?s x y then of_nat (fst is) else pixel m (ct_zMap ctl) (ct_xsize ctl) x y)"
    by (simp add: visible_at_def colour_at_def pixel_def)
qed

lemma vram_sheet_paints:
  assumes "screen_ok ctl" "on_screen (ct_xsize ctl) (ct_ysize ctl) r" "buf_apart (ct_vram ctl) (ct_xsize ctl * ct_ysize ctl) (snd is)"
  shows "within (ct_vram ctl) (ct_xsize ctl * ct_ysize ctl) m (vram_sheet ctl r is m)"
    and "0 \<le> x \<Longrightarrow> x < ct_xsize ctl \<Longrightarrow> 0 \<le> y \<Longrightarrow> y < ct_ysize ctl \<Longrightarrow>
      pixel (vram_sheet ctl r is m) (ct_vram ctl) (ct_xsize ctl) x y =
      (if in_area r x y \<and> covers (snd is) x y \<and> uint (pixel m (ct_zMap ctl) (ct_xsize ctl) x y) = int (fst is)
       then colour_at m (snd is) x y else pixel m (ct_vram ctl) (ct_xsize ctl) x y)"
proof -
  let ?s = "snd is"
  let ?C = "\<lambda>bx b_y m. uint (pixel m (ct_zMap ctl) (ct_xsize ctl) (sh_xStart ?s + bx) (sh_yStart ?s + b_y)) = int (fst is)"
  let ?V = "\<lambda>bx b_y m. m (px (sh_buf ?s) (b_y * sh_bufXsize ?s + bx))"
  obtain x0 y0 x1 y1 where re: "r = (x0, y0, x1, y1)" by (cases r) auto
  have st: "?C bx b_y m' = ?C bx b_y m \<and> ?V bx b_y m' = ?V bx b_y m"
    if b: "0 \<le> bx" "bx < sh_bufXsize ?s" "0 \<le> b_y" "b_y < sh_bufYsize ?s" "in_area r (sh_xStart ?s + bx) (sh_yStart ?s + b_y)"
      and w: "within (ct_vram ctl) (ct_xsize ctl * ct_ysize ctl) m m'" for bx b_y m'
  proof -
    have "?V bx b_y m' = ?V bx b_y m" using buf_within [OF w assms(3) b(1-4)] by simp
    moreover have "0 \<le> sh_xStart ?s + bx" "sh_xStart ?s + bx < ct_xsize ctl" "0 \<le> sh_yStart ?s + b_y" "sh_yStart ?s + b_y < ct_ysize ctl"
      using b(5) assms(2) by (auto simp: re)
    note zmap_pixel_within_vram [OF assms(1) w this]
    ultimately show ?thesis by simp
  qed
  have b: "vram_point ctl (fst is) ?s bx b_y m =
      (if ?C bx b_y m then m(px (ct_vram ctl) ((sh_yStart ?s + b_y) * ct_xsize ctl + (sh_xStart ?s + bx)) := ?V bx b_y m) else m)"
    for bx b_y m by (simp add: vram_point_def Let_def mult.commute pixel_def)
  note w = for_region_writes [OF assms(2) screen_okD(3) [OF assms(1)], of ?s "ct_vram ctl" m ?C ?V, OF _ b]
  show "within (ct_vram ctl) (ct_xsize ctl * ct_ysize ctl) m (vram_sheet ctl r is m)"
    unfolding vram_sheet_def by (rule w(1)) (use st in blast)
  assume xy: "0 \<le> x" "x < ct_xsize ctl" "0 \<le> y" "y < ct_ysize ctl"
  have "pixel (vram_sheet ctl r is m) (ct_vram ctl) (ct_xsize ctl) x y =
    (if in_area r x y \<and> covers ?s x y \<and> ?C (x - sh_xStart ?s) (y - sh_yStart ?s) m then ?V (x - sh_xStart ?s) (y - sh_yStart ?s) m
     else pixel m (ct_vram ctl) (ct_xsize ctl) x y)"
    unfolding vram_sheet_def by (rule w(2)) (use st xy in blast)+
  then show "pixel (vram_sheet ctl r is m) (ct_vram ctl) (ct_xsize ctl) x y =
      (if in_area r x y \<and> covers ?s x y \<and> uint (pixel m (ct_zMap ctl) (ct_xsize ctl) x y) = int (fst is)
       then colour_at m ?s x y else pixel m (ct_vram ctl) (ct_xsize ctl) x y)"
    by (simp add: colour_at_def pixel_def)
qed

lemma zmap_fold:
  assumes "screen_ok ctl" "on_screen (ct_xsize ctl) (ct_ysize ctl) r"
    and "\<forall>is\<in>set S. buf_apart (ct_zMap ctl) (ct_xsize ctl * ct_ysize ctl) (snd is)"
    and "0 \<le> x" "x < ct_xsize ctl" "0 \<le> y" "y < ct_ysize ctl" "in_area r x y"
  shows "within (ct_zMap ctl) (ct_xsize ctl * ct_ysize ctl) m (fold (zmap_sheet ctl r) S m) \<and>
    pixel (fold (zmap_sheet ctl r) S m) (ct_zMap ctl) (ct_xsize ctl) x y =
      (case find (\<lambda>is. visible_at m (snd is) x y) (rev S) of
         Some is \<Rightarrow> of_nat (fst is) | None \<Rightarrow> pixel m (ct_zMap ctl) (ct_xsize ctl) x y)"
  using assms(3)
proof (induction S rule: rev_induct)
  case (snoc a S)
  let ?m = "fold (zmap_sheet ctl r) S m"
  have IH: "within (ct_zMap ctl) (ct_xsize ctl * ct_ysize ctl) m ?m"
    "pixel ?m (ct_zMap ctl) (ct_xsize ctl) x y =
      (case find (\<lambda>is. visible_at m (snd is) x y) (rev S) of
         Some is \<Rightarrow> of_nat (fst is) | None \<Rightarrow> pixel m (ct_zMap ctl) (ct_xsize ctl) x y)"
    using snoc by simp_all
  have a: "buf_apart (ct_zMap ctl) (ct_xsize ctl * ct_ysize ctl) (snd a)" using snoc.prems by simp
  note z = zmap_sheet_paints [OF assms(1,2) a, where m = ?m]
  show ?case using within_trans [OF IH(1) z(1)] z(2) [OF assms(4-7)] IH(2) visible_at_within [OF IH(1) a] assms(8) by simp
qed simp

lemma vram_fold:
  assumes "screen_ok ctl" "on_screen (ct_xsize ctl) (ct_ysize ctl) r"
    and "\<forall>is\<in>set S. buf_apart (ct_vram ctl) (ct_xsize ctl * ct_ysize ctl) (snd is)" "distinct (map fst S)"
    and "0 \<le> x" "x < ct_xsize ctl" "0 \<le> y" "y < ct_ysize ctl" "in_area r x y"
  shows "within (ct_vram ctl) (ct_xsize ctl * ct_ysize ctl) m (fold (vram_sheet ctl r) S m) \<and>
    pixel (fold (vram_sheet ctl r) S m) (ct_vram ctl) (ct_xsize ctl) x y =
      (case find (\<lambda>is. covers (snd is) x y \<and> uint (pixel m (ct_zMap ctl) (ct_xsize ctl) x y) = int (fst is)) (rev S) of
         Some is \<Rightarrow> colour_at m (snd is) x y | None \<Rightarrow> pixel m (ct_vram ctl) (ct_xsize ctl) x y)"
  using assms(3,4)
proof (induction S rule: rev_induct)
  case (snoc a S)
  let ?m = "fold (vram_sheet ctl r) S m"
  have IH: "within (ct_vram ctl) (ct_xsize ctl * ct_ysize ctl) m ?m"
    "pixel ?m (ct_vram ctl) (ct_xsize ctl) x y =
      (case find (\<lambda>is. covers (snd is) x y \<and> uint (pixel m (ct_zMap ctl) (ct_xsize ctl) x y) = int (fst is)) (rev S) of
         Some is \<Rightarrow> colour_at m (snd is) x y | None \<Rightarrow> pixel m (ct_vram ctl) (ct_xsize ctl) x y)"
    using snoc by simp_all
  have a: "buf_apart (ct_vram ctl) (ct_xsize ctl * ct_ysize ctl) (snd a)" using snoc.prems by simp
  note z = vram_sheet_paints [OF assms(1,2) a, where m = ?m]
  show ?case
    using within_trans [OF IH(1) z(1)] z(2) [OF assms(5-8)] IH(2) colour_at_within [OF IH(1) a]
      zmap_pixel_within_vram [OF assms(1) IH(1) assms(5-8)] assms(9) by simp
qed simp

section \<open>The stack of sheets\<close>

text \<open>\<open>L\<close> lists the shown sheets from the bottom to the top.\<close>

definition stack_rep :: "SHTCTL \<Rightarrow> nat list \<Rightarrow> bool" where
  "stack_rep ctl L \<longleftrightarrow> length (ct_sheets ctl) = 256 \<and> length (ct_sheet0 ctl) = 256 \<and> length L \<le> 256 \<and> distinct L \<and>
     ct_zTop ctl = int (length L) - 1 \<and>
     (\<forall>k<length L. L ! k < 256 \<and> ct_sheets ctl ! k = Some (L ! k) \<and> sh_z (ct_sheet0 ctl ! (L ! k)) = int k) \<and>
     (\<forall>i<256. sh_flags (ct_sheet0 ctl ! i) \<noteq> 0 \<longrightarrow> i \<notin> set L \<longrightarrow> sh_z (ct_sheet0 ctl ! i) = -1)"

lemma stack_repD:
  assumes "stack_rep ctl L"
  shows "length (ct_sheets ctl) = 256" "length (ct_sheet0 ctl) = 256" "length L \<le> 256" "distinct L"
    "ct_zTop ctl = int (length L) - 1" "k < length L \<Longrightarrow> L ! k < 256" "k < length L \<Longrightarrow> ct_sheets ctl ! k = Some (L ! k)"
    "k < length L \<Longrightarrow> sh_z (ct_sheet0 ctl ! (L ! k)) = int k"
    "i < 256 \<Longrightarrow> sh_flags (ct_sheet0 ctl ! i) \<noteq> 0 \<Longrightarrow> i \<notin> set L \<Longrightarrow> sh_z (ct_sheet0 ctl ! i) = -1"
  using assms by (simp_all add: stack_rep_def)

lemma stack_rep_index: "stack_rep ctl L \<Longrightarrow> i \<in> set L \<Longrightarrow> i < 256"
  by (metis in_set_conv_nth stack_repD(6))

definition the_sheet :: "SHTCTL \<Rightarrow> nat \<Rightarrow> nat \<times> SHEET" where
  "the_sheet ctl i = (i, ct_sheet0 ctl ! i)"

lemma sheet_at_stack:
  assumes "stack_rep ctl L" "0 \<le> z" "z < int (length L)"
  shows "sheet_at ctl z = Some (the_sheet ctl (L ! nat z))"
proof -
  note D = stack_repD [OF assms(1)]
  have k: "nat z < length L" using assms by auto
  have "z < int (length (ct_sheets ctl))" using k D(1,3) by simp
  then show ?thesis
    using D(6,7) [OF k] D(2) assms(2) by (simp add: sheet_at_def get_sheet_def the_sheet_def aget_in)
qed

lemma upto_stack: "0 \<le> a \<Longrightarrow> a \<le> int (length L) \<Longrightarrow> b \<le> int (length L) \<Longrightarrow>
    map (\<lambda>z. L ! nat z) [a..b - 1] = take (nat b - nat a) (drop (nat a) L)"
proof (rule nth_equalityI)
  assume a: "0 \<le> a" "a \<le> int (length L)" "b \<le> int (length L)"
  then show l: "length (map (\<lambda>z. L ! nat z) [a..b - 1]) = length (take (nat b - nat a) (drop (nat a) L))" by auto
  fix k assume "k < length (map (\<lambda>z. L ! nat z) [a..b - 1])"
  then have "k < nat (b - a)" by simp
  then show "map (\<lambda>z. L ! nat z) [a..b - 1] ! k = take (nat b - nat a) (drop (nat a) L) ! k"
    using a by (simp add: nth_upto nat_add_distrib)
qed

lemma sheet_update_zmap_fold:
  assumes "stack_rep ctl L" "0 \<le> z" "z \<le> int (length L)"
  shows "sheet_update_zmap ctl x0 y0 x1 y1 z m =
    Some (fold (zmap_sheet ctl (clip_screen ctl x0 y0 x1 y1)) (map (the_sheet ctl) (drop (nat z) L)) m)"
proof -
  let ?r = "clip_screen ctl x0 y0 x1 y1"
  have "sheet_update_zmap ctl x0 y0 x1 y1 z m =
      Some (fold (\<lambda>z. zmap_sheet ctl ?r (the_sheet ctl (L ! nat z))) [z..int (length L) - 1] m)"
    unfolding sheet_update_zmap_def Let_def stack_repD(5) [OF assms(1)]
    by (rule fold_opt_fold) (use assms in \<open>auto simp: sheet_at_stack [OF assms(1)] zmap_sheet_def the_sheet_def\<close>)
  also have "fold (\<lambda>z. zmap_sheet ctl ?r (the_sheet ctl (L ! nat z))) [z..int (length L) - 1] m =
      fold (zmap_sheet ctl ?r) (map (the_sheet ctl) (map (\<lambda>z. L ! nat z) [z..int (length L) - 1])) m"
    by (simp add: fold_map comp_def)
  finally show ?thesis using assms(2,3) by (simp only: upto_stack) simp
qed

lemma sheet_update_with_screenxy_fold:
  assumes "stack_rep ctl L" "0 \<le> z" "z \<le> int (length L)" "z' < int (length L)"
  shows "sheet_update_with_screenxy ctl x0 y0 x1 y1 z z' m =
    Some (fold (vram_sheet ctl (clip_screen ctl x0 y0 x1 y1))
      (map (the_sheet ctl) (take ((if z' = -1 then length L else nat (z' + 1)) - nat z) (drop (nat z) L))) m)"
proof -
  let ?r = "clip_screen ctl x0 y0 x1 y1" and ?e = "(if z' = -1 then int (length L) else z' + 1)"
  have e: "(if z' = -1 then ct_zTop ctl else z') = ?e - 1" using stack_repD(5) [OF assms(1)] by simp
  have "sheet_update_with_screenxy ctl x0 y0 x1 y1 z z' m =
      Some (fold (\<lambda>z. vram_sheet ctl ?r (the_sheet ctl (L ! nat z))) [z..?e - 1] m)"
    unfolding sheet_update_with_screenxy_def Let_def e
    by (rule fold_opt_fold)
      (use assms in \<open>auto simp: sheet_at_stack [OF assms(1)] vram_sheet_def the_sheet_def split: if_splits\<close>)
  also have "fold (\<lambda>z. vram_sheet ctl ?r (the_sheet ctl (L ! nat z))) [z..?e - 1] m =
      fold (vram_sheet ctl ?r) (map (the_sheet ctl) (map (\<lambda>z. L ! nat z) [z..?e - 1])) m"
    by (simp add: fold_map comp_def)
  also have "map (\<lambda>z. L ! nat z) [z..?e - 1] = take (nat ?e - nat z) (drop (nat z) L)"
    using assms by (intro upto_stack) auto
  finally show ?thesis by (simp split: if_splits)
qed

lemma clip_screen_on:
  assumes "screen_ok ctl"
  shows "on_screen (ct_xsize ctl) (ct_ysize ctl) (clip_screen ctl x0 y0 x1 y1)"
    "in_area (clip_screen ctl x0 y0 x1 y1) x y \<longleftrightarrow>
      clamp (ct_xsize ctl) (x0 - 1) \<le> x \<and> x \<le> clamp (ct_xsize ctl) (x1 + 1) \<and>
      clamp (ct_ysize ctl) (y0 - 1) \<le> y \<and> y \<le> clamp (ct_ysize ctl) (y1 + 1)"
  using screen_okD [OF assms] by (auto simp: clip_screen_def clamp_def Let_def)

lemma in_area_clip:
  assumes "0 \<le> x" "x < ct_xsize ctl" "0 \<le> y" "y < ct_ysize ctl" "x0 - 1 \<le> x" "x \<le> x1 + 1" "y0 - 1 \<le> y" "y \<le> y1 + 1"
  shows "in_area (clip_screen ctl x0 y0 x1 y1) x y"
  using assms by (auto simp: clip_screen_def clamp_def Let_def)

lemma find_map_option: "find P (map f xs) = map_option f (find (\<lambda>x. P (f x)) xs)"
  by (induction xs) simp_all

definition bufs_ok :: "SHTCTL \<Rightarrow> nat list \<Rightarrow> bool" where
  "bufs_ok ctl L \<longleftrightarrow> (\<forall>i\<in>set L. buf_apart (ct_zMap ctl) (ct_xsize ctl * ct_ysize ctl) (ct_sheet0 ctl ! i) \<and>
     buf_apart (ct_vram ctl) (ct_xsize ctl * ct_ysize ctl) (ct_sheet0 ctl ! i))"

definition top_sheet :: "SHTCTL \<Rightarrow> nat list \<Rightarrow> memory \<Rightarrow> int \<Rightarrow> int \<Rightarrow> nat option" where
  "top_sheet ctl L m x y = find (\<lambda>i. visible_at m (ct_sheet0 ctl ! i) x y) (rev L)"


lemma buf_apartI:
  assumes "list_all (\<lambda>k. list_all (\<lambda>j. px (sh_buf s) k \<noteq> px dst j) [0..n - 1]) [0..sh_bufXsize s * sh_bufYsize s - 1]"
  shows "buf_apart dst n s"
  unfolding buf_apart_def
proof clarify
  fix bx b_y j assume b: "0 \<le> bx" "bx < sh_bufXsize s" "0 \<le> b_y" "b_y < sh_bufYsize s"
    and j: "j \<in> {0..<n}" "px (sh_buf s) (b_y * sh_bufXsize s + bx) = px dst j"
  have "b_y * sh_bufXsize s + bx \<in> set [0..sh_bufXsize s * sh_bufYsize s - 1]" using pixel_index [OF b] by simp
  moreover have "j \<in> set [0..n - 1]" using j(1) by simp
  ultimately show False using assms j(2) unfolding list_all_iff by blast
qed

definition ex_sheet :: "u32 \<Rightarrow> int \<Rightarrow> int \<Rightarrow> int \<Rightarrow> SHEET" where
  "ex_sheet buf n pos z = sheet_zero\<lparr>sh_buf := buf, sh_bufXsize := n, sh_bufYsize := n, sh_xStart := pos, sh_yStart := pos,
     sh_color_invisible := 99, sh_z := z, sh_flags := SHEET_IN_USE\<rparr>"

definition ex_ctl :: SHTCTL where
  "ex_ctl = \<lparr>ct_vram = 0x100, ct_zMap = 0x200, ct_xsize = 2, ct_ysize = 2, ct_zTop = 1,
     ct_sheets = Some 0 # Some 1 # replicate 254 None,
     ct_sheet0 = ex_sheet 0x300 2 0 0 # ex_sheet 0x400 1 1 1 # ex_sheet 0x500 1 0 (-1) # replicate 253 sheet_zero\<rparr>"

lemma ex_ctl_ok: "stack_rep ex_ctl [0, 1]" "screen_ok ex_ctl" "bufs_ok ex_ctl [0, 1]"
proof -
  have "sh_z (ct_sheet0 ex_ctl ! i) = -1" if "i < 256" "sh_flags (ct_sheet0 ex_ctl ! i) \<noteq> 0" "i \<notin> {0, 1}" for i
    using that by (cases "i = 2") (auto simp: ex_ctl_def nth_Cons' sheet_zero_def ex_sheet_def)
  then show "stack_rep ex_ctl [0, 1]"
    by (auto simp: stack_rep_def ex_ctl_def ex_sheet_def sheet_zero_def less_Suc_eq)
  have r: "{0..<4} = {0, 1, 2, 3 :: int}" by auto
  show "screen_ok ex_ctl" by (simp add: screen_ok_def ex_ctl_def px_def r)
  have u: "[0..3] = [0, 1, 2, 3 :: int]" by (simp add: upto.simps)
  have "buf_apart v 4 (ex_sheet 0x300 2 0 0)" "buf_apart v 4 (ex_sheet 0x400 1 1 1)" if "v \<in> {0x100, 0x200}" for v
    using that by (auto intro!: buf_apartI simp: ex_sheet_def px_def u)
  then show "bufs_ok ex_ctl [0, 1]" by (simp add: bufs_ok_def ex_ctl_def)
qed


section \<open>Moving a sheet in the stack\<close>

text \<open>
  A stack with one position free, the state in the middle of a move of sheet \<open>i\<close>: \<open>R\<close> lists the other
  shown sheets, of which those from position \<open>a\<close> on stand one position higher.
\<close>

definition slot :: "nat \<Rightarrow> nat \<Rightarrow> nat" where
  "slot a k = (if k < a then k else Suc k)"

definition hole :: "SHTCTL \<Rightarrow> nat list \<Rightarrow> nat \<Rightarrow> nat \<Rightarrow> bool" where
  "hole ctl R a i \<longleftrightarrow> length (ct_sheets ctl) = 256 \<and> length (ct_sheet0 ctl) = 256 \<and> length R < 256 \<and> a \<le> length R \<and>
     distinct (i # R) \<and> i < 256 \<and>
     (\<forall>k<length R. R ! k < 256 \<and> ct_sheets ctl ! slot a k = Some (R ! k) \<and> sh_z (ct_sheet0 ctl ! (R ! k)) = int (slot a k)) \<and>
     (\<forall>j<256. sh_flags (ct_sheet0 ctl ! j) \<noteq> 0 \<longrightarrow> j \<notin> set (i # R) \<longrightarrow> sh_z (ct_sheet0 ctl ! j) = -1)"

text \<open>What a move leaves alone: everything but the order and the heights.\<close>

definition same_sheets :: "SHTCTL \<Rightarrow> SHTCTL \<Rightarrow> bool" where
  "same_sheets ctl ctl' \<longleftrightarrow> map (sh_z_update (\<lambda>_. 0)) (ct_sheet0 ctl') = map (sh_z_update (\<lambda>_. 0)) (ct_sheet0 ctl) \<and>
     ct_vram ctl' = ct_vram ctl \<and> ct_zMap ctl' = ct_zMap ctl \<and> ct_xsize ctl' = ct_xsize ctl \<and> ct_ysize ctl' = ct_ysize ctl"

lemma same_sheets_refl [simp]: "same_sheets ctl ctl"
  by (simp add: same_sheets_def)

lemma same_sheets_trans: "same_sheets a b \<Longrightarrow> same_sheets b c \<Longrightarrow> same_sheets a c"
  by (simp add: same_sheets_def)

lemma same_sheets_z: "same_sheets ctl (ctl\<lparr>ct_sheets := ss, ct_sheet0 := (ct_sheet0 ctl)[i := (ct_sheet0 ctl ! i)\<lparr>sh_z := z\<rparr>]\<rparr>)"
proof (cases "i < length (ct_sheet0 ctl)")
  case True
  then show ?thesis by (simp add: same_sheets_def map_update list_update_same_conv)
qed (simp add: same_sheets_def list_update_beyond)

lemma sheets_move_eq:
  assumes "length (ct_sheets ctl) = 256" "length (ct_sheet0 ctl) = 256" "src < 256" "z < 256" "ct_sheets ctl ! src = Some j" "j < 256"
  shows "sheets_move (int src) (int z) ctl =
    Some (ctl\<lparr>ct_sheets := (ct_sheets ctl)[z := Some j], ct_sheet0 := (ct_sheet0 ctl)[j := (ct_sheet0 ctl ! j)\<lparr>sh_z := int z\<rparr>]\<rparr>)"
  using assms by (simp add: sheets_move_def upd_sheet_def get_sheet_def aget_in aset_in)

lemma hole_down:
  assumes "hole ctl R a i" "a < length R"
  shows "\<exists>ctl'. sheets_move (int a + 1) (int a) ctl = Some ctl' \<and> hole ctl' R (Suc a) i \<and> same_sheets ctl ctl' \<and>
    ct_zTop ctl' = ct_zTop ctl \<and> sh_z (ct_sheet0 ctl' ! i) = sh_z (ct_sheet0 ctl ! i)"
proof -
  have l: "length (ct_sheets ctl) = 256" "length (ct_sheet0 ctl) = 256" "length R < 256" "R ! a < 256"
    "ct_sheets ctl ! Suc a = Some (R ! a)" "R ! a \<noteq> i"
    using assms nth_mem [OF assms(2)] by (auto simp: hole_def slot_def)
  let ?c = "ctl\<lparr>ct_sheets := (ct_sheets ctl)[a := Some (R ! a)],
    ct_sheet0 := (ct_sheet0 ctl)[R ! a := (ct_sheet0 ctl ! (R ! a))\<lparr>sh_z := int a\<rparr>]\<rparr>"
  have "sheets_move (int (Suc a)) (int a) ctl = Some ?c" using l assms(2) by (intro sheets_move_eq) simp_all
  then have m: "sheets_move (int a + 1) (int a) ctl = Some ?c" by (simp add: add.commute)
  have "hole ?c R (Suc a) i"
    unfolding hole_def
  proof (intro conjI allI impI)
    fix k assume k: "k < length R"
    then have r: "R ! k < 256" "ct_sheets ctl ! slot a k = Some (R ! k)" "sh_z (ct_sheet0 ctl ! (R ! k)) = int (slot a k)" "distinct R"
      using assms(1) by (auto simp: hole_def)
    show "R ! k < 256" by (rule r)
    have ne: "R ! a \<noteq> R ! k" if "k \<noteq> a" using r(4) k assms(2) that by (simp add: nth_eq_iff_index_eq)
    show "ct_sheets ?c ! slot (Suc a) k = Some (R ! k)" "sh_z (ct_sheet0 ?c ! (R ! k)) = int (slot (Suc a) k)"
      using r l k ne assms(2) by (cases "k = a"; auto simp: slot_def nth_list_update)+
  next
    fix j assume "j < 256" "sh_flags (ct_sheet0 ?c ! j) \<noteq> 0" "j \<notin> set (i # R)"
    moreover have "j \<noteq> R ! a" using calculation(3) nth_mem [OF assms(2)] by auto
    ultimately show "sh_z (ct_sheet0 ?c ! j) = -1" using assms(1) l by (simp add: hole_def)
  qed (use assms l in \<open>auto simp: hole_def\<close>)
  then show ?thesis using m same_sheets_z l by auto
qed

lemma hole_up:
  assumes "hole ctl R a i" "0 < a"
  shows "\<exists>ctl'. sheets_move (int a - 1) (int a) ctl = Some ctl' \<and> hole ctl' R (a - 1) i \<and> same_sheets ctl ctl' \<and>
    ct_zTop ctl' = ct_zTop ctl \<and> sh_z (ct_sheet0 ctl' ! i) = sh_z (ct_sheet0 ctl ! i)"
proof -
  let ?k = "a - 1"
  have k: "?k < length R" "?k < a" "a < 256" "Suc ?k = a" using assms by (auto simp: hole_def)
  have l: "length (ct_sheets ctl) = 256" "length (ct_sheet0 ctl) = 256" "length R < 256" "R ! ?k < 256"
    "ct_sheets ctl ! ?k = Some (R ! ?k)" "R ! ?k \<noteq> i"
    using assms(1) k nth_mem [OF k(1)] by (auto simp: hole_def slot_def)
  let ?c = "ctl\<lparr>ct_sheets := (ct_sheets ctl)[a := Some (R ! ?k)],
    ct_sheet0 := (ct_sheet0 ctl)[R ! ?k := (ct_sheet0 ctl ! (R ! ?k))\<lparr>sh_z := int a\<rparr>]\<rparr>"
  have "sheets_move (int ?k) (int a) ctl = Some ?c" using l k by (intro sheets_move_eq) simp_all
  then have m: "sheets_move (int a - 1) (int a) ctl = Some ?c" using assms(2) by (simp add: of_nat_diff)
  have "hole ?c R ?k i"
    unfolding hole_def
  proof (intro conjI allI impI)
    fix j assume j: "j < length R"
    then have r: "R ! j < 256" "ct_sheets ctl ! slot a j = Some (R ! j)" "sh_z (ct_sheet0 ctl ! (R ! j)) = int (slot a j)" "distinct R"
      using assms(1) by (auto simp: hole_def)
    show "R ! j < 256" by (rule r)
    have ne: "R ! ?k \<noteq> R ! j" if "j \<noteq> ?k" using r(4) k j that by (simp add: nth_eq_iff_index_eq)
    show "ct_sheets ?c ! slot ?k j = Some (R ! j)" "sh_z (ct_sheet0 ?c ! (R ! j)) = int (slot ?k j)"
      using r l k ne by (cases "j = ?k"; auto simp: slot_def nth_list_update)+
  next
    fix j assume "j < 256" "sh_flags (ct_sheet0 ?c ! j) \<noteq> 0" "j \<notin> set (i # R)"
    moreover have "j \<noteq> R ! ?k" using calculation(3) nth_mem [OF k(1)] by auto
    ultimately show "sh_z (ct_sheet0 ?c ! j) = -1" using assms(1) l by (simp add: hole_def)
  qed (use assms l k in \<open>auto simp: hole_def\<close>)
  then show ?thesis using m same_sheets_z l by auto
qed

text \<open>What a loop of moves keeps beside the hole.\<close>

definition moved :: "nat \<Rightarrow> SHTCTL \<Rightarrow> SHTCTL \<Rightarrow> bool" where
  "moved i ctl ctl' \<longleftrightarrow> same_sheets ctl ctl' \<and> ct_zTop ctl' = ct_zTop ctl \<and> sh_z (ct_sheet0 ctl' ! i) = sh_z (ct_sheet0 ctl ! i)"

lemma moved_refl [simp]: "moved i ctl ctl"
  by (simp add: moved_def)

lemma moved_trans: "moved i a b \<Longrightarrow> moved i b c \<Longrightarrow> moved i a c"
  using same_sheets_trans by (auto simp: moved_def)

lemma hole_down_loop:
  assumes "hole ctl R a i" "a \<le> b" "b \<le> length R"
  shows "\<exists>ctl'. fold_opt (\<lambda>z. sheets_move (z + 1) z) [int a..int b - 1] ctl = Some ctl' \<and> hole ctl' R b i \<and> moved i ctl ctl'"
  using assms
proof (induction "b - a" arbitrary: a ctl)
  case 0
  then show ?case by simp
next
  case (Suc n)
  then have "a < length R" "a < b" by simp_all
  from hole_down [OF Suc.prems(1) this(1)] obtain c where
    c: "sheets_move (int a + 1) (int a) ctl = Some c" "hole c R (Suc a) i" "moved i ctl c" by (auto simp: moved_def)
  obtain c' where c': "fold_opt (\<lambda>z. sheets_move (z + 1) z) [int (Suc a)..int b - 1] c = Some c'" "hole c' R b i" "moved i c c'"
    using Suc.hyps(1) [of "Suc a" c, OF _ c(2)] Suc.hyps(2) Suc.prems by fastforce
  have "[int a..int b - 1] = int a # [int (Suc a)..int b - 1]" using \<open>a < b\<close> upto_rec1 [of "int a" "int b - 1"] by (simp add: add.commute)
  then show ?case using c c' moved_trans by auto
qed

lemma hole_up_loop:
  assumes "hole ctl R a i" "b \<le> a"
  shows "\<exists>ctl'. fold_opt (\<lambda>z. sheets_move (z - 1) z) (rev [int b + 1..int a]) ctl = Some ctl' \<and> hole ctl' R b i \<and> moved i ctl ctl'"
  using assms
proof (induction "a - b" arbitrary: a ctl)
  case 0
  then show ?case by simp
next
  case (Suc n)
  then have "0 < a" "b < a" by simp_all
  from hole_up [OF Suc.prems(1) this(1)] obtain c where
    c: "sheets_move (int a - 1) (int a) ctl = Some c" "hole c R (a - 1) i" "moved i ctl c" by (auto simp: moved_def)
  obtain c' where c': "fold_opt (\<lambda>z. sheets_move (z - 1) z) (rev [int b + 1..int (a - 1)]) c = Some c'" "hole c' R b i" "moved i c c'"
    using Suc.hyps(1) [of "a - 1" c] Suc.hyps(2) Suc.prems c(2) by fastforce
  have "rev [int b + 1..int a] = int a # rev [int b + 1..int (a - 1)]"
    using \<open>b < a\<close> upto_rec2 [of "int b + 1" "int a"] by (simp add: of_nat_diff)
  then show ?case using c c' moved_trans by auto
qed

definition insert_at :: "nat \<Rightarrow> 'a \<Rightarrow> 'a list \<Rightarrow> 'a list" where
  "insert_at a x xs = take a xs @ x # drop a xs"

lemma set_insert_at [simp]: "set (insert_at a x xs) = insert x (set xs)"
proof -
  have "set xs = set (take a xs) \<union> set (drop a xs)" by (simp only: set_append [symmetric] append_take_drop_id)
  then show ?thesis by (auto simp: insert_at_def)
qed

lemma insert_at_simps [simp]:
  "length (insert_at a x xs) = Suc (length xs)" "a \<le> length xs \<Longrightarrow> insert_at a x xs ! a = x"
  by (auto simp: insert_at_def nth_append)

lemma insert_at_slot: "k < length xs \<Longrightarrow> a \<le> length xs \<Longrightarrow> insert_at a x xs ! slot a k = xs ! k"
  by (auto simp: insert_at_def slot_def nth_append nth_Cons' min_def not_less)

lemma distinct_insert_at: "distinct (insert_at a x xs) \<longleftrightarrow> distinct (x # xs)"
proof -
  have "distinct (take a xs @ drop a xs) = distinct xs" "set (take a xs @ drop a xs) = set xs" by simp_all
  then show ?thesis unfolding insert_at_def by (auto simp del: append_take_drop_id)
qed

lemma slot_cases:
  assumes "j < Suc n" "a \<le> n"
  obtains (at) "j = a" | (other) k where "k < n" "j = slot a k"
proof (cases "j < a")
  case True
  then show ?thesis using that(2) [of j] assms by (simp add: slot_def)
next
  case False
  then show ?thesis using that(1) that(2) [of "j - 1"] assms by (cases "j = a") (auto simp: slot_def)
qed

lemma hole_fill:
  assumes "hole ctl R a i" "sh_z (ct_sheet0 ctl ! i) = int a" "zt = int (length R)"
  shows "stack_rep (ctl\<lparr>ct_sheets := (ct_sheets ctl)[a := Some i], ct_zTop := zt\<rparr>) (insert_at a i R)"
proof -
  have a: "a \<le> length R" "distinct (i # R)" "i < 256" using assms(1) by (simp_all add: hole_def)
  have "insert_at a i R ! j < 256 \<and> (ct_sheets ctl)[a := Some i] ! j = Some (insert_at a i R ! j) \<and>
      sh_z (ct_sheet0 ctl ! (insert_at a i R ! j)) = int j" if "j < Suc (length R)" for j
    using that a(1)
  proof (cases rule: slot_cases)
    case at
    then show ?thesis using assms(1,2) a by (simp add: hole_def)
  next
    case (other k)
    then have "slot a k \<noteq> a" by (simp add: slot_def)
    then show ?thesis using assms(1) other a(1) insert_at_slot [OF other(1) a(1), of i] by (simp add: hole_def)
  qed
  then show ?thesis using assms(1,3) a by (simp add: stack_rep_def distinct_insert_at hole_def)
qed

lemma hole_close:
  assumes "hole ctl R (length R) i" "sh_z (ct_sheet0 ctl ! i) = -1"
  shows "stack_rep (ctl\<lparr>ct_zTop := int (length R) - 1\<rparr>) R"
  using assms by (auto simp: stack_rep_def hole_def slot_def)

lemma hole_open:
  assumes "stack_rep ctl L" "k < length L" "L ! k = i"
  shows "hole (ctl\<lparr>ct_sheet0 := (ct_sheet0 ctl)[i := (ct_sheet0 ctl ! i)\<lparr>sh_z := z\<rparr>]\<rparr>) (take k L @ drop (Suc k) L) k i"
proof -
  note D = stack_repD [OF assms(1)]
  let ?R = "take k L @ drop (Suc k) L"
  have L: "L = insert_at k i ?R" using id_take_nth_drop [OF assms(2)] assms(2,3) by (simp add: insert_at_def)
  have lR: "length ?R = length L - 1" "k \<le> length ?R" using assms(2) by simp_all
  have dR: "distinct (i # ?R)" using D(4) distinct_insert_at [of k i ?R] L by simp
  have nR: "L ! slot k j = ?R ! j" if "j < length ?R" for j
    using insert_at_slot [OF that lR(2), of i] L by simp
  have sR: "slot k j < length L" if "j < length ?R" for j using that lR assms(2) by (auto simp: slot_def)
  have ne: "?R ! j \<noteq> i" if "j < length ?R" for j using dR nth_mem [OF that] by auto
  have set: "set L = insert i (set ?R)" using set_insert_at [of k i ?R] L by simp
  have i: "i < 256" using D(6) [OF assms(2)] assms(3) by simp
  show ?thesis
    unfolding hole_def
  proof (intro conjI allI impI)
    fix j assume j: "j < length ?R"
    note J = D(6-8) [OF sR [OF j], unfolded nR [OF j]]
    show "?R ! j < 256" by (rule J(1))
    show "ct_sheets (ctl\<lparr>ct_sheet0 := (ct_sheet0 ctl)[i := (ct_sheet0 ctl ! i)\<lparr>sh_z := z\<rparr>]\<rparr>) ! slot k j = Some (?R ! j)"
      "sh_z (ct_sheet0 (ctl\<lparr>ct_sheet0 := (ct_sheet0 ctl)[i := (ct_sheet0 ctl ! i)\<lparr>sh_z := z\<rparr>]\<rparr>) ! (?R ! j)) = int (slot k j)"
      using J ne [OF j] by simp_all
  next
    fix j assume "j < 256"
      "sh_flags (ct_sheet0 (ctl\<lparr>ct_sheet0 := (ct_sheet0 ctl)[i := (ct_sheet0 ctl ! i)\<lparr>sh_z := z\<rparr>]\<rparr>) ! j) \<noteq> 0" "j \<notin> set (i # ?R)"
    then show "sh_z (ct_sheet0 (ctl\<lparr>ct_sheet0 := (ct_sheet0 ctl)[i := (ct_sheet0 ctl ! i)\<lparr>sh_z := z\<rparr>]\<rparr>) ! j) = -1"
      using D(9) [of j] set by simp
  qed (use D(1-3) assms(2) lR dR i in simp_all)
qed

lemma hole_hidden:
  assumes "stack_rep ctl L" "i < 256" "i \<notin> set L" "length L < 256"
  shows "hole (ctl\<lparr>ct_sheet0 := (ct_sheet0 ctl)[i := (ct_sheet0 ctl ! i)\<lparr>sh_z := z\<rparr>]\<rparr>) L (length L) i"
  using stack_repD [OF assms(1)] assms(2-4) nth_mem [of _ L] by (auto simp: hole_def slot_def nth_list_update)

lemma remove1_nth: "distinct L \<Longrightarrow> k < length L \<Longrightarrow> remove1 (L ! k) L = take k L @ drop (Suc k) L"
proof -
  assume a: "distinct L" "k < length L"
  have L: "L = take k L @ L ! k # drop (Suc k) L" by (rule id_take_nth_drop [OF a(2)])
  then have "L ! k \<notin> set (take k L)" using a(1) by (metis distinct_append disjoint_iff list.set_intros(1))
  then show ?thesis by (subst (2) L) (simp add: remove1_append)
qed

lemma insert_at_remove1: "distinct L \<Longrightarrow> k < length L \<Longrightarrow> insert_at k (L ! k) (remove1 (L ! k) L) = L"
  using id_take_nth_drop [of k L] by (simp add: remove1_nth insert_at_def)

lemma sheet_repaint_total:
  assumes "stack_rep ctl L" "0 \<le> z1" "z1 \<le> int (length L)" "0 \<le> z2" "z2 \<le> int (length L)" "z3 < int (length L)"
  shows "\<exists>m'. sheet_repaint s z1 z2 z3 ctl m = Some (ctl, m')"
  using sheet_update_zmap_fold [OF assms(1-3)] sheet_update_with_screenxy_fold [OF assms(1,4-6)]
  by (simp add: sheet_repaint_def)

definition set_z :: "nat \<Rightarrow> int \<Rightarrow> SHTCTL \<Rightarrow> SHTCTL" where
  "set_z i z ctl = ctl\<lparr>ct_sheet0 := (ct_sheet0 ctl)[i := (ct_sheet0 ctl ! i)\<lparr>sh_z := z\<rparr>]\<rparr>"

lemma set_z_simps:
  "ct_zTop (set_z i z ctl) = ct_zTop ctl" "same_sheets ctl (set_z i z ctl)"
  "i < length (ct_sheet0 ctl) \<Longrightarrow> sh_z (ct_sheet0 (set_z i z ctl) ! i) = z"
  using same_sheets_z [where ctl = ctl and ss = "ct_sheets ctl" and i = i and z = z] by (simp_all add: set_z_def)

lemma set_z_same: "sh_z (ct_sheet0 ctl ! i) = z \<Longrightarrow> set_z i z ctl = ctl"
proof -
  assume "sh_z (ct_sheet0 ctl ! i) = z"
  then have "(ct_sheet0 ctl ! i)\<lparr>sh_z := z\<rparr> = ct_sheet0 ctl ! i" by (cases "ct_sheet0 ctl ! i") simp
  then show ?thesis by (simp add: set_z_def)
qed

lemma sheet_updown_eq:
  assumes "length (ct_sheet0 ctl) = 256" "i < 256"
  shows "sheet_updown i zNew ctl m =
    (let s = ct_sheet0 ctl ! i; n = normalize_z ctl zNew in
     if sh_z s = n then Some (ctl, m) else sheet_restack i s (sh_z s) n (set_z i n ctl) m)"
  using assms set_z_same [of ctl i "normalize_z ctl zNew"]
  by (auto simp: sheet_updown_def get_sheet_def upd_sheet_def aget_in aset_in set_z_def Let_def)

lemma restack_fill:
  assumes "hole ctl R a i" "sh_z (ct_sheet0 ctl ! i) = int a" "ct_zTop ctl = zt - d" "zt = int (length R)" "z3 \<le> int (length R)"
  shows "\<exists>ctl' m'. (do { ss \<leftarrow> aset (ct_sheets ctl) (int a) (Some i);
      sheet_repaint s (int a) (int a) z3 (ctl\<lparr>ct_sheets := ss, ct_zTop := ct_zTop ctl + d\<rparr>) m }) = Some (ctl', m') \<and>
    stack_rep ctl' (insert_at a i R) \<and> same_sheets ctl ctl'"
proof -
  have l: "length (ct_sheets ctl) = 256" "a < 256" "a \<le> length R" using assms(1) by (auto simp: hole_def)
  let ?c = "ctl\<lparr>ct_sheets := (ct_sheets ctl)[a := Some i], ct_zTop := zt\<rparr>"
  have r: "stack_rep ?c (insert_at a i R)" by (rule hole_fill [OF assms(1,2,4)])
  have "same_sheets ctl ?c" by (simp add: same_sheets_def)
  moreover obtain m' where "sheet_repaint s (int a) (int a) z3 ?c m = Some (?c, m')"
    using sheet_repaint_total [OF r, of "int a" "int a" z3 s m] l assms(5) by auto
  ultimately show ?thesis using r l assms(3) by (auto simp: aset_in)
qed

lemma ztop_same: "ctl\<lparr>ct_sheets := ss, ct_zTop := ct_zTop ctl + 0\<rparr> = ctl\<lparr>ct_sheets := ss\<rparr>"
  by (cases ctl) simp

lemma updown_shown:
  assumes "stack_rep ctl L" "k < length L" "L ! k = i" "zNew < int (length L)"
  shows "\<exists>ctl' m'. sheet_updown i zNew ctl m = Some (ctl', m') \<and> same_sheets ctl ctl' \<and>
    stack_rep ctl' (if zNew < 0 then remove1 i L else insert_at (nat zNew) i (remove1 i L))"
proof -
  note D = stack_repD [OF assms(1)]
  let ?R = "remove1 i L" and ?s = "ct_sheet0 ctl ! i" and ?n = "max (-1) zNew"
  let ?c = "set_z i ?n ctl"
  have i: "i < 256" "sh_z ?s = int k" using D(6,8) [OF assms(2)] assms(3) by simp_all
  have R: "?R = take k L @ drop (Suc k) L" "length ?R = length L - 1" "k \<le> length ?R"
    using remove1_nth [OF D(4) assms(2)] assms(2,3) by simp_all
  have h: "hole ?c ?R k i" using hole_open [OF assms(1-3)] R(1) by (simp add: set_z_def)
  have zn: "normalize_z ctl zNew = ?n" using assms(4) D(5) by (simp add: normalize_z_def Let_def max_def)
  have c: "ct_zTop ?c = int (length ?R)" "same_sheets ctl ?c" "sh_z (ct_sheet0 ?c ! i) = ?n"
    using set_z_simps [where i = i and ctl = ctl and z = ?n] D(2,5) i(1) R(2) assms(2) by auto
  note e = sheet_updown_eq [OF D(2) i(1), of zNew m, unfolded zn Let_def i(2)]
  consider "zNew < 0" | "zNew = int k" | "0 \<le> zNew" "zNew < int k" | "int k < zNew" by linarith
  then show ?thesis
  proof cases
    case 1
    obtain c' where c': "fold_opt (\<lambda>z. sheets_move (z + 1) z) [int k..int (length ?R) - 1] ?c = Some c'"
      "hole c' ?R (length ?R) i" "moved i ?c c'" using hole_down_loop [OF h R(3) order_refl] by blast
    have "sh_z (ct_sheet0 c' ! i) = -1" "ct_zTop c' = int (length ?R)" using c'(3) c 1 by (simp_all add: moved_def)
    note r = hole_close [OF c'(2) this(1)]
    from sheet_repaint_total [OF r, of 0 0 "int k - 1" ?s m] obtain m' where
      "sheet_repaint ?s 0 0 (int k - 1) (c'\<lparr>ct_zTop := int (length ?R) - 1\<rparr>) m = Some (c'\<lparr>ct_zTop := int (length ?R) - 1\<rparr>, m')"
      using R(3) by auto
    moreover have "same_sheets ctl (c'\<lparr>ct_zTop := int (length ?R) - 1\<rparr>)"
      using c'(3) c(2) same_sheets_trans by (fastforce simp: moved_def same_sheets_def)
    ultimately show ?thesis using e 1 c' r \<open>ct_zTop c' = int (length ?R)\<close> c(1) by (simp add: sheet_restack_def)
  next
    case 2
    then show ?thesis using e assms(1) insert_at_remove1 [OF D(4) assms(2)] assms(3) by simp
  next
    case 3
    then have "nat zNew \<le> k" by simp
    then obtain c' where c': "fold_opt (\<lambda>z. sheets_move (z - 1) z) (rev [int (nat zNew) + 1..int k]) ?c = Some c'"
      "hole c' ?R (nat zNew) i" "moved i ?c c'" using hole_up_loop [OF h] by blast
    have f: "sh_z (ct_sheet0 c' ! i) = int (nat zNew)" "ct_zTop c' = int (length ?R) - 0"
      using c'(3) c 3 by (simp_all add: moved_def)
    obtain c2 m2 where r: "(do { ss \<leftarrow> aset (ct_sheets c') (int (nat zNew)) (Some i);
        sheet_repaint ?s (int (nat zNew)) (int (nat zNew)) (int k - 1) (c'\<lparr>ct_sheets := ss\<rparr>) m }) = Some (c2, m2)"
      "stack_rep c2 (insert_at (nat zNew) i ?R)" "same_sheets c' c2"
      using restack_fill [OF c'(2) f refl, of "int k - 1" ?s m] R(3) unfolding ztop_same by auto
    have "same_sheets ctl c2" using r(3) c'(3) c(2) same_sheets_trans unfolding moved_def by blast
    then show ?thesis using e 3 c'(1) r by (simp add: sheet_restack_def)
  next
    case 4
    have "nat zNew \<le> length ?R" "k \<le> nat zNew" using 4 assms(4) R(2) by auto
    from hole_down_loop [OF h this(2,1)] obtain c' where c': "fold_opt (\<lambda>z. sheets_move (z + 1) z) [int k..int (nat zNew) - 1] ?c = Some c'"
      "hole c' ?R (nat zNew) i" "moved i ?c c'" by blast
    have f: "sh_z (ct_sheet0 c' ! i) = int (nat zNew)" "ct_zTop c' = int (length ?R) - 0"
      using c'(3) c 4 by (simp_all add: moved_def)
    have b: "zNew \<le> int (length ?R)" using \<open>nat zNew \<le> length ?R\<close> 4 by simp
    obtain c2 m2 where r: "(do { ss \<leftarrow> aset (ct_sheets c') (int (nat zNew)) (Some i);
        sheet_repaint ?s (int (nat zNew)) (int (nat zNew)) zNew (c'\<lparr>ct_sheets := ss\<rparr>) m }) = Some (c2, m2)"
      "stack_rep c2 (insert_at (nat zNew) i ?R)" "same_sheets c' c2"
      using restack_fill [OF c'(2) f refl b, of ?s m] unfolding ztop_same by blast
    have "same_sheets ctl c2" using r(3) c'(3) c(2) same_sheets_trans unfolding moved_def by blast
    then show ?thesis using e 4 c'(1) r by (simp add: sheet_restack_def)
  qed
qed

lemma updown_hidden:
  assumes "stack_rep ctl L" "i < 256" "i \<notin> set L" "sh_flags (ct_sheet0 ctl ! i) \<noteq> 0" "length L < 256" "int (length L) \<le> zNew"
  shows "\<exists>ctl' m'. sheet_updown i zNew ctl m = Some (ctl', m') \<and> same_sheets ctl ctl' \<and> stack_rep ctl' (L @ [i])"
proof -
  note D = stack_repD [OF assms(1)]
  let ?n = "int (length L)" and ?s = "ct_sheet0 ctl ! i"
  let ?c = "set_z i ?n ctl"
  have z: "sh_z ?s = -1" by (rule D(9) [OF assms(2,4,3)])
  have zn: "normalize_z ctl zNew = ?n" using assms(6) D(5) by (simp add: normalize_z_def Let_def)
  have h: "hole ?c L (length L) i" using hole_hidden [OF assms(1-3,5)] by (simp add: set_z_def)
  have c: "ct_zTop ?c = ?n - 1" "same_sheets ctl ?c" "sh_z (ct_sheet0 ?c ! i) = ?n"
    using set_z_simps [where i = i and ctl = ctl and z = ?n] D(2,5) assms(2) by auto
  obtain c2 m2 where r: "(do { ss \<leftarrow> aset (ct_sheets ?c) ?n (Some i);
      sheet_repaint ?s ?n ?n ?n (?c\<lparr>ct_sheets := ss, ct_zTop := ct_zTop ?c + 1\<rparr>) m }) = Some (c2, m2)"
    "stack_rep c2 (insert_at (length L) i L)" "same_sheets ?c c2"
    using restack_fill [OF h c(3) c(1) refl, of ?n ?s m] by auto
  have "sheet_updown i zNew ctl m = Some (c2, m2)"
    using sheet_updown_eq [OF D(2) assms(2), of zNew m] r(1) c(1) unfolding zn Let_def z by (simp add: sheet_restack_def)
  moreover have "insert_at (length L) i L = L @ [i]" by (simp add: insert_at_def)
  ultimately show ?thesis using r(2,3) c(2) same_sheets_trans by auto
qed


lemma ex_ctl_flags: "sh_flags (ct_sheet0 ex_ctl ! 0) \<noteq> 0" "sh_flags (ct_sheet0 ex_ctl ! 2) \<noteq> 0"
  by (simp_all add: ex_ctl_def ex_sheet_def SHEET_IN_USE_def numeral_2_eq_2)


text \<open>
  Showing a hidden sheet below the top fails: the loop that should make room does not move the top
  sheet up but overwrites it, and the position above, which now counts as the top, holds no sheet;
  the repaint then follows the null pointer there.
\<close>

theorem sheet_updown_below_top_fails:
  assumes "stack_rep ctl L" "i < 256" "i \<notin> set L" "sh_flags (ct_sheet0 ctl ! i) \<noteq> 0" "0 \<le> zNew" "zNew < int (length L)"
    and "length L < 256" "ct_sheets ctl ! length L = None"
  shows "sheet_updown i zNew ctl m = None"
proof -
  note D = stack_repD [OF assms(1)]
  let ?c = "set_z i zNew ctl" and ?n = "int (length L)" and ?s = "ct_sheet0 ctl ! i"
  have z: "sh_z ?s = -1" by (rule D(9) [OF assms(2,4,3)])
  have zn: "normalize_z ctl zNew = zNew" using assms(5,6) D(5) by (simp add: normalize_z_def Let_def)
  have e: "sheet_updown i zNew ctl m = sheet_restack i ?s (-1) zNew ?c m"
    using sheet_updown_eq [OF D(2) assms(2), of zNew m] assms(5) unfolding zn Let_def z by simp
  show ?thesis
  proof (cases "fold_opt (\<lambda>z. sheets_move (z - 1) z) (rev [zNew + 1..ct_zTop ?c]) ?c")
    case None
    then show ?thesis using e assms(5) by (simp add: sheet_restack_def)
  next
    case (Some c)
    have "ct_zTop c = ?n - 1 \<and> length (ct_sheets c) = 256 \<and> ct_sheets c ! length L = None"
      using Some
    proof (rule fold_opt_inv)
      fix x s s' assume "x \<in> set (rev [zNew + 1..ct_zTop ?c])"
        and P: "ct_zTop s = ?n - 1 \<and> length (ct_sheets s) = 256 \<and> ct_sheets s ! length L = None"
        and m: "sheets_move (x - 1) x s = Some s'"
      then have "nat x \<noteq> length L" using D(5) assms(5) by (auto simp: set_z_simps)
      then show "ct_zTop s' = ?n - 1 \<and> length (ct_sheets s') = 256 \<and> ct_sheets s' ! length L = None"
        using P m by (auto simp: sheets_move_def upd_sheet_def bind_eq_Some_conv2 aset_Some_iff)
    qed (use D assms(8) in \<open>simp add: set_z_def\<close>)
    then have c: "ct_zTop c = ?n - 1" "length (ct_sheets c) = 256" "ct_sheets c ! length L = None" by auto
    let ?c' = "c\<lparr>ct_sheets := (ct_sheets c)[nat zNew := Some i], ct_zTop := ?n\<rparr>"
    have "sheet_at ?c' ?n = None" using c assms(5-7) by (simp add: sheet_at_def aget_in)
    moreover have "?n \<in> set [zNew..?n]" using assms(6) by simp
    ultimately have "sheet_update_zmap ?c' x0 y0 x1 y1 zNew m = None" for x0 y0 x1 y1
      unfolding sheet_update_zmap_def Let_def by (intro fold_opt_None [of ?n]) simp_all
    then show ?thesis using e Some c assms(5-7) by (simp add: sheet_restack_def sheet_repaint_def aset_in)
  qed
qed

theorem sheet_updown_below_top_fails_witness: "sheet_updown 2 0 ex_ctl (\<lambda>_. 0) = None"
proof -
  have "ct_sheets ex_ctl ! length [0 :: nat, 1] = None" by (simp add: ex_ctl_def numeral_2_eq_2)
  then show ?thesis
    using sheet_updown_below_top_fails [OF ex_ctl_ok(1) _ _ ex_ctl_flags(2), of 0 "\<lambda>_. 0"] by simp
qed

end
