(* ===== verification/Input.thy ===== *)
theory Input
  imports Machine
begin

text \<open>
  The input drivers: the keyboard tables of \<^verbatim>\<open>src/src/drivers/keyboard.c\<close>, the PS/2 controller of
  \<^verbatim>\<open>src/src/drivers/ps2kbc.c\<close> and the mouse packets of \<^verbatim>\<open>src/src/drivers/ps2mouse.c\<close>. What the drivers print is
  a list of console events. A read behind the end of a table is a fault, the value \<open>None\<close>.
\<close>

section \<open>Keyboard\<close>

datatype con_event = PrintChar u8 | KfPrint "u8 list"

definition BREAK_MASK :: u8 where "BREAK_MASK = 0x80"

text \<open>The American layout, with the values of \<^verbatim>\<open>src/src/include/uapi/input-event-code.h\<close>.\<close>

definition atakbd_keycode :: "u8 list" where
  "atakbd_keycode =
     [0, 1, 2, 3, 4, 5, 6, 7, 8, 9, 10, 11, 12, 13, 14, 15,
      16, 17, 18, 19, 20, 21, 22, 23, 24, 25, 26, 27, 28, 29, 30, 31,
      32, 33, 34, 35, 36, 37, 38, 39, 40, 41, 42, 43, 44, 45, 46, 47,
      48, 49, 50, 51, 52, 53, 54, 55, 56, 57, 58, 59, 60, 61, 62, 63,
      64, 65, 66, 67, 68, 0, 0, 102, 103, 0, 74, 105, 0, 106, 78, 0,
      108, 0, 110, 111, 0, 0, 0, 0, 0, 0, 0, 0, 0, 0, 0, 0,
      86, 131, 138, 179, 180, 98, 55, 71, 72, 73, 75, 76, 77, 79, 80, 81,
      82, 83, 96]"

definition keytable0 :: "u8 list" where
  "keytable0 =
     [0, 0, 49, 50, 51, 52, 53, 54, 55, 56, 57, 48, 45, 94, 0, 0,
      113, 119, 101, 114, 116, 121, 117, 105, 111, 112, 64, 91, 0, 0, 97, 115,
      100, 102, 103, 104, 106, 107, 108, 59, 58, 0, 0, 93, 122, 120, 99, 118,
      98, 110, 109, 44, 46, 47, 0, 42, 0, 32, 0, 0, 0, 0, 0, 0,
      0, 0, 0, 0, 0, 0, 0, 55, 56, 57, 45, 52, 53, 54, 43, 49,
      50, 51, 48, 46, 0, 0, 0, 0, 0, 0, 0, 0, 0, 0, 0, 0,
      0, 0, 0, 0, 0, 0, 0, 0, 0, 0, 0, 0, 0, 0, 0, 0,
      0, 0, 0, 92, 0, 0, 0, 0, 0, 0, 0, 0, 0, 92, 0, 0]"

definition keytable1 :: "u8 list" where
  "keytable1 =
     [0, 0, 33, 34, 35, 36, 37, 38, 39, 40, 41, 126, 61, 126, 0, 0,
      81, 87, 69, 82, 84, 89, 85, 73, 79, 80, 96, 123, 0, 0, 65, 83,
      68, 70, 71, 72, 74, 75, 76, 43, 42, 0, 0, 125, 90, 88, 67, 86,
      66, 78, 77, 60, 62, 63, 0, 42, 0, 32, 0, 0, 0, 0, 0, 0,
      0, 0, 0, 0, 0, 0, 0, 55, 56, 57, 45, 52, 53, 54, 43, 49,
      50, 51, 48, 46, 0, 0, 0, 0, 0, 0, 0, 0, 0, 0, 0, 0,
      0, 0, 0, 0, 0, 0, 0, 0, 0, 0, 0, 0, 0, 0, 0, 0,
      0, 0, 0, 95, 0, 0, 0, 0, 0, 0, 0, 0, 0, 124, 0, 0]"

definition input_report_key :: "u8 \<Rightarrow> u8 \<Rightarrow> con_event list option" where
  "input_report_key scancode down =
     (if down = 0 then Some []
      else do {
        c \<leftarrow> aget keytable0 (uint scancode);
        Some [PrintChar c]
      })"

text \<open>The two hexadecimal digits \<^verbatim>\<open>hex_to_ascii\<close> makes of one byte.\<close>

definition hex_byte :: "u8 \<Rightarrow> u8 list" where
  "hex_byte b = [hex_char (drop_bit 4 b AND 0xF), hex_char (b AND 0xF)]"

definition str_bytes :: "string \<Rightarrow> u8 list" where
  "str_bytes s = map (\<lambda>c. of_nat (of_char c)) s"

definition atakbd_interrupt :: "u8 \<Rightarrow> con_event list option" where
  "atakbd_interrupt rawscancode =
     (if rawscancode OR BREAK_MASK < 0x73 OR BREAK_MASK then do {
        let keydown = (if rawscancode > BREAK_MASK then 0 else 1 :: u8);
        uscancode \<leftarrow> aget atakbd_keycode (uint (rawscancode AND NOT BREAK_MASK));
        input_report_key uscancode (if keydown \<noteq> 0 then 1 else 0)
      }
      else Some [KfPrint (str_bytes ''KERN_INFO atakbd_interrupt: unhandled scancode ''), KfPrint (hex_byte rawscancode)])"

definition input_get_char :: "u8 \<Rightarrow> bool \<Rightarrow> u8 option" where
  "input_get_char rawscancode isShift =
     (let keyUp = (rawscancode OR BREAK_MASK < 0x73 OR BREAK_MASK \<and> rawscancode > BREAK_MASK)
      in if keyUp then Some 0
         else do {
           uscancode \<leftarrow> aget atakbd_keycode (uint (rawscancode AND NOT BREAK_MASK));
           if \<not> isShift then aget keytable0 (uint uscancode) else aget keytable1 (uint uscancode)
         })"

definition int21h_handler :: "u8 \<Rightarrow> con_event list option" where
  "int21h_handler scancode = atakbd_interrupt scancode"

section \<open>Mouse packets\<close>

record MOUSE_DATA_BUNDLE =
  mo_buf :: "u8 list"
  mo_phase :: u8
  mo_x :: int
  mo_y :: int
  mo_btn :: int

definition parse_twos_compliment :: "bool \<Rightarrow> u8 \<Rightarrow> int" where
  "parse_twos_compliment signed_bit tail =
     (let res = ucast tail :: u32
      in sint (if signed_bit then NOT res + 1 else res))"

definition glue_twos_compliment_fragment :: "bool \<Rightarrow> u8 \<Rightarrow> int" where
  "glue_twos_compliment_fragment signed_bit tail =
     sint (if signed_bit then (NOT 0 AND 0xffffff00) OR ucast tail else ucast tail :: u32)"

definition ps2mouse_parse_three_bytes :: "MOUSE_DATA_BUNDLE \<Rightarrow> MOUSE_DATA_BUNDLE option" where
  "ps2mouse_parse_three_bytes m = do {
     state \<leftarrow> aget (mo_buf m) 0;
     second_byte \<leftarrow> aget (mo_buf m) 1;
     third_byte \<leftarrow> aget (mo_buf m) 2;
     let rel_x = glue_twos_compliment_fragment (isMaskBitsAllSet (ucast state) 0x10) second_byte;
     let rel_y = glue_twos_compliment_fragment (isMaskBitsAllSet (ucast state) 0x20) third_byte;
     Some (m\<lparr>mo_x := rel_x, mo_y := rel_y, mo_btn := uint (state AND 7)\<rparr>)
   }"

definition ps2mouse_decode :: "u8 \<Rightarrow> MOUSE_DATA_BUNDLE \<Rightarrow> MOUSE_DATA_BUNDLE option" where
  "ps2mouse_decode scancode m =
     (let m = (if scancode = 0xfa then m\<lparr>mo_phase := 1\<rparr> else m)
      in if mo_phase m = 0 then Some m
         else if mo_phase m = 1 \<and> scancode AND 0xc8 = 0x08 then do {
           b \<leftarrow> aset (mo_buf m) 0 scancode;
           Some (m\<lparr>mo_buf := b, mo_phase := 2\<rparr>)
         }
         else if mo_phase m = 2 then do {
           b \<leftarrow> aset (mo_buf m) 1 scancode;
           Some (m\<lparr>mo_buf := b, mo_phase := 3\<rparr>)
         }
         else if mo_phase m = 3 then do {
           b \<leftarrow> aset (mo_buf m) 2 scancode;
           m \<leftarrow> ps2mouse_parse_three_bytes (m\<lparr>mo_buf := b\<rparr>);
           Some (m\<lparr>mo_phase := 1\<rparr>)
         }
         else Some m)"

section \<open>The PS/2 controller\<close>

definition PS2KBC_PORT_DATA_RW :: u16 where "PS2KBC_PORT_DATA_RW = 0x0060"
definition PS2KBC_PORT_STATUS_R :: u16 where "PS2KBC_PORT_STATUS_R = 0x0064"
definition PS2KBC_PORT_CMD_W :: u16 where "PS2KBC_PORT_CMD_W = 0x0064"
definition PS2KBC_STATUS_FLAG_OUTPUT_BUF_FULL :: u8 where "PS2KBC_STATUS_FLAG_OUTPUT_BUF_FULL = 1"
definition PS2KBC_STATUS_FLAG_INPUT_BUF_FULL :: u8 where "PS2KBC_STATUS_FLAG_INPUT_BUF_FULL = 2"
definition PS2KBC_CMD_CONFIG_READ :: u8 where "PS2KBC_CMD_CONFIG_READ = 0x20"
definition PS2KBC_CMD_CONFIG_WRITE :: u8 where "PS2KBC_CMD_CONFIG_WRITE = 0x60"
definition PS2KBC_CMD_REDIRECT_C2_INBUF :: u8 where "PS2KBC_CMD_REDIRECT_C2_INBUF = 0xD4"
definition PS2MOUSE_CMD_DATA_REPORTING_ENABLE :: u8 where "PS2MOUSE_CMD_DATA_REPORTING_ENABLE = 0xF4"
definition PS2MOUSE_CMD_RESET :: u8 where "PS2MOUSE_CMD_RESET = 0xFF"

type_synonym device = "u16 \<Rightarrow> io_event list \<Rightarrow> u8"

partial_function (option) ps2kbc_wait_KBC_writeReady :: "device \<Rightarrow> cpu \<Rightarrow> cpu option" where
  "ps2kbc_wait_KBC_writeReady dev c =
     (let (v, c) = io_in8 dev PS2KBC_PORT_STATUS_R c
      in if isMaskBitsAllClear (ucast v) (ucast PS2KBC_STATUS_FLAG_INPUT_BUF_FULL) then Some c
         else ps2kbc_wait_KBC_writeReady dev c)"

partial_function (option) ps2kbc_wait_KBC_readReady :: "device \<Rightarrow> cpu \<Rightarrow> cpu option" where
  "ps2kbc_wait_KBC_readReady dev c =
     (let (v, c) = io_in8 dev PS2KBC_PORT_STATUS_R c
      in if isMaskBitsAllSet (ucast v) (ucast PS2KBC_STATUS_FLAG_OUTPUT_BUF_FULL) then Some c
         else ps2kbc_wait_KBC_readReady dev c)"

text \<open>Throw away a byte that waits in the output buffer.\<close>

definition kbc_flush :: "device \<Rightarrow> cpu \<Rightarrow> cpu" where
  "kbc_flush dev c =
     (let (v, c) = io_in8 dev PS2KBC_PORT_STATUS_R c
      in if v AND PS2KBC_STATUS_FLAG_OUTPUT_BUF_FULL = 1 then snd (io_in8 dev PS2KBC_PORT_DATA_RW c) else c)"

text \<open>The loop that consumes the answer to the self test; \<open>n\<close> is the number of turns left.\<close>

fun kbc_drain :: "device \<Rightarrow> nat \<Rightarrow> cpu \<Rightarrow> cpu" where
  "kbc_drain dev 0 c = c"
| "kbc_drain dev (Suc n) c = kbc_drain dev n (io_wait (kbc_flush dev c))"

definition kbc_write :: "device \<Rightarrow> u16 \<Rightarrow> u8 \<Rightarrow> cpu \<Rightarrow> cpu option" where
  "kbc_write dev port v c = do { c \<leftarrow> ps2kbc_wait_KBC_writeReady dev c; Some (io_out8 port v c) }"

definition kbc_read :: "device \<Rightarrow> cpu \<Rightarrow> (u8 \<times> cpu) option" where
  "kbc_read dev c = do { c \<leftarrow> ps2kbc_wait_KBC_readReady dev c; Some (io_in8 dev PS2KBC_PORT_DATA_RW c) }"

definition ps2kbc_KBC_init :: "device \<Rightarrow> cpu \<Rightarrow> cpu option" where
  "ps2kbc_KBC_init dev c = do {
     let isCli = io_get_is_cli c;
     let c = cli_unless isCli c;
     let c = kbc_flush dev c;
     c \<leftarrow> kbc_write dev PS2KBC_PORT_CMD_W PS2KBC_CMD_CONFIG_READ c;
     (kbc_conf0, c) \<leftarrow> kbc_read dev c;
     if drop_bit 5 kbc_conf0 AND 1 = 0 then Some c
     else do {
       let kbc_conf0 = kbc_conf0 OR push_bit 1 1;
       c \<leftarrow> kbc_write dev PS2KBC_PORT_CMD_W PS2KBC_CMD_CONFIG_WRITE c;
       c \<leftarrow> kbc_write dev PS2KBC_PORT_DATA_RW kbc_conf0 c;
       c \<leftarrow> kbc_write dev PS2KBC_PORT_CMD_W 0xff c;
       let c = kbc_drain dev 1000 c;
       Some (sti_unless isCli c)
     }
   }"

definition ps2kbc_MOUSE_init :: "device \<Rightarrow> cpu \<Rightarrow> cpu option" where
  "ps2kbc_MOUSE_init dev c = do {
     let isCli = io_get_is_cli c;
     let c = cli_unless isCli c;
     let c = kbc_flush dev c;
     c \<leftarrow> kbc_write dev PS2KBC_PORT_CMD_W PS2KBC_CMD_REDIRECT_C2_INBUF c;
     c \<leftarrow> kbc_write dev PS2KBC_PORT_DATA_RW PS2MOUSE_CMD_RESET c;
     (_, c) \<leftarrow> kbc_read dev c;
     (_, c) \<leftarrow> kbc_read dev c;
     (_, c) \<leftarrow> kbc_read dev c;
     c \<leftarrow> kbc_write dev PS2KBC_PORT_CMD_W PS2KBC_CMD_REDIRECT_C2_INBUF c;
     c \<leftarrow> kbc_write dev PS2KBC_PORT_DATA_RW PS2MOUSE_CMD_DATA_REPORTING_ENABLE c;
     c \<leftarrow> ps2kbc_wait_KBC_writeReady dev c;
     c \<leftarrow> kbc_write dev PS2KBC_PORT_CMD_W 0xff c;
     let c = kbc_drain dev 1000 c;
     Some (sti_unless isCli c)
   }"

section \<open>Scan codes\<close>

lemma table_lengths: "length atakbd_keycode = 115" "length keytable0 = 128" "length keytable1 = 128"
  by (simp_all add: atakbd_keycode_def keytable0_def keytable1_def)

lemma keycode_range:
  assumes "k < 115"
  shows "unat (atakbd_keycode ! k) < 128 \<longleftrightarrow> k \<notin> {97, 98, 99, 100}"
proof -
  have "\<forall>k\<in>set [0..<115]. (unat (atakbd_keycode ! k) < 128) = (k \<notin> {97, 98, 99, 100})"
    unfolding atakbd_keycode_def by code_simp
  then show ?thesis using assms by simp
qed

lemma raw_bits:
  "unat (raw AND NOT BREAK_MASK) = unat raw mod 128" "raw OR BREAK_MASK < 0x73 OR BREAK_MASK \<longleftrightarrow> unat raw mod 128 < 115"
  "raw > BREAK_MASK \<longleftrightarrow> unat raw > 128"
proof -
  have lt: "unat raw < 256" using unsigned_less [of raw, where ?'a = nat] by simp
  have b7: "BREAK_MASK = push_bit 7 1" by (simp add: BREAK_MASK_def)
  have bm: "bit BREAK_MASK n \<longleftrightarrow> n = 7" for n
    unfolding b7 bit_push_bit_iff bit_1_iff by auto
  have m: "raw AND NOT BREAK_MASK = take_bit 7 raw"
    by (rule bit_word_eqI) (auto simp: bm bit_and_iff bit_not_iff bit_take_bit_iff)
  show u: "unat (raw AND NOT BREAK_MASK) = unat raw mod 128"
    unfolding m by (simp add: take_bit_eq_mod unat_mod)
  show "raw > BREAK_MASK \<longleftrightarrow> unat raw > 128" by (simp add: BREAK_MASK_def word_less_nat_alt)
  have "take_bit 7 raw AND BREAK_MASK = 0" "raw OR BREAK_MASK = take_bit 7 raw OR BREAK_MASK"
    by (rule bit_word_eqI; auto simp: bm bit_and_iff bit_or_iff bit_take_bit_iff)+
  then have "raw OR BREAK_MASK = take_bit 7 raw + BREAK_MASK" by (simp add: disjunctive_add_eq_or)
  then have "unat (raw OR BREAK_MASK) = unat raw mod 128 + 128"
    using u unfolding m by (simp add: BREAK_MASK_def unat_word_ariths)
  then show "raw OR BREAK_MASK < 0x73 OR BREAK_MASK \<longleftrightarrow> unat raw mod 128 < 115"
    by (simp add: word_less_nat_alt) (simp add: BREAK_MASK_def)
qed

text \<open>
  Reading the character of a scan code: a key press gives the character of the table for the shift
  state, a key release gives 0. For exactly the codes whose lower seven bits are 0x73 or more, and for the
  presses of 97 to 100 (whose key codes are 131 and more), the function reads behind the
  end of a table.
\<close>

theorem input_get_char_total:
  "input_get_char raw isShift =
     (if unat raw mod 128 \<ge> 115 \<or> unat raw \<in> {97, 98, 99, 100} then None
      else if unat raw > 128 then Some 0
      else Some ((if isShift then keytable1 else keytable0) ! unat (atakbd_keycode ! (unat raw mod 128))))"
proof -
  let ?k = "unat raw mod 128"
  have lt: "unat raw < 256" using unsigned_less [of raw, where ?'a = nat] by simp
  have g: "aget atakbd_keycode (uint (raw AND NOT BREAK_MASK)) = (if ?k < 115 then Some (atakbd_keycode ! ?k) else None)"
    by (simp add: aget_word raw_bits(1) table_lengths)
  have t: "aget keytable0 (uint c) = (if unat c < 128 then Some (keytable0 ! unat c) else None)"
    "aget keytable1 (uint c) = (if unat c < 128 then Some (keytable1 ! unat c) else None)" for c
    by (simp_all add: aget_word table_lengths)
  show ?thesis
  proof (cases "?k < 115")
    case False
    then show ?thesis by (simp add: input_get_char_def raw_bits(2) g Let_def)
  next
    case True
    show ?thesis
    proof (cases "unat raw > 128")
      case big: True
      then show ?thesis using True by (auto simp: input_get_char_def raw_bits(2,3) Let_def)
    next
      case False
      then have "?k \<in> {97, 98, 99, 100} \<longleftrightarrow> unat raw \<in> {97, 98, 99, 100}" by (cases "unat raw = 128") auto
      then show ?thesis using True False keycode_range [OF True]
        by (simp add: input_get_char_def raw_bits(2,3) g t Let_def del: insert_iff)
    qed
  qed
qed

section \<open>Mouse packets\<close>

text \<open>The bytes a PS/2 mouse sends for a movement of nine-bit numbers and the state of three buttons.\<close>

definition mouse_packet :: "int \<Rightarrow> int \<Rightarrow> int \<Rightarrow> u8 list" where
  "mouse_packet btn x y =
     [word_of_int (8 + btn + (if x < 0 then 16 else 0) + (if y < 0 then 32 else 0)), word_of_int x, word_of_int y]"

fun mouse_run :: "u8 list \<Rightarrow> MOUSE_DATA_BUNDLE \<Rightarrow> MOUSE_DATA_BUNDLE option" where
  "mouse_run [] m = Some m"
| "mouse_run (b # bs) m = do { m \<leftarrow> ps2mouse_decode b m; mouse_run bs m }"

lemma glue_eq: "glue_twos_compliment_fragment s t = (if s then uint t - 256 else uint t)"
proof -
  have t: "0 \<le> uint t" "uint t < 256" using unsigned_less [of t, where ?'a = int] by simp_all
  have "(0xffffff00 :: u32) AND ucast t = 0"
  proof -
    have m: "(0xffffff00 :: u32) = NOT (mask 8)" by (simp add: mask_eq_exp_minus_1)
    show ?thesis unfolding m by (rule bit_word_eqI) (auto simp: bit_simps dest: bit_imp_le_length)
  qed
  then have "(0xffffff00 :: u32) OR ucast t = 0xffffff00 + ucast t" by (simp add: disjunctive_add_eq_or)
  moreover have "uint (0xffffff00 + ucast t :: u32) = 4294967040 + uint t" using t by (simp add: uint_word_ariths)
  ultimately have "uint ((0xffffff00 :: u32) OR ucast t) = 4294967040 + uint t" by simp
  then have "sint ((0xffffff00 :: u32) OR ucast t) = (6442450688 + uint t) mod 4294967296 - 2147483648"
    by (simp add: sint_i32 i32_def)
  moreover have "(6442450688 + uint t) mod 4294967296 = 2147483392 + uint t"
    using mod_add_self2 [of "2147483392 + uint t" 4294967296] t by simp
  ultimately have "sint ((0xffffff00 :: u32) OR ucast t) = uint t - 256" by simp
  moreover have "sint (ucast t :: u32) = uint t" using t by (simp add: sint_i32 i32_def)
  ultimately show ?thesis by (simp add: glue_twos_compliment_fragment_def)
qed

lemma mod_int_neg: "k < 0 \<Longrightarrow> -256 \<le> k \<Longrightarrow> k mod 256 = k + (256 :: int)"
  using mod_add_self2 [of k 256] mod_pos_pos_trivial [of "k + 256" 256] by (simp only:)

lemma mouse_packet_bytes:
  assumes "0 \<le> btn" "btn < 8"
  obtains b where "mouse_packet btn x y = [b, word_of_int x, word_of_int y]" "b AND 0xc8 = 0x08"
    "isMaskBitsAllSet (ucast b) 0x10 \<longleftrightarrow> x < 0" "isMaskBitsAllSet (ucast b) 0x20 \<longleftrightarrow> y < 0" "uint (b AND 7) = btn"
proof -
  let ?b = "word_of_int (8 + btn + (if x < 0 then 16 else 0) + (if y < 0 then 32 else 0)) :: u8"
  have "btn \<in> {0, 1, 2, 3, 4, 5, 6, 7}" using assms by auto
  then have "?b AND 0xc8 = 0x08" "isMaskBitsAllSet (ucast ?b) 0x10 \<longleftrightarrow> x < 0"
    "isMaskBitsAllSet (ucast ?b) 0x20 \<longleftrightarrow> y < 0" "uint (?b AND 7) = btn"
    by (auto simp: isMaskBitsAllSet_def)
  then show thesis using that [of ?b] by (simp add: mouse_packet_def)
qed

lemma decode_first:
  assumes "mo_phase m = 1" "b AND 0xc8 = 0x08" "mo_buf m = [b0, b1, b2]"
  shows "ps2mouse_decode b m = Some (m\<lparr>mo_buf := [b, b1, b2], mo_phase := 2\<rparr>)"
  using assms by (auto simp: ps2mouse_decode_def aset_def)

lemma decode_second:
  assumes "mo_phase m = 2" "b \<noteq> 0xfa" "mo_buf m = [b0, b1, b2]"
  shows "ps2mouse_decode b m = Some (m\<lparr>mo_buf := [b0, b, b2], mo_phase := 3\<rparr>)"
  using assms by (simp add: ps2mouse_decode_def aset_def)

lemma decode_third:
  assumes "mo_phase m = 3" "b \<noteq> 0xfa" "mo_buf m = [b0, b1, b2]"
  shows "ps2mouse_decode b m =
    Some (m\<lparr>mo_buf := [b0, b1, b],
      mo_x := if isMaskBitsAllSet (ucast b0) 0x10 then uint b1 - 256 else uint b1,
      mo_y := if isMaskBitsAllSet (ucast b0) 0x20 then uint b - 256 else uint b,
      mo_btn := uint (b0 AND 7), mo_phase := 1\<rparr>)"
  using assms by (simp add: ps2mouse_decode_def ps2mouse_parse_three_bytes_def aset_def aget_def Let_def glue_eq)

lemma decode_ack: "ps2mouse_decode 0xfa m = Some (m\<lparr>mo_phase := 1\<rparr>)"
  by (simp add: ps2mouse_decode_def)

lemma buf_three: "length b = 3 \<Longrightarrow> \<exists>b0 b1 b2. b = [b0, b1, b2]"
  by (auto simp: numeral_3_eq_3 length_Suc_conv)

lemma word_fa: "(word_of_int k :: u8) = 0xfa \<longleftrightarrow> k mod 256 = 250"
proof -
  have "(word_of_int k :: u8) = 0xfa \<longleftrightarrow> uint (word_of_int k :: u8) = uint (0xfa :: u8)" by (simp only: word_uint_eq_iff)
  then show ?thesis by (simp add: uint_word_of_int)
qed



text \<open>
  A movement of 250 or -6 loses the packet: its byte is 0xfa, which the decoder takes for the
  acknowledgement of a command, so the movement and the buttons of the bundle stay what they were, and
  when the byte is the last one the decoder is back at the start of a packet.
\<close>

theorem ps2mouse_packet_lost:
  assumes "0 \<le> btn" "btn < 8" "length (mo_buf m) = 3" "mo_phase m = 1"
    and "x mod 256 = 250 \<or> y mod 256 = 250"
  shows "\<exists>m'. mouse_run (mouse_packet btn x y) m = Some m' \<and> mo_x m' = mo_x m \<and> mo_y m' = mo_y m \<and>
    mo_btn m' = mo_btn m \<and> (y mod 256 = 250 \<longrightarrow> mo_phase m' = 1)"
proof -
  obtain b where pk: "mouse_packet btn x y = [b, word_of_int x, word_of_int y]"
    and b: "b AND 0xc8 = 0x08" "isMaskBitsAllSet (ucast b) 0x10 \<longleftrightarrow> x < 0"
      "isMaskBitsAllSet (ucast b) 0x20 \<longleftrightarrow> y < 0" "uint (b AND 7) = btn"
    using mouse_packet_bytes [OF assms(1,2)] .
  obtain b0 b1 b2 where buf: "mo_buf m = [b0, b1, b2]" using buf_three [OF assms(3)] by auto
  note start = pk mouse_run.simps decode_first [OF assms(4) b(1) buf] bind.bind_lunit
  show ?thesis
  proof (cases "x mod 256 = 250")
    case True
    then have "(word_of_int x :: u8) = 0xfa" by (simp only: word_fa)
    then show ?thesis unfolding start by (auto simp: decode_ack ps2mouse_decode_def aset_def Let_def word_fa [symmetric])
  next
    case False
    then have "(word_of_int y :: u8) = 0xfa" using assms(5) by (simp only: word_fa) simp
    moreover have "(word_of_int x :: u8) \<noteq> 0xfa" using False by (simp only: word_fa) simp
    ultimately show ?thesis unfolding start by (simp add: decode_ack decode_second)
  qed
qed

theorem ps2mouse_packet_lost_witness:
  "\<exists>m'. mouse_run (mouse_packet 1 (-6) 3) \<lparr>mo_buf = [0, 0, 0], mo_phase = 1, mo_x = 7, mo_y = 0, mo_btn = 0\<rparr> = Some m' \<and>
    mo_x m' = 7 \<and> mo_y m' = 0 \<and> mo_btn m' = 0"
  using ps2mouse_packet_lost [of 1 "\<lparr>mo_buf = [0, 0, 0], mo_phase = 1, mo_x = 7, mo_y = 0, mo_btn = 0\<rparr>" "-6" 3] by auto

end
