(* ===== verification/Window.thy ===== *)
theory Window
  imports Sheet Input
begin

text \<open>
  The window system of \<^verbatim>\<open>src/src/drivers/graphic/videomode.c\<close> and the entry points of
  \<^verbatim>\<open>src/src/include/uapi/graphic.c\<close>: the screen's globals, the initial windows, text boxes with their line
  buffer, the mouse pointer and the search for the sheet under it. Drawing through a null buffer is
  drawing at address 0, as the machine does it; following a null sheet is \<open>None\<close>.
\<close>

section \<open>State\<close>

record BOOTINFO =
  bi_cyls :: u8
  bi_leds :: u8
  bi_vmode :: u8
  bi_reserve :: u8
  bi_scrnx :: int
  bi_scrny :: int
  bi_vram :: u32

text \<open>The globals; \<open>vs_ctl\<close> says whether the pointer \<^verbatim>\<open>ctl\<close> is set.\<close>

record screen =
  vs_gfx :: gfx
  vs_ctl :: bool
  vs_posX :: int
  vs_posY :: int
  vs_bibk :: BOOTINFO
  vs_mouseX :: int
  vs_mouseY :: int
  vs_desktop :: "nat option"
  vs_mouse :: "nat option"
  vs_window :: "nat option"
  vs_console :: "nat option"

definition on_gfx :: "(gfx \<Rightarrow> gfx option) \<Rightarrow> screen \<Rightarrow> screen option" where
  "on_gfx f v = do { g \<leftarrow> f (vs_gfx v); Some (v\<lparr>vs_gfx := g\<rparr>) }"

definition on_screen_mem :: "(memory \<Rightarrow> memory option) \<Rightarrow> screen \<Rightarrow> screen option" where
  "on_screen_mem f v = on_gfx (on_mem f) v"

text \<open>Division by two of a signed number, rounded towards zero.\<close>

definition half :: "int \<Rightarrow> int" where
  "half x = (if x < 0 then - ((- x) div 2) else x div 2)"

section \<open>Initialization\<close>

definition videomode_window_initialize :: "BOOTINFO \<Rightarrow> cpu \<Rightarrow> screen \<Rightarrow> (cpu \<times> screen) option" where
  "videomode_window_initialize bi c v = do {
     let v = v\<lparr>vs_bibk := bi, vs_mouseX := half (bi_scrnx bi), vs_mouseY := half (bi_scrny bi)\<rparr>;
     c \<leftarrow> init_palette c;
     v \<leftarrow> on_screen_mem (\<lambda>m. Some (draw_desktop (bi_vram bi) (bi_scrnx bi) (bi_scrny bi) m)) v;
     Some (c, v)
   }"

definition make_textbox8 :: "nat \<Rightarrow> int \<Rightarrow> int \<Rightarrow> int \<Rightarrow> int \<Rightarrow> u8 \<Rightarrow> SHTCTL \<Rightarrow> memory \<Rightarrow> memory option" where
  "make_textbox8 sheet xStart yStart width height color ctl m = do {
     s \<leftarrow> get_sheet ctl sheet;
     let xEnd = xStart + width;
     let yEnd = yStart + height;
     let m = boxfill8 (sh_buf s) (sh_bufXsize s) COL8_848484 (xStart - 2) (yStart - 3) (xEnd + 1) (yStart - 3) m;
     let m = boxfill8 (sh_buf s) (sh_bufXsize s) COL8_848484 (xStart - 3) (yStart - 3) (xEnd - 3) (yEnd + 1) m;
     let m = boxfill8 (sh_buf s) (sh_bufXsize s) COL8_FFFFFF (xStart - 3) (yEnd + 2) (xEnd + 1) (yEnd + 2) m;
     let m = boxfill8 (sh_buf s) (sh_bufXsize s) COL8_FFFFFF (xStart + 2) (yStart - 3) (xStart + 1) (yStart + 1) m;
     let m = boxfill8 (sh_buf s) (sh_bufXsize s) COL8_000000 (xStart - 1) (yStart - 2) (xEnd + 0) (yStart - 2) m;
     let m = boxfill8 (sh_buf s) (sh_bufXsize s) COL8_000000 (xStart - 2) (yStart - 2) (xStart - 2) (yEnd + 0) m;
     let m = boxfill8 (sh_buf s) (sh_bufXsize s) COL8_C6C6C6 (xStart - 2) (yEnd + 1) (xEnd + 0) (yEnd + 1) m;
     let m = boxfill8 (sh_buf s) (sh_bufXsize s) COL8_C6C6C6 (xEnd + 1) (yStart - 2) (xEnd + 1) (yEnd + 1) m;
     Some (boxfill8 (sh_buf s) (sh_bufXsize s) color (xStart - 1) (yStart - 1) (xEnd + 0) (yEnd + 0) m)
   }"

definition gfx_sheet_alloc :: "gfx \<Rightarrow> (gfx \<times> nat) option" where
  "gfx_sheet_alloc g = do { (ctl, p) \<leftarrow> sheet_alloc (gf_ctl g); i \<leftarrow> p; Some (g\<lparr>gf_ctl := ctl\<rparr>, i) }"

definition gfx_alloc :: "(u32 \<Rightarrow> mm \<Rightarrow> (mm \<times> u32) option) \<Rightarrow> int \<Rightarrow> gfx \<Rightarrow> (gfx \<times> u32) option" where
  "gfx_alloc alloc n g = do { (m, p) \<leftarrow> alloc (word_of_int n) (gf_mm g); Some (g\<lparr>gf_mm := m\<rparr>, p) }"

definition gfx_setbuf :: "nat \<Rightarrow> u32 \<Rightarrow> int \<Rightarrow> int \<Rightarrow> int \<Rightarrow> gfx \<Rightarrow> gfx option" where
  "gfx_setbuf i buf xsize ysize color g = do { ctl \<leftarrow> sheet_setbuf i buf xsize ysize color (gf_ctl g); Some (g\<lparr>gf_ctl := ctl\<rparr>) }"

text \<open>The bytes of the string literals ``Haribote OS'', ``console'' and ``window''.\<close>

definition str_title :: "u8 list" where "str_title = [72, 97, 114, 105, 98, 111, 116, 101, 32, 79, 83]"
definition str_console :: "u8 list" where "str_console = [99, 111, 110, 115, 111, 108, 101]"
definition str_window :: "u8 list" where "str_window = [119, 105, 110, 100, 111, 119]"

definition init_desktop :: "int \<Rightarrow> int \<Rightarrow> gfx \<Rightarrow> (gfx \<times> nat) option" where
  "init_desktop scrnx scrny g = do {
     (g, d) \<leftarrow> gfx_sheet_alloc g;
     (g, buf) \<leftarrow> gfx_alloc kmalloc (scrnx * scrny) g;
     g \<leftarrow> on_mem (\<lambda>m. Some (draw_desktop buf scrnx scrny m)) g;
     g \<leftarrow> on_mem (putfonts8_asc buf scrnx 9 9 COL8_000000 str_title) g;
     g \<leftarrow> on_mem (putfonts8_asc buf scrnx 8 8 COL8_FFFFFF str_title) g;
     g \<leftarrow> gfx_setbuf d buf scrnx scrny (-1) g;
     g \<leftarrow> on_sheets (sheet_slide d 0 0) g;
     Some (g, d)
   }"

definition init_mouse :: "int \<Rightarrow> int \<Rightarrow> gfx \<Rightarrow> (gfx \<times> nat) option" where
  "init_mouse scrnx scrny g = do {
     (g, s) \<leftarrow> gfx_sheet_alloc g;
     (g, buf) \<leftarrow> gfx_alloc kmalloc (16 * 16) g;
     g \<leftarrow> gfx_setbuf s buf 16 16 99 g;
     g \<leftarrow> on_mem (\<lambda>m. Some (init_mouse_cursor8 buf 99 m)) g;
     g \<leftarrow> on_sheets (sheet_slide s (half (scrnx - 16)) (half (scrny - 16))) g;
     Some (g, s)
   }"

definition init_console :: "gfx \<Rightarrow> (gfx \<times> nat) option" where
  "init_console g = do {
     (g, s) \<leftarrow> gfx_sheet_alloc g;
     (g, buf) \<leftarrow> gfx_alloc kzalloc (256 * 165) g;
     g \<leftarrow> gfx_setbuf s buf 256 165 (-1) g;
     g \<leftarrow> on_mem (make_window8 buf 256 165 str_console True) g;
     g \<leftarrow> on_mem (make_textbox8 s 8 28 (256 - 8 * 2) (165 - 28 - 9) COL8_000000 (gf_ctl g)) g;
     g \<leftarrow> sheet_textbox_alloc s 8 28 (256 - 8 * 2) (165 - 28 - 9) (uint COL8_000000) (-1) (uint COL8_FFFFFF) g;
     g \<leftarrow> on_sheets (sheet_slide s 320 40) g;
     Some (g, s)
   }"

definition init_window :: "gfx \<Rightarrow> (gfx \<times> nat) option" where
  "init_window g = do {
     (g, s) \<leftarrow> gfx_sheet_alloc g;
     (g, buf) \<leftarrow> gfx_alloc kmalloc (160 * 68) g;
     g \<leftarrow> gfx_setbuf s buf 160 68 (-1) g;
     g \<leftarrow> on_mem (make_window8 buf 160 68 str_window False) g;
     g \<leftarrow> on_sheets (sheet_slide s 120 122) g;
     Some (g, s)
   }"

text \<open>\<^verbatim>\<open>sheet_initialize\<close>, in the order of the source: desktop, mouse, console and the floating window.\<close>

definition sheet_initialize :: "u32 \<Rightarrow> int \<Rightarrow> int \<Rightarrow> screen \<Rightarrow> screen option" where
  "sheet_initialize vram scrnx scrny v = do {
     (m, r) \<leftarrow> shtctl_init vram scrnx scrny (gf_mm (vs_gfx v));
     (_, ctl) \<leftarrow> r;
     let g = (vs_gfx v)\<lparr>gf_mm := m, gf_ctl := ctl\<rparr>;
     (g, desktop) \<leftarrow> init_desktop scrnx scrny g;
     (g, mouse) \<leftarrow> init_mouse scrnx scrny g;
     (g, console) \<leftarrow> init_console g;
     (g, window) \<leftarrow> init_window g;
     g \<leftarrow> on_sheets (sheet_updown desktop 0) g;
     g \<leftarrow> on_sheets (sheet_updown window 1) g;
     g \<leftarrow> on_sheets (sheet_updown console 2) g;
     g \<leftarrow> on_sheets (sheet_updown mouse 3) g;
     g \<leftarrow> on_mem (sheet_update_zmap (gf_ctl g) 0 0 scrnx scrny 0) g;
     g \<leftarrow> on_mem (sheet_update_with_screenxy (gf_ctl g) 0 0 scrnx scrny 0 (-1)) g;
     Some (v\<lparr>vs_gfx := g, vs_ctl := True, vs_desktop := Some desktop, vs_mouse := Some mouse, vs_window := Some window,
        vs_console := Some console\<rparr>)
   }"

definition graphic_init :: "BOOTINFO \<Rightarrow> cpu \<Rightarrow> screen \<Rightarrow> (cpu \<times> screen) option" where
  "graphic_init bi c v = videomode_window_initialize bi c v"

definition graphic_window_manager_init :: "BOOTINFO \<Rightarrow> screen \<Rightarrow> screen option" where
  "graphic_window_manager_init bi v = sheet_initialize (bi_vram bi) (bi_scrnx bi) (bi_scrny bi) v"

section \<open>Text on the desktop\<close>

definition videomode_kfprint :: "u8 list \<Rightarrow> u8 \<Rightarrow> screen \<Rightarrow> screen option" where
  "videomode_kfprint str color v = do {
     buf \<leftarrow> (case vs_desktop v of
        None \<Rightarrow> Some (bi_vram (vs_bibk v))
      | Some d \<Rightarrow> do { s \<leftarrow> get_sheet (gf_ctl (vs_gfx v)) d; Some (sh_buf s) });
     let canvasWidth = bi_scrnx (vs_bibk v);
     let canvasHeight = bi_scrny (vs_bibk v);
     let color = (if color = 0 then COL8_FFFFFF else color);
     (m, posX, posY) \<leftarrow> putfonts8_ascv2 buf canvasWidth (vs_posX v) (vs_posY v) color str (mm_mem (gf_mm (vs_gfx v)));
     v \<leftarrow> on_screen_mem (\<lambda>_. Some m) v;
     let v = v\<lparr>vs_posX := posX, vs_posY := posY\<rparr>;
     (case vs_desktop v of
        None \<Rightarrow> Some v
      | Some d \<Rightarrow> on_screen_mem (sheet_update_sheet d 0 0 canvasWidth canvasHeight (gf_ctl (vs_gfx v))) v)
   }"

definition kfprint :: "u8 list \<Rightarrow> u8 \<Rightarrow> screen \<Rightarrow> screen option" where
  "kfprint str color v = videomode_kfprint str color v"

text \<open>The cursor's picture is an array on the stack at address \<open>mouse\<close>.\<close>

definition display_scroll :: "u32 \<Rightarrow> u32 \<Rightarrow> int \<Rightarrow> int \<Rightarrow> screen \<Rightarrow> screen option" where
  "display_scroll mouse vram vga_width vga_height v =
     on_screen_mem (\<lambda>m.
       let m = draw_desktop vram vga_width vga_height m;
           m = init_mouse_cursor8 mouse COL8_008484 (fst (kmemset m mouse 0 256))
       in Some (putblock8_8 (bi_vram (vs_bibk v)) (bi_scrnx (vs_bibk v)) 16 16 (vs_mouseX v) (vs_mouseY v) mouse 16 m))
       (v\<lparr>vs_posX := padding_l, vs_posY := 16\<rparr>)"

section \<open>Text boxes\<close>

text \<open>The text box at an address, and the sheet it lies in; \<open>None\<close> stands for the early return.\<close>

definition textbox_sheet :: "u32 \<Rightarrow> gfx \<Rightarrow> SHEET option" where
  "textbox_sheet t g =
     (case tb_sheet (gf_boxes g t) of
        None \<Rightarrow> None
      | Some i \<Rightarrow> (case get_sheet (gf_ctl g) i of
          None \<Rightarrow> None
        | Some s \<Rightarrow> if sh_buf s = 0 then None else Some s))"

definition v_textbox_xy_to_sheetxy :: "TEXTBOX \<Rightarrow> int \<Rightarrow> int \<Rightarrow> int \<times> int" where
  "v_textbox_xy_to_sheetxy t textboxX textboxY =
     (let sX = textboxX + tb_bufXS t;
          sY = textboxY + tb_bufYS t
      in (if sX \<ge> tb_bufXE t then tb_bufXE t else sX, if sY \<ge> tb_bufYE t then tb_bufYE t else sY))"

definition v_textbox_boxfill8 :: "u32 \<Rightarrow> u8 \<Rightarrow> int \<Rightarrow> int \<Rightarrow> int \<Rightarrow> int \<Rightarrow> gfx \<Rightarrow> gfx option" where
  "v_textbox_boxfill8 t color x0 y0 x1 y1 g =
     (case textbox_sheet t g of
        None \<Rightarrow> Some g
      | Some s \<Rightarrow>
          (let (sheetX0, sheetY0) = v_textbox_xy_to_sheetxy (gf_boxes g t) x0 y0;
               (sheetX1, sheetY1) = v_textbox_xy_to_sheetxy (gf_boxes g t) x1 y1
           in on_mem (\<lambda>m. Some (fold (\<lambda>y m. fold (\<lambda>x m. m(px (sh_buf s) (y * sh_bufXsize s + x) := color))
                [sheetX0..sheetX1] m) [sheetY0..sheetY1] m)) g))"

definition upd_box :: "u32 \<Rightarrow> (TEXTBOX \<Rightarrow> TEXTBOX) \<Rightarrow> gfx \<Rightarrow> gfx" where
  "upd_box t f g = g\<lparr>gf_boxes := (gf_boxes g)(t := f (gf_boxes g t))\<rparr>"

text \<open>The two calls that clear the line of the text position.\<close>

definition clear_line :: "u32 \<Rightarrow> gfx \<Rightarrow> gfx option" where
  "clear_line t g =
     (let b = gf_boxes g t; y1 = i32 (tb_boxY b + uint (tb_incrementY b))
      in do {
        g \<leftarrow> v_textbox_boxfill8 t (ucast (tb_bgColor b)) (tb_boxX b) (tb_boxY b) (tb_bufXE b) y1 g;
        v_textbox_update_sheet (tb_sheet b) (tb_boxX b) (tb_boxY b) (tb_bufXE b) y1 g
      })"

definition textbox_newline :: "u32 \<Rightarrow> gfx \<Rightarrow> gfx option" where
  "textbox_newline t g = do {
     g \<leftarrow> clear_line t g;
     let g = upd_box t (\<lambda>b. b\<lparr>tb_boxX := 0, tb_boxY := i32 (tb_boxY b + uint (tb_incrementY b))\<rparr>) g;
     let g = upd_box t (\<lambda>b. if tb_boxY b + tb_bufYS b > tb_bufYE b then b\<lparr>tb_boxY := 0\<rparr> else b) g;
     clear_line t g
   }"

definition INT32_MAX :: int where "INT32_MAX = 2147483647"

definition textbox_putchar :: "u32 \<Rightarrow> u8 \<Rightarrow> gfx \<Rightarrow> gfx option" where
  "textbox_putchar t c g = do {
     let b = gf_boxes g t;
     s \<leftarrow> textbox_sheet t g;
     let bufX = tb_boxX b + tb_bufXS b;
     let bufY = tb_boxY b + tb_bufYS b;
     g \<leftarrow> on_mem (putfont8 (sh_buf s) (sh_bufXsize s) bufX bufY (ucast (tb_charColor b)) hankaku (sint c * 16)) g;
     g \<leftarrow> v_textbox_update_sheet (tb_sheet b) (tb_boxX b) (tb_boxY b) INT32_MAX (i32 (tb_boxY b + uint (tb_incrementY b))) g;
     let g = upd_box t (\<lambda>b. b\<lparr>tb_boxX := i32 (tb_boxX b + uint (tb_incrementX b))\<rparr>) g;
     let g = upd_box t (\<lambda>b. if tb_boxX b + tb_bufXS b + sint (tb_incrementX b) > tb_bufXE b
       then b\<lparr>tb_boxX := 0, tb_boxY := i32 (tb_boxY b + uint (tb_incrementY b))\<rparr> else b) g;
     Some (upd_box t (\<lambda>b. if tb_boxY b + tb_bufYS b > tb_bufYE b then b\<lparr>tb_boxY := 0\<rparr> else b) g)
   }"

fun textbox_puts :: "u32 \<Rightarrow> u8 list \<Rightarrow> gfx \<Rightarrow> gfx option" where
  "textbox_puts t [] g = Some g"
| "textbox_puts t (c # s) g = do {
     g \<leftarrow> (if c = 10 then textbox_newline t g else textbox_putchar t c g);
     textbox_puts t s g
   }"

text \<open>The parameter \<open>color\<close> is not used for the characters: they get the colour of the text box.\<close>

definition v_textbox_putfonts8_asc :: "u32 \<Rightarrow> int \<Rightarrow> u8 list \<Rightarrow> gfx \<Rightarrow> gfx option" where
  "v_textbox_putfonts8_asc t color s g =
     (if t = 0 \<or> textbox_sheet t g = None then Some g else textbox_puts t s g)"

definition v_textbox_linebuf_clear :: "u32 \<Rightarrow> gfx \<Rightarrow> gfx option" where
  "v_textbox_linebuf_clear t g =
     (if t = 0 \<or> tb_lineBuf (gf_boxes g t) = 0 then Some g
      else do {
        g \<leftarrow> on_mem (\<lambda>m. Some (fold (\<lambda>i m. m(px (tb_lineBuf (gf_boxes g t)) i := 0)) [0..tb_lineEolPos (gf_boxes g t) - 1] m)) g;
        Some (upd_box t (\<lambda>b. b\<lparr>tb_lineCharPos := 0, tb_lineEolPos := 0\<rparr>) g)
      })"

definition v_textbox_linebuf_addchar :: "u32 \<Rightarrow> u8 \<Rightarrow> gfx \<Rightarrow> (gfx \<times> int) option" where
  "v_textbox_linebuf_addchar t c g =
     (let b = gf_boxes g t
      in if t = 0 \<or> tb_lineBuf b = 0 then Some (g, - EIO)
         else if tb_lineEolPos b \<ge> OS_TEXTBOX_LINE_BUFFER_SIZE - 1 then Some (g, - EIO)
         else do {
           g \<leftarrow> on_mem (\<lambda>m.
             let m = (if tb_lineCharPos b < tb_lineEolPos b
                then fold (\<lambda>i m. m(px (tb_lineBuf b) (i + 1) := m (px (tb_lineBuf b) i))) (rev [tb_lineCharPos b..tb_lineEolPos b]) m
                else m)
             in Some (m(px (tb_lineBuf b) (tb_lineCharPos b) := c))) g;
           Some (upd_box t (\<lambda>b. b\<lparr>tb_lineCharPos := tb_lineCharPos b + 1, tb_lineEolPos := tb_lineEolPos b + 1\<rparr>) g, 0)
         })"

definition v_textbox_reset :: "u32 \<Rightarrow> gfx \<Rightarrow> gfx option" where
  "v_textbox_reset t g =
     (if t = 0 \<or> tb_lineBuf (gf_boxes g t) = 0 then Some g
      else do {
        let b = gf_boxes g t;
        g \<leftarrow> v_textbox_boxfill8 t (ucast (tb_bgColor b)) 0 0 (tb_bufXE b - tb_bufXS b) (tb_bufYE b - tb_bufYS b) g;
        g \<leftarrow> v_textbox_update_sheet (tb_sheet b) 0 0 (tb_bufXE b - tb_bufXS b) (tb_bufYE b - tb_bufYS b) g;
        v_textbox_linebuf_clear t (upd_box t (\<lambda>b. b\<lparr>tb_boxX := 0, tb_boxY := 0\<rparr>) g)
      })"

section \<open>The mouse pointer\<close>

text \<open>The picture the function draws into a local array is not used.\<close>

definition graphic_move_mouse :: "MOUSE_DATA_BUNDLE \<Rightarrow> screen \<Rightarrow> screen option" where
  "graphic_move_mouse mouse_one_move v =
     (if \<not> vs_ctl v then Some v
      else (case vs_mouse v of
        None \<Rightarrow> Some v
      | Some i \<Rightarrow>
          (let newX = vs_mouseX v + mo_x mouse_one_move;
               newY = vs_mouseY v - mo_y mouse_one_move;
               newX = (if newX < 0 then 0 else newX);
               newX = (if newX > bi_scrnx (vs_bibk v) - 1 then bi_scrnx (vs_bibk v) - 1 else newX);
               newY = (if newY < 0 then 0 else newY);
               newY = (if newY > bi_scrny (vs_bibk v) - 1 then bi_scrny (vs_bibk v) - 1 else newY);
               v = v\<lparr>vs_mouseX := newX, vs_mouseY := newY\<rparr>
           in on_gfx (on_sheets (sheet_slide i newX newY)) v)))"

definition getMouseXY :: "screen \<Rightarrow> int \<times> int" where
  "getMouseXY v = (vs_mouseX v, vs_mouseY v)"

definition isCursorWithinSheet :: "int \<times> int \<Rightarrow> SHEET \<Rightarrow> bool" where
  "isCursorWithinSheet xy s \<longleftrightarrow>
     fst xy \<ge> sh_xStart s \<and> fst xy - sh_bufXsize s \<le> sh_xStart s \<and>
     snd xy \<ge> sh_yStart s \<and> snd xy - sh_bufYsize s \<le> sh_yStart s"

text \<open>The loop from the sheet below the top one down; \<open>n\<close> is the number of sheets left.\<close>

fun sheet_by_cursor_loop :: "nat \<Rightarrow> int \<times> int \<Rightarrow> SHTCTL \<Rightarrow> nat option option" where
  "sheet_by_cursor_loop 0 xy ctl = Some None"
| "sheet_by_cursor_loop (Suc n) xy ctl = do {
     p \<leftarrow> aget (ct_sheets ctl) (int n);
     (case p of
        None \<Rightarrow> sheet_by_cursor_loop n xy ctl
      | Some i \<Rightarrow> do {
          s \<leftarrow> get_sheet ctl i;
          if isCursorWithinSheet xy s then Some (Some i) else sheet_by_cursor_loop n xy ctl
        })
   }"

definition get_sheet_by_cursor :: "int \<times> int \<Rightarrow> SHTCTL \<Rightarrow> nat option option" where
  "get_sheet_by_cursor xy ctl = sheet_by_cursor_loop (nat (ct_zTop ctl)) xy ctl"

end
