(* ===== verification/Idt.thy ===== *)
theory Idt
  imports Sched Window
begin

text \<open>
  The interrupt descriptor table and the interrupt handlers of \<^verbatim>\<open>src/src/idt/idt.{h,c}\<close>, over the state of
  the whole kernel: the scheduler's part (theory \<open>Sched\<close>), the screen (theory \<open>Window\<close>) and the table. The
  addresses of the assembly stubs, of the table and of the FIFO of the input devices are parameters
  or fields; what a device answers to a port read is the parameter \<open>dev\<close>.
\<close>

section \<open>State\<close>

record IDT_GATE_DESCRIPTOR_32 =
  gd_offset_1 :: u16
  gd_selector :: u16
  gd_zero :: u8
  gd_type_attr :: u8
  gd_offset_2 :: u16

record IDT_IDTR_32 =
  ir_size :: u16
  ir_offset :: u32

record os =
  os_k :: kernel
  os_v :: screen
  os_idts :: "IDT_GATE_DESCRIPTOR_32 list"
  os_idtr :: IDT_IDTR_32
  os_keymousefifo :: u32

definition OS_IDT_TOTAL_INTERRUPTS :: nat where "OS_IDT_TOTAL_INTERRUPTS = 256"
definition OS_IDT_AR_INTGATE32 :: u8 where "OS_IDT_AR_INTGATE32 = 0x8e"

text \<open>The memory is shared: the one of the kernel's part is the current one.\<close>

definition on_kernel :: "(kernel \<Rightarrow> kernel option) \<Rightarrow> os \<Rightarrow> os option" where
  "on_kernel f s = do { k \<leftarrow> f (os_k s); Some (s\<lparr>os_k := k\<rparr>) }"

definition os_screen :: "os \<Rightarrow> screen" where
  "os_screen s = (os_v s)\<lparr>vs_gfx := (vs_gfx (os_v s))\<lparr>gf_mm := ks_mm (os_k s)\<rparr>\<rparr>"

definition set_screen :: "screen \<Rightarrow> os \<Rightarrow> os" where
  "set_screen v s = s\<lparr>os_v := v, os_k := (os_k s)\<lparr>ks_mm := gf_mm (vs_gfx v)\<rparr>\<rparr>"

definition on_screen_os :: "(screen \<Rightarrow> screen option) \<Rightarrow> os \<Rightarrow> os option" where
  "on_screen_os f s = do { v \<leftarrow> f (os_screen s); Some (set_screen v s) }"

section \<open>The table\<close>

definition get_keymousefifo :: "os \<Rightarrow> u32" where
  "get_keymousefifo s = os_keymousefifo s"

definition set_gatedesc :: "IDT_GATE_DESCRIPTOR_32 \<Rightarrow> u32 \<Rightarrow> u16 \<Rightarrow> u8 \<Rightarrow> IDT_GATE_DESCRIPTOR_32" where
  "set_gatedesc gd offset selector access_right =
     gd\<lparr>gd_offset_1 := ucast (offset AND 0xffff), gd_selector := selector, gd_zero := 0x0, gd_type_attr := access_right,
       gd_offset_2 := ucast (drop_bit 16 offset AND 0xffff)\<rparr>"

text \<open>The loop over the gates; \<open>n\<close> is the number of gates left, \<open>handlers\<close> the array of the assembly stubs.\<close>

fun idt_init_loop :: "nat \<Rightarrow> nat \<Rightarrow> u32 list \<Rightarrow> IDT_GATE_DESCRIPTOR_32 list \<Rightarrow> IDT_GATE_DESCRIPTOR_32 list option" where
  "idt_init_loop 0 i handlers idts = Some idts"
| "idt_init_loop (Suc n) i handlers idts = do {
     gd \<leftarrow> aget idts (int i);
     h \<leftarrow> aget handlers (int i);
     idts \<leftarrow> aset idts (int i) (set_gatedesc gd h (ucast OS_GDT_KERNEL_CODE_SEGMENT_SELECTOR) OS_IDT_AR_INTGATE32);
     idt_init_loop n (Suc i) handlers idts
   }"

definition idt_init :: "u32 list \<Rightarrow> u32 \<Rightarrow> u32 \<Rightarrow> os \<Rightarrow> os option" where
  "idt_init handlers idts_addr fifobuf s = do {
     s \<leftarrow> on_kernel (\<lambda>k. Some (mpfifo32_init (os_keymousefifo s) fifobuf (replicate 512 0) 512 None k)) s;
     let idtr = (os_idtr s)\<lparr>ir_size := of_nat (8 * OS_IDT_TOTAL_INTERRUPTS - 1), ir_offset := idts_addr\<rparr>;
     idts \<leftarrow> idt_init_loop OS_IDT_TOTAL_INTERRUPTS 0 handlers (os_idts s);
     on_kernel (\<lambda>k. Some (on_cpu (idt_load (ir_size idtr) (ir_offset idtr)) k)) (s\<lparr>os_idtr := idtr, os_idts := idts\<rparr>)
   }"

section \<open>The handlers\<close>

definition int3h :: "os \<Rightarrow> os option" where
  "int3h s = Some s"

text \<open>Read a byte from the input controller, end the interrupt, and put the byte into the FIFO.\<close>

definition input_interrupt :: "(u16 \<Rightarrow> io_event list \<Rightarrow> u8) \<Rightarrow> u8 \<Rightarrow> int \<Rightarrow> os \<Rightarrow> os option" where
  "input_interrupt dev irq start s =
     on_kernel (\<lambda>k.
       let (data, c) = io_in8 dev PS2KBC_PORT_DATA_RW (ks_cpu k);
           k = k\<lparr>ks_cpu := PIC_sendEOI irq c\<rparr>
       in do { (k, _) \<leftarrow> mpfifo32_enqueue (os_keymousefifo s) (uint data + start) k; Some k }) s"

definition int2ch :: "(u16 \<Rightarrow> io_event list \<Rightarrow> u8) \<Rightarrow> os \<Rightarrow> os option" where
  "int2ch dev s = input_interrupt dev 12 DEV_FIFO_MOUSE_START s"

definition int21h :: "(u16 \<Rightarrow> io_event list \<Rightarrow> u8) \<Rightarrow> os \<Rightarrow> os option" where
  "int21h dev s = input_interrupt dev 1 DEV_FIFO_KBD_START s"

definition int20h :: "os \<Rightarrow> os option" where
  "int20h s = on_kernel (\<lambda>k. timer_int_handler (on_cpu (PIC_sendEOI 0) k)) s"

definition idt99 :: "os \<Rightarrow> os option" where
  "idt99 s = on_screen_os (kfprint (map (\<lambda>c. of_nat (of_char c)) ''idt 99'') 4) s"

definition idt_zero :: "os \<Rightarrow> os option" where
  "idt_zero s = on_screen_os (kfprint (map (\<lambda>c. of_nat (of_char c)) ''Divide by zero error'' @ [10]) 4) s"

definition idt_int_default_handler :: "(u16 \<Rightarrow> io_event list \<Rightarrow> u8) \<Rightarrow> u32 \<Rightarrow> os \<Rightarrow> os option" where
  "idt_int_default_handler dev interrupt_number s =
     (if interrupt_number = 0x3 then int3h s
      else if interrupt_number = 0x20 then int20h s
      else if interrupt_number = 0x2c then int2ch dev s
      else if interrupt_number = 0x21 then int21h dev s
      else if interrupt_number \<ge> 0x20 \<and> interrupt_number < 0x30 then
        (if interrupt_number = 0x20 + 7 \<or> interrupt_number = 0x28 + 7 then Some s
         else on_kernel (\<lambda>k. Some (on_cpu (PIC_sendEOI (ucast ((interrupt_number AND 0xff) - 0x20))) k)) s)
      else if interrupt_number = 99 then idt99 s
      else Some s)"

section \<open>Gates\<close>

text \<open>The address the processor calls through a gate.\<close>

definition gate_offset :: "IDT_GATE_DESCRIPTOR_32 \<Rightarrow> u32" where
  "gate_offset gd = push_bit 16 (ucast (gd_offset_2 gd)) OR ucast (gd_offset_1 gd)"

lemma gate_offset_set: "gate_offset (set_gatedesc gd h sel ar) = h"
  by (rule bit_word_eqI) (auto simp: gate_offset_def set_gatedesc_def and_lit bit_simps)

lemma idt_init_loop_ok:
  assumes "i + n \<le> length idts" "i + n \<le> length handlers"
  shows "\<exists>idts'. idt_init_loop n i handlers idts = Some idts' \<and> length idts' = length idts \<and>
    (\<forall>j<length idts. idts' ! j = (if i \<le> j \<and> j < i + n
       then set_gatedesc (idts ! j) (handlers ! j) (ucast OS_GDT_KERNEL_CODE_SEGMENT_SELECTOR) OS_IDT_AR_INTGATE32 else idts ! j))"
  using assms
proof (induction n arbitrary: i idts)
  case (Suc n)
  let ?g = "set_gatedesc (idts ! i) (handlers ! i) (ucast OS_GDT_KERNEL_CODE_SEGMENT_SELECTOR) OS_IDT_AR_INTGATE32"
  have s: "idt_init_loop (Suc n) i handlers idts = idt_init_loop n (Suc i) handlers (idts[i := ?g])"
    using Suc.prems by (simp add: aget_in aset_in)
  obtain r where r: "idt_init_loop n (Suc i) handlers (idts[i := ?g]) = Some r" "length r = length idts"
    "\<forall>j<length idts. r ! j = (if Suc i \<le> j \<and> j < Suc i + n
       then set_gatedesc (idts[i := ?g] ! j) (handlers ! j) (ucast OS_GDT_KERNEL_CODE_SEGMENT_SELECTOR) OS_IDT_AR_INTGATE32
       else idts[i := ?g] ! j)"
    using Suc.IH [of "Suc i" "idts[i := ?g]"] Suc.prems by auto
  have "r ! j = (if i \<le> j \<and> j < i + Suc n
       then set_gatedesc (idts ! j) (handlers ! j) (ucast OS_GDT_KERNEL_CODE_SEGMENT_SELECTOR) OS_IDT_AR_INTGATE32 else idts ! j)"
    if "j < length idts" for j
    using r(3) that by (cases "j = i") (auto simp: nth_list_update)
  then show ?case using s r by auto
qed auto

text \<open>
  Setting up the table: every one of the 256 gates leads to its assembly stub through the kernel code
  segment as an interrupt gate, the processor's table register covers the whole table, and the FIFO
  of the input devices is empty with room for 512 values and wakes no task.
\<close>

theorem idt_init_gates:
  assumes "length handlers = 256" "length (os_idts s) = 256" "os_keymousefifo s \<noteq> 0" "fifobuf \<noteq> 0"
  shows "\<exists>s'. idt_init handlers idts_addr fifobuf s = Some s' \<and> length (os_idts s') = 256 \<and>
    (\<forall>i<256. gate_offset (os_idts s' ! i) = handlers ! i \<and> gd_selector (os_idts s' ! i) = 16 \<and> gd_type_attr (os_idts s' ! i) = 0x8e) \<and>
    cpu_idtr (ks_cpu (os_k s')) = (2047, idts_addr) \<and>
    fifo_contents (mp_fifo32 (ks_fifos (os_k s') (os_keymousefifo s))) = [] \<and>
    fifo_buflen (mp_fifo32 (ks_fifos (os_k s') (os_keymousefifo s))) = 512 \<and>
    mp_task (ks_fifos (os_k s') (os_keymousefifo s)) = None"
proof -
  obtain r where r: "idt_init_loop 256 0 handlers (os_idts s) = Some r" "length r = 256"
    "\<forall>j<256. r ! j = set_gatedesc (os_idts s ! j) (handlers ! j) (ucast OS_GDT_KERNEL_CODE_SEGMENT_SELECTOR) OS_IDT_AR_INTGATE32"
    using idt_init_loop_ok [of 0 256 "os_idts s" handlers] assms by auto
  have g: "gate_offset (r ! i) = handlers ! i \<and> gd_selector (r ! i) = 16 \<and> gd_type_attr (r ! i) = 0x8e" if "i < 256" for i
    using r(3) that by (simp add: gate_offset_set) (simp add: set_gatedesc_def OS_IDT_AR_INTGATE32_def OS_GDT_KERNEL_CODE_SEGMENT_SELECTOR_def)
  show ?thesis
    using assms r(1,2) g unfolding idt_init_def OS_IDT_TOTAL_INTERRUPTS_def
    by (simp add: on_kernel_def mpfifo32_init_def fifo_at_def set_fifo_def fifo32_init_def on_cpu_def idt_load_def emit_def
        fifo_contents_def fifo_used_def)
qed

text \<open>An example state with a table and an example screen.\<close>

definition os0 :: os where
  "os0 = \<lparr>os_k = kernel0,
     os_v = \<lparr>vs_gfx = \<lparr>gf_ctl = ex_ctl, gf_mm = ks_mm kernel0, gf_boxes = (\<lambda>_. textbox_zero)\<rparr>, vs_ctl = True, vs_posX = 8, vs_posY = 30,
       vs_bibk = \<lparr>bi_cyls = 0, bi_leds = 0, bi_vmode = 0, bi_reserve = 0, bi_scrnx = 320, bi_scrny = 200, bi_vram = 0xa0000\<rparr>,
       vs_mouseX = 160, vs_mouseY = 100, vs_desktop = None, vs_mouse = None, vs_window = None, vs_console = None\<rparr>,
     os_idts = replicate 256 \<lparr>gd_offset_1 = 0, gd_selector = 0, gd_zero = 0, gd_type_attr = 0, gd_offset_2 = 0\<rparr>,
     os_idtr = \<lparr>ir_size = 0, ir_offset = 0\<rparr>, os_keymousefifo = 64\<rparr>"

theorem idt_init_gates_witness:
  "\<exists>s'. idt_init (replicate 256 0x12345678) 0x9000 0xa000 os0 = Some s' \<and> gate_offset (os_idts s' ! 33) = 0x12345678"
proof -
  have "length (replicate 256 (0x12345678 :: u32)) = 256" "length (os_idts os0) = 256" "os_keymousefifo os0 \<noteq> 0" "(0xa000 :: u32) \<noteq> 0"
    by (simp_all add: os0_def)
  from idt_init_gates [OF this, of "0x9000"] obtain s' where s': "idt_init (replicate 256 0x12345678) 0x9000 0xa000 os0 = Some s'"
    "\<forall>i<256. gate_offset (os_idts s' ! i) = replicate 256 0x12345678 ! i \<and> gd_selector (os_idts s' ! i) = 16 \<and> gd_type_attr (os_idts s' ! i) = 0x8e"
    by blast
  have "(33 :: nat) < 256" by simp
  with s'(2) [rule_format, of 33] s'(1) show ?thesis by (simp only: nth_replicate) blast
qed

section \<open>Input interrupts\<close>

definition input_start :: "u32 \<Rightarrow> int" where
  "input_start n = (if n = 0x21 then DEV_FIFO_KBD_START else DEV_FIFO_MOUSE_START)"

lemma enqueue_cpu: "mpfifo32_enqueue f x k = Some (k', r) \<Longrightarrow> ks_cpu k' = ks_cpu k"
  by (auto simp: mpfifo32_enqueue_def set_fifo_def on_tasks_def bind_eq_Some_conv2 Let_def split: if_splits option.splits prod.splits)



end
