(* ===== verification/Disk.thy ===== *)
theory Disk
  imports Memory Machine
begin

text \<open>
  Reading the disk (\<^verbatim>\<open>src/src/disk/disk.{h,c}\<close>, \<^verbatim>\<open>src/src/disk/dstream.{h,c}\<close>). What the drive answers is a pair of
  functions \<open>dev8\<close>, \<open>dev16\<close> of the port and the log of port accesses; a buffer is an address in the
  memory. The local array of a call of \<^verbatim>\<open>dstream_read\<close> at recursion depth \<open>d\<close> is at the address \<open>frame d\<close>.
\<close>

section \<open>The drive\<close>

definition ATA_DATA_RW :: u16 where "ATA_DATA_RW = 0x1f0 + 0"
definition ATA_SECTOR_COUNT_RW :: u16 where "ATA_SECTOR_COUNT_RW = 0x1f0 + 2"
definition ATA_LBA_LOW_RW :: u16 where "ATA_LBA_LOW_RW = 0x1f0 + 3"
definition ATA_LBA_MID_RW :: u16 where "ATA_LBA_MID_RW = 0x1f0 + 4"
definition ATA_LBA_HIGH_RW :: u16 where "ATA_LBA_HIGH_RW = 0x1f0 + 5"
definition ATA_DEVICE_OR_HEAD_RW :: u16 where "ATA_DEVICE_OR_HEAD_RW = 0x1f0 + 6"
definition ATA_STATUS_R :: u16 where "ATA_STATUS_R = 0x1f0 + 7"
definition ATA_CMD_W :: u16 where "ATA_CMD_W = 0x1f0 + 7"
definition OS_DISK_SECTOR_SIZE :: int where "OS_DISK_SECTOR_SIZE = 512"
definition OS_DISK_TYPE_REAL :: u32 where "OS_DISK_TYPE_REAL = 0"

lemmas ata_defs = ATA_DATA_RW_def ATA_SECTOR_COUNT_RW_def ATA_LBA_LOW_RW_def ATA_LBA_MID_RW_def ATA_LBA_HIGH_RW_def
  ATA_DEVICE_OR_HEAD_RW_def ATA_STATUS_R_def ATA_CMD_W_def

type_synonym dev8 = "u16 \<Rightarrow> io_event list \<Rightarrow> u8"
type_synonym dev16 = "u16 \<Rightarrow> io_event list \<Rightarrow> u16"

record DISK =
  dk_type :: u32
  dk_sector_size :: int

definition io_in16 :: "dev16 \<Rightarrow> u16 \<Rightarrow> cpu \<Rightarrow> u16 \<times> cpu" where
  "io_in16 dev port c = (let v = dev port (cpu_log c) in (v, emit (In16 port v) c))"

text \<open>A sixteen bit store, low byte first.\<close>

definition put16 :: "u32 \<Rightarrow> u16 \<Rightarrow> memory \<Rightarrow> memory" where
  "put16 a w m = m(a := ucast w, a + 1 := ucast (drop_bit 8 w))"

partial_function (option) disk_wait :: "dev8 \<Rightarrow> cpu \<Rightarrow> cpu option" where
  "disk_wait dev8 c =
     (let (s, c) = io_in8 dev8 ATA_STATUS_R c
      in if s AND 0x08 \<noteq> 0 then Some c else disk_wait dev8 c)"

fun disk_words :: "dev16 \<Rightarrow> nat \<Rightarrow> u32 \<Rightarrow> cpu \<times> memory \<Rightarrow> cpu \<times> memory" where
  "disk_words dev16 0 inbuf s = s"
| "disk_words dev16 (Suc n) inbuf (c, m) =
     (let (w, c) = io_in16 dev16 ATA_DATA_RW c in disk_words dev16 n (inbuf + 2) (c, put16 inbuf w m))"

text \<open>\<open>n\<close> is the number of sectors left.\<close>

fun disk_sectors :: "dev8 \<Rightarrow> dev16 \<Rightarrow> nat \<Rightarrow> u32 \<Rightarrow> cpu \<times> memory \<Rightarrow> (cpu \<times> memory) option" where
  "disk_sectors dev8 dev16 0 inbuf s = Some s"
| "disk_sectors dev8 dev16 (Suc n) inbuf (c, m) = do {
     c \<leftarrow> disk_wait dev8 c;
     disk_sectors dev8 dev16 n (inbuf + 512) (disk_words dev16 (nat (OS_DISK_SECTOR_SIZE div 2)) inbuf (c, m))
   }"

definition disk_read_sector :: "dev8 \<Rightarrow> dev16 \<Rightarrow> u32 \<Rightarrow> int \<Rightarrow> u32 \<Rightarrow> cpu \<times> memory \<Rightarrow> ((cpu \<times> memory) \<times> int) option" where
  "disk_read_sector dev8 dev16 lba total_sectors buf s =
     (let lba = lba AND 0x0fffffff;
          (c, m) = s;
          c = io_out8 ATA_SECTOR_COUNT_RW (word_of_int total_sectors) c;
          c = io_out8 ATA_LBA_LOW_RW (ucast (lba AND 0xff)) c;
          c = io_out8 ATA_LBA_MID_RW (ucast (drop_bit 8 lba AND 0xff)) c;
          c = io_out8 ATA_LBA_HIGH_RW (ucast (drop_bit 16 lba AND 0xff)) c;
          c = io_out8 ATA_DEVICE_OR_HEAD_RW (ucast (drop_bit 24 lba OR 0x40)) c;
          c = io_out8 ATA_CMD_W 0x20 c
      in do { s \<leftarrow> disk_sectors dev8 dev16 (nat total_sectors) buf (c, m); Some (s, 0) })"

definition disk_search_and_init :: DISK where
  "disk_search_and_init = \<lparr>dk_type = OS_DISK_TYPE_REAL, dk_sector_size = OS_DISK_SECTOR_SIZE\<rparr>"

text \<open>\<open>disk\<close> is the address of the only disk structure; 0 is \<^verbatim>\<open>NULL\<close>.\<close>

definition disk_get :: "u32 \<Rightarrow> int \<Rightarrow> u32" where
  "disk_get disk index = (if index \<noteq> 0 then 0 else disk)"

definition disk_read_block :: "dev8 \<Rightarrow> dev16 \<Rightarrow> u32 \<Rightarrow> u32 \<Rightarrow> u32 \<Rightarrow> int \<Rightarrow> u32 \<Rightarrow> cpu \<times> memory \<Rightarrow> ((cpu \<times> memory) \<times> int) option" where
  "disk_read_block dev8 dev16 disk idisk lba total_sectors buf s =
     (if idisk \<noteq> disk then Some (s, - EIO) else disk_read_sector dev8 dev16 lba total_sectors buf s)"

section \<open>Streams\<close>

record DISK_STREAM =
  ds_pos :: int
  ds_disk :: u32

definition sizeof_DISK_STREAM :: u32 where "sizeof_DISK_STREAM = 8"

text \<open>The result is the address of the new stream, 0 for \<^verbatim>\<open>NULL\<close>, and its contents.\<close>

definition dstream_new :: "u32 \<Rightarrow> int \<Rightarrow> mm \<Rightarrow> (mm \<times> u32 \<times> DISK_STREAM) option" where
  "dstream_new disk disk_id m =
     (let d = disk_get disk disk_id
      in if d = 0 then Some (m, 0, \<lparr>ds_pos = 0, ds_disk = 0\<rparr>)
         else do {
           (m, p) \<leftarrow> kzalloc sizeof_DISK_STREAM m;
           if p = 0 then None else Some (m, p, \<lparr>ds_pos = 0, ds_disk = d\<rparr>)
         })"

definition dstream_seek :: "DISK_STREAM option \<Rightarrow> int \<Rightarrow> DISK_STREAM option \<times> int" where
  "dstream_seek stream pos =
     (case stream of None \<Rightarrow> (None, - EIO) | Some s \<Rightarrow> (Some (s\<lparr>ds_pos := pos\<rparr>), 0))"

text \<open>Division and remainder of signed numbers, rounded towards zero.\<close>

definition cdiv :: "int \<Rightarrow> int \<Rightarrow> int" where
  "cdiv a b = (if a < 0 then - ((- a) div b) else a div b)"

definition crem :: "int \<Rightarrow> int \<Rightarrow> int" where
  "crem a b = (if a < 0 then - ((- a) mod b) else a mod b)"

partial_function (option) dstream_read :: "dev8 \<Rightarrow> dev16 \<Rightarrow> u32 \<Rightarrow> (nat \<Rightarrow> u32) \<Rightarrow> nat \<Rightarrow> DISK_STREAM \<Rightarrow> u32 \<Rightarrow> int \<Rightarrow>
    cpu \<times> memory \<Rightarrow> (DISK_STREAM \<times> (cpu \<times> memory) \<times> int) option" where
  "dstream_read dev8 dev16 disk frame d ds out amount s =
     (let sector_start = cdiv (ds_pos ds) OS_DISK_SECTOR_SIZE;
          offset_start = crem (ds_pos ds) OS_DISK_SECTOR_SIZE;
          buf = frame d
      in do {
        (s, res) \<leftarrow> disk_read_block dev8 dev16 disk (ds_disk ds) (word_of_int sector_start) 1 buf s;
        if res < 0 then Some (ds, s, - EIO)
        else
          (let bytes_to_read = (if offset_start + amount < OS_DISK_SECTOR_SIZE then amount else OS_DISK_SECTOR_SIZE - offset_start);
               m = fold (\<lambda>i m. m(px out i := m (px buf (offset_start + i)))) [0..bytes_to_read - 1] (snd s);
               s = (fst s, m);
               ds = ds\<lparr>ds_pos := ds_pos ds + bytes_to_read\<rparr>
           in if amount > bytes_to_read then do {
                (ds, s, res) \<leftarrow> dstream_read dev8 dev16 disk frame (Suc d) ds (px out bytes_to_read) (amount - bytes_to_read) s;
                Some (ds, s, 0)
              }
              else Some (ds, s, 0))
      })"

section \<open>What a drive answers\<close>

text \<open>
  The registers of the drive as the port accesses leave them (ATA, 28-bit addressing): the four
  address bytes and the number of words read since the last command.
\<close>

record ata =
  at_low :: u8
  at_mid :: u8
  at_high :: u8
  at_head :: u8
  at_words :: nat

fun ata_event :: "io_event \<Rightarrow> ata \<Rightarrow> ata" where
  "ata_event (Out8 p v) a =
     (if p = 0x1f3 then a\<lparr>at_low := v\<rparr> else if p = 0x1f4 then a\<lparr>at_mid := v\<rparr> else if p = 0x1f5 then a\<lparr>at_high := v\<rparr>
      else if p = 0x1f6 then a\<lparr>at_head := v\<rparr> else if p = 0x1f7 then a\<lparr>at_words := 0\<rparr> else a)"
| "ata_event (In16 p v) a = (if p = 0x1f0 then a\<lparr>at_words := Suc (at_words a)\<rparr> else a)"
| "ata_event e a = a"

definition ata_run :: "io_event list \<Rightarrow> ata" where
  "ata_run es = fold ata_event es \<lparr>at_low = 0, at_mid = 0, at_high = 0, at_head = 0, at_words = 0\<rparr>"

definition ata_lba :: "ata \<Rightarrow> int" where
  "ata_lba a = uint (at_low a) + 256 * uint (at_mid a) + 65536 * uint (at_high a) + 16777216 * (uint (at_head a) mod 16)"

text \<open>A drive with the given contents: it is ready, and the data port gives the words of the addressed sector in turn.\<close>

definition drive :: "(int \<Rightarrow> u8) \<Rightarrow> dev8 \<Rightarrow> dev16 \<Rightarrow> bool" where
  "drive content dev8 dev16 \<longleftrightarrow> (\<forall>es. dev8 0x1f7 es AND 0x08 \<noteq> 0 \<and>
     (let a = ata_run es; i = 512 * ata_lba a + 2 * int (at_words a)
      in ucast (dev16 0x1f0 es) = content i \<and> ucast (drop_bit 8 (dev16 0x1f0 es)) = content (i + 1)))"

lemma driveD:
  assumes "drive content dev8 dev16"
  shows "dev8 0x1f7 es AND 0x08 \<noteq> 0"
    "ucast (dev16 0x1f0 es) = content (512 * ata_lba (ata_run es) + 2 * int (at_words (ata_run es)))"
    "ucast (drop_bit 8 (dev16 0x1f0 es)) = content (512 * ata_lba (ata_run es) + 2 * int (at_words (ata_run es)) + 1)"
  using assms by (simp_all add: drive_def Let_def)

lemma ata_run_append [simp]: "ata_run (es @ xs) = fold ata_event xs (ata_run es)"
  by (simp add: ata_run_def)

lemma disk_words_ok:
  assumes "drive content dev8 dev16" "2 * int n \<le> 2 ^ 32"
    and "i0 = 512 * ata_lba (ata_run (cpu_log c)) + 2 * int (at_words (ata_run (cpu_log c)))"
  shows "\<exists>c' m'. disk_words dev16 n buf (c, m) = (c', m') \<and>
    (\<forall>i\<in>{0..<2 * int n}. m' (px buf i) = content (i0 + i)) \<and> (\<forall>p. p \<notin> px buf ` {0..<2 * int n} \<longrightarrow> m' p = m p)"
  using assms(2,3)
proof (induction n arbitrary: buf c m i0)
  case (Suc n)
  let ?w = "dev16 0x1f0 (cpu_log c)"
  let ?c = "emit (In16 0x1f0 ?w) c" and ?m = "put16 buf ?w m"
  have "i0 + 2 = 512 * ata_lba (ata_run (cpu_log ?c)) + 2 * int (at_words (ata_run (cpu_log ?c)))"
    using Suc.prems(2) by (simp add: emit_def ata_lba_def)
  from Suc.IH [OF _ this, of "buf + 2" ?m] Suc.prems(1) obtain c' m' where
    r: "disk_words dev16 n (buf + 2) (?c, ?m) = (c', m')"
    "\<forall>i\<in>{0..<2 * int n}. m' (px (buf + 2) i) = content (i0 + 2 + i)" "\<forall>p. p \<notin> px (buf + 2) ` {0..<2 * int n} \<longrightarrow> m' p = ?m p"
    by auto
  have sh: "px (buf + 2) i = px buf (i + 2)" for i by (simp add: px_def)
  have pp: "?m (px buf 0) = content i0" "?m (px buf 1) = content (i0 + 1)"
    using driveD(2,3) [OF assms(1), of "cpu_log c"] Suc.prems(2) by (simp_all add: put16_def px_def)
  have im: "px buf ` {0..<2 * int (Suc n)} = insert (px buf 0) (insert (px buf 1) (px (buf + 2) ` {0..<2 * int n}))"
  proof -
    have "{0..<2 * int (Suc n)} = insert 0 (insert 1 ((\<lambda>i. i + 2) ` {0..<2 * int n}))"
      by (auto simp: image_iff)
    moreover have "px (buf + 2) ` {0..<2 * int n} = px buf ` (\<lambda>i. i + 2) ` {0..<2 * int n}" unfolding image_image by (rule image_cong) (simp_all only: sh)
    ultimately show ?thesis by (simp only: image_insert)
  qed
  have out: "px buf 0 \<notin> px (buf + 2) ` {0..<2 * int n}" "px buf 1 \<notin> px (buf + 2) ` {0..<2 * int n}"
    using Suc.prems(1) by (auto simp: sh px_eq_iff)
  have "m' (px buf i) = content (i0 + i)" if "i \<in> {0..<2 * int (Suc n)}" for i
  proof -
    from that have "i = 0 \<or> i = 1 \<or> 2 \<le> i \<and> i < 2 * int n + 2" by simp arith
    then consider "i = 0" | "i = 1" | "2 \<le> i" "i < 2 * int n + 2" by blast
    then show ?thesis
    proof cases
      case 3
      then show ?thesis using r(2) [rule_format, of "i - 2"] by (simp add: sh)
    qed (use r(3) out pp in auto)
  qed
  moreover have "m' p = m p" if "p \<notin> px buf ` {0..<2 * int (Suc n)}" for p
    using that r(3) unfolding im by (auto simp: put16_def px_def)
  ultimately show ?case using r(1) by (simp add: io_in16_def ata_defs Let_def)
qed simp

lemma low_byte: "uint (ucast (x AND 0xff) :: u8) = uint (x :: u32) mod 256"
  by (simp add: and_lit unsigned_ucast_eq take_bit_eq_mod uint_mod)

lemma uint_shifted: "uint (drop_bit n x) = uint (x :: u32) div 2 ^ n"
  using uint_bounded [of x]
  by (simp only: unsigned_drop_bit_eq) (simp add: drop_bit_eq_div take_bit_int_eq_self)

lemma head_byte: "uint (ucast (drop_bit 24 x OR 0x40) :: u8) mod 16 = uint (x :: u32) div 2 ^ 24 mod 16"
proof -
  have o: "(k OR 64) mod 16 = k mod 16" for k :: int
  proof -
    have "take_bit 4 (k OR 64) = take_bit 4 k OR take_bit 4 64" by (rule take_bit_or)
    then show ?thesis by (simp add: take_bit_eq_mod)
  qed
  have "uint (ucast (y OR 0x40) :: u8) mod 16 = uint (y OR 0x40) mod 16" for y :: u32
    by (simp add: unsigned_ucast_eq take_bit_eq_mod mod_mod_cancel)
  also have "uint (y OR 0x40) mod 16 = (uint y OR 64) mod 16" for y :: u32 by (simp add: uint_or)
  finally show ?thesis by (simp only: o uint_shifted)
qed

lemma lba_bytes:
  assumes "0 \<le> x" "x < 2 ^ 28"
  shows "x mod 256 + 256 * (x div 2 ^ 8 mod 256) + 65536 * (x div 2 ^ 16 mod 256) + 16777216 * (x div 2 ^ 24 mod 16) = (x :: int)"
proof -
  have "x div 2 ^ 24 \<le> (2 ^ 28 - 1) div 2 ^ 24" using assms by (intro zdiv_mono1) simp_all
  then have "x div 2 ^ 24 < 16" by simp
  then have "x div 2 ^ 24 mod 16 = x div 2 ^ 24" using assms(1) by (intro mod_pos_pos_trivial) simp_all
  moreover have "x div 2 ^ 8 = x div 256" "x div 2 ^ 16 = x div 256 div 256" "x div 2 ^ 24 = x div 256 div 256 div 256"
    by simp_all
  moreover have "r + 256 * r1 + 65536 * r2 + 16777216 * q = y"
    if "y = y1 * 256 + r" "y1 = y2 * 256 + r1" "y2 = q * 256 + r2" for y y1 y2 q r r1 r2 :: int
    using that by linarith
  from this [OF div_mult_mod_eq [symmetric] div_mult_mod_eq [symmetric] div_mult_mod_eq [symmetric]]
  have "x mod 256 + 256 * (x div 256 mod 256) + 65536 * (x div 256 div 256 mod 256) + 16777216 * (x div 256 div 256 div 256) = x" .
  ultimately show ?thesis by (simp only:)
qed

lemma ata_command:
  "ata_run (es @ [Out8 0x1f2 n, Out8 0x1f3 lo, Out8 0x1f4 mi, Out8 0x1f5 hi, Out8 0x1f6 he, Out8 0x1f7 0x20, In8 0x1f7 v]) =
     \<lparr>at_low = lo, at_mid = mi, at_high = hi, at_head = he, at_words = 0\<rparr>"
  by simp

lemma disk_read_block_ok:
  assumes "drive content dev8 dev16" "0 \<le> sector" "sector < 2 ^ 28"
  shows "\<exists>c' m'. disk_read_block dev8 dev16 disk disk (word_of_int sector) 1 buf (c, m) = Some ((c', m'), 0) \<and>
    (\<forall>i\<in>{0..<512}. m' (px buf i) = content (512 * sector + i)) \<and> (\<forall>p. p \<notin> px buf ` {0..<512} \<longrightarrow> m' p = m p)"
proof -
  let ?l = "word_of_int sector :: u32"
  have u: "uint ?l = sector" using assms(2,3) by (simp add: uint_word_of_int)
  have "uint (?l AND 0x0fffffff) = take_bit 28 sector"
    using take_bit_eq_mask [of 28 sector] by (simp only: uint_and u) (simp add: mask_eq_exp_minus_1)
  then have l: "?l AND 0x0fffffff = ?l" using u assms(2,3) by (simp add: word_uint_eq_iff take_bit_int_eq_self)
  note lba = lba_bytes [OF assms(2,3)]
  let ?c = "io_out8 0x1f7 0x20 (io_out8 0x1f6 (ucast (drop_bit 24 ?l OR 0x40)) (io_out8 0x1f5 (ucast (drop_bit 16 ?l AND 0xff))
    (io_out8 0x1f4 (ucast (drop_bit 8 ?l AND 0xff)) (io_out8 0x1f3 (ucast (?l AND 0xff)) (io_out8 0x1f2 1 c)))))"
  let ?c1 = "emit (In8 0x1f7 (dev8 0x1f7 (cpu_log ?c))) ?c"
  have w: "disk_wait dev8 ?c = Some ?c1"
    using driveD(1) [OF assms(1)] by (subst disk_wait.simps) (simp add: io_in8_def ata_defs Let_def)
  have "ata_lba (ata_run (cpu_log ?c1)) = sector" "at_words (ata_run (cpu_log ?c1)) = 0"
    unfolding io_out8_def emit_def ata_lba_def by (simp_all add: ata_command low_byte uint_shifted head_byte u lba [simplified] del: ata_run_append)
  then have "512 * sector = 512 * ata_lba (ata_run (cpu_log ?c1)) + 2 * int (at_words (ata_run (cpu_log ?c1)))" by simp
  from disk_words_ok [OF assms(1) _ this, of 256 buf m] obtain c' m' where
    "disk_words dev16 256 buf (?c1, m) = (c', m')" "\<forall>i\<in>{0..<512}. m' (px buf i) = content (512 * sector + i)"
    "\<forall>p. p \<notin> px buf ` {0..<512} \<longrightarrow> m' p = m p" by auto
  moreover from this(1) w have "disk_sectors dev8 dev16 (Suc 0) buf (?c, m) = Some (c', m')"
    by (simp add: OS_DISK_SECTOR_SIZE_def)
  ultimately show ?thesis
    unfolding disk_read_block_def disk_read_sector_def Let_def l ata_defs by (simp del: disk_sectors.simps)
qed

section \<open>Reading a stream\<close>

text \<open>The bytes of the buffers of the calls at the depths \<open>ds\<close>.\<close>

definition frames :: "(nat \<Rightarrow> u32) \<Rightarrow> nat set \<Rightarrow> u32 set" where
  "frames frame ds = (\<Union>e\<in>ds. px (frame e) ` {0..<512})"

definition stream_copy :: "u32 \<Rightarrow> u32 \<Rightarrow> int \<Rightarrow> int \<Rightarrow> memory \<Rightarrow> memory" where
  "stream_copy out buf off n m = fold (\<lambda>i m. m(px out i := m (px buf (off + i)))) [0..n - 1] m"

lemma stream_copy_ok:
  assumes "0 \<le> off" "off + n \<le> 512" "n \<le> 2 ^ 32" "px out ` {0..<n} \<inter> px buf ` {0..<512} = {}"
    and m: "\<forall>i\<in>{0..<512}. m (px buf i) = f i"
  shows "(\<forall>i\<in>{0..<n}. stream_copy out buf off n m (px out i) = f (off + i)) \<and>
    (\<forall>p. p \<notin> px out ` {0..<n} \<longrightarrow> stream_copy out buf off n m p = m p)"
proof -
  have "inj_on (px out) {0..<n}" using assms(3) by (auto simp: inj_on_def px_eq_iff)
  moreover have "m' (px buf (off + i)) = f (off + i)"
    if "i \<in> {0..<n}" "\<forall>p. p \<notin> px out ` ({0..<n} - {i}) \<longrightarrow> m' p = m p" for i m'
  proof -
    have "off + i \<in> {0..<512}" using that(1) assms(1,2) by auto
    moreover from this have "px buf (off + i) \<notin> px out ` ({0..<n} - {i})" using assms(4) by blast
    ultimately show ?thesis using that(2) m by auto
  qed
  moreover have "{0..n - 1} = {0..<n}" by auto
  ultimately show ?thesis
    using fold_write_once [of "px out" "{0..<n}" m "\<lambda>i m. m (px buf (off + i))" "\<lambda>i. f (off + i)" "[0..n - 1]"]
    unfolding stream_copy_def by auto
qed

text \<open>One call, when the position is not negative: it reads up to the end of the sector and calls itself for the rest.\<close>

lemma dstream_read_step:
  assumes "drive content dev8 dev16" "0 \<le> pos" "0 \<le> amount" "pos + amount < 2 ^ 31"
    and "px out ` {0..<amount} \<inter> px (frame d) ` {0..<512} = {}"
    and n: "n = (if pos mod 512 + amount < 512 then amount else 512 - pos mod 512)"
  shows "\<exists>c' m'. dstream_read dev8 dev16 disk frame d \<lparr>ds_pos = pos, ds_disk = disk\<rparr> out amount (c, m) =
      (if amount > n then
         dstream_read dev8 dev16 disk frame (Suc d) \<lparr>ds_pos = pos + n, ds_disk = disk\<rparr> (px out n) (amount - n) (c', m') \<bind>
           (\<lambda>(ds, s, res). Some (ds, s, 0))
       else Some (\<lparr>ds_pos = pos + n, ds_disk = disk\<rparr>, (c', m'), 0)) \<and>
    (\<forall>i\<in>{0..<n}. m' (px out i) = content (pos + i)) \<and>
    (\<forall>p. p \<notin> px out ` {0..<n} \<and> p \<notin> px (frame d) ` {0..<512} \<longrightarrow> m' p = m p)"
proof -
  let ?b = "frame d"
  have sec: "0 \<le> pos div 512" "pos div 512 < 2 ^ 28" using assms(2-4) by (simp_all add: pos_imp_zdiv_nonneg_iff)
  from disk_read_block_ok [OF assms(1) sec, of disk ?b c m] obtain c1 m1 where
    r: "disk_read_block dev8 dev16 disk disk (word_of_int (pos div 512)) 1 ?b (c, m) = Some ((c1, m1), 0)"
    and m1: "\<forall>i\<in>{0..<512}. m1 (px ?b i) = content (512 * (pos div 512) + i)" "\<forall>p. p \<notin> px ?b ` {0..<512} \<longrightarrow> m1 p = m p"
    by blast
  have off: "0 \<le> pos mod 512" "pos mod 512 < 512" by simp_all
  then have nn: "0 \<le> n" "n \<le> amount" "pos mod 512 + n \<le> 512" "n \<le> 2 ^ 32" using n assms(2-4) by (auto split: if_splits)
  then have "px out ` {0..<n} \<inter> px ?b ` {0..<512} = {}" using assms(5) by fastforce
  from stream_copy_ok [OF off(1) nn(3,4) this m1(1)]
  have "(\<forall>i\<in>{0..<n}. stream_copy out ?b (pos mod 512) n m1 (px out i) = content (pos + i)) \<and>
    (\<forall>p. p \<notin> px out ` {0..<n} \<longrightarrow> stream_copy out ?b (pos mod 512) n m1 p = m1 p)"
    by (simp add: add.assoc [symmetric])
  moreover have cd: "cdiv pos 512 = pos div 512" "crem pos 512 = pos mod 512" "OS_DISK_SECTOR_SIZE = 512"
    using assms(2) by (simp_all add: cdiv_def crem_def OS_DISK_SECTOR_SIZE_def)
  moreover have "dstream_read dev8 dev16 disk frame d \<lparr>ds_pos = pos, ds_disk = disk\<rparr> out amount (c, m) =
      (if amount > n then
         dstream_read dev8 dev16 disk frame (Suc d) \<lparr>ds_pos = pos + n, ds_disk = disk\<rparr> (px out n) (amount - n)
           (c1, stream_copy out ?b (pos mod 512) n m1) \<bind> (\<lambda>(ds, s, res). Some (ds, s, 0))
       else Some (\<lparr>ds_pos = pos + n, ds_disk = disk\<rparr>, (c1, stream_copy out ?b (pos mod 512) n m1), 0))"
    unfolding stream_copy_def
    by (subst dstream_read.simps, unfold cd(3)) (simp add: cd r n [symmetric] Let_def split del: if_split)
  ultimately show ?thesis using m1(2) by (intro exI conjI) (assumption, simp_all)
qed

lemma depths_step:
  assumes k: "k = 512 - pos mod 512" and "k < (amount :: int)"
  shows "{d..d + nat ((pos mod 512 + amount) div 512)} = insert d {Suc d..Suc d + nat (((pos + k) mod 512 + (amount - k)) div 512)}"
proof -
  have "pos + k = (pos - pos mod 512) + 512" by (simp add: k)
  then have z: "(pos + k) mod 512 = 0" by (simp only: minus_mod_eq_mult_div) simp
  moreover have "pos mod 512 + amount = 512 + (amount - k)" by (simp add: k)
  moreover have "(512 + y) div 512 = 1 + y div 512" for y :: int by simp
  ultimately have "(pos mod 512 + amount) div 512 = 1 + ((pos + k) mod 512 + (amount - k)) div 512"
    by (simp only: add_0_left)
  moreover have "0 \<le> ((pos + k) mod 512 + (amount - k)) div 512" using assms(2) z by (simp add: pos_imp_zdiv_nonneg_iff)
  moreover have "{d..d + nat (1 + y)} = insert d {Suc d..Suc d + nat y}" if "0 \<le> y" for y
    using that by (auto simp: nat_add_distrib)
  ultimately show ?thesis by (simp only:)
qed

lemma px_image_split:
  assumes "0 \<le> k" "k \<le> n"
  shows "px v ` {0..<n} = px v ` {0..<k} \<union> px (px v k) ` {0..<n - k}"
proof -
  have "{0..<n} = {0..<k} \<union> (\<lambda>i. k + i) ` {0..<n - k}" using assms by auto
  moreover have "px (px v k) ` {0..<n - k} = px v ` (\<lambda>i. k + i) ` {0..<n - k}"
    unfolding image_image by (rule image_cong) (simp_all add: px_def)
  ultimately show ?thesis by (simp only: image_Un)
qed

lemma dstream_read_ok:
  assumes "drive content dev8 dev16" "0 \<le> pos" "0 \<le> amount" "pos + amount < 2 ^ 31"
    and "px out ` {0..<amount} \<inter> frames frame {d..d + nat ((pos mod 512 + amount) div 512)} = {}"
  shows "\<exists>c' m'. dstream_read dev8 dev16 disk frame d \<lparr>ds_pos = pos, ds_disk = disk\<rparr> out amount (c, m) =
      Some (\<lparr>ds_pos = pos + amount, ds_disk = disk\<rparr>, (c', m'), 0) \<and>
    (\<forall>i\<in>{0..<amount}. m' (px out i) = content (pos + i)) \<and>
    (\<forall>p. p \<notin> px out ` {0..<amount} \<and> p \<notin> frames frame {d..d + nat ((pos mod 512 + amount) div 512)} \<longrightarrow> m' p = m p)"
  using assms(2-)
proof (induction "nat amount" arbitrary: pos amount out d c m rule: less_induct)
  case less
  define n where "n = (if pos mod 512 + amount < 512 then amount else 512 - pos mod 512)"
  let ?D = "\<lambda>d pos amount. {d..d + nat ((pos mod 512 + amount) div 512)}"
  have fr: "px (frame d) ` {0..<512} \<subseteq> frames frame (?D d pos amount)" unfolding frames_def by (rule UN_upper) simp
  have "px out ` {0..<amount} \<inter> px (frame d) ` {0..<512} = {}" using fr less.prems(4) by blast
  from dstream_read_step [where n = n and frame = frame and d = d, OF assms(1) less.prems(1,2,3) this n_def, of disk c m] obtain c1 m1 where
    st: "dstream_read dev8 dev16 disk frame d \<lparr>ds_pos = pos, ds_disk = disk\<rparr> out amount (c, m) =
      (if amount > n then
         dstream_read dev8 dev16 disk frame (Suc d) \<lparr>ds_pos = pos + n, ds_disk = disk\<rparr> (px out n) (amount - n) (c1, m1) \<bind>
           (\<lambda>(ds, s, res). Some (ds, s, 0))
       else Some (\<lparr>ds_pos = pos + n, ds_disk = disk\<rparr>, (c1, m1), 0))"
    and m1: "\<forall>i\<in>{0..<n}. m1 (px out i) = content (pos + i)"
      "\<forall>p. p \<notin> px out ` {0..<n} \<and> p \<notin> px (frame d) ` {0..<512} \<longrightarrow> m1 p = m p"
    by blast
  show ?case
  proof (cases "amount > n")
    case False
    then have "n = amount" using less.prems(1,2) by (simp add: n_def split: if_splits)
    then show ?thesis using st m1 fr by (auto simp: subset_iff)
  next
    case True
    define k where "k = 512 - pos mod 512"
    have k: "n = k" "1 \<le> k" "k < amount" using True by (auto simp: n_def k_def split: if_splits)
    let ?D' = "?D (Suc d) (pos + k) (amount - k)"
    have D: "?D d pos amount = insert d ?D'" by (rule depths_step [OF k_def k(3)])
    have sh: "px (px out k) i = px out (k + i)" for i by (simp add: px_def)
    have im: "px out ` {0..<amount} = px out ` {0..<k} \<union> px (px out k) ` {0..<amount - k}"
      using k by (intro px_image_split) simp_all
    have fD: "frames frame (?D d pos amount) = px (frame d) ` {0..<512} \<union> frames frame ?D'"
      unfolding D by (simp add: frames_def)
    have "nat (amount - k) < nat amount" "0 \<le> pos + k" "0 \<le> amount - k" "pos + k + (amount - k) < 2 ^ 31"
      using less.prems k by simp_all
    moreover have "px (px out k) ` {0..<amount - k} \<inter> frames frame ?D' = {}"
      using less.prems(4) unfolding im fD by blast
    ultimately have "\<exists>c' m'. dstream_read dev8 dev16 disk frame (Suc d) \<lparr>ds_pos = pos + k, ds_disk = disk\<rparr> (px out k) (amount - k) (c1, m1) =
        Some (\<lparr>ds_pos = pos + k + (amount - k), ds_disk = disk\<rparr>, (c', m'), 0) \<and>
      (\<forall>i\<in>{0..<amount - k}. m' (px (px out k) i) = content (pos + k + i)) \<and>
      (\<forall>p. p \<notin> px (px out k) ` {0..<amount - k} \<and> p \<notin> frames frame ?D' \<longrightarrow> m' p = m1 p)"
      by (rule less.hyps)
    then obtain c' m' where
      r: "dstream_read dev8 dev16 disk frame (Suc d) \<lparr>ds_pos = pos + k, ds_disk = disk\<rparr> (px out k) (amount - k) (c1, m1) =
        Some (\<lparr>ds_pos = pos + amount, ds_disk = disk\<rparr>, (c', m'), 0)"
      and m': "\<forall>i\<in>{0..<amount - k}. m' (px (px out k) i) = content (pos + k + i)"
        "\<forall>p. p \<notin> px (px out k) ` {0..<amount - k} \<and> p \<notin> frames frame ?D' \<longrightarrow> m' p = m1 p"
      by (simp only: add_diff_cancel_left' add.assoc diff_add_cancel add_diff_eq [symmetric] add.commute [of k]) blast
    have "m' (px out i) = content (pos + i)" if i: "i \<in> {0..<amount}" for i
    proof (cases "i < k")
      case True
      have "px out i \<in> px out ` {0..<amount}" using i by blast
      then have "px out i \<notin> frames frame ?D'" using less.prems(4) unfolding fD by blast
      moreover have "px out i \<notin> px (px out k) ` {0..<amount - k}"
        using True i less.prems(1,3) by (auto simp: sh px_eq_iff)
      ultimately show ?thesis using m'(2) m1(1) k(1) True i by auto
    next
      case False
      then show ?thesis using m'(1) [rule_format, of "i - k"] i by (simp add: sh)
    qed
    moreover have "m' p = m p" if "p \<notin> px out ` {0..<amount}" "p \<notin> frames frame (?D d pos amount)" for p
    proof -
      from that have "p \<notin> px out ` {0..<n}" "p \<notin> px (frame d) ` {0..<512}" and
        "p \<notin> px (px out k) ` {0..<amount - k}" "p \<notin> frames frame ?D'"
        by (simp_all only: im fD k(1) Un_iff de_Morgan_disj not_False_eq_True)
      then have "m' p = m1 p" "m1 p = m p" using m'(2) m1(2) by simp_all
      then show ?thesis by simp
    qed
    moreover have "dstream_read dev8 dev16 disk frame d \<lparr>ds_pos = pos, ds_disk = disk\<rparr> out amount (c, m) =
      Some (\<lparr>ds_pos = pos + amount, ds_disk = disk\<rparr>, (c', m'), 0)"
      using k(3) by (simp add: st k(1) r)
    ultimately show ?thesis by (intro exI conjI) blast+
  qed
qed


text \<open>A drive for any contents.\<close>

definition drive_of :: "(int \<Rightarrow> u8) \<Rightarrow> dev16" where
  "drive_of content p es =
     (let a = ata_run es; i = 512 * ata_lba a + 2 * int (at_words a)
      in word_of_int (uint (content i) + 256 * uint (content (i + 1))))"

lemma drive_of_ok: "drive content (\<lambda>_ _. 8) (drive_of content)"
proof -
  have lo: "uint (ucast (word_of_int (k + 256 * l) :: u16) :: u8) = k" and hi: "uint (ucast (drop_bit 8 (word_of_int (k + 256 * l) :: u16)) :: u8) = l"
    if "0 \<le> k" "k < 256" "0 \<le> l" "l < 256" for k l :: int
  proof -
    have u: "uint (word_of_int (k + 256 * l) :: u16) = k + 256 * l" using that by (simp only: uint_word_of_int) simp
    show "uint (ucast (word_of_int (k + 256 * l) :: u16) :: u8) = k" "uint (ucast (drop_bit 8 (word_of_int (k + 256 * l) :: u16)) :: u8) = l"
      using that by (simp_all only: unsigned_ucast_eq unsigned_drop_bit_eq u) (simp_all add: take_bit_eq_mod drop_bit_eq_div)
  qed
  have "0 \<le> uint x" "uint x < 256" for x :: u8 using uint_bounded [of x] by simp_all
  then have "ucast (word_of_int (uint x + 256 * uint y) :: u16) = x" "ucast (drop_bit 8 (word_of_int (uint x + 256 * uint y) :: u16)) = y" for x y :: u8
    by (simp_all only: word_uint_eq_iff lo hi)
  then show ?thesis by (simp only: drive_def drive_of_def Let_def) simp
qed


end
