(* ===== verification/Printf.thy ===== *)
theory Printf
  imports Prelude
begin

text \<open>
  The formatted output of \<^verbatim>\<open>src/src/util/printf.c\<close>, for a machine with 32-bit \<^verbatim>\<open>int\<close> and \<^verbatim>\<open>long\<close>. The output function
  is an argument, as in the source; a state is what it works on and the index of the next character.
  A conversion buffer is the list of the bytes written to it so far, a format or a string the list of
  its bytes without the terminating zero. The two functions that format floating point numbers are
  parameters: they only send characters to the output. A wrong argument, and reading behind the
  end of the format, is \<open>None\<close>.
\<close>

section \<open>Output\<close>

definition FLAGS_ZEROPAD :: u32 where "FLAGS_ZEROPAD = push_bit 0 1"
definition FLAGS_LEFT :: u32 where "FLAGS_LEFT = push_bit 1 1"
definition FLAGS_PLUS :: u32 where "FLAGS_PLUS = push_bit 2 1"
definition FLAGS_SPACE :: u32 where "FLAGS_SPACE = push_bit 3 1"
definition FLAGS_HASH :: u32 where "FLAGS_HASH = push_bit 4 1"
definition FLAGS_UPPERCASE :: u32 where "FLAGS_UPPERCASE = push_bit 5 1"
definition FLAGS_CHAR :: u32 where "FLAGS_CHAR = push_bit 6 1"
definition FLAGS_SHORT :: u32 where "FLAGS_SHORT = push_bit 7 1"
definition FLAGS_LONG :: u32 where "FLAGS_LONG = push_bit 8 1"
definition FLAGS_LONG_LONG :: u32 where "FLAGS_LONG_LONG = push_bit 9 1"
definition FLAGS_PRECISION :: u32 where "FLAGS_PRECISION = push_bit 10 1"
definition FLAGS_ADAPT_EXP :: u32 where "FLAGS_ADAPT_EXP = push_bit 11 1"
definition PRINTF_NTOA_BUFFER_SIZE :: nat where "PRINTF_NTOA_BUFFER_SIZE = 32"

lemmas flag_defs = FLAGS_ZEROPAD_def FLAGS_LEFT_def FLAGS_PLUS_def FLAGS_SPACE_def FLAGS_HASH_def FLAGS_UPPERCASE_def
  FLAGS_CHAR_def FLAGS_SHORT_def FLAGS_LONG_def FLAGS_LONG_LONG_def FLAGS_PRECISION_def FLAGS_ADAPT_EXP_def

definition has :: "u32 \<Rightarrow> u32 \<Rightarrow> bool" where
  "has flags f \<longleftrightarrow> flags AND f \<noteq> 0"

type_synonym 'b out_fct = "u8 \<Rightarrow> u32 \<Rightarrow> u32 \<Rightarrow> 'b \<Rightarrow> 'b"

definition out_buffer :: "memory out_fct" where
  "out_buffer character idx maxlen b = (if idx < maxlen then b(idx := character) else b)"

definition out_null :: "'b out_fct" where
  "out_null character idx maxlen b = b"

text \<open>
  \<^verbatim>\<open>_out_char\<close> and \<^verbatim>\<open>_out_fct\<close> call a function for every character but zero: \<^verbatim>\<open>_putchar\<close>, whose calls \<open>b\<close> collects, or the
  given function, which changes the state behind its argument.
\<close>

definition out_char :: "u8 list out_fct" where
  "out_char character idx maxlen b = (if character \<noteq> 0 then b @ [character] else b)"

definition out_fct :: "(u8 \<Rightarrow> 'b \<Rightarrow> 'b) \<Rightarrow> 'b out_fct" where
  "out_fct fct character idx maxlen b = (if character \<noteq> 0 then fct character b else b)"

text \<open>\<^verbatim>\<open>out(c, buffer, idx++, maxlen)\<close>, and \<open>n\<close> times the same character.\<close>

definition out1 :: "'b out_fct \<Rightarrow> u32 \<Rightarrow> u8 \<Rightarrow> 'b \<times> u32 \<Rightarrow> 'b \<times> u32" where
  "out1 out maxlen c st = (out c (snd st) maxlen (fst st), snd st + 1)"

definition out_pad :: "'b out_fct \<Rightarrow> u32 \<Rightarrow> u8 \<Rightarrow> nat \<Rightarrow> 'b \<times> u32 \<Rightarrow> 'b \<times> u32" where
  "out_pad out maxlen c n st = fold (\<lambda>_. out1 out maxlen c) [0..<n] st"

definition printf_is_digit :: "u8 \<Rightarrow> bool" where
  "printf_is_digit ch \<longleftrightarrow> sint ch \<ge> 48 \<and> sint ch \<le> 57"

fun strnlen_s :: "u8 list \<Rightarrow> u32 \<Rightarrow> u32" where
  "strnlen_s [] maxsize = 0"
| "strnlen_s (c # s) maxsize = (if maxsize \<noteq> 0 then 1 + strnlen_s s (maxsize - 1) else 0)"

fun printf_atoi :: "u8 list \<Rightarrow> u32 \<Rightarrow> u32 \<times> u8 list" where
  "printf_atoi [] i = (i, [])"
| "printf_atoi (c # str) i = (if printf_is_digit c then printf_atoi str (i * 10 + (scast c - 48)) else (i, c # str))"

text \<open>The loop that fills up on the right, while \<^verbatim>\<open>idx - start_idx < width\<close>.\<close>

function out_right :: "'b out_fct \<Rightarrow> u32 \<Rightarrow> u32 \<Rightarrow> u32 \<Rightarrow> 'b \<times> u32 \<Rightarrow> 'b \<times> u32" where
  "out_right out maxlen start_idx width st =
     (if snd st - start_idx < width then out_right out maxlen start_idx width (out1 out maxlen 32 st) else st)"
  by pat_completeness auto
termination
proof (relation "measure (\<lambda>(out, maxlen, start_idx, width, st). unat width - unat (snd st - start_idx))")
  fix out :: "'b out_fct" and maxlen start_idx width :: u32 and st :: "'b \<times> u32"
  assume "snd st - start_idx < width"
  from word_loop_decr [OF this]
  show "((out, maxlen, start_idx, width, out1 out maxlen 32 st), (out, maxlen, start_idx, width, st)) \<in>
      measure (\<lambda>(out, maxlen, start_idx, width, st). unat width - unat (snd st - start_idx))"
    by (simp add: out1_def algebra_simps)
qed simp

definition out_rev :: "'b out_fct \<Rightarrow> u32 \<Rightarrow> u8 list \<Rightarrow> u32 \<Rightarrow> u32 \<Rightarrow> 'b \<times> u32 \<Rightarrow> 'b \<times> u32" where
  "out_rev out maxlen buf width flags st =
     (let start_idx = snd st;
          st = (if \<not> has flags FLAGS_LEFT \<and> \<not> has flags FLAGS_ZEROPAD then out_pad out maxlen 32 (unat width - length buf) st else st);
          st = fold (out1 out maxlen) (rev buf) st
      in if has flags FLAGS_LEFT then out_right out maxlen start_idx width st else st)"

section \<open>Integers\<close>

text \<open>Fill up with zeros while the length is below \<open>n\<close> and below the size of the buffer.\<close>

definition ntoa_zeros :: "u32 \<Rightarrow> u8 list \<Rightarrow> u8 list" where
  "ntoa_zeros n buf = buf @ replicate (min (unat n) PRINTF_NTOA_BUFFER_SIZE - length buf) 48"

definition ntoa_hash :: "u32 \<Rightarrow> u32 \<Rightarrow> u32 \<Rightarrow> u32 \<Rightarrow> u8 list \<Rightarrow> u8 list" where
  "ntoa_hash base prec width flags buf =
     (let buf = (if \<not> has flags FLAGS_PRECISION \<and> buf \<noteq> [] \<and> (length buf = unat prec \<or> length buf = unat width)
            then (let buf = butlast buf in if buf \<noteq> [] \<and> base = 16 then butlast buf else buf) else buf);
          buf = (if base = 16 \<and> \<not> has flags FLAGS_UPPERCASE \<and> length buf < PRINTF_NTOA_BUFFER_SIZE then buf @ [120]
            else if base = 16 \<and> has flags FLAGS_UPPERCASE \<and> length buf < PRINTF_NTOA_BUFFER_SIZE then buf @ [88]
            else if base = 2 \<and> length buf < PRINTF_NTOA_BUFFER_SIZE then buf @ [98] else buf)
      in if length buf < PRINTF_NTOA_BUFFER_SIZE then buf @ [48] else buf)"

definition ntoa_format :: "'b out_fct \<Rightarrow> u32 \<Rightarrow> u8 list \<Rightarrow> bool \<Rightarrow> u32 \<Rightarrow> u32 \<Rightarrow> u32 \<Rightarrow> u32 \<Rightarrow> 'b \<times> u32 \<Rightarrow> 'b \<times> u32" where
  "ntoa_format out maxlen buf negative base prec width flags st =
     (let (width, buf) =
        (if \<not> has flags FLAGS_LEFT then
           (let width = (if width \<noteq> 0 \<and> has flags FLAGS_ZEROPAD \<and> (negative \<or> has flags (FLAGS_PLUS OR FLAGS_SPACE)) then width - 1 else width);
                buf = ntoa_zeros prec buf
            in (width, if has flags FLAGS_ZEROPAD then ntoa_zeros width buf else buf))
         else (width, buf));
          buf = (if has flags FLAGS_HASH then ntoa_hash base prec width flags buf else buf);
          buf = (if length buf < PRINTF_NTOA_BUFFER_SIZE
            then (if negative then buf @ [45] else if has flags FLAGS_PLUS then buf @ [43] else if has flags FLAGS_SPACE then buf @ [32] else buf)
            else buf)
      in out_rev out maxlen buf width flags st)"

definition ntoa_digit :: "bool \<Rightarrow> u8 \<Rightarrow> u8" where
  "ntoa_digit upper digit = (if digit < 10 then 48 + digit else (if upper then 65 else 97) + digit - 10)"

text \<open>The digits, lowest first; \<open>n\<close> is the room left in the buffer. The loop body runs at least once.\<close>

fun ntoa_digits :: "nat \<Rightarrow> bool \<Rightarrow> 'a::len word \<Rightarrow> 'a word \<Rightarrow> u8 list \<Rightarrow> u8 list" where
  "ntoa_digits 0 upper base value buf = buf"
| "ntoa_digits (Suc n) upper base value buf =
     (let buf = buf @ [ntoa_digit upper (ucast (value mod base))];
          value = value div base
      in if value \<noteq> 0 then ntoa_digits n upper base value buf else buf)"

definition ntoa_long :: "'b out_fct \<Rightarrow> u32 \<Rightarrow> u32 \<Rightarrow> bool \<Rightarrow> u32 \<Rightarrow> u32 \<Rightarrow> u32 \<Rightarrow> u32 \<Rightarrow> 'b \<times> u32 \<Rightarrow> 'b \<times> u32" where
  "ntoa_long out maxlen value negative base prec width flags st =
     (let flags = (if value = 0 then flags AND NOT FLAGS_HASH else flags);
          buf = (if \<not> has flags FLAGS_PRECISION \<or> value \<noteq> 0
            then ntoa_digits PRINTF_NTOA_BUFFER_SIZE (has flags FLAGS_UPPERCASE) base value [] else [])
      in ntoa_format out maxlen buf negative base prec width flags st)"

definition ntoa_long_long :: "'b out_fct \<Rightarrow> u32 \<Rightarrow> u64 \<Rightarrow> bool \<Rightarrow> u64 \<Rightarrow> u32 \<Rightarrow> u32 \<Rightarrow> u32 \<Rightarrow> 'b \<times> u32 \<Rightarrow> 'b \<times> u32" where
  "ntoa_long_long out maxlen value negative base prec width flags st =
     (let flags = (if value = 0 then flags AND NOT FLAGS_HASH else flags);
          buf = (if \<not> has flags FLAGS_PRECISION \<or> value \<noteq> 0
            then ntoa_digits PRINTF_NTOA_BUFFER_SIZE (has flags FLAGS_UPPERCASE) base value [] else [])
      in ntoa_format out maxlen buf negative (ucast base) prec width flags st)"

section \<open>Formats\<close>

text \<open>The arguments: \<^verbatim>\<open>int\<close>, \<^verbatim>\<open>long\<close> and pointers to data, \<^verbatim>\<open>long long\<close>, strings, \<^verbatim>\<open>double\<close>.\<close>

datatype 'd varg = VInt u32 | VLongLong u64 | VStr "u8 list" | VDouble 'd

fun va_int :: "'d varg list \<Rightarrow> (u32 \<times> 'd varg list) option" where
  "va_int (VInt v # va) = Some (v, va)"
| "va_int _ = None"

fun va_long_long :: "'d varg list \<Rightarrow> (u64 \<times> 'd varg list) option" where
  "va_long_long (VLongLong v # va) = Some (v, va)"
| "va_long_long _ = None"

fun va_str :: "'d varg list \<Rightarrow> (u8 list \<times> 'd varg list) option" where
  "va_str (VStr v # va) = Some (v, va)"
| "va_str _ = None"

fun va_double :: "'d varg list \<Rightarrow> ('d \<times> 'd varg list) option" where
  "va_double (VDouble v # va) = Some (v, va)"
| "va_double _ = None"

text \<open>The flags after the percent sign: the characters \<open>0 - +\<close>, space and \<open>#\<close>.\<close>

fun format_flags :: "u8 list \<Rightarrow> u32 \<Rightarrow> u32 \<times> u8 list" where
  "format_flags [] flags = (flags, [])"
| "format_flags (c # f) flags =
     (if c = 48 then format_flags f (flags OR FLAGS_ZEROPAD) else if c = 45 then format_flags f (flags OR FLAGS_LEFT)
      else if c = 43 then format_flags f (flags OR FLAGS_PLUS) else if c = 32 then format_flags f (flags OR FLAGS_SPACE)
      else if c = 35 then format_flags f (flags OR FLAGS_HASH) else (flags, c # f))"

text \<open>The character the format pointer is at; 0 at the end.\<close>

definition at :: "u8 list \<Rightarrow> u8" where
  "at f = (case f of [] \<Rightarrow> 0 | c # _ \<Rightarrow> c)"

definition format_width :: "u8 list \<Rightarrow> u32 \<Rightarrow> 'd varg list \<Rightarrow> (u32 \<times> u32 \<times> u8 list \<times> 'd varg list) option" where
  "format_width f flags va =
     (if printf_is_digit (at f) then (let (w, f) = printf_atoi f 0 in Some (w, flags, f, va))
      else if at f = 42 then do {
        (w, va) \<leftarrow> va_int va;
        Some (if sint w < 0 then (- w, flags OR FLAGS_LEFT, drop 1 f, va) else (w, flags, drop 1 f, va))
      }
      else Some (0, flags, f, va))"

definition format_precision :: "u8 list \<Rightarrow> u32 \<Rightarrow> 'd varg list \<Rightarrow> (u32 \<times> u32 \<times> u8 list \<times> 'd varg list) option" where
  "format_precision f flags va =
     (if at f = 46 then
        (let flags = flags OR FLAGS_PRECISION; f = drop 1 f
         in if printf_is_digit (at f) then (let (p, f) = printf_atoi f 0 in Some (p, flags, f, va))
            else if at f = 42 then do {
              (prec, va) \<leftarrow> va_int va;
              Some (if sint prec > 0 then prec else 0, flags, drop 1 f, va)
            }
            else Some (0, flags, f, va))
      else Some (0, flags, f, va))"

text \<open>The length field: \<open>l\<close>, \<open>ll\<close>, \<open>h\<close>, \<open>hh\<close>, \<open>t\<close>, \<open>j\<close> and \<open>z\<close>; only \<^verbatim>\<open>intmax_t\<close> is longer than \<^verbatim>\<open>long\<close>.\<close>

definition format_length :: "u8 list \<Rightarrow> u32 \<Rightarrow> u32 \<times> u8 list" where
  "format_length f flags =
     (if at f = 108 then
        (let flags = flags OR FLAGS_LONG; f = drop 1 f in if at f = 108 then (flags OR FLAGS_LONG_LONG, drop 1 f) else (flags, f))
      else if at f = 104 then
        (let flags = flags OR FLAGS_SHORT; f = drop 1 f in if at f = 104 then (flags OR FLAGS_CHAR, drop 1 f) else (flags, f))
      else if at f = 116 then (flags OR FLAGS_LONG, drop 1 f)
      else if at f = 106 then (flags OR FLAGS_LONG_LONG, drop 1 f)
      else if at f = 122 then (flags OR FLAGS_LONG, drop 1 f)
      else (flags, f))"

definition integer_base :: "u8 \<Rightarrow> u32" where
  "integer_base c = (if c = 120 \<or> c = 88 then 16 else if c = 111 then 8 else if c = 98 then 2 else 10)"

definition integer_flags :: "u8 \<Rightarrow> u32 \<Rightarrow> u32" where
  "integer_flags c flags =
     (let flags = (if c = 120 \<or> c = 88 \<or> c = 111 \<or> c = 98 then flags else flags AND NOT FLAGS_HASH);
          flags = (if c = 88 then flags OR FLAGS_UPPERCASE else flags);
          flags = (if c \<noteq> 105 \<and> c \<noteq> 100 then flags AND NOT (FLAGS_PLUS OR FLAGS_SPACE) else flags)
      in if has flags FLAGS_PRECISION then flags AND NOT FLAGS_ZEROPAD else flags)"

text \<open>An \<^verbatim>\<open>int\<close> argument cut to the length the flags ask for.\<close>

definition signed_arg :: "u32 \<Rightarrow> u32 \<Rightarrow> u32" where
  "signed_arg flags v = (if has flags FLAGS_LONG then v
     else if has flags FLAGS_CHAR then scast (ucast v :: u8) else if has flags FLAGS_SHORT then scast (ucast v :: u16) else v)"

definition unsigned_arg :: "u32 \<Rightarrow> u32 \<Rightarrow> u32" where
  "unsigned_arg flags v = (if has flags FLAGS_LONG then v
     else if has flags FLAGS_CHAR then ucast (ucast v :: u8) else if has flags FLAGS_SHORT then ucast (ucast v :: u16) else v)"

definition format_integer :: "'b out_fct \<Rightarrow> u32 \<Rightarrow> u8 \<Rightarrow> u32 \<Rightarrow> u32 \<Rightarrow> u32 \<Rightarrow> 'd varg list \<Rightarrow> 'b \<times> u32 \<Rightarrow> (('b \<times> u32) \<times> 'd varg list) option" where
  "format_integer out maxlen c width precision flags va st =
     (let base = integer_base c; flags = integer_flags c flags
      in if c = 105 \<or> c = 100 then
           (if has flags FLAGS_LONG_LONG then do {
              (value, va) \<leftarrow> va_long_long va;
              Some (ntoa_long_long out maxlen (if sint value > 0 then value else 0 - value) (sint value < 0) (ucast base) precision width flags st, va)
            }
            else do {
              (v, va) \<leftarrow> va_int va;
              let value = signed_arg flags v;
              Some (ntoa_long out maxlen (if sint value > 0 then value else 0 - value) (sint value < 0) base precision width flags st, va)
            })
         else
           (if has flags FLAGS_LONG_LONG then do {
              (value, va) \<leftarrow> va_long_long va;
              Some (ntoa_long_long out maxlen value False (ucast base) precision width flags st, va)
            }
            else do {
              (v, va) \<leftarrow> va_int va;
              Some (ntoa_long out maxlen (unsigned_arg flags v) False base precision width flags st, va)
            }))"

definition format_char :: "'b out_fct \<Rightarrow> u32 \<Rightarrow> u8 \<Rightarrow> u32 \<Rightarrow> u32 \<Rightarrow> 'b \<times> u32 \<Rightarrow> 'b \<times> u32" where
  "format_char out maxlen c width flags st =
     (let st = (if \<not> has flags FLAGS_LEFT then out_pad out maxlen 32 (unat width - 1) st else st);
          st = out1 out maxlen c st
      in if has flags FLAGS_LEFT then out_pad out maxlen 32 (unat width - 1) st else st)"

definition format_string :: "'b out_fct \<Rightarrow> u32 \<Rightarrow> u8 list \<Rightarrow> u32 \<Rightarrow> u32 \<Rightarrow> u32 \<Rightarrow> 'b \<times> u32 \<Rightarrow> 'b \<times> u32" where
  "format_string out maxlen p width precision flags st =
     (let l = strnlen_s p (if precision \<noteq> 0 then precision else - 1);
          l = (if has flags FLAGS_PRECISION then (if l < precision then l else precision) else l);
          st = (if \<not> has flags FLAGS_LEFT then out_pad out maxlen 32 (unat width - unat l) st else st);
          st = fold (out1 out maxlen) (if has flags FLAGS_PRECISION then take (unat precision) p else p) st
      in if has flags FLAGS_LEFT then out_pad out maxlen 32 (unat width - unat l) st else st)"

text \<open>One directive behind the percent sign; \<open>ftoa\<close> and \<open>etoa\<close> give the characters for a floating point number.\<close>

type_synonym 'd float_fmt = "'d \<Rightarrow> u32 \<Rightarrow> u32 \<Rightarrow> u32 \<Rightarrow> u8 list"

definition format_float :: "'d float_fmt \<Rightarrow> 'd float_fmt \<Rightarrow> u8 \<Rightarrow> 'd \<Rightarrow> u32 \<Rightarrow> u32 \<Rightarrow> u32 \<Rightarrow> u8 list" where
  "format_float ftoa etoa c v precision width flags =
     (if c = 102 \<or> c = 70 then ftoa v precision width (if c = 70 then flags OR FLAGS_UPPERCASE else flags)
      else
        (let flags = (if c = 103 \<or> c = 71 then flags OR FLAGS_ADAPT_EXP else flags);
             flags = (if c = 69 \<or> c = 71 then flags OR FLAGS_UPPERCASE else flags)
         in etoa v precision width flags))"

definition format_specifier :: "'d float_fmt \<Rightarrow> 'd float_fmt \<Rightarrow> 'b out_fct \<Rightarrow> u32 \<Rightarrow> u8 \<Rightarrow> u32 \<Rightarrow> u32 \<Rightarrow> u32 \<Rightarrow> 'd varg list \<Rightarrow> 'b \<times> u32 \<Rightarrow>
    (('b \<times> u32) \<times> 'd varg list) option" where
  "format_specifier ftoa etoa out maxlen c width precision flags va st =
     (if c \<in> {100, 105, 117, 120, 88, 111, 98} then format_integer out maxlen c width precision flags va st
      else if c \<in> {102, 70, 101, 69, 103, 71} then do {
        (v, va) \<leftarrow> va_double va;
        Some (fold (out1 out maxlen) (format_float ftoa etoa c v precision width flags) st, va)
      }
      else if c = 99 then do {
        (v, va) \<leftarrow> va_int va;
        Some (format_char out maxlen (ucast v) width flags st, va)
      }
      else if c = 115 then do {
        (p, va) \<leftarrow> va_str va;
        Some (format_string out maxlen p width precision flags st, va)
      }
      else if c = 112 then do {
        (v, va) \<leftarrow> va_int va;
        Some (ntoa_long out maxlen v False 16 precision 8 (flags OR (FLAGS_ZEROPAD OR FLAGS_UPPERCASE)) st, va)
      }
      else Some (out1 out maxlen c st, va))"

text \<open>Flags, width, precision and length; the result is the specifier with what is left of the format.\<close>

definition format_prefix :: "u8 list \<Rightarrow> 'd varg list \<Rightarrow> (u32 \<times> u32 \<times> u32 \<times> u8 list \<times> 'd varg list) option" where
  "format_prefix f va =
     (let (flags, f) = format_flags f 0
      in do {
        (width, flags, f, va) \<leftarrow> format_width f flags va;
        (precision, flags, f, va) \<leftarrow> format_precision f flags va;
        let (flags, f) = format_length f flags;
        Some (width, precision, flags, f, va)
      })"

definition format_directive :: "'d float_fmt \<Rightarrow> 'd float_fmt \<Rightarrow> 'b out_fct \<Rightarrow> u32 \<Rightarrow> u8 list \<Rightarrow> 'd varg list \<Rightarrow> 'b \<times> u32 \<Rightarrow>
    (u8 list \<times> 'd varg list \<times> 'b \<times> u32) option" where
  "format_directive ftoa etoa out maxlen f va st = do {
     (width, precision, flags, f, va) \<leftarrow> format_prefix f va;
     (case f of
        [] \<Rightarrow> None
      | c # f \<Rightarrow> do {
          (st, va) \<leftarrow> format_specifier ftoa etoa out maxlen c width precision flags va st;
          Some (f, va, st)
        })
   }"

lemma printf_atoi_shorter: "length (snd (printf_atoi f i)) \<le> length f"
  by (induction f i rule: printf_atoi.induct) auto

lemma format_flags_shorter: "length (snd (format_flags f flags)) \<le> length f"
  by (induction f flags rule: format_flags.induct) auto

lemma format_prefix_shorter:
  assumes "format_prefix f va = Some (width, precision, flags', f', va')"
  shows "length f' \<le> length f"
proof -
  obtain flags f1 where f1: "format_flags f 0 = (flags, f1)" by fastforce
  then have l1: "length f1 \<le> length f" using format_flags_shorter [of f 0] by simp
  obtain w flags2 f2 va2 where w: "format_width f1 flags va = Some (w, flags2, f2, va2)"
    using assms f1 by (auto simp: format_prefix_def split: bind_splits)
  have l2: "length f2 \<le> length f1" using w printf_atoi_shorter [of f1 0]
    by (auto simp: format_width_def split: if_splits prod.splits bind_splits)
  obtain prec flags3 f3 va3 where p: "format_precision f2 flags2 va2 = Some (prec, flags3, f3, va3)"
    using assms f1 w by (auto simp: format_prefix_def split: bind_splits)
  have l3: "length f3 \<le> length f2" using p printf_atoi_shorter [of "drop 1 f2" 0]
    by (auto simp: format_precision_def Let_def split: if_splits prod.splits bind_splits)
  have "length f' \<le> length f3" using assms f1 w p
    by (auto simp: format_prefix_def format_length_def Let_def split: if_splits)
  then show ?thesis using l1 l2 l3 by simp
qed

lemma format_directive_shorter:
  assumes "format_directive ftoa etoa out maxlen f va st = Some (f', va', st')"
  shows "length f' < length f"
  using assms format_prefix_shorter by (fastforce simp: format_directive_def split: bind_splits list.splits)

text \<open>The loop over the format.\<close>

function vsnprintf_loop :: "'d float_fmt \<Rightarrow> 'd float_fmt \<Rightarrow> 'b out_fct \<Rightarrow> u32 \<Rightarrow> u8 list \<Rightarrow> 'd varg list \<Rightarrow> 'b \<times> u32 \<Rightarrow> ('b \<times> u32) option" where
  "vsnprintf_loop ftoa etoa out maxlen [] va st = Some st"
| "vsnprintf_loop ftoa etoa out maxlen (c # f) va st =
     (if c \<noteq> 37 then vsnprintf_loop ftoa etoa out maxlen f va (out1 out maxlen c st)
      else (case format_directive ftoa etoa out maxlen f va st of
        None \<Rightarrow> None
      | Some (f, va, st) \<Rightarrow> vsnprintf_loop ftoa etoa out maxlen f va st))"
  by pat_completeness auto
termination
  by (relation "measure (\<lambda>(ftoa, etoa, out, maxlen, f, va, st). length f)") (auto dest: format_directive_shorter)

text \<open>The result is what was written and the number of characters. (A null buffer makes the caller's \<open>out\<close> the null output.)\<close>

definition vsnprintf_core :: "'d float_fmt \<Rightarrow> 'd float_fmt \<Rightarrow> 'b out_fct \<Rightarrow> 'b \<Rightarrow> u32 \<Rightarrow> u8 list \<Rightarrow> 'd varg list \<Rightarrow> ('b \<times> u32) option" where
  "vsnprintf_core ftoa etoa out b maxlen format va = do {
     (b, idx) \<leftarrow> vsnprintf_loop ftoa etoa out maxlen format va (b, 0);
     Some (out 0 (if idx < maxlen then idx else maxlen - 1) maxlen b, idx)
   }"

definition printf_text :: "'d float_fmt \<Rightarrow> 'd float_fmt \<Rightarrow> u8 list \<Rightarrow> 'd varg list \<Rightarrow> (u8 list \<times> u32) option" where
  "printf_text ftoa etoa format va = vsnprintf_core ftoa etoa out_char [] (- 1) format va"

text \<open>The buffer of \<^verbatim>\<open>sprintf_\<close> and \<^verbatim>\<open>snprintf_\<close>, by its index; with a null buffer nothing is written.\<close>

definition snprintf :: "'d float_fmt \<Rightarrow> 'd float_fmt \<Rightarrow> memory option \<Rightarrow> u32 \<Rightarrow> u8 list \<Rightarrow> 'd varg list \<Rightarrow> (memory option \<times> u32) option" where
  "snprintf ftoa etoa buffer count format va =
     (case buffer of
        None \<Rightarrow> map_option (\<lambda>(_, n). (None, n)) (vsnprintf_core ftoa etoa out_null () count format va)
      | Some b \<Rightarrow> map_option (\<lambda>(b, n). (Some b, n)) (vsnprintf_core ftoa etoa out_buffer b count format va))"

definition sprintf :: "'d float_fmt \<Rightarrow> 'd float_fmt \<Rightarrow> memory option \<Rightarrow> u8 list \<Rightarrow> 'd varg list \<Rightarrow> (memory option \<times> u32) option" where
  "sprintf ftoa etoa buffer format va = snprintf ftoa etoa buffer (- 1) format va"

definition fctprintf :: "'d float_fmt \<Rightarrow> 'd float_fmt \<Rightarrow> (u8 \<Rightarrow> 'b \<Rightarrow> 'b) \<Rightarrow> 'b \<Rightarrow> u8 list \<Rightarrow> 'd varg list \<Rightarrow> ('b \<times> u32) option" where
  "fctprintf ftoa etoa out arg format va = vsnprintf_core ftoa etoa (out_fct out) arg (- 1) format va"

section \<open>The text of a format\<close>

text \<open>Sending a text to an output function.\<close>

definition put :: "'b out_fct \<Rightarrow> u32 \<Rightarrow> u8 list \<Rightarrow> 'b \<times> u32 \<Rightarrow> 'b \<times> u32" where
  "put out maxlen T st = fold (out1 out maxlen) T st"

lemma put_simps [simp]:
  "put out maxlen [] st = st" "put out maxlen (c # T) st = put out maxlen T (out1 out maxlen c st)"
  "put out maxlen (T @ U) st = put out maxlen U (put out maxlen T st)"
  by (simp_all add: put_def)

lemma snd_put [simp]: "snd (put out maxlen T st) = snd st + of_nat (length T)"
  by (induction T arbitrary: st) (simp_all add: out1_def algebra_simps)

lemma fold_put [simp]: "fold (out1 out maxlen) T st = put out maxlen T st"
  by (simp add: put_def)

lemma fold_funpow: "fold (\<lambda>_. g) [0..<n] x = (g ^^ n) x"
  by (induction n) simp_all

lemma out_pad_put [simp]: "out_pad out maxlen c n st = put out maxlen (replicate n c) st"
  unfolding out_pad_def fold_funpow by (induction n arbitrary: st) (simp_all add: funpow_Suc_right del: funpow.simps(2))

declare out_right.simps [simp del]

lemma out_right_put: "out_right out maxlen start width st = put out maxlen (replicate (unat width - unat (snd st - start)) 32) st"
proof (induction out maxlen start width st rule: out_right.induct)
  case (1 out maxlen start width st)
  show ?case
  proof (cases "snd st - start < width")
    case True
    have e: "snd (out1 out maxlen 32 st) - start = snd st - start + 1" by (simp add: out1_def)
    have "Suc (unat width - unat (snd (out1 out maxlen 32 st) - start)) = unat width - unat (snd st - start)"
      unfolding e unat_Suc_loop [OF True] using True by (simp add: word_less_nat_alt)
    then show ?thesis using 1 True by (subst out_right.simps) (metis put_simps(2) replicate_Suc)
  next
    case False
    then show ?thesis by (subst out_right.simps) (simp add: word_less_nat_alt)
  qed
qed

definition rev_text :: "u8 list \<Rightarrow> u32 \<Rightarrow> u32 \<Rightarrow> u8 list" where
  "rev_text buf width flags =
     (if \<not> has flags FLAGS_LEFT \<and> \<not> has flags FLAGS_ZEROPAD then replicate (unat width - length buf) 32 else []) @ rev buf @
     (if has flags FLAGS_LEFT then replicate (unat width - unat (of_nat (length buf) :: u32)) 32 else [])"

lemma out_rev_put: "out_rev out maxlen buf width flags st = put out maxlen (rev_text buf width flags) st"
  by (auto simp: out_rev_def rev_text_def out_right_put Let_def)

definition format_buf :: "u8 list \<Rightarrow> bool \<Rightarrow> u32 \<Rightarrow> u32 \<Rightarrow> u32 \<Rightarrow> u32 \<Rightarrow> u8 list" where
  "format_buf buf negative base prec width flags =
     (let (width, buf) =
        (if \<not> has flags FLAGS_LEFT then
           (let width = (if width \<noteq> 0 \<and> has flags FLAGS_ZEROPAD \<and> (negative \<or> has flags (FLAGS_PLUS OR FLAGS_SPACE)) then width - 1 else width);
                buf = ntoa_zeros prec buf
            in (width, if has flags FLAGS_ZEROPAD then ntoa_zeros width buf else buf))
         else (width, buf));
          buf = (if has flags FLAGS_HASH then ntoa_hash base prec width flags buf else buf);
          buf = (if length buf < PRINTF_NTOA_BUFFER_SIZE
            then (if negative then buf @ [45] else if has flags FLAGS_PLUS then buf @ [43] else if has flags FLAGS_SPACE then buf @ [32] else buf)
            else buf)
      in rev_text buf width flags)"

lemma ntoa_format_put: "ntoa_format out maxlen buf negative base prec width flags st =
  put out maxlen (format_buf buf negative base prec width flags) st"
  unfolding ntoa_format_def format_buf_def by (simp add: out_rev_put Let_def)

definition long_text :: "'a::len word \<Rightarrow> bool \<Rightarrow> 'a word \<Rightarrow> u32 \<Rightarrow> u32 \<Rightarrow> u32 \<Rightarrow> u8 list" where
  "long_text value negative base prec width flags =
     (let flags = (if value = 0 then flags AND NOT FLAGS_HASH else flags);
          buf = (if \<not> has flags FLAGS_PRECISION \<or> value \<noteq> 0
            then ntoa_digits PRINTF_NTOA_BUFFER_SIZE (has flags FLAGS_UPPERCASE) base value [] else [])
      in format_buf buf negative (ucast base) prec width flags)"

lemma ntoa_long_put:
  "ntoa_long out maxlen value negative base prec width flags st = put out maxlen (long_text value negative base prec width flags) st"
  "ntoa_long_long out maxlen value' negative base' prec width flags st = put out maxlen (long_text value' negative base' prec width flags) st"
  by (simp_all add: ntoa_long_def ntoa_long_long_def long_text_def ntoa_format_put Let_def)

definition signed_text :: "'a::len word \<Rightarrow> 'a word \<Rightarrow> u32 \<Rightarrow> u32 \<Rightarrow> u32 \<Rightarrow> u8 list" where
  "signed_text v base precision width flags = long_text (if sint v > 0 then v else 0 - v) (sint v < 0) base precision width flags"

definition integer_text :: "u8 \<Rightarrow> u32 \<Rightarrow> u32 \<Rightarrow> u32 \<Rightarrow> 'd varg list \<Rightarrow> (u8 list \<times> 'd varg list) option" where
  "integer_text c width precision flags va =
     (let base = integer_base c; flags = integer_flags c flags; signed = (c = 105 \<or> c = 100)
      in if has flags FLAGS_LONG_LONG
         then map_option (\<lambda>(v, va). (if signed then signed_text v (ucast base) precision width flags
           else long_text v False (ucast base) precision width flags, va)) (va_long_long va)
         else map_option (\<lambda>(v, va). (if signed then signed_text (signed_arg flags v) base precision width flags
           else long_text (unsigned_arg flags v) False base precision width flags, va)) (va_int va))"

lemma format_integer_put:
  "format_integer out maxlen c width precision flags va st =
     map_option (\<lambda>(T, va). (put out maxlen T st, va)) (integer_text c width precision flags va)"
  unfolding format_integer_def integer_text_def Let_def ntoa_long_put signed_text_def
  by (cases "va_int va"; cases "va_long_long va") auto

definition char_text :: "u8 \<Rightarrow> u32 \<Rightarrow> u32 \<Rightarrow> u8 list" where
  "char_text c width flags = (if \<not> has flags FLAGS_LEFT then replicate (unat width - 1) 32 else []) @ [c] @
    (if has flags FLAGS_LEFT then replicate (unat width - 1) 32 else [])"

lemma format_char_put: "format_char out maxlen c width flags st = put out maxlen (char_text c width flags) st"
  by (simp add: format_char_def char_text_def Let_def)

definition string_text :: "u8 list \<Rightarrow> u32 \<Rightarrow> u32 \<Rightarrow> u32 \<Rightarrow> u8 list" where
  "string_text p width precision flags =
     (let l = strnlen_s p (if precision \<noteq> 0 then precision else - 1);
          l = (if has flags FLAGS_PRECISION then (if l < precision then l else precision) else l);
          q = (if has flags FLAGS_PRECISION then take (unat precision) p else p);
          pads = replicate (unat width - unat l) 32
      in (if \<not> has flags FLAGS_LEFT then pads else []) @ q @ (if has flags FLAGS_LEFT then pads else []))"

lemma format_string_put: "format_string out maxlen p width precision flags st = put out maxlen (string_text p width precision flags) st"
  by (simp add: format_string_def string_text_def Let_def)

definition specifier_text :: "'d float_fmt \<Rightarrow> 'd float_fmt \<Rightarrow> u8 \<Rightarrow> u32 \<Rightarrow> u32 \<Rightarrow> u32 \<Rightarrow> 'd varg list \<Rightarrow> (u8 list \<times> 'd varg list) option" where
  "specifier_text ftoa etoa c width precision flags va =
     (if c \<in> {100, 105, 117, 120, 88, 111, 98} then integer_text c width precision flags va
      else if c \<in> {102, 70, 101, 69, 103, 71} then map_option (\<lambda>(v, va). (format_float ftoa etoa c v precision width flags, va)) (va_double va)
      else if c = 99 then map_option (\<lambda>(v, va). (char_text (ucast v) width flags, va)) (va_int va)
      else if c = 115 then map_option (\<lambda>(p, va). (string_text p width precision flags, va)) (va_str va)
      else if c = 112 then map_option (\<lambda>(v, va). (long_text v False 16 precision 8 (flags OR (FLAGS_ZEROPAD OR FLAGS_UPPERCASE)), va)) (va_int va)
      else Some ([c], va))"

lemma format_specifier_put:
  "format_specifier ftoa etoa out maxlen c width precision flags va st =
     map_option (\<lambda>(T, va). (put out maxlen T st, va)) (specifier_text ftoa etoa c width precision flags va)"
  by (auto simp: format_specifier_def specifier_text_def format_integer_put ntoa_long_put format_char_put format_string_put split: bind_splits)

text \<open>The text of a format with its arguments: the literal characters and the texts of the directives, in order.\<close>

function format_text :: "'d float_fmt \<Rightarrow> 'd float_fmt \<Rightarrow> u8 list \<Rightarrow> 'd varg list \<Rightarrow> u8 list option" where
  "format_text ftoa etoa [] va = Some []"
| "format_text ftoa etoa (c # f) va =
     (if c \<noteq> 37 then map_option ((#) c) (format_text ftoa etoa f va)
      else (case format_prefix f va of
        Some (width, precision, flags, d # f, va) \<Rightarrow>
          (case specifier_text ftoa etoa d width precision flags va of
            Some (T, va) \<Rightarrow> map_option (append T) (format_text ftoa etoa f va)
          | None \<Rightarrow> None)
      | _ \<Rightarrow> None))"
  by pat_completeness auto
termination
  by (relation "measure (\<lambda>(ftoa, etoa, f, va). length f)") (auto dest: format_prefix_shorter)

lemma vsnprintf_loop_put:
  "vsnprintf_loop ftoa etoa out maxlen f va st = map_option (\<lambda>T. put out maxlen T st) (format_text ftoa etoa f va)"
proof (induction ftoa etoa f va arbitrary: st rule: format_text.induct)
  case (2 ftoa etoa c f va)
  show ?case
  proof (cases "c = 37")
    case True
    show ?thesis
    proof (cases "format_prefix f va")
      case (Some r)
      then obtain width precision flags f1 va1 where p: "format_prefix f va = Some (width, precision, flags, f1, va1)" by (cases r) auto
      show ?thesis
      proof (cases f1)
        case (Cons d f2)
        show ?thesis
        proof (cases "specifier_text ftoa etoa d width precision flags va1")
          case (Some x)
          then obtain T va2 where x: "specifier_text ftoa etoa d width precision flags va1 = Some (T, va2)" by (cases x) auto
          show ?thesis using 2(2) [OF _ p _ _ _ _ Cons x] True p Cons x
            by (simp add: format_directive_def format_specifier_put option.map_comp comp_def)
        qed (use p Cons True in \<open>simp add: format_directive_def format_specifier_put\<close>)
      qed (use p True in \<open>simp add: format_directive_def\<close>)
    qed (use True in \<open>simp add: format_directive_def\<close>)
  qed (use 2(1) in \<open>simp add: option.map_comp comp_def\<close>)
qed simp

section \<open>Writing into a buffer\<close>

lemma put_out_char: "put out_char maxlen T (b, i) = (b @ filter (\<lambda>c. c \<noteq> 0) T, i + of_nat (length T))"
  by (induction T arbitrary: b i) (auto simp: out1_def out_char_def algebra_simps)

lemma put_out_buffer:
  assumes "length T < 2 ^ 32"
  shows "fst (put out_buffer maxlen T (b, 0)) i = (if unat i < length T \<and> i < maxlen then T ! unat i else b i)"
  using assms
proof (induction T arbitrary: i rule: rev_induct)
  case (snoc c T)
  have "i = of_nat (length T) \<longleftrightarrow> unat i = length T" using snoc.prems by (auto simp: word_unat_eq_iff unat_of_nat_small)
  moreover have "snd (put out_buffer maxlen T (b, 0)) = of_nat (length T)" by simp
  ultimately show ?case using snoc by (auto simp: out1_def out_buffer_def nth_append less_Suc_eq unat_of_nat_small)
qed simp

lemma printf_text_eq:
  "format_text ftoa etoa fmt va = Some T \<Longrightarrow> printf_text ftoa etoa fmt va = Some (filter (\<lambda>c. c \<noteq> 0) T, of_nat (length T))"
  by (simp add: printf_text_def vsnprintf_core_def vsnprintf_loop_put put_out_char out_char_def)

lemma printf_text_plain:
  assumes "format_text ftoa etoa fmt va = Some T" "0 \<notin> set T"
  shows "printf_text ftoa etoa fmt va = Some (T, of_nat (length T))"
proof -
  have "filter (\<lambda>c. c \<noteq> 0) T = T" using assms(2) by (auto intro: filter_True)
  then show ?thesis using printf_text_eq [OF assms(1)] by simp
qed

text \<open>
  C18: The buffer of \<^verbatim>\<open>snprintf\<close> with \<^verbatim>\<open>count > 0\<close> holds the text of the format, cut to \<^verbatim>\<open>count - 1\<close> characters, and a
  terminating zero; no other cell is written, whatever the format. The result is the length of the whole
  text, and \<^verbatim>\<open>printf\<close> prints the same text.
\<close>

theorem snprintf_correct:
  assumes T: "format_text ftoa etoa fmt va = Some T" "length T < 2 ^ 32" and "0 < count"
  shows "\<exists>b'. snprintf ftoa etoa (Some b) count fmt va = Some (Some b', of_nat (length T)) \<and>
    (\<forall>i. b' i = (if unat i < min (length T) (unat count - 1) then T ! unat i
       else if unat i = min (length T) (unat count - 1) then 0 else b i)) \<and>
    printf_text ftoa etoa fmt va = Some (filter (\<lambda>c. c \<noteq> 0) T, of_nat (length T))"
proof -
  let ?k = "if of_nat (length T) < count then of_nat (length T) else count - 1" and ?st = "put out_buffer count T (b, 0)"
  let ?b = "out_buffer 0 ?k count (fst ?st)"
  have "0 < unat count" using assms(3) by (simp add: word_less_nat_alt)
  moreover from this have "unat (count - 1) = unat count - 1" by (subst unat_sub_nowrap) simp_all
  ultimately have c: "unat (count - 1) = unat count - 1" "0 < unat count" by simp_all
  then have k: "unat ?k = min (length T) (unat count - 1)" "?k < count"
    using T(2) by (auto simp: word_less_nat_alt unat_of_nat_small)
  have "snprintf ftoa etoa (Some b) count fmt va = Some (Some ?b, of_nat (length T))"
    using T(1) by (simp add: snprintf_def vsnprintf_core_def vsnprintf_loop_put case_prod_unfold)
  moreover have "?b i = (if unat i < min (length T) (unat count - 1) then T ! unat i
       else if unat i = min (length T) (unat count - 1) then 0 else b i)" for i
    using k c put_out_buffer [OF T(2), of count b i]
    by (auto simp: out_buffer_def word_less_nat_alt word_unat_eq_iff simp del: snd_put)
  moreover have "printf_text ftoa etoa fmt va = Some (filter (\<lambda>c. c \<noteq> 0) T, of_nat (length T))"
    by (rule printf_text_eq [OF T(1)])
  ultimately show ?thesis by blast
qed

section \<open>Reading numbers back\<close>

definition digit_val :: "u8 \<Rightarrow> nat" where
  "digit_val c = (if c \<le> 57 then unat c - 48 else if c \<ge> 97 then unat c - 87 else unat c - 55)"

definition read_number :: "nat \<Rightarrow> u8 list \<Rightarrow> nat" where
  "read_number base ds = foldl (\<lambda>n d. n * base + digit_val d) 0 ds"

lemma read_number_rev: "read_number base (rev (d # ds)) = digit_val d + base * read_number base (rev ds)"
  by (simp add: read_number_def)

lemma digit_val_ntoa:
  assumes "d < 16"
  shows "digit_val (ntoa_digit up d) = unat d" "ntoa_digit up d = 48 \<longleftrightarrow> d = 0" "ntoa_digit up d \<noteq> 0"
proof -
  have d: "unat d < 16" using assms by (simp add: word_less_nat_alt)
  have a: "unat (48 + d) = 48 + unat d" "unat (87 + d) = 87 + unat d" "unat (55 + d) = 55 + unat d"
    using d by (subst unat_add_nowrap; simp)+
  have e: "ntoa_digit up d = (if unat d < 10 then 48 + d else if up then 55 + d else 87 + d)"
  proof -
    have "d < 10 \<longleftrightarrow> unat d < 10" by (simp add: word_less_nat_alt)
    moreover have "65 + d - 10 = 55 + d" "97 + d - 10 = 87 + d" by simp_all
    ultimately show ?thesis by (simp only: ntoa_digit_def split: if_split) simp
  qed
  show "digit_val (ntoa_digit up d) = unat d"
    unfolding e digit_val_def using d by (auto simp: a word_le_nat_alt)
  have "unat (ntoa_digit up d) = 48 \<longleftrightarrow> unat d = 0" "unat (ntoa_digit up d) \<noteq> 0" unfolding e using d by (auto simp: a)
  then show "ntoa_digit up d = 48 \<longleftrightarrow> d = 0" "ntoa_digit up d \<noteq> 0" by (simp_all add: word_unat_eq_iff)
qed

lemma ntoa_digits_read:
  fixes v base :: u32
  assumes "2 \<le> unat base" "unat base \<le> 16" "unat v < unat base ^ k" "0 < k" "k \<le> n"
  shows "\<exists>ds. ntoa_digits n up base v buf = buf @ ds \<and> ds \<noteq> [] \<and> length ds \<le> k \<and> read_number (unat base) (rev ds) = unat v \<and>
    (last ds = 48 \<longrightarrow> v = 0) \<and> 0 \<notin> set ds"
  using assms(3-)
proof (induction k arbitrary: n v buf)
  case (Suc k)
  obtain n' where n: "n = Suc n'" "k \<le> n'" using Suc.prems(3) by (cases n) auto
  let ?d = "ucast (v mod base) :: u8"
  have m: "unat (v mod base) < 16" proof -
    have "unat v mod unat base < unat base" using assms(1) by simp
    also note assms(2)
    finally show ?thesis by (simp add: unat_mod)
  qed
  then have d: "unat ?d = unat v mod unat base" by (simp add: unsigned_ucast_eq take_bit_nat_eq_self unat_mod)
  then have d16: "?d < 16" using m by (simp add: word_less_nat_alt unat_mod)
  note dv = digit_val_ntoa [OF d16, of up]
  show ?case
  proof (cases "v div base = 0")
    case True
    then have "unat v div unat base = 0" by (metis unat_0 unat_div)
    then have v: "unat v mod unat base = unat v" using assms(1) by (simp add: div_eq_0_iff)
    moreover have "?d = 0 \<longrightarrow> v = 0" using d v by (auto simp: unat_eq_zero [symmetric])
    ultimately show ?thesis using True dv d by (intro exI [of _ "[ntoa_digit up ?d]"]) (simp add: read_number_def Let_def n)
  next
    case False
    have "unat (v div base) < unat base ^ k" using Suc.prems(1) by (simp add: unat_div less_mult_imp_div_less mult.commute)
    moreover from this have "0 < k" using False by (cases k) (auto simp: unat_eq_zero)
    ultimately obtain ds where ds: "ntoa_digits n' up base (v div base) (buf @ [ntoa_digit up ?d]) = (buf @ [ntoa_digit up ?d]) @ ds" "ds \<noteq> []" "length ds \<le> k"
      "read_number (unat base) (rev ds) = unat (v div base)" "last ds = 48 \<longrightarrow> v div base = 0" "0 \<notin> set ds"
      using Suc.IH n(2) by blast
    have "read_number (unat base) (rev (ntoa_digit up ?d # ds)) = unat v mod unat base + unat base * (unat v div unat base)"
      by (simp only: read_number_rev dv d ds(4) unat_div)
    then show ?thesis using ds False dv(3) by (intro exI [of _ "ntoa_digit up ?d # ds"]) (auto simp: Let_def n)
  qed
qed simp

lemma has_0 [simp]: "\<not> has 0 f"
  by (simp add: has_def)

lemma format_prefix_plain:
  assumes "c \<in> {100, 117, 120, 111, 98}"
  shows "format_prefix (c # f) va = Some (0, 0, 0, c # f, va)"
  using assms unfolding insert_iff empty_iff
  by (elim disjE FalseE) (simp_all add: format_prefix_def format_width_def format_precision_def format_length_def at_def printf_is_digit_def)

lemma integer_flags_0: "c \<in> {100, 117, 120, 111, 98} \<Longrightarrow> integer_flags c 0 = 0"
  by (auto simp: integer_flags_def)

lemma long_text_plain: "long_text v negative base 0 0 0 =
  (if negative \<and> length (ntoa_digits 32 False base v []) < 32 then [45] else []) @ rev (ntoa_digits 32 False base v [])"
  by (auto simp: long_text_def format_buf_def ntoa_zeros_def rev_text_def PRINTF_NTOA_BUFFER_SIZE_def Let_def)

lemma base_pow: "c \<in> {100, 117, 120, 111, 98} \<Longrightarrow> 2 \<le> unat (integer_base c) \<and> unat (integer_base c) \<le> 16 \<and> 2 ^ 32 \<le> unat (integer_base c) ^ 32"
  by (auto simp: integer_base_def)

lemma unat_abs: "unat (if sint v > 0 then v else 0 - v) = nat \<bar>sint (v :: u32)\<bar>"
proof -
  have r: "- (2 ^ 31) \<le> sint v" "sint v < 2 ^ 31" using sint_greater_eq [of v] sint_less [of v] by simp_all
  have u: "uint v = sint v mod 2 ^ 32" by (simp add: uint_sint take_bit_eq_mod)
  have "uint (if sint v > 0 then v else 0 - v) = \<bar>sint v\<bar>"
  proof (cases "sint v > 0")
    case True
    then show ?thesis using r u by simp
  next
    case False
    have "uint (0 - v) = (- uint v) mod 2 ^ 32" by (simp only: uint_word_ariths) simp
    also have "\<dots> = (- sint v) mod 2 ^ 32" by (simp only: u mod_minus_eq)
    finally show ?thesis using False r by simp
  qed
  then show ?thesis by (metis unat_eq_nat_uint)
qed

text \<open>
  C19: Numbers read back. The text of \<open>%u\<close>, \<open>%x\<close>, \<open>%o\<close> or \<open>%b\<close> is a number in the base of the specifier, without leading zeros,
  whose value is the argument; the text of \<open>%d\<close> is the absolute value, after a minus sign if the argument is negative.
\<close>

theorem printf_number_roundtrip:
  assumes c: "c \<in> {117, 120, 111, 98}"
  shows "\<exists>T U. printf_text ftoa etoa [37, c] [VInt v] = Some (T, of_nat (length T)) \<and>
    read_number (unat (integer_base c)) T = unat v \<and> (hd T = 48 \<longrightarrow> v = 0) \<and>
    printf_text ftoa etoa [37, 100] [VInt v] = Some ((if sint v < 0 then [45] else []) @ U, of_nat (length ((if sint v < 0 then [45] else []) @ U))) \<and>
    read_number 10 U = nat \<bar>sint v\<bar>"
proof -
  have c': "c \<in> {100, 117, 120, 111, 98}" "(100 :: u8) \<in> {100, 117, 120, 111, 98}" using c by blast+
  have "unat v < unat (integer_base c) ^ 32" using base_pow [OF c'(1)] unsigned_less [of v, where ?'a = nat] by simp
  then obtain ds where ds: "ntoa_digits 32 False (integer_base c) v [] = ds" "ds \<noteq> []" "read_number (unat (integer_base c)) (rev ds) = unat v" "last ds = 48 \<longrightarrow> v = 0" "0 \<notin> set ds"
    using ntoa_digits_read [of "integer_base c" v 32 32 False "[]"] base_pow [OF c'(1)] by auto
  have "specifier_text ftoa etoa c 0 0 0 [VInt v] = Some (rev ds, [])"
    using c integer_flags_0 [OF c'(1)] ds(1) by (auto simp: specifier_text_def integer_text_def unsigned_arg_def long_text_plain)
  then have "format_text ftoa etoa [37, c] [VInt v] = Some (rev ds)" by (simp add: format_prefix_plain [OF c'(1)])
  from printf_text_plain [OF this] have 1: "printf_text ftoa etoa [37, c] [VInt v] = Some (rev ds, of_nat (length (rev ds)))" using ds(5) by simp
  let ?v = "if sint v > 0 then v else 0 - v"
  have "unat ?v < unat (10 :: u32) ^ 31" using unsigned_less [of ?v, where ?'a = nat] by simp
  then obtain es where es: "ntoa_digits 32 False 10 ?v [] = es" "length es \<le> 31" "read_number 10 (rev es) = unat ?v" "0 \<notin> set es"
    using ntoa_digits_read [of 10 ?v 31 32 False "[]"] by auto
  from es(1) have "specifier_text ftoa etoa 100 0 0 0 [VInt v] = Some ((if sint v < 0 then [45] else []) @ rev es, [])"
    using integer_flags_0 [OF c'(2)] es(2) by (simp add: specifier_text_def integer_text_def signed_arg_def signed_text_def long_text_plain integer_base_def)
  then have "format_text ftoa etoa [37, 100] [VInt v] = Some ((if sint v < 0 then [45] else []) @ rev es)" by (simp add: format_prefix_plain [OF c'(2)])
  from printf_text_plain [OF this] have "printf_text ftoa etoa [37, 100] [VInt v] =
      Some ((if sint v < 0 then [45] else []) @ rev es, of_nat (length ((if sint v < 0 then [45] else []) @ rev es)))"
    using es(4) by simp
  with 1 ds es(3) show ?thesis by (intro exI [of _ "rev ds"] exI [of _ "rev es"]) (simp add: hd_rev unat_abs)
qed

lemma printf_number_roundtrip_witness:
  "\<exists>T U. printf_text (\<lambda>_ _ _ _. []) (\<lambda>_ _ _ _. []) [37, 120] [VInt 0xfffffff6 :: unit varg] = Some (T, of_nat (length T)) \<and> read_number 16 T = 0xfffffff6 \<and>
    printf_text (\<lambda>_ _ _ _. []) (\<lambda>_ _ _ _. []) [37, 100] [VInt 0xfffffff6 :: unit varg] = Some (45 # U, of_nat (Suc (length U))) \<and> read_number 10 U = 10"
  using printf_number_roundtrip [of 120 "\<lambda>_ _ _ _. []" "\<lambda>_ _ _ _. []" "0xfffffff6"] by (auto simp: integer_base_def)

text \<open>A number filled up with zeros, as the clock of the window is printed (\<open>%010ld\<close>).\<close>

lemma tick_text:
  assumes "0 \<le> sint v"
  shows "\<exists>T. format_text ftoa etoa [37, 48, 49, 48, 108, 100] [VInt v] = Some T \<and> length T = 10 \<and> read_number 10 T = unat v"
proof -
  let ?f = "FLAGS_ZEROPAD OR FLAGS_LONG"
  have p: "format_prefix [48, 49, 48, 108, 100] [VInt v] = Some (10, 0, ?f, [100], [VInt v])"
    by (simp add: format_prefix_def format_width_def format_precision_def format_length_def at_def printf_is_digit_def)
  have f: "integer_flags 100 ?f = ?f" "has ?f FLAGS_ZEROPAD" "has ?f FLAGS_LONG" "\<not> has ?f FLAGS_LONG_LONG" "\<not> has ?f FLAGS_LEFT"
    "\<not> has ?f FLAGS_PLUS" "\<not> has ?f FLAGS_SPACE" "\<not> has ?f FLAGS_HASH" "\<not> has ?f FLAGS_PRECISION" "\<not> has ?f (FLAGS_PLUS OR FLAGS_SPACE)"
    "?f AND NOT FLAGS_HASH = ?f" "\<not> has ?f FLAGS_UPPERCASE"
    by (simp_all add: integer_flags_def has_def flag_defs)
  let ?v = "if sint v > 0 then v else 0 - v"
  have v: "unat ?v = unat v" using assms signed_word_eqI [where v = v and w = 0, where ?'a = int] by (cases "sint v = 0") auto
  then have "unat ?v < unat (10 :: u32) ^ 10" using unsigned_less [of v, where ?'a = nat] by simp
  then obtain ds where ds: "ntoa_digits 32 False 10 ?v [] = ds" "length ds \<le> 10" "read_number 10 (rev ds) = unat v"
    using ntoa_digits_read [of 10 ?v 10 32 False "[]"] v by auto
  have z: "read_number 10 (replicate n 48 @ T) = read_number 10 T" for n T by (induction n) (simp_all add: read_number_def digit_val_def)
  have lt: "long_text w False 10 0 10 ?f = replicate (10 - length ds) 48 @ rev ds" if "ntoa_digits 32 False 10 w [] = ds" for w
    using that ds(2) by (cases "w = 0") (simp_all add: long_text_def format_buf_def ntoa_zeros_def rev_text_def f PRINTF_NTOA_BUFFER_SIZE_def Let_def)
  have "(sint v < 0) = False" using assms by simp
  then have "signed_text v 10 0 10 ?f = replicate (10 - length ds) 48 @ rev ds" unfolding signed_text_def using lt [OF ds(1)] by (simp only:)
  then have "specifier_text ftoa etoa 100 10 0 ?f [VInt v] = Some (replicate (10 - length ds) 48 @ rev ds, [])"
    by (simp add: specifier_text_def integer_text_def f signed_arg_def integer_base_def)
  then show ?thesis using ds z by (simp add: p)
qed

lemma snprintf_correct_witness:
  "\<exists>b'. snprintf (\<lambda>_ _ _ _. []) (\<lambda>_ _ _ _. []) (Some (\<lambda>_. 7)) 4 [97, 37, 115, 98] [VStr [99, 100] :: unit varg] = Some (Some b', 4) \<and>
    b' 0 = 97 \<and> b' 1 = 99 \<and> b' 2 = 100 \<and> b' 3 = 0 \<and> b' 4 = 7"
proof -
  have p: "format_prefix [115, 98] [VStr [99, 100] :: unit varg] = Some (0, 0, 0, [115, 98], [VStr [99, 100]])"
    by (simp add: format_prefix_def format_width_def format_precision_def format_length_def at_def printf_is_digit_def)
  have "format_text (\<lambda>_ _ _ _. []) (\<lambda>_ _ _ _. []) [97, 37, 115, 98] [VStr [99, 100] :: unit varg] = Some [97, 99, 100, 98]"
    by (simp add: p specifier_text_def string_text_def)
  from snprintf_correct [OF this, of 4 "\<lambda>_. 7"] show ?thesis by auto
qed

end
