(* ===== verification/Selftest.thy ===== *)
theory Selftest
  imports Dlist Fifo Kutil
begin

text \<open>
  The self tests the kernel runs at boot (\<^verbatim>\<open>src/src/test.c\<close>) and the test of the linked list of
  \<^verbatim>\<open>src/src/util/dlist.c\<close>. The addresses of the three structures on the stack are parameters.
\<close>

definition la_of :: "u32 \<Rightarrow> u32" where "la_of ts = ts"
definition lb_of :: "u32 \<Rightarrow> u32" where "lb_of ts = ts + 8"

text \<open>The loop over the structures from \<open>pos\<close> on; \<open>dt\<close> gives the data of a structure.\<close>

partial_function (option) test_dlist_loop :: "u32 \<Rightarrow> u32 \<Rightarrow> u32 \<Rightarrow> (u32 \<Rightarrow> int) \<Rightarrow> u32 dstore \<Rightarrow> u32 \<Rightarrow> int \<Rightarrow> bool option" where
  "test_dlist_loop head ts1 ts2 dt h pos i =
     (if lb_of pos = head then Some True
      else if i = 1 \<and> pos \<noteq> ts1 then Some False
      else if i = 1 \<and> dt pos \<noteq> 1 then Some False
      else if i = 2 \<and> pos \<noteq> ts2 then Some False
      else if i = 2 \<and> dt pos \<noteq> 2 then Some False
      else if i = 3 then Some False
      else test_dlist_loop head ts1 ts2 dt h (dl_next (h (lb_of pos)) - 8) (i + 1))"

text \<open>The eight pointers of the first part are all null; the address 0 is a node like any other there.\<close>

definition test_dlist :: "u32 \<Rightarrow> u32 \<Rightarrow> u32 \<Rightarrow> u32 dstore \<Rightarrow> bool option" where
  "test_dlist ts_head ts1 ts2 h =
     (let d0 = 0; d1 = 0; d2 = 0; d3 = 0; dnew_a = 0; dnew_b = 0; dnew_c = 0; dnew_d = 0;
          h = dlist_init d3 (dlist_init d2 (dlist_init d1 (dlist_init d0 h)));
          h = dlist_init dnew_d (dlist_init dnew_c (dlist_init dnew_b (dlist_init dnew_a h)));
          h = fst (dlist_insert_after d0 d1 h);
          h = fst (dlist_insert_after d1 d2 h);
          h = fst (dlist_insert_before d0 d3 h);
          nx = (\<lambda>h p. dl_next (h p)); pv = (\<lambda>h p. dl_prev (h p))
      in if nx h d0 \<noteq> d1 \<or> nx h (nx h d0) \<noteq> d2 \<or> nx h (nx h (nx h d0)) \<noteq> d3 then Some False
         else if pv h d0 \<noteq> d3 \<or> pv h (pv h d0) \<noteq> d2 \<or> pv h (pv h (pv h d0)) \<noteq> d1 then Some False
         else
           (let h = fst (dlist_insert_before dnew_a dnew_b h);
                h = fst (dlist_insert_before dnew_a dnew_c h);
                h = fst (dlist_insert_before dnew_a dnew_d h);
                h = fst (dlist_insert_after d0 dnew_a h)
            in if nx h d0 \<noteq> dnew_a \<or> nx h (nx h d0) \<noteq> dnew_b \<or> nx h dnew_d \<noteq> d1 then Some False
               else if pv h dnew_a \<noteq> d0 \<or> pv h d1 \<noteq> dnew_d then Some False
               else
                 (let h = fst (dlist_remove dnew_a h)
                  in if nx h d0 \<noteq> dnew_b \<or> pv h dnew_b \<noteq> d0 then Some False
                     else if nx h dnew_a \<noteq> dnew_a \<or> pv h dnew_a \<noteq> dnew_a then Some False
                     else
                       (let h = dlist_init (lb_of ts_head) (dlist_init (la_of ts_head) h);
                            h = dlist_init (lb_of ts1) (dlist_init (la_of ts1) h);
                            h = dlist_init (lb_of ts2) (dlist_init (la_of ts2) h);
                            h = fst (dlist_insert_after (lb_of ts_head) (lb_of ts1) h);
                            h = fst (dlist_insert_after (lb_of ts1) (lb_of ts2) h);
                            dt = (\<lambda>_. 0)(ts_head := 0, ts1 := 1, ts2 := 2)
                        in test_dlist_loop (lb_of ts_head) ts1 ts2 dt h (nx h (lb_of ts_head) - 8) 1))))"

definition test_all :: "u32 \<Rightarrow> u32 \<Rightarrow> u32 \<Rightarrow> u32 dstore \<Rightarrow> bool option" where
  "test_all ts_head ts1 ts2 h = do {
     a \<leftarrow> test_dlist ts_head ts1 ts2 h;
     if \<not> a then Some False
     else do {
       b \<leftarrow> test_kutil;
       if \<not> b then Some False
       else do {
         c \<leftarrow> test_fifo32;
         if \<not> c then Some False else Some True
       }
     }
   }"

text \<open>With null pointers every node of the first part is the same node, so its comparisons hold whatever the operations do.\<close>

lemma null_ring:
  "dlist_init a h a = \<lparr>dl_next = a, dl_prev = a\<rparr>"
  "h a = \<lparr>dl_next = a, dl_prev = a\<rparr> \<Longrightarrow> fst (dlist_insert_after a a h) a = \<lparr>dl_next = a, dl_prev = a\<rparr>"
  "h a = \<lparr>dl_next = a, dl_prev = a\<rparr> \<Longrightarrow> fst (dlist_insert_before a a h) a = \<lparr>dl_next = a, dl_prev = a\<rparr>"
  "h a = \<lparr>dl_next = a, dl_prev = a\<rparr> \<Longrightarrow> fst (dlist_remove a h) a = \<lparr>dl_next = a, dl_prev = a\<rparr>"
  by (simp_all add: dlist_init_def dlist_insert_after_def dlist_insert_before_def dlist_remove_def set_next_def set_prev_def Let_def)

lemma test_dlist_passes:
  assumes "distinct [ts_head, ts_head + 8, ts1, ts1 + 8, ts2, ts2 + 8]"
  shows "test_dlist ts_head ts1 ts2 h = Some True"
proof -
  define k where "k = fst (dlist_remove 0 (fst (dlist_insert_after 0 0 (fst (dlist_insert_before 0 0 (fst (dlist_insert_before 0 0
    (fst (dlist_insert_before 0 0 (fst (dlist_insert_before 0 0 (fst (dlist_insert_after 0 0 (fst (dlist_insert_after 0 0
    (dlist_init 0 (dlist_init 0 (dlist_init 0 (dlist_init 0 (dlist_init 0 (dlist_init 0 (dlist_init 0 (dlist_init (0 :: u32) h)))))))))))))))))))))))"
  let ?h = "fst (dlist_insert_after (ts1 + 8) (ts2 + 8) (fst (dlist_insert_after (ts_head + 8) (ts1 + 8)
    (dlist_init (ts2 + 8) (dlist_init ts2 (dlist_init (ts1 + 8) (dlist_init ts1 (dlist_init (ts_head + 8) (dlist_init ts_head k)))))))))"
  have n: "dl_next (?h (ts_head + 8)) = ts1 + 8" "dl_next (?h (ts1 + 8)) = ts2 + 8" "dl_next (?h (ts2 + 8)) = ts_head + 8"
    using assms by (auto simp: dlist_init_def dlist_insert_after_def set_next_def set_prev_def Let_def)
  have "test_dlist_loop (ts_head + 8) ts1 ts2 ((\<lambda>_. 0)(ts_head := 0, ts1 := 1, ts2 := 2)) ?h (dl_next (?h (ts_head + 8)) - 8) 1 = Some True"
    using assms n by (simp add: test_dlist_loop.simps lb_of_def)
  then show ?thesis by (simp add: test_dlist_def null_ring lb_of_def la_of_def k_def Let_def)
qed

text \<open>
  The self tests of the kernel pass, wherever the stack is.
\<close>

theorem test_all_passes:
  assumes "distinct [ts_head, ts_head + 8, ts1, ts1 + 8, ts2, ts2 + 8]"
  shows "test_all ts_head ts1 ts2 h = Some True"
  by (simp add: test_all_def test_dlist_passes [OF assms] test_kutil_passes test_fifo32_passes)

lemma test_all_passes_witness: "test_all 0x7000 0x7020 0x7040 (\<lambda>_. \<lparr>dl_next = 0, dl_prev = 0\<rparr>) = Some True"
  by (rule test_all_passes) simp

end
