(* ===== verification/Kernel.thy ===== *)
theory Kernel
  imports Idt Disk Printf Selftest
begin

text \<open>
  The kernel of \<^verbatim>\<open>src/src/kernel.c\<close>: boot, and the three tasks it runs: the event loop of the input devices
  (\<^verbatim>\<open>eventloop\<close>), the window with the clock (\<^verbatim>\<open>__tss4_main\<close>) and the console (\<^verbatim>\<open>console_main\<close>). Every task is an
  endless loop; one turn of it is a function of the state. The local variables of a task are a record of
  its own. Addresses of the program's static objects and of its functions are fields or parameters; the
  number formats of floating point values, which the kernel does not use, are passed on as \<open>ft\<close>, \<open>et\<close>.
\<close>

section \<open>State\<close>

definition DEV_FIFO_KBD_END :: int where "DEV_FIFO_KBD_END = 256 + 0xff + 1"
definition DEV_FIFO_MOUSE_END :: int where "DEV_FIFO_MOUSE_END = 512 + 0xff + 1"

record kern =
  kn_os :: os
  kn_common :: FIFO32
  kn_mouse :: MOUSE_DATA_BUNDLE
  kn_fifo3 :: u32
  kn_fifo4 :: u32
  kn_task3 :: "nat option"
  kn_task4 :: "nat option"
  kn_taskConsole :: "nat option"
  kn_console :: u32
  kn_LRShift :: u32
  kn_keyLEDs :: u8
  kn_guard :: int
  kn_disk :: DISK

definition get_fifo32_common :: "kern \<Rightarrow> FIFO32" where
  "get_fifo32_common k = kn_common k"

definition get_guard :: "kern \<Rightarrow> int" where
  "get_guard k = kn_guard k"

definition on_os :: "(os \<Rightarrow> os option) \<Rightarrow> kern \<Rightarrow> kern option" where
  "on_os f k = do { s \<leftarrow> f (kn_os k); Some (k\<lparr>kn_os := s\<rparr>) }"

definition on_k :: "(kernel \<Rightarrow> kernel option) \<Rightarrow> kern \<Rightarrow> kern option" where
  "on_k f k = on_os (on_kernel f) k"

definition on_kcpu :: "(cpu \<Rightarrow> cpu) \<Rightarrow> kern \<Rightarrow> kern" where
  "on_kcpu f k = k\<lparr>kn_os := (kn_os k)\<lparr>os_k := on_cpu f (os_k (kn_os k))\<rparr>\<rparr>"

definition on_v :: "(screen \<Rightarrow> screen option) \<Rightarrow> kern \<Rightarrow> kern option" where
  "on_v f k = on_os (on_screen_os f) k"

definition on_g :: "(gfx \<Rightarrow> gfx option) \<Rightarrow> kern \<Rightarrow> kern option" where
  "on_g f k = on_v (on_gfx f) k"

definition ker :: "kern \<Rightarrow> kernel" where
  "ker k = os_k (kn_os k)"

definition scr :: "kern \<Rightarrow> screen" where
  "scr k = os_screen (kn_os k)"

definition kn_gfx :: "kern \<Rightarrow> gfx" where
  "kn_gfx k = vs_gfx (scr k)"

definition usage :: "u32 \<Rightarrow> kern \<Rightarrow> int" where
  "usage f k = mpfifo32_status_getUsageB f (ker k)"

definition dequeue :: "u32 \<Rightarrow> kern \<Rightarrow> (kern \<times> int) option" where
  "dequeue f k = do {
     (s, data) \<leftarrow> mpfifo32_dequeue f (ker k);
     Some (k\<lparr>kn_os := (kn_os k)\<lparr>os_k := s\<rparr>\<rparr>, data)
   }"

definition enqueue :: "u32 \<Rightarrow> int \<Rightarrow> kern \<Rightarrow> kern option" where
  "enqueue f data k = on_k (\<lambda>s. map_option fst (mpfifo32_enqueue f data s)) k"

definition alloc_timer :: "u32 \<Rightarrow> kern \<Rightarrow> kern \<times> nat option" where
  "alloc_timer f k =
     (let (c, t) = timer_alloc_customfifo f (ks_timerctl (ker k))
      in (k\<lparr>kn_os := (kn_os k)\<lparr>os_k := (ker k)\<lparr>ks_timerctl := c\<rparr>\<rparr>\<rparr>, t))"

definition settimer :: "nat option \<Rightarrow> u32 \<Rightarrow> u8 \<Rightarrow> kern \<Rightarrow> kern option" where
  "settimer t timeout data k = on_k (on_timers (timer_settimer t timeout data)) k"

section \<open>Printing\<close>

text \<open>Every character goes through \<^verbatim>\<open>_putchar\<close>.\<close>

definition kputchar :: "u8 \<Rightarrow> screen \<Rightarrow> screen option" where
  "kputchar character v = kfprint [character] 0 v"

definition kprintf :: "u8 list \<Rightarrow> unit varg list \<Rightarrow> screen \<Rightarrow> screen option" where
  "kprintf format va v = do {
     (T, _) \<leftarrow> printf_text (\<lambda>_ _ _ _. []) (\<lambda>_ _ _ _. []) format va;
     fold_opt kputchar T v
   }"

fun run_con_event :: "con_event \<Rightarrow> screen \<Rightarrow> screen option" where
  "run_con_event (PrintChar c) v = kprintf (str_bytes ''%c'') [VInt (scast c)] v"
| "run_con_event (KfPrint s) v = kfprint s 4 v"

definition report_key :: "u8 \<Rightarrow> kern \<Rightarrow> kern option" where
  "report_key scancode k = do { es \<leftarrow> int21h_handler scancode; on_v (fold_opt run_con_event es) k }"

section \<open>The mouse\<close>

definition retitle :: "nat \<Rightarrow> u8 list \<Rightarrow> bool \<Rightarrow> gfx \<Rightarrow> gfx option" where
  "retitle i title isFocus g = do {
     s \<leftarrow> get_sheet (gf_ctl g) i;
     on_mem (make_wtitle8 (sh_buf s) (sh_bufXsize s) (sh_bufYsize s) title isFocus) g
   }"

definition update_title :: "nat \<Rightarrow> gfx \<Rightarrow> gfx option" where
  "update_title i g = do {
     s \<leftarrow> get_sheet (gf_ctl g) i;
     on_mem (sheet_update_sheet i 0 0 (sh_bufXsize s) 21 (gf_ctl g)) g
   }"

text \<open>What a press of the left button does to the sheet under the pointer; the pointer was at \<open>xy0\<close> and is at \<open>xy\<close>.\<close>

definition drag_sheet :: "nat \<Rightarrow> nat option \<Rightarrow> nat option \<Rightarrow> int \<times> int \<Rightarrow> int \<times> int \<Rightarrow> gfx \<Rightarrow> gfx option" where
  "drag_sheet selected w c xy0 xy g = do {
     w \<leftarrow> w;
     c \<leftarrow> c;
     (if selected = w \<or> selected = c then do {
        g \<leftarrow> retitle w str_window (selected = w) g;
        g \<leftarrow> retitle c str_console (selected \<noteq> w) g;
        g \<leftarrow> on_sheets (sheet_updown selected (ct_zTop (gf_ctl g) - 1)) g;
        g \<leftarrow> update_title (if selected = w then c else w) g;
        s \<leftarrow> get_sheet (gf_ctl g) selected;
        on_sheets (sheet_slide selected (sh_xStart s + fst xy - fst xy0) (sh_yStart s + snd xy - snd xy0)) g
      }
      else do {
        g \<leftarrow> retitle w str_window False g;
        g \<leftarrow> retitle c str_console False g;
        g \<leftarrow> update_title w g;
        update_title c g
      })
   }"

definition int2ch_handler :: "u8 \<Rightarrow> kern \<Rightarrow> kern option" where
  "int2ch_handler scancode k = do {
     m \<leftarrow> ps2mouse_decode scancode (kn_mouse k);
     let k = k\<lparr>kn_mouse := m\<rparr>;
     let xy0 = getMouseXY (scr k);
     k \<leftarrow> on_v (graphic_move_mouse m) k;
     let xy = getMouseXY (scr k);
     if mo_btn m mod 2 \<noteq> 0 then do {
       selected \<leftarrow> get_sheet_by_cursor xy0 (gf_ctl (kn_gfx k));
       (case selected of
          None \<Rightarrow> Some k
        | Some i \<Rightarrow> on_g (drag_sheet i (vs_window (scr k)) (vs_console (scr k)) xy0 xy) k)
     }
     else Some k
   }"

section \<open>The event loop\<close>

text \<open>The part before the loop; the result is the timer.\<close>

definition eventloop_init :: "u32 \<Rightarrow> kern \<Rightarrow> (kern \<times> nat option) option" where
  "eventloop_init fifobuf3 k = do {
     let f = get_keymousefifo (kn_os k);
     k \<leftarrow> on_k (\<lambda>s. Some (s\<lparr>ks_fifos := (ks_fifos s)(f := (ks_fifos s f)\<lparr>mp_task := kn_task3 k\<rparr>)\<rparr>)) k;
     k \<leftarrow> on_k (\<lambda>s. Some (mpfifo32_init (kn_fifo3 k) fifobuf3 (replicate 4096 0) 4096 (kn_task3 k) s)) k;
     let (k, timer_1s) = alloc_timer (kn_fifo3 k) k;
     k \<leftarrow> settimer timer_1s 100 1 k;
     Some (k, timer_1s)
   }"

text \<open>
  A value of the input FIFO. The flag is false for the \<^verbatim>\<open>continue\<close> that skips the end of the turn,
  where interrupts are allowed again.
\<close>

definition keymouse_event :: "int \<Rightarrow> kern \<Rightarrow> (kern \<times> bool) option" where
  "keymouse_event data k =
     (if data < 0 then Some (k, True)
      else if data \<ge> DEV_FIFO_KBD_START \<and> data < DEV_FIFO_KBD_END then
        (let kbdscancode = data - DEV_FIFO_KBD_START;
             fallback = do { k \<leftarrow> report_key (word_of_int kbdscancode) k; Some (k, False) }
         in case vs_console (scr k) of
              None \<Rightarrow> fallback
            | Some sc \<Rightarrow> do {
                focus \<leftarrow> aget (ct_sheets (gf_ctl (kn_gfx k))) (ct_zTop (gf_ctl (kn_gfx k)) - 1);
                if focus = Some sc then
                  (if kn_console k = 0 then fallback
                   else do { k \<leftarrow> enqueue (kn_console k) data k; Some (k, True) })
                else Some (k, True)
              })
      else if data \<ge> DEV_FIFO_MOUSE_START \<and> data < DEV_FIFO_MOUSE_END then do {
        k \<leftarrow> int2ch_handler (word_of_int (data - DEV_FIFO_MOUSE_START)) k;
        Some (k, True)
      }
      else Some (k, True))"

text \<open>The part of a turn behind the label \<^verbatim>\<open>keymouse\<close>.\<close>

definition eventloop_keymouse :: "int \<Rightarrow> kern \<Rightarrow> kern option" where
  "eventloop_keymouse used k =
     (if used = 0 then Some (on_kcpu io_sti k)
      else do {
        (k, data_keymouse) \<leftarrow> dequeue (get_keymousefifo (kn_os k)) k;
        (k, sti) \<leftarrow> keymouse_event data_keymouse k;
        Some (if sti then on_kcpu io_sti k else k)
      })"

definition eventloop_step :: "nat option \<Rightarrow> kern \<Rightarrow> kern option" where
  "eventloop_step timer_1s k =
     (let k = on_kcpu io_cli k;
          used = usage (get_keymousefifo (kn_os k)) k
      in if usage (kn_fifo3 k) k = 0 \<and> used \<le> 0 then do {
           k \<leftarrow> on_k (mprocess_task_sleep (kn_task3 k)) k;
           Some (on_kcpu io_sti k)
         }
         else if usage (kn_fifo3 k) k = 0 then eventloop_keymouse used k
         else do {
           (k, data) \<leftarrow> dequeue (kn_fifo3 k) k;
           if data < 0 then Some (on_kcpu io_sti k)
           else do {
             k \<leftarrow> (if data = 1 then settimer timer_1s 100 1 k else Some k);
             eventloop_keymouse used k
           }
         })"

section \<open>The window with the clock\<close>

record tss4 =
  t4_sw :: "nat option"
  t4_color :: int
  t4_timer_1s :: "nat option"
  t4_timer_5s :: "nat option"
  t4_timer_render :: "nat option"
  t4_counter :: int

definition tss4_init :: "u32 \<Rightarrow> kern \<Rightarrow> (kern \<times> tss4) option" where
  "tss4_init fifobuf4 k = do {
     let sw = vs_window (scr k);
     k \<leftarrow> on_k (\<lambda>s. Some (mpfifo32_init (kn_fifo4 k) fifobuf4 (replicate 4096 0) 4096 (kn_task4 k) s)) k;
     let (k, timer_1s) = alloc_timer (kn_fifo4 k) k;
     k \<leftarrow> settimer timer_1s 100 11 k;
     let (k, timer_5s) = alloc_timer (kn_fifo4 k) k;
     k \<leftarrow> settimer timer_5s 500 15 k;
     let (k, timer_render) = alloc_timer (kn_fifo4 k) k;
     k \<leftarrow> settimer timer_render 50 16 k;
     Some (k, \<lparr>t4_sw = sw, t4_color = uint COL8_FFFFFF, t4_timer_1s = timer_1s, t4_timer_5s = timer_5s,
       t4_timer_render = timer_render, t4_counter = 0\<rparr>)
   }"

text \<open>The clock: ten digits in a box, with the blinking cursor; \<open>ctc\<close> is the array of 40 characters and then the string it holds.\<close>

definition draw_clock :: "nat \<Rightarrow> int \<Rightarrow> int \<Rightarrow> gfx \<Rightarrow> gfx option" where
  "draw_clock sw color tick g = do {
     s \<leftarrow> get_sheet (gf_ctl g) sw;
     (ctc, _) \<leftarrow> sprintf (\<lambda>_ _ _ _. []) (\<lambda>_ _ _ _. []) (Some (\<lambda>_. 0)) (str_bytes ''%010ld'') [VInt (word_of_int tick) :: unit varg];
     ctc \<leftarrow> ctc;
     let ctc = takeWhile (\<lambda>c. c \<noteq> 0) (map (\<lambda>i. ctc (of_nat i)) [0..<40]);
     g \<leftarrow> on_mem (\<lambda>m. Some (boxfill8 (sh_buf s) (sh_bufXsize s) COL8_C6C6C6 40 28 119 43 m)) g;
     g \<leftarrow> on_mem (\<lambda>m. Some (boxfill8 (sh_buf s) (sh_bufXsize s) (word_of_int color) 40 28 (40 + 7) (28 + 15) m)) g;
     g \<leftarrow> on_mem (putfonts8_asc (sh_buf s) (sh_bufXsize s) 40 28 COL8_000000 ctc) g;
     on_mem (sheet_update_sheet sw 40 28 120 44 (gf_ctl g)) g
   }"

definition tss4_step :: "tss4 \<Rightarrow> kern \<Rightarrow> (kern \<times> tss4) option" where
  "tss4_step l k =
     (let l = l\<lparr>t4_counter := i32 (t4_counter l + 1)\<rparr>;
          k = on_kcpu io_cli k
      in if usage (kn_fifo4 k) k \<le> 0 then do {
           k \<leftarrow> on_k (mprocess_task_sleep (kn_task4 k)) k;
           Some (on_kcpu io_sti k, l)
         }
         else do {
           (k, data) \<leftarrow> dequeue (kn_fifo4 k) k;
           if data < 0 then Some (k, l)
           else do {
             let l = (if data = 15 then l\<lparr>t4_counter := 0\<rparr> else l);
             k \<leftarrow> (if data = 15 then settimer (t4_timer_5s l) 500 0 k else Some k);
             k \<leftarrow> (if data = 16 then do {
                  k \<leftarrow> settimer (t4_timer_render l) 8 0 k;
                  (case t4_sw l of
                     None \<Rightarrow> Some k
                   | Some sw \<Rightarrow> on_g (draw_clock sw (t4_color l) (timer_gettick (ks_timerctl (ker k)))) k)
                } else Some k);
             k \<leftarrow> (if data = 11 then settimer (t4_timer_1s l) 100 11 k else Some k);
             let l = (if data = 11 \<and> t4_sw l \<noteq> None then l\<lparr>t4_color := t4_color l XOR uint COL8_C6C6C6\<rparr> else l);
             Some (k, l)
           }
         })"

section \<open>The console\<close>

definition OS_NAME :: string where "OS_NAME = ''placeholder''"
definition sizeof_MPFIFO32 :: u32 where "sizeof_MPFIFO32 = sizeof_FIFO32 + 4"

record console =
  co_task :: "nat option"
  co_sheet :: nat
  co_t :: u32
  co_cursorColor :: int
  co_timer :: "nat option"

text \<open>The text box of the console.\<close>

definition box :: "u32 \<Rightarrow> kern \<Rightarrow> TEXTBOX" where
  "box t k = gf_boxes (kn_gfx k) t"

definition puts_box :: "u32 \<Rightarrow> int \<Rightarrow> u8 list \<Rightarrow> kern \<Rightarrow> kern option" where
  "puts_box t color s k = on_g (v_textbox_putfonts8_asc t color s) k"

text \<open>Fill a rectangle of the text box and show it.\<close>

definition fill_box :: "u32 \<Rightarrow> u8 \<Rightarrow> int \<Rightarrow> int \<Rightarrow> int \<Rightarrow> int \<Rightarrow> kern \<Rightarrow> kern option" where
  "fill_box t color x0 y0 x1 y1 k = do {
     k \<leftarrow> on_g (v_textbox_boxfill8 t color x0 y0 x1 y1) k;
     on_g (v_textbox_update_sheet (tb_sheet (box t k)) x0 y0 x1 y1) k
   }"

definition console_init :: "nat option \<Rightarrow> kern \<Rightarrow> (kern \<times> console) option" where
  "console_init sheet k = do {
     task \<leftarrow> mprocess_task_get_current (ks_taskctl (ker k));
     (m, f) \<leftarrow> kzalloc sizeof_MPFIFO32 (ks_mm (ker k));
     (m, fifobuf) \<leftarrow> kzalloc (4 * 512) m;
     let k = k\<lparr>kn_console := f\<rparr>;
     k \<leftarrow> on_k (\<lambda>s. Some (mpfifo32_init f fifobuf (replicate 512 0) 512 task (s\<lparr>ks_mm := m\<rparr>))) k;
     sheet \<leftarrow> sheet;
     sh \<leftarrow> get_sheet (gf_ctl (kn_gfx k)) sheet;
     let t = sh_textbox sh;
     let (k, timer) = alloc_timer f k;
     k \<leftarrow> settimer timer 80 20 k;
     if t = 0 then None
     else do {
       k \<leftarrow> puts_box t (uint (tb_charColor (box t k))) (str_bytes ''>'') k;
       Some (k, \<lparr>co_task = task, co_sheet = sheet, co_t = t, co_cursorColor = uint COL8_FFFFFF, co_timer = timer\<rparr>)
     }
   }"

text \<open>Erase the rest of the line, point by point.\<close>

definition erase_line :: "u32 \<Rightarrow> kern \<Rightarrow> kern option" where
  "erase_line t k =
     (let b = box t k; prevY = tb_boxY b
      in fold_opt (\<lambda>x k. fill_box t (ucast (tb_bgColor b)) x prevY (i32 (x + uint (tb_incrementX b))) (i32 (prevY + uint (tb_incrementY b))) k)
           [tb_boxX b..tb_bufXE b - sint (tb_incrementX b)] k)"

text \<open>
  The key Enter: the commands ``cls'' and ``whoami''. The strings they are compared with are at the
  addresses \<open>lit_cls\<close> and \<open>lit_whoami\<close>.
\<close>

definition console_enter :: "u32 \<Rightarrow> u32 \<Rightarrow> u32 \<Rightarrow> kern \<Rightarrow> kern option" where
  "console_enter lit_cls lit_whoami t k = do {
     k \<leftarrow> erase_line t k;
     let lb = tb_lineBuf (box t k);
     let col = uint (tb_charColor (box t k));
     is_cls \<leftarrow> kstrcmp (mm_mem (ks_mm (ker k))) lb lit_cls;
     if is_cls = 0 then do {
       k \<leftarrow> on_g (v_textbox_reset t) k;
       puts_box t col (str_bytes ''>'') k
     }
     else do {
       is_whoami \<leftarrow> kstrcmp (mm_mem (ks_mm (ker k))) lb lit_whoami;
       k \<leftarrow> (if is_whoami = 0 then do {
            k \<leftarrow> puts_box t col [10] k;
            k \<leftarrow> puts_box t (uint COL8_848484) (str_bytes OS_NAME) k;
            k \<leftarrow> puts_box t col [10] k;
            puts_box t col (str_bytes ''>'') k
          }
          else do {
            k \<leftarrow> puts_box t col [10] k;
            puts_box t col (str_bytes ''>'') k
          });
       on_g (v_textbox_linebuf_clear t) k
     }
   }"

text \<open>The shift keys and the caps lock key.\<close>

definition shift_state :: "int \<Rightarrow> u32 \<Rightarrow> u32" where
  "shift_state kbdscancode s =
     (let s = (if kbdscancode = 0x2a then s OR 1 else s);
          s = (if kbdscancode = 0x36 then s OR 2 else s);
          s = (if kbdscancode = uint (0x2a OR BREAK_MASK) then s AND NOT 1 else s);
          s = (if kbdscancode = uint (0x36 OR BREAK_MASK) then s AND NOT 2 else s)
      in if kbdscancode = 0x3a then s XOR 4 else s)"

definition is_shift :: "u32 \<Rightarrow> bool" where
  "is_shift s \<longleftrightarrow> (s AND 3 > 0) \<noteq> (s AND 4 \<noteq> 0)"

text \<open>A key for the console; the flag is false for the \<^verbatim>\<open>continue\<close> that skips the cursor.\<close>

definition console_key :: "u32 \<Rightarrow> u32 \<Rightarrow> u32 \<Rightarrow> int \<Rightarrow> kern \<Rightarrow> (kern \<times> bool) option" where
  "console_key lit_cls lit_whoami t kbdscancode k =
     (if kbdscancode = 0x0e \<or> kbdscancode = 0x0f then Some (k, False)
      else if kbdscancode = 0x1c then do { k \<leftarrow> console_enter lit_cls lit_whoami t k; Some (k, False) }
      else do {
        let k = k\<lparr>kn_LRShift := shift_state kbdscancode (kn_LRShift k)\<rparr>;
        c \<leftarrow> input_get_char (word_of_int kbdscancode) (is_shift (kn_LRShift k));
        if c = 0 then Some (k, False)
        else do {
          let b = box t k;
          k \<leftarrow> on_g (\<lambda>g. map_option fst (v_textbox_linebuf_addchar t c g)) k;
          k \<leftarrow> fill_box t (ucast (tb_bgColor b)) (tb_boxX b) (tb_boxY b) (i32 (tb_boxX b + uint (tb_incrementX b)))
            (i32 (tb_boxY b + uint (tb_incrementY b))) k;
          k \<leftarrow> puts_box t (uint (tb_charColor (box t k))) [c] k;
          Some (k, True)
        }
      })"

text \<open>The end of a turn: the timer of the cursor and the cursor itself.\<close>

definition console_cursor :: "int \<Rightarrow> console \<Rightarrow> kern \<Rightarrow> (kern \<times> console) option" where
  "console_cursor i l k = do {
     k \<leftarrow> (if i = 21 then settimer (co_timer l) 80 20 k else Some k);
     let l = (if i = 21 then l\<lparr>co_cursorColor := uint COL8_FFFFFF\<rparr> else l);
     k \<leftarrow> (if i = 20 then settimer (co_timer l) 80 21 k else Some k);
     let l = (if i = 20 then l\<lparr>co_cursorColor := uint COL8_000000\<rparr> else l);
     let b = box (co_t l) k;
     k \<leftarrow> on_g (v_textbox_boxfill8 (co_t l) (word_of_int (co_cursorColor l)) (tb_boxX b) (tb_boxY b) (tb_boxX b + 7) (tb_boxY b + 15)) k;
     k \<leftarrow> on_g (\<lambda>g. on_mem (sheet_update_sheet (co_sheet l) (tb_boxX b) (tb_boxY b) (tb_boxX b + 7) (tb_boxY b + 15) (gf_ctl g)) g) k;
     Some (k, l)
   }"

definition console_step :: "u32 \<Rightarrow> u32 \<Rightarrow> console \<Rightarrow> kern \<Rightarrow> (kern \<times> console) option" where
  "console_step lit_cls lit_whoami l k =
     (let k = on_kcpu io_cli k
      in if usage (kn_console k) k = 0 then do {
           k \<leftarrow> on_k (mprocess_task_sleep (co_task l)) k;
           Some (on_kcpu io_sti k, l)
         }
         else do {
           (k, i) \<leftarrow> dequeue (kn_console k) k;
           let k = on_kcpu io_sti k;
           if i \<ge> DEV_FIFO_KBD_START \<and> i < DEV_FIFO_KBD_END then do {
             (k, more) \<leftarrow> console_key lit_cls lit_whoami (co_t l) (i - DEV_FIFO_KBD_START) k;
             if more then console_cursor i l k else Some (k, l)
           }
           else console_cursor i l k
         })"

section \<open>Boot\<close>

text \<open>What the program relies on of its environment: the devices, and the addresses of its functions, tables and literals.\<close>

record boot =
  bt_dev :: "u16 \<Rightarrow> io_event list \<Rightarrow> u8"
  bt_info :: BOOTINFO
  bt_handlers :: "u32 list"
  bt_idts :: u32
  bt_keybuf :: u32
  bt_gdts :: u32
  bt_idle :: u32
  bt_tss4_main :: u32
  bt_console_main :: u32
  bt_stack :: "u32 \<times> u32 \<times> u32"
  bt_heaptable :: "u8 list"

text \<open>A task with a stack of sixteen pages; \<open>room\<close> is the space kept free at its top.\<close>

definition new_task :: "u32 \<Rightarrow> u32 \<Rightarrow> kern \<Rightarrow> (kern \<times> nat) option" where
  "new_task eip room k = do {
     (tc, task) \<leftarrow> mprocess_task_alloc (ks_taskctl (ker k));
     t \<leftarrow> task;
     (m, stack) \<leftarrow> kzalloc (4096 * 16) (ks_mm (ker k));
     tc \<leftarrow> upd_task t (\<lambda>x. x\<lparr>tk_tss := (tk_tss x)\<lparr>tss_esp := stack + 4096 * 16 - room, tss_eip := eip,
         tss_cs := OS_GDT_KERNEL_CODE_SEGMENT_SELECTOR, tss_es := OS_GDT_KERNEL_DATA_SEGMENT_SELECTOR,
         tss_ss := OS_GDT_KERNEL_DATA_SEGMENT_SELECTOR, tss_ds := OS_GDT_KERNEL_DATA_SEGMENT_SELECTOR,
         tss_fs := OS_GDT_KERNEL_DATA_SEGMENT_SELECTOR, tss_gs := OS_GDT_KERNEL_DATA_SEGMENT_SELECTOR\<rparr>\<rparr>) tc;
     k \<leftarrow> on_k (\<lambda>s. Some (s\<lparr>ks_taskctl := tc, ks_mm := m\<rparr>)) k;
     Some (k, t)
   }"

definition run_task :: "nat option \<Rightarrow> int \<Rightarrow> u32 \<Rightarrow> kern \<Rightarrow> kern option" where
  "run_task t level priority k = on_k (on_tasks (mprocess_task_run t level priority)) k"

text \<open>
  The tasks of the kernel. The argument of the console, the address of its sheet, is
  written to its stack at \<open>esp + 4\<close>; \<open>sheet_arg\<close> is that address.
\<close>

definition start_tasks :: "boot \<Rightarrow> u32 \<Rightarrow> kern \<Rightarrow> kern option" where
  "start_tasks bt sheet_arg k = do {
     let k = on_kcpu io_cli k;
     (s, t3) \<leftarrow> mprocess_init (bt_idle bt) (ker k);
     k \<leftarrow> on_k (\<lambda>_. Some s) k;
     let k = k\<lparr>kn_task3 := Some t3\<rparr>;
     k \<leftarrow> run_task (kn_task3 k) 1 2 k;
     (k, t4) \<leftarrow> new_task (bt_tss4_main bt) 4 k;
     let k = k\<lparr>kn_task4 := Some t4\<rparr>;
     k \<leftarrow> run_task (kn_task4 k) 2 1 k;
     (k, tc) \<leftarrow> new_task (bt_console_main bt) 8 k;
     let k = k\<lparr>kn_taskConsole := Some tc\<rparr>;
     x \<leftarrow> get_task (ks_taskctl (ker k)) tc;
     let a = tss_esp (tk_tss x) + 4;
     k \<leftarrow> on_k (\<lambda>s. Some (s\<lparr>ks_mm := (ks_mm s)\<lparr>mm_mem := (mm_mem (ks_mm s))(a := ucast sheet_arg, a + 1 := ucast (drop_bit 8 sheet_arg),
       a + 2 := ucast (drop_bit 16 sheet_arg), a + 3 := ucast (drop_bit 24 sheet_arg))\<rparr>\<rparr>)) k;
     k \<leftarrow> run_task (kn_taskConsole k) 2 2 k;
     Some (on_kcpu io_sti k)
   }"

text \<open>Everything before the event loop, in the order of the source.\<close>

definition kernel_main :: "boot \<Rightarrow> u32 \<Rightarrow> u32 dstore \<Rightarrow> kern \<Rightarrow> kern option" where
  "kernel_main bt sheet_arg nodes k = do {
     f \<leftarrow> fifo32_init (Some (kn_common k)) (Some (replicate 4096 0)) 4096;
     let k = k\<lparr>kn_common := f\<rparr>;
     k \<leftarrow> on_os (idt_init (bt_handlers bt) (bt_idts bt) (bt_keybuf bt)) k;
     k \<leftarrow> on_k (\<lambda>s. Some (PIT_init s)) k;
     c \<leftarrow> ps2kbc_KBC_init (bt_dev bt) (ks_cpu (ker k));
     c \<leftarrow> ps2kbc_MOUSE_init (bt_dev bt) c;
     let c = PIC_init 0x20 0x28 c;
     (c, v) \<leftarrow> graphic_init (bt_info bt) c (scr k);
     let k = on_kcpu (\<lambda>_. c) (k\<lparr>kn_os := set_screen v (kn_os k)\<rparr>);
     k \<leftarrow> on_k (\<lambda>s. do { m \<leftarrow> k_mm_init (bt_heaptable bt) (ks_mm s); Some (s\<lparr>ks_mm := m\<rparr>) }) k;
     k \<leftarrow> on_v (graphic_window_manager_init (bt_info bt)) k;
     let k = on_kcpu io_sti (k\<lparr>kn_disk := disk_search_and_init\<rparr>);
     let (ts_head, ts1, ts2) = bt_stack bt;
     ok \<leftarrow> test_all ts_head ts1 ts2 nodes;
     k \<leftarrow> on_v (kprintf (str_bytes (if ok then ''Function test PASS'' else ''Function test FAIL'') @ [10]) []) k;
     k \<leftarrow> on_k (\<lambda>s. let (g, c) = gdt_migration (bt_gdts bt) (mm_mem (ks_mm s)) (ks_gdt s) (ks_cpu s) in Some (s\<lparr>ks_gdt := g, ks_cpu := c\<rparr>)) k;
     start_tasks bt sheet_arg (k\<lparr>kn_keyLEDs := drop_bit 4 (bi_leds (bt_info bt)) AND 7\<rparr>)
   }"

section \<open>Steps of the loops\<close>

definition kfifo :: "u32 \<Rightarrow> kern \<Rightarrow> FIFO32" where
  "kfifo f k = mp_fifo32 (ks_fifos (ker k) f)"

definition ktasks :: "kern \<Rightarrow> TASKCTL" where
  "ktasks k = ks_taskctl (ker k)"

definition kcpu :: "kern \<Rightarrow> cpu" where
  "kcpu k = ks_cpu (ker k)"

lemmas kern_parts = ker_def kfifo_def ktasks_def kcpu_def scr_def kn_gfx_def os_screen_def get_keymousefifo_def

lemma on_kcpu_sel [simp]:
  "kfifo f (on_kcpu g k) = kfifo f k" "ktasks (on_kcpu g k) = ktasks k" "scr (on_kcpu g k) = scr k" "kcpu (on_kcpu g k) = g (kcpu k)"
  "kn_os (on_kcpu g k) = (kn_os k)\<lparr>os_k := on_cpu g (ker k)\<rparr>" "kn_fifo3 (on_kcpu g k) = kn_fifo3 k"
  "kn_fifo4 (on_kcpu g k) = kn_fifo4 k" "kn_console (on_kcpu g k) = kn_console k" "kn_task3 (on_kcpu g k) = kn_task3 k"
  "kn_gfx (on_kcpu g k) = kn_gfx k" "ker (on_kcpu g k) = on_cpu g (ker k)"
  by (simp_all add: on_kcpu_def on_cpu_def kern_parts)

lemma usage_eq: "f \<noteq> 0 \<Longrightarrow> fifo_wf (kfifo f k) \<Longrightarrow> usage f k = int (length (fifo_contents (kfifo f k)))"
  by (auto simp: usage_def mpfifo32_status_getUsageB_def fifo_at_def kfifo_def fifo32_status_getUsageB_def fifo_used_def fifo_wf_def i32_eq
      split: option.splits)

lemma usage_cpu [simp]: "usage f (on_kcpu g k) = usage f k"
  by (simp add: usage_def on_cpu_def mpfifo32_status_getUsageB_def fifo_at_def)

lemma dequeue_ok:
  assumes "f \<noteq> 0" "fifo_wf (kfifo f k)" "fifo_contents (kfifo f k) = x # xs"
  obtains q where "dequeue f k = Some (k\<lparr>kn_os := (kn_os k)\<lparr>os_k := set_fifo f (Some q) (ker k)\<rparr>\<rparr>, x)"
    "fifo_wf q" "fifo_contents q = xs" "fifo_buflen q = fifo_buflen (kfifo f k)"
  using fifo_contents_Cons [OF assms(2,3)] assms(1)
  by (auto simp: dequeue_def mpfifo32_dequeue_def fifo_at_def kfifo_def)

lemma mpfifo32_enqueue_other:
  "mpfifo32_enqueue f d s = Some (s', r) \<Longrightarrow> g \<noteq> f \<Longrightarrow> ks_fifos s' g = ks_fifos s g"
  by (auto simp: mpfifo32_enqueue_def fifo_at_def set_fifo_def on_tasks_def Let_def bind_eq_Some_conv2
      split: if_splits option.splits prod.splits)

lemma sti_not_cli [simp]: "\<not> io_get_is_cli (io_sti c)"
  by (simp add: io_get_is_cli_def io_sti_def isMaskBitsAllSet_def bit_eq_iff bit_simps)

text \<open>Task \<open>t\<close> sleeps and its level \<open>l\<close> has room for it.\<close>

definition sleeping :: "kern \<Rightarrow> nat \<Rightarrow> nat \<Rightarrow> bool" where
  "sleeping k t l \<longleftrightarrow> t < 1000 \<and> sched_ok (ktasks k) \<and> tk_flags (tc_tasks0 (ktasks k) ! t) = MPROCESS_FLAGS_ALLOCATED \<and>
     tk_level (tc_tasks0 (ktasks k) ! t) = int l \<and> l < 10 \<and> tl_running (tc_level (ktasks k) ! l) < 100"

lemma enqueue_ok:
  assumes "f \<noteq> 0" "fifo_wf (kfifo f k)" "fifo_used (kfifo f k) < nat (fifo_buflen (kfifo f k))"
    and "mp_task (ks_fifos (ker k) f) = Some t" "sleeping k t l"
  obtains s where "enqueue f x k = Some (k\<lparr>kn_os := (kn_os k)\<lparr>os_k := s\<rparr>\<rparr>)" "fifo_wf (mp_fifo32 (ks_fifos s f))"
    "fifo_contents (mp_fifo32 (ks_fifos s f)) = fifo_contents (kfifo f k) @ [x]" "\<And>g. g \<noteq> f \<Longrightarrow> ks_fifos s g = ks_fifos (ker k) g"
    "sched_ok (ks_taskctl s)" "t \<in> set (ready (tc_level (ks_taskctl s) ! l))" "tc_lv_change (ks_taskctl s)" "ks_cpu s = ks_cpu (ker k)"
proof -
  obtain s where s: "mpfifo32_enqueue f x (ker k) = Some (s, 0)" "fifo_wf (mp_fifo32 (ks_fifos s f))"
    "fifo_contents (mp_fifo32 (ks_fifos s f)) = fifo_contents (kfifo f k) @ [x]" "sched_ok (ks_taskctl s)"
    "t \<in> set (ready (tc_level (ks_taskctl s) ! l))" "tc_lv_change (ks_taskctl s)"
    using enqueue_wakes [of f "ker k" t l x] assms unfolding kfifo_def sleeping_def ktasks_def by auto
  have e: "enqueue f x k = Some (k\<lparr>kn_os := (kn_os k)\<lparr>os_k := s\<rparr>\<rparr>)"
    using s(1) by (simp add: enqueue_def on_k_def on_os_def on_kernel_def ker_def)
  from s(1) have "\<And>g. g \<noteq> f \<Longrightarrow> ks_fifos s g = ks_fifos (ker k) g" "ks_cpu s = ks_cpu (ker k)"
    using mpfifo32_enqueue_other enqueue_cpu by blast+
  then show thesis using that e s by blast
qed

text \<open>The console has the focus: its sheet is the one below the pointer.\<close>

definition console_focused :: "kern \<Rightarrow> bool" where
  "console_focused k \<longleftrightarrow>
     (case vs_console (scr k) of None \<Rightarrow> False
      | Some sc \<Rightarrow> aget (ct_sheets (gf_ctl (kn_gfx k))) (ct_zTop (gf_ctl (kn_gfx k)) - 1) = Some (Some sc))"

lemma set_fifo_sel [simp]:
  "ks_taskctl (set_fifo f v s) = ks_taskctl s" "ks_cpu (set_fifo f v s) = ks_cpu s" "ks_mm (set_fifo f v s) = ks_mm s"
  "mp_task (ks_fifos (set_fifo f v s) g) = mp_task (ks_fifos s g)" "g \<noteq> f \<Longrightarrow> ks_fifos (set_fifo f v s) g = ks_fifos s g"
  "mp_fifo32 (ks_fifos (set_fifo f (Some q) s) f) = q"
  by (auto simp: set_fifo_def split: option.splits)

lemma keymouse_event_key:
  assumes "DEV_FIFO_KBD_START \<le> d" "d < DEV_FIFO_KBD_END" "console_focused k" "kn_console k \<noteq> 0"
  shows "keymouse_event d k = do { k \<leftarrow> enqueue (kn_console k) d k; Some (k, True) }"
  using assms by (auto simp: keymouse_event_def console_focused_def DEV_FIFO_KBD_START_def DEV_FIFO_KBD_END_def Let_def split: option.splits)


text \<open>
  A turn of the event loop with nothing to do, run by its task while another task is ready: the task
  sleeps, the processor has switched to another task, which is the current one of
  the scheduler, and interrupts are allowed.
\<close>

theorem eventloop_idle_sleeps:
  assumes km: "km = os_keymousefifo (kn_os k)" "km \<noteq> 0" "fifo_wf (kfifo km k)" "fifo_contents (kfifo km k) = []"
    and f3: "kn_fifo3 k \<noteq> 0" "fifo_wf (kfifo (kn_fifo3 k) k)" "fifo_contents (kfifo (kn_fifo3 k) k) = []"
    and t: "kn_task3 k = Some t" "sched_ok (ktasks k)" "mprocess_task_get_current (ktasks k) = Some (Some t)"
      "tc_now_lv (ktasks k) = int l" "tl_running (tc_level (ktasks k) ! l) > 0"
    and other: "l' < 10" "u \<in> set (ready (tc_level (ktasks k) ! l'))" "u \<noteq> t"
  shows "\<exists>k' nx. eventloop_step timer_1s k = Some k' \<and> tk_flags (tc_tasks0 (ktasks k') ! t) = MPROCESS_FLAGS_ALLOCATED \<and>
    mprocess_task_get_current (ktasks k') = Some (Some nx) \<and> nx \<noteq> t \<and>
    cpu_tr (kcpu k') = ucast (tk_sel (tc_tasks0 (ktasks k') ! nx)) \<and> sched_ok (ktasks k') \<and> \<not> io_get_is_cli (kcpu k')"
proof -
  have s: "ks_taskctl (on_cpu io_cli (ker k)) = ktasks k" by (simp add: on_cpu_def ktasks_def)
  obtain s' nx where s': "mprocess_task_sleep (Some t) (on_cpu io_cli (ker k)) = Some s'" "sched_ok (ks_taskctl s')"
    "tk_flags (tc_tasks0 (ks_taskctl s') ! t) = MPROCESS_FLAGS_ALLOCATED"
    "mprocess_task_get_current (ks_taskctl s') = Some (Some nx)" "nx \<noteq> t"
    "cpu_tr (ks_cpu s') = ucast (tk_sel (tc_tasks0 (ks_taskctl s') ! nx))"
    using sleep_current [of "on_cpu io_cli (ker k)" t l l' u, unfolded s, OF t(2-5) other] by blast
  have "eventloop_step timer_1s k = Some (on_kcpu io_sti ((on_kcpu io_cli k)\<lparr>kn_os := (kn_os k)\<lparr>os_k := s'\<rparr>\<rparr>))"
    using s'(1) km f3 t(1) usage_eq [OF km(2,3)] usage_eq [OF f3(1,2)]
    by (simp add: eventloop_step_def get_keymousefifo_def on_k_def on_os_def on_kernel_def Let_def)
  then show ?thesis using s' by (auto simp: kern_parts on_cpu_def io_sti_def sti_not_cli [unfolded io_sti_def])
qed

section \<open>The shift keys\<close>

text \<open>What is held and locked: the left and the right shift key, and the caps lock.\<close>

definition shift_abs :: "u32 \<Rightarrow> bool \<times> bool \<times> bool" where
  "shift_abs s = (bit s 0, bit s 1, bit s 2)"

definition shift_spec :: "int \<Rightarrow> bool \<times> bool \<times> bool \<Rightarrow> bool \<times> bool \<times> bool" where
  "shift_spec code st = (case st of (left, right, caps) \<Rightarrow>
     (if code = 0x2a then (True, right, caps)
      else if code = 0xaa then (False, right, caps)
      else if code = 0x36 then (left, True, caps)
      else if code = 0xb6 then (left, False, caps)
      else if code = 0x3a then (left, right, \<not> caps)
      else st))"

lemma bit_small:
  "bit (1 :: u32) n = (n = 0)" "bit (2 :: u32) n = (n = 1)" "bit (4 :: u32) n = (n = 2)" "bit (3 :: u32) n = (n = 0 \<or> n = 1)"
proof -
  have "bit (2 ^ 1 :: u32) n = (n = 1)" "bit (2 ^ 2 :: u32) n = (n = 2)" "bit (mask 2 :: u32) n = (n = 0 \<or> n = 1)"
    by (auto simp only: bit_exp_iff bit_mask_iff possible_bit_word) auto
  then show "bit (2 :: u32) n = (n = 1)" "bit (4 :: u32) n = (n = 2)" "bit (3 :: u32) n = (n = 0 \<or> n = 1)"
    by (simp_all add: mask_eq_exp_minus_1)
  show "bit (1 :: u32) n = (n = 0)" by (simp add: bit_1_iff)
qed

lemma shift_state_abs: "shift_abs (shift_state code s) = shift_spec code (shift_abs s)"
  by (simp add: shift_abs_def shift_state_def shift_spec_def BREAK_MASK_def bit_or_iff bit_and_iff bit_xor_iff bit_not_iff bit_small Let_def)

lemma and_eq_0:
  fixes s m :: u32
  shows "(s AND m = 0) = (\<forall>n. bit s n \<longrightarrow> \<not> bit m n)"
proof -
  have "(s AND m = 0) = (\<forall>n<32. bit (s AND m) n = bit (0 :: u32) n)" by (simp only: bit_word_eqI possible_bit_word bit_eq_iff) simp
  moreover have "bit s n \<Longrightarrow> n < 32" for n using bit_imp_le_length [of s n] by simp
  ultimately show ?thesis by (auto simp: bit_and_iff)
qed

lemma is_shift_abs: "is_shift s = (case shift_abs s of (left, right, caps) \<Rightarrow> (left \<or> right) \<noteq> caps)"
proof -
  have "(s AND 3 = 0) = (\<not> bit s 0 \<and> \<not> bit s 1)"
    unfolding and_eq_0 bit_small by (auto intro!: gr0I)
  moreover have "(s AND 4 = 0) = (\<not> bit s 2)"
    unfolding and_eq_0 bit_small by (auto intro!: gr0I)
  ultimately show ?thesis by (auto simp: is_shift_def shift_abs_def word_gt_0)
qed

text \<open>
  For every sequence of scancodes, the console takes a key as shifted exactly when a shift key is held or
  the caps lock is on, but not both: the bits of \<^verbatim>\<open>LRShift\<close> follow the keys.
\<close>

theorem console_shift_refines:
  "shift_abs (fold shift_state codes s) = fold shift_spec codes (shift_abs s) \<and>
   is_shift (fold shift_state codes s) =
     (case fold shift_spec codes (shift_abs s) of (left, right, caps) \<Rightarrow> (left \<or> right) \<noteq> caps)"
proof -
  have "shift_abs (fold shift_state codes s) = fold shift_spec codes (shift_abs s)"
    by (induction codes arbitrary: s) (simp_all add: shift_state_abs)
  then show ?thesis by (simp add: is_shift_abs)
qed

section \<open>Examples\<close>

text \<open>A kernel whose input FIFO, at address 64, holds the given values, and whose console has the focus.\<close>

definition kern0 :: "int list \<Rightarrow> kern" where
  "kern0 xs = \<lparr>kn_os = os0\<lparr>os_k := kernel0\<lparr>ks_fifos := (ks_fifos kernel0)(64 := \<lparr>mp_fifo32 = \<lparr>fifo_buf = Some (xs @ replicate (4 - length xs) 0),
        fifo_buflen = 4, fifo_free = 4 - int (length xs), fifo_next_r = 0, fifo_next_w = int (length xs), fifo_flags = 0\<rparr>,
        mp_bufaddr = 0x3000, mp_task = Some 0\<rparr>)\<rparr>, os_v := (os_v os0)\<lparr>vs_console := Some 0\<rparr>\<rparr>,
     kn_common = \<lparr>fifo_buf = None, fifo_buflen = 0, fifo_free = 0, fifo_next_r = 0, fifo_next_w = 0, fifo_flags = 0\<rparr>,
     kn_mouse = \<lparr>mo_buf = [0, 0, 0, 0], mo_phase = 0, mo_x = 0, mo_y = 0, mo_btn = 0\<rparr>,
     kn_fifo3 = 96, kn_fifo4 = 112, kn_task3 = Some 0, kn_task4 = None, kn_taskConsole = Some 3, kn_console = 128,
     kn_LRShift = 0, kn_keyLEDs = 0, kn_guard = 0, kn_disk = disk_search_and_init\<rparr>"

lemma kern0_sel:
  "ktasks (kern0 xs) = taskctl0" "os_keymousefifo (kn_os (kern0 xs)) = 64" "kn_fifo3 (kern0 xs) = 96" "kn_console (kern0 xs) = 128"
  "kn_task3 (kern0 xs) = Some 0" "mp_task (ks_fifos (ker (kern0 xs)) 128) = Some 3" "console_focused (kern0 xs)"
  by (simp_all add: kern0_def kern_parts kernel0_def os0_def console_focused_def ex_ctl_def aget_def)

lemma kern0_fifos:
  "length xs < 4 \<Longrightarrow> fifo_wf (kfifo 64 (kern0 xs))" "fifo_contents (kfifo 64 (kern0 [])) = []" "fifo_contents (kfifo 64 (kern0 [x])) = [x]"
  "f \<noteq> 64 \<Longrightarrow> fifo_wf (kfifo f (kern0 xs)) \<and> fifo_contents (kfifo f (kern0 xs)) = [] \<and> fifo_buflen (kfifo f (kern0 xs)) = 2"
  by (auto simp: kern0_def kern_parts kernel0_def fifo_wf_def fifo_contents_def fifo_used_def)


theorem eventloop_idle_sleeps_witness:
  "\<exists>k' nx. eventloop_step None (kern0 []) = Some k' \<and> mprocess_task_get_current (ktasks k') = Some (Some nx) \<and> nx \<noteq> 0"
proof -
  have f: "fifo_wf (kfifo 64 (kern0 []))" "fifo_contents (kfifo 64 (kern0 [])) = []"
    "fifo_wf (kfifo 96 (kern0 []))" "fifo_contents (kfifo 96 (kern0 [])) = []"
    using kern0_fifos(1) [of "[]"] kern0_fifos(2) kern0_fifos(4) [where xs = "[]"] by simp_all
  have "mprocess_task_get_current taskctl0 = Some (Some 0)"
    using get_current_ok(1) [OF taskctl0_ok, of 0] by (simp add: taskctl0_sel taskctl0_level level0_ready) (simp add: level0_def)
  then show ?thesis
    using eventloop_idle_sleeps [where km = 64 and k = "kern0 []" and t = 0 and l = 0 and l' = 0 and u = 2 and timer_1s = None] f taskctl0_ok
    by (auto simp: kern0_sel taskctl0_sel taskctl0_level level0_ready) (auto simp: level0_def)
qed

end
