(* ===== verification/Queue64.thy ===== *)
theory Queue64
  imports Fifo
begin

text \<open>
  The 64-bit kernel: its error values (\<^verbatim>\<open>src/src/error.hpp\<close>) and the queue that carries interrupts to its main loop
  (\<^verbatim>\<open>src/src/queue.hpp\<close>). \<^verbatim>\<open>size_t\<close> is a 64-bit word. An \<^verbatim>\<open>Error\<close> is its code; the file and line it also
  carries serve for messages only. The queue satisfies the contract \<open>bounded_queue\<close> of theory \<open>Fifo\<close>, for elements of any type.
\<close>

section \<open>Errors\<close>

datatype Code = kSuccess | kFull | kEmpty | kNoEnoughMemory | kIndexOutOfRange | kHostControllerNotHalted | kInvalidSlotID
  | kPortNotConnected | kInvalidEndpointNumber | kTransferRingNotSet | kAlreadyAllocated | kNotImplemented | kInvalidDescriptor
  | kBufferTooSmall | kUnknownDevice | kNoCorrespondingSetupStage | kTransferFailed | kInvalidPhase | kUnknownXHCISpeedID
  | kNoWaiter | kEndpointNotInCharge | kNoPCIMSI | kLastOfCode

text \<open>The conversion to \<^verbatim>\<open>bool\<close>: whether the value is an error.\<close>

definition is_error :: "Code \<Rightarrow> bool" where
  "is_error code = (code \<noteq> kSuccess)"

record 'a WithError =
  we_value :: 'a
  we_error :: Code

section \<open>The queue\<close>

record 'a ArrayQueue =
  aq_data :: "'a list"
  aq_read_pos :: u64
  aq_write_pos :: u64
  aq_count :: u64
  aq_capacity :: u64

definition ArrayQueue_new :: "'a list \<Rightarrow> u64 \<Rightarrow> 'a ArrayQueue" where
  "ArrayQueue_new buf sz = \<lparr>aq_data = buf, aq_read_pos = 0, aq_write_pos = 0, aq_count = 0, aq_capacity = sz\<rparr>"

definition Push :: "'a \<Rightarrow> 'a ArrayQueue \<Rightarrow> ('a ArrayQueue \<times> Code) option" where
  "Push value q =
     (if aq_count q = aq_capacity q then Some (q, kFull)
      else do {
        data \<leftarrow> aset (aq_data q) (uint (aq_write_pos q)) value;
        let w = aq_write_pos q + 1;
        let w = (if w = aq_capacity q then 0 else w);
        Some (q\<lparr>aq_data := data, aq_count := aq_count q + 1, aq_write_pos := w\<rparr>, kSuccess)
      })"

definition Pop :: "'a ArrayQueue \<Rightarrow> 'a ArrayQueue \<times> Code" where
  "Pop q =
     (if aq_count q = 0 then (q, kEmpty)
      else
        (let r = aq_read_pos q + 1;
             r = (if r = aq_capacity q then 0 else r)
         in (q\<lparr>aq_count := aq_count q - 1, aq_read_pos := r\<rparr>, kSuccess)))"

definition IsEmpty :: "'a ArrayQueue \<Rightarrow> bool" where
  "IsEmpty q = (aq_count q = 0)"

definition Count :: "'a ArrayQueue \<Rightarrow> u64" where
  "Count q = aq_count q"

definition Capacity :: "'a ArrayQueue \<Rightarrow> u64" where
  "Capacity q = aq_capacity q"

definition Front :: "'a ArrayQueue \<Rightarrow> 'a option" where
  "Front q = aget (aq_data q) (uint (aq_read_pos q))"

section \<open>Rings\<close>

text \<open>The \<open>u\<close> elements of an array from position \<open>r\<close> on, around its end.\<close>

definition ring :: "'a list \<Rightarrow> nat \<Rightarrow> nat \<Rightarrow> 'a list" where
  "ring b r u = map (\<lambda>k. b ! ((r + k) mod length b)) [0..<u]"

lemma length_ring [simp]: "length (ring b r u) = u"
  by (simp add: ring_def)

lemma ring_snoc:
  assumes "u < length b"
  shows "ring (b[(r + u) mod length b := x]) r (Suc u) = ring b r u @ [x]"
proof -
  have "(r + k) mod length b \<noteq> (r + u) mod length b" if "k < u" for k
    using that assms by (intro mod_add_neq) auto
  moreover have "(r + u) mod length b < length b" using assms by (intro mod_less_divisor) linarith
  ultimately show ?thesis by (simp add: ring_def nth_list_update) (metis atLeastLessThan_iff)
qed

lemma ring_Cons: "r < length b \<Longrightarrow> ring b r (Suc u) = b ! r # ring b (Suc r mod length b) u"
  unfolding ring_def upt_conv_Cons [OF zero_less_Suc] map_Suc_upt [symmetric] by (simp add: mod_simps)

section \<open>The contract\<close>

definition aq_wf :: "'a ArrayQueue \<Rightarrow> bool" where
  "aq_wf q \<longleftrightarrow> length (aq_data q) = unat (aq_capacity q) \<and> aq_read_pos q < aq_capacity q \<and> aq_count q \<le> aq_capacity q \<and>
     unat (aq_write_pos q) = (unat (aq_read_pos q) + unat (aq_count q)) mod unat (aq_capacity q)"

definition aq_contents :: "'a ArrayQueue \<Rightarrow> 'a list" where
  "aq_contents q = ring (aq_data q) (unat (aq_read_pos q)) (unat (aq_count q))"

lemma unat_wrap:
  assumes "(w :: u64) < c"
  shows "unat (if w + 1 = c then 0 else w + 1) = Suc (unat w) mod unat c"
proof -
  have "unat w + 1 < 2 ^ 64" using assms unsigned_less [of c, where ?'a = nat] by (simp add: word_less_nat_alt)
  then have w: "unat (w + 1) = Suc (unat w)" by (subst unat_add_nowrap) simp_all
  then show ?thesis using assms by (auto simp: word_unat_eq_iff word_less_nat_alt)
qed

lemma Push_ok:
  assumes "aq_wf q" "length (aq_contents q) < unat (aq_capacity q)"
  shows "\<exists>q'. Push x q = Some (q', kSuccess) \<and> aq_wf q' \<and> aq_contents q' = aq_contents q @ [x] \<and> aq_capacity q' = aq_capacity q"
proof -
  let ?n = "length (aq_data q)" and ?r = "unat (aq_read_pos q)" and ?u = "unat (aq_count q)"
  have n: "unat (aq_capacity q) = ?n" "?r < ?n" "?u < ?n" and w: "unat (aq_write_pos q) = (?r + ?u) mod ?n"
    using assms by (simp_all add: aq_wf_def aq_contents_def word_less_nat_alt)
  have "(?r + ?u) mod ?n < ?n" using n(2) by (intro mod_less_divisor) linarith
  then have wl: "aq_write_pos q < aq_capacity q" using n(1) w by (simp add: word_less_nat_alt)
  have c: "unat (aq_count q + 1) = Suc ?u"
    using n(1,3) unsigned_less [of "aq_capacity q", where ?'a = nat] by (subst unat_add_nowrap) simp_all
  define w' where "w' = (if aq_write_pos q + 1 = aq_capacity q then 0 else aq_write_pos q + 1)"
  have w': "unat w' = (?r + Suc ?u) mod ?n"
    unfolding w'_def unat_wrap [OF wl] using n(1) w by (simp add: mod_simps)
  let ?q = "q\<lparr>aq_data := (aq_data q)[(?r + ?u) mod ?n := x], aq_count := aq_count q + 1, aq_write_pos := w'\<rparr>"
  have "Push x q = Some (?q, kSuccess)"
    using n w wl by (auto simp: Push_def aset_word w'_def word_less_nat_alt Let_def)
  moreover have "aq_wf ?q" using n c w' by (simp add: aq_wf_def word_less_nat_alt word_le_nat_alt)
  moreover have "aq_contents ?q = aq_contents q @ [x]" using ring_snoc [OF n(3), of ?r x] by (simp add: aq_contents_def c)
  ultimately show ?thesis by (intro exI [of _ ?q]) simp
qed

lemma Pop_ok:
  assumes "aq_wf q" "aq_contents q = x # xs"
  shows "\<exists>q'. Front q = Some x \<and> Pop q = (q', kSuccess) \<and> aq_wf q' \<and> aq_contents q' = xs \<and> aq_capacity q' = aq_capacity q"
proof -
  let ?n = "length (aq_data q)" and ?r = "unat (aq_read_pos q)"
  have n: "unat (aq_capacity q) = ?n" "?r < ?n" "aq_read_pos q < aq_capacity q" using assms(1) by (simp_all add: aq_wf_def word_less_nat_alt)
  obtain v where v: "unat (aq_count q) = Suc v" using assms(2) by (cases "unat (aq_count q)") (auto simp: aq_contents_def ring_def)
  then have c: "unat (aq_count q - 1) = v" by (subst unat_sub_nowrap) simp_all
  have c0: "aq_count q \<noteq> 0" using v by auto
  define r' where "r' = (if aq_read_pos q + 1 = aq_capacity q then 0 else aq_read_pos q + 1)"
  have r': "unat r' = Suc ?r mod ?n" unfolding r'_def unat_wrap [OF n(3)] n(1) ..
  have w: "unat (aq_write_pos q) = (?r + Suc v) mod ?n" "Suc v \<le> ?n" using assms(1) v n(1) by (simp_all add: aq_wf_def word_le_nat_alt)
  have x: "x = aq_data q ! ?r" "xs = ring (aq_data q) (Suc ?r mod ?n) v"
    using assms(2) ring_Cons [OF n(2), of v] by (simp_all add: aq_contents_def v)
  let ?q = "q\<lparr>aq_count := aq_count q - 1, aq_read_pos := r'\<rparr>"
  have "Pop q = (?q, kSuccess)" using c0 by (simp add: Pop_def r'_def Let_def)
  moreover have "Front q = Some x" using n(2) x(1) by (simp add: Front_def aget_word)
  moreover have "Suc ?r mod ?n < ?n" using n(2) by (intro mod_less_divisor) linarith
  then have "aq_wf ?q" using n w r' c by (simp add: aq_wf_def word_less_nat_alt word_le_nat_alt mod_simps)
  ultimately show ?thesis using x(2) r' c by (intro exI [of _ ?q]) (simp add: aq_contents_def)
qed

definition aq_enq :: "'a ArrayQueue \<Rightarrow> 'a \<Rightarrow> ('a ArrayQueue \<times> Code) option" where
  "aq_enq q x = Push x q"

text \<open>Reading and removing, the way the main loop does.\<close>

definition aq_deq :: "'a ArrayQueue \<Rightarrow> ('a ArrayQueue \<times> 'a) option" where
  "aq_deq q = do { x \<leftarrow> Front q; Some (fst (Pop q), x) }"

interpretation aq: bounded_queue aq_wf aq_contents "\<lambda>q. unat (aq_capacity q)" aq_enq aq_deq kSuccess kFull
proof (unfold_locales, goal_cases)
  case (1 q) then show ?case by (simp add: aq_wf_def aq_contents_def word_le_nat_alt)
next
  case (2 q x) then show ?case using Push_ok [of q x] by (auto simp: aq_enq_def)
next
  case (3 q x) then show ?case by (auto simp: aq_enq_def Push_def aq_contents_def word_unat_eq_iff)
next
  case (4 q x xs) then show ?case using Pop_ok [of q x xs] by (auto simp: aq_deq_def)
next
  case (5 q)
  then have "aq_count q = 0" "unat (aq_read_pos q) < length (aq_data q)"
    by (auto simp: aq_contents_def ring_def aq_wf_def word_less_nat_alt unat_eq_zero)
  then show ?case by (simp add: aq_deq_def Front_def aget_word Pop_def)
qed

section \<open>Properties\<close>

text \<open>
  C33: The queue of the 64-bit kernel: on a well-formed queue \<^verbatim>\<open>Push\<close> appends, or refuses with \<^verbatim>\<open>kFull\<close> and changes nothing; \<^verbatim>\<open>Front\<close> and \<^verbatim>\<open>Pop\<close>
  give and remove the oldest element, and \<^verbatim>\<open>Pop\<close> refuses with \<^verbatim>\<open>kEmpty\<close>. Any values that fit, put into a new
  queue one after the other, come out in the same order.
\<close>

theorem ArrayQueue_correct:
  assumes "aq_wf q" "buf \<noteq> []" "length buf < 2 ^ 64" "length xs \<le> length buf"
  shows "(if aq_count q = aq_capacity q then Push x q = Some (q, kFull)
      else \<exists>q'. Push x q = Some (q', kSuccess) \<and> aq_wf q' \<and> aq_contents q' = aq_contents q @ [x]) \<and>
    (case aq_contents q of [] \<Rightarrow> IsEmpty q \<and> Pop q = (q, kEmpty)
     | y # ys \<Rightarrow> \<not> IsEmpty q \<and> Front q = Some y \<and> (\<exists>q'. Pop q = (q', kSuccess) \<and> aq_wf q' \<and> aq_contents q' = ys)) \<and>
    (\<exists>q1 q2. enq_all aq_enq (ArrayQueue_new buf (of_nat (length buf))) xs = Some q1 \<and> deq_n aq_deq (length xs) q1 = Some (q2, xs))"
proof (intro conjI)
  have l: "length (aq_contents q) = unat (aq_count q)" by (simp add: aq_contents_def)
  show "if aq_count q = aq_capacity q then Push x q = Some (q, kFull)
      else \<exists>q'. Push x q = Some (q', kSuccess) \<and> aq_wf q' \<and> aq_contents q' = aq_contents q @ [x]"
    using Push_ok [OF assms(1), of x] assms(1) l by (auto simp: Push_def aq_wf_def word_le_nat_alt word_unat_eq_iff le_less)
  show "case aq_contents q of [] \<Rightarrow> IsEmpty q \<and> Pop q = (q, kEmpty)
     | y # ys \<Rightarrow> \<not> IsEmpty q \<and> Front q = Some y \<and> (\<exists>q'. Pop q = (q', kSuccess) \<and> aq_wf q' \<and> aq_contents q' = ys)"
    using Pop_ok [OF assms(1)] l by (auto simp: IsEmpty_def Pop_def unat_eq_zero split: list.splits)
  have "aq_wf (ArrayQueue_new buf (of_nat (length buf)))" "aq_contents (ArrayQueue_new buf (of_nat (length buf))) = []"
    using assms(2,3) by (simp_all add: ArrayQueue_new_def aq_wf_def aq_contents_def ring_def unat_of_nat_small word_less_nat_alt)
  then show "\<exists>q1 q2. enq_all aq_enq (ArrayQueue_new buf (of_nat (length buf))) xs = Some q1 \<and> deq_n aq_deq (length xs) q1 = Some (q2, xs)"
    using aq.fifo_order [of "ArrayQueue_new buf (of_nat (length buf))" xs] assms(3,4) by (auto simp: ArrayQueue_new_def unat_of_nat_small)
qed

theorem ArrayQueue_correct_witness:
  "\<exists>q1 q2. enq_all aq_enq (ArrayQueue_new [0, 0] 2) [5, 6 :: nat] = Some q1 \<and> deq_n aq_deq 2 q1 = Some (q2, [5, 6])"
proof -
  have "aq_wf (ArrayQueue_new [0 :: nat] 1)" by (simp add: ArrayQueue_new_def aq_wf_def)
  from ArrayQueue_correct [OF this, of "[0, 0 :: nat]" "[5, 6]"]
  have "\<exists>q1 q2. enq_all aq_enq (ArrayQueue_new [0, 0 :: nat] (of_nat (length [0, 0 :: nat]))) [5, 6] = Some q1 \<and>
      deq_n aq_deq (length [5, 6 :: nat]) q1 = Some (q2, [5, 6])" by simp
  then show ?thesis by (simp add: numeral_2_eq_2 del: enq_all.simps deq_n.simps)
qed

end
