(* ===== verification/Frames.thy ===== *)
theory Frames
  imports Queue64
begin

text \<open>
  The physical memory manager of the 64-bit kernel (\<^verbatim>\<open>src/src/memory_manager.{hpp,cpp}\<close>): a bitmap with a bit per frame of
  4096 bytes, and the loop of \<^verbatim>\<open>src/src/main.cpp\<close> that enters the memory map of the firmware
  (\<^verbatim>\<open>src/src/memory_map.hpp\<close>). A \<^verbatim>\<open>FrameID\<close> is its number; the array behind \<^verbatim>\<open>alloc_map_\<close> is a list.
\<close>

section \<open>The bitmap\<close>

definition kBytesPerFrame :: u64 where "kBytesPerFrame = 4 * 1024"
definition kMaxPhysicalMemoryBytes :: u64 where "kMaxPhysicalMemoryBytes = 128 * (1024 * (1024 * 1024))"
definition kFrameCount :: u64 where "kFrameCount = kMaxPhysicalMemoryBytes div kBytesPerFrame"
definition kBitsPerMapLine :: u64 where "kBitsPerMapLine = 8 * 8"
definition kNullFrame :: u64 where "kNullFrame = - 1"

definition Frame :: "u64 \<Rightarrow> u64" where
  "Frame frame = frame * kBytesPerFrame"

record BitmapMemoryManager =
  bm_alloc_map :: "u64 list"
  bm_range_begin :: u64
  bm_range_end :: u64

definition BitmapMemoryManager_new :: BitmapMemoryManager where
  "BitmapMemoryManager_new =
     \<lparr>bm_alloc_map = replicate (unat (kFrameCount div kBitsPerMapLine)) 0, bm_range_begin = 0, bm_range_end = kFrameCount\<rparr>"

definition GetBit :: "u64 \<Rightarrow> BitmapMemoryManager \<Rightarrow> bool option" where
  "GetBit frame m = do {
     let line_index = frame div kBitsPerMapLine;
     let bit_index = frame mod kBitsPerMapLine;
     line \<leftarrow> aget (bm_alloc_map m) (uint line_index);
     Some (line AND push_bit (unat bit_index) 1 \<noteq> 0)
   }"

definition SetBit :: "u64 \<Rightarrow> bool \<Rightarrow> BitmapMemoryManager \<Rightarrow> BitmapMemoryManager option" where
  "SetBit frame allocated m = do {
     let line_index = frame div kBitsPerMapLine;
     let bit_index = frame mod kBitsPerMapLine;
     line \<leftarrow> aget (bm_alloc_map m) (uint line_index);
     map \<leftarrow> aset (bm_alloc_map m) (uint line_index)
       (if allocated then line OR push_bit (unat bit_index) 1 else line AND NOT (push_bit (unat bit_index) 1));
     Some (m\<lparr>bm_alloc_map := map\<rparr>)
   }"

definition MarkAllocated :: "u64 \<Rightarrow> u64 \<Rightarrow> BitmapMemoryManager \<Rightarrow> BitmapMemoryManager option" where
  "MarkAllocated start_frame num_frames m =
     fold_opt (\<lambda>i m. SetBit (start_frame + of_nat i) True m) [0..<unat num_frames] m"

definition Free :: "u64 \<Rightarrow> u64 \<Rightarrow> BitmapMemoryManager \<Rightarrow> (BitmapMemoryManager \<times> Code) option" where
  "Free start_frame num_frames m = do {
     m \<leftarrow> fold_opt (\<lambda>i m. SetBit (start_frame + of_nat i) False m) [0..<unat num_frames] m;
     Some (m, kSuccess)
   }"

definition SetMemoryRange :: "u64 \<Rightarrow> u64 \<Rightarrow> BitmapMemoryManager \<Rightarrow> BitmapMemoryManager" where
  "SetMemoryRange range_begin range_end m = m\<lparr>bm_range_begin := range_begin, bm_range_end := range_end\<rparr>"

text \<open>The inner loop of \<^verbatim>\<open>Allocate\<close>, with \<open>n\<close> turns left: the end of the memory, an occupied frame at offset \<open>i\<close>, or enough free frames.\<close>

datatype scan = NoMemory | Occupied u64 | Enough

fun alloc_scan :: "nat \<Rightarrow> u64 \<Rightarrow> u64 \<Rightarrow> BitmapMemoryManager \<Rightarrow> scan option" where
  "alloc_scan 0 i start_frame_id m = Some Enough"
| "alloc_scan (Suc n) i start_frame_id m =
     (if start_frame_id + i \<ge> bm_range_end m then Some NoMemory
      else do {
        b \<leftarrow> GetBit (start_frame_id + i) m;
        (if b then Some (Occupied i) else alloc_scan n (i + 1) start_frame_id m)
      })"

partial_function (option) alloc_loop :: "u64 \<Rightarrow> u64 \<Rightarrow> BitmapMemoryManager \<Rightarrow> (BitmapMemoryManager \<times> u64 WithError) option" where
  "alloc_loop num_frames start_frame_id m = do {
     r \<leftarrow> alloc_scan (unat num_frames) 0 start_frame_id m;
     (case r of
        NoMemory \<Rightarrow> Some (m, \<lparr>we_value = kNullFrame, we_error = kNoEnoughMemory\<rparr>)
      | Enough \<Rightarrow> do {
          m \<leftarrow> MarkAllocated start_frame_id num_frames m;
          Some (m, \<lparr>we_value = start_frame_id, we_error = kSuccess\<rparr>)
        }
      | Occupied i \<Rightarrow> alloc_loop num_frames (start_frame_id + (i + 1)) m)
   }"

definition Allocate :: "u64 \<Rightarrow> BitmapMemoryManager \<Rightarrow> (BitmapMemoryManager \<times> u64 WithError) option" where
  "Allocate num_frames m = alloc_loop num_frames (bm_range_begin m) m"

section \<open>The memory map of the firmware\<close>

record MemoryDescriptor =
  md_type :: u32
  md_physical_start :: u64
  md_virtual_start :: u64
  md_number_of_pages :: u64
  md_attribute :: u64

definition kUEFIPageSize :: u64 where "kUEFIPageSize = 4096"

text \<open>Boot services code and data, and conventional memory.\<close>

definition IsAvailable :: "u32 \<Rightarrow> bool" where
  "IsAvailable memory_type \<longleftrightarrow> memory_type = 3 \<or> memory_type = 4 \<or> memory_type = 7"

text \<open>The loop over the descriptors, which the list holds in their order; the state is the bitmap and \<^verbatim>\<open>available_end\<close>.\<close>

fun memory_map_loop :: "MemoryDescriptor list \<Rightarrow> BitmapMemoryManager \<Rightarrow> u64 \<Rightarrow> (BitmapMemoryManager \<times> u64) option" where
  "memory_map_loop [] m available_end = Some (m, available_end)"
| "memory_map_loop (desc # descs) m available_end =
     (if md_physical_start desc > 128 * 1024 * 1024 * 1024 then Some (m, available_end)
      else do {
        m \<leftarrow> (if available_end < md_physical_start desc
          then MarkAllocated (available_end div kBytesPerFrame) ((md_physical_start desc - available_end) div kBytesPerFrame) m
          else Some m);
        let physical_end = md_physical_start desc + md_number_of_pages desc * kUEFIPageSize;
        (if IsAvailable (md_type desc) then memory_map_loop descs m physical_end
         else do {
           m \<leftarrow> MarkAllocated (md_physical_start desc div kBytesPerFrame) (md_number_of_pages desc * kUEFIPageSize div kBytesPerFrame) m;
           memory_map_loop descs m available_end
         })
      })"

definition memory_setup :: "MemoryDescriptor list \<Rightarrow> BitmapMemoryManager option" where
  "memory_setup descs = do {
     (m, available_end) \<leftarrow> memory_map_loop descs BitmapMemoryManager_new 0;
     Some (SetMemoryRange 1 (available_end div kBytesPerFrame) m)
   }"

section \<open>The set of frames in use\<close>

definition frames_in :: "BitmapMemoryManager \<Rightarrow> nat" where
  "frames_in m = 64 * length (bm_alloc_map m)"

definition in_use :: "BitmapMemoryManager \<Rightarrow> nat set" where
  "in_use m = {f. f < frames_in m \<and> bit (bm_alloc_map m ! (f div 64)) (f mod 64)}"

lemma and_bit: "(line :: u64) AND 2 ^ n = 0 \<longleftrightarrow> \<not> bit line n"
  by (rule and_exp_eq_0_iff_not_bit)

lemma frame_index:
  assumes "f < 2 ^ 64"
  shows "unat ((of_nat f :: u64) div kBitsPerMapLine) = f div 64" "unat ((of_nat f :: u64) mod kBitsPerMapLine) = f mod 64"
  using assms by (simp_all add: kBitsPerMapLine_def unat_div unat_mod unat_of_nat_small)

lemma GetBit_ok:
  assumes "f < frames_in m" "f < 2 ^ 64"
  shows "GetBit (of_nat f) m = Some (f \<in> in_use m)"
proof -
  have "f div 64 < length (bm_alloc_map m)" using assms(1) by (simp add: frames_in_def less_mult_imp_div_less mult.commute)
  then show ?thesis using assms by (simp add: GetBit_def aget_word frame_index and_bit in_use_def Let_def)
qed

lemma SetBit_ok:
  assumes "f < frames_in m" "f < 2 ^ 64"
  shows "\<exists>m'. SetBit (of_nat f) b m = Some m' \<and> in_use m' = (if b then insert f (in_use m) else in_use m - {f}) \<and>
    frames_in m' = frames_in m \<and> bm_range_begin m' = bm_range_begin m \<and> bm_range_end m' = bm_range_end m"
proof -
  let ?l = "f div 64" and ?n = "f mod 64"
  have l: "?l < length (bm_alloc_map m)" using assms(1) by (simp add: frames_in_def less_mult_imp_div_less mult.commute)
  define v where "v = (if b then bm_alloc_map m ! ?l OR push_bit ?n 1 else bm_alloc_map m ! ?l AND NOT (push_bit ?n 1))"
  have v: "bit v k = (if k = ?n then b else bit (bm_alloc_map m ! ?l) k)" if "k < 64" for k
    using that by (auto simp: v_def bit_simps)
  let ?m = "m\<lparr>bm_alloc_map := (bm_alloc_map m)[?l := v]\<rparr>"
  have "SetBit (of_nat f) b m = Some ?m"
    using l assms(2) by (simp add: SetBit_def aget_word aset_word frame_index v_def Let_def)
  moreover have upd: "bit ((bm_alloc_map m)[?l := v] ! (g div 64)) (g mod 64) = (if g = f then b else bit (bm_alloc_map m ! (g div 64)) (g mod 64))"
    if "g < frames_in m" for g
  proof (cases "g div 64 = ?l")
    case True
    then have "g = f \<longleftrightarrow> g mod 64 = ?n" by (metis div_mult_mod_eq)
    then show ?thesis using True l v [of "g mod 64"] by simp
  next
    case False
    then show ?thesis by auto
  qed
  have "x \<in> in_use ?m \<longleftrightarrow> x < frames_in m \<and> (if x = f then b else x \<in> in_use m)" for x
  proof -
    define xs where "xs = (bm_alloc_map m)[?l := v]"
    then have "length xs = length (bm_alloc_map m)" by simp
    then show ?thesis using upd [of x, folded xs_def] unfolding xs_def [symmetric] by (auto simp: in_use_def frames_in_def split: if_splits)
  qed
  then have "in_use ?m = (if b then insert f (in_use m) else in_use m - {f})"
    using assms(1) by (auto simp: in_use_def)
  ultimately show ?thesis by (simp add: frames_in_def)
qed

definition same_shape :: "BitmapMemoryManager \<Rightarrow> BitmapMemoryManager \<Rightarrow> bool" where
  "same_shape m m' \<longleftrightarrow> frames_in m' = frames_in m \<and> bm_range_begin m' = bm_range_begin m \<and> bm_range_end m' = bm_range_end m"

lemma set_range:
  assumes "s + n \<le> frames_in m" "frames_in m < 2 ^ 64"
  shows "\<exists>m'. fold_opt (\<lambda>i m. SetBit (of_nat s + of_nat i) b m) [0..<n] m = Some m' \<and> same_shape m m' \<and>
    in_use m' = (if b then in_use m \<union> {s..<s + n} else in_use m - {s..<s + n})"
  using assms(1)
proof (induction n)
  case 0
  then show ?case by (simp add: same_shape_def)
next
  case (Suc n)
  then obtain m1 where m1: "fold_opt (\<lambda>i m. SetBit (of_nat s + of_nat i) b m) [0..<n] m = Some m1" "same_shape m m1"
    "in_use m1 = (if b then in_use m \<union> {s..<s + n} else in_use m - {s..<s + n})" by auto
  have "s + n < frames_in m1" "s + n < 2 ^ 64" using Suc.prems m1(2) assms(2) by (simp_all add: same_shape_def)
  from SetBit_ok [OF this, of b] obtain m2 where "SetBit (of_nat s + of_nat n) b m1 = Some m2" "same_shape m1 m2"
    "in_use m2 = (if b then insert (s + n) (in_use m1) else in_use m1 - {s + n})"
    by (auto simp: same_shape_def)
  moreover have "{s..<s + Suc n} = insert (s + n) {s..<s + n}" by auto
  ultimately show ?case using m1 by (auto simp: fold_opt_append same_shape_def)
qed

lemma MarkAllocated_ok:
  assumes "unat s + unat n \<le> frames_in m" "frames_in m < 2 ^ 64"
  shows "\<exists>m'. MarkAllocated s n m = Some m' \<and> same_shape m m' \<and> in_use m' = in_use m \<union> {unat s..<unat s + unat n}"
  using set_range [OF assms, of True] by (simp add: MarkAllocated_def)

section \<open>Allocation\<close>

text \<open>A run of \<open>n\<close> free frames of the managed range starts at frame \<open>s\<close>.\<close>

definition run_at :: "BitmapMemoryManager \<Rightarrow> nat \<Rightarrow> nat \<Rightarrow> bool" where
  "run_at m n s \<longleftrightarrow> unat (bm_range_begin m) \<le> s \<and> s + n \<le> unat (bm_range_end m) \<and> {s..<s + n} \<inter> in_use m = {}"

definition bm_ok :: "BitmapMemoryManager \<Rightarrow> bool" where
  "bm_ok m \<longleftrightarrow> bm_range_begin m \<le> bm_range_end m \<and> unat (bm_range_end m) \<le> frames_in m \<and> frames_in m < 2 ^ 63"

lemma alloc_scan_ok:
  assumes "bm_ok m" "s + i \<le> unat (bm_range_end m)"
  shows "\<exists>r. alloc_scan n (of_nat i) (of_nat s) m = Some r \<and>
    (case r of NoMemory \<Rightarrow> s + i + n > unat (bm_range_end m)
     | Enough \<Rightarrow> s + i + n \<le> unat (bm_range_end m) \<and> {s + i..<s + i + n} \<inter> in_use m = {}
     | Occupied j \<Rightarrow> \<exists>k. j = of_nat k \<and> i \<le> k \<and> k < i + n \<and> s + k < unat (bm_range_end m) \<and> s + k \<in> in_use m)"
  using assms(2)
proof (induction n arbitrary: i)
  case (Suc n)
  have lt: "s + i < 2 ^ 64" using assms(1) Suc.prems by (simp add: bm_ok_def)
  have un: "unat ((of_nat s :: u64) + of_nat i) = s + i" using unat_of_nat_small [where ?'a = 64, of "s + i"] lt by simp
  show ?case
  proof (cases "s + i < unat (bm_range_end m)")
    case True
    then have r: "\<not> (of_nat s + of_nat i \<ge> bm_range_end m)" using un by (simp add: word_le_nat_alt)
    have g: "GetBit (of_nat s + of_nat i) m = Some (s + i \<in> in_use m)"
      using GetBit_ok [of "s + i" m] True lt assms(1) by (simp add: bm_ok_def)
    show ?thesis
    proof (cases "s + i \<in> in_use m")
      case True
      then show ?thesis using r g \<open>s + i < unat (bm_range_end m)\<close> by auto
    next
      case False
      obtain r' where r': "alloc_scan n (of_nat (Suc i)) (of_nat s) m = Some r'"
        "case r' of NoMemory \<Rightarrow> s + Suc i + n > unat (bm_range_end m)
         | Enough \<Rightarrow> s + Suc i + n \<le> unat (bm_range_end m) \<and> {s + Suc i..<s + Suc i + n} \<inter> in_use m = {}
         | Occupied j \<Rightarrow> \<exists>k. j = of_nat k \<and> Suc i \<le> k \<and> k < Suc i + n \<and> s + k < unat (bm_range_end m) \<and> s + k \<in> in_use m"
        using Suc.IH [of "Suc i"] True by auto
      have "{s + i..<s + i + Suc n} = insert (s + i) {s + Suc i..<s + Suc i + n}" by auto
      then show ?thesis using r g False r' by (auto simp: add.commute split: scan.splits)
    qed
  next
    case False
    then show ?thesis using un by (simp add: word_le_nat_alt)
  qed
qed simp

lemma alloc_loop_ok:
  assumes "bm_ok m" "s \<le> unat (bm_range_end m)" "unat (bm_range_begin m) \<le> s" "\<forall>t < s. \<not> run_at m (unat n) t"
  shows "(\<exists>s' m'. alloc_loop n (of_nat s) m = Some (m', \<lparr>we_value = of_nat s', we_error = kSuccess\<rparr>) \<and> run_at m (unat n) s' \<and>
      (\<forall>t < s'. \<not> run_at m (unat n) t) \<and> same_shape m m' \<and> in_use m' = in_use m \<union> {s'..<s' + unat n}) \<or>
    alloc_loop n (of_nat s) m = Some (m, \<lparr>we_value = kNullFrame, we_error = kNoEnoughMemory\<rparr>) \<and> (\<forall>t. \<not> run_at m (unat n) t)"
  using assms(2-)
proof (induction "unat (bm_range_end m) - s" arbitrary: s rule: less_induct)
  case less
  obtain r where r: "alloc_scan (unat n) (of_nat 0) (of_nat s) m = Some r"
    "case r of NoMemory \<Rightarrow> s + unat n > unat (bm_range_end m)
     | Enough \<Rightarrow> s + unat n \<le> unat (bm_range_end m) \<and> {s..<s + unat n} \<inter> in_use m = {}
     | Occupied j \<Rightarrow> \<exists>k. j = of_nat k \<and> 0 \<le> k \<and> k < unat n \<and> s + k < unat (bm_range_end m) \<and> s + k \<in> in_use m"
    using alloc_scan_ok [OF assms(1), of s 0 "unat n", unfolded add_0_right add_0, OF less.prems(1)] by blast
  note st = alloc_loop.simps [of n "of_nat s" m]
  show ?case
  proof (cases r)
    case NoMemory
    then have "\<not> run_at m (unat n) t" for t using r(2) less.prems(3) by (cases "t < s") (auto simp: run_at_def)
    then show ?thesis using r(1) NoMemory st by simp
  next
    case Enough
    have s64: "unat (of_nat s :: u64) = s" using assms(1) less.prems(1) by (intro unat_of_nat_small) (simp add: bm_ok_def)
    have "unat (of_nat s :: u64) + unat n \<le> frames_in m" "frames_in m < 2 ^ 64"
      using r(2) Enough s64 assms(1) by (simp_all add: bm_ok_def)
    from MarkAllocated_ok [OF this] r Enough s64 st less.prems show ?thesis
      by (intro disjI1 exI [of _ s]) (auto simp: run_at_def)
  next
    case (Occupied j)
    then obtain k where k: "j = of_nat k" "k < unat n" "s + k < unat (bm_range_end m)" "s + k \<in> in_use m" using r(2) by auto
    have "\<not> run_at m (unat n) t" if "t < s + k + 1" for t
    proof (cases "t < s")
      case False
      then have "s + k \<in> {t..<t + unat n}" using that k(2) by auto
      then show ?thesis using k(4) by (auto simp: run_at_def)
    qed (use less.prems(3) in simp)
    moreover have "alloc_loop n (of_nat s) m = alloc_loop n (of_nat (s + k + 1)) m"
      using r(1) Occupied k(1) st by (simp add: ac_simps)
    ultimately show ?thesis using less.hyps [of "s + k + 1"] k(3) less.prems by simp
  qed
qed

section \<open>The memory map\<close>

definition md_frames :: "MemoryDescriptor \<Rightarrow> nat set" where
  "md_frames d = {unat (md_physical_start d) div 4096..<unat (md_physical_start d) div 4096 + unat (md_number_of_pages d)}"

definition md_end :: "MemoryDescriptor \<Rightarrow> nat" where
  "md_end d = unat (md_physical_start d) + unat (md_number_of_pages d) * 4096"

text \<open>The regions are in order and do not overlap, start at frames, and end within 128 GiB.\<close>

fun map_sorted :: "nat \<Rightarrow> MemoryDescriptor list \<Rightarrow> bool" where
  "map_sorted lo [] = True"
| "map_sorted lo (d # ds) \<longleftrightarrow> lo \<le> unat (md_physical_start d) \<and> 4096 dvd unat (md_physical_start d) \<and> md_end d \<le> 2 ^ 37 \<and>
     map_sorted (md_end d) ds"

lemma map_sorted_ge: "map_sorted lo ds \<Longrightarrow> d \<in> set ds \<Longrightarrow> lo \<le> unat (md_physical_start d)"
proof (induction ds arbitrary: lo)
  case (Cons a ds)
  then show ?case by (cases "d = a") (auto simp: md_end_def dest: Cons.IH)
qed simp

lemma frames_words:
  assumes "md_end d \<le> 2 ^ 37" "4096 dvd unat (md_physical_start d)" "unat e \<le> unat (md_physical_start d)" "4096 dvd unat e"
  shows "unat (md_physical_start d + md_number_of_pages d * kUEFIPageSize) = md_end d"
    "unat (md_physical_start d div kBytesPerFrame) = unat (md_physical_start d) div 4096"
    "unat (md_number_of_pages d * kUEFIPageSize div kBytesPerFrame) = unat (md_number_of_pages d)"
    "unat (e div kBytesPerFrame) = unat e div 4096"
    "unat (e div kBytesPerFrame) + unat ((md_physical_start d - e) div kBytesPerFrame) = unat (md_physical_start d) div 4096"
proof -
  have p: "unat (md_number_of_pages d * kUEFIPageSize) = unat (md_number_of_pages d) * 4096"
    using assms(1) by (simp add: kUEFIPageSize_def unat_word_ariths md_end_def)
  then show "unat (md_physical_start d + md_number_of_pages d * kUEFIPageSize) = md_end d"
    using assms(1) by (subst unat_add_nowrap) (simp_all add: md_end_def)
  show "unat (md_number_of_pages d * kUEFIPageSize div kBytesPerFrame) = unat (md_number_of_pages d)"
    by (simp add: unat_div p kBytesPerFrame_def)
  show "unat (md_physical_start d div kBytesPerFrame) = unat (md_physical_start d) div 4096" "unat (e div kBytesPerFrame) = unat e div 4096"
    by (simp_all add: unat_div kBytesPerFrame_def)
  moreover have "unat (md_physical_start d - e) = unat (md_physical_start d) - unat e" using assms(3) by (rule unat_sub_nowrap)
  ultimately show "unat (e div kBytesPerFrame) + unat ((md_physical_start d - e) div kBytesPerFrame) = unat (md_physical_start d) div 4096"
    using assms(2-4) by (auto simp: unat_div kBytesPerFrame_def elim!: dvdE)
qed

text \<open>Marking the gap in front of a region.\<close>

lemma mark_gap:
  assumes "frames_in m = 2 ^ 25" "md_end d \<le> 2 ^ 37" "4096 dvd unat (md_physical_start d)" "unat e \<le> unat (md_physical_start d)" "4096 dvd unat e"
  obtains m1 where "(if e < md_physical_start d
      then MarkAllocated (e div kBytesPerFrame) ((md_physical_start d - e) div kBytesPerFrame) m else Some m) = Some m1"
    "frames_in m1 = 2 ^ 25" "in_use m1 = in_use m \<union> {unat e div 4096..<unat (md_physical_start d) div 4096}"
proof (cases "e < md_physical_start d")
  case True
  have "unat (md_physical_start d) div 4096 \<le> 2 ^ 37 div 4096" using assms(2) by (intro div_le_mono) (simp add: md_end_def)
  then show ?thesis
    using that True MarkAllocated_ok [of "e div kBytesPerFrame" "(md_physical_start d - e) div kBytesPerFrame" m] frames_words(4,5) [OF assms(2-5)] assms(1)
    by (auto simp: same_shape_def)
next
  case False
  then have "unat e = unat (md_physical_start d)" using assms(4) by (simp add: word_less_nat_alt)
  then show ?thesis using that False assms(1) by simp
qed

lemma memory_map_loop_ok:
  assumes "frames_in m = 2 ^ 25" "map_sorted lo ds" "unat e \<le> lo" "4096 dvd unat e" "unat e \<le> 2 ^ 37" "in_use m \<inter> {lo div 4096..} = {}"
  shows "\<exists>m' e'. memory_map_loop ds m e = Some (m', e') \<and> frames_in m' = 2 ^ 25 \<and> unat e' \<le> 2 ^ 37 \<and> unat e \<le> unat e' \<and>
    (\<forall>f < unat e div 4096. f \<in> in_use m' \<longleftrightarrow> f \<in> in_use m) \<and>
    (\<forall>f. unat e div 4096 \<le> f \<and> f < unat e' div 4096 \<longrightarrow> (f \<notin> in_use m' \<longleftrightarrow> (\<exists>d\<in>set ds. IsAvailable (md_type d) \<and> f \<in> md_frames d)))"
  using assms
proof (induction ds arbitrary: m lo e)
  case (Cons d ds)
  let ?s = "unat (md_physical_start d)"
  have d: "lo \<le> ?s" "4096 dvd ?s" "md_end d \<le> 2 ^ 37" "map_sorted (md_end d) ds" using Cons.prems(2) by simp_all
  have es: "unat e \<le> ?s" using d(1) Cons.prems(3) by simp
  note w = frames_words [OF d(3,2) es Cons.prems(4)]
  have lim: "\<not> md_physical_start d > 128 * 1024 * 1024 * 1024" using d(3) by (simp add: word_less_nat_alt md_end_def)
  have fr: "?s div 4096 + unat (md_number_of_pages d) = md_end d div 4096" "md_end d div 4096 \<le> 2 ^ 25" "?s div 4096 \<le> 2 ^ 25"
    using d(3) by (simp_all add: md_end_def div_le_mono [of _ "2 ^ 37" 4096, simplified])
  obtain m1 where m1: "(if e < md_physical_start d
      then MarkAllocated (e div kBytesPerFrame) ((md_physical_start d - e) div kBytesPerFrame) m else Some m) = Some m1"
    "frames_in m1 = 2 ^ 25" "in_use m1 = in_use m \<union> {unat e div 4096..<?s div 4096}"
    by (rule mark_gap [OF Cons.prems(1) d(3,2) es Cons.prems(4)])
  show ?case
  proof (cases "IsAvailable (md_type d)")
    case True
    let ?e = "md_physical_start d + md_number_of_pages d * kUEFIPageSize"
    have "in_use m1 \<inter> {md_end d div 4096..} = {}" using m1(3) Cons.prems(6) d(1) fr(1) div_le_mono [OF d(1), of 4096] by fastforce
    then obtain m' e' where r: "memory_map_loop ds m1 ?e = Some (m', e')" "frames_in m' = 2 ^ 25" "unat e' \<le> 2 ^ 37" "md_end d \<le> unat e'"
      "\<forall>f < md_end d div 4096. f \<in> in_use m' \<longleftrightarrow> f \<in> in_use m1"
      "\<forall>f. md_end d div 4096 \<le> f \<and> f < unat e' div 4096 \<longrightarrow> (f \<notin> in_use m' \<longleftrightarrow> (\<exists>d\<in>set ds. IsAvailable (md_type d) \<and> f \<in> md_frames d))"
      using Cons.IH [OF m1(2) d(4), of ?e] w(1) d(2,3) by (auto simp: md_end_def)
    have other: "f \<notin> md_frames d'" if "f < md_end d div 4096" "d' \<in> set ds" for f d'
      using that div_le_mono [OF map_sorted_ge [OF d(4) that(2)], of 4096] by (auto simp: md_frames_def)
    have here: "f \<in> md_frames d \<longleftrightarrow> ?s div 4096 \<le> f \<and> f < md_end d div 4096" for f using fr(1) by (auto simp: md_frames_def)
    have "f \<in> in_use m' \<longleftrightarrow> f \<in> in_use m" if "f < unat e div 4096" for f
      using r(5) m1(3) that fr(1) div_le_mono [OF es, of 4096] by auto
    moreover have "f \<notin> in_use m' \<longleftrightarrow> (\<exists>d\<in>set (d # ds). IsAvailable (md_type d) \<and> f \<in> md_frames d)"
      if "unat e div 4096 \<le> f \<and> f < unat e' div 4096" for f
    proof (cases "f < md_end d div 4096")
      case True
      then have "f \<notin> in_use m1 \<longleftrightarrow> f \<in> md_frames d"
        using m1(3) that here Cons.prems(6) div_le_mono [OF d(1), of 4096] by auto
      then show ?thesis using True r(5) other \<open>IsAvailable (md_type d)\<close> by auto
    next
      case False
      then show ?thesis using r(6) that here by auto
    qed
    moreover have "memory_map_loop (d # ds) m e = Some (m', e')" using lim m1(1) True r(1) by (simp add: Let_def)
    ultimately show ?thesis using r(2-4) es by (intro exI [of _ m'] exI [of _ e']) (auto simp: md_end_def)
  next
    case False
    have "unat (md_physical_start d div kBytesPerFrame) + unat (md_number_of_pages d * kUEFIPageSize div kBytesPerFrame) \<le> frames_in m1" "frames_in m1 < 2 ^ 64"
      using w(2,3) fr m1(2) by simp_all
    from MarkAllocated_ok [OF this] obtain m2 where
      m2: "MarkAllocated (md_physical_start d div kBytesPerFrame) (md_number_of_pages d * kUEFIPageSize div kBytesPerFrame) m1 = Some m2"
      "frames_in m2 = 2 ^ 25" "in_use m2 = in_use m1 \<union> {?s div 4096..<md_end d div 4096}"
      using w(2,3) fr(1) m1(2) by (auto simp: same_shape_def)
    have "in_use m2 \<inter> {md_end d div 4096..} = {}"
      using m1(3) m2(3) Cons.prems(6) fr(1) div_le_mono [OF d(1), of 4096] by fastforce
    moreover have "unat e \<le> md_end d" using es by (simp add: md_end_def)
    ultimately obtain m' e' where r: "memory_map_loop ds m2 e = Some (m', e')" "frames_in m' = 2 ^ 25" "unat e' \<le> 2 ^ 37" "unat e \<le> unat e'"
      "\<forall>f < unat e div 4096. f \<in> in_use m' \<longleftrightarrow> f \<in> in_use m2"
      "\<forall>f. unat e div 4096 \<le> f \<and> f < unat e' div 4096 \<longrightarrow> (f \<notin> in_use m' \<longleftrightarrow> (\<exists>d\<in>set ds. IsAvailable (md_type d) \<and> f \<in> md_frames d))"
      using Cons.IH [OF m2(2) d(4) _ Cons.prems(4,5)] by blast
    have "f \<in> in_use m2 \<longleftrightarrow> f \<in> in_use m" if "f < unat e div 4096" for f
      using that m1(3) m2(3) div_le_mono [OF es, of 4096] by auto
    moreover have "memory_map_loop (d # ds) m e = Some (m', e')" using lim m1(1) m2(1) False r(1) by (simp add: Let_def)
    ultimately show ?thesis using r(2-) False by (intro exI [of _ m'] exI [of _ e']) auto
  qed
qed auto

section \<open>Properties\<close>

text \<open>
  C13: Allocating frames always returns. If the managed range has a run of that many free frames, the result is the first such run,
  its frames are now in use and no other frame changes, and freeing it restores the bitmap; otherwise the result is \<^verbatim>\<open>kNoEnoughMemory\<close> and nothing changes.
\<close>

theorem Allocate_correct:
  assumes "bm_ok m"
  shows "(\<exists>s m'. Allocate n m = Some (m', \<lparr>we_value = of_nat s, we_error = kSuccess\<rparr>) \<and>
      run_at m (unat n) s \<and> (\<forall>t < s. \<not> run_at m (unat n) t) \<and> in_use m' = in_use m \<union> {s..<s + unat n} \<and> bm_ok m' \<and>
      (\<exists>m''. Free (of_nat s) n m' = Some (m'', kSuccess) \<and> in_use m'' = in_use m)) \<or>
    Allocate n m = Some (m, \<lparr>we_value = kNullFrame, we_error = kNoEnoughMemory\<rparr>) \<and> (\<forall>s. \<not> run_at m (unat n) s)"
proof -
  let ?n = "unat n"
  have b: "unat (bm_range_begin m) \<le> unat (bm_range_end m)" "\<forall>t < unat (bm_range_begin m). \<not> run_at m ?n t"
    using assms by (auto simp: bm_ok_def word_le_nat_alt run_at_def)
  have fr: "\<exists>m''. Free (of_nat s) n m' = Some (m'', kSuccess) \<and> in_use m'' = in_use m"
    if "run_at m ?n s" "same_shape m m'" "in_use m' = in_use m \<union> {s..<s + ?n}" for s m'
  proof -
    have "s + ?n \<le> frames_in m'" "frames_in m' < 2 ^ 64" using that(1,2) assms by (auto simp: run_at_def bm_ok_def same_shape_def)
    from set_range [OF this, of False] that(1,3) show ?thesis by (auto simp: Free_def run_at_def)
  qed
  have ok: "bm_ok m'" if "same_shape m m'" for m' using that assms by (auto simp: bm_ok_def same_shape_def)
  have e: "alloc_loop n (of_nat (unat (bm_range_begin m))) m = Allocate n m" by (simp add: Allocate_def)
  from alloc_loop_ok [OF assms b(1) order_refl b(2), unfolded e] show ?thesis
  proof (elim disjE exE conjE)
    fix s m'
    assume a: "Allocate n m = Some (m', \<lparr>we_value = of_nat s, we_error = kSuccess\<rparr>)" "run_at m ?n s" "\<forall>t < s. \<not> run_at m ?n t"
      "same_shape m m'" "in_use m' = in_use m \<union> {s..<s + ?n}"
    then show ?thesis using fr [OF a(2,4,5)] ok [OF a(4)] by (intro disjI1 exI [of _ s] exI [of _ m']) simp
  qed simp
qed

text \<open>
  C31: Entering the memory map of the firmware, for a map in order, at frame boundaries and within 128 GiB: the loop returns, and of the frames
  below the end of the managed range exactly those of the regions the firmware calls available are free.
\<close>

theorem memory_setup_correct:
  assumes "map_sorted 0 descs"
  shows "\<exists>m. memory_setup descs = Some m \<and> bm_range_begin m = 1 \<and> unat (bm_range_end m) \<le> frames_in m \<and>
    (\<forall>f < unat (bm_range_end m). f \<notin> in_use m \<longleftrightarrow> (\<exists>d\<in>set descs. IsAvailable (md_type d) \<and> f \<in> md_frames d))"
proof -
  have "in_use BitmapMemoryManager_new = {}" "frames_in BitmapMemoryManager_new = 2 ^ 25"
    by (auto simp: BitmapMemoryManager_new_def in_use_def frames_in_def kFrameCount_def kMaxPhysicalMemoryBytes_def kBytesPerFrame_def kBitsPerMapLine_def
        less_mult_imp_div_less mult.commute)
  then obtain m e where r: "memory_map_loop descs BitmapMemoryManager_new 0 = Some (m, e)" "frames_in m = 2 ^ 25" "unat e \<le> 2 ^ 37"
    "\<forall>f. f < unat e div 4096 \<longrightarrow> (f \<notin> in_use m \<longleftrightarrow> (\<exists>d\<in>set descs. IsAvailable (md_type d) \<and> f \<in> md_frames d))"
    using memory_map_loop_ok [of BitmapMemoryManager_new 0 descs 0] assms by auto
  moreover have "unat (e div kBytesPerFrame) = unat e div 4096" by (simp add: unat_div kBytesPerFrame_def)
  moreover have "unat e div 4096 \<le> 2 ^ 37 div 4096" using r(3) by (rule div_le_mono)
  ultimately show ?thesis by (simp add: memory_setup_def SetMemoryRange_def in_use_def frames_in_def)
qed

section \<open>Examples\<close>

definition bm_ex :: BitmapMemoryManager where
  "bm_ex = \<lparr>bm_alloc_map = [0b101, 0], bm_range_begin = 1, bm_range_end = 128\<rparr>"

definition map_ex :: "MemoryDescriptor list" where
  "map_ex = [\<lparr>md_type = 7, md_physical_start = 0, md_virtual_start = 0, md_number_of_pages = 2, md_attribute = 0\<rparr>,
     \<lparr>md_type = 0, md_physical_start = 0x2000, md_virtual_start = 0, md_number_of_pages = 1, md_attribute = 0\<rparr>,
     \<lparr>md_type = 7, md_physical_start = 0x5000, md_virtual_start = 0, md_number_of_pages = 3, md_attribute = 0\<rparr>]"

theorem Allocate_correct_witness:
  "\<exists>m'. Allocate 2 bm_ex = Some (m', \<lparr>we_value = 3, we_error = kSuccess\<rparr>)"
proof -
  have ok: "bm_ok bm_ex" by (simp add: bm_ok_def bm_ex_def frames_in_def)
  have u: "f \<in> in_use bm_ex \<longleftrightarrow> f = 2" if "f = 1 \<or> f = 2 \<or> f = 3 \<or> f = 4" for f
    using that by (auto simp: in_use_def bm_ex_def frames_in_def)
  have rg: "unat (bm_range_begin bm_ex) = 1" "unat (bm_range_end bm_ex) = 128" by (simp_all add: bm_ex_def)
  have "{3..<3 + 2} = {3, 4 :: nat}" by auto
  then have r: "run_at bm_ex 2 3" using u [of 3] u [of 4] by (simp add: run_at_def rg)
  have n: "\<not> run_at bm_ex 2 t" if "t < 3" for t
  proof (cases "t = 0")
    case False
    then have "2 \<in> {t..<t + 2}" using that by auto
    then show ?thesis using u [of 2] unfolding run_at_def by blast
  qed (simp add: run_at_def rg)
  from Allocate_correct [OF ok, of 2] r show ?thesis
  proof (elim disjE exE conjE)
    fix s m'
    assume a: "Allocate 2 bm_ex = Some (m', \<lparr>we_value = of_nat s, we_error = kSuccess\<rparr>)" "run_at bm_ex (unat (2 :: u64)) s"
      "\<forall>t < s. \<not> run_at bm_ex (unat (2 :: u64)) t"
    then have "s = 3" using r n by (simp add: linorder_neq_iff) (meson not_less_iff_gr_or_eq)
    then show ?thesis using a(1) by simp
  qed simp
qed

theorem memory_setup_correct_witness:
  "\<exists>m. memory_setup map_ex = Some m \<and> (\<forall>f < unat (bm_range_end m). f \<notin> in_use m \<longleftrightarrow> f < 2 \<or> 5 \<le> f \<and> f < 8)"
proof -
  have "map_sorted 0 map_ex" by (simp add: map_ex_def md_end_def)
  from memory_setup_correct [OF this] show ?thesis by (auto simp: map_ex_def md_frames_def IsAvailable_def)
qed

end
