(* ===== verification/Paging64.thy ===== *)
theory Paging64
  imports Queue64
begin

text \<open>
  The page tables of the 64-bit kernel (\<^verbatim>\<open>src/src/paging.cpp\<close>): one page map, four pointer tables and 2048 directories that map every
  address below 2 TiB to itself with pages of 2 MiB. The tables are in memory, which is given by its 64-bit entries; their addresses, which the
  linker chooses, are fields of the state. \<open>walk4\<close> is the translation the processor does with them (Intel manual, 4-level paging).
\<close>

section \<open>Operations\<close>

definition kPageSize1G :: u64 where "kPageSize1G = 1024 * 1024 * 1024"
definition kPageSize2M :: u64 where "kPageSize2M = 1024 * 1024 * 2"
definition kPageSize512G :: u64 where "kPageSize512G = kPageSize1G * 512"
definition PML4E_SIZE :: nat where "PML4E_SIZE = 4"
definition PDPTE_SIZE :: nat where "PDPTE_SIZE = 512"
definition PDE_SIZE :: nat where "PDE_SIZE = 512"

record pages64 =
  p6_PML4E :: u64
  p6_PDPTE :: u64
  p6_PDE :: u64
  p6_mem :: "u64 \<Rightarrow> u64"
  p6_cr3 :: u64

text \<open>The addresses of \<^verbatim>\<open>PML4E[i]\<close>, \<^verbatim>\<open>PDPTE[i][j]\<close> and \<^verbatim>\<open>PDE[i][j][k]\<close>.\<close>

definition pml4e_at :: "pages64 \<Rightarrow> nat \<Rightarrow> u64" where
  "pml4e_at s i = p6_PML4E s + of_nat (8 * i)"

definition pdpte_at :: "pages64 \<Rightarrow> nat \<Rightarrow> nat \<Rightarrow> u64" where
  "pdpte_at s i j = p6_PDPTE s + of_nat (8 * (i * PDPTE_SIZE + j))"

definition pde_at :: "pages64 \<Rightarrow> nat \<Rightarrow> nat \<Rightarrow> nat \<Rightarrow> u64" where
  "pde_at s i j k = p6_PDE s + of_nat (8 * ((i * PDPTE_SIZE + j) * PDE_SIZE + k))"

definition put64 :: "u64 \<Rightarrow> u64 \<Rightarrow> pages64 \<Rightarrow> pages64" where
  "put64 a v s = s\<lparr>p6_mem := (p6_mem s)(a := v)\<rparr>"

definition SetCR3 :: "u64 \<Rightarrow> pages64 \<Rightarrow> pages64" where
  "SetCR3 v s = s\<lparr>p6_cr3 := v\<rparr>"

definition SetupIdentityPageTable :: "pages64 \<Rightarrow> pages64" where
  "SetupIdentityPageTable s =
     (let s = fold (\<lambda>i s.
            let s = put64 (pml4e_at s i) (pdpte_at s i 0 OR 0x003) s
            in fold (\<lambda>j s.
                 let s = put64 (pdpte_at s i j) (pde_at s i j 0 OR 0x003) s
                 in fold (\<lambda>k s. put64 (pde_at s i j k)
                      (of_nat i * kPageSize512G + of_nat j * kPageSize1G + of_nat k * kPageSize2M OR 0x083) s) [0..<PDE_SIZE] s)
               [0..<PDPTE_SIZE] s)
          [0..<PML4E_SIZE] s
      in SetCR3 (pml4e_at s 0) s)"

section \<open>What the processor does\<close>

text \<open>The address of a table, or of a page of 2 MiB, in an entry, and the index of a level in an address.\<close>

definition entry_table :: "u64 \<Rightarrow> u64" where
  "entry_table e = e AND 0x000ffffffffff000"

definition entry_page2M :: "u64 \<Rightarrow> u64" where
  "entry_page2M e = e AND 0x000fffffffe00000"

definition va_index :: "nat \<Rightarrow> u64 \<Rightarrow> nat" where
  "va_index shift va = unat (drop_bit shift va AND 0x1ff)"

definition walk4 :: "(u64 \<Rightarrow> u64) \<Rightarrow> u64 \<Rightarrow> u64 \<Rightarrow> u64 option" where
  "walk4 mem cr3 va =
     (let pml4e = mem (entry_table cr3 + of_nat (8 * va_index 39 va))
      in if \<not> bit pml4e 0 then None
         else
           (let pdpte = mem (entry_table pml4e + of_nat (8 * va_index 30 va))
            in if \<not> bit pdpte 0 then None
               else if bit pdpte 7 then Some ((pdpte AND 0x000fffffc0000000) OR (va AND 0x3fffffff))
               else
                 (let pde = mem (entry_table pdpte + of_nat (8 * va_index 21 va))
                  in if \<not> bit pde 0 then None
                     else if bit pde 7 then Some (entry_page2M pde OR (va AND 0x1fffff))
                     else
                       (let pte = mem (entry_table pde + of_nat (8 * va_index 12 va))
                        in if \<not> bit pte 0 then None else Some (entry_table pte OR (va AND 0xfff))))))"

section \<open>What the tables hold\<close>

definition writes :: "pages64 \<Rightarrow> (u64 \<times> u64) list" where
  "writes s = concat (map (\<lambda>i. (pml4e_at s i, pdpte_at s i 0 OR 0x003) # concat (map (\<lambda>j. (pdpte_at s i j, pde_at s i j 0 OR 0x003) #
     map (\<lambda>k. (pde_at s i j k, of_nat i * kPageSize512G + of_nat j * kPageSize1G + of_nat k * kPageSize2M OR 0x083)) [0..<PDE_SIZE])
       [0..<PDPTE_SIZE])) [0..<PML4E_SIZE])"

lemma put64_sel [simp]:
  "pml4e_at (put64 a v s) = pml4e_at s" "pdpte_at (put64 a v s) = pdpte_at s" "pde_at (put64 a v s) = pde_at s"
  "p6_PML4E (put64 a v s) = p6_PML4E s" "p6_PDPTE (put64 a v s) = p6_PDPTE s" "p6_PDE (put64 a v s) = p6_PDE s"
  by (simp_all add: put64_def pml4e_at_def pdpte_at_def pde_at_def fun_eq_iff)

definition put_all :: "(u64 \<times> u64) list \<Rightarrow> pages64 \<Rightarrow> pages64" where
  "put_all ws s = fold (\<lambda>(a, v). put64 a v) ws s"

lemma put_all_sel [simp]:
  "pml4e_at (put_all ws s) = pml4e_at s" "pdpte_at (put_all ws s) = pdpte_at s" "pde_at (put_all ws s) = pde_at s"
  by (induction ws arbitrary: s) (auto simp: put_all_def)

lemma put_all_append [simp]: "put_all (xs @ ys) s = put_all ys (put_all xs s)" "put_all (x # xs) s = put_all xs (put64 (fst x) (snd x) s)" "put_all [] s = s"
  by (simp_all add: put_all_def case_prod_beta)

text \<open>A loop whose turns write what \<open>f\<close> says, where \<open>f\<close> depends on the addresses of the tables only.\<close>

lemma fold_put_all:
  assumes "\<And>x s'. x \<in> set xs \<Longrightarrow> pml4e_at s' = pml4e_at s \<Longrightarrow> pdpte_at s' = pdpte_at s \<Longrightarrow> pde_at s' = pde_at s \<Longrightarrow> body x s' = put_all (f x) s'"
  shows "fold body xs s = put_all (concat (map f xs)) s"
  using assms
proof (induction xs rule: rev_induct)
  case (snoc x xs)
  have "fold body xs s = put_all (concat (map f xs)) s" by (rule snoc.IH) (use snoc.prems in auto)
  then show ?case using snoc.prems [of x "put_all (concat (map f xs)) s"] by simp
qed simp

lemma concat_singles: "concat (map (\<lambda>k. [g k]) xs) = map g xs"
  by (induction xs) auto

lemma setup_writes: "SetupIdentityPageTable s = SetCR3 (pml4e_at s 0) (put_all (writes s) s)"
proof -
  let ?v = "\<lambda>i j k. of_nat i * kPageSize512G + of_nat j * kPageSize1G + of_nat k * kPageSize2M OR 0x083 :: u64"
  let ?g = "\<lambda>i j. (pdpte_at s i j, pde_at s i j 0 OR 0x003) # map (\<lambda>k. (pde_at s i j k, ?v i j k)) [0..<PDE_SIZE]"
  have pd: "fold (\<lambda>k s. put64 (pde_at s i j k) (?v i j k) s) [0..<PDE_SIZE] s' = put_all (map (\<lambda>k. (pde_at s i j k, ?v i j k)) [0..<PDE_SIZE]) s'"
    if "pde_at s' = pde_at s" for i j s'
    using that by (subst fold_put_all [where f = "\<lambda>k. [(pde_at s i j k, ?v i j k)]"]) (simp_all add: concat_singles)
  have pt: "fold (\<lambda>j s. fold (\<lambda>k s. put64 (pde_at s i j k) (?v i j k) s) [0..<PDE_SIZE] (put64 (pdpte_at s i j) (pde_at s i j 0 OR 0x003) s))
      [0..<PDPTE_SIZE] s' = put_all (concat (map (?g i) [0..<PDPTE_SIZE])) s'"
    if "pdpte_at s' = pdpte_at s" "pde_at s' = pde_at s" for i s'
    by (rule fold_put_all) (simp add: that pd)
  have "fold (\<lambda>i s. fold (\<lambda>j s. fold (\<lambda>k s. put64 (pde_at s i j k) (?v i j k) s) [0..<PDE_SIZE] (put64 (pdpte_at s i j) (pde_at s i j 0 OR 0x003) s))
      [0..<PDPTE_SIZE] (put64 (pml4e_at s i) (pdpte_at s i 0 OR 0x003) s)) [0..<PML4E_SIZE] s = put_all (writes s) s"
    unfolding writes_def by (rule fold_put_all) (simp add: pt)
  then show ?thesis unfolding SetupIdentityPageTable_def Let_def by simp
qed

lemma put_all_mem:
  assumes "(a, v) \<in> set ws" "\<forall>v'. (a, v') \<in> set ws \<longrightarrow> v' = v"
  shows "p6_mem (put_all ws s) a = v"
  using assms
proof (induction ws rule: rev_induct)
  case (snoc w ws)
  obtain b u where w: "w = (b, u)" by (cases w)
  have st: "p6_mem (put_all (ws @ [w]) s) a = (if a = b then u else p6_mem (put_all ws s) a)" by (simp add: w put64_def)
  show ?case
  proof (cases "a = b")
    case True
    then show ?thesis using st snoc.prems(2) w by simp
  next
    case False
    have 1: "(a, v) \<in> set ws" using snoc.prems(1) w False by simp
    have "\<forall>v'. (a, v') \<in> set ws \<longrightarrow> v' = v" using snoc.prems(2) by simp
    from snoc.IH [OF 1 this] show ?thesis unfolding st using False by simp
  qed
qed simp

text \<open>The linker puts the tables at pages of their own, within the physical addresses an entry can hold.\<close>

definition tables_ok :: "pages64 \<Rightarrow> bool" where
  "tables_ok s \<longleftrightarrow> (let a4 = unat (p6_PML4E s); a3 = unat (p6_PDPTE s); a2 = unat (p6_PDE s) in
     4096 dvd a4 \<and> 4096 dvd a3 \<and> 4096 dvd a2 \<and> a4 + 32 \<le> 2 ^ 52 \<and> a3 + 16384 \<le> 2 ^ 52 \<and> a2 + 8388608 \<le> 2 ^ 52 \<and>
     (a4 + 32 \<le> a3 \<or> a3 + 16384 \<le> a4) \<and> (a4 + 32 \<le> a2 \<or> a2 + 8388608 \<le> a4) \<and> (a3 + 16384 \<le> a2 \<or> a2 + 8388608 \<le> a3))"

lemma unat_offset:
  fixes a :: u64
  assumes "unat a + n \<le> 2 ^ 52"
  shows "unat (a + of_nat n) = unat a + n"
proof -
  have "unat (of_nat n :: u64) = n" using assms by (intro unat_of_nat_small) simp
  then show ?thesis using assms by (subst unat_add_nowrap) simp_all
qed

lemma at_unat:
  assumes "tables_ok s" "i < 4" "j < 512" "k < 512"
  shows "unat (pml4e_at s i) = unat (p6_PML4E s) + 8 * i"
    "unat (pdpte_at s i j) = unat (p6_PDPTE s) + 8 * (i * 512 + j)"
    "unat (pde_at s i j k) = unat (p6_PDE s) + 8 * ((i * 512 + j) * 512 + k)"
proof -
  have "i * 512 + j < 2048" "(i * 512 + j) * 512 + k < 1048576" using assms(2-4) by simp_all
  then show "unat (pml4e_at s i) = unat (p6_PML4E s) + 8 * i" "unat (pdpte_at s i j) = unat (p6_PDPTE s) + 8 * (i * 512 + j)"
    "unat (pde_at s i j k) = unat (p6_PDE s) + 8 * ((i * 512 + j) * 512 + k)"
    using assms(1,2) unfolding pml4e_at_def pdpte_at_def pde_at_def PDPTE_SIZE_def PDE_SIZE_def
    by (subst unat_offset; simp add: tables_ok_def Let_def)+
qed

lemma pos_512: "(0 :: nat) < 512"
  by simp

lemma cancel_8: "8 * (a :: nat) = 8 * b \<Longrightarrow> a = b"
  by simp

lemma mix_512: "(a :: nat) * 512 + b = a' * 512 + b' \<Longrightarrow> b < 512 \<Longrightarrow> b' < 512 \<Longrightarrow> a = a' \<and> b = b'"
proof -
  assume e: "a * 512 + b = a' * 512 + b'" and b: "b < 512" "b' < 512"
  have "(a * 512 + b) div 512 = a" "(a' * 512 + b') div 512 = a'" "(a * 512 + b) mod 512 = b" "(a' * 512 + b') mod 512 = b'" using b by simp_all
  then show ?thesis using e by metis
qed

lemma in_concat_map: "x \<in> set (concat (map f xs)) \<longleftrightarrow> (\<exists>i\<in>set xs. x \<in> set (f i))"
  by auto

lemma in_writes:
  "(a, v) \<in> set (writes s) \<longleftrightarrow> (\<exists>i < 4. a = pml4e_at s i \<and> v = pdpte_at s i 0 OR 0x003) \<or>
     (\<exists>i < 4. \<exists>j < 512. a = pdpte_at s i j \<and> v = pde_at s i j 0 OR 0x003) \<or>
     (\<exists>i < 4. \<exists>j < 512. \<exists>k < 512. a = pde_at s i j k \<and> v = of_nat i * kPageSize512G + of_nat j * kPageSize1G + of_nat k * kPageSize2M OR 0x083)"
  unfolding writes_def PML4E_SIZE_def PDPTE_SIZE_def PDE_SIZE_def in_concat_map set_simps insert_iff set_map image_iff set_upt prod.inject
    atLeast0LessThan lessThan_iff Bex_def
  by blast

lemma tables_apart:
  assumes "tables_ok s" "i < 4" "j < 512" "i' < 4" "j' < 512" "k' < 512"
  shows "pml4e_at s i \<noteq> pdpte_at s i' j'" "pml4e_at s i \<noteq> pde_at s i' j' k'" "pdpte_at s i j \<noteq> pde_at s i' j' k'"
proof -
  note u = at_unat [OF assms(1-3) pos_512] and u' = at_unat [OF assms(1,4-6)]
  define x y z where d: "x = (i' * 512 + j') * 512 + k'" "y = i' * 512 + j'" "z = i * 512 + j"
  have b: "z < 2048" "y < 2048" "x < 1048576" using assms(2-) by (simp_all add: d)
  have u: "unat (pml4e_at s i) = unat (p6_PML4E s) + 8 * i" "unat (pdpte_at s i j) = unat (p6_PDPTE s) + 8 * z"
    and u': "unat (pdpte_at s i' j') = unat (p6_PDPTE s) + 8 * y" "unat (pde_at s i' j' k') = unat (p6_PDE s) + 8 * x"
    using u u' by (simp_all only: d)
  have o: "unat (p6_PML4E s) + 32 \<le> unat (p6_PDPTE s) \<or> unat (p6_PDPTE s) + 16384 \<le> unat (p6_PML4E s)"
    "unat (p6_PML4E s) + 32 \<le> unat (p6_PDE s) \<or> unat (p6_PDE s) + 8388608 \<le> unat (p6_PML4E s)"
    "unat (p6_PDPTE s) + 16384 \<le> unat (p6_PDE s) \<or> unat (p6_PDE s) + 8388608 \<le> unat (p6_PDPTE s)"
    using assms(1) by (simp_all add: tables_ok_def Let_def)
  have "unat (pml4e_at s i) \<noteq> unat (pdpte_at s i' j')" using o(1) b assms(2) u(1) u'(1) by linarith
  then show "pml4e_at s i \<noteq> pdpte_at s i' j'" by auto
  have "unat (pml4e_at s i) \<noteq> unat (pde_at s i' j' k')" using o(2) b assms(2) u(1) u'(2) by linarith
  then show "pml4e_at s i \<noteq> pde_at s i' j' k'" by auto
  have "unat (pdpte_at s i j) \<noteq> unat (pde_at s i' j' k')" using o(3) b u(2) u'(2) by linarith
  then show "pdpte_at s i j \<noteq> pde_at s i' j' k'" by auto
qed

lemma at_inj:
  assumes "tables_ok s" "i < 4" "i' < 4"
  shows "pml4e_at s i = pml4e_at s i' \<Longrightarrow> i = i'"
    "j < 512 \<Longrightarrow> j' < 512 \<Longrightarrow> pdpte_at s i j = pdpte_at s i' j' \<Longrightarrow> i = i' \<and> j = j'"
    "j < 512 \<Longrightarrow> j' < 512 \<Longrightarrow> k < 512 \<Longrightarrow> k' < 512 \<Longrightarrow> pde_at s i j k = pde_at s i' j' k' \<Longrightarrow> i = i' \<and> j = j' \<and> k = k'"
proof -
  show "i = i'" if "pml4e_at s i = pml4e_at s i'"
    using at_unat(1) [OF assms(1,2) pos_512 pos_512] at_unat(1) [OF assms(1,3) pos_512 pos_512] arg_cong [OF that, of unat] by linarith
  show "i = i' \<and> j = j'" if "j < 512" "j' < 512" "pdpte_at s i j = pdpte_at s i' j'"
  proof (rule mix_512 [OF _ that(1,2)])
    have "8 * (i * 512 + j) = 8 * (i' * 512 + j')"
      using at_unat(2) [OF assms(1,2) that(1) pos_512] at_unat(2) [OF assms(1,3) that(2) pos_512] arg_cong [OF that(3), of unat] by linarith
    then show "i * 512 + j = i' * 512 + j'" by (rule cancel_8)
  qed
  show "i = i' \<and> j = j' \<and> k = k'" if "j < 512" "j' < 512" "k < 512" "k' < 512" "pde_at s i j k = pde_at s i' j' k'"
  proof -
    have "8 * ((i * 512 + j) * 512 + k) = 8 * ((i' * 512 + j') * 512 + k')"
      using at_unat(3) [OF assms(1,2) that(1,3)] at_unat(3) [OF assms(1,3) that(2,4)] arg_cong [OF that(5), of unat] by linarith
    then have "(i * 512 + j) * 512 + k = (i' * 512 + j') * 512 + k'" by (rule cancel_8)
    from mix_512 [OF this that(3,4)] mix_512 [OF _ that(1,2), of i i'] show ?thesis by blast
  qed
qed

lemma setup_mem:
  assumes "tables_ok s" "i < 4" "j < 512" "k < 512"
  defines "m \<equiv> p6_mem (SetupIdentityPageTable s)"
  shows "m (pml4e_at s i) = pdpte_at s i 0 OR 0x003" "m (pdpte_at s i j) = pde_at s i j 0 OR 0x003"
    "m (pde_at s i j k) = of_nat i * kPageSize512G + of_nat j * kPageSize1G + of_nat k * kPageSize2M OR 0x083"
proof -
  have m: "m = p6_mem (put_all (writes s) s)" by (simp add: m_def setup_writes SetCR3_def)
  note ap = tables_apart [OF assms(1)] and I = at_inj [OF assms(1)]
  have "v' = pdpte_at s i 0 OR 0x003" if "(pml4e_at s i, v') \<in> set (writes s)" for v'
    using that unfolding in_writes
    by (elim disjE exE conjE) (use I(1) [OF assms(2)] ap(1) [OF assms(2) pos_512 _ _ pos_512] ap(2) [OF assms(2) pos_512] in blast)+
  then show "m (pml4e_at s i) = pdpte_at s i 0 OR 0x003"
    unfolding m by (intro put_all_mem allI impI) (unfold in_writes, use assms(2) in blast)+
  have "v' = pde_at s i j 0 OR 0x003" if "(pdpte_at s i j, v') \<in> set (writes s)" for v'
    using that unfolding in_writes
    by (elim disjE exE conjE) (use I(2) [OF assms(2) _ assms(3)] ap(1) [OF _ pos_512 assms(2,3) pos_512] ap(3) [OF assms(2,3)] in metis)+
  then show "m (pdpte_at s i j) = pde_at s i j 0 OR 0x003"
    unfolding m by (intro put_all_mem allI impI) (unfold in_writes, use assms(2,3) in blast)+
  have "v' = of_nat i * kPageSize512G + of_nat j * kPageSize1G + of_nat k * kPageSize2M OR 0x083" if "(pde_at s i j k, v') \<in> set (writes s)" for v'
    using that unfolding in_writes
    by (elim disjE exE conjE) (use I(3) [OF assms(2) _ assms(3) _ assms(4)] ap(2) [OF _ pos_512 assms(2-4)] ap(3) [OF _ _ assms(2-4)] in metis)+
  then show "m (pde_at s i j k) = of_nat i * kPageSize512G + of_nat j * kPageSize1G + of_nat k * kPageSize2M OR 0x083"
    unfolding m by (intro put_all_mem allI impI) (unfold in_writes, use assms(2-4) in blast)+
qed

section \<open>Translation\<close>

lemma bit_unat: "bit (a :: u64) n \<longleftrightarrow> odd (unat a div 2 ^ n)"
proof -
  have "bit (unat a) n = bit a n" using bit_imp_le_length [of a n] by (auto simp: bit_unsigned_iff)
  then show ?thesis by (simp add: bit_iff_odd)
qed

lemma aligned_bits:
  fixes a :: u64
  assumes "2 ^ k dvd unat a" "unat a < 2 ^ 52"
  shows "n < k \<Longrightarrow> \<not> bit a n" "52 \<le> n \<Longrightarrow> \<not> bit a n"
proof -
  show "\<not> bit a n" if "n < k"
  proof -
    obtain c where c: "unat a = 2 ^ k * c" using assms(1) by (elim dvdE)
    have "(2 :: nat) ^ k = 2 ^ n * (2 * 2 ^ (k - Suc n))" using that by (simp flip: power_add power_Suc)
    then have "unat a div 2 ^ n = 2 * (2 ^ (k - Suc n) * c)" using c by simp
    then show ?thesis by (simp add: bit_unat)
  qed
  show "\<not> bit a n" if "52 \<le> n"
  proof -
    have "(2 :: nat) ^ 52 \<le> 2 ^ n" using that by (intro power_increasing) simp_all
    then have "unat a div 2 ^ n = 0" using assms(2) by (intro div_less) linarith
    then show ?thesis by (simp add: bit_unat)
  qed
qed

lemma aligned_range:
  fixes a :: u64
  assumes "2 ^ k dvd unat a" "unat a < 2 ^ 52" "bit a n"
  shows "k \<le> n" "n < 52"
  using aligned_bits [OF assms(1,2)] assms(3) by (meson not_le)+

lemma entry_masks:
  "(0x000ffffffffff000 :: u64) = push_bit 12 (mask 40)" "(0x000fffffffe00000 :: u64) = push_bit 21 (mask 31)"
  "(0x003 :: u64) = mask 2" "(0x083 :: u64) = set_bit 7 (mask 2)" "(0x1fffff :: u64) = mask 21" "(0x1ff :: u64) = mask 9"
  by (simp_all add: mask_eq_exp_minus_1 push_bit_eq_mult set_bit_eq_or)

lemma entry_table_id:
  fixes a :: u64
  assumes "4096 dvd unat a" "unat a < 2 ^ 52"
  shows "entry_table a = a" "entry_table (a OR 0x003) = a" "bit (a OR 0x003) 0" "\<not> bit (a OR 0x003) 7"
proof -
  have b: "12 \<le> n" "n < 52" if "bit a n" for n using aligned_range [of 12 a n] assms that by simp_all
  show "entry_table a = a" "entry_table (a OR 0x003) = a" unfolding entry_table_def entry_masks
    by (rule bit_word_eqI, auto simp: bit_simps dest: b)+
  show "bit (a OR 0x003) 0" "\<not> bit (a OR 0x003) 7" unfolding entry_masks by (auto simp: bit_simps dest: b)
qed

lemma entry_page_id:
  fixes a :: u64
  assumes "2 ^ 21 dvd unat a" "unat a < 2 ^ 52"
  shows "entry_page2M (a OR 0x083) = a" "bit (a OR 0x083) 0" "bit (a OR 0x083) 7"
proof -
  have b: "21 \<le> n" "n < 52" if "bit a n" for n using aligned_range [of 21 a n] assms that by simp_all
  show "entry_page2M (a OR 0x083) = a" unfolding entry_page2M_def entry_masks
    by (rule bit_word_eqI) (auto simp: bit_simps dest: b)
  show "bit (a OR 0x083) 0" "bit (a OR 0x083) 7" unfolding entry_masks by (auto simp: bit_simps)
qed

lemma va_index_eq: "va_index n va = unat va div 2 ^ n mod 512"
proof -
  have "va_index n va = take_bit 9 (drop_bit n (unat va))"
    unfolding va_index_def entry_masks take_bit_eq_mask [symmetric] by (simp only: unsigned_take_bit_eq unsigned_drop_bit_eq) (use unsigned_less [of va, where ?'a = nat] in \<open>simp add: take_bit_nat_eq_self\<close>)
  then show ?thesis by (simp add: take_bit_eq_mod drop_bit_eq_div)
qed

lemma page_base:
  fixes va :: u64
  assumes "unat va < 2 ^ 41"
  defines "a \<equiv> of_nat (va_index 39 va) * kPageSize512G + of_nat (va_index 30 va) * kPageSize1G + of_nat (va_index 21 va) * kPageSize2M"
  shows "2 ^ 21 dvd unat a" "unat a < 2 ^ 52" "a OR (va AND 0x1fffff) = va" "va_index 39 va < 4" "va_index 30 va < 512" "va_index 21 va < 512"
proof -
  let ?i = "unat va div 2 ^ 39" and ?j = "unat va div 2 ^ 30 mod 512" and ?k = "unat va div 2 ^ 21 mod 512"
  have "unat va div 2 ^ 39 < 4" using assms(1) by (simp add: less_mult_imp_div_less)
  then have idx: "va_index 39 va = ?i" "va_index 30 va = ?j" "va_index 21 va = ?k" "?i < 4" by (simp_all add: va_index_eq)
  then show "va_index 39 va < 4" "va_index 30 va < 512" "va_index 21 va < 512" by simp_all
  have s: "?i * 2 ^ 39 + ?j * 2 ^ 30 + ?k * 2 ^ 21 = unat va div 2 ^ 21 * 2 ^ 21"
  proof -
    have "unat va div 2 ^ 21 = unat va div 2 ^ 21 div 512 * 512 + ?k" "unat va div 2 ^ 30 = unat va div 2 ^ 30 div 512 * 512 + ?j"
      by (rule div_mult_mod_eq [symmetric])+
    moreover have "unat va div 2 ^ 21 div 512 = unat va div 2 ^ 30" "unat va div 2 ^ 30 div 512 = ?i" by (simp_all add: div_mult2_eq [symmetric])
    ultimately show ?thesis by (simp only:) (simp add: algebra_simps)
  qed
  have le: "unat va div 2 ^ 21 * 2 ^ 21 \<le> unat va" by (rule div_times_less_eq_dividend)
  have "a = of_nat (?i * 2 ^ 39 + ?j * 2 ^ 30 + ?k * 2 ^ 21)"
    by (simp add: a_def idx kPageSize512G_def kPageSize1G_def kPageSize2M_def)
  then have a: "a = of_nat (unat va div 2 ^ 21 * 2 ^ 21)" by (simp only: s)
  then have ua: "unat a = unat va div 2 ^ 21 * 2 ^ 21" using le assms(1) by (simp only: a) (intro unat_of_nat_small, simp)
  then show "2 ^ 21 dvd unat a" "unat a < 2 ^ 52" using le assms(1) by simp_all
  have "unat (push_bit 21 (drop_bit 21 va)) = unat a"
    unfolding ua using le assms(1) by (simp add: push_bit_eq_mult drop_bit_eq_div unat_word_ariths unat_div)
  then have "a = push_bit 21 (drop_bit 21 va)" by (metis word_unat_eq_iff)
  then show "a OR (va AND 0x1fffff) = va" unfolding entry_masks by (intro bit_word_eqI) (auto simp: bit_simps)
qed

lemma table_addresses:
  assumes "tables_ok s" "i < 4" "j < 512"
  shows "4096 dvd unat (p6_PML4E s)" "unat (p6_PML4E s) < 2 ^ 52" "4096 dvd unat (pdpte_at s i 0)" "unat (pdpte_at s i 0) < 2 ^ 52"
    "4096 dvd unat (pde_at s i j 0)" "unat (pde_at s i j 0) < 2 ^ 52"
proof -
  have "i * 512 + 0 < 2048" "(i * 512 + j) * 512 < 1048576" using assms(2,3) by simp_all
  moreover have "8 * (i * 512 + 0) = 4096 * i" "8 * ((i * 512 + j) * 512 + 0) = 4096 * (i * 512 + j)" by simp_all
  ultimately show "4096 dvd unat (p6_PML4E s)" "unat (p6_PML4E s) < 2 ^ 52" "4096 dvd unat (pdpte_at s i 0)" "unat (pdpte_at s i 0) < 2 ^ 52"
    "4096 dvd unat (pde_at s i j 0)" "unat (pde_at s i j 0) < 2 ^ 52"
    using assms(1) at_unat(2) [OF assms(1,2) pos_512 pos_512] at_unat(3) [OF assms(1-3) pos_512]
    by (simp_all add: tables_ok_def Let_def)
qed

text \<open>
  C15: After \<^verbatim>\<open>SetupIdentityPageTable\<close> the processor translates every address below 2 TiB to itself, wherever the linker
  has put the tables, as long as they are page aligned and do not overlap.
\<close>

theorem identity_mapping:
  assumes "tables_ok s" "unat va < 2 ^ 41"
  shows "walk4 (p6_mem (SetupIdentityPageTable s)) (p6_cr3 (SetupIdentityPageTable s)) va = Some va"
proof -
  let ?m = "p6_mem (SetupIdentityPageTable s)" and ?i = "va_index 39 va" and ?j = "va_index 30 va" and ?k = "va_index 21 va"
  note B = page_base [OF assms(2)]
  note T = table_addresses [OF assms(1) B(4,5)] and M = setup_mem [OF assms(1) B(4-6)]
  have cr3: "p6_cr3 (SetupIdentityPageTable s) = p6_PML4E s" by (simp add: setup_writes SetCR3_def pml4e_at_def)
  have at: "p6_PML4E s + of_nat (8 * ?i) = pml4e_at s ?i" "pdpte_at s ?i 0 + of_nat (8 * ?j) = pdpte_at s ?i ?j"
    "pde_at s ?i ?j 0 + of_nat (8 * ?k) = pde_at s ?i ?j ?k"
    by (simp_all add: pml4e_at_def pdpte_at_def pde_at_def algebra_simps)
  show ?thesis unfolding walk4_def cr3 Let_def entry_table_id(1) [OF T(1,2)] at(1) M(1)
      entry_table_id(2) [OF T(3,4)] at(2) M(2) entry_table_id(2) [OF T(5,6)] at(3) M(3) entry_page_id(1) [OF B(1,2)] B(3)
    using entry_table_id(3,4) [OF T(3,4)] entry_table_id(3,4) [OF T(5,6)] entry_page_id(2,3) [OF B(1,2)] by (simp only: if_False not_True_eq_False if_True)
qed

definition pages64_ex :: pages64 where
  "pages64_ex = \<lparr>p6_PML4E = 0x101000, p6_PDPTE = 0x102000, p6_PDE = 0x106000, p6_mem = (\<lambda>_. 0), p6_cr3 = 0\<rparr>"

theorem identity_mapping_witness:
  "walk4 (p6_mem (SetupIdentityPageTable pages64_ex)) (p6_cr3 (SetupIdentityPageTable pages64_ex)) 0x12345678abc = Some 0x12345678abc"
  by (rule identity_mapping) (simp_all add: tables_ok_def pages64_ex_def)

end
