(* ===== verification/Segment64.thy ===== *)
theory Segment64
  imports Queue64
begin

text \<open>
  The segments and the interrupt gates of the 64-bit kernel (\<^verbatim>\<open>src/src/segment.{hpp,cpp}\<close>, \<^verbatim>\<open>src/src/interrupt.{hpp,cpp}\<close>,
  \<^verbatim>\<open>src/src/x86_descriptor.hpp\<close>). A structure with bit fields is a record of words of their widths; \<open>sg_data\<close> and \<open>attr_data\<close> put the
  fields together as the compiler lays them out. The registers that the assembly routines load, and the memory cell of the interrupt controller, are the record \<open>cpu64\<close>.
\<close>

section \<open>Descriptors\<close>

definition kInterruptGate :: "4 word" where "kInterruptGate = 14"
definition kReadWrite :: "4 word" where "kReadWrite = 2"
definition kExecuteRead :: "4 word" where "kExecuteRead = 10"

record SegmentDescriptor =
  sg_limit_low :: u16
  sg_base_low :: u16
  sg_base_middle :: u8
  sg_type :: "4 word"
  sg_system_segment :: "1 word"
  sg_descriptor_privilege_level :: "2 word"
  sg_present :: "1 word"
  sg_limit_high :: "4 word"
  sg_available :: "1 word"
  sg_long_mode :: "1 word"
  sg_default_operation_size :: "1 word"
  sg_granularity :: "1 word"
  sg_base_high :: u8

definition sg_zero :: SegmentDescriptor where
  "sg_zero = \<lparr>sg_limit_low = 0, sg_base_low = 0, sg_base_middle = 0, sg_type = 0, sg_system_segment = 0, sg_descriptor_privilege_level = 0,
     sg_present = 0, sg_limit_high = 0, sg_available = 0, sg_long_mode = 0, sg_default_operation_size = 0, sg_granularity = 0, sg_base_high = 0\<rparr>"

definition sg_data :: "SegmentDescriptor \<Rightarrow> u64" where
  "sg_data d = ucast (sg_limit_low d) OR push_bit 16 (ucast (sg_base_low d)) OR push_bit 32 (ucast (sg_base_middle d)) OR
     push_bit 40 (ucast (sg_type d)) OR push_bit 44 (ucast (sg_system_segment d)) OR push_bit 45 (ucast (sg_descriptor_privilege_level d)) OR
     push_bit 47 (ucast (sg_present d)) OR push_bit 48 (ucast (sg_limit_high d)) OR push_bit 52 (ucast (sg_available d)) OR
     push_bit 53 (ucast (sg_long_mode d)) OR push_bit 54 (ucast (sg_default_operation_size d)) OR push_bit 55 (ucast (sg_granularity d)) OR
     push_bit 56 (ucast (sg_base_high d))"

record InterruptDescriptorAttribute =
  ia_interrupt_stack_table :: "3 word"
  ia_type :: "4 word"
  ia_descriptor_privilege_level :: "2 word"
  ia_present :: "1 word"

definition attr_data :: "InterruptDescriptorAttribute \<Rightarrow> u16" where
  "attr_data a = ucast (ia_interrupt_stack_table a) OR push_bit 8 (ucast (ia_type a)) OR push_bit 13 (ucast (ia_descriptor_privilege_level a)) OR
     push_bit 15 (ucast (ia_present a))"

record InterruptDescriptor =
  id_offset_low :: u16
  id_segment_selector :: u16
  id_attr :: InterruptDescriptorAttribute
  id_offset_middle :: u16
  id_offset_high :: u32
  id_reserved :: u32

record cpu64 =
  c6_gdtr :: "u16 \<times> u64"
  c6_eoi :: "u32 option"

section \<open>Operations\<close>

definition SetCodeSegment :: "4 word \<Rightarrow> u32 \<Rightarrow> u32 \<Rightarrow> u32 \<Rightarrow> SegmentDescriptor" where
  "SetCodeSegment type descriptor_privilege_level base limit =
     sg_zero\<lparr>sg_base_low := ucast (base AND 0xffff), sg_base_middle := ucast (drop_bit 16 base AND 0xff), sg_base_high := ucast (drop_bit 24 base AND 0xff),
       sg_limit_low := ucast (limit AND 0xffff), sg_limit_high := ucast (drop_bit 16 limit AND 0xf),
       sg_type := type, sg_system_segment := 1, sg_descriptor_privilege_level := ucast descriptor_privilege_level, sg_present := 1,
       sg_available := 0, sg_long_mode := 1, sg_default_operation_size := 0, sg_granularity := 1\<rparr>"

definition SetDataSegment :: "4 word \<Rightarrow> u32 \<Rightarrow> u32 \<Rightarrow> u32 \<Rightarrow> SegmentDescriptor" where
  "SetDataSegment type descriptor_privilege_level base limit =
     (SetCodeSegment type descriptor_privilege_level base limit)\<lparr>sg_long_mode := 0, sg_default_operation_size := 1\<rparr>"

text \<open>The table has three entries of eight bytes; \<open>gdt_addr\<close> is its address.\<close>

definition SetupSegments :: "u64 \<Rightarrow> cpu64 \<Rightarrow> cpu64 \<times> SegmentDescriptor list" where
  "SetupSegments gdt_addr c =
     (let gdt = [sg_zero, SetCodeSegment kExecuteRead 0 0 0xfffff, SetDataSegment kReadWrite 0 0 0xfffff]
      in (c\<lparr>c6_gdtr := (of_nat (8 * length gdt) - 1, gdt_addr)\<rparr>, gdt))"

definition MakeIDTAttr :: "4 word \<Rightarrow> u8 \<Rightarrow> bool \<Rightarrow> u8 \<Rightarrow> InterruptDescriptorAttribute" where
  "MakeIDTAttr type descriptor_privilege_level present interrupt_stack_table =
     \<lparr>ia_interrupt_stack_table = ucast interrupt_stack_table, ia_type = type, ia_descriptor_privilege_level = ucast descriptor_privilege_level,
      ia_present = (if present then 1 else 0)\<rparr>"

definition SetIDTEntry :: "InterruptDescriptor \<Rightarrow> InterruptDescriptorAttribute \<Rightarrow> u64 \<Rightarrow> u16 \<Rightarrow> InterruptDescriptor" where
  "SetIDTEntry desc attr offset segment_selector =
     desc\<lparr>id_attr := attr, id_offset_low := ucast (offset AND 0xffff), id_offset_middle := ucast (drop_bit 16 offset AND 0xffff),
       id_offset_high := ucast (drop_bit 32 offset), id_segment_selector := segment_selector\<rparr>"

definition NotifyEndOfInterrupt :: "cpu64 \<Rightarrow> cpu64" where
  "NotifyEndOfInterrupt c = c\<lparr>c6_eoi := Some 0\<rparr>"

section \<open>What the processor reads\<close>

definition data_base :: "u64 \<Rightarrow> u32" where
  "data_base d = ucast (drop_bit 16 d AND 0xffffff) OR ucast (push_bit 24 (drop_bit 56 d))"

definition data_limit :: "u64 \<Rightarrow> u32" where
  "data_limit d = ucast (d AND 0xffff) OR ucast (push_bit 16 (drop_bit 48 d AND 0xf))"

definition id_offset :: "InterruptDescriptor \<Rightarrow> u64" where
  "id_offset d = ucast (id_offset_low d) OR push_bit 16 (ucast (id_offset_middle d)) OR push_bit 32 (ucast (id_offset_high d))"

lemma and_masks: "(x :: 'a::len word) AND 0xffff = take_bit 16 x" "x AND 0xff = take_bit 8 x" "x AND 0xf = take_bit 4 x" "x AND 0xffffff = take_bit 24 x"
  by (simp_all add: take_bit_eq_mask mask_eq_exp_minus_1)

lemma not_bit_beyond: "LENGTH('a) \<le> n \<Longrightarrow> \<not> bit (w :: 'a::len word) n"
  using bit_imp_le_length [of w n] by auto

lemma sg_data_bits:
  "n < 16 \<Longrightarrow> bit (sg_data d) n = bit (sg_limit_low d) n" "n < 16 \<Longrightarrow> bit (sg_data d) (16 + n) = bit (sg_base_low d) n"
  "n < 8 \<Longrightarrow> bit (sg_data d) (32 + n) = bit (sg_base_middle d) n" "n < 4 \<Longrightarrow> bit (sg_data d) (48 + n) = bit (sg_limit_high d) n"
  "n < 8 \<Longrightarrow> bit (sg_data d) (56 + n) = bit (sg_base_high d) n"
  by (simp_all add: sg_data_def bit_or_iff bit_push_bit_iff bit_unsigned_iff not_bit_beyond)

lemma id_offset_set: "id_offset (SetIDTEntry d a offset sel) = offset"
proof (rule bit_word_eqI)
  fix n assume "n < LENGTH(64)"
  then consider "n < 16" | "16 \<le> n" "n < 32" | "32 \<le> n" "n < 64" by fastforce
  then show "bit (id_offset (SetIDTEntry d a offset sel)) n = bit offset n"
    by cases (auto simp: id_offset_def SetIDTEntry_def and_masks bit_simps)
qed

lemma data_base_set: "data_base (sg_data (SetCodeSegment type dpl base limit)) = base"
proof (rule bit_word_eqI)
  fix n assume "n < LENGTH(32)"
  then have n: "n < 32" by simp
  let ?d = "SetCodeSegment type dpl base limit"
  have b: "bit (data_base d) n = (if n < 24 then bit d (16 + n) else bit d (56 + (n - 24)))" for d
    using n by (auto simp: data_base_def and_masks bit_simps)
  consider "n < 16" | "16 \<le> n" "n < 24" | "24 \<le> n" by linarith
  then show "bit (data_base (sg_data ?d)) n = bit base n"
  proof cases
    case 1
    then show ?thesis unfolding b by (simp add: sg_data_bits) (simp add: SetCodeSegment_def and_masks bit_simps)
  next
    case 2
    then have "16 + n = 32 + (n - 16)" "n - 16 < 8" by simp_all
    then show ?thesis unfolding b using 2 sg_data_bits(3) [of "n - 16" ?d] by (simp add: SetCodeSegment_def and_masks bit_simps)
  next
    case 3
    then show ?thesis unfolding b using n sg_data_bits(5) [of "n - 24" ?d] by (simp add: SetCodeSegment_def and_masks bit_simps)
  qed
qed

lemma data_limit_set: "data_limit (sg_data (SetCodeSegment type dpl base limit)) = take_bit 20 limit"
proof (rule bit_word_eqI)
  fix n assume "n < LENGTH(32)"
  then have n: "n < 32" by simp
  let ?d = "SetCodeSegment type dpl base limit"
  have b: "bit (data_limit d) n = (if n < 16 then bit d n else if n < 20 then bit d (48 + (n - 16)) else False)" for d
    using n by (auto simp: data_limit_def and_masks bit_simps)
  consider "n < 16" | "16 \<le> n" "n < 20" | "20 \<le> n" by linarith
  then show "bit (data_limit (sg_data ?d)) n = bit (take_bit 20 limit) n"
  proof cases
    case 1
    then show ?thesis unfolding b by (simp add: sg_data_bits bit_take_bit_iff) (simp add: SetCodeSegment_def and_masks bit_simps)
  next
    case 2
    then show ?thesis unfolding b using sg_data_bits(4) [of "n - 16" ?d] by (simp add: SetCodeSegment_def and_masks bit_simps)
  qed (simp add: b bit_simps)
qed

section \<open>Properties\<close>

text \<open>
  C34: The descriptors of the 64-bit kernel: the base and the low twenty bits of the limit given to \<^verbatim>\<open>SetCodeSegment\<close> are what the
  processor reads from the descriptor, for any type and privilege level; the offset given to \<^verbatim>\<open>SetIDTEntry\<close> is the address the gate leads
  to; and \<^verbatim>\<open>SetupSegments\<close> loads a table of 24 bytes whose two segments are the flat 64-bit code segment and the flat data segment.
\<close>

theorem descriptors_roundtrip:
  "data_base (sg_data (SetCodeSegment type dpl base limit)) = base \<and>
   data_limit (sg_data (SetCodeSegment type dpl base limit)) = take_bit 20 limit \<and>
   id_offset (SetIDTEntry d (MakeIDTAttr kInterruptGate 0 True 0) offset sel) = offset \<and>
   attr_data (id_attr (SetIDTEntry d (MakeIDTAttr kInterruptGate 0 True 0) offset sel)) = 0x8e00 \<and>
   c6_gdtr (fst (SetupSegments gdt_addr c)) = (23, gdt_addr) \<and>
   map sg_data (snd (SetupSegments gdt_addr c)) = [0, 0x00af9a000000ffff, 0x00cf92000000ffff]"
  by (simp add: data_base_set data_limit_set id_offset_set)
    (simp add: SetupSegments_def SetDataSegment_def SetCodeSegment_def sg_zero_def sg_data_def kExecuteRead_def kReadWrite_def SetIDTEntry_def
      attr_data_def MakeIDTAttr_def kInterruptGate_def)

end
