(* ===== verification/Pci.thy ===== *)
theory Pci
  imports Queue64
begin

text \<open>
  The PCI bus of the 64-bit kernel (\<^verbatim>\<open>src/src/pci.{hpp,cpp}\<close>). The two ports of the configuration space are an address register and a data register; the
  state keeps the address and the list of the writes. What a register holds after these writes is the hardware's answer, the parameter \<open>rd\<close>. The search for devices is
  recursive over the bridges; its depth is the parameter \<open>n\<close>, and \<open>None\<close> is a depth that was not enough. The table of 32 devices bounds the depth: 33 always is enough.
\<close>

section \<open>Configuration space\<close>

record ClassCode =
  cc_base :: u8
  cc_sub :: u8
  cc_interface :: u8

record Device =
  dv_bus :: u8
  dv_device :: u8
  dv_function :: u8
  dv_header_type :: u8
  dv_class_code :: ClassCode

record pci =
  pc_address :: u32
  pc_writes :: "(u32 \<times> u32) list"
  pc_devices :: "Device list"
  pc_num_device :: int

type_synonym conf = "(u32 \<times> u32) list \<Rightarrow> u32 \<Rightarrow> u32"

definition cc_match :: "ClassCode \<Rightarrow> u8 \<Rightarrow> bool" where
  "cc_match c b \<longleftrightarrow> b = cc_base c"

definition cc_match2 :: "ClassCode \<Rightarrow> u8 \<Rightarrow> u8 \<Rightarrow> bool" where
  "cc_match2 c b s \<longleftrightarrow> cc_match c b \<and> s = cc_sub c"

definition cc_match3 :: "ClassCode \<Rightarrow> u8 \<Rightarrow> u8 \<Rightarrow> u8 \<Rightarrow> bool" where
  "cc_match3 c b s i \<longleftrightarrow> cc_match2 c b s \<and> i = cc_interface c"

definition MakeAddress :: "u8 \<Rightarrow> u8 \<Rightarrow> u8 \<Rightarrow> u8 \<Rightarrow> u32" where
  "MakeAddress bus device function reg_addr =
     push_bit 31 1 OR push_bit 16 (ucast bus) OR push_bit 11 (ucast device) OR push_bit 8 (ucast function) OR (ucast reg_addr AND 0xfc)"

definition WriteAddress :: "u32 \<Rightarrow> pci \<Rightarrow> pci" where
  "WriteAddress address s = s\<lparr>pc_address := address\<rparr>"

definition WriteData :: "u32 \<Rightarrow> pci \<Rightarrow> pci" where
  "WriteData value s = s\<lparr>pc_writes := pc_writes s @ [(pc_address s, value)]\<rparr>"

definition ReadData :: "conf \<Rightarrow> pci \<Rightarrow> u32" where
  "ReadData rd s = rd (pc_writes s) (pc_address s)"

definition ReadVendorId :: "conf \<Rightarrow> u8 \<Rightarrow> u8 \<Rightarrow> u8 \<Rightarrow> pci \<Rightarrow> pci \<times> u16" where
  "ReadVendorId rd bus device function s =
     (let s = WriteAddress (MakeAddress bus device function 0x00) s in (s, ucast (ReadData rd s AND 0xffff)))"

definition ReadDeviceId :: "conf \<Rightarrow> u8 \<Rightarrow> u8 \<Rightarrow> u8 \<Rightarrow> pci \<Rightarrow> pci \<times> u16" where
  "ReadDeviceId rd bus device function s =
     (let s = WriteAddress (MakeAddress bus device function 0x00) s in (s, ucast (drop_bit 16 (ReadData rd s))))"

definition ReadHeaderType :: "conf \<Rightarrow> u8 \<Rightarrow> u8 \<Rightarrow> u8 \<Rightarrow> pci \<Rightarrow> pci \<times> u8" where
  "ReadHeaderType rd bus device function s =
     (let s = WriteAddress (MakeAddress bus device function 0x0c) s in (s, ucast (drop_bit 16 (ReadData rd s) AND 0xff)))"

definition ReadClassCode :: "conf \<Rightarrow> u8 \<Rightarrow> u8 \<Rightarrow> u8 \<Rightarrow> pci \<Rightarrow> pci \<times> ClassCode" where
  "ReadClassCode rd bus device function s =
     (let s = WriteAddress (MakeAddress bus device function 0x08) s; reg = ReadData rd s
      in (s, \<lparr>cc_base = ucast (drop_bit 24 reg AND 0xff), cc_sub = ucast (drop_bit 16 reg AND 0xff), cc_interface = ucast (drop_bit 8 reg AND 0xff)\<rparr>))"

definition ReadBusNumbers :: "conf \<Rightarrow> u8 \<Rightarrow> u8 \<Rightarrow> u8 \<Rightarrow> pci \<Rightarrow> pci \<times> u32" where
  "ReadBusNumbers rd bus device function s =
     (let s = WriteAddress (MakeAddress bus device function 0x18) s in (s, ReadData rd s))"

definition IsSingleFunctionDevice :: "u8 \<Rightarrow> bool" where
  "IsSingleFunctionDevice header_type \<longleftrightarrow> header_type AND 0x80 = 0"

section \<open>The search\<close>

definition AddDevice :: "Device \<Rightarrow> pci \<Rightarrow> (pci \<times> Code) option" where
  "AddDevice device s =
     (if pc_num_device s = int (length (pc_devices s)) then Some (s, kFull)
      else do {
        ds \<leftarrow> aset (pc_devices s) (pc_num_device s) device;
        Some (s\<lparr>pc_devices := ds, pc_num_device := pc_num_device s + 1\<rparr>, kSuccess)
      })"

text \<open>\<open>scan_bus\<close> is the search of the bus behind a bridge.\<close>

definition ScanFunction :: "(u8 \<Rightarrow> pci \<Rightarrow> (pci \<times> Code) option) \<Rightarrow> conf \<Rightarrow> u8 \<Rightarrow> u8 \<Rightarrow> u8 \<Rightarrow> pci \<Rightarrow> (pci \<times> Code) option" where
  "ScanFunction scan_bus rd bus device function s = do {
     let (s, class_code) = ReadClassCode rd bus device function s;
     let (s, header_type) = ReadHeaderType rd bus device function s;
     let dev = \<lparr>dv_bus = bus, dv_device = device, dv_function = function, dv_header_type = header_type, dv_class_code = class_code\<rparr>;
     (s, err) \<leftarrow> AddDevice dev s;
     if is_error err then Some (s, err)
     else if cc_match2 class_code 0x06 0x04 then
       (let (s, bus_numbers) = ReadBusNumbers rd bus device function s
        in scan_bus (ucast (drop_bit 8 bus_numbers AND 0xff)) s)
     else Some (s, kSuccess)
   }"

text \<open>A loop whose body can end it with an error; a \<^verbatim>\<open>continue\<close> is a turn that succeeds.\<close>

fun for_err :: "('a \<Rightarrow> 's \<Rightarrow> ('s \<times> Code) option) \<Rightarrow> 'a list \<Rightarrow> 's \<Rightarrow> ('s \<times> Code) option" where
  "for_err f [] s = Some (s, kSuccess)"
| "for_err f (x # xs) s = do {
     (s, err) \<leftarrow> f x s;
     if is_error err then Some (s, err) else for_err f xs s
   }"

definition ScanDevice :: "(u8 \<Rightarrow> pci \<Rightarrow> (pci \<times> Code) option) \<Rightarrow> conf \<Rightarrow> u8 \<Rightarrow> u8 \<Rightarrow> pci \<Rightarrow> (pci \<times> Code) option" where
  "ScanDevice scan_bus rd bus device s = do {
     (s, err) \<leftarrow> ScanFunction scan_bus rd bus device 0 s;
     if is_error err then Some (s, err)
     else
       (let (s, header_type) = ReadHeaderType rd bus device 0 s
        in if IsSingleFunctionDevice header_type then Some (s, kSuccess)
           else for_err (\<lambda>function s.
                let (s, vendor) = ReadVendorId rd bus device function s
                in if vendor = 0xffff then Some (s, kSuccess) else ScanFunction scan_bus rd bus device function s)
              (map of_nat [1..<8]) s)
   }"

fun ScanBus :: "nat \<Rightarrow> conf \<Rightarrow> u8 \<Rightarrow> pci \<Rightarrow> (pci \<times> Code) option" where
  "ScanBus 0 rd bus s = None"
| "ScanBus (Suc n) rd bus s =
     for_err (\<lambda>device s.
       let (s, vendor) = ReadVendorId rd bus device 0 s
       in if vendor = 0xffff then Some (s, kSuccess) else ScanDevice (ScanBus n rd) rd bus device s)
     (map of_nat [0..<32]) s"

definition ScanAllBus :: "nat \<Rightarrow> conf \<Rightarrow> pci \<Rightarrow> (pci \<times> Code) option" where
  "ScanAllBus n rd s =
     (let s = s\<lparr>pc_num_device := 0\<rparr>;
          (s, header_type) = ReadHeaderType rd 0 0 0 s
      in if IsSingleFunctionDevice header_type then ScanBus n rd 0 s
         else for_err (\<lambda>function s.
              let (s, vendor) = ReadVendorId rd 0 0 function s
              in if vendor = 0xffff then Some (s, kSuccess) else ScanBus n rd function s)
            (map of_nat [0..<8]) s)"

section \<open>Registers of a device\<close>

definition ReadConfReg :: "conf \<Rightarrow> Device \<Rightarrow> u8 \<Rightarrow> pci \<Rightarrow> pci \<times> u32" where
  "ReadConfReg rd dev reg_addr s =
     (let s = WriteAddress (MakeAddress (dv_bus dev) (dv_device dev) (dv_function dev) reg_addr) s in (s, ReadData rd s))"

definition WriteConfReg :: "Device \<Rightarrow> u8 \<Rightarrow> u32 \<Rightarrow> pci \<Rightarrow> pci" where
  "WriteConfReg dev reg_addr value s =
     WriteData value (WriteAddress (MakeAddress (dv_bus dev) (dv_device dev) (dv_function dev) reg_addr) s)"

definition CalcBarAddress :: "u32 \<Rightarrow> u8" where
  "CalcBarAddress bar_index = ucast (0x10 + 4 * bar_index)"

definition ReadBar :: "conf \<Rightarrow> Device \<Rightarrow> u32 \<Rightarrow> pci \<Rightarrow> pci \<times> u64 WithError" where
  "ReadBar rd device bar_index s =
     (if bar_index \<ge> 6 then (s, \<lparr>we_value = 0, we_error = kIndexOutOfRange\<rparr>)
      else
        (let addr = CalcBarAddress bar_index; (s, bar) = ReadConfReg rd device addr s
         in if bar AND 4 = 0 then (s, \<lparr>we_value = ucast bar, we_error = kSuccess\<rparr>)
            else if bar_index \<ge> 5 then (s, \<lparr>we_value = 0, we_error = kIndexOutOfRange\<rparr>)
            else
              (let (s, bar_upper) = ReadConfReg rd device (addr + 4) s
               in (s, \<lparr>we_value = ucast bar OR push_bit 32 (ucast bar_upper), we_error = kSuccess\<rparr>))))"

section \<open>Message signalled interrupts\<close>

definition kCapabilityMSI :: u32 where "kCapabilityMSI = 0x05"
definition kCapabilityMSIX :: u32 where "kCapabilityMSIX = 0x11"

text \<open>The fields of a capability header, by their position in the register.\<close>

definition cap_id :: "u32 \<Rightarrow> u32" where "cap_id h = take_bit 8 h"
definition next_ptr :: "u32 \<Rightarrow> u8" where "next_ptr h = ucast (take_bit 8 (drop_bit 8 h))"
definition multi_msg_capable :: "u32 \<Rightarrow> u32" where "multi_msg_capable h = take_bit 3 (drop_bit 17 h)"
definition addr_64_capable :: "u32 \<Rightarrow> bool" where "addr_64_capable h = bit h 23"
definition per_vector_mask_capable :: "u32 \<Rightarrow> bool" where "per_vector_mask_capable h = bit h 24"

definition set_multi_msg_enable :: "u32 \<Rightarrow> u32 \<Rightarrow> u32" where
  "set_multi_msg_enable v h = (h AND NOT (push_bit 20 7)) OR push_bit 20 (take_bit 3 v)"

definition set_msi_enable :: "u32 \<Rightarrow> u32" where
  "set_msi_enable h = h OR push_bit 16 1"

record MSICapability =
  mc_header :: u32
  mc_msg_addr :: u32
  mc_msg_upper_addr :: u32
  mc_msg_data :: u32
  mc_mask_bits :: u32
  mc_pending_bits :: u32

definition ReadMSICapability :: "conf \<Rightarrow> Device \<Rightarrow> u8 \<Rightarrow> pci \<Rightarrow> pci \<times> MSICapability" where
  "ReadMSICapability rd dev cap_addr s =
     (let (s, header) = ReadConfReg rd dev cap_addr s;
          (s, msg_addr) = ReadConfReg rd dev (cap_addr + 4) s;
          (s, upper) = (if addr_64_capable header then ReadConfReg rd dev (cap_addr + 8) s else (s, 0));
          msg_data_addr = (if addr_64_capable header then cap_addr + 12 else cap_addr + 8);
          (s, msg_data) = ReadConfReg rd dev msg_data_addr s;
          (s, mask_bits) = (if per_vector_mask_capable header then ReadConfReg rd dev (msg_data_addr + 4) s else (s, 0));
          (s, pending_bits) = (if per_vector_mask_capable header then ReadConfReg rd dev (msg_data_addr + 8) s else (s, 0))
      in (s, \<lparr>mc_header = header, mc_msg_addr = msg_addr, mc_msg_upper_addr = upper, mc_msg_data = msg_data, mc_mask_bits = mask_bits,
          mc_pending_bits = pending_bits\<rparr>))"

definition WriteMSICapability :: "Device \<Rightarrow> u8 \<Rightarrow> MSICapability \<Rightarrow> pci \<Rightarrow> pci" where
  "WriteMSICapability dev cap_addr msi_cap s =
     (let s = WriteConfReg dev cap_addr (mc_header msi_cap) s;
          s = WriteConfReg dev (cap_addr + 4) (mc_msg_addr msi_cap) s;
          s = (if addr_64_capable (mc_header msi_cap) then WriteConfReg dev (cap_addr + 8) (mc_msg_upper_addr msi_cap) s else s);
          msg_data_addr = (if addr_64_capable (mc_header msi_cap) then cap_addr + 12 else cap_addr + 8);
          s = WriteConfReg dev msg_data_addr (mc_msg_data msi_cap) s
      in if per_vector_mask_capable (mc_header msi_cap)
         then WriteConfReg dev (msg_data_addr + 8) (mc_pending_bits msi_cap) (WriteConfReg dev (msg_data_addr + 4) (mc_mask_bits msi_cap) s)
         else s)"

definition ConfigureMSIRegister :: "conf \<Rightarrow> Device \<Rightarrow> u8 \<Rightarrow> u32 \<Rightarrow> u32 \<Rightarrow> u32 \<Rightarrow> pci \<Rightarrow> pci \<times> Code" where
  "ConfigureMSIRegister rd dev cap_addr msg_addr msg_data num_vector_exponent s =
     (let (s, msi_cap) = ReadMSICapability rd dev cap_addr s;
          h = mc_header msi_cap;
          h = (if multi_msg_capable h \<le> num_vector_exponent then set_multi_msg_enable (multi_msg_capable h) h
               else set_multi_msg_enable num_vector_exponent h);
          msi_cap = msi_cap\<lparr>mc_header := set_msi_enable h, mc_msg_addr := msg_addr, mc_msg_data := msg_data\<rparr>
      in (WriteMSICapability dev cap_addr msi_cap s, kSuccess))"

definition ConfigureMSIXRegister :: "Device \<Rightarrow> u8 \<Rightarrow> u32 \<Rightarrow> u32 \<Rightarrow> u32 \<Rightarrow> pci \<Rightarrow> pci \<times> Code" where
  "ConfigureMSIXRegister dev cap_addr msg_addr msg_data num_vector_exponent s = (s, kNotImplemented)"

text \<open>The walk over the list of capabilities; it ends if the device's list does.\<close>

definition ReadCapabilityHeader :: "conf \<Rightarrow> Device \<Rightarrow> u8 \<Rightarrow> pci \<Rightarrow> pci \<times> u32" where
  "ReadCapabilityHeader rd dev addr s = ReadConfReg rd dev addr s"

partial_function (option) cap_loop :: "conf \<Rightarrow> Device \<Rightarrow> u8 \<Rightarrow> u8 \<Rightarrow> u8 \<Rightarrow> pci \<Rightarrow> (pci \<times> u8 \<times> u8) option" where
  "cap_loop rd dev cap_addr msi_cap_addr msix_cap_addr s =
     (if cap_addr = 0 then Some (s, msi_cap_addr, msix_cap_addr)
      else
        (let (s, header) = ReadCapabilityHeader rd dev cap_addr s;
             msi = (if cap_id header = kCapabilityMSI then cap_addr else msi_cap_addr);
             msix = (if cap_id header \<noteq> kCapabilityMSI \<and> cap_id header = kCapabilityMSIX then cap_addr else msix_cap_addr)
         in cap_loop rd dev (next_ptr header) msi msix s))"

definition ConfigureMSI :: "conf \<Rightarrow> Device \<Rightarrow> u32 \<Rightarrow> u32 \<Rightarrow> u32 \<Rightarrow> pci \<Rightarrow> (pci \<times> Code) option" where
  "ConfigureMSI rd dev msg_addr msg_data num_vector_exponent s = do {
     let (s, r) = ReadConfReg rd dev 0x34 s;
     (s, msi_cap_addr, msix_cap_addr) \<leftarrow> cap_loop rd dev (ucast (r AND 0xff)) 0 0 s;
     Some (if msi_cap_addr \<noteq> 0 then ConfigureMSIRegister rd dev msi_cap_addr msg_addr msg_data num_vector_exponent s
       else if msix_cap_addr \<noteq> 0 then ConfigureMSIXRegister dev msix_cap_addr msg_addr msg_data num_vector_exponent s
       else (s, kNoPCIMSI))
   }"

definition ConfigureMSIFixedDestination :: "conf \<Rightarrow> Device \<Rightarrow> u8 \<Rightarrow> bool \<Rightarrow> u32 \<Rightarrow> u8 \<Rightarrow> u32 \<Rightarrow> pci \<Rightarrow> (pci \<times> Code) option" where
  "ConfigureMSIFixedDestination rd dev apic_id level_triggered delivery_mode vector num_vector_exponent s =
     (let msg_addr = 0xfee00000 OR push_bit 12 (ucast apic_id);
          msg_data = push_bit 8 delivery_mode OR ucast vector;
          msg_data = (if level_triggered then msg_data OR 0xc000 else msg_data)
      in ConfigureMSI rd dev msg_addr msg_data num_vector_exponent s)"

text \<open>The start of the driver: the search, and the line of each device for the log (vendor and class are read again). A failed search ends the kernel.\<close>

fun log_devices :: "conf \<Rightarrow> Device list \<Rightarrow> pci \<Rightarrow> pci \<times> (Device \<times> u16 \<times> ClassCode) list" where
  "log_devices rd [] s = (s, [])"
| "log_devices rd (dev # ds) s =
     (let (s, vendor_id) = ReadVendorId rd (dv_bus dev) (dv_device dev) (dv_function dev) s;
          (s, class_code) = ReadClassCode rd (dv_bus dev) (dv_device dev) (dv_function dev) s;
          (s, ls) = log_devices rd ds s
      in (s, (dev, vendor_id, class_code) # ls))"

definition InitializePCI :: "nat \<Rightarrow> conf \<Rightarrow> pci \<Rightarrow> (pci \<times> (Code + (Device \<times> u16 \<times> ClassCode) list)) option" where
  "InitializePCI n rd s = do {
     (s, err) \<leftarrow> ScanAllBus n rd s;
     if is_error err then Some (s, Inl err)
     else (let (s, ls) = log_devices rd (take (nat (pc_num_device s)) (pc_devices s)) s in Some (s, Inr ls))
   }"

section \<open>What the search finds\<close>

text \<open>The configuration space read without side effects: \<open>c\<close> gives the register at an address.\<close>

definition vendor_of :: "(u32 \<Rightarrow> u32) \<Rightarrow> u8 \<Rightarrow> u8 \<Rightarrow> u8 \<Rightarrow> u16" where
  "vendor_of c bus device function = ucast (c (MakeAddress bus device function 0x00) AND 0xffff)"

definition header_of :: "(u32 \<Rightarrow> u32) \<Rightarrow> u8 \<Rightarrow> u8 \<Rightarrow> u8 \<Rightarrow> u8" where
  "header_of c bus device function = ucast (drop_bit 16 (c (MakeAddress bus device function 0x0c)) AND 0xff)"

definition class_of :: "(u32 \<Rightarrow> u32) \<Rightarrow> u8 \<Rightarrow> u8 \<Rightarrow> u8 \<Rightarrow> ClassCode" where
  "class_of c bus device function =
     (let reg = c (MakeAddress bus device function 0x08)
      in \<lparr>cc_base = ucast (drop_bit 24 reg AND 0xff), cc_sub = ucast (drop_bit 16 reg AND 0xff), cc_interface = ucast (drop_bit 8 reg AND 0xff)\<rparr>)"

definition secondary_of :: "(u32 \<Rightarrow> u32) \<Rightarrow> u8 \<Rightarrow> u8 \<Rightarrow> u8 \<Rightarrow> u8" where
  "secondary_of c bus device function = ucast (drop_bit 8 (c (MakeAddress bus device function 0x18)) AND 0xff)"

text \<open>The functions in the order of a depth first search.\<close>

definition tree_function :: "(u8 \<Rightarrow> Device list) \<Rightarrow> (u32 \<Rightarrow> u32) \<Rightarrow> u8 \<Rightarrow> u8 \<Rightarrow> u8 \<Rightarrow> Device list" where
  "tree_function sub c b d f =
     \<lparr>dv_bus = b, dv_device = d, dv_function = f, dv_header_type = header_of c b d f, dv_class_code = class_of c b d f\<rparr> #
     (if cc_match2 (class_of c b d f) 0x06 0x04 then sub (secondary_of c b d f) else [])"

definition tree_device :: "(u8 \<Rightarrow> Device list) \<Rightarrow> (u32 \<Rightarrow> u32) \<Rightarrow> u8 \<Rightarrow> u8 \<Rightarrow> Device list" where
  "tree_device sub c b d = tree_function sub c b d 0 @
     (if IsSingleFunctionDevice (header_of c b d 0) then []
      else concat (map (\<lambda>f. if vendor_of c b d f = 0xffff then [] else tree_function sub c b d f) (map of_nat [1..<8])))"

fun tree_bus :: "nat \<Rightarrow> (u32 \<Rightarrow> u32) \<Rightarrow> u8 \<Rightarrow> Device list" where
  "tree_bus 0 c b = []"
| "tree_bus (Suc n) c b = concat (map (\<lambda>d. if vendor_of c b d 0 = 0xffff then [] else tree_device (tree_bus n c) c b d) (map of_nat [0..<32]))"

definition tree_all :: "nat \<Rightarrow> (u32 \<Rightarrow> u32) \<Rightarrow> Device list" where
  "tree_all n c =
     (if IsSingleFunctionDevice (header_of c 0 0 0) then tree_bus n c 0
      else concat (map (\<lambda>f. if vendor_of c 0 0 f = 0xffff then [] else tree_bus n c f) (map of_nat [0..<8])))"

section \<open>The table of devices\<close>

definition table_ok :: "pci \<Rightarrow> bool" where
  "table_ok s \<longleftrightarrow> length (pc_devices s) = 32 \<and> 0 \<le> pc_num_device s \<and> pc_num_device s \<le> 32"

definition found :: "pci \<Rightarrow> Device list" where
  "found s = take (nat (pc_num_device s)) (pc_devices s)"

text \<open>
  A step that puts the devices \<open>L\<close> behind the ones found, up to the size of the table, and fails if there are too many.
  It may rely on \<open>k\<close> devices having been found.
\<close>

definition appends :: "(u32 \<times> u32) list \<Rightarrow> (pci \<Rightarrow> (pci \<times> Code) option) \<Rightarrow> Device list \<Rightarrow> nat \<Rightarrow> bool" where
  "appends ws f L k \<longleftrightarrow> (\<forall>s. table_ok s \<and> pc_writes s = ws \<and> k \<le> length (found s) \<longrightarrow>
     (\<exists>s'. f s = Some (s', if 32 < length (found s @ L) then kFull else kSuccess) \<and> table_ok s' \<and> pc_writes s' = ws \<and>
       found s' = take 32 (found s @ L)))"

lemma appendsI:
  assumes "\<And>s. table_ok s \<Longrightarrow> pc_writes s = ws \<Longrightarrow> k \<le> length (found s) \<Longrightarrow>
    \<exists>s'. f s = Some (s', if 32 < length (found s @ L) then kFull else kSuccess) \<and> table_ok s' \<and> pc_writes s' = ws \<and> found s' = take 32 (found s @ L)"
  shows "appends ws f L k"
  using assms by (simp add: appends_def)

lemma appendsE:
  assumes "appends ws f L k" "table_ok s" "pc_writes s = ws" "k \<le> length (found s)"
  obtains s' where "f s = Some (s', if 32 < length (found s @ L) then kFull else kSuccess)" "table_ok s'" "pc_writes s' = ws" "found s' = take 32 (found s @ L)"
  using assms by (auto simp: appends_def)

lemma found_length: "table_ok s \<Longrightarrow> length (found s) \<le> 32"
  by (auto simp: table_ok_def found_def)

lemma set_address: "table_ok (WriteAddress a s) = table_ok s" "found (WriteAddress a s) = found s" "pc_writes (WriteAddress a s) = pc_writes s"
  by (simp_all add: WriteAddress_def table_ok_def found_def)

lemma appends_address: "appends ws f L k \<Longrightarrow> appends ws (\<lambda>s. f (WriteAddress a s)) L k"
  unfolding appends_def by (metis set_address)

lemma appends_nothing: "appends ws (\<lambda>s. Some (s, kSuccess)) [] k"
  by (auto simp: appends_def dest: found_length)

lemma appends_seq:
  assumes "appends ws f L k" "appends ws g M (k + length L)"
  shows "appends ws (\<lambda>s. do { (s, err) \<leftarrow> f s; if is_error err then Some (s, err) else g s }) (L @ M) k"
proof (rule appendsI)
  fix s assume s: "table_ok s" "pc_writes s = ws" "k \<le> length (found s)"
  then obtain s1 where s1: "f s = Some (s1, if 32 < length (found s @ L) then kFull else kSuccess)" "table_ok s1" "pc_writes s1 = ws"
    "found s1 = take 32 (found s @ L)" using assms(1) by (elim appendsE)
  show "\<exists>s'. (do { (s, err) \<leftarrow> f s; if is_error err then Some (s, err) else g s }) =
      Some (s', if 32 < length (found s @ L @ M) then kFull else kSuccess) \<and> table_ok s' \<and> pc_writes s' = ws \<and> found s' = take 32 (found s @ L @ M)"
  proof (cases "32 < length (found s @ L)")
    case True
    then show ?thesis using s1 by (intro exI [of _ s1]) (auto simp: is_error_def)
  next
    case False
    then have f1: "found s1 = found s @ L" using s1(4) by simp
    then have "k + length L \<le> length (found s1)" using s(3) by simp
    with assms(2) s1(2,3) obtain s2 where "g s1 = Some (s2, if 32 < length (found s1 @ M) then kFull else kSuccess)" "table_ok s2" "pc_writes s2 = ws"
      "found s2 = take 32 (found s1 @ M)" by (elim appendsE)
    then show ?thesis using s1(1) False f1 by (intro exI [of _ s2]) (simp add: is_error_def)
  qed
qed

lemma appends_weaken: "appends ws f L k \<Longrightarrow> k \<le> k' \<Longrightarrow> appends ws f L k'"
  by (rule appendsI) (erule appendsE, auto)

lemma appends_for:
  assumes "\<And>x. x \<in> set xs \<Longrightarrow> appends ws (f x) (g x) k"
  shows "appends ws (for_err f xs) (concat (map g xs)) k"
  using assms
proof (induction xs)
  case Nil
  have "for_err f [] = (\<lambda>s. Some (s, kSuccess))" by (simp add: fun_eq_iff)
  then show ?case using appends_nothing by simp
next
  case (Cons x xs)
  have "for_err f (x # xs) = (\<lambda>s. do { (s, err) \<leftarrow> f x s; if is_error err then Some (s, err) else for_err f xs s })" by (simp add: fun_eq_iff)
  moreover have "appends ws (for_err f xs) (concat (map g xs)) (k + length (g x))"
    by (rule appends_weaken [OF Cons.IH]) (use Cons.prems in auto)
  ultimately show ?case using appends_seq [OF Cons.prems [of x]] by simp
qed

lemma AddDevice_appends: "appends ws (AddDevice d) [d] 0"
proof (rule appendsI)
  fix s assume s: "table_ok s" "pc_writes s = ws"
  show "\<exists>s'. AddDevice d s = Some (s', if 32 < length (found s @ [d]) then kFull else kSuccess) \<and> table_ok s' \<and> pc_writes s' = ws \<and> found s' = take 32 (found s @ [d])"
  proof (cases "pc_num_device s = 32")
    case True
    then show ?thesis using s by (auto simp: AddDevice_def table_ok_def found_def)
  next
    case False
    then have "nat (pc_num_device s + 1) = Suc (nat (pc_num_device s))" "nat (pc_num_device s) < 32" using s by (auto simp: table_ok_def)
    then show ?thesis using s False
      by (auto simp: AddDevice_def table_ok_def found_def aset_def take_Suc_conv_app_nth nth_append list_update_append)
  qed
qed

lemma appends_cong: "appends ws g L k \<Longrightarrow> (\<And>s. pc_writes s = ws \<Longrightarrow> f s = g s) \<Longrightarrow> appends ws f L k"
  by (simp add: appends_def)

lemma reads [simp]:
  "ReadVendorId rd b d f s = (WriteAddress (MakeAddress b d f 0x00) s, vendor_of (rd (pc_writes s)) b d f)"
  "ReadHeaderType rd b d f s = (WriteAddress (MakeAddress b d f 0x0c) s, header_of (rd (pc_writes s)) b d f)"
  "ReadClassCode rd b d f s = (WriteAddress (MakeAddress b d f 0x08) s, class_of (rd (pc_writes s)) b d f)"
  "ReadBusNumbers rd b d f s = (WriteAddress (MakeAddress b d f 0x18) s, rd (pc_writes s) (MakeAddress b d f 0x18))"
  by (simp_all add: ReadVendorId_def ReadHeaderType_def ReadClassCode_def ReadBusNumbers_def ReadData_def WriteAddress_def
        vendor_of_def header_of_def class_of_def Let_def)

lemma ScanFunction_appends:
  assumes "\<And>b. appends ws (scan_bus b) (sub b) (Suc k)"
  shows "appends ws (ScanFunction scan_bus rd b d f) (tree_function sub (rd ws) b d f) k"
proof -
  define dev where "dev = \<lparr>dv_bus = b, dv_device = d, dv_function = f, dv_header_type = header_of (rd ws) b d f, dv_class_code = class_of (rd ws) b d f\<rparr>"
  define rest where "rest = (\<lambda>s. if cc_match2 (class_of (rd ws) b d f) 0x06 0x04
    then scan_bus (secondary_of (rd ws) b d f) (WriteAddress (MakeAddress b d f 0x18) s) else Some (s, kSuccess))"
  define below where "below = (if cc_match2 (class_of (rd ws) b d f) 0x06 0x04 then sub (secondary_of (rd ws) b d f) else [])"
  have "appends ws rest below (k + length [dev])"
    using appends_address [OF assms] appends_nothing by (simp add: rest_def below_def)
  then have "appends ws (\<lambda>s. do { (s, err) \<leftarrow> AddDevice dev s; if is_error err then Some (s, err) else rest s }) ([dev] @ below) k"
    by (intro appends_seq appends_weaken [OF AddDevice_appends]) auto
  from appends_address [OF appends_address [OF this, of "MakeAddress b d f 0x0c"], of "MakeAddress b d f 0x08"]
  have "appends ws (ScanFunction scan_bus rd b d f) ([dev] @ below) k"
  proof (rule appends_cong)
    fix s :: pci assume s: "pc_writes s = ws"
    define t where "t = WriteAddress (MakeAddress b d f 0x0c) (WriteAddress (MakeAddress b d f 0x08) s)"
    have "pc_writes t = ws" using s by (simp add: t_def set_address)
    then have "\<And>t'. AddDevice dev t = Some t' \<Longrightarrow> pc_writes (fst t') = ws"
      by (auto simp: AddDevice_def split: if_splits Option.bind_splits)
    then show "ScanFunction scan_bus rd b d f s = (do { (s, err) \<leftarrow> AddDevice dev t; if is_error err then Some (s, err) else rest s })"
      using s by (cases "AddDevice dev t") (auto simp: ScanFunction_def set_address rest_def dev_def t_def secondary_of_def Let_def)
  qed
  then show ?thesis by (simp add: tree_function_def dev_def below_def)
qed

text \<open>The turn of a loop that skips the functions whose vendor number says that there is nothing.\<close>

lemma present_appends:
  assumes "appends ws f L k"
  shows "appends ws (\<lambda>s. let (s, vendor) = ReadVendorId rd b d i s in if vendor = 0xffff then Some (s, kSuccess) else f s)
    (if vendor_of (rd ws) b d i = 0xffff then [] else L) k"
proof (rule appends_cong)
  show "appends ws (\<lambda>s. (if vendor_of (rd ws) b d i = 0xffff then (\<lambda>s. Some (s, kSuccess)) else f) (WriteAddress (MakeAddress b d i 0x00) s))
      (if vendor_of (rd ws) b d i = 0xffff then [] else L) k"
    by (rule appends_address) (simp add: assms appends_nothing)
qed simp

lemma ScanDevice_appends:
  assumes "\<And>b. appends ws (scan_bus b) (sub b) (Suc k)"
  shows "appends ws (ScanDevice scan_bus rd b d) (tree_device sub (rd ws) b d) k"
proof -
  define others where "others = for_err (\<lambda>function s. let (s, vendor) = ReadVendorId rd b d function s
    in if vendor = 0xffff then Some (s, kSuccess) else ScanFunction scan_bus rd b d function s) (map of_nat [1..<8])"
  define rest where "rest = (\<lambda>s. let (s, header_type) = ReadHeaderType rd b d 0 s
    in if IsSingleFunctionDevice header_type then Some (s, kSuccess) else others s)"
  define found_there where "found_there = concat (map (\<lambda>f. if vendor_of (rd ws) b d f = 0xffff then [] else tree_function sub (rd ws) b d f) (map of_nat [1..<8]))"
  have "appends ws others found_there (k + n)" for n
    unfolding others_def found_there_def
    by (intro appends_for present_appends appends_weaken [OF ScanFunction_appends [OF assms]]) simp
  then have "appends ws (if IsSingleFunctionDevice (header_of (rd ws) b d 0) then (\<lambda>s. Some (s, kSuccess)) else others)
      (if IsSingleFunctionDevice (header_of (rd ws) b d 0) then [] else found_there) (k + n)" for n
    by (simp add: appends_nothing)
  from appends_cong [OF appends_address [OF this, of "MakeAddress b d 0 0x0c"]]
  have "appends ws rest (if IsSingleFunctionDevice (header_of (rd ws) b d 0) then [] else found_there) (k + n)" for n
    by (simp add: rest_def)
  from appends_seq [OF ScanFunction_appends [OF assms] this]
  have "appends ws (\<lambda>s. do { (s, err) \<leftarrow> ScanFunction scan_bus rd b d 0 s; if is_error err then Some (s, err) else rest s })
      (tree_device sub (rd ws) b d) k"
    by (simp only: tree_device_def found_there_def)
  then show ?thesis by (simp only: ScanDevice_def [abs_def] rest_def others_def)
qed

text \<open>A bridge is a device, so the search is never deeper than the number of entries of the table.\<close>

lemma ScanBus_appends: "32 < n + k \<Longrightarrow> appends ws (ScanBus n rd b) (tree_bus n (rd ws) b) k"
proof (induction n arbitrary: k b)
  case 0
  then show ?case by (auto simp: appends_def dest: found_length)
next
  case (Suc n)
  then have sub: "appends ws (ScanBus n rd b) (tree_bus n (rd ws) b) (Suc k)" for b by simp
  have "ScanBus (Suc n) rd b = for_err (\<lambda>device s. let (s, vendor) = ReadVendorId rd b device 0 s
      in if vendor = 0xffff then Some (s, kSuccess) else ScanDevice (ScanBus n rd) rd b device s) (map of_nat [0..<32])"
    by (simp only: ScanBus.simps fun_eq_iff) simp
  then show ?case
    by (simp only: tree_bus.simps) (intro appends_for present_appends ScanDevice_appends sub)
qed

lemma ScanAllBus_appends:
  "appends ws (\<lambda>s. let (s, header_type) = ReadHeaderType rd 0 0 0 s
      in if IsSingleFunctionDevice header_type then ScanBus 33 rd 0 s
         else for_err (\<lambda>function s. let (s, vendor) = ReadVendorId rd 0 0 function s
           in if vendor = 0xffff then Some (s, kSuccess) else ScanBus 33 rd function s) (map of_nat [0..<8]) s)
    (tree_all 33 (rd ws)) k"
proof -
  define others where "others = for_err (\<lambda>function s. let (s, vendor) = ReadVendorId rd 0 0 function s
    in if vendor = 0xffff then Some (s, kSuccess) else ScanBus 33 rd function s) (map of_nat [0..<8])"
  have bus: "appends ws (ScanBus 33 rd b) (tree_bus 33 (rd ws) b) k" for b by (rule ScanBus_appends) simp
  have "appends ws others (concat (map (\<lambda>f. if vendor_of (rd ws) 0 0 f = 0xffff then [] else tree_bus 33 (rd ws) f) (map of_nat [0..<8]))) k"
    unfolding others_def by (intro appends_for present_appends bus)
  then have "appends ws (if IsSingleFunctionDevice (header_of (rd ws) 0 0 0) then ScanBus 33 rd 0 else others) (tree_all 33 (rd ws)) k"
    unfolding tree_all_def using bus [of 0] by (cases "IsSingleFunctionDevice (header_of (rd ws) 0 0 0)") (simp_all only: if_True if_False)
  from appends_address [OF this, of "MakeAddress 0 0 0 0x0c"] show ?thesis
    unfolding others_def [symmetric] by (rule appends_cong) simp
qed

text \<open>
  C14: The search of the PCI buses always ends, whatever the bridges say, also if their bus numbers form a cycle: it never goes deeper than the 32 entries of the table.
  It finds the functions of the depth first order, the first 32 of them if there are more, and then fails with kFull; otherwise it succeeds with all of them.
\<close>

theorem ScanAllBus_correct:
  assumes "length (pc_devices s) = 32"
  shows "\<exists>s'. ScanAllBus 33 rd s = Some (s', if 32 < length (tree_all 33 (rd (pc_writes s))) then kFull else kSuccess) \<and>
    pc_writes s' = pc_writes s \<and> length (pc_devices s') = 32 \<and>
    take (nat (pc_num_device s')) (pc_devices s') = take 32 (tree_all 33 (rd (pc_writes s)))"
proof -
  have "table_ok (s\<lparr>pc_num_device := 0\<rparr>)" "pc_writes (s\<lparr>pc_num_device := 0\<rparr>) = pc_writes s" "found (s\<lparr>pc_num_device := 0\<rparr>) = []"
    using assms by (simp_all add: table_ok_def found_def)
  with ScanAllBus_appends [of "pc_writes s" rd 0] obtain s' where
    "ScanAllBus 33 rd s = Some (s', if 32 < length (tree_all 33 (rd (pc_writes s))) then kFull else kSuccess)"
    "table_ok s'" "pc_writes s' = pc_writes s" "found s' = take 32 (tree_all 33 (rd (pc_writes s)))"
    unfolding ScanAllBus_def Let_def by (elim appendsE [where s = "s\<lparr>pc_num_device := 0\<rparr>"]) auto
  then show ?thesis by (auto simp: table_ok_def found_def)
qed

text \<open>A bridge that leads back to its own bus: the search stops when the table is full.\<close>

definition cyclic_bridge :: conf where
  "cyclic_bridge ws a =
     (if a = MakeAddress 0 0 0 0x08 then 0x06040000 else if a \<in> {MakeAddress 0 0 0 0x00, MakeAddress 0 0 0 0x0c, MakeAddress 0 0 0 0x18} then 0
      else 0xffffffff)"

lemma cyclic_bridge_tree: "length (tree_bus n (cyclic_bridge ws) 0) = n"
proof (induction n)
  case (Suc n)
  have [simp]: "class_of (cyclic_bridge ws) 0 0 0 = \<lparr>cc_base = 0x06, cc_sub = 0x04, cc_interface = 0\<rparr>" "header_of (cyclic_bridge ws) 0 0 0 = 0"
    "secondary_of (cyclic_bridge ws) 0 0 0 = 0" "vendor_of (cyclic_bridge ws) 0 0 0 = 0"
    by (simp_all add: class_of_def header_of_def secondary_of_def vendor_of_def cyclic_bridge_def MakeAddress_def Let_def)
  have absent: "vendor_of (cyclic_bridge ws) 0 (of_nat d) 0 = 0xffff" if "d \<in> set [1..<32]" for d
    using that by (simp add: upt_conv_Cons vendor_of_def cyclic_bridge_def MakeAddress_def) (elim disjE; simp)
  have "tree_bus (Suc n) (cyclic_bridge ws) 0 =
      tree_device (tree_bus n (cyclic_bridge ws)) (cyclic_bridge ws) 0 0 @
      concat (map (\<lambda>d. if vendor_of (cyclic_bridge ws) 0 (of_nat d) 0 = 0xffff then [] else tree_device (tree_bus n (cyclic_bridge ws)) (cyclic_bridge ws) 0 (of_nat d)) [1..<32])"
    by (simp add: upt_conv_Cons [of 0 32] o_def)
  also have "\<dots> = tree_device (tree_bus n (cyclic_bridge ws)) (cyclic_bridge ws) 0 0"
    using absent by (simp add: concat_eq_Nil_conv)
  finally show ?case
    using Suc by (simp add: tree_device_def tree_function_def IsSingleFunctionDevice_def cc_match2_def cc_match_def)
qed simp

theorem ScanAllBus_correct_witness:
  "length (replicate 32 \<lparr>dv_bus = 0, dv_device = 0, dv_function = 0, dv_header_type = 0, dv_class_code = \<lparr>cc_base = 0, cc_sub = 0, cc_interface = 0\<rparr>\<rparr>) = 32 \<and>
   (\<exists>s'. ScanAllBus 33 cyclic_bridge \<lparr>pc_address = 0, pc_writes = [], pc_devices = replicate 32 \<lparr>dv_bus = 0, dv_device = 0, dv_function = 0,
      dv_header_type = 0, dv_class_code = \<lparr>cc_base = 0, cc_sub = 0, cc_interface = 0\<rparr>\<rparr>, pc_num_device = 0\<rparr> = Some (s', kFull))"
proof -
  have "tree_all 33 (cyclic_bridge []) = tree_bus 33 (cyclic_bridge []) 0"
    by (simp add: tree_all_def IsSingleFunctionDevice_def header_of_def cyclic_bridge_def MakeAddress_def)
  then have "32 < length (tree_all 33 (cyclic_bridge []))" by (simp only: cyclic_bridge_tree)
  then show ?thesis
    using ScanAllBus_correct [of "\<lparr>pc_address = 0, pc_writes = [], pc_devices = replicate 32 \<lparr>dv_bus = 0, dv_device = 0, dv_function = 0,
      dv_header_type = 0, dv_class_code = \<lparr>cc_base = 0, cc_sub = 0, cc_interface = 0\<rparr>\<rparr>, pc_num_device = 0\<rparr>" cyclic_bridge]
    by auto
qed

section \<open>Message signalled interrupts of a device\<close>

text \<open>The list of capabilities of a device, as the addresses the walk visits.\<close>

definition conf_reg :: "(u32 \<Rightarrow> u32) \<Rightarrow> Device \<Rightarrow> u8 \<Rightarrow> u32" where
  "conf_reg c dev a = c (MakeAddress (dv_bus dev) (dv_device dev) (dv_function dev) a)"

fun cap_chain :: "(u32 \<Rightarrow> u32) \<Rightarrow> Device \<Rightarrow> u8 \<Rightarrow> u8 list \<Rightarrow> bool" where
  "cap_chain c dev a [] \<longleftrightarrow> a = 0"
| "cap_chain c dev a (x # xs) \<longleftrightarrow> a \<noteq> 0 \<and> x = a \<and> cap_chain c dev (next_ptr (conf_reg c dev a)) xs"

definition cap_last :: "(u32 \<Rightarrow> u32) \<Rightarrow> Device \<Rightarrow> u32 \<Rightarrow> u8 list \<Rightarrow> u8" where
  "cap_last c dev i xs = fold (\<lambda>a r. if cap_id (conf_reg c dev a) = i then a else r) xs 0"

definition conf_address :: "Device \<Rightarrow> u8 \<Rightarrow> u32" where
  "conf_address dev a = MakeAddress (dv_bus dev) (dv_device dev) (dv_function dev) a"

lemma ReadConfReg_eq [simp]: "ReadConfReg rd dev a s = (WriteAddress (conf_address dev a) s, conf_reg (rd (pc_writes s)) dev a)"
  by (simp add: ReadConfReg_def conf_address_def conf_reg_def ReadData_def WriteAddress_def Let_def)

lemma WriteConfReg_writes [simp]: "pc_writes (WriteConfReg dev a v s) = pc_writes s @ [(conf_address dev a, v)]"
  by (simp add: WriteConfReg_def WriteData_def WriteAddress_def conf_address_def)

lemma cap_loop_chain:
  "cap_chain (rd (pc_writes s)) dev a xs \<Longrightarrow> \<exists>s'. pc_writes s' = pc_writes s \<and> cap_loop rd dev a m x s =
     Some (s', fold (\<lambda>a r. if cap_id (conf_reg (rd (pc_writes s)) dev a) = kCapabilityMSI then a else r) xs m,
       fold (\<lambda>a r. if cap_id (conf_reg (rd (pc_writes s)) dev a) = kCapabilityMSIX then a else r) xs x)"
proof (induction xs arbitrary: a m x s)
  case Nil
  then show ?case by (subst cap_loop.simps) auto
next
  case (Cons y ys)
  have ne: "kCapabilityMSI \<noteq> kCapabilityMSIX" by (simp add: kCapabilityMSI_def kCapabilityMSIX_def)
  from Cons.prems have a: "a \<noteq> 0" "y = a" by auto
  let ?h = "conf_reg (rd (pc_writes s)) dev a"
  let ?s = "WriteAddress (conf_address dev a) s"
  have "cap_chain (rd (pc_writes ?s)) dev (next_ptr ?h) ys" using Cons.prems by (simp add: set_address)
  from Cons.IH [OF this, of "if cap_id ?h = kCapabilityMSI then a else m" "if cap_id ?h \<noteq> kCapabilityMSI \<and> cap_id ?h = kCapabilityMSIX then a else x"]
  show ?case using a ne by (subst cap_loop.simps) (auto simp: ReadCapabilityHeader_def set_address Let_def split: if_splits)
qed

lemma header_bits: "bit (7340032 :: u32) n \<longleftrightarrow> n \<in> {20..22}" "bit (65536 :: u32) n \<longleftrightarrow> n = 16"
proof -
  have "(7340032 :: u32) = push_bit 20 (mask 3)" "(65536 :: u32) = 2 ^ 16" by (simp_all add: mask_eq_exp_minus_1)
  then show "bit (7340032 :: u32) n \<longleftrightarrow> n \<in> {20..22}" "bit (65536 :: u32) n \<longleftrightarrow> n = 16"
    by (simp_all only: bit_push_bit_iff bit_mask_iff bit_exp_iff) (auto simp: possible_bit_word)
qed

lemma multi_msg_bits: "bit (set_msi_enable (set_multi_msg_enable v h)) n \<longleftrightarrow>
    (if n = 16 then True else if n \<in> {20..22} then bit v (n - 20) else bit h n)"
proof (cases "n < 32")
  case True
  then show ?thesis
    by (auto simp: set_msi_enable_def set_multi_msg_enable_def bit_simps header_bits simp del: bit_numeral_word_iff)
next
  case False
  then show ?thesis by (auto simp: bit_word.rep_eq)
qed

lemma vectors_min: "(if multi_msg_capable h \<le> num then set_multi_msg_enable (multi_msg_capable h) h else set_multi_msg_enable num h) =
    set_multi_msg_enable (min (multi_msg_capable h) num) h"
  by (simp add: min_def)

lemma ConfigureMSIRegister_writes:
  fixes rd :: conf and s :: pci and dev :: Device and m :: u8
  defines "c \<equiv> rd (pc_writes s)"
  defines "h \<equiv> conf_reg c dev m"
  shows "\<exists>s'. ConfigureMSIRegister rd dev m msg_addr msg_data num s = (s', kSuccess) \<and> pc_writes s' = pc_writes s @
    [(conf_address dev m, set_msi_enable (set_multi_msg_enable (min (multi_msg_capable h) num) h)), (conf_address dev (m + 4), msg_addr)] @
         (if bit h 23 then [(conf_address dev (m + 8), conf_reg c dev (m + 8)), (conf_address dev (m + 12), msg_data)]
          else [(conf_address dev (m + 8), msg_data)]) @
         (if bit h 24 then let d = (if bit h 23 then m + 12 else m + 8)
            in [(conf_address dev (d + 4), conf_reg c dev (d + 4)), (conf_address dev (d + 8), conf_reg c dev (d + 8))] else [])"
  by (simp add: ConfigureMSIRegister_def ReadMSICapability_def WriteMSICapability_def vectors_min set_address Let_def
      addr_64_capable_def per_vector_mask_capable_def multi_msg_bits c_def h_def)

text \<open>
  C32: The message signalled interrupts of a device whose list of capabilities ends are configured or refused. Without an MSI or MSI-X capability the call fails with
  kNoPCIMSI, with an MSI-X capability only with kNotImplemented, and no register is written. With an MSI capability (the last one of the list) the header is written back with the
  enable bit, with the smaller one of the wanted and the possible number of vectors and with its other fields as read, and the message address and data follow at the offsets of
  the layout that the header names.
\<close>

theorem ConfigureMSI_correct:
  assumes "cap_chain c dev (ucast (conf_reg c dev 0x34 AND 0xff)) xs" "c = rd (pc_writes s)"
    "m = cap_last c dev kCapabilityMSI xs" "x = cap_last c dev kCapabilityMSIX xs" "h = conf_reg c dev m"
  shows "\<exists>s' h'. ConfigureMSI rd dev msg_addr msg_data num s = Some (s', if m \<noteq> 0 then kSuccess else if x \<noteq> 0 then kNotImplemented else kNoPCIMSI) \<and>
    h' = set_msi_enable (set_multi_msg_enable (min (multi_msg_capable h) num) h) \<and>
    (\<forall>n. bit h' n \<longleftrightarrow> (if n = 16 then True else if n \<in> {20..22} then bit (min (multi_msg_capable h) num) (n - 20) else bit h n)) \<and>
    pc_writes s' = pc_writes s @
      (if m = 0 then []
       else [(conf_address dev m, h'), (conf_address dev (m + 4), msg_addr)] @
         (if bit h 23 then [(conf_address dev (m + 8), conf_reg c dev (m + 8)), (conf_address dev (m + 12), msg_data)]
          else [(conf_address dev (m + 8), msg_data)]) @
         (if bit h 24 then let d = (if bit h 23 then m + 12 else m + 8)
            in [(conf_address dev (d + 4), conf_reg c dev (d + 4)), (conf_address dev (d + 8), conf_reg c dev (d + 8))] else []))"
proof -
  let ?s0 = "WriteAddress (conf_address dev 0x34) s"
  obtain s1 where s1: "pc_writes s1 = pc_writes s" "cap_loop rd dev (ucast (conf_reg c dev 0x34 AND 0xff)) 0 0 ?s0 = Some (s1, m, x)"
    using cap_loop_chain [of rd ?s0 dev _ xs 0 0] assms by (auto simp: set_address cap_last_def)
  obtain s2 where "ConfigureMSIRegister rd dev m msg_addr msg_data num s1 = (s2, kSuccess)" and
    "pc_writes s2 = pc_writes s @
      [(conf_address dev m, set_msi_enable (set_multi_msg_enable (min (multi_msg_capable h) num) h)), (conf_address dev (m + 4), msg_addr)] @
         (if bit h 23 then [(conf_address dev (m + 8), conf_reg c dev (m + 8)), (conf_address dev (m + 12), msg_data)]
          else [(conf_address dev (m + 8), msg_data)]) @
         (if bit h 24 then let d = (if bit h 23 then m + 12 else m + 8)
            in [(conf_address dev (d + 4), conf_reg c dev (d + 4)), (conf_address dev (d + 8), conf_reg c dev (d + 8))] else [])"
    using ConfigureMSIRegister_writes [of rd dev m msg_addr msg_data num s1] assms s1(1) by auto
  then show ?thesis using s1 assms(2)
    by (simp add: ConfigureMSI_def ConfigureMSIXRegister_def multi_msg_bits Let_def)
qed

text \<open>A device with two capabilities, the second one MSI with a 64-bit address; sixteen vectors are wanted, four are possible.\<close>

definition msi_device :: conf where
  "msi_device ws a =
     (if a = MakeAddress 0 3 0 0x34 then 0x40 else if a = MakeAddress 0 3 0 0x40 then 0x5001
      else if a = MakeAddress 0 3 0 0x50 then 0x00840005 else 0)"

theorem ConfigureMSI_correct_witness:
  "cap_chain (msi_device []) \<lparr>dv_bus = 0, dv_device = 3, dv_function = 0, dv_header_type = 0, dv_class_code = \<lparr>cc_base = 12, cc_sub = 3, cc_interface = 48\<rparr>\<rparr>
     (ucast (conf_reg (msi_device []) \<lparr>dv_bus = 0, dv_device = 3, dv_function = 0, dv_header_type = 0, dv_class_code = \<lparr>cc_base = 12, cc_sub = 3, cc_interface = 48\<rparr>\<rparr> 0x34 AND 0xff)) [0x40, 0x50] \<and>
   (\<exists>s'. ConfigureMSI msi_device \<lparr>dv_bus = 0, dv_device = 3, dv_function = 0, dv_header_type = 0, dv_class_code = \<lparr>cc_base = 12, cc_sub = 3, cc_interface = 48\<rparr>\<rparr>
      0xfee00000 0x40 4 \<lparr>pc_address = 0, pc_writes = [], pc_devices = [], pc_num_device = 0\<rparr> = Some (s', kSuccess) \<and>
     pc_writes s' = [(0x80001850, 0x00A50005), (0x80001854, 0xfee00000), (0x80001858, 0), (0x8000185c, 0x40)])"
  (is "cap_chain ?c ?d ?a ?xs \<and> _")
proof -
  have chain: "cap_chain ?c ?d ?a ?xs"
    by (simp add: conf_reg_def msi_device_def MakeAddress_def next_ptr_def take_bit_eq_mask mask_eq_exp_minus_1)
  have last: "cap_last ?c ?d kCapabilityMSI ?xs = 0x50" "conf_reg ?c ?d 0x50 = 0x00840005" "conf_reg ?c ?d 0x58 = 0"
    by (simp_all add: cap_last_def conf_reg_def msi_device_def MakeAddress_def cap_id_def kCapabilityMSI_def take_bit_eq_mask mask_eq_exp_minus_1)
  have four: "multi_msg_capable 0x00840005 = 2" by (simp add: multi_msg_capable_def take_bit_eq_mask mask_eq_exp_minus_1)
  from ConfigureMSI_correct [OF chain _ last(1) [symmetric] refl last(2) [symmetric], of msi_device "\<lparr>pc_address = 0, pc_writes = [], pc_devices = [], pc_num_device = 0\<rparr>"
      "0xfee00000" "0x40" 4]
  obtain s' where "ConfigureMSI msi_device ?d 0xfee00000 0x40 4 \<lparr>pc_address = 0, pc_writes = [], pc_devices = [], pc_num_device = 0\<rparr> = Some (s', kSuccess)"
    "pc_writes s' = [(conf_address ?d 0x50, set_msi_enable (set_multi_msg_enable (min 2 4) 0x00840005)), (conf_address ?d 0x54, 0xfee00000),
      (conf_address ?d 0x58, 0), (conf_address ?d 0x5c, 0x40)]"
    by (auto simp: four last(3))
  then show ?thesis using chain
    by (auto simp: conf_address_def MakeAddress_def set_msi_enable_def set_multi_msg_enable_def take_bit_eq_mask mask_eq_exp_minus_1 min_def)
qed

end
