(* ===== verification/UsbMem.thy ===== *)
theory UsbMem
  imports Queue64
begin

text \<open>
  Memory of the USB driver (\<^verbatim>\<open>src/src/usb/memory.{hpp,cpp}\<close>), its map with a fixed number of slots
  (\<^verbatim>\<open>usb/arraymap.hpp\<close>), and the break of the C library (\<^verbatim>\<open>newlib_support.c\<close>). Both allocators hand out memory from low to high addresses and
  never take it back; the locale \<open>bump_allocator\<close> states what follows from this for a sequence of calls. A null pointer is the address 0.
\<close>

section \<open>Allocators that only grow\<close>

text \<open>The blocks a sequence of requests gives, as address and size.\<close>

fun bump_run :: "('r \<Rightarrow> 's \<Rightarrow> 's \<times> u64 option) \<Rightarrow> ('r \<Rightarrow> nat) \<Rightarrow> 'r list \<Rightarrow> 's \<Rightarrow> 's \<times> (nat \<times> nat) list" where
  "bump_run alloc req [] s = (s, [])"
| "bump_run alloc req (r # rs) s =
     (let (s, p) = alloc r s; (s, bs) = bump_run alloc req rs s
      in (s, case p of None \<Rightarrow> bs | Some a \<Rightarrow> (unat a, req r) # bs))"

locale bump_allocator =
  fixes alloc :: "'r \<Rightarrow> 's \<Rightarrow> 's \<times> u64 option"
    and req :: "'r \<Rightarrow> nat"
    and brk :: "'s \<Rightarrow> nat"
    and limit :: "'s \<Rightarrow> nat"
    and ok :: "'s \<Rightarrow> bool"
    and valid :: "'r \<Rightarrow> bool"
  assumes alloc_ok: "ok s \<Longrightarrow> valid r \<Longrightarrow> alloc r s = (s', p) \<Longrightarrow> ok s' \<and> limit s' = limit s \<and> brk s \<le> brk s'"
    and alloc_some: "ok s \<Longrightarrow> valid r \<Longrightarrow> alloc r s = (s', Some a) \<Longrightarrow> brk s \<le> unat a \<and> unat a + req r \<le> brk s' \<and> brk s' \<le> limit s"
begin

lemma run_ok:
  "ok s \<Longrightarrow> \<forall>r\<in>set rs. valid r \<Longrightarrow> bump_run alloc req rs s = (s', bs) \<Longrightarrow>
     ok s' \<and> limit s' = limit s \<and> brk s \<le> brk s' \<and> (\<forall>(a, n)\<in>set bs. brk s \<le> a \<and> a + n \<le> limit s)"
proof (induction rs arbitrary: s s' bs)
  case (Cons r rs)
  obtain s1 p where a: "alloc r s = (s1, p)" by fastforce
  obtain s2 bs2 where r: "bump_run alloc req rs s1 = (s2, bs2)" by fastforce
  have s1: "ok s1" "limit s1 = limit s" "brk s \<le> brk s1" using alloc_ok [OF Cons.prems(1) _ a] Cons.prems(2) by auto
  have "p = Some x \<Longrightarrow> brk s \<le> unat x \<and> unat x + req r \<le> limit s" for x
    using alloc_some [OF Cons.prems(1), of r s1 x] a Cons.prems(2) by force
  moreover have "s' = s2" "bs = (case p of None \<Rightarrow> bs2 | Some x \<Rightarrow> (unat x, req r) # bs2)" using Cons.prems(3) a r by auto
  ultimately show ?case using Cons.IH [OF s1(1) _ r] Cons.prems(2) s1 by (fastforce split: option.splits)
qed auto

text \<open>Any sequence of calls gives blocks in rising order, none of which overlaps another.\<close>

lemma run_apart:
  "ok s \<Longrightarrow> \<forall>r\<in>set rs. valid r \<Longrightarrow> bump_run alloc req rs s = (s', bs) \<Longrightarrow> sorted_wrt (\<lambda>(a, n) (b, m). a + n \<le> b) bs"
proof (induction rs arbitrary: s s' bs)
  case (Cons r rs)
  obtain s1 p where a: "alloc r s = (s1, p)" by fastforce
  obtain s2 bs2 where r: "bump_run alloc req rs s1 = (s2, bs2)" by fastforce
  have s1: "ok s1" using alloc_ok [OF Cons.prems(1) _ a] Cons.prems(2) by auto
  have bs: "bs = (case p of None \<Rightarrow> bs2 | Some x \<Rightarrow> (unat x, req r) # bs2)" using Cons.prems(3) a r by auto
  have "sorted_wrt (\<lambda>(a, n) (b, m). a + n \<le> b) bs2" using Cons.IH [OF s1 _ r] Cons.prems(2) by simp
  moreover have "\<forall>(b, m)\<in>set bs2. brk s1 \<le> b" using run_ok [OF s1 _ r] Cons.prems(2) by auto
  moreover have "unat x + req r \<le> brk s1" if "p = Some x" for x
    using alloc_some [OF Cons.prems(1), of r s1 x] a Cons.prems(2) that by simp
  ultimately show ?case by (fastforce simp: bs split: option.splits)
qed auto

end

section \<open>The memory pool\<close>

definition kMemoryPoolSize :: u64 where "kMemoryPoolSize = 4096 * 1024"

record usbmem =
  um_pool :: u64
  um_alloc_ptr :: u64

definition Ceil :: "u64 \<Rightarrow> u32 \<Rightarrow> u64" where
  "Ceil value alignment = (value + ucast alignment - 1) AND NOT (ucast (alignment - 1))"

definition MaskBits :: "u64 \<Rightarrow> u32 \<Rightarrow> u64" where
  "MaskBits value msk = value AND NOT (ucast (msk - 1))"

definition AllocMem :: "u64 \<Rightarrow> u32 \<Rightarrow> u32 \<Rightarrow> usbmem \<Rightarrow> usbmem \<times> u64" where
  "AllocMem sz alignment boundary s =
     (let s = (if alignment > 0 then s\<lparr>um_alloc_ptr := Ceil (um_alloc_ptr s) alignment\<rparr> else s);
          s = (if boundary > 0
            then (let next_boundary = Ceil (um_alloc_ptr s) boundary
                  in if next_boundary < um_alloc_ptr s + sz then s\<lparr>um_alloc_ptr := next_boundary\<rparr> else s)
            else s)
      in if um_pool s + kMemoryPoolSize < um_alloc_ptr s + sz then (s, 0)
         else (s\<lparr>um_alloc_ptr := um_alloc_ptr s + sz\<rparr>, um_alloc_ptr s))"

definition FreeMem :: "u64 \<Rightarrow> usbmem \<Rightarrow> usbmem" where
  "FreeMem p s = s"

definition AllocArray :: "u64 \<Rightarrow> u64 \<Rightarrow> u32 \<Rightarrow> u32 \<Rightarrow> usbmem \<Rightarrow> usbmem \<times> u64" where
  "AllocArray size_of_T num_obj alignment boundary s = AllocMem (size_of_T * num_obj) alignment boundary s"

section \<open>The break of the C library\<close>

record newlib =
  nl_break :: u64
  nl_break_end :: u64
  nl_errno :: int

definition ENOMEM64 :: int where "ENOMEM64 = 12"

definition sbrk :: "int \<Rightarrow> newlib \<Rightarrow> newlib \<times> u64" where
  "sbrk incr s =
     (if nl_break s = 0 \<or> nl_break s + word_of_int incr \<ge> nl_break_end s then (s\<lparr>nl_errno := ENOMEM64\<rparr>, - 1)
      else (s\<lparr>nl_break := nl_break s + word_of_int incr\<rparr>, nl_break s))"

section \<open>The map\<close>

type_synonym ('k, 'v) ArrayMap = "('k option \<times> 'v) list"

fun Get :: "'k \<Rightarrow> ('k, 'v) ArrayMap \<Rightarrow> 'v option" where
  "Get key [] = None"
| "Get key ((k, v) # t) = (if k = Some key then Some v else Get key t)"

fun Put :: "'k \<Rightarrow> 'v \<Rightarrow> ('k, 'v) ArrayMap \<Rightarrow> ('k, 'v) ArrayMap" where
  "Put key value [] = []"
| "Put key value ((k, v) # t) = (if k = None then (Some key, value) # t else (k, v) # Put key value t)"

fun Delete :: "'k \<Rightarrow> ('k, 'v) ArrayMap \<Rightarrow> ('k, 'v) ArrayMap" where
  "Delete key [] = []"
| "Delete key ((k, v) # t) = (if k = Some key then (None, v) # t else (k, v) # Delete key t)"

section \<open>Rounding up\<close>

lemma and_not_mask_unat:
  fixes x :: "'a::len word"
  shows "unat (x AND NOT (mask k)) = unat x div 2 ^ k * 2 ^ k"
proof -
  have "x AND NOT (mask k) = x AND NOT (take_bit k x)" by (rule bit_eqI) (auto simp: bit_simps)
  also have "\<dots> = x - take_bit k x"
  proof -
    have "NOT x AND take_bit k x = 0" by (rule bit_eqI) (auto simp: bit_simps)
    then show ?thesis by (simp add: disjunctive_diff_eq_and_not)
  qed
  finally have e: "x AND NOT (mask k) = x - take_bit k x" .
  have t: "unat (take_bit k x) = unat x mod 2 ^ k" by (subst unsigned_take_bit_eq) (simp add: take_bit_eq_mod)
  show ?thesis unfolding e by (subst unat_sub_nowrap) (simp_all only: t mod_less_eq_dividend minus_mod_eq_div_mult)
qed

lemma mask_32_64:
  assumes "k < 32"
  shows "(ucast ((2 :: u32) ^ k - 1) :: u64) = mask k" "unat (ucast ((2 :: u32) ^ k) :: u64) = 2 ^ k" "unat ((2 :: u32) ^ k) = 2 ^ k"
proof -
  have "(2 :: u32) ^ k - 1 = mask k" by (simp add: mask_eq_exp_minus_1)
  then show "(ucast ((2 :: u32) ^ k - 1) :: u64) = mask k"
    using assms by (auto intro!: bit_eqI simp: bit_simps)
  have "(2 :: nat) ^ k < 2 ^ 32" using assms by (intro power_strict_increasing) simp_all
  then show "unat ((2 :: u32) ^ k) = 2 ^ k" using unat_of_nat_small [of "2 ^ k", where ?'a = 32] by simp
  moreover have "(2 :: nat) ^ k < 2 ^ 64" using assms by (intro power_strict_increasing) simp_all
  ultimately show "unat (ucast ((2 :: u32) ^ k) :: u64) = 2 ^ k" by (simp add: unsigned_ucast_eq take_bit_eq_mod)
qed

definition round_up :: "nat \<Rightarrow> nat \<Rightarrow> nat" where
  "round_up n a = (n + a - 1) div a * a"

lemma round_up:
  assumes "0 < a"
  shows "a dvd round_up n a" "n \<le> round_up n a" "round_up n a < n + a" "a dvd q \<Longrightarrow> n \<le> q \<Longrightarrow> round_up n a \<le> q"
proof -
  have d: "n + a - 1 = round_up n a + (n + a - 1) mod a" "(n + a - 1) mod a < a"
    using assms by (simp_all add: round_up_def)
  show "a dvd round_up n a" by (simp add: round_up_def)
  show r: "n \<le> round_up n a" "round_up n a < n + a" using d assms by linarith+
  assume q: "a dvd q" "n \<le> q"
  have "(n + a - 1) div a \<le> (q + a - 1) div a" using q(2) by (intro div_le_mono) simp
  also have "(q + a - 1) div a = q div a"
  proof -
    obtain m where "q = a * m" using q(1) by auto
    then have "q + a - 1 = (a - 1) + m * a" using assms by (simp add: mult.commute)
    moreover have "((a - 1) + m * a) div a = m" using assms by (subst div_mult_self1) simp_all
    ultimately have "(q + a - 1) div a = m" by simp
    then show ?thesis using \<open>q = a * m\<close> assms by simp
  qed
  finally show "round_up n a \<le> q" using q(1) by (simp add: round_up_def) (metis dvd_div_mult_self mult_le_mono1)
qed

lemma Ceil_unat:
  assumes "k < 32" "unat v + 2 ^ k \<le> 2 ^ 64"
  shows "unat (Ceil v (2 ^ k)) = round_up (unat v) (2 ^ k)"
proof -
  have "unat (v + ucast ((2 :: u32) ^ k) - 1) = unat v + 2 ^ k - 1"
  proof -
    have "v + ucast ((2 :: u32) ^ k) - 1 = v + (ucast ((2 :: u32) ^ k) - 1)" by simp
    moreover have "unat (ucast ((2 :: u32) ^ k) - 1 :: u64) = 2 ^ k - 1"
      using mask_32_64 [OF assms(1)] by (subst unat_sub_nowrap) simp_all
    moreover have "unat v + (2 ^ k - 1) < 2 ^ 64" using assms(2) by (simp add: le_less_trans less_le_trans)
    ultimately show ?thesis using unat_add_nowrap [of v "ucast ((2 :: u32) ^ k) - 1"] by (simp only:) simp
  qed
  then show ?thesis
    using mask_32_64(1) [OF assms(1)] by (simp add: Ceil_def and_not_mask_unat round_up_def)
qed

section \<open>What the pool hands out\<close>

definition pow2 :: "u32 \<Rightarrow> bool" where
  "pow2 a \<longleftrightarrow> a = 0 \<or> (\<exists>k < 32. a = 2 ^ k)"

text \<open>The allocation pointer stays below the first multiple of 2 GiB behind the pool, where every smaller boundary has a multiple.\<close>

definition um_ok :: "usbmem \<Rightarrow> bool" where
  "um_ok s \<longleftrightarrow> 0 < unat (um_pool s) \<and> unat (um_pool s) + 2 ^ 22 \<le> 2 ^ 63 \<and> unat (um_pool s) \<le> unat (um_alloc_ptr s) \<and>
     unat (um_alloc_ptr s) \<le> round_up (unat (um_pool s) + 2 ^ 22) (2 ^ 31)"

text \<open>A place for a block: aligned, and not across a boundary.\<close>

definition fits_at :: "nat \<Rightarrow> nat \<Rightarrow> nat \<Rightarrow> nat \<Rightarrow> bool" where
  "fits_at n a b q \<longleftrightarrow> a dvd q \<and> (0 < b \<longrightarrow> q div b = (q + n - 1) div b)"

definition valid_req :: "u64 \<times> u32 \<times> u32 \<Rightarrow> bool" where
  "valid_req = (\<lambda>(sz, al, bd). 0 < sz \<and> sz < 2 ^ 32 \<and> pow2 al \<and> pow2 bd \<and> (bd = 0 \<or> al \<le> bd \<and> sz \<le> ucast bd))"

lemma div_same_iff:
  assumes "0 < b" "0 < n"
  shows "q div b = (q + n - 1) div b \<longleftrightarrow> q + n \<le> (q div b + 1) * (b :: nat)"
proof
  have "q \<le> q + n - 1" using assms(2) by simp
  then have le: "q div b \<le> (q + n - 1) div b" by (rule div_le_mono)
  show "q + n \<le> (q div b + 1) * b" if "q div b = (q + n - 1) div b"
  proof -
    have "q + n - 1 < ((q + n - 1) div b + 1) * b" using assms(1) by (simp add: dividend_less_div_times)
    then show ?thesis unfolding that using assms(2) by linarith
  qed
  assume "q + n \<le> (q div b + 1) * b"
  then have "q + n - 1 < (q div b + 1) * b" using assms(2) by linarith
  then have "(q + n - 1) div b < q div b + 1" using assms(1) by (simp add: less_mult_imp_div_less)
  then show "q div b = (q + n - 1) div b" using le by simp
qed

text \<open>The place next to the boundary if the block would cross it, otherwise the first aligned one, is the first place there is.\<close>

lemma place_first:
  fixes p n a b :: nat
  assumes "0 < a" "0 < b" "a dvd b" "0 < n" "n \<le> b" and c: "c = (if round_up (round_up p a) b < round_up p a + n then round_up (round_up p a) b else round_up p a)"
  shows "p \<le> c" "fits_at n a b c" "p \<le> q \<Longrightarrow> fits_at n a b q \<Longrightarrow> c \<le> q"
proof -
  let ?x = "round_up p a" and ?y = "round_up (round_up p a) b"
  note X = round_up [OF assms(1), where n = p] and Y = round_up [OF assms(2), where n = ?x]
  show "p \<le> c" using X(2) Y(2) unfolding c by (simp split: if_split)
  obtain m where m: "?y = b * m" using Y(1) by auto
  show "fits_at n a b c"
  proof (cases "?y < ?x + n")
    case True
    have "?y + n \<le> (?y div b + 1) * b" using m assms(2,5) by simp
    then have "?y div b = (?y + n - 1) div b" using div_same_iff [OF assms(2,4)] by blast
    then show ?thesis using True c dvd_trans [OF assms(3) Y(1)] by (simp add: fits_at_def)
  next
    case False
    then have "?x < ?y" "0 < m" using assms(4) m by (auto intro: Nat.gr0I)
    moreover have "(m - 1) * b = b * m - b" by (simp add: diff_mult_distrib2 mult.commute)
    ultimately have "(m - 1) * b \<le> ?x" "?x < m * b" using Y(3) m by (auto simp: mult.commute)
    then have "?x div b = m - 1"
      using assms(2) \<open>0 < m\<close> by (intro div_nat_eqI) (simp_all add: mult.commute)
    then have "?x + n \<le> (?x div b + 1) * b" using False m \<open>0 < m\<close> by (simp add: mult.commute)
    then have "?x div b = (?x + n - 1) div b" using div_same_iff [OF assms(2,4)] by blast
    then show ?thesis using False c X(1) by (simp add: fits_at_def)
  qed
  assume q: "p \<le> q" "fits_at n a b q"
  then have xq: "?x \<le> q" using X(4) by (simp add: fits_at_def)
  show "c \<le> q"
  proof (cases "?y < ?x + n")
    case True
    have "m \<le> q div b"
    proof (rule ccontr)
      assume "\<not> m \<le> q div b"
      then have "(q div b + 1) * b \<le> m * b" by (intro mult_le_mono1) simp
      moreover have "q + n \<le> (q div b + 1) * b" using q(2) assms(2) div_same_iff [OF assms(2,4), of q] by (simp add: fits_at_def)
      ultimately show False using True m xq by (simp add: mult.commute)
    qed
    then have "b * m \<le> q" by (metis div_times_less_eq_dividend le_trans mult.commute mult_le_mono2)
    then show ?thesis using True m c by simp
  next
    case False
    then show ?thesis using c xq by simp
  qed
qed

text \<open>The address the code tries, as a number.\<close>

definition place :: "nat \<Rightarrow> nat \<Rightarrow> nat \<Rightarrow> nat \<Rightarrow> nat" where
  "place p n a b = (let x = (if 0 < a then round_up p a else p) in if 0 < b then (let y = round_up x b in if y < x + n then y else x) else x)"

lemma Ceil_below:
  assumes "pow2 a" "0 < a" "unat v \<le> round_up e (2 ^ 31)" "round_up e (2 ^ 31) + 2 ^ 31 \<le> 2 ^ 64"
  shows "unat (Ceil v a) = round_up (unat v) (unat a)" "unat (Ceil v a) \<le> round_up e (2 ^ 31)" "unat v \<le> unat (Ceil v a)"
proof -
  obtain k where k: "k < 32" "a = 2 ^ k" using assms(1,2) by (auto simp: pow2_def)
  have le: "(2 :: nat) ^ k \<le> 2 ^ 31" using k(1) by (intro power_increasing) simp_all
  have a: "unat a = 2 ^ k" using k mask_32_64(3) by simp
  show c: "unat (Ceil v a) = round_up (unat v) (unat a)"
    unfolding a unfolding k(2) using k(1) le assms(3,4) by (intro Ceil_unat) simp_all
  have "(2 :: nat) ^ k dvd 2 ^ 31" using k(1) by (intro le_imp_power_dvd) simp
  then have "2 ^ k dvd round_up e (2 ^ 31)" using round_up(1) [of "2 ^ 31" e] by (meson dvd_trans zero_less_numeral zero_less_power)
  then show "unat (Ceil v a) \<le> round_up e (2 ^ 31)" "unat v \<le> unat (Ceil v a)"
    using c a assms(3) round_up(2,4) [of "2 ^ k"] by simp_all
qed

lemma AllocMem_place:
  assumes ok: "um_ok s" and r: "valid_req (sz, al, bd)" and A: "AllocMem sz al bd s = (s', p)"
    and c: "c = place (unat (um_alloc_ptr s)) (unat sz) (unat al) (unat bd)"
  shows "um_ok s' \<and> um_pool s' = um_pool s \<and> unat (um_alloc_ptr s) \<le> c \<and> unat (um_alloc_ptr s) \<le> unat (um_alloc_ptr s') \<and>
    (if c + unat sz \<le> unat (um_pool s) + 2 ^ 22 then 0 < c \<and> unat p = c \<and> unat (um_alloc_ptr s') = c + unat sz else p = 0)"
proof -
  let ?R = "round_up (unat (um_pool s) + 2 ^ 22) (2 ^ 31)"
  have R: "?R + 2 ^ 31 \<le> 2 ^ 64" "?R + 2 ^ 32 \<le> 2 ^ 64" using ok round_up(3) [of "2 ^ 31" "unat (um_pool s) + 2 ^ 22"] by (auto simp: um_ok_def)
  have sz: "unat sz < 2 ^ 32" using r by (simp add: valid_req_def word_less_nat_alt)
  note C = Ceil_below [OF _ _ _ R(1)]
  define x where "x = (if al > 0 then Ceil (um_alloc_ptr s) al else um_alloc_ptr s)"
  have x: "unat x = (if 0 < unat al then round_up (unat (um_alloc_ptr s)) (unat al) else unat (um_alloc_ptr s))" "unat x \<le> ?R" "unat (um_alloc_ptr s) \<le> unat x"
    using ok r C [of al "um_alloc_ptr s"] by (auto simp: x_def um_ok_def valid_req_def word_less_nat_alt unat_gt_0)
  have plus: "unat (v + sz) = unat v + unat sz" if "unat v \<le> ?R" for v
    using that R(2) sz by (intro unat_add_nowrap) simp
  define y where "y = (if bd > 0 then (let nb = Ceil x bd in if nb < x + sz then nb else x) else x)"
  have y: "unat y = c" "unat y \<le> ?R" "unat x \<le> unat y"
    using x r C [of bd x] plus [OF x(2)]
    by (auto simp: y_def c place_def valid_req_def Let_def word_less_nat_alt unat_gt_0)
  have pool: "unat (um_pool s + kMemoryPoolSize) = unat (um_pool s) + 2 ^ 22"
    using ok by (subst unat_add_nowrap) (simp_all add: um_ok_def kMemoryPoolSize_def)
  have "(s', p) = (if um_pool s + kMemoryPoolSize < y + sz then (s\<lparr>um_alloc_ptr := y\<rparr>, 0) else (s\<lparr>um_alloc_ptr := y + sz\<rparr>, y))"
    unfolding A [symmetric] by (simp add: AllocMem_def x_def y_def Let_def)
  moreover have "um_pool s + kMemoryPoolSize < y + sz \<longleftrightarrow> \<not> c + unat sz \<le> unat (um_pool s) + 2 ^ 22"
    using plus [OF y(2)] y(1) pool by (simp add: word_less_nat_alt not_le)
  moreover have "unat (um_pool s) + 2 ^ 22 \<le> ?R" by (simp add: round_up(2))
  ultimately show ?thesis using ok x y plus [OF y(2)] by (auto simp: um_ok_def split: if_splits)
qed

lemma unat_ucast_64: "unat (ucast (x :: u32) :: u64) = unat x"
  by transfer simp

lemma place_correct:
  assumes "valid_req (sz, al, bd)" "c = place p (unat sz) (unat al) (unat bd)"
  shows "p \<le> c" "fits_at (unat sz) (Orderings.max 1 (unat al)) (unat bd) c"
    "p \<le> q \<Longrightarrow> fits_at (unat sz) (Orderings.max 1 (unat al)) (unat bd) q \<Longrightarrow> c \<le> q"
proof -
  define a where "a = Orderings.max 1 (unat al)"
  have one: "round_up p 1 = p" by (simp add: round_up_def)
  have x: "(if 0 < unat al then round_up p (unat al) else p) = round_up p a" using one by (auto simp: a_def max_def)
  have a: "0 < a" by (simp add: a_def)
  have sz: "0 < unat sz" using assms(1) by (auto simp: valid_req_def unat_gt_0)
  have "p \<le> c \<and> fits_at (unat sz) a (unat bd) c \<and> (p \<le> q \<longrightarrow> fits_at (unat sz) a (unat bd) q \<longrightarrow> c \<le> q)"
  proof (cases "bd = 0")
    case True
    then have "c = round_up p a" using assms(2) x by (simp add: place_def Let_def)
    then show ?thesis using round_up [OF a] True by (auto simp: fits_at_def)
  next
    case False
    then obtain j where j: "j < 32" "bd = 2 ^ j" using assms(1) by (auto simp: valid_req_def pow2_def)
    have n: "unat sz \<le> unat bd" using assms(1) False by (auto simp: valid_req_def word_le_nat_alt unat_ucast_64)
    have "a dvd unat bd"
    proof (cases "al = 0")
      case False
      then obtain k where k: "k < 32" "al = 2 ^ k" using assms(1) by (auto simp: valid_req_def pow2_def)
      have "(2 :: nat) ^ k \<le> 2 ^ j" using assms(1) \<open>bd \<noteq> 0\<close> k j by (auto simp: valid_req_def word_le_nat_alt mask_32_64(3))
      then have "k \<le> j" by simp
      then show ?thesis using k j by (simp add: a_def mask_32_64(3) max_def le_imp_power_dvd)
    qed (simp add: a_def)
    moreover have "c = (if round_up (round_up p a) (unat bd) < round_up p a + unat sz then round_up (round_up p a) (unat bd) else round_up p a)"
      using assms(2) x False by (simp add: place_def Let_def unat_gt_0)
    ultimately show ?thesis using place_first [OF a _ _ sz n] False by (simp add: unat_gt_0)
  qed
  then show "p \<le> c" "fits_at (unat sz) (Orderings.max 1 (unat al)) (unat bd) c"
    "p \<le> q \<Longrightarrow> fits_at (unat sz) (Orderings.max 1 (unat al)) (unat bd) q \<Longrightarrow> c \<le> q" by (simp_all add: a_def)
qed

definition usb_alloc :: "u64 \<times> u32 \<times> u32 \<Rightarrow> usbmem \<Rightarrow> usbmem \<times> u64 option" where
  "usb_alloc = (\<lambda>(sz, al, bd) s. let (s, p) = AllocMem sz al bd s in (s, if p = 0 then None else Some p))"

interpretation pool: bump_allocator usb_alloc "\<lambda>(sz, al, bd). unat sz" "\<lambda>s. unat (um_alloc_ptr s)" "\<lambda>s. unat (um_pool s) + 2 ^ 22" um_ok valid_req
proof
  fix s s' :: usbmem and r :: "u64 \<times> u32 \<times> u32" and p
  obtain sz al bd where r: "r = (sz, al, bd)" by (cases r)
  obtain t q where A: "AllocMem sz al bd s = (t, q)" by fastforce
  assume *: "um_ok s" "valid_req r"
  note P = AllocMem_place [OF *(1) *(2) [unfolded r] A refl]
  show "um_ok s' \<and> unat (um_pool s') + 2 ^ 22 = unat (um_pool s) + 2 ^ 22 \<and> unat (um_alloc_ptr s) \<le> unat (um_alloc_ptr s')"
    if "usb_alloc r s = (s', p)" using that P A r by (auto simp: usb_alloc_def)
  show "unat (um_alloc_ptr s) \<le> unat a \<and> unat a + (case r of (sz, al, bd) \<Rightarrow> unat sz) \<le> unat (um_alloc_ptr s') \<and>
      unat (um_alloc_ptr s') \<le> unat (um_pool s) + 2 ^ 22"
    if "usb_alloc r s = (s', Some a)" for a using that P A r by (auto simp: usb_alloc_def split: if_splits)
qed

text \<open>
  C30: The memory pool of the USB driver: a request for a block with an alignment and a boundary, powers of two, is answered with the first place behind the blocks
  handed out so far that is aligned and where the block does not cross a multiple of the boundary, and with null exactly if there is no such place in
  the pool; and the blocks of any sequence of requests lie in the pool and do not overlap.
\<close>

theorem AllocMem_correct:
  assumes "um_ok s" "valid_req (sz, al, bd)" "\<forall>r\<in>set rs. valid_req r"
    and "a = Orderings.max 1 (unat al)" "e = unat (um_pool s) + 2 ^ 22"
  shows "\<exists>s' p. AllocMem sz al bd s = (s', p) \<and> um_ok s' \<and>
      (if \<exists>q. unat (um_alloc_ptr s) \<le> q \<and> fits_at (unat sz) a (unat bd) q \<and> q + unat sz \<le> e
       then p \<noteq> 0 \<and> unat (um_alloc_ptr s) \<le> unat p \<and> fits_at (unat sz) a (unat bd) (unat p) \<and> unat p + unat sz \<le> e \<and>
         (\<forall>q. unat (um_alloc_ptr s) \<le> q \<and> fits_at (unat sz) a (unat bd) q \<longrightarrow> unat p \<le> q)
       else p = 0) \<and>
    (\<exists>s' bs. bump_run usb_alloc (\<lambda>(sz, al, bd). unat sz) rs s = (s', bs) \<and>
      (\<forall>(p, n)\<in>set bs. unat (um_alloc_ptr s) \<le> p \<and> p + n \<le> e) \<and> sorted_wrt (\<lambda>(p, n) (q, m). p + n \<le> q) bs)"
proof -
  obtain s' p where A: "AllocMem sz al bd s = (s', p)" by fastforce
  define c where "c = place (unat (um_alloc_ptr s)) (unat sz) (unat al) (unat bd)"
  note P = AllocMem_place [OF assms(1,2) A c_def]
  note F = place_correct [OF assms(2) c_def, folded assms(4)]
  obtain t bs where B: "bump_run usb_alloc (\<lambda>(sz, al, bd). unat sz) rs s = (t, bs)" by fastforce
  have "c + unat sz \<le> e \<longleftrightarrow> (\<exists>q. unat (um_alloc_ptr s) \<le> q \<and> fits_at (unat sz) a (unat bd) q \<and> q + unat sz \<le> e)"
    using F(1,2) F(3) by (meson add_le_mono1 le_trans)
  then have "um_ok s' \<and> (if \<exists>q. unat (um_alloc_ptr s) \<le> q \<and> fits_at (unat sz) a (unat bd) q \<and> q + unat sz \<le> e
       then p \<noteq> 0 \<and> unat (um_alloc_ptr s) \<le> unat p \<and> fits_at (unat sz) a (unat bd) (unat p) \<and> unat p + unat sz \<le> e \<and>
         (\<forall>q. unat (um_alloc_ptr s) \<le> q \<and> fits_at (unat sz) a (unat bd) q \<longrightarrow> unat p \<le> q)
       else p = 0)"
    using P F assms(5) by (auto split: if_splits)
  moreover have "\<forall>(p, n)\<in>set bs. unat (um_alloc_ptr s) \<le> p \<and> p + n \<le> e" using pool.run_ok [OF assms(1,3) B] assms(5) by simp
  ultimately show ?thesis using A B pool.run_apart [OF assms(1,3) B] by blast
qed

theorem AllocMem_correct_witness:
  "um_ok \<lparr>um_pool = 0x100000, um_alloc_ptr = 0x100008\<rparr> \<and> valid_req (4096, 4096, 4096) \<and>
   (\<exists>s' p. AllocMem 4096 4096 4096 \<lparr>um_pool = 0x100000, um_alloc_ptr = 0x100008\<rparr> = (s', p) \<and> um_ok s' \<and> unat p \<le> 0x102000)"
proof -
  have r: "valid_req (4096, 4096, 4096)" by (simp add: valid_req_def pow2_def) (rule exI [of _ 12], simp)
  have ok: "um_ok \<lparr>um_pool = 0x100000, um_alloc_ptr = 0x100008\<rparr>" by (simp add: um_ok_def round_up_def)
  let ?s = "\<lparr>um_pool = 0x100000, um_alloc_ptr = 0x100008\<rparr> :: usbmem"
  have f: "unat (um_alloc_ptr ?s) \<le> 0x102000" "fits_at (unat (4096 :: u64)) 4096 (unat (4096 :: u32)) 0x102000" "0x102000 + unat (4096 :: u64) \<le> 0x500000"
    by (simp_all add: fits_at_def)
  obtain s' p where "AllocMem 4096 4096 4096 ?s = (s', p)" "um_ok s'"
    "\<forall>q. unat (um_alloc_ptr ?s) \<le> q \<and> fits_at (unat (4096 :: u64)) 4096 (unat (4096 :: u32)) q \<longrightarrow> unat p \<le> q"
    using AllocMem_correct [OF ok r, of "[]" 4096 "0x500000"] f by (auto split: if_splits)
  then show ?thesis using f r ok by blast
qed

text \<open>The break only grows, too.\<close>

definition brk_alloc :: "int \<Rightarrow> newlib \<Rightarrow> newlib \<times> u64 option" where
  "brk_alloc incr s = (let (s, p) = sbrk incr s in (s, if p = - 1 then None else Some p))"

definition brk_ok :: "newlib \<Rightarrow> bool" where
  "brk_ok s \<longleftrightarrow> unat (nl_break s) \<le> unat (nl_break_end s) \<and> unat (nl_break_end s) \<le> 2 ^ 63"

interpretation cbrk: bump_allocator brk_alloc nat "\<lambda>s. unat (nl_break s)" "\<lambda>s. unat (nl_break_end s)" brk_ok "\<lambda>i. 0 \<le> i \<and> i < 2 ^ 31"
proof -
  have plus: "unat (nl_break s + word_of_int i) = unat (nl_break s) + nat i" if "brk_ok s" "0 \<le> i \<and> i < 2 ^ 31" for s i
  proof -
    have "unat (word_of_int i :: u64) = nat i" using that(2) by (simp add: unsigned_of_int take_bit_int_eq_self)
    then show ?thesis using that by (subst unat_add_nowrap) (auto simp: brk_ok_def)
  qed
  show "bump_allocator brk_alloc nat (\<lambda>s. unat (nl_break s)) (\<lambda>s. unat (nl_break_end s)) brk_ok (\<lambda>i. 0 \<le> i \<and> i < 2 ^ 31)"
    by unfold_locales (auto simp: brk_alloc_def sbrk_def brk_ok_def plus word_le_nat_alt split: if_splits)
qed

text \<open>Nothing in the kernel sets the break, so it is null and every request of the C library for memory fails.\<close>

lemma sbrk_unset: "nl_break s = 0 \<Longrightarrow> sbrk incr s = (s\<lparr>nl_errno := ENOMEM64\<rparr>, - 1)"
  by (simp add: sbrk_def)

section \<open>The map as a map\<close>

definition keys :: "('k, 'v) ArrayMap \<Rightarrow> 'k list" where
  "keys t = List.map_filter fst t"

definition has_slot :: "('k, 'v) ArrayMap \<Rightarrow> bool" where
  "has_slot t \<longleftrightarrow> None \<in> fst ` set t"

lemma keys_simps [simp]: "keys [] = []" "keys ((None, v) # t) = keys t" "keys ((Some k, v) # t) = k # keys t"
  by (simp_all add: keys_def map_filter_simps)

lemma Get_None: "Get k t = None \<longleftrightarrow> k \<notin> set (keys t)"
proof (induction t)
  case (Cons x t)
  then show ?case by (cases x; cases "fst x") auto
qed simp

lemma keys_Put: "has_slot t \<Longrightarrow> set (keys (Put k v t)) = insert k (set (keys t))"
  "has_slot t \<Longrightarrow> k \<notin> set (keys t) \<Longrightarrow> distinct (keys t) \<Longrightarrow> distinct (keys (Put k v t))"
proof -
  show s: "has_slot t \<Longrightarrow> set (keys (Put k v t)) = insert k (set (keys t))" for t :: "('a, 'b) ArrayMap"
  proof (induction t)
    case (Cons x t)
    then show ?case by (cases x; cases "fst x") (auto simp: has_slot_def)
  qed (simp add: has_slot_def)
  show "has_slot t \<Longrightarrow> k \<notin> set (keys t) \<Longrightarrow> distinct (keys t) \<Longrightarrow> distinct (keys (Put k v t))"
  proof (induction t)
    case (Cons x t)
    then show ?case using s [of t] by (cases x; cases "fst x") (auto simp: has_slot_def)
  qed (simp add: has_slot_def)
qed

lemma Put_twice: "has_slot t \<Longrightarrow> k \<in> set (keys t) \<Longrightarrow> k \<in> set (keys (Delete k (Put k v t)))"
proof (induction t)
  case (Cons x t)
  have "has_slot t \<Longrightarrow> k \<in> set (keys (Put k v t))" using keys_Put(1) [of t k v] by simp
  with Cons show ?case by (cases x; cases "fst x") (auto simp: has_slot_def)
qed simp

lemma Get_Put: "has_slot t \<Longrightarrow> k \<notin> set (keys t) \<Longrightarrow> Get j (Put k v t) = (if j = k then Some v else Get j t)"
proof (induction t)
  case (Cons x t)
  then show ?case by (cases x; cases "fst x") (auto simp: has_slot_def)
qed (simp add: has_slot_def)

lemma Put_full: "\<not> has_slot t \<Longrightarrow> Put k v t = t"
proof (induction t)
  case (Cons x t)
  then show ?case by (cases x) (auto simp: has_slot_def)
qed simp

lemma Get_Delete: "distinct (keys t) \<Longrightarrow> Get j (Delete k t) = (if j = k then None else Get j t)"
proof (induction t)
  case (Cons x t)
  then show ?case by (cases x; cases "fst x") (auto simp: Get_None)
qed simp

lemma keys_Delete: "set (keys (Delete k t)) \<subseteq> set (keys t)" "distinct (keys t) \<Longrightarrow> distinct (keys (Delete k t))"
proof -
  show s: "set (keys (Delete k t)) \<subseteq> set (keys t)" for t :: "('a, 'b) ArrayMap"
  proof (induction t)
    case (Cons x t)
    then show ?case by (cases x; cases "fst x") auto
  qed simp
  show "distinct (keys t) \<Longrightarrow> distinct (keys (Delete k t))"
  proof (induction t)
    case (Cons x t)
    then show ?case using s [of t] by (cases x; cases "fst x") auto
  qed simp
qed

lemma Delete_slot: "k \<in> set (keys t) \<Longrightarrow> has_slot (Delete k t)"
proof (induction t)
  case (Cons x t)
  then show ?case by (cases x; cases "fst x") (auto simp: has_slot_def)
qed simp

text \<open>
  The map with a fixed number of slots is a partial map as long as no key is put twice: looking a key up after a put gives the new value for this key and the old one
  for the others, after a delete nothing for this key, and the slot is free again. A put into a full map is lost without a message; a key that is put
  twice takes two slots and is still there after a delete.
\<close>

theorem ArrayMap_correct:
  assumes "distinct (keys t)"
  shows "(if \<not> has_slot t then Put k v t = t
      else if k \<in> set (keys t) then Get k (Delete k (Put k v t)) \<noteq> None
      else distinct (keys (Put k v t)) \<and> (\<lambda>j. Get j (Put k v t)) = (\<lambda>j. Get j t)(k \<mapsto> v)) \<and>
    distinct (keys (Delete k t)) \<and> (\<lambda>j. Get j (Delete k t)) = (\<lambda>j. Get j t)(k := None) \<and>
    (k \<in> set (keys t) \<longrightarrow> has_slot (Delete k t))"
  using assms keys_Put(2) [of t k v] Put_twice [of t k v]
  by (auto simp: Put_full Get_Put Get_Delete keys_Delete Delete_slot Get_None fun_eq_iff simp del: not_None_eq)

theorem ArrayMap_correct_witness:
  "distinct (keys [(Some (3 :: nat), ''a''), (None, [])]) \<and>
   (\<lambda>j. Get j (Put 5 ''b'' [(Some (3 :: nat), ''a''), (None, [])])) = (\<lambda>j. Get j [(Some (3 :: nat), ''a''), (None, [])])(5 \<mapsto> ''b'')"
  using ArrayMap_correct [of "[(Some (3 :: nat), ''a''), (None, [])]" 5 "''b''"] by (simp add: has_slot_def)

end
