(* ===== verification/Bitfields.thy ===== *)
theory Bitfields
  imports UsbMem
begin

text \<open>
  The bit fields of the unions of the USB driver, and the registers of the host controller (\<^verbatim>\<open>src/src/usb/xhci/registers.hpp\<close>, \<^verbatim>\<open>usb/xhci/context.hpp\<close>). A field
  is given by its width and its position; unnamed fields are the gaps. A union is the word, or the record of words, it overlays.
\<close>

section \<open>Bit fields\<close>

definition get_field :: "nat \<Rightarrow> nat \<Rightarrow> 'a::len word \<Rightarrow> 'a word" where
  "get_field w p x = take_bit w (drop_bit p x)"

definition put_field :: "nat \<Rightarrow> nat \<Rightarrow> 'a::len word \<Rightarrow> 'a word \<Rightarrow> 'a word" where
  "put_field w p v x = (x AND NOT (push_bit p (mask w))) OR push_bit p (take_bit w v)"

lemma bit_get_field: "bit (get_field w p x) n \<longleftrightarrow> n < w \<and> bit x (p + n)"
  by (simp add: get_field_def bit_simps)

lemma bit_put_field:
  fixes x :: "'a::len word"
  shows "bit (put_field w p v x) n \<longleftrightarrow> n < LENGTH('a) \<and> (if p \<le> n \<and> n < p + w then bit v (n - p) else bit x n)"
proof (cases "n < LENGTH('a)")
  case True
  then show ?thesis by (auto simp: put_field_def bit_simps)
next
  case False
  then show ?thesis using bit_imp_le_length [of "put_field w p v x" n] by blast
qed

lemma get_put_field:
  fixes x :: "'a::len word"
  shows "p + w \<le> LENGTH('a) \<Longrightarrow> get_field w p (put_field w p v x) = take_bit w v"
  by (rule bit_eqI) (auto simp: bit_get_field bit_put_field bit_simps)

lemma get_put_other:
  fixes x :: "'a::len word"
  shows "p + w \<le> q \<or> q + u \<le> p \<Longrightarrow> get_field u q (put_field w p v x) = get_field u q x"
  by (rule bit_eqI) (auto simp: bit_get_field bit_put_field bit_imp_le_length)

lemma field_pointer:
  fixes v x :: u64
  assumes "p + w = 64" "take_bit p v = 0"
  shows "push_bit p (get_field w p (put_field w p (drop_bit p v) x)) = v"
proof (rule bit_eqI)
  fix n assume "possible_bit TYPE(64 word) n"
  then have n: "n < 64" by (simp add: possible_bit_word)
  have "n < p \<Longrightarrow> \<not> bit v n" using assms(2) by (metis bit_0_eq bit_take_bit_iff bot_apply bot_bool_def)
  then show "bit (push_bit p (get_field w p (put_field w p (drop_bit p v) x))) n \<longleftrightarrow> bit v n"
    using n assms(1) by (cases "n < p") (auto simp: bit_simps bit_get_field bit_put_field)
qed

end
