(* ===== verification/Xring.thy ===== *)
theory Xring
  imports Bitfields
begin

text \<open>
  Transfer request blocks and the rings that carry them between the driver and the host controller
  (\<^verbatim>\<open>src/src/usb/xhci/trb.hpp\<close>, \<^verbatim>\<open>usb/xhci/ring.{hpp,cpp}\<close>). A block is four words; the memory of the rings is a map from addresses to blocks. The
  controller at the other end of a ring is hardware: what it does with a ring is the specification the theorems
  are about, as the xHCI standard describes it (4.9.2 and 4.9.4, which the comments of \<^verbatim>\<open>ring.hpp\<close> quote).
\<close>

section \<open>Transfer request blocks\<close>

record TRB =
  t_0 :: u32
  t_1 :: u32
  t_2 :: u32
  t_3 :: u32

definition TRB_zero :: TRB where
  "TRB_zero = \<lparr>t_0 = 0, t_1 = 0, t_2 = 0, t_3 = 0\<rparr>"

definition trb_parameter :: "TRB \<Rightarrow> u64" where
  "trb_parameter t = ucast (t_0 t) OR push_bit 32 (ucast (t_1 t))"

definition set_parameter :: "u64 \<Rightarrow> TRB \<Rightarrow> TRB" where
  "set_parameter v t = t\<lparr>t_0 := ucast v, t_1 := ucast (drop_bit 32 v)\<rparr>"

definition trb_cycle_bit :: "TRB \<Rightarrow> bool" where
  "trb_cycle_bit t = bit (t_3 t) 0"

definition set_cycle_bit :: "bool \<Rightarrow> TRB \<Rightarrow> TRB" where
  "set_cycle_bit b t = t\<lparr>t_3 := put_field 1 0 (of_bool b) (t_3 t)\<rparr>"

definition trb_type :: "TRB \<Rightarrow> u32" where
  "trb_type t = get_field 6 10 (t_3 t)"

definition set_trb_type :: "u32 \<Rightarrow> TRB \<Rightarrow> TRB" where
  "set_trb_type v t = t\<lparr>t_3 := put_field 6 10 v (t_3 t)\<rparr>"

text \<open>The numbers of the types.\<close>

definition NormalTRB_Type :: u32 where "NormalTRB_Type = 1"
definition SetupStageTRB_Type :: u32 where "SetupStageTRB_Type = 2"
definition DataStageTRB_Type :: u32 where "DataStageTRB_Type = 3"
definition StatusStageTRB_Type :: u32 where "StatusStageTRB_Type = 4"
definition LinkTRB_Type :: u32 where "LinkTRB_Type = 6"
definition EnableSlotCommandTRB_Type :: u32 where "EnableSlotCommandTRB_Type = 9"
definition AddressDeviceCommandTRB_Type :: u32 where "AddressDeviceCommandTRB_Type = 11"
definition ConfigureEndpointCommandTRB_Type :: u32 where "ConfigureEndpointCommandTRB_Type = 12"
definition TransferEventTRB_Type :: u32 where "TransferEventTRB_Type = 32"
definition CommandCompletionEventTRB_Type :: u32 where "CommandCompletionEventTRB_Type = 33"
definition PortStatusChangeEventTRB_Type :: u32 where "PortStatusChangeEventTRB_Type = 34"

lemmas trb_types = NormalTRB_Type_def SetupStageTRB_Type_def DataStageTRB_Type_def StatusStageTRB_Type_def LinkTRB_Type_def
  EnableSlotCommandTRB_Type_def AddressDeviceCommandTRB_Type_def ConfigureEndpointCommandTRB_Type_def TransferEventTRB_Type_def
  CommandCompletionEventTRB_Type_def PortStatusChangeEventTRB_Type_def

text \<open>\<open>TRBDynamicCast ty t\<close> says whether the cast to the type with number \<open>ty\<close> gives the block and not null.\<close>

definition TRBDynamicCast :: "u32 \<Rightarrow> TRB \<Rightarrow> bool" where
  "TRBDynamicCast ty t \<longleftrightarrow> ty = trb_type t"

text \<open>The blocks the driver makes.\<close>

definition kNoDataStage :: u32 where "kNoDataStage = 0"
definition kOutDataStage :: u32 where "kOutDataStage = 2"
definition kInDataStage :: u32 where "kInDataStage = 3"

definition SetupStageTRB_new :: TRB where
  "SetupStageTRB_new =
     (let t = set_trb_type SetupStageTRB_Type TRB_zero;
          t = t\<lparr>t_3 := put_field 1 6 1 (t_3 t)\<rparr>
      in t\<lparr>t_2 := put_field 17 0 8 (t_2 t)\<rparr>)"

definition DataStageTRB_new :: TRB where
  "DataStageTRB_new = set_trb_type DataStageTRB_Type TRB_zero"

definition NormalTRB_new :: TRB where
  "NormalTRB_new = set_trb_type NormalTRB_Type TRB_zero"

definition StatusStageTRB_new :: TRB where
  "StatusStageTRB_new = set_trb_type StatusStageTRB_Type TRB_zero"

text \<open>The pointers of link and command blocks are kept without their four low bits.\<close>

definition set_pointer60 :: "u64 \<Rightarrow> TRB \<Rightarrow> TRB" where
  "set_pointer60 p t = set_parameter (put_field 60 4 (drop_bit 4 p) (trb_parameter t)) t"

definition pointer60 :: "TRB \<Rightarrow> u64" where
  "pointer60 t = push_bit 4 (get_field 60 4 (trb_parameter t))"

definition LinkTRB_new :: "u64 \<Rightarrow> TRB" where
  "LinkTRB_new ring_segment_pointer = set_pointer60 ring_segment_pointer (set_trb_type LinkTRB_Type TRB_zero)"

definition set_toggle_cycle :: "bool \<Rightarrow> TRB \<Rightarrow> TRB" where
  "set_toggle_cycle b t = t\<lparr>t_3 := put_field 1 1 (of_bool b) (t_3 t)\<rparr>"

definition EnableSlotCommandTRB_new :: TRB where
  "EnableSlotCommandTRB_new = set_trb_type EnableSlotCommandTRB_Type TRB_zero"

definition set_slot_id :: "u8 \<Rightarrow> TRB \<Rightarrow> TRB" where
  "set_slot_id slot_id t = t\<lparr>t_3 := put_field 8 24 (ucast slot_id) (t_3 t)\<rparr>"

definition trb_slot_id :: "TRB \<Rightarrow> u8" where
  "trb_slot_id t = ucast (get_field 8 24 (t_3 t))"

definition AddressDeviceCommandTRB_new :: "u64 \<Rightarrow> u8 \<Rightarrow> TRB" where
  "AddressDeviceCommandTRB_new input_context slot_id = set_pointer60 input_context (set_slot_id slot_id (set_trb_type AddressDeviceCommandTRB_Type TRB_zero))"

definition ConfigureEndpointCommandTRB_new :: "u64 \<Rightarrow> u8 \<Rightarrow> TRB" where
  "ConfigureEndpointCommandTRB_new input_context slot_id = set_pointer60 input_context (set_slot_id slot_id (set_trb_type ConfigureEndpointCommandTRB_Type TRB_zero))"

text \<open>The fields of the events.\<close>

definition trb_transfer_length :: "TRB \<Rightarrow> u32" where
  "trb_transfer_length t = get_field 24 0 (t_2 t)"

definition completion_code :: "TRB \<Rightarrow> u32" where
  "completion_code t = get_field 8 24 (t_2 t)"

definition trb_endpoint_id :: "TRB \<Rightarrow> u32" where
  "trb_endpoint_id t = get_field 5 16 (t_3 t)"

definition trb_port_id :: "TRB \<Rightarrow> u8" where
  "trb_port_id t = ucast (get_field 8 24 (t_0 t))"

text \<open>The length field of the stage and normal blocks has 17 bits.\<close>

definition stage_length :: "TRB \<Rightarrow> u32" where
  "stage_length t = get_field 17 0 (t_2 t)"

section \<open>Command and transfer rings\<close>

type_synonym trbs = "u64 \<Rightarrow> TRB"

definition trb_at :: "u64 \<Rightarrow> u64 \<Rightarrow> u64" where
  "trb_at buf i = buf + 16 * i"

record Ring =
  rg_buf :: u64
  rg_buf_size :: u64
  rg_cycle_bit :: bool
  rg_write_index :: u64

definition Ring_null :: Ring where
  "Ring_null = \<lparr>rg_buf = 0, rg_buf_size = 0, rg_cycle_bit = False, rg_write_index = 0\<rparr>"

text \<open>\<^verbatim>\<open>memset(buf, 0, n * sizeof(TRB))\<close>.\<close>

definition clear_trbs :: "u64 \<Rightarrow> u64 \<Rightarrow> trbs \<Rightarrow> trbs" where
  "clear_trbs buf n m = fold (\<lambda>i m. m(trb_at buf (of_nat i) := TRB_zero)) [0..<unat n] m"

definition Ring_Initialize :: "u64 \<Rightarrow> Ring \<Rightarrow> usbmem \<Rightarrow> trbs \<Rightarrow> Ring \<times> usbmem \<times> trbs \<times> Code" where
  "Ring_Initialize buf_size r um m =
     (let um = (if rg_buf r \<noteq> 0 then FreeMem (rg_buf r) um else um);
          r = r\<lparr>rg_cycle_bit := True, rg_write_index := 0, rg_buf_size := buf_size\<rparr>;
          (um, p) = AllocArray 16 (rg_buf_size r) 64 (64 * 1024) um;
          r = r\<lparr>rg_buf := p\<rparr>
      in if p = 0 then (r, um, m, kNoEnoughMemory)
         else (r, um, clear_trbs (rg_buf r) (rg_buf_size r) m, kSuccess))"

definition CopyToLast :: "TRB \<Rightarrow> Ring \<Rightarrow> trbs \<Rightarrow> trbs" where
  "CopyToLast data r m =
     (let enqueuePtr = trb_at (rg_buf r) (rg_write_index r);
          m = m(enqueuePtr := (m enqueuePtr)\<lparr>t_0 := t_0 data, t_1 := t_1 data, t_2 := t_2 data\<rparr>);
          m = m(enqueuePtr := (m enqueuePtr)\<lparr>t_3 := t_3 data\<rparr>)
      in m(enqueuePtr := set_cycle_bit (rg_cycle_bit r) (m enqueuePtr)))"

definition Ring_Push :: "TRB \<Rightarrow> Ring \<Rightarrow> trbs \<Rightarrow> Ring \<times> trbs \<times> u64" where
  "Ring_Push data r m =
     (let enqueuePtr = trb_at (rg_buf r) (rg_write_index r);
          m = CopyToLast data r m;
          r = r\<lparr>rg_write_index := rg_write_index r + 1\<rparr>
      in if rg_write_index r = rg_buf_size r - 1
         then
           (let link = set_toggle_cycle True (LinkTRB_new (rg_buf r));
                m = CopyToLast link r m
            in (r\<lparr>rg_write_index := 0, rg_cycle_bit := \<not> rg_cycle_bit r\<rparr>, m, enqueuePtr))
         else (r, m, enqueuePtr))"

section \<open>The event ring\<close>

record interrupter =
  ir_IMAN :: u32
  ir_ERSTSZ :: u32
  ir_ERSTBA :: u64
  ir_ERDP :: u64

text \<open>The registers: their size field, and pointers without their low bits.\<close>

definition ERSTSZ_SetSize :: "u16 \<Rightarrow> u32 \<Rightarrow> u32" where
  "ERSTSZ_SetSize v x = put_field 16 0 (ucast v) x"

definition ERSTBA_SetPointer :: "u64 \<Rightarrow> u64 \<Rightarrow> u64" where
  "ERSTBA_SetPointer v x = put_field 58 6 (drop_bit 6 v) x"

definition ERDP_Pointer :: "u64 \<Rightarrow> u64" where
  "ERDP_Pointer x = push_bit 4 (get_field 60 4 x)"

definition ERDP_SetPointer :: "u64 \<Rightarrow> u64 \<Rightarrow> u64" where
  "ERDP_SetPointer v x = put_field 60 4 (drop_bit 4 v) x"

text \<open>The segment table has one entry: the address and the size of the ring, a field of 16 bits.\<close>

record EventRing =
  er_buf :: u64
  er_buf_size :: u64
  er_cycle_bit :: bool
  er_erst :: u64
  er_segment_base :: u64
  er_segment_size :: u16
  er_interrupter :: interrupter

definition ReadDequeuePointer :: "EventRing \<Rightarrow> u64" where
  "ReadDequeuePointer e = ERDP_Pointer (ir_ERDP (er_interrupter e))"

definition WriteDequeuePointer :: "u64 \<Rightarrow> EventRing \<Rightarrow> EventRing" where
  "WriteDequeuePointer p e =
     (let i = er_interrupter e in e\<lparr>er_interrupter := i\<lparr>ir_ERDP := ERDP_SetPointer p (ir_ERDP i)\<rparr>\<rparr>)"

definition EventRing_Initialize :: "u64 \<Rightarrow> interrupter \<Rightarrow> EventRing \<Rightarrow> usbmem \<Rightarrow> trbs \<Rightarrow> EventRing \<times> usbmem \<times> trbs \<times> Code" where
  "EventRing_Initialize buf_size interrupter e um m =
     (let um = (if er_buf e \<noteq> 0 then FreeMem (er_buf e) um else um);
          e = e\<lparr>er_cycle_bit := True, er_buf_size := buf_size, er_interrupter := interrupter\<rparr>;
          (um, p) = AllocArray 16 (er_buf_size e) 64 (64 * 1024) um;
          e = e\<lparr>er_buf := p\<rparr>
      in if p = 0 then (e, um, m, kNoEnoughMemory)
         else
           (let m = clear_trbs (er_buf e) (er_buf_size e) m;
                (um, p) = AllocArray 16 1 64 (64 * 1024) um;
                e = e\<lparr>er_erst := p\<rparr>
            in if p = 0 then (e, FreeMem (er_buf e) um, m, kNoEnoughMemory)
               else
                 (let e = e\<lparr>er_segment_base := er_buf e, er_segment_size := ucast (er_buf_size e)\<rparr>;
                      i = er_interrupter e;
                      e = e\<lparr>er_interrupter := i\<lparr>ir_ERSTSZ := ERSTSZ_SetSize 1 (ir_ERSTSZ i)\<rparr>\<rparr>;
                      e = WriteDequeuePointer (trb_at (er_buf e) 0) e;
                      i = er_interrupter e;
                      e = e\<lparr>er_interrupter := i\<lparr>ir_ERSTBA := ERSTBA_SetPointer (er_erst e) (ir_ERSTBA i)\<rparr>\<rparr>
                  in (e, um, m, kSuccess))))"

definition EventRing_Front :: "EventRing \<Rightarrow> u64" where
  "EventRing_Front e = ReadDequeuePointer e"

definition HasFront :: "trbs \<Rightarrow> EventRing \<Rightarrow> bool" where
  "HasFront m e \<longleftrightarrow> trb_cycle_bit (m (EventRing_Front e)) = er_cycle_bit e"

definition EventRing_Pop :: "EventRing \<Rightarrow> EventRing" where
  "EventRing_Pop e =
     (let p = ReadDequeuePointer e + 16;
          segment_begin = er_segment_base e;
          segment_end = segment_begin + 16 * ucast (er_segment_size e);
          (p, e) = (if p = segment_end then (segment_begin, e\<lparr>er_cycle_bit := \<not> er_cycle_bit e\<rparr>) else (p, e))
      in WriteDequeuePointer p e)"

section \<open>Cycle bits\<close>

text \<open>
  A ring of \<open>N\<close> blocks between a producer and a consumer that share nothing but the memory. The producer writes its cycle state into each block and
  flips it when it wraps; the consumer takes a block whose cycle bit agrees with its own state, and flips that when it wraps. \<open>q\<close> are the blocks on the way, without
  their cycle bits.
\<close>

definition trb_body :: "TRB \<Rightarrow> TRB" where
  "trb_body t = set_cycle_bit False t"

definition cyc_inv :: "nat \<Rightarrow> (nat \<Rightarrow> TRB) \<Rightarrow> nat \<Rightarrow> bool \<Rightarrow> nat \<Rightarrow> bool \<Rightarrow> TRB list \<Rightarrow> bool" where
  "cyc_inv N sl w pcs d ccs q \<longleftrightarrow> w < N \<and> d < N \<and> (\<forall>i < N. trb_cycle_bit (sl i) = (if i < w then pcs else \<not> pcs)) \<and>
     (if ccs = pcs then d \<le> w \<and> q = map (\<lambda>i. trb_body (sl i)) [d..<w]
      else w \<le> d \<and> q = map (\<lambda>i. trb_body (sl i)) ([d..<N] @ [0..<w]))"

definition wrap :: "nat \<Rightarrow> nat \<Rightarrow> bool \<Rightarrow> nat \<times> bool" where
  "wrap N i c = (if Suc i = N then (0, \<not> c) else (Suc i, c))"

lemma cyc_push:
  assumes "cyc_inv N sl w pcs d ccs q" "length q < N" "trb_cycle_bit x = pcs" "\<And>i. i < N \<Longrightarrow> sl' i = (if i = w then x else sl i)"
    "wrap N w pcs = (w', pcs')"
  shows "cyc_inv N sl' w' pcs' d ccs (q @ [trb_body x])"
proof (cases "ccs = pcs")
  case True
  then have d: "d \<le> w" "q = map (\<lambda>i. trb_body (sl i)) [d..<w]" "w < N" using assms(1) by (auto simp: cyc_inv_def)
  have "map (\<lambda>i. trb_body (sl' i)) [d..<Suc w] = q @ [trb_body x]" using d assms(4) by auto
  then show ?thesis using assms d True by (auto simp: cyc_inv_def wrap_def less_Suc_eq split: if_splits)
next
  case False
  then have d: "w \<le> d" "d < N" "q = map (\<lambda>i. trb_body (sl i)) ([d..<N] @ [0..<w])" using assms(1) by (auto simp: cyc_inv_def)
  then have "w < d" using assms(2) by (cases "w = d") auto
  moreover from this have "map (\<lambda>i. trb_body (sl' i)) ([d..<N] @ [0..<Suc w]) = q @ [trb_body x]" using d assms(4) by auto
  ultimately show ?thesis using assms d False by (auto simp: cyc_inv_def wrap_def less_Suc_eq split: if_splits)
qed

lemma cyc_front:
  assumes "cyc_inv N sl w pcs d ccs q"
  shows "trb_cycle_bit (sl d) = ccs \<longleftrightarrow> q \<noteq> []" "q \<noteq> [] \<Longrightarrow> hd q = trb_body (sl d)"
  using assms by (auto simp: cyc_inv_def hd_append hd_map split: if_splits)

lemma cyc_pop:
  assumes "cyc_inv N sl w pcs d ccs (x # q)" "wrap N d ccs = (d', ccs')"
  shows "cyc_inv N sl w pcs d' ccs' q"
proof (cases "ccs = pcs")
  case True
  then have "d < w" using assms(1) by (cases "d < w") (auto simp: cyc_inv_def)
  moreover from this have "[d..<w] = d # [Suc d..<w]" by (rule upt_conv_Cons)
  ultimately show ?thesis using assms True by (auto simp: cyc_inv_def wrap_def split: if_splits)
next
  case False
  then have "[d..<N] = d # [Suc d..<N]" using assms(1) by (auto simp: cyc_inv_def upt_conv_Cons)
  then show ?thesis using assms False by (auto simp: cyc_inv_def wrap_def split: if_splits)
qed

lemma cyc_empty: "0 < N \<Longrightarrow> (\<And>i. i < N \<Longrightarrow> \<not> trb_cycle_bit (sl i)) \<Longrightarrow> cyc_inv N sl 0 True 0 True []"
  by (simp add: cyc_inv_def)

lemma cyc_length: "cyc_inv N sl w pcs d ccs q \<Longrightarrow> length q \<le> N"
  by (auto simp: cyc_inv_def split: if_splits)

lemma cycle_simps [simp]:
  "trb_cycle_bit (set_cycle_bit b t) = b" "trb_body (set_cycle_bit b t) = trb_body t" "trb_type (set_cycle_bit b t) = trb_type t"
  "trb_cycle_bit TRB_zero = False"
proof -
  show "trb_cycle_bit (set_cycle_bit b t) = b" by (simp add: trb_cycle_bit_def set_cycle_bit_def bit_put_field)
  have "put_field 1 0 (of_bool False) (put_field 1 0 (of_bool b) x) = put_field 1 0 (of_bool False) x" for x :: u32
    by (rule bit_eqI) (simp add: bit_put_field)
  then show "trb_body (set_cycle_bit b t) = trb_body t" by (simp add: trb_body_def set_cycle_bit_def)
  show "trb_type (set_cycle_bit b t) = trb_type t" by (simp add: trb_type_def set_cycle_bit_def get_put_other)
  show "trb_cycle_bit TRB_zero = False" by (simp add: trb_cycle_bit_def TRB_zero_def)
qed

section \<open>Consumers\<close>

text \<open>What both consumers of a ring promise: they see the blocks on the way, in their order.\<close>

fun drain :: "('s \<Rightarrow> bool) \<Rightarrow> ('s \<Rightarrow> 'a) \<Rightarrow> ('s \<Rightarrow> 's) \<Rightarrow> nat \<Rightarrow> 's \<Rightarrow> 's \<times> 'a list" where
  "drain has front adv 0 s = (s, [])"
| "drain has front adv (Suc n) s =
     (if has s then (let (t, xs) = drain has front adv n (adv s) in (t, front s # xs)) else (s, []))"

locale block_source =
  fixes has :: "'s \<Rightarrow> bool"
    and front :: "'s \<Rightarrow> 'a"
    and adv :: "'s \<Rightarrow> 's"
    and rep :: "'s \<Rightarrow> 'a list \<Rightarrow> bool"
  assumes has_iff: "rep s q \<Longrightarrow> has s \<longleftrightarrow> q \<noteq> []"
    and front_hd: "rep s (x # q) \<Longrightarrow> front s = x"
    and adv_tl: "rep s (x # q) \<Longrightarrow> rep (adv s) q"
begin

lemma drain_all: "rep s q \<Longrightarrow> length q \<le> n \<Longrightarrow> \<exists>t. drain has front adv n s = (t, q) \<and> rep t [] \<and> \<not> has t"
proof (induction n arbitrary: s q)
  case 0
  then show ?case using has_iff by auto
next
  case (Suc n)
  show ?case
  proof (cases q)
    case Nil
    then show ?thesis using has_iff Suc.prems by auto
  next
    case (Cons x q')
    then have "rep (adv s) q'" "front s = x" "has s" using Suc.prems adv_tl front_hd has_iff by auto
    with Suc.IH [of "adv s" q'] Suc.prems(2) Cons show ?thesis by auto
  qed
qed

end

lemma trb_at_inj: "i < 2 ^ 60 \<Longrightarrow> j < 2 ^ 60 \<Longrightarrow> trb_at buf (of_nat i) = trb_at buf (of_nat j) \<longleftrightarrow> i = j"
proof
  assume ij: "i < 2 ^ 60" "j < 2 ^ 60" and e: "trb_at buf (of_nat i) = trb_at buf (of_nat j)"
  have "unat ((16 :: u64) * of_nat k) = 16 * k" if "k < 2 ^ 60" for k
    using that unat_of_nat_small [of "16 * k", where ?'a = 64] by simp
  then show "i = j" using e ij by (metis trb_at_def add_left_cancel mult_cancel1 zero_neq_numeral)
qed simp

lemma clear_trbs_at: "unat n < 2 ^ 60 \<Longrightarrow> i < unat n \<Longrightarrow> clear_trbs buf n m (trb_at buf (of_nat i)) = TRB_zero"
  using fold_write_once [where a = "\<lambda>i. trb_at buf (of_nat i)" and I = "{..<unat n}" and h = "\<lambda>i m. TRB_zero" and v = "\<lambda>i. TRB_zero" and l = "[0..<unat n]"]
  by (auto simp: clear_trbs_def inj_on_def trb_at_inj lessThan_atLeast0)

section \<open>Commands and transfers reach the controller in order\<close>

text \<open>
  The controller reads a ring from its dequeue pointer, with its own cycle state: it follows a link block whose cycle bit
  agrees, and takes the next block if its cycle bit agrees.
\<close>

definition xhc_follow :: "trbs \<Rightarrow> u64 \<times> bool \<Rightarrow> u64 \<times> bool" where
  "xhc_follow m = (\<lambda>(p, c). if trb_type (m p) = LinkTRB_Type \<and> trb_cycle_bit (m p) = c
     then (pointer60 (m p), if bit (t_3 (m p)) 1 then \<not> c else c) else (p, c))"

definition xhc_fetch :: "trbs \<Rightarrow> u64 \<times> bool \<Rightarrow> (TRB \<times> u64 \<times> bool) option" where
  "xhc_fetch m pc = (let (p, c) = xhc_follow m pc in if trb_cycle_bit (m p) = c then Some (trb_body (m p), p + 16, c) else None)"

definition link_ok :: "u64 \<Rightarrow> TRB \<Rightarrow> bool" where
  "link_ok buf t \<longleftrightarrow> trb_type t = LinkTRB_Type \<and> pointer60 t = buf \<and> bit (t_3 t) 1"

text \<open>The ring with the controller's pointer and state and the blocks on the way; one slot stays free, so that the controller is never lapped.\<close>

definition ring_rep :: "Ring \<Rightarrow> trbs \<Rightarrow> u64 \<times> bool \<Rightarrow> TRB list \<Rightarrow> bool" where
  "ring_rep r m pc q \<longleftrightarrow> (\<exists>N d ccs. unat (rg_buf_size r) = Suc N \<and> 2 \<le> N \<and> N < 2 ^ 16 \<and> take_bit 4 (rg_buf r) = 0 \<and> length q < N \<and>
     cyc_inv N (\<lambda>i. m (trb_at (rg_buf r) (of_nat i))) (unat (rg_write_index r)) (rg_cycle_bit r) d ccs q \<and>
     (\<forall>i < N. trb_type (m (trb_at (rg_buf r) (of_nat i))) \<noteq> LinkTRB_Type) \<and>
     trb_cycle_bit (m (trb_at (rg_buf r) (of_nat N))) = (\<not> rg_cycle_bit r) \<and>
     (ccs \<noteq> rg_cycle_bit r \<longrightarrow> link_ok (rg_buf r) (m (trb_at (rg_buf r) (of_nat N)))) \<and>
     (pc = (trb_at (rg_buf r) (of_nat d), ccs) \<or>
      pc = (trb_at (rg_buf r) (of_nat N), \<not> ccs) \<and> d = 0 \<and> ccs = rg_cycle_bit r \<and> link_ok (rg_buf r) (m (trb_at (rg_buf r) (of_nat N)))))"

lemma CopyToLast_eq: "CopyToLast data r m = m(trb_at (rg_buf r) (rg_write_index r) := set_cycle_bit (rg_cycle_bit r) data)"
proof -
  have all: "t\<lparr>t_0 := t_0 data, t_1 := t_1 data, t_2 := t_2 data, t_3 := t_3 data\<rparr> = data" for t :: TRB by (cases t; cases data) simp
  show ?thesis by (simp add: CopyToLast_def Let_def all)
qed

lemma parameter_set [simp]: "trb_parameter (set_parameter v t) = v"
  by (rule bit_eqI) (auto simp: trb_parameter_def set_parameter_def bit_simps)

lemma parameter_t3 [simp]: "trb_parameter (t\<lparr>t_3 := x\<rparr>) = trb_parameter t" "t_3 (set_parameter v t) = t_3 t"
  by (simp_all add: trb_parameter_def set_parameter_def)

lemma link_new:
  assumes "take_bit 4 buf = 0"
  shows "link_ok buf (set_cycle_bit c (set_toggle_cycle True (LinkTRB_new buf)))"
proof -
  have "pointer60 (set_pointer60 buf t) = buf" for t
    using field_pointer [of 4 60 buf "trb_parameter t"] assms by (simp add: pointer60_def set_pointer60_def)
  then show ?thesis
    by (simp add: link_ok_def LinkTRB_new_def set_toggle_cycle_def set_cycle_bit_def trb_type_def set_trb_type_def pointer60_def set_pointer60_def
        get_put_other get_put_field bit_put_field LinkTRB_Type_def take_bit_eq_mask mask_eq_exp_minus_1)
qed

lemma ring_push:
  assumes "ring_rep r m pc q" "length q + 2 < unat (rg_buf_size r)" "trb_type data \<noteq> LinkTRB_Type"
  shows "\<exists>r' m' p. Ring_Push data r m = (r', m', p) \<and> m' p = set_cycle_bit (rg_cycle_bit r) data \<and> rg_buf_size r' = rg_buf_size r \<and>
    ring_rep r' m' pc (q @ [trb_body data])"
proof -
  let ?b = "rg_buf r" and ?w = "unat (rg_write_index r)" and ?c = "rg_cycle_bit r"
  from assms(1) obtain N d ccs where R: "unat (rg_buf_size r) = Suc N" "2 \<le> N" "N < 2 ^ 16" "take_bit 4 ?b = 0" "length q < N"
    "cyc_inv N (\<lambda>i. m (trb_at ?b (of_nat i))) ?w ?c d ccs q" "\<forall>i < N. trb_type (m (trb_at ?b (of_nat i))) \<noteq> LinkTRB_Type"
    "trb_cycle_bit (m (trb_at ?b (of_nat N))) = (\<not> ?c)" "ccs \<noteq> ?c \<longrightarrow> link_ok ?b (m (trb_at ?b (of_nat N)))"
    "pc = (trb_at ?b (of_nat d), ccs) \<or> pc = (trb_at ?b (of_nat N), \<not> ccs) \<and> d = 0 \<and> ccs = ?c \<and> link_ok ?b (m (trb_at ?b (of_nat N)))"
    unfolding ring_rep_def by blast
  define v where "v = ?w"
  have w: "v < N" "trb_at ?b (rg_write_index r) = trb_at ?b (of_nat v)" using R(6) by (simp_all add: cyc_inv_def v_def)
  have inj: "trb_at ?b (of_nat i) = trb_at ?b (of_nat j) \<longleftrightarrow> i = j" if "i \<le> N" "j \<le> N" for i j
    using that R(3) by (intro trb_at_inj) simp_all
  have w1: "unat (rg_write_index r + 1) = Suc v" using w(1) R(3) by (subst unat_add_nowrap) (simp_all add: v_def)
  have last: "rg_write_index r + 1 = rg_buf_size r - 1 \<longleftrightarrow> Suc v = N"
    using w1 R(1) by (metis diff_Suc_1 unat_sub_nowrap unsigned_1 unsigned_word_eqI Suc_eq_plus1 le_add2)
  define x where "x = set_cycle_bit ?c data"
  have x: "trb_cycle_bit x = ?c" "trb_body x = trb_body data" "trb_type x = trb_type data" by (simp_all add: x_def)
  have len: "length q < N" "length q + 1 < N" using assms(2) R(1,5) by simp_all
  show ?thesis
  proof (cases "Suc v = N")
    case True
    define l where "l = set_cycle_bit ?c (set_toggle_cycle True (LinkTRB_new ?b))"
    define m' where "m' = m(trb_at ?b (of_nat v) := x, trb_at ?b (of_nat N) := l)"
    have "(of_nat N :: u64) = of_nat (unat (rg_write_index r + 1))" using w1 True by (simp only:)
    then have at: "trb_at ?b (rg_write_index r + 1) = trb_at ?b (of_nat N)" by (simp del: of_nat_Suc)
    have P: "Ring_Push data r m = (r\<lparr>rg_write_index := 0, rg_cycle_bit := \<not> ?c\<rparr>, m', trb_at ?b (of_nat v))"
      using last True w(2) at by (simp add: Ring_Push_def CopyToLast_eq Let_def m'_def x_def l_def)
    have m': "m' (trb_at ?b (of_nat i)) = (if i = N then l else if i = v then x else m (trb_at ?b (of_nat i)))" if "i \<le> N" for i
      using that w(1) inj by (auto simp: m'_def)
    have ne: "\<not> (d = 0 \<and> ccs = ?c)"
    proof
      assume "d = 0 \<and> ccs = ?c"
      then have "length q = ?w" using R(6) by (simp add: cyc_inv_def)
      then show False using len True by (simp add: v_def)
    qed
    have "cyc_inv N (\<lambda>i. m' (trb_at ?b (of_nat i))) 0 (\<not> ?c) d ccs (q @ [trb_body x])"
      using cyc_push [OF R(6) len(1) x(1), where w' = 0 and pcs' = "\<not> ?c"] m' True by (simp add: wrap_def v_def [symmetric])
    moreover have "link_ok ?b l" "trb_cycle_bit l = ?c" using link_new [OF R(4)] by (simp_all add: l_def)
    moreover have "pc = (trb_at ?b (of_nat d), ccs)" using R(10) ne by auto
    ultimately have "ring_rep (r\<lparr>rg_write_index := 0, rg_cycle_bit := \<not> ?c\<rparr>) m' pc (q @ [trb_body data])"
      unfolding ring_rep_def using R(1-4,7) x assms(3) m' len
      by (intro exI [of _ N] exI [of _ d] exI [of _ ccs]) simp
    then show ?thesis using P m' [of v] w(1) by (auto simp: x_def)
  next
    case False
    define m' where "m' = m(trb_at ?b (of_nat v) := x)"
    have P: "Ring_Push data r m = (r\<lparr>rg_write_index := rg_write_index r + 1\<rparr>, m', trb_at ?b (of_nat v))"
      using last False w(2) by (simp add: Ring_Push_def CopyToLast_eq Let_def m'_def x_def)
    have m': "m' (trb_at ?b (of_nat i)) = (if i = v then x else m (trb_at ?b (of_nat i)))" if "i \<le> N" for i
      using that w(1) inj by (auto simp: m'_def)
    have "cyc_inv N (\<lambda>i. m' (trb_at ?b (of_nat i))) (unat (rg_write_index r + 1)) ?c d ccs (q @ [trb_body x])"
      unfolding w1 using cyc_push [OF R(6) len(1) x(1), where w' = "Suc v" and pcs' = ?c] m' False by (simp add: wrap_def v_def [symmetric])
    then have "ring_rep (r\<lparr>rg_write_index := rg_write_index r + 1\<rparr>) m' pc (q @ [trb_body data])"
      unfolding ring_rep_def using R x assms(3) m' len w(1)
      by (intro exI [of _ N] exI [of _ d] exI [of _ ccs]) auto
    then show ?thesis using P m' [of v] w(1) by (auto simp: x_def)
  qed
qed

lemma xhc_follow_stay: "trb_type (m p) \<noteq> LinkTRB_Type \<Longrightarrow> xhc_follow m (p, c) = (p, c)"
  by (simp add: xhc_follow_def)

lemma xhc_follow_link: "link_ok b (m p) \<Longrightarrow> trb_cycle_bit (m p) = c \<Longrightarrow> xhc_follow m (p, c) = (b, \<not> c)"
  by (simp add: xhc_follow_def link_ok_def)

lemma trb_at_next: "trb_at b (of_nat i) + 16 = trb_at b (of_nat (Suc i))"
  by (simp add: trb_at_def algebra_simps)

lemma ring_fetch:
  assumes "ring_rep r m pc q"
  shows "(case q of [] \<Rightarrow> xhc_fetch m pc = None | x # q' \<Rightarrow> \<exists>pc'. xhc_fetch m pc = Some (x, pc') \<and> ring_rep r m pc' q')"
proof -
  let ?b = "rg_buf r" and ?w = "unat (rg_write_index r)" and ?c = "rg_cycle_bit r" and ?sl = "\<lambda>i. m (trb_at (rg_buf r) (of_nat i))"
  from assms obtain N d ccs where R: "unat (rg_buf_size r) = Suc N" "2 \<le> N" "N < 2 ^ 16" "take_bit 4 ?b = 0" "length q < N"
    "cyc_inv N ?sl ?w ?c d ccs q" "\<forall>i < N. trb_type (?sl i) \<noteq> LinkTRB_Type"
    "trb_cycle_bit (?sl N) = (\<not> ?c)" "ccs \<noteq> ?c \<longrightarrow> link_ok ?b (?sl N)"
    "pc = (trb_at ?b (of_nat d), ccs) \<or> pc = (trb_at ?b (of_nat N), \<not> ccs) \<and> d = 0 \<and> ccs = ?c \<and> link_ok ?b (?sl N)"
    unfolding ring_rep_def by blast
  have d: "d < N" using R(6) by (simp add: cyc_inv_def)
  have "xhc_follow m pc = (trb_at ?b (of_nat d), ccs)"
  proof (cases "pc = (trb_at ?b (of_nat d), ccs)")
    case True
    then show ?thesis using R(7) d by (simp add: xhc_follow_stay)
  next
    case False
    then have "pc = (trb_at ?b (of_nat N), \<not> ccs)" "d = 0" "ccs = ?c" "link_ok ?b (?sl N)" using R(10) by auto
    then show ?thesis using R(8) by (simp add: xhc_follow_link trb_at_def)
  qed
  then have F: "xhc_fetch m pc = (if trb_cycle_bit (?sl d) = ccs then Some (trb_body (?sl d), trb_at ?b (of_nat (Suc d)), ccs) else None)"
    by (simp add: xhc_fetch_def trb_at_next del: of_nat_Suc)
  show ?thesis
  proof (cases q)
    case Nil
    then show ?thesis using F cyc_front [OF R(6)] by simp
  next
    case (Cons x q')
    then have x: "trb_cycle_bit (?sl d) = ccs" "trb_body (?sl d) = x" using cyc_front [OF R(6)] by auto
    note I = R(6) [unfolded Cons]
    have "ring_rep r m (trb_at ?b (of_nat (Suc d)), ccs) q'"
    proof (cases "Suc d = N")
      case True
      have "ccs \<noteq> ?c" using I True by (cases "ccs = ?c") (auto simp: cyc_inv_def)
      then have "cyc_inv N ?sl ?w ?c 0 ?c q'" "link_ok ?b (?sl N)"
        using cyc_pop [OF I, of 0 "\<not> ccs"] True R(9) by (auto simp: wrap_def)
      then show ?thesis unfolding ring_rep_def using R(1-8) Cons True \<open>ccs \<noteq> ?c\<close>
        by (intro exI [of _ N] exI [of _ 0] exI [of _ ?c]) auto
    next
      case False
      then have "cyc_inv N ?sl ?w ?c (Suc d) ccs q'" using cyc_pop [OF I, of "Suc d" ccs] by (simp add: wrap_def)
      then show ?thesis unfolding ring_rep_def using R(1-9) Cons
        by (intro exI [of _ N] exI [of _ "Suc d"] exI [of _ ccs]) auto
    qed
    then show ?thesis using F x Cons by simp
  qed
qed

definition has_room :: "usbmem \<Rightarrow> nat \<Rightarrow> bool" where
  "has_room um n \<longleftrightarrow> (\<exists>q. unat (um_alloc_ptr um) \<le> q \<and> fits_at (16 * n) 64 65536 q \<and> q + 16 * n \<le> unat (um_pool um) + 2 ^ 22)"

lemma ring_block:
  assumes "0 < unat n" "unat n \<le> 4096" "um_ok um" "AllocArray 16 n 64 (64 * 1024) um = (um', p)"
  shows "um_ok um' \<and> take_bit 4 p = 0 \<and> (p \<noteq> 0 \<longleftrightarrow> has_room um (unat n))"
proof -
  have n: "unat (16 * n) = 16 * unat n" using assms(2) by (simp add: unat_word_ariths)
  have p2: "pow2 64" "pow2 65536" unfolding pow2_def by (rule disjI2, rule exI [of _ 6], simp) (rule disjI2, rule exI [of _ 16], simp)
  have "0 < 16 * n" unfolding word_less_nat_alt n using assms(1) by simp
  then have v: "valid_req (16 * n, 64, 65536)" using n assms(2) p2 by (simp add: valid_req_def word_less_nat_alt word_le_nat_alt)
  have A: "AllocMem (16 * n) 64 65536 um = (um', p)" using assms(4) by (simp add: AllocArray_def)
  note P = AllocMem_place [OF assms(3) v A refl] and F = place_correct(2) [OF v refl, of "unat (um_alloc_ptr um)"]
  have "unat p = 0 \<or> 64 dvd unat p" using P F by (auto simp: fits_at_def split: if_splits)
  then have "unat p mod 16 = 0" by (auto elim: dvd_trans [of 16 64, rotated] simp: mod_eq_0_iff_dvd)
  then have "unat (take_bit 4 p) = 0" by (subst unsigned_take_bit_eq) (simp add: take_bit_eq_mod)
  moreover have "p \<noteq> 0 \<longleftrightarrow> place (unat (um_alloc_ptr um)) (unat (16 * n)) 64 65536 + 16 * unat n \<le> unat (um_pool um) + 2 ^ 22"
    using P n by (auto split: if_splits)
  moreover have "\<dots> \<longleftrightarrow> has_room um (unat n)"
  proof -
    note L = place_correct [OF v refl, where p = "unat (um_alloc_ptr um)"]
    show ?thesis using L(1,2) L(3) n unfolding has_room_def by (fastforce simp: max_def)
  qed
  ultimately show ?thesis using P by (simp add: unsigned_eq_0_iff)
qed

lemma ring_new:
  assumes "3 \<le> unat n" "unat n \<le> 4096" "um_ok um"
  shows "\<exists>r' um' m' e. Ring_Initialize n r um m = (r', um', m', e) \<and> um_ok um' \<and>
    (if has_room um (unat n) then e = kSuccess \<and> ring_rep r' m' (rg_buf r', True) [] \<and> rg_buf_size r' = n else e = kNoEnoughMemory)"
proof -
  obtain um' p where A: "AllocArray 16 n 64 (64 * 1024) um = (um', p)" by fastforce
  have P: "um_ok um'" "take_bit 4 p = 0" "p \<noteq> 0 \<longleftrightarrow> has_room um (unat n)" using ring_block [OF _ assms(2,3) A] assms(1) by auto
  obtain N where N: "unat n = Suc N" using assms(1) by (cases "unat n") auto
  have z: "clear_trbs p n m (trb_at p (of_nat i)) = TRB_zero" if "i \<le> N" for i
    using that N assms(2) by (intro clear_trbs_at) simp_all
  have zero_type: "trb_type TRB_zero \<noteq> LinkTRB_Type" by (simp add: trb_type_def TRB_zero_def LinkTRB_Type_def get_field_def)
  have at0: "trb_at p 0 = p" by (simp add: trb_at_def)
  have "cyc_inv N (\<lambda>i. clear_trbs p n m (trb_at p (of_nat i))) 0 True 0 True []" using N assms(1) z by (intro cyc_empty) simp_all
  then have "ring_rep \<lparr>rg_buf = p, rg_buf_size = n, rg_cycle_bit = True, rg_write_index = 0\<rparr> (clear_trbs p n m) (p, True) []"
    unfolding ring_rep_def using N assms(1,2) P(2) z
    by - (rule exI [of _ N], rule exI [of _ 0], rule exI [of _ True], simp add: zero_type at0)
  then show ?thesis using A P by (cases r) (auto simp: Ring_Initialize_def FreeMem_def Let_def)
qed

text \<open>Any sequence of blocks sent by the driver and fetched by the controller, and what a queue does with it.\<close>

datatype ring_op = Send TRB | Fetch

fun ring_run :: "ring_op list \<Rightarrow> Ring \<Rightarrow> trbs \<Rightarrow> u64 \<times> bool \<Rightarrow> TRB list" where
  "ring_run [] r m pc = []"
| "ring_run (Send t # ops) r m pc = (let (r, m, p) = Ring_Push t r m in ring_run ops r m pc)"
| "ring_run (Fetch # ops) r m pc =
     (case xhc_fetch m pc of None \<Rightarrow> ring_run ops r m pc | Some (t, pc) \<Rightarrow> t # ring_run ops r m pc)"

fun queue_run :: "nat \<Rightarrow> ring_op list \<Rightarrow> TRB list \<Rightarrow> TRB list option" where
  "queue_run n [] q = Some []"
| "queue_run n (Send t # ops) q = (if length q + 2 < n \<and> trb_type t \<noteq> LinkTRB_Type then queue_run n ops (q @ [trb_body t]) else None)"
| "queue_run n (Fetch # ops) q =
     (case q of [] \<Rightarrow> queue_run n ops [] | x # q \<Rightarrow> map_option (\<lambda>xs. x # xs) (queue_run n ops q))"

lemma ring_run_ok:
  "ring_rep r m pc q \<Longrightarrow> queue_run (unat (rg_buf_size r)) ops q = Some xs \<Longrightarrow> ring_run ops r m pc = xs"
proof (induction ops arbitrary: r m pc q xs)
  case (Cons op ops)
  show ?case
  proof (cases op)
    case (Send t)
    then have s: "length q + 2 < unat (rg_buf_size r)" "trb_type t \<noteq> LinkTRB_Type" "queue_run (unat (rg_buf_size r)) ops (q @ [trb_body t]) = Some xs"
      using Cons.prems(2) by (auto split: if_splits)
    obtain r' m' p where "Ring_Push t r m = (r', m', p)" "rg_buf_size r' = rg_buf_size r" "ring_rep r' m' pc (q @ [trb_body t])"
      using ring_push [OF Cons.prems(1) s(1,2)] by auto
    then show ?thesis using Cons.IH [of r' m' pc "q @ [trb_body t]" xs] s(3) Send by simp
  next
    case Fetch
    then show ?thesis
      using ring_fetch [OF Cons.prems(1)] Cons.IH Cons.prems by (cases q) (auto split: option.splits)
  qed
qed simp

text \<open>
  C10: A command or transfer ring is a queue: after it has been initialized, which fails only if the pool has no room, whatever blocks the driver sends and whenever
  the controller fetches them, in any order and across any number of wraps, the controller gets the blocks in the order they were sent, each once and
  with its contents, as long as no more than \<open>n - 2\<close> blocks are on the way in a ring of \<open>n\<close>; and it stops where there is nothing.
\<close>

theorem Ring_correct:
  assumes "3 \<le> unat n" "unat n \<le> 4096" "um_ok um" "queue_run (unat n) ops [] = Some xs"
  shows "\<exists>r' um' m' e. Ring_Initialize n r um m = (r', um', m', e) \<and> um_ok um' \<and>
    (if has_room um (unat n) then e = kSuccess \<and> ring_run ops r' m' (rg_buf r', True) = xs else e = kNoEnoughMemory)"
proof -
  obtain r' um' m' e where "Ring_Initialize n r um m = (r', um', m', e)" "um_ok um'"
    "if has_room um (unat n) then e = kSuccess \<and> ring_rep r' m' (rg_buf r', True) [] \<and> rg_buf_size r' = n else e = kNoEnoughMemory"
    using ring_new [OF assms(1-3), of r m] by auto
  then show ?thesis using ring_run_ok [of r' m' "(rg_buf r', True)" "[]" ops xs] assms(4) by auto
qed

text \<open>Five blocks through a ring of four, which wraps once.\<close>

theorem Ring_correct_witness:
  "3 \<le> unat (4 :: u64) \<and> um_ok \<lparr>um_pool = 0x100000, um_alloc_ptr = 0x100000\<rparr> \<and>
   (\<exists>r' um' m'. Ring_Initialize 4 Ring_null \<lparr>um_pool = 0x100000, um_alloc_ptr = 0x100000\<rparr> (\<lambda>a. TRB_zero) = (r', um', m', kSuccess) \<and>
     ring_run [Send NormalTRB_new, Fetch, Send EnableSlotCommandTRB_new, Send StatusStageTRB_new, Fetch, Send DataStageTRB_new, Fetch, Send NormalTRB_new, Fetch, Fetch, Fetch]
       r' m' (rg_buf r', True) = map trb_body [NormalTRB_new, EnableSlotCommandTRB_new, StatusStageTRB_new, DataStageTRB_new, NormalTRB_new])"
proof -
  have ty: "trb_type (set_trb_type v TRB_zero) = take_bit 6 v" for v by (simp add: trb_type_def set_trb_type_def get_put_field)
  have "queue_run (unat (4 :: u64)) [Send NormalTRB_new, Fetch, Send EnableSlotCommandTRB_new, Send StatusStageTRB_new, Fetch, Send DataStageTRB_new, Fetch, Send NormalTRB_new, Fetch, Fetch, Fetch] [] =
      Some (map trb_body [NormalTRB_new, EnableSlotCommandTRB_new, StatusStageTRB_new, DataStageTRB_new, NormalTRB_new])"
    by (simp add: NormalTRB_new_def EnableSlotCommandTRB_new_def StatusStageTRB_new_def DataStageTRB_new_def ty trb_types)
  moreover have "um_ok \<lparr>um_pool = 0x100000, um_alloc_ptr = 0x100000\<rparr>" by (simp add: um_ok_def round_up_def)
  moreover have "has_room \<lparr>um_pool = 0x100000, um_alloc_ptr = 0x100000\<rparr> (unat (4 :: u64))"
    unfolding has_room_def by (rule exI [of _ "0x100000"]) (simp add: fits_at_def)
  ultimately show ?thesis using Ring_correct [of 4 "\<lparr>um_pool = 0x100000, um_alloc_ptr = 0x100000\<rparr>"
      "[Send NormalTRB_new, Fetch, Send EnableSlotCommandTRB_new, Send StatusStageTRB_new, Fetch, Send DataStageTRB_new, Fetch, Send NormalTRB_new, Fetch, Fetch, Fetch]"
      "map trb_body [NormalTRB_new, EnableSlotCommandTRB_new, StatusStageTRB_new, DataStageTRB_new, NormalTRB_new]" Ring_null "\<lambda>a. TRB_zero"] by auto
qed

interpretation xhc: block_source "\<lambda>(r, m, pc). xhc_fetch m pc \<noteq> None" "\<lambda>(r, m, pc). fst (the (xhc_fetch m pc))"
  "\<lambda>(r, m, pc). (r, m, snd (the (xhc_fetch m pc)))" "\<lambda>(r, m, pc) q. ring_rep r m pc q"
proof -
  have f: "ring_rep r m pc q \<Longrightarrow> (case q of [] \<Rightarrow> xhc_fetch m pc = None | x # q' \<Rightarrow> \<exists>pc'. xhc_fetch m pc = Some (x, pc') \<and> ring_rep r m pc' q')" for r m pc q
    by (rule ring_fetch)
  show "block_source (\<lambda>(r, m, pc). xhc_fetch m pc \<noteq> None) (\<lambda>(r, m, pc). fst (the (xhc_fetch m pc)))
    (\<lambda>(r, m, pc). (r, m, snd (the (xhc_fetch m pc)))) (\<lambda>(r, m, pc) q. ring_rep r m pc q)"
    by unfold_locales (use f in \<open>fastforce split: list.splits\<close>)+
qed

section \<open>Events reach the driver in order\<close>

text \<open>The controller writes an event at its enqueue position, with its cycle state.\<close>

definition xhc_post :: "u64 \<Rightarrow> nat \<Rightarrow> TRB \<Rightarrow> nat \<times> bool \<Rightarrow> trbs \<Rightarrow> trbs \<times> nat \<times> bool" where
  "xhc_post base n t = (\<lambda>(w, c) m. (m(trb_at base (of_nat w) := set_cycle_bit c t), wrap n w c))"

definition er_rep :: "nat \<times> bool \<Rightarrow> trbs \<Rightarrow> EventRing \<Rightarrow> TRB list \<Rightarrow> bool" where
  "er_rep pc m e q \<longleftrightarrow> 0 < unat (er_segment_size e) \<and> take_bit 4 (er_segment_base e) = 0 \<and>
     (\<exists>d. ReadDequeuePointer e = trb_at (er_segment_base e) (of_nat d) \<and>
       cyc_inv (unat (er_segment_size e)) (\<lambda>i. m (trb_at (er_segment_base e) (of_nat i))) (fst pc) (snd pc) d (er_cycle_bit e) q)"

lemma trb_at_aligned:
  assumes "take_bit 4 b = 0"
  shows "take_bit 4 (trb_at b i) = 0"
proof -
  have d: "take_bit 4 x = 0 \<longleftrightarrow> 16 dvd unat x" for x :: u64
  proof -
    have "unat (take_bit 4 x) = unat x mod 16" by (subst unsigned_take_bit_eq) (simp add: take_bit_eq_mod)
    then show ?thesis using unsigned_eq_0_iff [of "take_bit 4 x", where ?'a = nat] by (simp only: dvd_eq_mod_eq_0)
  qed
  have "(16 :: nat) dvd 2 ^ 64" by (simp add: dvd_def)
  then have "16 dvd unat (b + 16 * i) \<longleftrightarrow> 16 dvd unat b + unat (16 * i)" "16 dvd unat (16 * i) \<longleftrightarrow> 16 dvd 16 * unat i"
    by (simp_all add: unat_word_ariths dvd_mod_iff)
  then show ?thesis using assms unfolding d trb_at_def by (metis dvd_add dvd_triv_left)
qed

lemma dequeue_pointer: "take_bit 4 p = 0 \<Longrightarrow> ReadDequeuePointer (WriteDequeuePointer p e) = p"
  using field_pointer [of 4 60 p "ir_ERDP (er_interrupter e)"]
  by (simp add: ReadDequeuePointer_def WriteDequeuePointer_def ERDP_Pointer_def ERDP_SetPointer_def Let_def)

lemma WriteDequeuePointer_sel [simp]:
  "er_segment_base (WriteDequeuePointer p e) = er_segment_base e" "er_segment_size (WriteDequeuePointer p e) = er_segment_size e"
  "er_cycle_bit (WriteDequeuePointer p e) = er_cycle_bit e"
  by (simp_all add: WriteDequeuePointer_def Let_def)

lemma event_front:
  assumes "er_rep pc m e q"
  shows "HasFront m e \<longleftrightarrow> q \<noteq> []" "q \<noteq> [] \<Longrightarrow> trb_body (m (EventRing_Front e)) = hd q"
proof -
  from assms obtain d where "ReadDequeuePointer e = trb_at (er_segment_base e) (of_nat d)"
    "cyc_inv (unat (er_segment_size e)) (\<lambda>i. m (trb_at (er_segment_base e) (of_nat i))) (fst pc) (snd pc) d (er_cycle_bit e) q"
    unfolding er_rep_def by blast
  from this(1) cyc_front [OF this(2)] show "HasFront m e \<longleftrightarrow> q \<noteq> []" "q \<noteq> [] \<Longrightarrow> trb_body (m (EventRing_Front e)) = hd q"
    by (simp_all add: HasFront_def EventRing_Front_def)
qed

lemma event_pop:
  assumes "er_rep pc m e (x # q)"
  shows "er_rep pc m (EventRing_Pop e) q"
proof -
  let ?b = "er_segment_base e" and ?N = "unat (er_segment_size e)"
  from assms obtain d where d: "0 < ?N" "take_bit 4 ?b = 0" "ReadDequeuePointer e = trb_at ?b (of_nat d)"
    "cyc_inv ?N (\<lambda>i. m (trb_at ?b (of_nat i))) (fst pc) (snd pc) d (er_cycle_bit e) (x # q)" unfolding er_rep_def by blast
  have N: "?N < 2 ^ 16" using unsigned_less [of "er_segment_size e", where ?'a = nat] by simp
  have dN: "d < ?N" using d(4) by (simp add: cyc_inv_def)
  have e: "trb_at ?b (of_nat d) + 16 = ?b + 16 * ucast (er_segment_size e) \<longleftrightarrow> Suc d = ?N"
  proof -
    have "?b + 16 * ucast (er_segment_size e) = trb_at ?b (of_nat ?N)" by (simp add: trb_at_def)
    then show ?thesis using trb_at_inj [of "Suc d" ?N ?b] dN N by (simp add: trb_at_next del: of_nat_Suc)
  qed
  show ?thesis
  proof (cases "Suc d = ?N")
    case True
    then have "EventRing_Pop e = WriteDequeuePointer ?b (e\<lparr>er_cycle_bit := \<not> er_cycle_bit e\<rparr>)" using e d(3) by (simp add: EventRing_Pop_def Let_def)
    moreover have "cyc_inv ?N (\<lambda>i. m (trb_at ?b (of_nat i))) (fst pc) (snd pc) 0 (\<not> er_cycle_bit e) q"
      using cyc_pop [OF d(4)] True by (simp add: wrap_def)
    moreover have "trb_at ?b 0 = ?b" by (simp add: trb_at_def)
    ultimately show ?thesis using d(1,2) by (auto simp: er_rep_def dequeue_pointer intro!: exI [of _ 0])
  next
    case False
    then have "EventRing_Pop e = WriteDequeuePointer (trb_at ?b (of_nat (Suc d))) e" using e d(3)
      by (simp add: EventRing_Pop_def trb_at_next Let_def del: of_nat_Suc)
    moreover have "cyc_inv ?N (\<lambda>i. m (trb_at ?b (of_nat i))) (fst pc) (snd pc) (Suc d) (er_cycle_bit e) q"
      using cyc_pop [OF d(4)] False by (simp add: wrap_def)
    ultimately show ?thesis using d(1,2) by (auto simp: er_rep_def dequeue_pointer trb_at_aligned intro!: exI [of _ "Suc d"])
  qed
qed

interpretation evr: block_source "\<lambda>(m, e). HasFront m e" "\<lambda>(m, e). trb_body (m (EventRing_Front e))" "\<lambda>(m, e). (m, EventRing_Pop e)"
  "\<lambda>(m, e) q. \<exists>pc. er_rep pc m e q"
  by unfold_locales (auto simp: event_front intro: event_pop)

lemma event_post:
  assumes "er_rep pc m e q" "length q < unat (er_segment_size e)" "xhc_post (er_segment_base e) (unat (er_segment_size e)) t pc m = (m', pc')"
  shows "er_rep pc' m' e (q @ [trb_body t])"
proof -
  let ?b = "er_segment_base e" and ?N = "unat (er_segment_size e)"
  obtain w c where pc: "pc = (w, c)" by (cases pc)
  obtain w' c' where pc': "pc' = (w', c')" by (cases pc')
  from assms(1) obtain d where d: "0 < ?N" "take_bit 4 ?b = 0" "ReadDequeuePointer e = trb_at ?b (of_nat d)"
    "cyc_inv ?N (\<lambda>i. m (trb_at ?b (of_nat i))) w c d (er_cycle_bit e) q" unfolding er_rep_def pc by auto
  have N: "?N < 2 ^ 16" using unsigned_less [of "er_segment_size e", where ?'a = nat] by simp
  have w: "w < ?N" using d(4) by (simp add: cyc_inv_def)
  have m': "m' = m(trb_at ?b (of_nat w) := set_cycle_bit c t)" "wrap ?N w c = (w', c')" using assms(3) pc pc' by (auto simp: xhc_post_def)
  have "cyc_inv ?N (\<lambda>i. m' (trb_at ?b (of_nat i))) w' c' d (er_cycle_bit e) (q @ [trb_body (set_cycle_bit c t)])"
    using cyc_push [OF d(4) assms(2), of "set_cycle_bit c t"] m' w N by (simp add: trb_at_inj)
  then show ?thesis using d by (auto simp: er_rep_def pc')
qed

lemma event_new:
  assumes "1 \<le> unat n" "unat n \<le> 4096" "um_ok um" "AllocArray 16 n 64 (64 * 1024) um = (um1, p1)"
  shows "\<exists>e' um' m' c. EventRing_Initialize n i e um m = (e', um', m', c) \<and> um_ok um' \<and>
    (if has_room um (unat n) \<and> has_room um1 1 then c = kSuccess \<and> er_rep (0, True) m' e' [] \<and> unat (er_segment_size e') = unat n else c = kNoEnoughMemory)"
proof -
  obtain um2 p2 where A2: "AllocArray 16 1 64 (64 * 1024) um1 = (um2, p2)" by fastforce
  have P1: "um_ok um1" "take_bit 4 p1 = 0" "p1 \<noteq> 0 \<longleftrightarrow> has_room um (unat n)" using ring_block [OF _ assms(2-4)] assms(1) by auto
  have P2: "um_ok um2" "p2 \<noteq> 0 \<longleftrightarrow> has_room um1 1" using ring_block [OF _ _ P1(1) A2] by auto
  have z: "clear_trbs p1 n m (trb_at p1 (of_nat i)) = TRB_zero" if "i < unat n" for i
    using that assms(2) by (intro clear_trbs_at) simp_all
  have n: "unat (ucast n :: u16) = unat n" using assms(2) by (simp add: unsigned_ucast_eq take_bit_eq_mod)
  have "cyc_inv (unat n) (\<lambda>i. clear_trbs p1 n m (trb_at p1 (of_nat i))) 0 True 0 True []" using assms(1) z by (intro cyc_empty) simp_all
  moreover have "trb_at p1 0 = p1" by (simp add: trb_at_def)
  moreover have "push_bit 4 (get_field 60 4 (put_field 60 4 (drop_bit 4 p1) x)) = p1" for x using field_pointer [of 4 60 p1 x] P1(2) by simp
  ultimately show ?thesis using assms(1,4) A2 P1 P2 n
    by (auto simp: EventRing_Initialize_def FreeMem_def WriteDequeuePointer_def er_rep_def ReadDequeuePointer_def ERDP_Pointer_def ERDP_SetPointer_def Let_def
        intro!: exI [of _ 0])
qed

text \<open>Events posted by the controller and taken by the driver.\<close>

fun event_run :: "ring_op list \<Rightarrow> trbs \<Rightarrow> EventRing \<Rightarrow> nat \<times> bool \<Rightarrow> TRB list" where
  "event_run [] m e pc = []"
| "event_run (Send t # ops) m e pc =
     (let (m, pc) = xhc_post (er_segment_base e) (unat (er_segment_size e)) t pc m in event_run ops m e pc)"
| "event_run (Fetch # ops) m e pc =
     (if HasFront m e then trb_body (m (EventRing_Front e)) # event_run ops m (EventRing_Pop e) pc else event_run ops m e pc)"

lemma EventRing_Pop_size [simp]: "er_segment_size (EventRing_Pop e) = er_segment_size e"
  by (simp add: EventRing_Pop_def Let_def split: prod.splits if_splits)

lemma event_run_ok:
  "er_rep pc m e q \<Longrightarrow> queue_run (unat (er_segment_size e) + 2) ops q = Some xs \<Longrightarrow> event_run ops m e pc = xs"
proof (induction ops arbitrary: m e pc q xs)
  case (Cons op ops)
  show ?case
  proof (cases op)
    case (Send t)
    obtain m' pc' where p: "xhc_post (er_segment_base e) (unat (er_segment_size e)) t pc m = (m', pc')"
      by (cases "xhc_post (er_segment_base e) (unat (er_segment_size e)) t pc m") auto
    have s: "length q < unat (er_segment_size e)" "queue_run (unat (er_segment_size e) + 2) ops (q @ [trb_body t]) = Some xs"
      using Cons.prems(2) Send by (auto split: if_splits)
    from Cons.IH [OF event_post [OF Cons.prems(1) s(1) p] s(2)] Send p show ?thesis by simp
  next
    case Fetch
    show ?thesis
    proof (cases q)
      case Nil
      then show ?thesis using Fetch event_front [OF Cons.prems(1)] Cons.IH Cons.prems by simp
    next
      case (Cons x q')
      then obtain ys where "queue_run (unat (er_segment_size e) + 2) ops q' = Some ys" "xs = x # ys" using Fetch \<open>queue_run _ (op # ops) q = Some xs\<close> by auto
      then show ?thesis using Fetch event_front [OF \<open>er_rep pc m e q\<close>] Cons Cons.IH [OF event_pop [of pc m e x q']] \<open>er_rep pc m e q\<close> by simp
    qed
  qed
qed simp

text \<open>
  C11: The event ring delivers the events of the controller: after a successful initialization, which needs room for the ring and for its segment table, the
  driver takes the events in the order in which they were posted, each once, whenever it looks and across any number of wraps, as long as the controller does
  not post more events than the ring has blocks; it sees none where there is none.
\<close>

theorem EventRing_correct:
  assumes "1 \<le> unat n" "unat n \<le> 4096" "um_ok um" "AllocArray 16 n 64 (64 * 1024) um = (um1, p1)" "queue_run (unat n + 2) ops [] = Some xs"
  shows "\<exists>e' um' m' c. EventRing_Initialize n i e um m = (e', um', m', c) \<and> um_ok um' \<and>
    (if has_room um (unat n) \<and> has_room um1 1 then c = kSuccess \<and> event_run ops m' e' (0, True) = xs else c = kNoEnoughMemory)"
proof -
  obtain e' um' m' c where "EventRing_Initialize n i e um m = (e', um', m', c)" "um_ok um'"
    "if has_room um (unat n) \<and> has_room um1 1 then c = kSuccess \<and> er_rep (0, True) m' e' [] \<and> unat (er_segment_size e') = unat n else c = kNoEnoughMemory"
    using event_new [OF assms(1-4), of i e m] by auto
  then show ?thesis using event_run_ok [of "(0, True)" m' e' "[]" ops xs] assms(5) by auto
qed

theorem EventRing_correct_witness:
  "1 \<le> unat (2 :: u64) \<and> um_ok \<lparr>um_pool = 0x100000, um_alloc_ptr = 0x100000\<rparr> \<and>
   (\<exists>e' um' m'. EventRing_Initialize 2 \<lparr>ir_IMAN = 0, ir_ERSTSZ = 0, ir_ERSTBA = 0, ir_ERDP = 0\<rparr>
        \<lparr>er_buf = 0, er_buf_size = 0, er_cycle_bit = False, er_erst = 0, er_segment_base = 0, er_segment_size = 0,
          er_interrupter = \<lparr>ir_IMAN = 0, ir_ERSTSZ = 0, ir_ERSTBA = 0, ir_ERDP = 0\<rparr>\<rparr>
        \<lparr>um_pool = 0x100000, um_alloc_ptr = 0x100000\<rparr> (\<lambda>a. TRB_zero) = (e', um', m', kSuccess) \<and>
     event_run [Fetch, Send NormalTRB_new, Send StatusStageTRB_new, Fetch, Send DataStageTRB_new, Fetch, Fetch, Fetch] m' e' (0, True) =
       map trb_body [NormalTRB_new, StatusStageTRB_new, DataStageTRB_new])"
proof -
  have ty: "trb_type (set_trb_type v TRB_zero) = take_bit 6 v" for v by (simp add: trb_type_def set_trb_type_def get_put_field)
  have "queue_run (unat (2 :: u64) + 2) [Fetch, Send NormalTRB_new, Send StatusStageTRB_new, Fetch, Send DataStageTRB_new, Fetch, Fetch, Fetch] [] =
      Some (map trb_body [NormalTRB_new, StatusStageTRB_new, DataStageTRB_new])"
    by (simp add: NormalTRB_new_def StatusStageTRB_new_def DataStageTRB_new_def ty trb_types)
  moreover have "um_ok \<lparr>um_pool = 0x100000, um_alloc_ptr = 0x100000\<rparr>" by (simp add: um_ok_def round_up_def)
  moreover have "has_room \<lparr>um_pool = 0x100000, um_alloc_ptr = 0x100000\<rparr> (unat (2 :: u64))"
    unfolding has_room_def by (rule exI [of _ "0x100000"]) (simp add: fits_at_def)
  moreover have "has_room \<lparr>um_pool = 0x100000, um_alloc_ptr = 0x100020\<rparr> 1"
    unfolding has_room_def by (rule exI [of _ "0x100040"]) (simp add: fits_at_def)
  moreover have "AllocArray 16 2 64 (64 * 1024) \<lparr>um_pool = 0x100000, um_alloc_ptr = 0x100000\<rparr> = (\<lparr>um_pool = 0x100000, um_alloc_ptr = 0x100020\<rparr>, 0x100000)"
    by code_simp
  ultimately show ?thesis using EventRing_correct [of 2 "\<lparr>um_pool = 0x100000, um_alloc_ptr = 0x100000\<rparr>" "\<lparr>um_pool = 0x100000, um_alloc_ptr = 0x100020\<rparr>" "0x100000"
      "[Fetch, Send NormalTRB_new, Send StatusStageTRB_new, Fetch, Send DataStageTRB_new, Fetch, Fetch, Fetch]"
      "map trb_body [NormalTRB_new, StatusStageTRB_new, DataStageTRB_new]" "\<lparr>ir_IMAN = 0, ir_ERSTSZ = 0, ir_ERSTBA = 0, ir_ERDP = 0\<rparr>"
      "\<lparr>er_buf = 0, er_buf_size = 0, er_cycle_bit = False, er_erst = 0, er_segment_base = 0, er_segment_size = 0,
          er_interrupter = \<lparr>ir_IMAN = 0, ir_ERSTSZ = 0, ir_ERSTBA = 0, ir_ERDP = 0\<rparr>\<rparr>" "\<lambda>a. TRB_zero"] by (auto simp del: event_run.simps queue_run.simps)
qed

end
