(* ===== verification/UsbDesc.thy ===== *)
theory UsbDesc
  imports Bitfields
begin

text \<open>
  Endpoints, requests and descriptors of USB (\<^verbatim>\<open>src/src/usb/endpoint.hpp\<close>, \<^verbatim>\<open>usb/setupdata.hpp\<close>, \<^verbatim>\<open>usb/descriptor.hpp\<close>) and the reader of
  configuration descriptors (\<^verbatim>\<open>usb/device.cpp\<close>). The descriptors lie in the memory of bytes into which the host controller has written them. A device chooses their
  contents, so a walk over them need not end: the loops are partial functions.
\<close>

section \<open>Endpoints\<close>

datatype EndpointType = kControl | kIsochronous | kBulk | kInterrupt

record EndpointID =
  ep_addr :: int

definition EndpointID_default :: EndpointID where
  "EndpointID_default = \<lparr>ep_addr = 0\<rparr>"

definition EndpointID_new :: "int \<Rightarrow> bool \<Rightarrow> EndpointID" where
  "EndpointID_new ep_num dir_in = \<lparr>ep_addr = push_bit 1 ep_num OR of_bool dir_in\<rparr>"

definition Address :: "EndpointID \<Rightarrow> int" where
  "Address e = ep_addr e"

definition Number :: "EndpointID \<Rightarrow> int" where
  "Number e = drop_bit 1 (ep_addr e)"

definition IsIn :: "EndpointID \<Rightarrow> bool" where
  "IsIn e \<longleftrightarrow> ep_addr e AND 1 \<noteq> 0"

definition kDefaultControlPipeID :: EndpointID where
  "kDefaultControlPipeID = EndpointID_new 0 True"

record EndpointConfig =
  ep_id :: EndpointID
  ep_type :: EndpointType
  max_packet_size :: int
  interval :: int

lemma EndpointID_fields [simp]:
  "Number (EndpointID_new n d) = n" "IsIn (EndpointID_new n d) = d" "Address (EndpointID_new n d) = 2 * n + of_bool d"
proof -
  have "n * 2 OR 1 = 2 * n + 1" unfolding or_one_eq by simp
  then have e: "EndpointID_new n d = \<lparr>ep_addr = 2 * n + of_bool d\<rparr>" by (simp add: EndpointID_new_def push_bit_eq_mult)
  show "Address (EndpointID_new n d) = 2 * n + of_bool d" by (simp add: Address_def e)
  show "Number (EndpointID_new n d) = n" by (simp add: Number_def e drop_bit_eq_div)
  show "IsIn (EndpointID_new n d) = d" by (simp add: IsIn_def e and_one_eq)
qed

section \<open>Requests\<close>

record SetupData =
  sd_request_type :: u8
  sd_request :: u8
  sd_value :: u16
  sd_index :: u16
  sd_length :: u16

definition SetupData_zero :: SetupData where
  "SetupData_zero = \<lparr>sd_request_type = 0, sd_request = 0, sd_value = 0, sd_index = 0, sd_length = 0\<rparr>"

definition rt_kDevice :: u8 where "rt_kDevice = 0"
definition rt_kInterface :: u8 where "rt_kInterface = 1"
definition rt_kStandard :: u8 where "rt_kStandard = 0"
definition rt_kClass :: u8 where "rt_kClass = 1"
definition rt_kOut :: u8 where "rt_kOut = 0"
definition rt_kIn :: u8 where "rt_kIn = 1"
definition kGetDescriptor :: u8 where "kGetDescriptor = 6"
definition kSetConfiguration :: u8 where "kSetConfiguration = 9"
definition kSetProtocol :: u8 where "kSetProtocol = 11"

definition set_direction :: "u8 \<Rightarrow> SetupData \<Rightarrow> SetupData" where
  "set_direction v s = s\<lparr>sd_request_type := put_field 1 7 v (sd_request_type s)\<rparr>"

definition set_type :: "u8 \<Rightarrow> SetupData \<Rightarrow> SetupData" where
  "set_type v s = s\<lparr>sd_request_type := put_field 2 5 v (sd_request_type s)\<rparr>"

definition set_recipient :: "u8 \<Rightarrow> SetupData \<Rightarrow> SetupData" where
  "set_recipient v s = s\<lparr>sd_request_type := put_field 5 0 v (sd_request_type s)\<rparr>"

section \<open>Descriptors\<close>

type_synonym bytes = "u64 \<Rightarrow> u8"

definition DeviceDescriptor_kType :: u8 where "DeviceDescriptor_kType = 1"
definition ConfigurationDescriptor_kType :: u8 where "ConfigurationDescriptor_kType = 2"
definition InterfaceDescriptor_kType :: u8 where "InterfaceDescriptor_kType = 4"
definition EndpointDescriptor_kType :: u8 where "EndpointDescriptor_kType = 5"
definition HIDDescriptor_kType :: u8 where "HIDDescriptor_kType = 33"

lemmas descriptor_types = DeviceDescriptor_kType_def ConfigurationDescriptor_kType_def InterfaceDescriptor_kType_def
  EndpointDescriptor_kType_def HIDDescriptor_kType_def

definition DescriptorDynamicCast :: "u8 \<Rightarrow> bytes \<Rightarrow> u64 \<Rightarrow> bool" where
  "DescriptorDynamicCast kType m desc_data \<longleftrightarrow> m (desc_data + 1) = kType"

text \<open>The members that are read, by their offsets.\<close>

definition num_configurations :: "bytes \<Rightarrow> u64 \<Rightarrow> u8" where "num_configurations m d = m (d + 17)"
definition configuration_value :: "bytes \<Rightarrow> u64 \<Rightarrow> u8" where "configuration_value m d = m (d + 5)"
definition interface_number :: "bytes \<Rightarrow> u64 \<Rightarrow> u8" where "interface_number m d = m (d + 2)"
definition num_endpoints :: "bytes \<Rightarrow> u64 \<Rightarrow> u8" where "num_endpoints m d = m (d + 4)"
definition interface_class :: "bytes \<Rightarrow> u64 \<Rightarrow> u8" where "interface_class m d = m (d + 5)"
definition interface_sub_class :: "bytes \<Rightarrow> u64 \<Rightarrow> u8" where "interface_sub_class m d = m (d + 6)"
definition interface_protocol :: "bytes \<Rightarrow> u64 \<Rightarrow> u8" where "interface_protocol m d = m (d + 7)"
definition endpoint_address :: "bytes \<Rightarrow> u64 \<Rightarrow> u8" where "endpoint_address m d = m (d + 2)"
definition ep_attributes :: "bytes \<Rightarrow> u64 \<Rightarrow> u8" where "ep_attributes m d = m (d + 3)"
definition ep_max_packet_size :: "bytes \<Rightarrow> u64 \<Rightarrow> u16" where "ep_max_packet_size m d = ucast (m (d + 4)) OR push_bit 8 (ucast (m (d + 5)))"
definition ep_interval :: "bytes \<Rightarrow> u64 \<Rightarrow> u8" where "ep_interval m d = m (d + 6)"

definition EndpointType_of :: "u8 \<Rightarrow> EndpointType" where
  "EndpointType_of v = (if v = 0 then kControl else if v = 1 then kIsochronous else if v = 2 then kBulk else kInterrupt)"

definition MakeEPConfig :: "bytes \<Rightarrow> u64 \<Rightarrow> EndpointConfig" where
  "MakeEPConfig m ep_desc =
     \<lparr>ep_id = EndpointID_new (uint (get_field 4 0 (endpoint_address m ep_desc))) (get_field 1 7 (endpoint_address m ep_desc) = 1),
      ep_type = EndpointType_of (get_field 2 0 (ep_attributes m ep_desc)),
      max_packet_size = uint (ep_max_packet_size m ep_desc),
      interval = uint (ep_interval m ep_desc)\<rparr>"

section \<open>The reader of configuration descriptors\<close>

record ConfigurationDescriptorReader =
  cr_buf :: u64
  cr_len :: int
  cr_p :: u64

definition ConfigurationDescriptorReader_new :: "u64 \<Rightarrow> int \<Rightarrow> ConfigurationDescriptorReader" where
  "ConfigurationDescriptorReader_new desc_buf len = \<lparr>cr_buf = desc_buf, cr_len = len, cr_p = desc_buf\<rparr>"

definition Next :: "bytes \<Rightarrow> ConfigurationDescriptorReader \<Rightarrow> u64 \<times> ConfigurationDescriptorReader" where
  "Next m r =
     (let r = r\<lparr>cr_p := cr_p r + ucast (m (cr_p r))\<rparr>
      in if cr_p r < cr_buf r + word_of_int (cr_len r) then (cr_p r, r) else (0, r))"

partial_function (option) Next_of :: "u8 \<Rightarrow> bytes \<Rightarrow> ConfigurationDescriptorReader \<Rightarrow> (u64 \<times> ConfigurationDescriptorReader) option" where
  "Next_of kType m r =
     (let (n, r) = Next m r
      in if n = 0 then Some (0, r) else if DescriptorDynamicCast kType m n then Some (n, r) else Next_of kType m r)"

section \<open>Sequences of descriptors\<close>

text \<open>A descriptor is the list of its bytes; the first is their number.\<close>

definition desc_ok :: "u8 list \<Rightarrow> bool" where
  "desc_ok d \<longleftrightarrow> 2 \<le> length d \<and> length d < 256 \<and> d ! 0 = of_nat (length d)"

fun descs_at :: "bytes \<Rightarrow> u64 \<Rightarrow> u8 list list \<Rightarrow> bool" where
  "descs_at m p [] \<longleftrightarrow> True"
| "descs_at m p (d # ds) \<longleftrightarrow> desc_ok d \<and> (\<forall>i < length d. m (p + of_nat i) = d ! i) \<and> descs_at m (p + of_nat (length d)) ds"

definition reader_rep :: "bytes \<Rightarrow> ConfigurationDescriptorReader \<Rightarrow> u8 list list \<Rightarrow> bool" where
  "reader_rep m r ds \<longleftrightarrow> (\<exists>d0. descs_at m (cr_p r) (d0 # ds) \<and> 0 < unat (cr_p r) \<and>
     unat (cr_p r) + length (concat (d0 # ds)) = unat (cr_buf r + word_of_int (cr_len r)))"

lemma desc_length:
  assumes "descs_at m p (d # ds)"
  shows "m p = of_nat (length d)" "(ucast (m p) :: u64) = of_nat (length d)" "m (p + 1) = d ! 1"
proof -
  have d: "desc_ok d" "\<forall>i < length d. m (p + of_nat i) = d ! i" using assms by auto
  show l: "m p = of_nat (length d)" using d(2) [rule_format, of 0] d(1) by (cases d) (auto simp: desc_ok_def)
  show "(ucast (m p) :: u64) = of_nat (length d)" unfolding l using d(1)
    by (auto simp: word_unat_eq_iff desc_ok_def unsigned_ucast_eq unsigned_of_nat take_bit_nat_eq_self)
  show "m (p + 1) = d ! 1" using d(2) [rule_format, of 1] d(1) by (auto simp: desc_ok_def)
qed

lemma Next_step:
  assumes "reader_rep m r ds"
  shows "case ds of [] \<Rightarrow> fst (Next m r) = 0
    | d # ds' \<Rightarrow> \<exists>n r'. Next m r = (n, r') \<and> n \<noteq> 0 \<and> descs_at m n (d # ds') \<and> reader_rep m r' ds' \<and> cr_buf r' = cr_buf r \<and> cr_len r' = cr_len r \<and>
        unat n + length d \<le> unat (cr_buf r + word_of_int (cr_len r))"
proof -
  obtain d0 where d0: "descs_at m (cr_p r) (d0 # ds)" "0 < unat (cr_p r)"
    "unat (cr_p r) + length (concat (d0 # ds)) = unat (cr_buf r + word_of_int (cr_len r))"
    using assms by (auto simp: reader_rep_def)
  have lt: "unat (cr_p r) + length (concat (d0 # ds)) < 2 ^ 64" unfolding d0(3) using unsigned_less [of "cr_buf r + word_of_int (cr_len r)", where ?'a = nat] by simp
  have p: "unat (cr_p r + of_nat (length d0)) = unat (cr_p r) + length d0"
    using lt by (subst unat_add_nowrap) (simp_all add: unsigned_of_nat take_bit_nat_eq_self)
  show ?thesis
  proof (cases ds)
    case Nil
    then show ?thesis using d0(3) p desc_length(2) [OF d0(1)] by (simp add: Next_def word_less_nat_alt)
  next
    case (Cons d ds')
    have ok: "desc_ok d" using d0(1) Cons by simp
    then have "cr_p r + of_nat (length d0) < cr_buf r + word_of_int (cr_len r)"
      unfolding word_less_nat_alt p d0(3) [symmetric] using Cons by (auto simp: desc_ok_def)
    moreover have "cr_p r + of_nat (length d0) \<noteq> 0" using p d0(2) by (metis add_is_0 less_numeral_extra(3) unat_0)
    moreover have "reader_rep m (r\<lparr>cr_p := cr_p r + of_nat (length d0)\<rparr>) ds'"
      unfolding reader_rep_def using d0 p Cons by (intro exI [of _ d]) simp
    ultimately show ?thesis using Cons d0(1) desc_length(2) [OF d0(1)] d0(3) p by (simp add: Next_def)
  qed
qed

lemma Next_of_step:
  "reader_rep m r ds \<Longrightarrow> \<exists>n r'. Next_of ty m r = Some (n, r') \<and>
    (case dropWhile (\<lambda>d. d ! 1 \<noteq> ty) ds of [] \<Rightarrow> n = 0 | d # ds' \<Rightarrow> n \<noteq> 0 \<and> descs_at m n (d # ds') \<and> reader_rep m r' ds' \<and>
      cr_buf r' = cr_buf r \<and> cr_len r' = cr_len r \<and> unat n + length d \<le> unat (cr_buf r + word_of_int (cr_len r)))"
proof (induction ds arbitrary: r)
  case Nil
  then show ?case using Next_step [OF Nil] by (subst Next_of.simps) (auto split: prod.splits)
next
  case (Cons d ds)
  obtain n r' where n: "Next m r = (n, r')" "n \<noteq> 0" "descs_at m n (d # ds)" "reader_rep m r' ds" "cr_buf r' = cr_buf r" "cr_len r' = cr_len r"
    "unat n + length d \<le> unat (cr_buf r + word_of_int (cr_len r))" using Next_step [OF Cons.prems] by auto
  have t: "m (n + 1) = d ! 1" by (rule desc_length(3) [OF n(3)])
  show ?case
  proof (cases "d ! 1 = ty")
    case True
    then show ?thesis using n t by (subst Next_of.simps) (simp add: DescriptorDynamicCast_def)
  next
    case False
    have "Next_of ty m r = Next_of ty m r'" using n(1,2) t False by (subst Next_of.simps) (simp add: DescriptorDynamicCast_def)
    then show ?thesis using Cons.IH [OF n(4)] False unfolding n(5,6) by simp
  qed
qed

lemma reader_new:
  assumes "descs_at m buf (d0 # ds)" "len = int (length (concat (d0 # ds)))" "0 < unat buf" "unat buf + length (concat (d0 # ds)) < 2 ^ 64"
  shows "reader_rep m (ConfigurationDescriptorReader_new buf len) ds"
proof -
  define k where "k = length (concat (d0 # ds))"
  have "unat (buf + of_nat k) = unat buf + k"
    using assms(4) [folded k_def] by (subst unat_add_nowrap) (simp_all add: unsigned_of_nat take_bit_nat_eq_self)
  moreover have "(word_of_int len :: u64) = of_nat k" unfolding assms(2) k_def by (rule of_int_of_nat_eq)
  ultimately show ?thesis
    unfolding reader_rep_def using assms(1,3) k_def by (intro exI [of _ d0]) (simp add: ConfigurationDescriptorReader_new_def del: concat.simps descs_at.simps)
qed

text \<open>A descriptor whose length byte is zero keeps the reader where it is: the search for another type does not end.\<close>

lemma Next_of_stuck:
  assumes "m (cr_p r) = 0" "m (cr_p r + 1) \<noteq> ty" "cr_p r \<noteq> 0" "cr_p r < cr_buf r + word_of_int (cr_len r)"
  shows "Next_of ty m r = None"
proof -
  have n: "Next m r = (cr_p r, r)" using assms by (simp add: Next_def)
  have "\<not> (ty' = ty \<and> m' = m \<and> r' = r)" if "Next_of ty' m' r' = Some x" for ty' m' r' x
    using that
  proof (rule Next_of.raw_induct [rotated], goal_cases)
    case (1 f ty' m' r' x)
    show ?case
    proof
      assume "ty' = ty \<and> m' = m \<and> r' = r"
      with 1(2) n assms(2,3) have "f ty m r = Some x" by (simp add: DescriptorDynamicCast_def)
      with 1(1) show False by blast
    qed
  qed
  then show ?thesis by (metis option.exhaust)
qed

end
