(* ===== verification/UsbDevice.thy ===== *)
theory UsbDevice
  imports Xring UsbDesc
begin

text \<open>
  A device on the bus: its contexts, its transfer rings and requests (\<^verbatim>\<open>src/src/usb/xhci/context.hpp\<close>, \<^verbatim>\<open>usb/xhci/device.{hpp,cpp}\<close>), its initialization in
  three phases (\<^verbatim>\<open>usb/device.{hpp,cpp}\<close>) and the class drivers of keyboards and mice (\<^verbatim>\<open>usb/classdriver\<close>). The class \<^verbatim>\<open>usb::Device\<close> and its
  derived class \<^verbatim>\<open>usb::xhci::Device\<close> are one record; a virtual call goes to the derived class.
  Objects live at addresses of the memory pool; the sizes and member offsets the compiler gives them are parameters. An operation gives \<open>None\<close> where the program has no
  defined behaviour (a null pointer is followed, an array is left) or does not end.
\<close>

section \<open>Contexts\<close>

record SlotContext =
  sc_route_string :: u32
  sc_speed :: u32
  sc_mtt :: u32
  sc_hub :: u32
  sc_context_entries :: u32
  sc_max_exit_latency :: u32
  sc_root_hub_port_num :: u32
  sc_num_ports :: u32
  sc_tt_hub_slot_id :: u32
  sc_tt_port_num :: u32
  sc_ttt :: u32
  sc_interrupter_target :: u32
  sc_usb_device_address :: u32
  sc_slot_state :: u32

definition SlotContext_zero :: SlotContext where
  "SlotContext_zero = \<lparr>sc_route_string = 0, sc_speed = 0, sc_mtt = 0, sc_hub = 0, sc_context_entries = 0, sc_max_exit_latency = 0, sc_root_hub_port_num = 0,
     sc_num_ports = 0, sc_tt_hub_slot_id = 0, sc_tt_port_num = 0, sc_ttt = 0, sc_interrupter_target = 0, sc_usb_device_address = 0, sc_slot_state = 0\<rparr>"

record EndpointContext =
  ec_ep_state :: u32
  ec_mult :: u32
  ec_max_primary_streams :: u32
  ec_linear_stream_array :: u32
  ec_interval :: u32
  ec_max_esit_payload_hi :: u32
  ec_error_count :: u32
  ec_ep_type :: u32
  ec_host_initiate_disable :: u32
  ec_max_burst_size :: u32
  ec_max_packet_size :: u32
  ec_dequeue_cycle_state :: u32
  ec_tr_dequeue_pointer :: u64
  ec_average_trb_length :: u32
  ec_max_esit_payload_lo :: u32

definition EndpointContext_zero :: EndpointContext where
  "EndpointContext_zero = \<lparr>ec_ep_state = 0, ec_mult = 0, ec_max_primary_streams = 0, ec_linear_stream_array = 0, ec_interval = 0, ec_max_esit_payload_hi = 0,
     ec_error_count = 0, ec_ep_type = 0, ec_host_initiate_disable = 0, ec_max_burst_size = 0, ec_max_packet_size = 0, ec_dequeue_cycle_state = 0,
     ec_tr_dequeue_pointer = 0, ec_average_trb_length = 0, ec_max_esit_payload_lo = 0\<rparr>"

definition TransferRingBuffer :: "EndpointContext \<Rightarrow> u64" where
  "TransferRingBuffer c = push_bit 4 (ec_tr_dequeue_pointer c)"

definition SetTransferRingBuffer :: "u64 \<Rightarrow> EndpointContext \<Rightarrow> EndpointContext" where
  "SetTransferRingBuffer buffer c = c\<lparr>ec_tr_dequeue_pointer := take_bit 60 (drop_bit 4 buffer)\<rparr>"

definition DeviceContextIndex :: "int \<Rightarrow> bool \<Rightarrow> int" where
  "DeviceContextIndex ep_num dir_in = 2 * ep_num + (if ep_num = 0 then 1 else of_bool dir_in)"

record DeviceContext =
  dc_slot_context :: SlotContext
  dc_ep_contexts :: "EndpointContext list"

record InputControlContext =
  ic_drop_context_flags :: u32
  ic_add_context_flags :: u32
  ic_configuration_value :: u8
  ic_interface_number :: u8
  ic_alternate_setting :: u8

definition InputControlContext_zero :: InputControlContext where
  "InputControlContext_zero = \<lparr>ic_drop_context_flags = 0, ic_add_context_flags = 0, ic_configuration_value = 0, ic_interface_number = 0, ic_alternate_setting = 0\<rparr>"

record InputContext =
  in_control :: InputControlContext
  in_slot_context :: SlotContext
  in_ep_contexts :: "EndpointContext list"

text \<open>\<open>EnableSlotContext\<close> and \<open>EnableEndpoint\<close> set the flag; the pointer they return is the slot context, or the endpoint context with index \<open>dci - 1\<close>.\<close>

definition EnableSlotContext :: "InputContext \<Rightarrow> InputContext" where
  "EnableSlotContext c = (let i = in_control c in c\<lparr>in_control := i\<lparr>ic_add_context_flags := ic_add_context_flags i OR 1\<rparr>\<rparr>)"

definition EnableEndpoint :: "int \<Rightarrow> InputContext \<Rightarrow> InputContext" where
  "EnableEndpoint dci c = (let i = in_control c in c\<lparr>in_control := i\<lparr>ic_add_context_flags := ic_add_context_flags i OR push_bit (nat dci) 1\<rparr>\<rparr>)"

section \<open>Drivers, devices and the state of the stack\<close>

datatype hid_kind = Keyboard | Mouse

record HIDDriver =
  hd_kind :: hid_kind
  hd_interface_index :: int
  hd_in_packet_size :: int
  hd_initialize_phase :: int
  hd_ep_interrupt_in :: EndpointID
  hd_ep_interrupt_out :: EndpointID
  hd_buf :: u64
  hd_previous_buf :: "u8 list"
  hd_observers :: "nat list"

definition kBufferSize :: nat where "kBufferSize = 1024"

datatype DeviceState = kInvalid | kBlank | kSlotAssigning | kSlotAssigned

record UsbDev =
  dv_addr :: u64
  dv_ctx :: DeviceContext
  dv_input_ctx :: InputContext
  dv_slot_id :: u8
  dv_state :: DeviceState
  dv_transfer_rings :: "Ring option list"
  dv_setup_stage_map :: "(u64, u64) ArrayMap"
  dv_class_drivers :: "u64 list"
  dv_num_configurations :: u8
  dv_config_index :: u8
  dv_is_initialized :: bool
  dv_initialize_phase :: int
  dv_ep_configs :: "EndpointConfig list"
  dv_num_ep_configs :: int
  dv_event_waiters :: "(SetupData, u64) ArrayMap"

text \<open>Sizes and offsets: of a device, its contexts and its buffer, of a ring, of the drivers and of the buffer of a driver.\<close>

record abi =
  ab_Device :: u64
  ab_ctx :: u64
  ab_input_ctx :: u64
  ab_buf :: u64
  ab_Ring :: u64
  ab_keyboard :: u64
  ab_mouse :: u64
  ab_hid_buf :: u64

text \<open>Observers are numbers; a notification is an observer with what it is told.\<close>

datatype notice = KeyPush nat u8 | MouseMove nat int int

record usb =
  us_um :: usbmem
  us_trbs :: trbs
  us_bytes :: bytes
  us_drivers :: "u64 \<Rightarrow> HIDDriver option"
  us_bells :: "(u8 \<times> u32) list"
  us_notes :: "notice list"
  us_keyboard_observer :: "nat option"
  us_mouse_observer :: "nat option"

text \<open>A doorbell is a register at an index; ringing it writes target and stream.\<close>

definition Doorbell_Ring :: "u8 \<Rightarrow> u8 \<Rightarrow> u16 \<Rightarrow> usb \<Rightarrow> usb" where
  "Doorbell_Ring index target stream_id s =
     (let v = put_field 8 0 (ucast target) 0; v = put_field 16 16 (ucast stream_id) v in s\<lparr>us_bells := us_bells s @ [(index, v)]\<rparr>)"

section \<open>Requests\<close>

definition MakeSetupStageTRB :: "SetupData \<Rightarrow> u32 \<Rightarrow> TRB" where
  "MakeSetupStageTRB setup_data transfer_type =
     (let t = SetupStageTRB_new;
          t = t\<lparr>t_0 := put_field 8 0 (ucast (sd_request_type setup_data)) (t_0 t)\<rparr>;
          t = t\<lparr>t_0 := put_field 8 8 (ucast (sd_request setup_data)) (t_0 t)\<rparr>;
          t = t\<lparr>t_0 := put_field 16 16 (ucast (sd_value setup_data)) (t_0 t)\<rparr>;
          t = t\<lparr>t_1 := put_field 16 0 (ucast (sd_index setup_data)) (t_1 t)\<rparr>;
          t = t\<lparr>t_1 := put_field 16 16 (ucast (sd_length setup_data)) (t_1 t)\<rparr>
      in t\<lparr>t_3 := put_field 2 16 transfer_type (t_3 t)\<rparr>)"

definition MakeDataStageTRB :: "u64 \<Rightarrow> int \<Rightarrow> bool \<Rightarrow> TRB" where
  "MakeDataStageTRB buf len dir_in =
     (let t = set_parameter buf DataStageTRB_new;
          t = t\<lparr>t_2 := put_field 17 0 (word_of_int len) (t_2 t)\<rparr>;
          t = t\<lparr>t_2 := put_field 5 17 0 (t_2 t)\<rparr>
      in t\<lparr>t_3 := put_field 1 16 (of_bool dir_in) (t_3 t)\<rparr>)"

definition set_interrupt_on_completion :: "TRB \<Rightarrow> TRB" where
  "set_interrupt_on_completion t = t\<lparr>t_3 := put_field 1 5 1 (t_3 t)\<rparr>"

definition set_interrupt_on_short_packet :: "TRB \<Rightarrow> TRB" where
  "set_interrupt_on_short_packet t = t\<lparr>t_3 := put_field 1 2 1 (t_3 t)\<rparr>"

definition set_status_direction :: "bool \<Rightarrow> TRB \<Rightarrow> TRB" where
  "set_status_direction b t = t\<lparr>t_3 := put_field 1 16 (of_bool b) (t_3 t)\<rparr>"

text \<open>The ring at an index of \<^verbatim>\<open>transfer_rings_\<close>, and pushing a block to it.\<close>

definition transfer_ring :: "int \<Rightarrow> UsbDev \<Rightarrow> Ring option option" where
  "transfer_ring dci d = aget (dv_transfer_rings d) (dci - 1)"

definition push_transfer :: "int \<Rightarrow> TRB \<Rightarrow> UsbDev \<Rightarrow> usb \<Rightarrow> (UsbDev \<times> usb \<times> u64) option" where
  "push_transfer dci t d s = do {
     r \<leftarrow> transfer_ring dci d;
     r \<leftarrow> r;
     let (r, m, p) = Ring_Push t r (us_trbs s);
     rs \<leftarrow> aset (dv_transfer_rings d) (dci - 1) (Some r);
     Some (d\<lparr>dv_transfer_rings := rs\<rparr>, s\<lparr>us_trbs := m\<rparr>, p)
   }"

definition cast_setup :: "u64 \<Rightarrow> usb \<Rightarrow> u64" where
  "cast_setup p s = (if TRBDynamicCast SetupStageTRB_Type (us_trbs s p) then p else 0)"

definition base_Control :: "SetupData \<Rightarrow> u64 \<Rightarrow> UsbDev \<Rightarrow> UsbDev" where
  "base_Control setup_data issuer d =
     (if issuer \<noteq> 0 then d\<lparr>dv_event_waiters := Put setup_data issuer (dv_event_waiters d)\<rparr> else d)"

definition ControlIn :: "EndpointID \<Rightarrow> SetupData \<Rightarrow> u64 \<Rightarrow> int \<Rightarrow> u64 \<Rightarrow> UsbDev \<Rightarrow> usb \<Rightarrow> (UsbDev \<times> usb \<times> Code) option" where
  "ControlIn ep setup_data buf len issuer d s =
     (let d = base_Control setup_data issuer d
      in if Number ep < 0 \<or> 15 < Number ep then Some (d, s, kInvalidEndpointNumber)
         else do {
           let dci = Address ep;
           tr \<leftarrow> transfer_ring dci d;
           if tr = None then Some (d, s, kTransferRingNotSet)
           else do {
             (d, s) \<leftarrow>
               (if buf \<noteq> 0
                then do {
                  (d, s, p) \<leftarrow> push_transfer dci (MakeSetupStageTRB setup_data kInDataStage) d s;
                  let setup_trb_position = cast_setup p s;
                  (d, s, data_trb_position) \<leftarrow> push_transfer dci (set_interrupt_on_completion (MakeDataStageTRB buf len True)) d s;
                  (d, s, _) \<leftarrow> push_transfer dci StatusStageTRB_new d s;
                  Some (d\<lparr>dv_setup_stage_map := Put data_trb_position setup_trb_position (dv_setup_stage_map d)\<rparr>, s)
                }
                else do {
                  (d, s, p) \<leftarrow> push_transfer dci (MakeSetupStageTRB setup_data kNoDataStage) d s;
                  let setup_trb_position = cast_setup p s;
                  (d, s, status_trb_position) \<leftarrow> push_transfer dci (set_interrupt_on_completion (set_status_direction True StatusStageTRB_new)) d s;
                  Some (d\<lparr>dv_setup_stage_map := Put status_trb_position setup_trb_position (dv_setup_stage_map d)\<rparr>, s)
                });
             Some (d, Doorbell_Ring (dv_slot_id d) (word_of_int dci) 0 s, kSuccess)
           }
         })"

definition ControlOut :: "EndpointID \<Rightarrow> SetupData \<Rightarrow> u64 \<Rightarrow> int \<Rightarrow> u64 \<Rightarrow> UsbDev \<Rightarrow> usb \<Rightarrow> (UsbDev \<times> usb \<times> Code) option" where
  "ControlOut ep setup_data buf len issuer d s =
     (let d = base_Control setup_data issuer d
      in if Number ep < 0 \<or> 15 < Number ep then Some (d, s, kInvalidEndpointNumber)
         else do {
           let dci = Address ep;
           tr \<leftarrow> transfer_ring dci d;
           if tr = None then Some (d, s, kTransferRingNotSet)
           else do {
             let status = set_status_direction True StatusStageTRB_new;
             (d, s) \<leftarrow>
               (if buf \<noteq> 0
                then do {
                  (d, s, p) \<leftarrow> push_transfer dci (MakeSetupStageTRB setup_data kOutDataStage) d s;
                  let setup_trb_position = cast_setup p s;
                  (d, s, data_trb_position) \<leftarrow> push_transfer dci (set_interrupt_on_completion (MakeDataStageTRB buf len False)) d s;
                  (d, s, _) \<leftarrow> push_transfer dci status d s;
                  Some (d\<lparr>dv_setup_stage_map := Put data_trb_position setup_trb_position (dv_setup_stage_map d)\<rparr>, s)
                }
                else do {
                  (d, s, p) \<leftarrow> push_transfer dci (MakeSetupStageTRB setup_data kNoDataStage) d s;
                  let setup_trb_position = cast_setup p s;
                  (d, s, status_trb_position) \<leftarrow> push_transfer dci (set_interrupt_on_completion status) d s;
                  Some (d\<lparr>dv_setup_stage_map := Put status_trb_position setup_trb_position (dv_setup_stage_map d)\<rparr>, s)
                });
             Some (d, Doorbell_Ring (dv_slot_id d) (word_of_int dci) 0 s, kSuccess)
           }
         })"

definition InterruptIn :: "EndpointID \<Rightarrow> u64 \<Rightarrow> int \<Rightarrow> UsbDev \<Rightarrow> usb \<Rightarrow> (UsbDev \<times> usb \<times> Code) option" where
  "InterruptIn ep buf len d s = do {
     let dci = Address ep;
     tr \<leftarrow> transfer_ring dci d;
     if tr = None then Some (d, s, kTransferRingNotSet)
     else do {
       let normal = set_parameter buf NormalTRB_new;
       let normal = normal\<lparr>t_2 := put_field 17 0 (word_of_int len) (t_2 normal)\<rparr>;
       let normal = set_interrupt_on_completion (set_interrupt_on_short_packet normal);
       (d, s, _) \<leftarrow> push_transfer dci normal d s;
       Some (d, Doorbell_Ring (dv_slot_id d) (word_of_int dci) 0 s, kSuccess)
     }
   }"

definition InterruptOut :: "EndpointID \<Rightarrow> u64 \<Rightarrow> int \<Rightarrow> UsbDev \<Rightarrow> usb \<Rightarrow> (UsbDev \<times> usb \<times> Code) option" where
  "InterruptOut ep buf len d s = Some (d, s, kNotImplemented)"

definition AllocTransferRing :: "abi \<Rightarrow> int \<Rightarrow> u64 \<Rightarrow> UsbDev \<Rightarrow> usb \<Rightarrow> (UsbDev \<times> usb \<times> Ring option) option" where
  "AllocTransferRing L index buf_size d s = do {
     let i = index - 1;
     let (um, p) = AllocArray (ab_Ring L) 1 64 4096 (us_um s);
     let (um, m, tr) = (if p \<noteq> 0 then (let (r, um, m, _) = Ring_Initialize buf_size Ring_null um (us_trbs s) in (um, m, Some r)) else (um, us_trbs s, None));
     rs \<leftarrow> aset (dv_transfer_rings d) i tr;
     Some (d\<lparr>dv_transfer_rings := rs\<rparr>, s\<lparr>us_um := um, us_trbs := m\<rparr>, tr)
   }"

definition GetDescriptor :: "EndpointID \<Rightarrow> u8 \<Rightarrow> u8 \<Rightarrow> u64 \<Rightarrow> int \<Rightarrow> UsbDev \<Rightarrow> usb \<Rightarrow> (UsbDev \<times> usb \<times> Code) option" where
  "GetDescriptor ep desc_type desc_index buf len d s =
     (let sd = set_recipient rt_kDevice (set_type rt_kStandard (set_direction rt_kIn SetupData_zero));
          sd = sd\<lparr>sd_request := kGetDescriptor, sd_value := push_bit 8 (ucast desc_type) OR ucast desc_index, sd_index := 0, sd_length := word_of_int len\<rparr>
      in ControlIn ep sd buf len 0 d s)"

definition SetConfiguration :: "EndpointID \<Rightarrow> u8 \<Rightarrow> UsbDev \<Rightarrow> usb \<Rightarrow> (UsbDev \<times> usb \<times> Code) option" where
  "SetConfiguration ep config_value d s =
     (let sd = set_recipient rt_kDevice (set_type rt_kStandard (set_direction rt_kOut SetupData_zero));
          sd = sd\<lparr>sd_request := kSetConfiguration, sd_value := ucast config_value, sd_index := 0, sd_length := 0\<rparr>
      in ControlOut ep sd 0 0 0 d s)"

section \<open>Class drivers\<close>

definition HIDBaseDriver_new :: "hid_kind \<Rightarrow> int \<Rightarrow> int \<Rightarrow> u64 \<Rightarrow> HIDDriver" where
  "HIDBaseDriver_new kind interface_index in_packet_size buf =
     \<lparr>hd_kind = kind, hd_interface_index = interface_index, hd_in_packet_size = in_packet_size, hd_initialize_phase = 0,
      hd_ep_interrupt_in = EndpointID_default, hd_ep_interrupt_out = EndpointID_default, hd_buf = buf, hd_previous_buf = replicate kBufferSize 0, hd_observers = []\<rparr>"

definition hid_Initialize :: Code where
  "hid_Initialize = kNotImplemented"

definition HIDKeyboardDriver_new :: "int \<Rightarrow> u64 \<Rightarrow> HIDDriver" where
  "HIDKeyboardDriver_new interface_index buf = HIDBaseDriver_new Keyboard interface_index 8 buf"

definition HIDMouseDriver_new :: "int \<Rightarrow> u64 \<Rightarrow> HIDDriver" where
  "HIDMouseDriver_new interface_index buf = HIDBaseDriver_new Mouse interface_index 3 buf"

text \<open>The four slots for observers.\<close>

definition Subscribe :: "nat \<Rightarrow> HIDDriver \<Rightarrow> HIDDriver option" where
  "Subscribe observer h = (if length (hd_observers h) < 4 then Some (h\<lparr>hd_observers := hd_observers h @ [observer]\<rparr>) else None)"

definition NotifyKeyPush :: "u8 \<Rightarrow> HIDDriver \<Rightarrow> usb \<Rightarrow> usb" where
  "NotifyKeyPush keycode h s = s\<lparr>us_notes := us_notes s @ map (\<lambda>ob. KeyPush ob keycode) (hd_observers h)\<rparr>"

definition NotifyMouseMove :: "int \<Rightarrow> int \<Rightarrow> HIDDriver \<Rightarrow> usb \<Rightarrow> usb" where
  "NotifyMouseMove displacement_x displacement_y h s =
     s\<lparr>us_notes := us_notes s @ map (\<lambda>ob. MouseMove ob displacement_x displacement_y) (hd_observers h)\<rparr>"

definition buf_at :: "HIDDriver \<Rightarrow> usb \<Rightarrow> nat \<Rightarrow> u8" where
  "buf_at h s i = us_bytes s (hd_buf h + of_nat i)"

definition keyboard_key :: "HIDDriver \<Rightarrow> nat \<Rightarrow> usb \<Rightarrow> usb" where
  "keyboard_key h i s =
     (let key = buf_at h s i
      in if key = 0 then s else if key \<in> set (hd_previous_buf h) then s else NotifyKeyPush key h s)"

definition keyboard_OnDataReceived :: "HIDDriver \<Rightarrow> usb \<Rightarrow> usb" where
  "keyboard_OnDataReceived h s = fold (keyboard_key h) [2..<8] s"

definition mouse_OnDataReceived :: "HIDDriver \<Rightarrow> usb \<Rightarrow> usb" where
  "mouse_OnDataReceived h s = NotifyMouseMove (sint (buf_at h s 1)) (sint (buf_at h s 2)) h s"

definition OnDataReceived :: "HIDDriver \<Rightarrow> usb \<Rightarrow> usb" where
  "OnDataReceived h s = (case hd_kind h of Keyboard \<Rightarrow> keyboard_OnDataReceived h s | Mouse \<Rightarrow> mouse_OnDataReceived h s)"

definition SetEndpoint :: "EndpointConfig \<Rightarrow> HIDDriver \<Rightarrow> HIDDriver" where
  "SetEndpoint config h =
     (if ep_type config = kInterrupt \<and> IsIn (ep_id config) then h\<lparr>hd_ep_interrupt_in := ep_id config\<rparr>
      else if ep_type config = kInterrupt \<and> \<not> IsIn (ep_id config) then h\<lparr>hd_ep_interrupt_out := ep_id config\<rparr>
      else h)"

definition set_driver :: "u64 \<Rightarrow> HIDDriver \<Rightarrow> usb \<Rightarrow> usb" where
  "set_driver p h s = s\<lparr>us_drivers := (us_drivers s)(p := Some h)\<rparr>"

definition hid_OnEndpointsConfigured :: "u64 \<Rightarrow> UsbDev \<Rightarrow> usb \<Rightarrow> (UsbDev \<times> usb \<times> Code) option" where
  "hid_OnEndpointsConfigured p d s = do {
     h \<leftarrow> us_drivers s p;
     let sd = set_recipient rt_kInterface (set_type rt_kClass (set_direction rt_kOut SetupData_zero));
     let sd = sd\<lparr>sd_request := kSetProtocol, sd_value := 0, sd_index := word_of_int (hd_interface_index h), sd_length := 0\<rparr>;
     let s = set_driver p (h\<lparr>hd_initialize_phase := 1\<rparr>) s;
     ControlOut kDefaultControlPipeID sd 0 0 p d s
   }"

definition hid_OnControlCompleted :: "u64 \<Rightarrow> EndpointID \<Rightarrow> SetupData \<Rightarrow> u64 \<Rightarrow> int \<Rightarrow> UsbDev \<Rightarrow> usb \<Rightarrow> (UsbDev \<times> usb \<times> Code) option" where
  "hid_OnControlCompleted p ep setup_data buf len d s = do {
     h \<leftarrow> us_drivers s p;
     if hd_initialize_phase h = 1
     then do {
       let h = h\<lparr>hd_initialize_phase := 2\<rparr>;
       let s = set_driver p h s;
       InterruptIn (hd_ep_interrupt_in h) (hd_buf h) (hd_in_packet_size h) d s
     }
     else Some (d, s, kNotImplemented)
   }"

text \<open>\<^verbatim>\<open>std::copy_n\<close> copies nothing for a length that is not positive.\<close>

definition copy_previous :: "int \<Rightarrow> HIDDriver \<Rightarrow> usb \<Rightarrow> HIDDriver option" where
  "copy_previous len h s =
     (if len \<le> 0 then Some h
      else if len \<le> int kBufferSize then Some (h\<lparr>hd_previous_buf := map (buf_at h s) [0..<nat len] @ drop (nat len) (hd_previous_buf h)\<rparr>)
      else None)"

definition hid_OnInterruptCompleted :: "u64 \<Rightarrow> EndpointID \<Rightarrow> u64 \<Rightarrow> int \<Rightarrow> UsbDev \<Rightarrow> usb \<Rightarrow> (UsbDev \<times> usb \<times> Code) option" where
  "hid_OnInterruptCompleted p ep buf len d s = do {
     h \<leftarrow> us_drivers s p;
     if IsIn ep
     then do {
       let s = OnDataReceived h s;
       h \<leftarrow> copy_previous len h s;
       InterruptIn (hd_ep_interrupt_in h) (hd_buf h) (hd_in_packet_size h) d (set_driver p h s)
     }
     else Some (d, s, kNotImplemented)
   }"

section \<open>Initialization of a device\<close>

text \<open>\<^verbatim>\<open>new\<close> of a driver: the memory comes from the pool, and its buffer is cleared.\<close>

definition clear_bytes :: "u64 \<Rightarrow> nat \<Rightarrow> bytes \<Rightarrow> bytes" where
  "clear_bytes a n m = fold (\<lambda>i m. m(a + of_nat i := 0)) [0..<n] m"

definition new_driver :: "u64 \<Rightarrow> u64 \<Rightarrow> (u64 \<Rightarrow> HIDDriver) \<Rightarrow> nat option \<Rightarrow> usb \<Rightarrow> (usb \<times> u64) option" where
  "new_driver sz hid_buf mk default_observer s = do {
     let (um, p) = AllocMem sz 0 0 (us_um s);
     if p = 0 then None
     else do {
       let h = mk (p + hid_buf);
       h \<leftarrow> (case default_observer of Some ob \<Rightarrow> Subscribe ob h | None \<Rightarrow> Some h);
       Some (set_driver p h (s\<lparr>us_um := um, us_bytes := clear_bytes (p + hid_buf) kBufferSize (us_bytes s)\<rparr>), p)
     }
   }"

definition NewClassDriver :: "abi \<Rightarrow> u64 \<Rightarrow> usb \<Rightarrow> (usb \<times> u64) option" where
  "NewClassDriver L if_desc s =
     (let m = us_bytes s; n = uint (interface_number m if_desc)
      in if interface_class m if_desc = 3 \<and> interface_sub_class m if_desc = 1
         then
           (if interface_protocol m if_desc = 1 then new_driver (ab_keyboard L) (ab_hid_buf L) (HIDKeyboardDriver_new n) (us_keyboard_observer s) s
            else if interface_protocol m if_desc = 2 then new_driver (ab_mouse L) (ab_hid_buf L) (HIDMouseDriver_new n) (us_mouse_observer s) s
            else Some (s, 0))
         else Some (s, 0))"

definition dv_buf :: "abi \<Rightarrow> UsbDev \<Rightarrow> u64" where
  "dv_buf L d = dv_addr d + ab_buf L"

definition StartInitialize :: "abi \<Rightarrow> UsbDev \<Rightarrow> usb \<Rightarrow> (UsbDev \<times> usb \<times> Code) option" where
  "StartInitialize L d s =
     (let d = d\<lparr>dv_is_initialized := False, dv_initialize_phase := 1\<rparr>
      in GetDescriptor kDefaultControlPipeID DeviceDescriptor_kType 0 (dv_buf L d) 256 d s)"

definition InitializePhase1 :: "abi \<Rightarrow> u64 \<Rightarrow> int \<Rightarrow> UsbDev \<Rightarrow> usb \<Rightarrow> (UsbDev \<times> usb \<times> Code) option" where
  "InitializePhase1 L buf len d s =
     (let d = d\<lparr>dv_num_configurations := num_configurations (us_bytes s) buf, dv_config_index := 0, dv_initialize_phase := 2\<rparr>
      in GetDescriptor kDefaultControlPipeID ConfigurationDescriptor_kType (dv_config_index d) (dv_buf L d) 256 d s)"

text \<open>The two loops of phase 2: over the endpoint descriptors of an interface, and over the interfaces.\<close>

partial_function (option) ep_loop ::
  "int \<Rightarrow> u64 \<Rightarrow> bytes \<Rightarrow> ConfigurationDescriptorReader \<Rightarrow> UsbDev \<Rightarrow> (ConfigurationDescriptorReader \<times> UsbDev) option" where
  "ep_loop n_eps class_driver m r d =
     (if dv_num_ep_configs d < n_eps
      then do {
        let (desc, r) = Next m r;
        if desc = 0 then None
        else if DescriptorDynamicCast EndpointDescriptor_kType m desc
        then do {
          let conf = MakeEPConfig m desc;
          confs \<leftarrow> aset (dv_ep_configs d) (dv_num_ep_configs d) conf;
          drivers \<leftarrow> aset (dv_class_drivers d) (Number (ep_id conf)) class_driver;
          ep_loop n_eps class_driver m r
            (d\<lparr>dv_ep_configs := confs, dv_num_ep_configs := dv_num_ep_configs d + 1, dv_class_drivers := drivers\<rparr>)
        }
        else ep_loop n_eps class_driver m r d
      }
      else Some (r, d))"

partial_function (option) if_loop :: "abi \<Rightarrow> ConfigurationDescriptorReader \<Rightarrow> UsbDev \<Rightarrow> usb \<Rightarrow> (UsbDev \<times> usb \<times> u64) option" where
  "if_loop L r d s = do {
     (if_desc, r) \<leftarrow> Next_of InterfaceDescriptor_kType (us_bytes s) r;
     if if_desc = 0 then Some (d, s, 0)
     else do {
       (s, class_driver) \<leftarrow> NewClassDriver L if_desc s;
       if class_driver = 0 then if_loop L r d s
       else do {
         (r, d) \<leftarrow> ep_loop (uint (num_endpoints (us_bytes s) if_desc)) class_driver (us_bytes s) r (d\<lparr>dv_num_ep_configs := 0\<rparr>);
         Some (d, s, class_driver)
       }
     }
   }"

definition InitializePhase2 :: "abi \<Rightarrow> u64 \<Rightarrow> int \<Rightarrow> UsbDev \<Rightarrow> usb \<Rightarrow> (UsbDev \<times> usb \<times> Code) option" where
  "InitializePhase2 L buf len d s =
     (if \<not> DescriptorDynamicCast ConfigurationDescriptor_kType (us_bytes s) buf then Some (d, s, kInvalidDescriptor)
      else do {
        (d, s, class_driver) \<leftarrow> if_loop L (ConfigurationDescriptorReader_new buf len) d s;
        if class_driver = 0 then Some (d, s, kSuccess)
        else SetConfiguration kDefaultControlPipeID (configuration_value (us_bytes s) buf) (d\<lparr>dv_initialize_phase := 3\<rparr>) s
      })"

definition set_endpoint :: "UsbDev \<Rightarrow> nat \<Rightarrow> usb \<Rightarrow> usb option" where
  "set_endpoint d i s = do {
     conf \<leftarrow> aget (dv_ep_configs d) (int i);
     p \<leftarrow> aget (dv_class_drivers d) (Number (ep_id conf));
     h \<leftarrow> us_drivers s p;
     Some (set_driver p (SetEndpoint conf h) s)
   }"

definition InitializePhase3 :: "u8 \<Rightarrow> UsbDev \<Rightarrow> usb \<Rightarrow> (UsbDev \<times> usb \<times> Code) option" where
  "InitializePhase3 config_value d s = do {
     s \<leftarrow> fold (\<lambda>i s. Option.bind s (set_endpoint d i)) [0..<nat (dv_num_ep_configs d)] (Some s);
     Some (d\<lparr>dv_initialize_phase := 4, dv_is_initialized := True\<rparr>, s, kSuccess)
   }"

definition OnControlCompleted :: "abi \<Rightarrow> EndpointID \<Rightarrow> SetupData \<Rightarrow> u64 \<Rightarrow> int \<Rightarrow> UsbDev \<Rightarrow> usb \<Rightarrow> (UsbDev \<times> usb \<times> Code) option" where
  "OnControlCompleted L ep setup_data buf len d s =
     (if dv_is_initialized d
      then (case Get setup_data (dv_event_waiters d) of
              Some w \<Rightarrow> hid_OnControlCompleted w ep setup_data buf len d s
            | None \<Rightarrow> Some (d, s, kNoWaiter))
      else if dv_initialize_phase d = 1
      then
        (if sd_request setup_data = kGetDescriptor
         then (if buf = 0 then None
               else if DescriptorDynamicCast DeviceDescriptor_kType (us_bytes s) buf then InitializePhase1 L buf len d s
               else Some (d, s, kInvalidPhase))
         else Some (d, s, kInvalidPhase))
      else if dv_initialize_phase d = 2
      then
        (if sd_request setup_data = kGetDescriptor
         then (if buf = 0 then None
               else if DescriptorDynamicCast ConfigurationDescriptor_kType (us_bytes s) buf then InitializePhase2 L buf len d s
               else Some (d, s, kInvalidPhase))
         else Some (d, s, kInvalidPhase))
      else if dv_initialize_phase d = 3
      then
        (if sd_request setup_data = kSetConfiguration then InitializePhase3 (ucast (sd_value setup_data AND 0xff)) d s
         else Some (d, s, kInvalidPhase))
      else Some (d, s, kNotImplemented))"

definition OnInterruptCompleted :: "EndpointID \<Rightarrow> u64 \<Rightarrow> int \<Rightarrow> UsbDev \<Rightarrow> usb \<Rightarrow> (UsbDev \<times> usb \<times> Code) option" where
  "OnInterruptCompleted ep buf len d s = do {
     w \<leftarrow> aget (dv_class_drivers d) (Number ep);
     if w \<noteq> 0 then hid_OnInterruptCompleted w ep buf len d s else Some (d, s, kNoWaiter)
   }"

fun configured_loop :: "u64 list \<Rightarrow> UsbDev \<Rightarrow> usb \<Rightarrow> (UsbDev \<times> usb \<times> Code) option" where
  "configured_loop [] d s = Some (d, s, kSuccess)"
| "configured_loop (p # ps) d s =
     (if p \<noteq> 0
      then do {
        (d, s, err) \<leftarrow> hid_OnEndpointsConfigured p d s;
        if is_error err then Some (d, s, err) else configured_loop ps d s
      }
      else configured_loop ps d s)"

definition OnEndpointsConfigured :: "UsbDev \<Rightarrow> usb \<Rightarrow> (UsbDev \<times> usb \<times> Code) option" where
  "OnEndpointsConfigured d s = configured_loop (dv_class_drivers d) d s"

text \<open>The request a setup block was made from.\<close>

definition setup_of :: "TRB \<Rightarrow> SetupData" where
  "setup_of t = \<lparr>sd_request_type = ucast (get_field 8 0 (t_0 t)), sd_request = ucast (get_field 8 8 (t_0 t)), sd_value = ucast (get_field 16 16 (t_0 t)),
     sd_index = ucast (get_field 16 0 (t_1 t)), sd_length = ucast (get_field 16 16 (t_1 t))\<rparr>"

definition OnTransferEventReceived :: "abi \<Rightarrow> TRB \<Rightarrow> UsbDev \<Rightarrow> usb \<Rightarrow> (UsbDev \<times> usb \<times> Code) option" where
  "OnTransferEventReceived L trb d s =
     (let residual_length = trb_transfer_length trb; ep = \<lparr>ep_addr = uint (trb_endpoint_id trb)\<rparr>
      in if completion_code trb \<noteq> 1 \<and> completion_code trb \<noteq> 13 then Some (d, s, kTransferFailed)
         else
           (let issuer_trb = trb_parameter trb; t = us_trbs s issuer_trb
            in if TRBDynamicCast NormalTRB_Type t
               then OnInterruptCompleted ep (trb_parameter t) (sint (stage_length t - residual_length)) d s
               else
                 (case Get issuer_trb (dv_setup_stage_map d) of
                    None \<Rightarrow> Some (d, s, kNoCorrespondingSetupStage)
                  | Some setup_stage_trb \<Rightarrow>
                      (let d = d\<lparr>dv_setup_stage_map := Delete issuer_trb (dv_setup_stage_map d)\<rparr>;
                           setup_data = setup_of (us_trbs s setup_stage_trb)
                       in if TRBDynamicCast DataStageTRB_Type t
                          then OnControlCompleted L ep setup_data (trb_parameter t) (sint (stage_length t - residual_length)) d s
                          else if TRBDynamicCast StatusStageTRB_Type t
                          then OnControlCompleted L ep setup_data 0 0 d s
                          else Some (d, s, kNotImplemented)))))"

text \<open>The other members of the class.\<close>

definition Device_new :: "u64 \<Rightarrow> u8 \<Rightarrow> UsbDev" where
  "Device_new addr slot_id =
     \<lparr>dv_addr = addr, dv_ctx = \<lparr>dc_slot_context = SlotContext_zero, dc_ep_contexts = replicate 31 EndpointContext_zero\<rparr>,
      dv_input_ctx = \<lparr>in_control = InputControlContext_zero, in_slot_context = SlotContext_zero, in_ep_contexts = replicate 31 EndpointContext_zero\<rparr>,
      dv_slot_id = slot_id, dv_state = kInvalid, dv_transfer_rings = replicate 31 None, dv_setup_stage_map = replicate 16 (None, 0),
      dv_class_drivers = replicate 16 0, dv_num_configurations = 0, dv_config_index = 0, dv_is_initialized = False, dv_initialize_phase = 0,
      dv_ep_configs = replicate 16 \<lparr>ep_id = EndpointID_default, ep_type = kControl, max_packet_size = 0, interval = 0\<rparr>, dv_num_ep_configs = 0,
      dv_event_waiters = replicate 4 (None, 0)\<rparr>"

definition Device_Initialize :: "UsbDev \<Rightarrow> UsbDev \<times> Code" where
  "Device_Initialize d = (d\<lparr>dv_state := kBlank\<rparr>, kSuccess)"

definition SelectForSlotAssignment :: "UsbDev \<Rightarrow> UsbDev" where
  "SelectForSlotAssignment d = d\<lparr>dv_state := kSlotAssigning\<rparr>"

end
