(* ===== verification/UsbEnum.thy ===== *)
theory UsbEnum
  imports UsbDevice
begin

text \<open>
  What the device driver of \<^verbatim>\<open>UsbDevice\<close> does: a control request comes back with its completion event to the one who waits for it, the configuration a device
  reports is read as the list of its descriptors, and the reports of a keyboard are turned into the keys that went down.
\<close>

section \<open>Requests come back\<close>

lemma take_bit_ucast [simp]:
  "take_bit 8 (ucast (x :: u8) :: u32) = ucast x" "take_bit 16 (ucast (y :: u16) :: u32) = ucast y"
  "ucast (ucast x :: u32) = x" "ucast (ucast y :: u32) = y"
  by (rule bit_eqI, auto simp: bit_simps dest: bit_imp_le_length)+

lemma set_cycle_words [simp]: "t_0 (set_cycle_bit b t) = t_0 t" "t_1 (set_cycle_bit b t) = t_1 t" "t_2 (set_cycle_bit b t) = t_2 t"
  by (simp_all add: set_cycle_bit_def)

lemma setup_of_Make: "setup_of (set_cycle_bit b (MakeSetupStageTRB sd tt)) = sd"
  by (simp add: setup_of_def MakeSetupStageTRB_def Let_def get_put_field get_put_other)

lemma made_types [simp]:
  "trb_type (MakeSetupStageTRB sd tt) = SetupStageTRB_Type" "trb_type (MakeDataStageTRB p len i) = DataStageTRB_Type"
  "trb_type StatusStageTRB_new = StatusStageTRB_Type" "trb_type NormalTRB_new = NormalTRB_Type"
  "trb_type (set_interrupt_on_completion t) = trb_type t" "trb_type (set_status_direction i t) = trb_type t"
  "trb_type (set_interrupt_on_short_packet t) = trb_type t"
  by (simp_all add: trb_type_def MakeSetupStageTRB_def SetupStageTRB_new_def MakeDataStageTRB_def DataStageTRB_new_def StatusStageTRB_new_def NormalTRB_new_def
      set_trb_type_def set_interrupt_on_completion_def set_status_direction_def set_interrupt_on_short_packet_def Let_def get_put_field get_put_other trb_types)

lemma made_data [simp]:
  "trb_parameter (set_cycle_bit b (set_interrupt_on_completion (MakeDataStageTRB p len i))) = p"
  "stage_length (set_cycle_bit b (set_interrupt_on_completion (MakeDataStageTRB p len i))) = take_bit 17 (word_of_int len)"
proof -
  have "trb_parameter (t\<lparr>t_2 := x\<rparr>) = trb_parameter t" for t x by (simp add: trb_parameter_def)
  then show "trb_parameter (set_cycle_bit b (set_interrupt_on_completion (MakeDataStageTRB p len i))) = p"
    by (simp add: MakeDataStageTRB_def set_interrupt_on_completion_def set_cycle_bit_def Let_def)
  show "stage_length (set_cycle_bit b (set_interrupt_on_completion (MakeDataStageTRB p len i))) = take_bit 17 (word_of_int len)"
    by (simp add: stage_length_def MakeDataStageTRB_def set_interrupt_on_completion_def Let_def get_put_field get_put_other)
qed

text \<open>Three pushes go to three different blocks.\<close>

definition room3 :: "Ring \<Rightarrow> bool" where
  "room3 r \<longleftrightarrow> 4 \<le> unat (rg_buf_size r) \<and> unat (rg_buf_size r) \<le> 2 ^ 16 \<and> unat (rg_write_index r) + 1 < unat (rg_buf_size r)"

definition next_index :: "Ring \<Rightarrow> nat \<Rightarrow> nat" where
  "next_index r i = (if i + 2 = unat (rg_buf_size r) then 0 else i + 1)"

lemma Ring_Push_at:
  assumes "room3 r" "Ring_Push t r m = (r', m', p)"
  shows "room3 r'" "rg_buf r' = rg_buf r" "rg_buf_size r' = rg_buf_size r" "unat (rg_write_index r') = next_index r (unat (rg_write_index r))"
    "p = trb_at (rg_buf r) (of_nat (unat (rg_write_index r)))" "m' p = set_cycle_bit (rg_cycle_bit r) t"
    "\<And>i. i + 1 < unat (rg_buf_size r) \<Longrightarrow> i \<noteq> unat (rg_write_index r) \<Longrightarrow> m' (trb_at (rg_buf r) (of_nat i)) = m (trb_at (rg_buf r) (of_nat i))"
proof -
  define w where "w = unat (rg_write_index r)"
  define n where "n = unat (rg_buf_size r)"
  have wn: "w + 1 < n" "4 \<le> n" "n \<le> 2 ^ 16" using assms(1) by (auto simp: room3_def w_def n_def)
  have rw: "rg_write_index r = of_nat w" "rg_buf_size r = of_nat n" by (simp_all add: w_def n_def)
  have u: "unat (of_nat k :: u64) = k" if "k \<le> 2 ^ 16" for k using that by (simp add: unsigned_of_nat take_bit_nat_eq_self)
  have w1: "(of_nat w + 1 :: u64) = of_nat (Suc w)" by simp
  have n1: "(of_nat n - 1 :: u64) = of_nat (n - 1)" using wn by (simp add: of_nat_diff)
  have a: "unat (of_nat (Suc w) :: u64) = Suc w" "unat (of_nat (n - 1) :: u64) = n - 1" using wn by (intro u, simp)+
  have e: "of_nat w + 1 = (of_nat n - 1 :: u64) \<longleftrightarrow> w + 2 = n" unfolding w1 n1 word_unat_eq_iff a using wn by auto
  have a': "unat (of_nat w + 1 :: u64) = Suc w" "unat (of_nat w :: u64) = w" "unat (of_nat n :: u64) = n"
    using a(1) wn by (simp only: w1, auto intro!: u)
  have inj: "trb_at b (of_nat i) = trb_at b (of_nat j) \<longleftrightarrow> i = j" if "i < n" "j < n" for i j b
    using that wn by (intro trb_at_inj) simp_all
  have sel: "rg_write_index (r\<lparr>rg_write_index := x\<rparr>) = x" "rg_buf_size (r\<lparr>rg_write_index := x\<rparr>) = rg_buf_size r" "rg_buf (r\<lparr>rg_write_index := x\<rparr>) = rg_buf r" for x by simp_all
  note d = assms(2) [unfolded Ring_Push_def CopyToLast_eq Let_def sel rw e]
  show "room3 r'" using d wn a' by (auto simp: room3_def rw split: if_splits)
  show "rg_buf r' = rg_buf r" "rg_buf_size r' = rg_buf_size r" using d by (auto simp: rw split: if_splits)
  show "unat (rg_write_index r') = next_index r (unat (rg_write_index r))"
    using d wn a' by (auto simp: next_index_def rw split: if_splits)
  show p: "p = trb_at (rg_buf r) (of_nat (unat (rg_write_index r)))" using d by (auto simp: w_def split: if_splits)
  have ne: "trb_at (rg_buf r) (of_nat i) \<noteq> trb_at (rg_buf r) (of_nat w + 1)" if "i + 1 < n" "i \<noteq> Suc w" for i
    unfolding w1 using inj [of i "Suc w"] that wn by auto
  show "m' p = set_cycle_bit (rg_cycle_bit r) t" using d ne [of w] wn by (auto split: if_splits)
  fix i assume i: "i + 1 < unat (rg_buf_size r)" "i \<noteq> unat (rg_write_index r)"
  then have "trb_at (rg_buf r) (of_nat i) \<noteq> trb_at (rg_buf r) (of_nat w)" using inj [of i w] wn by (auto simp: n_def [symmetric] w_def [symmetric])
  moreover have "i + 1 < n" using i by (simp add: n_def)
  moreover have "w + 2 = n \<Longrightarrow> i \<noteq> Suc w" using i by (auto simp: n_def)
  ultimately show "m' (trb_at (rg_buf r) (of_nat i)) = m (trb_at (rg_buf r) (of_nat i))"
    using d ne [of i] unfolding e by (auto simp del: of_nat_Suc split: if_splits)
qed

lemma push_step:
  assumes "transfer_ring dci d = Some (Some r)" "room3 r"
  obtains r' m' p where "push_transfer dci t d s = Some (d\<lparr>dv_transfer_rings := (dv_transfer_rings d)[nat (dci - 1) := Some r']\<rparr>, s\<lparr>us_trbs := m'\<rparr>, p)"
    "Ring_Push t r (us_trbs s) = (r', m', p)" "room3 r'"
    "transfer_ring dci (d\<lparr>dv_transfer_rings := (dv_transfer_rings d)[nat (dci - 1) := Some r']\<rparr>) = Some (Some r')"
proof -
  obtain r' m' p where R: "Ring_Push t r (us_trbs s) = (r', m', p)" by (cases "Ring_Push t r (us_trbs s)")
  have i: "0 \<le> dci - 1" "dci - 1 < int (length (dv_transfer_rings d))" using assms(1) by (auto simp: transfer_ring_def aget_Some_iff)
  show thesis
  proof (rule that)
    show "push_transfer dci t d s = Some (d\<lparr>dv_transfer_rings := (dv_transfer_rings d)[nat (dci - 1) := Some r']\<rparr>, s\<lparr>us_trbs := m'\<rparr>, p)"
      using assms(1) R i by (simp add: push_transfer_def aset_in)
    show "Ring_Push t r (us_trbs s) = (r', m', p)" by (rule R)
    show "room3 r'" by (rule Ring_Push_at(1) [OF assms(2) R])
    show "transfer_ring dci (d\<lparr>dv_transfer_rings := (dv_transfer_rings d)[nat (dci - 1) := Some r']\<rparr>) = Some (Some r')"
      using i by (simp add: transfer_ring_def aget_in)
  qed
qed

text \<open>The memory of a ring, and what a few pushes leave there.\<close>

definition ring_same :: "Ring \<Rightarrow> trbs \<Rightarrow> trbs \<Rightarrow> bool" where
  "ring_same r m m' \<longleftrightarrow> (\<forall>i < unat (rg_buf_size r). m' (trb_at (rg_buf r) (of_nat i)) = m (trb_at (rg_buf r) (of_nat i)))"

definition stored :: "Ring \<Rightarrow> TRB \<Rightarrow> u64 \<Rightarrow> trbs \<Rightarrow> bool" where
  "stored r t p m \<longleftrightarrow> (\<exists>b i. m p = set_cycle_bit b t \<and> p = trb_at (rg_buf r) (of_nat i) \<and> i + 1 < unat (rg_buf_size r))"

lemma stored_same: "stored r t p m \<Longrightarrow> ring_same r m m' \<Longrightarrow> stored r t p m'"
  by (auto simp: stored_def ring_same_def)

lemma pushes:
  assumes "transfer_ring dci d = Some (Some r)" "room3 r"
  obtains d1 s1 p1 d2 s2 p2 d3 s3 p3 r2 r3 where
    "push_transfer dci t1 d s = Some (d1, s1, p1)" "push_transfer dci t2 d1 s1 = Some (d2, s2, p2)" "push_transfer dci t3 d2 s2 = Some (d3, s3, p3)"
    "us_trbs s1 p1 = set_cycle_bit (rg_cycle_bit r) t1"
    "stored r t1 p1 (us_trbs s2)" "stored r t1 p1 (us_trbs s3)" "stored r t2 p2 (us_trbs s2)" "stored r t2 p2 (us_trbs s3)"
    "d2 = d\<lparr>dv_transfer_rings := (dv_transfer_rings d)[nat (dci - 1) := Some r2]\<rparr>" "s2 = s\<lparr>us_trbs := us_trbs s2\<rparr>" "room3 r2"
    "d3 = d\<lparr>dv_transfer_rings := (dv_transfer_rings d)[nat (dci - 1) := Some r3]\<rparr>" "s3 = s\<lparr>us_trbs := us_trbs s3\<rparr>" "room3 r3"
    "rg_buf r2 = rg_buf r" "rg_buf_size r2 = rg_buf_size r" "rg_buf r3 = rg_buf r" "rg_buf_size r3 = rg_buf_size r"
proof -
  obtain r1 m1 p1 where a: "push_transfer dci t1 d s = Some (d\<lparr>dv_transfer_rings := (dv_transfer_rings d)[nat (dci - 1) := Some r1]\<rparr>, s\<lparr>us_trbs := m1\<rparr>, p1)"
    "Ring_Push t1 r (us_trbs s) = (r1, m1, p1)" "room3 r1"
    "transfer_ring dci (d\<lparr>dv_transfer_rings := (dv_transfer_rings d)[nat (dci - 1) := Some r1]\<rparr>) = Some (Some r1)"
    by (rule push_step [OF assms])
  let ?d = "\<lambda>r. d\<lparr>dv_transfer_rings := (dv_transfer_rings d)[nat (dci - 1) := Some r]\<rparr>"
  obtain r2 m2 p2 where b0: "push_transfer dci t2 (?d r1) (s\<lparr>us_trbs := m1\<rparr>) =
      Some ((?d r1)\<lparr>dv_transfer_rings := (dv_transfer_rings (?d r1))[nat (dci - 1) := Some r2]\<rparr>, (s\<lparr>us_trbs := m1\<rparr>)\<lparr>us_trbs := m2\<rparr>, p2)"
    "Ring_Push t2 r1 (us_trbs (s\<lparr>us_trbs := m1\<rparr>)) = (r2, m2, p2)" "room3 r2"
    "transfer_ring dci ((?d r1)\<lparr>dv_transfer_rings := (dv_transfer_rings (?d r1))[nat (dci - 1) := Some r2]\<rparr>) = Some (Some r2)"
    by (rule push_step [OF a(4,3)])
  have b: "push_transfer dci t2 (?d r1) (s\<lparr>us_trbs := m1\<rparr>) = Some (?d r2, s\<lparr>us_trbs := m2\<rparr>, p2)"
    "Ring_Push t2 r1 m1 = (r2, m2, p2)" "room3 r2" "transfer_ring dci (?d r2) = Some (Some r2)" using b0 by simp_all
  obtain r3 m3 p3 where c0: "push_transfer dci t3 (?d r2) (s\<lparr>us_trbs := m2\<rparr>) =
      Some ((?d r2)\<lparr>dv_transfer_rings := (dv_transfer_rings (?d r2))[nat (dci - 1) := Some r3]\<rparr>, (s\<lparr>us_trbs := m2\<rparr>)\<lparr>us_trbs := m3\<rparr>, p3)"
    "Ring_Push t3 r2 (us_trbs (s\<lparr>us_trbs := m2\<rparr>)) = (r3, m3, p3)" "room3 r3" by (rule push_step [OF b(4,3)])
  have c: "push_transfer dci t3 (?d r2) (s\<lparr>us_trbs := m2\<rparr>) = Some (?d r3, s\<lparr>us_trbs := m3\<rparr>, p3)"
    "Ring_Push t3 r2 m2 = (r3, m3, p3)" "room3 r3" using c0 by simp_all
  note A = Ring_Push_at [OF assms(2) a(2)] note B = Ring_Push_at [OF a(3) b(2)] note C = Ring_Push_at [OF b(3) c(2)]
  define w where "w = unat (rg_write_index r)"
  define n where "n = unat (rg_buf_size r)"
  have wn: "w + 1 < n" "4 \<le> n" using assms(2) by (auto simp: room3_def w_def n_def)
  have w1: "unat (rg_write_index r1) = (if w + 2 = n then 0 else w + 1)" using A(4) by (simp add: next_index_def w_def n_def)
  have w2: "unat (rg_write_index r2) = (if unat (rg_write_index r1) + 2 = n then 0 else unat (rg_write_index r1) + 1)" using B(4) A(3) by (simp add: next_index_def n_def)
  have lt: "unat (rg_write_index r1) + 1 < n" "unat (rg_write_index r1) \<noteq> w" "unat (rg_write_index r2) \<noteq> w" "unat (rg_write_index r2) \<noteq> unat (rg_write_index r1)"
    using w1 w2 wn by (auto split: if_splits)
  have p1: "p1 = trb_at (rg_buf r) (of_nat w)" "p2 = trb_at (rg_buf r) (of_nat (unat (rg_write_index r1)))" using A(2,5) B(5) by (simp_all add: w_def)
  have m: "m2 p1 = m1 p1" "m3 p1 = m1 p1" "m3 p2 = m2 p2"
    using B(7) [of w] C(7) [of w] C(7) [of "unat (rg_write_index r1)"] A(2,3) B(2,3) lt wn p1 by (simp_all add: n_def)
  have st: "stored r t p m" if "m p = set_cycle_bit b t" "p = trb_at (rg_buf r) (of_nat i)" "i + 1 < n" for t p m b i
    unfolding stored_def n_def [symmetric] using that by blast
  have S1: "stored r t1 p1 m2" "stored r t1 p1 m3" using st [OF _ p1(1) wn(1)] A(6) m(1,2) by simp_all
  have S2: "stored r t2 p2 m2" "stored r t2 p2 m3" using st [OF _ p1(2) lt(1)] B(6) m(3) by simp_all
  show thesis
    by (rule that [OF a(1) b(1) c(1), where ?r2.0 = r2 and ?r3.0 = r3]) (use A(2,3,6) B(1-3) C(1-3) S1 S2 in simp_all)
qed

text \<open>The device between two requests: its control ring is set up and no request is open.\<close>

definition open_none :: "UsbDev \<Rightarrow> bool" where
  "open_none d \<longleftrightarrow> keys (dv_setup_stage_map d) = [] \<and> has_slot (dv_setup_stage_map d)"

lemma open_none_put:
  assumes "open_none d"
  shows "Get p (Put p q (dv_setup_stage_map d)) = Some q" "keys (Delete p (Put p q (dv_setup_stage_map d))) = []"
    "has_slot (Delete p (Put p q (dv_setup_stage_map d)))"
proof -
  let ?m = "dv_setup_stage_map d"
  have k: "keys ?m = []" "has_slot ?m" using assms by (simp_all add: open_none_def)
  show "Get p (Put p q ?m) = Some q" using k by (simp add: Get_Put)
  have ks: "set (keys (Put p q ?m)) = {p}" "distinct (keys (Put p q ?m))" using keys_Put [of ?m p q] k by simp_all
  have "Get j (Delete p (Put p q ?m)) = None" for j using Get_Delete [OF ks(2)] k by (simp add: Get_Put Get_None)
  then show "keys (Delete p (Put p q ?m)) = []" unfolding Get_None by (metis list.set_intros(1) neq_Nil_conv)
  show "has_slot (Delete p (Put p q ?m))" using ks by (simp add: Delete_slot)
qed

text \<open>What a completion event for a block says.\<close>

definition completes :: "TRB \<Rightarrow> u64 \<Rightarrow> EndpointID \<Rightarrow> bool" where
  "completes trb p ep \<longleftrightarrow> trb_parameter trb = p \<and> completion_code trb \<in> {1, 13} \<and> uint (trb_endpoint_id trb) = ep_addr ep"

text \<open>The device after a request on endpoint \<open>ep\<close>, and after its completion: it differs in the ring, the open requests and those who wait.\<close>

definition after_request :: "EndpointID \<Rightarrow> SetupData \<Rightarrow> u64 \<Rightarrow> UsbDev \<Rightarrow> UsbDev \<Rightarrow> bool" where
  "after_request ep sd issuer d d' \<longleftrightarrow> (\<exists>r' mp. d' = (base_Control sd issuer d)\<lparr>
       dv_transfer_rings := (dv_transfer_rings d)[nat (Address ep - 1) := Some r'], dv_setup_stage_map := mp\<rparr> \<and>
     (\<forall>r. transfer_ring (Address ep) d = Some (Some r) \<longrightarrow> room3 r' \<and> rg_buf r' = rg_buf r \<and> rg_buf_size r' = rg_buf_size r) \<and> keys mp = [] \<and> has_slot mp)"

lemma data_event:
  assumes "completes trb p ep" "stored r (set_interrupt_on_completion (MakeDataStageTRB buf len i)) p (us_trbs s)"
    "stored r (MakeSetupStageTRB sd tt) q (us_trbs s)" "Get p (dv_setup_stage_map d) = Some q"
    "0 \<le> len" "len < 2 ^ 17" "uint (trb_transfer_length trb) \<le> len"
  shows "OnTransferEventReceived L trb d s =
    OnControlCompleted L ep sd buf (len - uint (trb_transfer_length trb)) (d\<lparr>dv_setup_stage_map := Delete p (dv_setup_stage_map d)\<rparr>) s"
proof -
  obtain b where b: "us_trbs s p = set_cycle_bit b (set_interrupt_on_completion (MakeDataStageTRB buf len i))" using assms(2) by (auto simp: stored_def)
  obtain c where c: "us_trbs s q = set_cycle_bit c (MakeSetupStageTRB sd tt)" using assms(3) by (auto simp: stored_def)
  have e: "\<lparr>ep_addr = uint (trb_endpoint_id trb)\<rparr> = ep" "trb_parameter trb = p" "\<not> (completion_code trb \<noteq> 1 \<and> completion_code trb \<noteq> 13)"
    using assms(1) by (auto simp: completes_def)
  have l: "uint (take_bit 17 (word_of_int len) :: u32) = len"
    using assms(5,6) by (simp add: unsigned_take_bit_eq unsigned_of_int take_bit_int_eq_self)
  have sl: "sint (take_bit 17 (word_of_int len) - trb_transfer_length trb) = len - uint (trb_transfer_length trb)"
  proof -
    have "uint (take_bit 17 (word_of_int len) - trb_transfer_length trb) = len - uint (trb_transfer_length trb)"
      using assms(7) l by (subst uint_sub_lem [THEN iffD1]) (simp_all add: word_le_def)
    moreover have "signed_take_bit 31 (len - u) = len - u" if "0 \<le> u" "u \<le> len" for u
      using that assms(5,6) by (intro signed_take_bit_int_eq_self) simp_all
    from this [OF uint_ge_0 assms(7)]
    have "signed_take_bit 31 (len - uint (trb_transfer_length trb)) = len - uint (trb_transfer_length trb)" .
    ultimately show ?thesis using sint_uint [of "take_bit 17 (word_of_int len) - trb_transfer_length trb"] by simp
  qed
  show ?thesis unfolding OnTransferEventReceived_def Let_def e b c setup_of_Make if_not_P [OF e(3)]
    using assms(4) sl by (simp add: TRBDynamicCast_def trb_types c setup_of_Make)
qed

lemma status_event:
  assumes "completes trb p ep" "stored r (set_interrupt_on_completion (set_status_direction i StatusStageTRB_new)) p (us_trbs s)"
    "stored r (MakeSetupStageTRB sd tt) q (us_trbs s)" "Get p (dv_setup_stage_map d) = Some q"
  shows "OnTransferEventReceived L trb d s = OnControlCompleted L ep sd 0 0 (d\<lparr>dv_setup_stage_map := Delete p (dv_setup_stage_map d)\<rparr>) s"
proof -
  obtain b where b: "us_trbs s p = set_cycle_bit b (set_interrupt_on_completion (set_status_direction i StatusStageTRB_new))" using assms(2) by (auto simp: stored_def)
  obtain c where c: "us_trbs s q = set_cycle_bit c (MakeSetupStageTRB sd tt)" using assms(3) by (auto simp: stored_def)
  have e: "\<lparr>ep_addr = uint (trb_endpoint_id trb)\<rparr> = ep" "trb_parameter trb = p" "\<not> (completion_code trb \<noteq> 1 \<and> completion_code trb \<noteq> 13)"
    using assms(1) by (auto simp: completes_def)
  show ?thesis unfolding OnTransferEventReceived_def Let_def e b c setup_of_Make if_not_P [OF e(3)]
    using assms(4) by (simp add: TRBDynamicCast_def trb_types c setup_of_Make)
qed

definition request :: "bool \<Rightarrow> EndpointID \<Rightarrow> SetupData \<Rightarrow> u64 \<Rightarrow> int \<Rightarrow> u64 \<Rightarrow> UsbDev \<Rightarrow> usb \<Rightarrow> (UsbDev \<times> usb \<times> Code) option" where
  "request dir_in = (if dir_in then ControlIn else ControlOut)"

lemma transfer_ring_base [simp]: "transfer_ring dci (base_Control sd issuer d) = transfer_ring dci d"
  "dv_transfer_rings (base_Control sd issuer d) = dv_transfer_rings d" "dv_setup_stage_map (base_Control sd issuer d) = dv_setup_stage_map d"
  "dv_slot_id (base_Control sd issuer d) = dv_slot_id d"
  by (simp_all add: transfer_ring_def base_Control_def)

lemma Doorbell_trbs [simp]: "us_trbs (Doorbell_Ring i t x s) = us_trbs s"
  by (simp add: Doorbell_Ring_def Let_def)

text \<open>A request: the blocks it pushes are its last pushes, so they are there when it returns.\<close>

lemma request_blocks:
  assumes "transfer_ring (Address ep) d = Some (Some r)" "room3 r" "0 \<le> Number ep" "Number ep \<le> 15"
  obtains r' m p q tt where "request dir_in ep sd buf len issuer d s = Some ((base_Control sd issuer d)\<lparr>
      dv_transfer_rings := (dv_transfer_rings d)[nat (Address ep - 1) := Some r'], dv_setup_stage_map := Put p q (dv_setup_stage_map d)\<rparr>,
      Doorbell_Ring (dv_slot_id d) (word_of_int (Address ep)) 0 (s\<lparr>us_trbs := m\<rparr>), kSuccess)"
    "room3 r'" "rg_buf r' = rg_buf r" "rg_buf_size r' = rg_buf_size r" "stored r (MakeSetupStageTRB sd tt) q m"
    "if buf = 0 then stored r (set_interrupt_on_completion (set_status_direction True StatusStageTRB_new)) p m
     else stored r (set_interrupt_on_completion (MakeDataStageTRB buf len dir_in)) p m"
proof -
  let ?b = "base_Control sd issuer d"
  let ?t1 = "MakeSetupStageTRB sd (if buf = 0 then kNoDataStage else if dir_in then kInDataStage else kOutDataStage)"
  let ?t2 = "if buf = 0 then set_interrupt_on_completion (set_status_direction True StatusStageTRB_new)
    else set_interrupt_on_completion (MakeDataStageTRB buf len dir_in)"
  let ?t3 = "if dir_in then StatusStageTRB_new else set_status_direction True StatusStageTRB_new"
  have b: "transfer_ring (Address ep) ?b = Some (Some r)" using assms(1) by simp
  obtain d1 s1 p1 d2 s2 p2 d3 s3 p3 r2 r3 where
    P: "push_transfer (Address ep) ?t1 ?b s = Some (d1, s1, p1)" "push_transfer (Address ep) ?t2 d1 s1 = Some (d2, s2, p2)"
      "push_transfer (Address ep) ?t3 d2 s2 = Some (d3, s3, p3)"
    and c: "us_trbs s1 p1 = set_cycle_bit (rg_cycle_bit r) ?t1"
    and S: "stored r ?t1 p1 (us_trbs s2)" "stored r ?t1 p1 (us_trbs s3)" "stored r ?t2 p2 (us_trbs s2)" "stored r ?t2 p2 (us_trbs s3)"
    and D: "d2 = ?b\<lparr>dv_transfer_rings := (dv_transfer_rings ?b)[nat (Address ep - 1) := Some r2]\<rparr>" "s2 = s\<lparr>us_trbs := us_trbs s2\<rparr>" "room3 r2"
      "d3 = ?b\<lparr>dv_transfer_rings := (dv_transfer_rings ?b)[nat (Address ep - 1) := Some r3]\<rparr>" "s3 = s\<lparr>us_trbs := us_trbs s3\<rparr>" "room3 r3"
      "rg_buf r2 = rg_buf r" "rg_buf_size r2 = rg_buf_size r" "rg_buf r3 = rg_buf r" "rg_buf_size r3 = rg_buf_size r"
    by (rule pushes [OF b assms(2)])
  have cs: "cast_setup p1 s1 = p1" using c by (simp add: cast_setup_def TRBDynamicCast_def)
  have n: "\<not> (Number ep < 0 \<or> 15 < Number ep)" using assms(3,4) by simp
  show thesis
  proof (cases "buf = 0")
    case True
    have "request dir_in ep sd buf len issuer d s = Some (d2\<lparr>dv_setup_stage_map := Put p2 p1 (dv_setup_stage_map d2)\<rparr>,
        Doorbell_Ring (dv_slot_id d2) (word_of_int (Address ep)) 0 s2, kSuccess)"
      using True P b cs n by (cases dir_in) (simp_all add: request_def ControlIn_def ControlOut_def)
    with True S D show thesis by (intro that [where ?r' = r2 and ?m = "us_trbs s2" and ?p = p2 and ?q = p1]) simp_all
  next
    case False
    have "request dir_in ep sd buf len issuer d s = Some (d3\<lparr>dv_setup_stage_map := Put p2 p1 (dv_setup_stage_map d3)\<rparr>,
        Doorbell_Ring (dv_slot_id d3) (word_of_int (Address ep)) 0 s3, kSuccess)"
      using False P b cs n by (cases dir_in) (simp_all add: request_def ControlIn_def ControlOut_def)
    with False S D show thesis by (intro that [where ?r' = r3 and ?m = "us_trbs s3" and ?p = p2 and ?q = p1]) simp_all
  qed
qed


section \<open>The configuration of a device\<close>

text \<open>An interface with a boot protocol the drivers know, and the configuration an endpoint descriptor gives.\<close>

definition supported :: "u8 list \<Rightarrow> bool" where
  "supported i \<longleftrightarrow> i ! 1 = 4 \<and> i ! 5 = 3 \<and> i ! 6 = 1 \<and> (i ! 7 = 1 \<or> i ! 7 = 2)"

definition ep_config :: "u8 list \<Rightarrow> EndpointConfig" where
  "ep_config e = \<lparr>ep_id = EndpointID_new (uint (take_bit 4 (e ! 2))) (bit (e ! 2) 7), ep_type = EndpointType_of (take_bit 2 (e ! 3)),
     max_packet_size = uint (ucast (e ! 4) OR push_bit 8 (ucast (e ! 5)) :: u16), interval = uint (e ! 6)\<rparr>"

definition ep_descs :: "u8 list list \<Rightarrow> u8 list list" where
  "ep_descs ds = filter (\<lambda>e. e ! 1 = 5) ds"

definition shaped :: "u8 list list \<Rightarrow> bool" where
  "shaped ds \<longleftrightarrow> (\<forall>e \<in> set ds. (e ! 1 = 4 \<longrightarrow> 8 \<le> length e) \<and> (e ! 1 = 5 \<longrightarrow> 7 \<le> length e))"

definition install1 :: "u64 \<Rightarrow> EndpointConfig \<Rightarrow> UsbDev \<Rightarrow> UsbDev" where
  "install1 p c d = d\<lparr>dv_ep_configs := (dv_ep_configs d)[nat (dv_num_ep_configs d) := c], dv_num_ep_configs := dv_num_ep_configs d + 1,
     dv_class_drivers := (dv_class_drivers d)[nat (Number (ep_id c)) := p]\<rparr>"

definition install :: "u64 \<Rightarrow> EndpointConfig list \<Rightarrow> UsbDev \<Rightarrow> UsbDev" where
  "install p cs d = fold (install1 p) cs d"

lemma desc_bytes: "descs_at m n (e # ds) \<Longrightarrow> i < length e \<Longrightarrow> m (n + of_nat i) = e ! i"
  by simp

lemma MakeEPConfig_at:
  assumes "descs_at m n (e # ds)" "7 \<le> length e"
  shows "MakeEPConfig m n = ep_config e"
proof -
  show ?thesis using desc_bytes [OF assms(1), of 2] desc_bytes [OF assms(1), of 3] desc_bytes [OF assms(1), of 4] desc_bytes [OF assms(1), of 5]
      desc_bytes [OF assms(1), of 6] assms(2)
    by (simp add: MakeEPConfig_def ep_config_def endpoint_address_def ep_attributes_def ep_max_packet_size_def ep_interval_def) (simp add: get_field_def bit_iff_odd_drop_bit mod_2_eq_odd)
qed

lemma Number_range: "0 \<le> Number (ep_id (ep_config e))" "Number (ep_id (ep_config e)) < 16"
  using take_bit_int_less_exp [of 4 "uint (e ! 2)"] by (simp_all add: ep_config_def unsigned_take_bit_eq)

lemma ep_loop_ok:
  assumes "reader_rep m r ds" "shaped ds" "length (dv_ep_configs d) = 16" "length (dv_class_drivers d) = 16" "0 \<le> dv_num_ep_configs d" "dv_num_ep_configs d \<le> 16"
    "dv_num_ep_configs d \<le> N"
  shows "map_option snd (ep_loop N p m r d) =
    (if N \<le> 16 \<and> nat (N - dv_num_ep_configs d) \<le> length (ep_descs ds)
     then Some (install p (map ep_config (take (nat (N - dv_num_ep_configs d)) (ep_descs ds))) d) else None)"
  using assms
proof (induction ds arbitrary: r d)
  case Nil
  have "fst (Next m r) = 0" using Next_step [OF Nil(1)] by simp
  with Nil(5-7) show ?case by (subst ep_loop.simps) (auto simp: ep_descs_def install_def split: prod.splits)
next
  case (Cons e ds)
  obtain n r' where n: "Next m r = (n, r')" "n \<noteq> 0" "descs_at m n (e # ds)" "reader_rep m r' ds" using Next_step [OF Cons.prems(1)] by auto
  have ty: "DescriptorDynamicCast EndpointDescriptor_kType m n \<longleftrightarrow> e ! 1 = 5"
    using desc_length(3) [OF n(3)] by (simp add: DescriptorDynamicCast_def descriptor_types)
  have sh: "shaped ds" "e ! 1 = 5 \<Longrightarrow> 7 \<le> length e" using Cons.prems(2) by (auto simp: shaped_def)
  show ?case
  proof (cases "dv_num_ep_configs d < N")
    case False
    then show ?thesis using Cons.prems(6,7) by (subst ep_loop.simps) (simp add: install_def)
  next
    case lt: True
    show ?thesis
    proof (cases "e ! 1 = 5")
      case False
      have "ep_loop N p m r d = ep_loop N p m r' d" using lt n(1,2) ty False by (subst ep_loop.simps) simp
      then show ?thesis using Cons.IH [OF n(4) sh(1) Cons.prems(3-7)] False by (simp add: ep_descs_def)
    next
      case True
      have mk: "MakeEPConfig m n = ep_config e" by (rule MakeEPConfig_at [OF n(3) sh(2) [OF True]])
      show ?thesis
      proof (cases "dv_num_ep_configs d < 16")
        case False
        have "ep_loop N p m r d = None" using lt n(1,2) ty True False Cons.prems(3) by (subst ep_loop.simps) (simp add: mk aset_def Let_def)
        then show ?thesis using lt False Cons.prems(6) by simp
      next
        case s: True
        have st: "ep_loop N p m r d = ep_loop N p m r' (install1 p (ep_config e) d)"
          using lt n(1,2) ty True s Cons.prems(3-5) Number_range [of e] by (subst ep_loop.simps) (simp add: mk aset_in install1_def Let_def)
        have k: "nat (N - dv_num_ep_configs d) = Suc (nat (N - (dv_num_ep_configs d + 1)))" using lt by simp
        have "map_option snd (ep_loop N p m r' (install1 p (ep_config e) d)) =
          (if N \<le> 16 \<and> nat (N - (dv_num_ep_configs d + 1)) \<le> length (ep_descs ds)
           then Some (install p (map ep_config (take (nat (N - (dv_num_ep_configs d + 1))) (ep_descs ds))) (install1 p (ep_config e) d)) else None)"
          using Cons.IH [OF n(4) sh(1), of "install1 p (ep_config e) d"] lt s Cons.prems(3-5) by (simp add: install1_def)
        then show ?thesis unfolding st k using True by (simp add: ep_descs_def install_def)
      qed
    qed
  qed
qed

text \<open>A new driver lies above everything that was allocated before, so the descriptors are still there.\<close>

lemma clear_bytes_other: "(\<And>i. i < n \<Longrightarrow> a + of_nat i \<noteq> x) \<Longrightarrow> clear_bytes a n m x = m x"
  unfolding clear_bytes_def by (induction n) auto

definition below_pool :: "abi \<Rightarrow> nat \<Rightarrow> usb \<Rightarrow> bool" where
  "below_pool L e s \<longleftrightarrow> e \<le> unat (um_alloc_ptr (us_um s)) \<and> unat (um_alloc_ptr (us_um s)) + unat (ab_hid_buf L) + kBufferSize < 2 ^ 64"

lemma new_driver_bytes:
  assumes "new_driver sz (ab_hid_buf L) mk ob s = Some (s', p)" "below_pool L e s" "unat x < e"
  shows "us_bytes s' x = us_bytes s x" "p \<noteq> 0"
proof -
  obtain um where A: "AllocMem sz 0 0 (us_um s) = (um, p)" "p \<noteq> 0" and b: "us_bytes s' = clear_bytes (p + ab_hid_buf L) kBufferSize (us_bytes s)"
    using assms(1) by (auto simp: new_driver_def set_driver_def bind_eq_Some_conv Let_def split: prod.splits if_splits option.splits)
  show "p \<noteq> 0" by (rule A)
  have p: "p = um_alloc_ptr (us_um s)" using A by (auto simp: AllocMem_def Let_def split: if_splits)
  have "p + ab_hid_buf L + of_nat i \<noteq> x" if "i < kBufferSize" for i
  proof -
    have "unat (of_nat i :: u64) = i" using that by (simp add: kBufferSize_def unsigned_of_nat take_bit_nat_eq_self)
    then have "unat (p + ab_hid_buf L + of_nat i) = unat p + unat (ab_hid_buf L) + i"
      using assms(2) that p by (subst unat_add_nowrap; subst unat_add_nowrap) (simp_all add: below_pool_def)
    then show ?thesis using assms(2,3) p by (auto simp: below_pool_def)
  qed
  then show "us_bytes s' x = us_bytes s x" unfolding b by (rule clear_bytes_other)
qed

lemma descs_at_cong:
  "descs_at m p ds \<Longrightarrow> unat p + length (concat ds) \<le> e \<Longrightarrow> e < 2 ^ 64 \<Longrightarrow> (\<And>x. unat x < e \<Longrightarrow> m' x = m x) \<Longrightarrow> descs_at m' p ds"
proof (induction ds arbitrary: p)
  case (Cons d ds)
  have u: "unat (p + of_nat i) = unat p + i" if "i \<le> length d" for i
    using that Cons.prems(2,3) by (subst unat_add_nowrap) (simp_all add: unsigned_of_nat take_bit_nat_eq_self)
  have "m' (p + of_nat i) = d ! i" if "i < length d" for i
    using that u [of i] Cons.prems by simp
  moreover have "descs_at m' (p + of_nat (length d)) ds" using Cons.IH [of "p + of_nat (length d)"] Cons.prems u [of "length d"] by simp
  ultimately show ?case using Cons.prems(1) by simp
qed simp

text \<open>The driver for an interface, made from the bytes of its descriptor.\<close>

definition driver_for :: "abi \<Rightarrow> u8 list \<Rightarrow> usb \<Rightarrow> (usb \<times> u64) option" where
  "driver_for L i s =
     (if i ! 7 = 1 then new_driver (ab_keyboard L) (ab_hid_buf L) (HIDKeyboardDriver_new (uint (i ! 2))) (us_keyboard_observer s) s
      else new_driver (ab_mouse L) (ab_hid_buf L) (HIDMouseDriver_new (uint (i ! 2))) (us_mouse_observer s) s)"

lemma NewClassDriver_at:
  assumes "descs_at (us_bytes s) n (i # ds)" "i ! 1 = 4" "8 \<le> length i"
  shows "NewClassDriver L n s = (if supported i then driver_for L i s else Some (s, 0))"
  using desc_bytes [OF assms(1), of 2] desc_bytes [OF assms(1), of 5] desc_bytes [OF assms(1), of 6] desc_bytes [OF assms(1), of 7] assms(2,3)
  by (simp add: NewClassDriver_def supported_def driver_for_def interface_number_def interface_class_def interface_sub_class_def interface_protocol_def Let_def)

lemma driver_for_bytes:
  assumes "driver_for L i s = Some (s', p)" "below_pool L e s" "unat x < e"
  shows "us_bytes s' x = us_bytes s x" "p \<noteq> 0"
  using assms new_driver_bytes [of _ L _ _ s s' p e x] by (auto simp: driver_for_def split: if_splits)

lemma reader_rep_cong:
  assumes "reader_rep m r ds" "\<And>x. unat x < unat (cr_buf r + word_of_int (cr_len r)) \<Longrightarrow> m' x = m x"
  shows "reader_rep m' r ds"
proof -
  obtain d0 where d0: "descs_at m (cr_p r) (d0 # ds)" "0 < unat (cr_p r)" "unat (cr_p r) + length (concat (d0 # ds)) = unat (cr_buf r + word_of_int (cr_len r))"
    using assms(1) by (auto simp: reader_rep_def)
  have "unat (cr_buf r + word_of_int (cr_len r)) < 2 ^ 64" using unsigned_less [of "cr_buf r + word_of_int (cr_len r)", where ?'a = nat] by simp
  then have "descs_at m' (cr_p r) (d0 # ds)" by (rule descs_at_cong [OF d0(1) eq_refl [OF d0(3)] _ assms(2)])
  then show ?thesis using d0(2,3) unfolding reader_rep_def by blast
qed

lemma dropWhile_skip: "(\<And>x. x \<in> set xs \<Longrightarrow> P x) \<Longrightarrow> dropWhile P (xs @ ys) = dropWhile P ys"
  by (induction xs) auto

lemma if_loop_ok:
  assumes "reader_rep (us_bytes s) r ds" "shaped ds" "below_pool L (unat (cr_buf r + word_of_int (cr_len r))) s"
    "length (dv_ep_configs d) = 16" "length (dv_class_drivers d) = 16"
  shows "if_loop L r d s =
    (case dropWhile (\<lambda>i. \<not> supported i) ds of [] \<Rightarrow> Some (d, s, 0)
     | i # rest \<Rightarrow> do {
         (s', p) \<leftarrow> driver_for L i s;
         if unat (i ! 4) \<le> 16 \<and> unat (i ! 4) \<le> length (ep_descs rest)
         then Some (install p (map ep_config (take (unat (i ! 4)) (ep_descs rest))) (d\<lparr>dv_num_ep_configs := 0\<rparr>), s', p) else None
       })"
  using assms
proof (induction "length ds" arbitrary: ds r rule: less_induct)
  case less
  let ?T = "\<lambda>i. i ! 1 \<noteq> InterfaceDescriptor_kType"
  obtain n r' where n: "Next_of InterfaceDescriptor_kType (us_bytes s) r = Some (n, r')"
    "case dropWhile ?T ds of [] \<Rightarrow> n = 0 | i # ds' \<Rightarrow> n \<noteq> 0 \<and> descs_at (us_bytes s) n (i # ds') \<and> reader_rep (us_bytes s) r' ds' \<and>
      cr_buf r' = cr_buf r \<and> cr_len r' = cr_len r \<and> unat n + length i \<le> unat (cr_buf r + word_of_int (cr_len r))"
    using Next_of_step [OF less.prems(1), of InterfaceDescriptor_kType] by blast
  have skip: "dropWhile (\<lambda>i. \<not> supported i) ds = dropWhile (\<lambda>i. \<not> supported i) (dropWhile ?T ds)"
    using dropWhile_skip [of "takeWhile ?T ds" "\<lambda>i. \<not> supported i" "dropWhile ?T ds"]
    by (auto simp: supported_def descriptor_types dest: set_takeWhileD)
  show ?case
  proof (cases "dropWhile ?T ds")
    case Nil
    then have "n = 0" using n(2) by (simp only: list.simps)
    then show ?thesis unfolding skip Nil using n(1) by (subst if_loop.simps) simp
  next
    case (Cons i ds')
    have i: "n \<noteq> 0" "descs_at (us_bytes s) n (i # ds')" "reader_rep (us_bytes s) r' ds'"
      and e: "cr_buf r' = cr_buf r" "cr_len r' = cr_len r" "unat n + length i \<le> unat (cr_buf r + word_of_int (cr_len r))"
      using n(2) unfolding Cons by (auto simp del: descs_at.simps)
    have i1: "i ! 1 = 4" using Cons hd_dropWhile [of ?T ds] by (auto simp: descriptor_types)
    have sub: "set (i # ds') \<subseteq> set ds" using Cons set_dropWhileD [of _ ?T ds] by auto
    then have sh: "8 \<le> length i" "shaped ds'" using less.prems(2) i1 by (auto simp: shaped_def)
    have lt: "length ds' < length ds" using Cons length_dropWhile_le [of ?T ds] by simp
    have new: "NewClassDriver L n s = (if supported i then driver_for L i s else Some (s, 0))" by (rule NewClassDriver_at [OF i(2) i1 sh(1)])
    show ?thesis
    proof (cases "supported i")
      case False
      have "if_loop L r d s = if_loop L r' d s" using n(1) i(1) new False by (subst if_loop.simps) simp
      also have "\<dots> = (case dropWhile (\<lambda>i. \<not> supported i) ds' of [] \<Rightarrow> Some (d, s, 0)
       | i # rest \<Rightarrow> do {
           (s', p) \<leftarrow> driver_for L i s;
           if unat (i ! 4) \<le> 16 \<and> unat (i ! 4) \<le> length (ep_descs rest)
           then Some (install p (map ep_config (take (unat (i ! 4)) (ep_descs rest))) (d\<lparr>dv_num_ep_configs := 0\<rparr>), s', p) else None
         })" using less.hyps [OF lt i(3) sh(2)] less.prems(3-5) e by simp
      finally show ?thesis unfolding skip Cons using False by simp
    next
      case True
      show ?thesis
      proof (cases "driver_for L i s")
        case None
        then show ?thesis unfolding skip Cons using n(1) i(1) new True by (subst if_loop.simps) simp
      next
        case (Some sp)
        obtain s' p where sp: "sp = (s', p)" by (cases sp)
        have b: "us_bytes s' x = us_bytes s x" if "unat x < unat (cr_buf r + word_of_int (cr_len r))" for x
          using driver_for_bytes(1) [OF Some [unfolded sp] less.prems(3) that] .
        have p: "p \<noteq> 0"
          using Some sp by (auto simp: driver_for_def new_driver_def bind_eq_Some_conv Let_def split: if_splits prod.splits)
        have rep: "reader_rep (us_bytes s') r' ds'" by (rule reader_rep_cong [OF i(3)]) (simp add: e b)
        have "unat (n + 4) = unat n + 4"
          using sh(1) e(3) unsigned_less [of "cr_buf r + word_of_int (cr_len r)", where ?'a = nat] by (subst unat_add_nowrap) simp_all
        then have num: "num_endpoints (us_bytes s') n = i ! 4"
          using b [of "n + 4"] desc_bytes [OF i(2), of 4] sh(1) e(3) by (simp add: num_endpoints_def)
        have "map_option snd (ep_loop (uint (i ! 4)) p (us_bytes s') r' (d\<lparr>dv_num_ep_configs := 0\<rparr>)) =
            (if uint (i ! 4) \<le> 16 \<and> nat (uint (i ! 4)) \<le> length (ep_descs ds')
             then Some (install p (map ep_config (take (nat (uint (i ! 4))) (ep_descs ds'))) (d\<lparr>dv_num_ep_configs := 0\<rparr>)) else None)"
          using ep_loop_ok [OF rep sh(2), of "d\<lparr>dv_num_ep_configs := 0\<rparr>" "uint (i ! 4)" p] less.prems(4,5) by simp
        moreover have "nat (uint (i ! 4)) = unat (i ! 4)" by (rule unat_eq_nat_uint [symmetric])
        moreover from this have "uint (i ! 4) \<le> 16 \<longleftrightarrow> unat (i ! 4) \<le> 16" using nat_le_iff [of "uint (i ! 4)" 16] by (simp only: of_nat_numeral)
        ultimately have ep: "map_option snd (ep_loop (uint (i ! 4)) p (us_bytes s') r' (d\<lparr>dv_num_ep_configs := 0\<rparr>)) =
            (if unat (i ! 4) \<le> 16 \<and> unat (i ! 4) \<le> length (ep_descs ds')
             then Some (install p (map ep_config (take (unat (i ! 4)) (ep_descs ds'))) (d\<lparr>dv_num_ep_configs := 0\<rparr>)) else None)" by simp
        have "if_loop L r d s = do { d \<leftarrow> map_option snd (ep_loop (uint (i ! 4)) p (us_bytes s') r' (d\<lparr>dv_num_ep_configs := 0\<rparr>)); Some (d, s', p) }"
          using n(1) i(1) new True Some sp p num
          by (subst if_loop.simps) (cases "ep_loop (uint (i ! 4)) p (us_bytes s') r' (d\<lparr>dv_num_ep_configs := 0\<rparr>)"; auto)
        then show ?thesis unfolding skip Cons ep using True Some sp by simp
      qed
    qed
  qed
qed

text \<open>
  C12: The configuration a device reports is read as the list of its descriptors, whatever other descriptors are among them: the first interface with the boot protocol of a keyboard or a
  mouse gets a driver, the configurations of its endpoints and the driver of each of them are recorded, and the configuration is selected with a request. Without such an interface
  nothing changes. When the interface announces more endpoints than descriptors follow, or more than sixteen, there is no defined result.
\<close>

theorem InitializePhase2_correct:
  assumes "descs_at (us_bytes s) buf (d0 # ds)" "d0 ! 1 = 2" "6 \<le> length d0" "shaped ds" "len = int (length (concat (d0 # ds)))" "0 < unat buf"
    "below_pool L (unat buf + length (concat (d0 # ds))) s" "length (dv_ep_configs d) = 16" "length (dv_class_drivers d) = 16"
  shows "InitializePhase2 L buf len d s =
    (case dropWhile (\<lambda>i. \<not> supported i) ds of [] \<Rightarrow> Some (d, s, kSuccess)
     | i # rest \<Rightarrow> do {
         (s', p) \<leftarrow> driver_for L i s;
         if unat (i ! 4) \<le> 16 \<and> unat (i ! 4) \<le> length (ep_descs rest)
         then SetConfiguration kDefaultControlPipeID (d0 ! 5)
           ((install p (map ep_config (take (unat (i ! 4)) (ep_descs rest))) (d\<lparr>dv_num_ep_configs := 0\<rparr>))\<lparr>dv_initialize_phase := 3\<rparr>) s'
         else None
       })"
proof -
  define e where "e = unat buf + length (concat (d0 # ds))"
  have e: "e < 2 ^ 64" using assms(7) unsigned_less [of "um_alloc_ptr (us_um s)", where ?'a = nat] by (auto simp: below_pool_def e_def)
  define r where "r = ConfigurationDescriptorReader_new buf len"
  have rep: "reader_rep (us_bytes s) r ds" unfolding r_def using assms(1,5,6) e by (intro reader_new) (simp_all add: e_def)
  define k where "k = length (concat (d0 # ds))"
  have "unat (buf + of_nat k) = unat buf + k"
    using e [unfolded e_def, folded k_def] by (subst unat_add_nowrap) (simp_all add: unsigned_of_nat take_bit_nat_eq_self)
  moreover have "(word_of_int len :: u64) = of_nat k" unfolding assms(5) k_def by (rule of_int_of_nat_eq)
  ultimately have end_r: "unat (cr_buf r + word_of_int (cr_len r)) = e" by (simp add: r_def ConfigurationDescriptorReader_new_def e_def k_def)
  have ty: "DescriptorDynamicCast ConfigurationDescriptor_kType (us_bytes s) buf"
    using desc_length(3) [OF assms(1)] assms(2) by (simp add: DescriptorDynamicCast_def descriptor_types)
  have cv: "configuration_value (us_bytes s') buf = d0 ! 5" if "\<And>x. unat x < e \<Longrightarrow> us_bytes s' x = us_bytes s x" for s'
  proof -
    have "unat (buf + 5) = unat buf + 5" using assms(3) e by (subst unat_add_nowrap) (simp_all add: e_def)
    then show ?thesis using that [of "buf + 5"] desc_bytes [OF assms(1), of 5] assms(3) by (simp add: configuration_value_def e_def)
  qed
  note loop = if_loop_ok [OF rep assms(4) _ assms(8,9), of L, unfolded end_r, OF assms(7) [folded e_def]]
  show ?thesis
  proof (cases "dropWhile (\<lambda>i. \<not> supported i) ds")
    case Nil
    show ?thesis using ty loop unfolding Nil by (simp add: InitializePhase2_def r_def)
  next
    case (Cons i rest)
    show ?thesis
    proof (cases "driver_for L i s")
      case None
      then show ?thesis using ty loop Cons by (simp add: InitializePhase2_def r_def)
    next
      case (Some sp)
      obtain s' p where sp: "sp = (s', p)" by (cases sp)
      have "us_bytes s' x = us_bytes s x" if "unat x < e" for x using driver_for_bytes(1) [OF Some [unfolded sp] assms(7) [folded e_def] that] .
      then have c: "configuration_value (us_bytes s') buf = d0 ! 5" by (rule cv)
      have "p \<noteq> 0" using driver_for_bytes(2) [OF Some [unfolded sp] assms(7) [folded e_def], of 0] assms(6) by (simp add: e_def)
      then show ?thesis using ty loop Cons Some sp c by (simp add: InitializePhase2_def r_def)
    qed
  qed
qed

section \<open>An example\<close>

text \<open>Bytes at an address, for the examples.\<close>

definition bytes_of :: "u64 \<Rightarrow> u8 list \<Rightarrow> bytes" where
  "bytes_of b bs x = (if unat (x - b) < length bs then bs ! unat (x - b) else 0)"

lemma descs_at_bytes_of:
  assumes "list_all desc_ok ds" "length pre + length (concat ds) < 2 ^ 64"
  shows "descs_at (bytes_of b (pre @ concat ds)) (b + of_nat (length pre)) ds"
  using assms
proof (induction ds arbitrary: pre)
  case (Cons d ds)
  have "bytes_of b (pre @ concat (d # ds)) (b + of_nat (length pre) + of_nat i) = d ! i" if "i < length d" for i
  proof -
    have "b + of_nat (length pre) + of_nat i - b = (of_nat (length pre + i) :: u64)" by simp
    moreover have "unat (of_nat (length pre + i) :: u64) = length pre + i" using that Cons.prems(2) by (intro unat_of_nat_small) simp
    ultimately show ?thesis using that by (simp add: bytes_of_def nth_append del: of_nat_add)
  qed
  moreover have "descs_at (bytes_of b ((pre @ d) @ concat ds)) (b + of_nat (length (pre @ d))) ds" using Cons by (intro Cons.IH) simp_all
  ultimately show ?case using Cons.prems(1) by (simp add: add.assoc)
qed simp

definition config0 :: "u8 list" where "config0 = [9, 2, 43, 0, 2, 1, 0, 0xa0, 50]"

definition config_rest :: "u8 list list" where
  "config_rest = [[9, 4, 0, 0, 0, 8, 6, 80, 0], [9, 4, 1, 0, 1, 3, 1, 2, 0], [9, 33, 0x11, 1, 0, 1, 34, 52, 0], [7, 5, 0x81, 3, 4, 0, 10]]"

definition mouse_abi :: abi where
  "mouse_abi = \<lparr>ab_Device = 4096, ab_ctx = 1024, ab_input_ctx = 2048, ab_buf = 144, ab_Ring = 40, ab_keyboard = 2224, ab_mouse = 2224, ab_hid_buf = 36\<rparr>"

definition mouse_dev :: UsbDev where
  "mouse_dev = (Device_new 0x1000 1)\<lparr>dv_initialize_phase := 2, dv_transfer_rings := (replicate 31 None)[0 := Some \<lparr>rg_buf = 0x8000, rg_buf_size = 32, rg_cycle_bit = True, rg_write_index = 3\<rparr>]\<rparr>"

definition mouse_usb :: usb where
  "mouse_usb = \<lparr>us_um = \<lparr>um_pool = 0x1000, um_alloc_ptr = 0x9000\<rparr>, us_trbs = (\<lambda>a. TRB_zero), us_bytes = bytes_of 0x1000 (concat (config0 # config_rest)), us_drivers = (\<lambda>a. None), us_bells = [], us_notes = [],
     us_keyboard_observer = Some 0, us_mouse_observer = Some 1\<rparr>"

lemma mouse_descs: "descs_at (us_bytes mouse_usb) 0x1000 (config0 # config_rest)"
  using descs_at_bytes_of [of "config0 # config_rest" "[]" "0x1000"] by (simp add: mouse_usb_def desc_ok_def config0_def config_rest_def)

lemma mouse_shaped: "shaped config_rest" by (simp add: shaped_def config_rest_def)

lemma mouse_below: "below_pool mouse_abi (unat (0x1000 :: u64) + length (concat (config0 # config_rest))) mouse_usb"
  by (simp add: below_pool_def config0_def config_rest_def mouse_abi_def mouse_usb_def kBufferSize_def)

lemma mouse_interface: "dropWhile (\<lambda>i. \<not> supported i) config_rest = [9, 4, 1, 0, 1, 3, 1, 2, 0] # drop 2 config_rest"
  by (simp add: config_rest_def supported_def)

lemma mouse_endpoints: "ep_descs (drop 2 config_rest) = [[7, 5, 0x81, 3, 4, 0, 10]]"
  by (simp add: config_rest_def ep_descs_def)

lemma mouse_driver: "\<exists>s'. driver_for mouse_abi [9, 4, 1, 0, 1, 3, 1, 2, 0] mouse_usb = Some (s', 0x9000) \<and> us_trbs s' = (\<lambda>a. TRB_zero)"
  by (simp add: driver_for_def new_driver_def mouse_usb_def mouse_abi_def AllocMem_def Let_def kMemoryPoolSize_def Subscribe_def HIDMouseDriver_new_def HIDBaseDriver_new_def set_driver_def)

lemma mouse_ring: "transfer_ring 1 mouse_dev = Some (Some \<lparr>rg_buf = 0x8000, rg_buf_size = 32, rg_cycle_bit = True, rg_write_index = 3\<rparr>)"
  "room3 \<lparr>rg_buf = 0x8000, rg_buf_size = 32, rg_cycle_bit = True, rg_write_index = 3\<rparr>"
  by (simp_all add: transfer_ring_def mouse_dev_def aget_def room3_def)

lemma control_pipe [simp]: "Address kDefaultControlPipeID = 1" "Number kDefaultControlPipeID = 0"
  by (simp_all add: kDefaultControlPipeID_def)

lemma install_rings [simp]: "dv_transfer_rings (install p cs d) = dv_transfer_rings d"
  unfolding install_def by (induction cs arbitrary: d) (simp_all add: install1_def)

theorem InitializePhase2_correct_witness:
  "descs_at (us_bytes mouse_usb) 0x1000 (config0 # config_rest) \<and> shaped config_rest \<and>
   (\<exists>d' s'. InitializePhase2 mouse_abi 0x1000 43 mouse_dev mouse_usb = Some (d', s', kSuccess) \<and> dv_num_ep_configs d' = 1 \<and> dv_class_drivers d' ! 1 = 0x9000)"
proof -
  let ?d = "(install 0x9000 [ep_config [7, 5, 0x81, 3, 4, 0, 10]] (mouse_dev\<lparr>dv_num_ep_configs := 0\<rparr>))\<lparr>dv_initialize_phase := 3\<rparr>"
  obtain s' where s': "driver_for mouse_abi [9, 4, 1, 0, 1, 3, 1, 2, 0] mouse_usb = Some (s', 0x9000)" using mouse_driver by blast
  have c: "config0 ! 1 = 2" "6 \<le> length config0" "(43 :: int) = int (length (concat (config0 # config_rest)))" "0 < unat (0x1000 :: u64)"
    by (simp_all add: config0_def config_rest_def)
  have dv: "length (dv_ep_configs mouse_dev) = 16" "length (dv_class_drivers mouse_dev) = 16" by (simp_all add: mouse_dev_def Device_new_def)
  have I: "InitializePhase2 mouse_abi 0x1000 43 mouse_dev mouse_usb = SetConfiguration kDefaultControlPipeID 1 ?d s'"
    unfolding InitializePhase2_correct [OF mouse_descs c(1,2) mouse_shaped c(3,4) mouse_below dv] mouse_interface
    using s' mouse_endpoints by (simp add: config0_def)
  have t: "transfer_ring (Address kDefaultControlPipeID) ?d = Some (Some \<lparr>rg_buf = 0x8000, rg_buf_size = 32, rg_cycle_bit = True, rg_write_index = 3\<rparr>)"
    using mouse_ring(1) by (simp add: transfer_ring_def)
  have n: "Number (ep_id (ep_config [7, 5, 0x81, 3, 4, 0, 10])) = 1" by (simp add: ep_config_def take_bit_eq_mod)
  obtain sd r' m p q where "SetConfiguration kDefaultControlPipeID 1 ?d s' = Some ((base_Control sd 0 ?d)\<lparr>
      dv_transfer_rings := (dv_transfer_rings ?d)[nat (Address kDefaultControlPipeID - 1) := Some r'], dv_setup_stage_map := Put p q (dv_setup_stage_map ?d)\<rparr>,
      Doorbell_Ring (dv_slot_id ?d) (word_of_int (Address kDefaultControlPipeID)) 0 (s'\<lparr>us_trbs := m\<rparr>), kSuccess)"
    using request_blocks [OF t mouse_ring(2), of False _ 0 0 0 s'] unfolding SetConfiguration_def request_def Let_def by (metis control_pipe(2) order_refl zero_le_numeral)
  moreover have "dv_num_ep_configs ?d = 1" "dv_class_drivers ?d ! 1 = 0x9000"
    using n by (simp_all add: install_def install1_def mouse_dev_def Device_new_def)
  ultimately have "\<exists>d' s''. SetConfiguration kDefaultControlPipeID 1 ?d s' = Some (d', s'', kSuccess) \<and> dv_num_ep_configs d' = 1 \<and> dv_class_drivers d' ! 1 = 0x9000"
    by (auto simp: base_Control_def)
  with I mouse_descs mouse_shaped show ?thesis by simp
qed


section \<open>Keyboard reports\<close>

text \<open>A report has eight bytes: the modifiers, one that is reserved, and the codes of the keys that are down.\<close>

definition pressed :: "u8 list \<Rightarrow> u8 list \<Rightarrow> u8 list" where
  "pressed prev cur = filter (\<lambda>k. k \<noteq> 0 \<and> k \<notin> set prev) (drop 2 cur)"

definition told :: "nat list \<Rightarrow> u8 list \<Rightarrow> notice list" where
  "told obs ks = concat (map (\<lambda>k. map (\<lambda>ob. KeyPush ob k) obs) ks)"

lemma keyboard_key_notes:
  "us_bytes (keyboard_key h i s) = us_bytes s" "us_trbs (keyboard_key h i s) = us_trbs s" "us_drivers (keyboard_key h i s) = us_drivers s"
  "us_notes (keyboard_key h i s) = us_notes s @ (if buf_at h s i \<noteq> 0 \<and> buf_at h s i \<notin> set (hd_previous_buf h) then told (hd_observers h) [buf_at h s i] else [])"
  by (simp_all add: keyboard_key_def NotifyKeyPush_def told_def Let_def)

lemma keyboard_fold:
  "us_bytes (fold (keyboard_key h) is s) = us_bytes s \<and> us_trbs (fold (keyboard_key h) is s) = us_trbs s \<and> us_drivers (fold (keyboard_key h) is s) = us_drivers s \<and>
   us_notes (fold (keyboard_key h) is s) = us_notes s @ told (hd_observers h) (filter (\<lambda>k. k \<noteq> 0 \<and> k \<notin> set (hd_previous_buf h)) (map (buf_at h s) is))"
proof (induction "is" arbitrary: s)
  case (Cons i "is")
  have "buf_at h (keyboard_key h i s) = buf_at h s" by (simp add: fun_eq_iff buf_at_def keyboard_key_notes)
  with Cons [of "keyboard_key h i s"] show ?case by (auto simp: keyboard_key_notes told_def)
qed (simp add: told_def)

definition report_at :: "HIDDriver \<Rightarrow> u8 list \<Rightarrow> usb \<Rightarrow> bool" where
  "report_at h rep s \<longleftrightarrow> length rep = 8 \<and> map (buf_at h s) [0..<8] = rep"

definition keyboard_at :: "u64 \<Rightarrow> u8 list \<Rightarrow> UsbDev \<Rightarrow> usb \<Rightarrow> HIDDriver \<Rightarrow> bool" where
  "keyboard_at p prev d s h \<longleftrightarrow> us_drivers s p = Some h \<and> hd_kind h = Keyboard \<and> hd_in_packet_size h = 8 \<and> length prev = 8 \<and>
     hd_previous_buf h = prev @ replicate 1016 0 \<and> (\<exists>r. transfer_ring (Address (hd_ep_interrupt_in h)) d = Some (Some r) \<and> room3 r)"

lemma keyboard_step:
  assumes "keyboard_at p prev d s h" "report_at h cur s" "IsIn ep"
  obtains d' s' where "hid_OnInterruptCompleted p ep buf 8 d s = Some (d', s', kSuccess)" "us_notes s' = us_notes s @ told (hd_observers h) (pressed prev cur)"
    "keyboard_at p cur d' s' (h\<lparr>hd_previous_buf := cur @ replicate 1016 0\<rparr>)"
proof -
  have k: "us_drivers s p = Some h" "hd_kind h = Keyboard" "hd_in_packet_size h = 8" "length prev = 8" "hd_previous_buf h = prev @ replicate 1016 0"
    using assms(1) by (auto simp: keyboard_at_def)
  obtain r where r: "transfer_ring (Address (hd_ep_interrupt_in h)) d = Some (Some r)" "room3 r" using assms(1) by (auto simp: keyboard_at_def)
  have cur: "length cur = 8" "map (buf_at h s) [0..<8] = cur" using assms(2) by (auto simp: report_at_def)
  let ?s = "OnDataReceived h s"
  have "OnDataReceived h s = fold (keyboard_key h) [2..<8] s" using k(2) by (simp add: OnDataReceived_def keyboard_OnDataReceived_def)
  with keyboard_fold [of h "[2..<8]" s] have F: "us_bytes ?s = us_bytes s" "us_trbs ?s = us_trbs s" "us_drivers ?s = us_drivers s"
    "us_notes ?s = us_notes s @ told (hd_observers h) (filter (\<lambda>k. k \<noteq> 0 \<and> k \<notin> set (hd_previous_buf h)) (map (buf_at h s) [2..<8]))" by auto
  have "[0..<8] = [0..<2] @ [2..<(8 :: nat)]" by (simp add: upt_rec)
  then have "map (buf_at h s) [2..<8] = drop 2 cur" unfolding cur(2) [symmetric] by simp
  moreover have "(k \<noteq> 0 \<and> k \<notin> set (hd_previous_buf h)) = (k \<noteq> 0 \<and> k \<notin> set prev)" for k unfolding k(5) by auto
  ultimately have nt: "us_notes ?s = us_notes s @ told (hd_observers h) (pressed prev cur)" using F(4) by (simp add: pressed_def)
  let ?h = "h\<lparr>hd_previous_buf := cur @ replicate 1016 0\<rparr>"
  have "buf_at h ?s = buf_at h s" by (simp add: fun_eq_iff buf_at_def F)
  then have cp: "copy_previous 8 h ?s = Some ?h" using cur k(4,5) by (simp add: copy_previous_def kBufferSize_def)
  let ?t = "set_interrupt_on_completion (set_interrupt_on_short_packet ((set_parameter (hd_buf h) NormalTRB_new)\<lparr>t_2 := put_field 17 0 (word_of_int 8) (t_2 (set_parameter (hd_buf h) NormalTRB_new))\<rparr>))"
  obtain r' m' q where P: "push_transfer (Address (hd_ep_interrupt_in h)) ?t d (set_driver p ?h ?s) =
      Some (d\<lparr>dv_transfer_rings := (dv_transfer_rings d)[nat (Address (hd_ep_interrupt_in h) - 1) := Some r']\<rparr>, (set_driver p ?h ?s)\<lparr>us_trbs := m'\<rparr>, q)"
    "room3 r'" "transfer_ring (Address (hd_ep_interrupt_in h)) (d\<lparr>dv_transfer_rings := (dv_transfer_rings d)[nat (Address (hd_ep_interrupt_in h) - 1) := Some r']\<rparr>) = Some (Some r')"
    by (rule push_step [OF r])
  show thesis
  proof (rule that)
    show "hid_OnInterruptCompleted p ep buf 8 d s = Some (d\<lparr>dv_transfer_rings := (dv_transfer_rings d)[nat (Address (hd_ep_interrupt_in h) - 1) := Some r']\<rparr>,
        Doorbell_Ring (dv_slot_id d) (word_of_int (Address (hd_ep_interrupt_in h))) 0 ((set_driver p ?h ?s)\<lparr>us_trbs := m'\<rparr>), kSuccess)"
      using k(1,3) assms(3) cp r(1) P(1) by (simp add: hid_OnInterruptCompleted_def InterruptIn_def Let_def)
    show "us_notes (Doorbell_Ring (dv_slot_id d) (word_of_int (Address (hd_ep_interrupt_in h))) 0 ((set_driver p ?h ?s)\<lparr>us_trbs := m'\<rparr>)) =
        us_notes s @ told (hd_observers h) (pressed prev cur)" using nt by (simp add: Doorbell_Ring_def Let_def set_driver_def)
    show "keyboard_at p cur (d\<lparr>dv_transfer_rings := (dv_transfer_rings d)[nat (Address (hd_ep_interrupt_in h) - 1) := Some r']\<rparr>)
        (Doorbell_Ring (dv_slot_id d) (word_of_int (Address (hd_ep_interrupt_in h))) 0 ((set_driver p ?h ?s)\<lparr>us_trbs := m'\<rparr>)) ?h"
      using k cur(1) P(2,3) by (simp add: keyboard_at_def Doorbell_Ring_def Let_def set_driver_def)
  qed
qed

text \<open>The controller writes a report into the buffer of the driver and completes the transfer.\<close>

fun put_bytes :: "u64 \<Rightarrow> u8 list \<Rightarrow> bytes \<Rightarrow> bytes" where
  "put_bytes a [] m = m"
| "put_bytes a (b # bs) m = (put_bytes (a + 1) bs m)(a := b)"

fun keyboard_run :: "u64 \<Rightarrow> u64 \<Rightarrow> u8 list list \<Rightarrow> UsbDev \<Rightarrow> usb \<Rightarrow> (UsbDev \<times> usb) option" where
  "keyboard_run p a [] d s = Some (d, s)"
| "keyboard_run p a (rep # reps) d s = do {
     (d, s, err) \<leftarrow> hid_OnInterruptCompleted p (EndpointID_new 1 True) a 8 d (s\<lparr>us_bytes := put_bytes a rep (us_bytes s)\<rparr>);
     if is_error err then None else keyboard_run p a reps d s
   }"

fun key_events :: "u8 list \<Rightarrow> u8 list list \<Rightarrow> u8 list" where
  "key_events prev [] = []"
| "key_events prev (rep # reps) = pressed prev rep @ key_events rep reps"

lemma put_bytes_at: "i < length bs \<Longrightarrow> length bs < 2 ^ 64 \<Longrightarrow> put_bytes a bs m (a + of_nat i) = bs ! i"
proof (induction bs arbitrary: a i)
  case (Cons b bs)
  show ?case
  proof (cases i)
    case (Suc j)
    have "unat (of_nat i :: u64) = i" using Cons.prems by (intro unat_of_nat_small) simp
    then have "(of_nat i :: u64) \<noteq> 0" using Suc by (metis nat.distinct(1) unat_0)
    moreover have "put_bytes (a + 1) bs m (a + of_nat i) = bs ! j" using Cons.IH [of j "a + 1"] Cons.prems Suc by (simp add: add.assoc)
    ultimately show ?thesis using Suc by simp
  qed simp
qed simp

lemma put_report: "length rep = 8 \<Longrightarrow> report_at h rep (s\<lparr>us_bytes := put_bytes (hd_buf h) rep m\<rparr>)"
  unfolding report_at_def by (auto simp: buf_at_def put_bytes_at intro!: nth_equalityI)

text \<open>
  C28: From any sequence of reports of a keyboard its driver tells every observer exactly the key codes that are new: in each report the codes other than zero that were nowhere in the report
  before, in their order, and after each report it asks for the next. A code that was in the report before counts as held even if it stood there as the modifier
  byte.
\<close>

theorem keyboard_reports_correct:
  assumes "keyboard_at p prev d s h" "\<forall>rep \<in> set reps. length rep = 8"
  shows "\<exists>d' s'. keyboard_run p (hd_buf h) reps d s = Some (d', s') \<and> us_notes s' = us_notes s @ told (hd_observers h) (key_events prev reps)"
  using assms
proof (induction reps arbitrary: prev d s h)
  case (Cons rep reps)
  let ?s = "s\<lparr>us_bytes := put_bytes (hd_buf h) rep (us_bytes s)\<rparr>"
  have k: "keyboard_at p prev d ?s h" "report_at h rep ?s" using Cons.prems put_report by (auto simp: keyboard_at_def)
  obtain d' s' where st: "hid_OnInterruptCompleted p (EndpointID_new 1 True) (hd_buf h) 8 d ?s = Some (d', s', kSuccess)"
    "us_notes s' = us_notes ?s @ told (hd_observers h) (pressed prev rep)" "keyboard_at p rep d' s' (h\<lparr>hd_previous_buf := rep @ replicate 1016 0\<rparr>)"
    by (rule keyboard_step [OF k, of "EndpointID_new 1 True" "hd_buf h"]) simp
  from Cons.IH [OF st(3)] Cons.prems(2) obtain d'' s'' where "keyboard_run p (hd_buf h) reps d' s' = Some (d'', s'')"
    "us_notes s'' = us_notes s' @ told (hd_observers h) (key_events rep reps)" by auto
  then show ?case using st(1,2) by (simp add: is_error_def told_def)
qed (simp add: told_def)

theorem keyboard_reports_correct_witness:
  "\<exists>d' s'. keyboard_run 0x9000 0x9024 [[0, 0, 4, 0, 0, 0, 0, 0], [2, 0, 4, 5, 0, 0, 0, 0], [0, 0, 2, 5, 4, 0, 0, 0]]
      (mouse_dev\<lparr>dv_transfer_rings := (dv_transfer_rings mouse_dev)[2 := dv_transfer_rings mouse_dev ! 0]\<rparr>)
      (set_driver 0x9000 ((HIDKeyboardDriver_new 0 0x9024)\<lparr>hd_ep_interrupt_in := EndpointID_new 1 True, hd_observers := [7]\<rparr>) mouse_usb) = Some (d', s') \<and>
    us_notes s' = [KeyPush 7 4, KeyPush 7 5]"
proof -
  let ?h = "(HIDKeyboardDriver_new 0 0x9024)\<lparr>hd_ep_interrupt_in := EndpointID_new 1 True, hd_observers := [7]\<rparr>"
  let ?d = "mouse_dev\<lparr>dv_transfer_rings := (dv_transfer_rings mouse_dev)[2 := dv_transfer_rings mouse_dev ! 0]\<rparr>"
  have "(0 :: u8) # replicate 1023 0 = replicate 8 0 @ replicate 1016 0" by (simp flip: replicate_add replicate_Suc)
  then have "keyboard_at 0x9000 (replicate 8 0) ?d (set_driver 0x9000 ?h mouse_usb) ?h"
    using mouse_ring by (simp add: keyboard_at_def set_driver_def HIDKeyboardDriver_new_def HIDBaseDriver_new_def kBufferSize_def transfer_ring_def mouse_dev_def
        Device_new_def aget_def replicate_add [symmetric])
  from keyboard_reports_correct [OF this, of "[[0, 0, 4, 0, 0, 0, 0, 0], [2, 0, 4, 5, 0, 0, 0, 0], [0, 0, 2, 5, 4, 0, 0, 0]]"]
  show ?thesis by (simp add: HIDKeyboardDriver_new_def HIDBaseDriver_new_def pressed_def told_def mouse_usb_def set_driver_def del: keyboard_run.simps)
qed

end
