(* ===== verification/Xhci.thy ===== *)
theory Xhci
  imports UsbEnum
begin

text \<open>
  The host controller driver (\<^verbatim>\<open>src/src/usb/xhci/xhci.{hpp,cpp}\<close>, \<^verbatim>\<open>devmgr.{hpp,cpp}\<close>, \<^verbatim>\<open>port.{hpp,cpp}\<close>, \<^verbatim>\<open>registers.{hpp,cpp}\<close>, \<^verbatim>\<open>speed.hpp\<close>): the table of devices, the root hub ports,
  the state machine that takes each port from its connection to a configured device, and the initialization of the controller. The registers are hardware:
  what reading and writing them does is a parameter.
\<close>

section \<open>Registers\<close>

text \<open>The registers the driver accesses; those of the ports by port number, the extended ones by address.\<close>

datatype reg = HCSPARAMS1 | HCSPARAMS2 | HCCPARAMS1 | USBCMD | USBSTS | CRCR | DCBAAP | CONFIG | PORTSC u8 | EXT u64

record 'h mmio =
  mm_read :: "reg \<Rightarrow> 'h \<Rightarrow> u64 \<times> 'h"
  mm_write :: "reg \<Rightarrow> u64 \<Rightarrow> 'h \<Rightarrow> 'h"

definition Read32 :: "'h mmio \<Rightarrow> reg \<Rightarrow> 'h \<Rightarrow> u32 \<times> 'h" where
  "Read32 W r h = (let (v, h) = mm_read W r h in (ucast v, h))"

definition Write32 :: "'h mmio \<Rightarrow> reg \<Rightarrow> u32 \<Rightarrow> 'h \<Rightarrow> 'h" where
  "Write32 W r v h = mm_write W r (ucast v) h"

text \<open>Their bits.\<close>

definition max_ports :: "u32 \<Rightarrow> u32" where "max_ports v = get_field 8 24 v"
definition max_scratchpad_buffers_low :: "u32 \<Rightarrow> u32" where "max_scratchpad_buffers_low v = get_field 5 27 v"
definition max_scratchpad_buffers_high :: "u32 \<Rightarrow> u32" where "max_scratchpad_buffers_high v = get_field 5 21 v"
definition xhci_extended_capabilities_pointer :: "u32 \<Rightarrow> u32" where "xhci_extended_capabilities_pointer v = get_field 16 16 v"
definition set_run_stop :: "bool \<Rightarrow> u32 \<Rightarrow> u32" where "set_run_stop b v = put_field 1 0 (of_bool b) v"
definition host_controller_reset :: "u32 \<Rightarrow> bool" where "host_controller_reset v = bit v 1"
definition set_host_controller_reset :: "bool \<Rightarrow> u32 \<Rightarrow> u32" where "set_host_controller_reset b v = put_field 1 1 (of_bool b) v"
definition set_interrupter_enable :: "bool \<Rightarrow> u32 \<Rightarrow> u32" where "set_interrupter_enable b v = put_field 1 2 (of_bool b) v"
definition set_host_system_error_enable :: "bool \<Rightarrow> u32 \<Rightarrow> u32" where "set_host_system_error_enable b v = put_field 1 3 (of_bool b) v"
definition set_enable_wrap_event :: "bool \<Rightarrow> u32 \<Rightarrow> u32" where "set_enable_wrap_event b v = put_field 1 10 (of_bool b) v"
definition host_controller_halted :: "u32 \<Rightarrow> bool" where "host_controller_halted v = bit v 0"
definition controller_not_ready :: "u32 \<Rightarrow> bool" where "controller_not_ready v = bit v 11"
definition CRCR_SetPointer :: "u64 \<Rightarrow> u64 \<Rightarrow> u64" where "CRCR_SetPointer p v = put_field 58 6 (drop_bit 6 p) v"
definition DCBAAP_SetPointer :: "u64 \<Rightarrow> u64 \<Rightarrow> u64" where "DCBAAP_SetPointer p v = put_field 26 6 (drop_bit 6 p) v"
definition set_max_device_slots_enabled :: "u32 \<Rightarrow> u32 \<Rightarrow> u32" where "set_max_device_slots_enabled n v = put_field 8 0 n v"
definition ext_capability_id :: "u32 \<Rightarrow> u32" where "ext_capability_id v = get_field 8 0 v"
definition ext_next_pointer :: "u32 \<Rightarrow> u32" where "ext_next_pointer v = get_field 8 8 v"
definition hc_bios_owned_semaphore :: "u32 \<Rightarrow> bool" where "hc_bios_owned_semaphore v = bit v 16"
definition hc_os_owned_semaphore :: "u32 \<Rightarrow> bool" where "hc_os_owned_semaphore v = bit v 24"
definition set_hc_os_owned_semaphore :: "u32 \<Rightarrow> u32" where "set_hc_os_owned_semaphore v = put_field 1 24 1 v"

section \<open>The state of the driver\<close>

datatype ConfigPhase = kNotConnected | kWaitingAddressed | kResettingPort | kEnablingSlot | kAddressingDevice | kInitializingDevice
  | kConfiguringEndpoints | kConfigured

record 'h xhci =
  xc_hw :: 'h
  xc_usb :: usb
  xc_max_ports :: u8
  xc_max_slots :: u64
  xc_devices :: "UsbDev option list"
  xc_dcbaa_addr :: u64
  xc_dcbaa :: "u64 list"
  xc_cr :: Ring
  xc_er :: EventRing
  xc_phase :: "u8 \<Rightarrow> ConfigPhase"
  xc_addressing_port :: u8

definition set_phase :: "u8 \<Rightarrow> ConfigPhase \<Rightarrow> 'h xhci \<Rightarrow> 'h xhci" where
  "set_phase p ph x = x\<lparr>xc_phase := (xc_phase x)(p := ph)\<rparr>"

text \<open>A command: a block on the command ring, and the doorbell of the controller.\<close>

definition push_command :: "TRB \<Rightarrow> 'h xhci \<Rightarrow> 'h xhci" where
  "push_command cmd x =
     (let (r, m, _) = Ring_Push cmd (xc_cr x) (us_trbs (xc_usb x))
      in x\<lparr>xc_cr := r, xc_usb := Doorbell_Ring 0 0 0 ((xc_usb x)\<lparr>us_trbs := m\<rparr>)\<rparr>)"

section \<open>Ports\<close>

text \<open>The register of a port outside the array of registers is not defined.\<close>

definition PORTSC_Read :: "'h mmio \<Rightarrow> u8 \<Rightarrow> 'h xhci \<Rightarrow> (u32 \<times> 'h xhci) option" where
  "PORTSC_Read W port x = (if port = 0 \<or> xc_max_ports x < port then None else (let (v, h) = Read32 W (PORTSC port) (xc_hw x) in Some (v, x\<lparr>xc_hw := h\<rparr>)))"

definition PORTSC_Write :: "'h mmio \<Rightarrow> u8 \<Rightarrow> u32 \<Rightarrow> 'h xhci \<Rightarrow> 'h xhci option" where
  "PORTSC_Write W port v x = (if port = 0 \<or> xc_max_ports x < port then None else Some (x\<lparr>xc_hw := Write32 W (PORTSC port) v (xc_hw x)\<rparr>))"

definition IsConnected :: "'h mmio \<Rightarrow> u8 \<Rightarrow> 'h xhci \<Rightarrow> (bool \<times> 'h xhci) option" where
  "IsConnected W port x = do { (v, x) \<leftarrow> PORTSC_Read W port x; Some (bit v 0, x) }"

definition IsEnabled :: "'h mmio \<Rightarrow> u8 \<Rightarrow> 'h xhci \<Rightarrow> (bool \<times> 'h xhci) option" where
  "IsEnabled W port x = do { (v, x) \<leftarrow> PORTSC_Read W port x; Some (bit v 1, x) }"

definition IsConnectStatusChanged :: "'h mmio \<Rightarrow> u8 \<Rightarrow> 'h xhci \<Rightarrow> (bool \<times> 'h xhci) option" where
  "IsConnectStatusChanged W port x = do { (v, x) \<leftarrow> PORTSC_Read W port x; Some (bit v 17, x) }"

definition IsPortResetChanged :: "'h mmio \<Rightarrow> u8 \<Rightarrow> 'h xhci \<Rightarrow> (bool \<times> 'h xhci) option" where
  "IsPortResetChanged W port x = do { (v, x) \<leftarrow> PORTSC_Read W port x; Some (bit v 21, x) }"

definition Speed :: "'h mmio \<Rightarrow> u8 \<Rightarrow> 'h xhci \<Rightarrow> (u32 \<times> 'h xhci) option" where
  "Speed W port x = do { (v, x) \<leftarrow> PORTSC_Read W port x; Some (get_field 4 10 v, x) }"

partial_function (option) reset_wait :: "'h mmio \<Rightarrow> u8 \<Rightarrow> 'h xhci \<Rightarrow> 'h xhci option" where
  "reset_wait W port x = do { (v, x) \<leftarrow> PORTSC_Read W port x; if bit v 4 then reset_wait W port x else Some x }"

definition Reset_value :: "u32 \<Rightarrow> u32" where
  "Reset_value v = (v AND 0x0e00c3e0) OR 0x00020010"

definition Port_Reset :: "'h mmio \<Rightarrow> u8 \<Rightarrow> 'h xhci \<Rightarrow> ('h xhci \<times> Code) option" where
  "Port_Reset W port x = do {
     (v, x) \<leftarrow> PORTSC_Read W port x;
     x \<leftarrow> PORTSC_Write W port (Reset_value v) x;
     x \<leftarrow> reset_wait W port x;
     Some (x, kSuccess)
   }"

definition clear_value :: "nat \<Rightarrow> u32 \<Rightarrow> u32" where
  "clear_value bitpos v = put_field 1 bitpos 1 (v AND 0x0e01c3e0)"

definition ClearConnectStatusChanged :: "'h mmio \<Rightarrow> u8 \<Rightarrow> 'h xhci \<Rightarrow> 'h xhci option" where
  "ClearConnectStatusChanged W port x = do { (v, x) \<leftarrow> PORTSC_Read W port x; PORTSC_Write W port (clear_value 17 v) x }"

definition ClearPortResetChange :: "'h mmio \<Rightarrow> u8 \<Rightarrow> 'h xhci \<Rightarrow> 'h xhci option" where
  "ClearPortResetChange W port x = do { (v, x) \<leftarrow> PORTSC_Read W port x; PORTSC_Write W port (clear_value 21 v) x }"

section \<open>The device manager\<close>

definition kDeviceSize :: u64 where "kDeviceSize = 8"

definition DeviceManager_Initialize :: "u64 \<Rightarrow> 'h xhci \<Rightarrow> 'h xhci \<times> Code" where
  "DeviceManager_Initialize max_slots x =
     (let x = x\<lparr>xc_max_slots := max_slots\<rparr>;
          (um, p) = AllocArray 8 (max_slots + 1) 0 0 (us_um (xc_usb x));
          x = x\<lparr>xc_usb := (xc_usb x)\<lparr>us_um := um\<rparr>\<rparr>
      in if p = 0 then (x, kNoEnoughMemory)
         else
           (let (um, q) = AllocArray 8 (max_slots + 1) 64 4096 (us_um (xc_usb x));
                x = x\<lparr>xc_usb := (xc_usb x)\<lparr>us_um := um\<rparr>, xc_dcbaa_addr := q\<rparr>
            in if q = 0 then (x\<lparr>xc_usb := (xc_usb x)\<lparr>us_um := FreeMem p (us_um (xc_usb x))\<rparr>\<rparr>, kNoEnoughMemory)
               else (x\<lparr>xc_devices := replicate (Suc (unat max_slots)) None, xc_dcbaa := replicate (Suc (unat max_slots)) 0\<rparr>, kSuccess)))"

definition FindByPort :: "u8 \<Rightarrow> 'h xhci \<Rightarrow> UsbDev option" where
  "FindByPort port_num x = Option.bind (find (\<lambda>d. case d of Some d \<Rightarrow> sc_root_hub_port_num (dc_slot_context (dv_ctx d)) = ucast port_num | None \<Rightarrow> False)
     (take (unat (xc_max_slots x)) (drop 1 (xc_devices x)))) id"

definition FindByState :: "DeviceState \<Rightarrow> 'h xhci \<Rightarrow> UsbDev option" where
  "FindByState st x = Option.bind (find (\<lambda>d. case d of Some d \<Rightarrow> dv_state d = st | None \<Rightarrow> False) (take (unat (xc_max_slots x)) (drop 1 (xc_devices x)))) id"

definition FindBySlot :: "u8 \<Rightarrow> 'h xhci \<Rightarrow> UsbDev option option" where
  "FindBySlot slot_id x = (if ucast slot_id > xc_max_slots x then Some None else aget (xc_devices x) (uint slot_id))"

definition AllocDevice :: "abi \<Rightarrow> u8 \<Rightarrow> 'h xhci \<Rightarrow> ('h xhci \<times> Code) option" where
  "AllocDevice L slot_id x =
     (if ucast slot_id > xc_max_slots x then Some (x, kInvalidSlotID)
      else do {
        d \<leftarrow> aget (xc_devices x) (uint slot_id);
        if d \<noteq> None then Some (x, kAlreadyAllocated)
        else do {
          let (um, p) = AllocArray (ab_Device L) 1 64 4096 (us_um (xc_usb x));
          if p = 0 then None
          else do {
            ds \<leftarrow> aset (xc_devices x) (uint slot_id) (Some (Device_new p slot_id));
            Some (x\<lparr>xc_usb := (xc_usb x)\<lparr>us_um := um\<rparr>, xc_devices := ds\<rparr>, kSuccess)
          }
        }
      })"

definition LoadDCBAA :: "abi \<Rightarrow> u8 \<Rightarrow> 'h xhci \<Rightarrow> ('h xhci \<times> Code) option" where
  "LoadDCBAA L slot_id x =
     (if ucast slot_id > xc_max_slots x then Some (x, kInvalidSlotID)
      else do {
        dev \<leftarrow> aget (xc_devices x) (uint slot_id);
        d \<leftarrow> dev;
        ps \<leftarrow> aset (xc_dcbaa x) (uint slot_id) (dv_addr d + ab_ctx L);
        Some (x\<lparr>xc_dcbaa := ps\<rparr>, kSuccess)
      })"

definition Remove :: "u8 \<Rightarrow> 'h xhci \<Rightarrow> ('h xhci \<times> Code) option" where
  "Remove slot_id x = do {
     ps \<leftarrow> aset (xc_dcbaa x) (uint slot_id) 0;
     ds \<leftarrow> aset (xc_devices x) (uint slot_id) None;
     Some (x\<lparr>xc_dcbaa := ps, xc_devices := ds\<rparr>, kSuccess)
   }"

definition set_device :: "u8 \<Rightarrow> UsbDev \<Rightarrow> 'h xhci \<Rightarrow> 'h xhci option" where
  "set_device slot_id d x = do { ds \<leftarrow> aset (xc_devices x) (uint slot_id) (Some d); Some (x\<lparr>xc_devices := ds\<rparr>) }"

text \<open>A call of an operation of the device in a slot.\<close>

definition on_device :: "u8 \<Rightarrow> (UsbDev \<Rightarrow> usb \<Rightarrow> (UsbDev \<times> usb \<times> Code) option) \<Rightarrow> UsbDev \<Rightarrow> 'h xhci \<Rightarrow> ('h xhci \<times> Code) option" where
  "on_device slot_id f d x = do {
     (d, s, err) \<leftarrow> f d (xc_usb x);
     x \<leftarrow> set_device slot_id d (x\<lparr>xc_usb := s\<rparr>);
     Some (x, err)
   }"

section \<open>Ports and devices get configured\<close>

definition InitializeSlotContext :: "u8 \<Rightarrow> u32 \<Rightarrow> SlotContext \<Rightarrow> SlotContext" where
  "InitializeSlotContext port_number speed c =
     c\<lparr>sc_route_string := 0, sc_root_hub_port_num := take_bit 8 (ucast port_number), sc_context_entries := 1, sc_speed := take_bit 4 speed\<rparr>"

definition DetermineMaxPacketSizeForControlPipe :: "u32 \<Rightarrow> u32" where
  "DetermineMaxPacketSizeForControlPipe slot_speed = (if slot_speed = 4 then 512 else if slot_speed = 3 then 64 else 8)"

definition MostSignificantBit :: "u32 \<Rightarrow> int" where
  "MostSignificantBit v = (if v = 0 then - 1 else 31 - int (length (takeWhile (\<lambda>i. \<not> bit v i) (rev [0..<32]))))"

definition InitializeEP0Context :: "u64 \<Rightarrow> u32 \<Rightarrow> EndpointContext \<Rightarrow> EndpointContext" where
  "InitializeEP0Context buffer max_packet c =
     (let c = c\<lparr>ec_ep_type := 4, ec_max_packet_size := take_bit 16 max_packet, ec_max_burst_size := 0\<rparr>;
          c = SetTransferRingBuffer buffer c
      in c\<lparr>ec_dequeue_cycle_state := 1, ec_interval := 0, ec_max_primary_streams := 0, ec_mult := 0, ec_error_count := 3\<rparr>)"

definition ResetPort :: "'h mmio \<Rightarrow> u8 \<Rightarrow> 'h xhci \<Rightarrow> ('h xhci \<times> Code) option" where
  "ResetPort W port x = do {
     (is_connected, x) \<leftarrow> IsConnected W port x;
     if \<not> is_connected then Some (x, kSuccess)
     else if xc_addressing_port x \<noteq> 0 then Some (set_phase port kWaitingAddressed x, kSuccess)
     else do {
       let port_phase = xc_phase x port;
       if port_phase \<noteq> kNotConnected \<and> port_phase \<noteq> kWaitingAddressed then Some (x, kInvalidPhase)
       else do {
         let x = set_phase port kResettingPort (x\<lparr>xc_addressing_port := port\<rparr>);
         (x, _) \<leftarrow> Port_Reset W port x;
         Some (x, kSuccess)
       }
     }
   }"

definition EnableSlot :: "'h mmio \<Rightarrow> u8 \<Rightarrow> 'h xhci \<Rightarrow> ('h xhci \<times> Code) option" where
  "EnableSlot W port x = do {
     (is_enabled, x) \<leftarrow> IsEnabled W port x;
     (reset_completed, x) \<leftarrow> IsPortResetChanged W port x;
     if is_enabled \<and> reset_completed
     then do {
       x \<leftarrow> ClearPortResetChange W port x;
       let x = set_phase port kEnablingSlot x;
       Some (push_command EnableSlotCommandTRB_new x, kSuccess)
     }
     else Some (x, kSuccess)
   }"

definition AddressDevice :: "'h mmio \<Rightarrow> abi \<Rightarrow> u8 \<Rightarrow> u8 \<Rightarrow> 'h xhci \<Rightarrow> ('h xhci \<times> Code) option" where
  "AddressDevice W L port_id slot_id x = do {
     (x, _) \<leftarrow> AllocDevice L slot_id x;
     dev \<leftarrow> FindBySlot slot_id x;
     case dev of
       None \<Rightarrow> Some (x, kInvalidSlotID)
     | Some dev \<Rightarrow> do {
         let ic = (dv_input_ctx dev)\<lparr>in_control := InputControlContext_zero\<rparr>;
         let ep0_dci = DeviceContextIndex 0 False;
         let ic = EnableEndpoint ep0_dci (EnableSlotContext ic);
         (speed, x) \<leftarrow> Speed W port_id x;
         let sc = InitializeSlotContext port_id speed (in_slot_context ic);
         (dev, s, tr) \<leftarrow> AllocTransferRing L ep0_dci 32 dev (xc_usb x);
         tr \<leftarrow> tr;
         ec \<leftarrow> aget (in_ep_contexts ic) (ep0_dci - 1);
         ecs \<leftarrow> aset (in_ep_contexts ic) (ep0_dci - 1) (InitializeEP0Context (rg_buf tr) (DetermineMaxPacketSizeForControlPipe (sc_speed sc)) ec);
         x \<leftarrow> set_device slot_id (dev\<lparr>dv_input_ctx := ic\<lparr>in_slot_context := sc, in_ep_contexts := ecs\<rparr>\<rparr>) (x\<lparr>xc_usb := s\<rparr>);
         (x, _) \<leftarrow> LoadDCBAA L slot_id x;
         let x = set_phase port_id kAddressingDevice x;
         Some (push_command (AddressDeviceCommandTRB_new (dv_addr dev + ab_input_ctx L) slot_id) x, kSuccess)
       }
   }"

definition InitializeDevice :: "abi \<Rightarrow> u8 \<Rightarrow> u8 \<Rightarrow> 'h xhci \<Rightarrow> ('h xhci \<times> Code) option" where
  "InitializeDevice L port_id slot_id x = do {
     dev \<leftarrow> FindBySlot slot_id x;
     case dev of
       None \<Rightarrow> Some (x, kInvalidSlotID)
     | Some dev \<Rightarrow> do {
         let x = set_phase port_id kInitializingDevice x;
         (x, _) \<leftarrow> on_device slot_id (StartInitialize L) dev x;
         Some (x, kSuccess)
       }
   }"

definition CompleteConfiguration :: "u8 \<Rightarrow> u8 \<Rightarrow> 'h xhci \<Rightarrow> ('h xhci \<times> Code) option" where
  "CompleteConfiguration port_id slot_id x = do {
     dev \<leftarrow> FindBySlot slot_id x;
     case dev of
       None \<Rightarrow> Some (x, kInvalidSlotID)
     | Some dev \<Rightarrow> do {
         (x, _) \<leftarrow> on_device slot_id OnEndpointsConfigured dev x;
         Some (set_phase port_id kConfigured x, kSuccess)
       }
   }"

definition ConfigurePort :: "'h mmio \<Rightarrow> u8 \<Rightarrow> 'h xhci \<Rightarrow> ('h xhci \<times> Code) option" where
  "ConfigurePort W port x = (if xc_phase x port = kNotConnected then ResetPort W port x else Some (x, kSuccess))"

text \<open>The number of the port a device hangs on, as the controller has written it.\<close>

definition root_hub_port :: "UsbDev \<Rightarrow> u8" where
  "root_hub_port d = ucast (sc_root_hub_port_num (dc_slot_context (dv_ctx d)))"

definition convert_interval :: "u32 \<Rightarrow> EndpointType \<Rightarrow> int \<Rightarrow> int" where
  "convert_interval port_speed ty iv =
     (if port_speed = 1 \<or> port_speed = 2 then (if ty = kIsochronous then iv + 2 else MostSignificantBit (word_of_int iv) + 3) else iv - 1)"

definition ep_type_code :: "EndpointConfig \<Rightarrow> u32" where
  "ep_type_code c = (case ep_type c of kControl \<Rightarrow> 4 | kIsochronous \<Rightarrow> (if IsIn (ep_id c) then 5 else 1) | kBulk \<Rightarrow> (if IsIn (ep_id c) then 6 else 2)
     | kInterrupt \<Rightarrow> (if IsIn (ep_id c) then 7 else 3))"

definition configure_endpoint :: "abi \<Rightarrow> u32 \<Rightarrow> EndpointConfig \<Rightarrow> UsbDev \<times> usb \<Rightarrow> (UsbDev \<times> usb) option" where
  "configure_endpoint L port_speed c = (\<lambda>(d, s). do {
     let ep_dci = Address (ep_id c);
     let ic = EnableEndpoint ep_dci (dv_input_ctx d);
     ec \<leftarrow> aget (in_ep_contexts ic) (ep_dci - 1);
     let ec = ec\<lparr>ec_ep_type := ep_type_code c, ec_max_packet_size := take_bit 16 (word_of_int (max_packet_size c)),
       ec_interval := take_bit 8 (word_of_int (convert_interval port_speed (ep_type c) (interval c))), ec_average_trb_length := 1\<rparr>;
     (d, s, tr) \<leftarrow> AllocTransferRing L ep_dci 32 d s;
     tr \<leftarrow> tr;
     let ec = (SetTransferRingBuffer (rg_buf tr) ec)\<lparr>ec_dequeue_cycle_state := 1, ec_max_primary_streams := 0, ec_mult := 0, ec_error_count := 3\<rparr>;
     ecs \<leftarrow> aset (in_ep_contexts ic) (ep_dci - 1) ec;
     Some (d\<lparr>dv_input_ctx := ic\<lparr>in_ep_contexts := ecs\<rparr>\<rparr>, s)
   })"

definition kFullSpeed :: u32 where "kFullSpeed = 1"
definition kLowSpeed :: u32 where "kLowSpeed = 2"
definition kHighSpeed :: u32 where "kHighSpeed = 3"
definition kSuperSpeed :: u32 where "kSuperSpeed = 4"
definition kSuperSpeedPlus :: u32 where "kSuperSpeedPlus = 5"

definition ConfigureEndpoints :: "'h mmio \<Rightarrow> abi \<Rightarrow> u8 \<Rightarrow> UsbDev \<Rightarrow> 'h xhci \<Rightarrow> ('h xhci \<times> Code) option" where
  "ConfigureEndpoints W L slot_id dev x = do {
     let ic = (dv_input_ctx dev)\<lparr>in_control := InputControlContext_zero, in_slot_context := dc_slot_context (dv_ctx dev)\<rparr>;
     let ic = EnableSlotContext ic;
     let ic = ic\<lparr>in_slot_context := (in_slot_context ic)\<lparr>sc_context_entries := 31\<rparr>\<rparr>;
     let dev = dev\<lparr>dv_input_ctx := ic\<rparr>;
     x \<leftarrow> set_device slot_id dev x;
     let port_id = root_hub_port dev;
     (port_speed, x) \<leftarrow> Speed W port_id x;
     if port_speed = 0 \<or> port_speed > kSuperSpeedPlus then Some (x, kUnknownXHCISpeedID)
     else do {
       (dev, s) \<leftarrow> fold (\<lambda>c r. Option.bind r (configure_endpoint L port_speed c)) (take (nat (dv_num_ep_configs dev)) (dv_ep_configs dev)) (Some (dev, xc_usb x));
       x \<leftarrow> set_device slot_id dev (x\<lparr>xc_usb := s\<rparr>);
       let x = set_phase port_id kConfiguringEndpoints x;
       Some (push_command (ConfigureEndpointCommandTRB_new (dv_addr dev + ab_input_ctx L) (dv_slot_id dev)) x, kSuccess)
     }
   }"

section \<open>Events\<close>

definition OnPortStatusChange :: "'h mmio \<Rightarrow> TRB \<Rightarrow> 'h xhci \<Rightarrow> ('h xhci \<times> Code) option" where
  "OnPortStatusChange W trb x =
     (let port_id = trb_port_id trb
      in case xc_phase x port_id of
           kNotConnected \<Rightarrow> ResetPort W port_id x
         | kResettingPort \<Rightarrow> EnableSlot W port_id x
         | _ \<Rightarrow> Some (x, kInvalidPhase))"

definition OnTransfer :: "'h mmio \<Rightarrow> abi \<Rightarrow> TRB \<Rightarrow> 'h xhci \<Rightarrow> ('h xhci \<times> Code) option" where
  "OnTransfer W L trb x = do {
     let slot_id = trb_slot_id trb;
     dev \<leftarrow> FindBySlot slot_id x;
     case dev of
       None \<Rightarrow> Some (x, kInvalidSlotID)
     | Some dev \<Rightarrow> do {
         (x, err) \<leftarrow> on_device slot_id (OnTransferEventReceived L trb) dev x;
         if is_error err then Some (x, err)
         else do {
           dev \<leftarrow> FindBySlot slot_id x;
           dev \<leftarrow> dev;
           let port_id = root_hub_port dev;
           if dv_is_initialized dev \<and> xc_phase x port_id = kInitializingDevice then ConfigureEndpoints W L slot_id dev x
           else Some (x, kSuccess)
         }
       }
   }"

fun reset_waiting :: "'h mmio \<Rightarrow> nat list \<Rightarrow> 'h xhci \<Rightarrow> ('h xhci \<times> Code) option" where
  "reset_waiting W [] x = Some (x, kSuccess)"
| "reset_waiting W (i # is) x = (if xc_phase x (of_nat i) = kWaitingAddressed then ResetPort W (of_nat i) x else reset_waiting W is x)"

definition OnCommandCompletion :: "'h mmio \<Rightarrow> abi \<Rightarrow> TRB \<Rightarrow> 'h xhci \<Rightarrow> ('h xhci \<times> Code) option" where
  "OnCommandCompletion W L trb x =
     (let issuer_type = trb_type (us_trbs (xc_usb x) (pointer60 trb)); slot_id = trb_slot_id trb
      in if issuer_type = EnableSlotCommandTRB_Type
         then
           (if xc_phase x (xc_addressing_port x) \<noteq> kEnablingSlot then Some (x, kInvalidPhase)
            else AddressDevice W L (xc_addressing_port x) slot_id x)
         else if issuer_type = AddressDeviceCommandTRB_Type
         then do {
           dev \<leftarrow> FindBySlot slot_id x;
           case dev of
             None \<Rightarrow> Some (x, kInvalidSlotID)
           | Some dev \<Rightarrow>
               (let port_id = root_hub_port dev
                in if port_id \<noteq> xc_addressing_port x then Some (x, kInvalidPhase)
                   else if xc_phase x port_id \<noteq> kAddressingDevice then Some (x, kInvalidPhase)
                   else do {
                     (x, err) \<leftarrow> reset_waiting W [0..<256] (x\<lparr>xc_addressing_port := 0\<rparr>);
                     if is_error err then Some (x, err) else InitializeDevice L port_id slot_id x
                   })
         }
         else if issuer_type = ConfigureEndpointCommandTRB_Type
         then do {
           dev \<leftarrow> FindBySlot slot_id x;
           case dev of
             None \<Rightarrow> Some (x, kInvalidSlotID)
           | Some dev \<Rightarrow>
               (let port_id = root_hub_port dev
                in if xc_phase x port_id \<noteq> kConfiguringEndpoints then Some (x, kInvalidPhase)
                   else CompleteConfiguration port_id slot_id x)
         }
         else Some (x, kInvalidPhase))"

definition ProcessEvent :: "'h mmio \<Rightarrow> abi \<Rightarrow> 'h xhci \<Rightarrow> ('h xhci \<times> Code) option" where
  "ProcessEvent W L x =
     (if \<not> HasFront (us_trbs (xc_usb x)) (xc_er x) then Some (x, kSuccess)
      else do {
        let event_trb = us_trbs (xc_usb x) (EventRing_Front (xc_er x));
        (x, err) \<leftarrow>
          (if TRBDynamicCast TransferEventTRB_Type event_trb then OnTransfer W L event_trb x
           else if TRBDynamicCast PortStatusChangeEventTRB_Type event_trb then OnPortStatusChange W event_trb x
           else if TRBDynamicCast CommandCompletionEventTRB_Type event_trb then OnCommandCompletion W L event_trb x
           else Some (x, kNotImplemented));
        Some (x\<lparr>xc_er := EventRing_Pop (xc_er x)\<rparr>, err)
      })"

section \<open>One port at a time\<close>

text \<open>
  The comment at \<^verbatim>\<open>port_config_phase\<close> says what the state machine is for: from the reset of a port to the address of its device no other port may be processed. The abstract
  machine has the phases of the ports and the one that is being addressed, zero for none.
\<close>

inductive hub_spec :: "(u8 \<Rightarrow> ConfigPhase) \<times> u8 \<Rightarrow> (u8 \<Rightarrow> ConfigPhase) \<times> u8 \<Rightarrow> bool" where
  hub_wait: "f p = kNotConnected \<Longrightarrow> a \<noteq> 0 \<Longrightarrow> hub_spec (f, a) (f(p := kWaitingAddressed), a)"
| hub_reset: "f p = kNotConnected \<or> f p = kWaitingAddressed \<Longrightarrow> p \<noteq> 0 \<Longrightarrow> hub_spec (f, 0) (f(p := kResettingPort), p)"
| hub_enable: "f p = kResettingPort \<Longrightarrow> hub_spec (f, a) (f(p := kEnablingSlot), a)"
| hub_address: "f a = kEnablingSlot \<Longrightarrow> hub_spec (f, a) (f(a := kAddressingDevice), a)"
| hub_addressed: "f a = kAddressingDevice \<Longrightarrow> hub_spec (f, a) (f(a := kInitializingDevice), 0)"
| hub_configure: "f p = kInitializingDevice \<Longrightarrow> hub_spec (f, a) (f(p := kConfiguringEndpoints), a)"
| hub_configured: "f p = kConfiguringEndpoints \<Longrightarrow> hub_spec (f, a) (f(p := kConfigured), a)"

inductive_cases hub_specE: "hub_spec x y"

definition hub :: "'h xhci \<Rightarrow> (u8 \<Rightarrow> ConfigPhase) \<times> u8" where
  "hub x = (xc_phase x, xc_addressing_port x)"

text \<open>Most operations leave it alone.\<close>

lemma hub_hw [simp]: "hub (x\<lparr>xc_hw := h\<rparr>) = hub x" "hub (x\<lparr>xc_usb := s\<rparr>) = hub x" "hub (x\<lparr>xc_devices := ds\<rparr>) = hub x" "hub (x\<lparr>xc_dcbaa := ps\<rparr>) = hub x"
  "hub (x\<lparr>xc_cr := r\<rparr>) = hub x" "hub (x\<lparr>xc_er := e\<rparr>) = hub x" "hub (set_phase p ph x) = ((xc_phase x)(p := ph), xc_addressing_port x)"
  by (simp_all add: hub_def set_phase_def)

lemma PORTSC_hub:
  "PORTSC_Read W port x = Some (v, x') \<Longrightarrow> hub x' = hub x \<and> port \<noteq> 0" "PORTSC_Write W port v x = Some x' \<Longrightarrow> hub x' = hub x"
  by (auto simp: PORTSC_Read_def PORTSC_Write_def split: prod.splits if_splits)

lemma PORTSC_hw:
  "PORTSC_Read W port x = Some (v, x') \<Longrightarrow> \<exists>h. x' = x\<lparr>xc_hw := h\<rparr>" "PORTSC_Write W port v x = Some x' \<Longrightarrow> \<exists>h. x' = x\<lparr>xc_hw := h\<rparr>"
  by (auto simp: PORTSC_Read_def PORTSC_Write_def split: prod.splits if_splits)

lemma port_bits_hub:
  "IsConnected W port x = Some (b, x') \<Longrightarrow> hub x' = hub x \<and> port \<noteq> 0" "IsEnabled W port x = Some (b, x') \<Longrightarrow> hub x' = hub x"
  "IsPortResetChanged W port x = Some (b, x') \<Longrightarrow> hub x' = hub x" "Speed W port x = Some (v, x') \<Longrightarrow> hub x' = hub x"
  "ClearPortResetChange W port x = Some x' \<Longrightarrow> hub x' = hub x"
  by (auto simp: IsConnected_def IsEnabled_def IsPortResetChanged_def Speed_def ClearPortResetChange_def bind_eq_Some_conv dest!: PORTSC_hub)

lemma reset_wait_hw:
  assumes "reset_wait W port x = Some x'"
  shows "\<exists>h. x' = x\<lparr>xc_hw := h\<rparr>"
proof -
  let ?P = "\<lambda>W port x x'. \<exists>h. x' = x\<lparr>xc_hw := h\<rparr>"
  have st: "?P W port x x'" if ih: "\<And>W port x x'. f W port x = Some x' \<Longrightarrow> ?P W port x x'"
    and eq: "PORTSC_Read W port x \<bind> (\<lambda>(v, x). if bit v 4 then f W port x else Some x) = Some x'" for f :: "'a mmio \<Rightarrow> u8 \<Rightarrow> 'a xhci \<Rightarrow> 'a xhci option" and W port x x'
  proof -
    obtain v y where y: "PORTSC_Read W port x = Some (v, y)" "(if bit v 4 then f W port y else Some y) = Some x'" using eq by (auto simp: bind_eq_Some_conv)
    obtain h where "y = x\<lparr>xc_hw := h\<rparr>" using PORTSC_hw(1) [OF y(1)] by blast
    then show ?thesis using y(2) ih [of W port y x'] by (auto split: if_splits)
  qed
  have "(case ((W, port), x) of (y, x) \<Rightarrow> (case y of (W, port) \<Rightarrow> ?P W port) x) x'"
    by (rule reset_wait.raw_induct [of ?P "((W, port), x)" x']) (rule st, assumption, assumption, simp add: assms)
  then show ?thesis by simp
qed

lemma Port_Reset_hw:
  assumes "Port_Reset W port x = Some (x', c)"
  shows "\<exists>h. x' = x\<lparr>xc_hw := h\<rparr>"
proof -
  obtain v y z where "PORTSC_Read W port x = Some (v, y)" "PORTSC_Write W port (Reset_value v) y = Some z" "reset_wait W port z = Some x'"
    using assms by (auto simp: Port_Reset_def bind_eq_Some_conv)
  then show ?thesis using PORTSC_hw reset_wait_hw by fastforce
qed

lemma Port_Reset_hub: "Port_Reset W port x = Some (x', c) \<Longrightarrow> hub x' = hub x"
  by (drule Port_Reset_hw) auto

lemma device_hub:
  "AllocDevice L slot x = Some (x', c) \<Longrightarrow> hub x' = hub x" "LoadDCBAA L slot x = Some (x', c) \<Longrightarrow> hub x' = hub x"
  "set_device slot d x = Some x' \<Longrightarrow> hub x' = hub x" "on_device slot f d x = Some (x', c) \<Longrightarrow> hub x' = hub x" "hub (push_command t x) = hub x"
  by (auto simp: AllocDevice_def LoadDCBAA_def set_device_def on_device_def push_command_def bind_eq_Some_conv Let_def split: if_splits prod.splits)

lemma hub_fields [simp]:
  "xc_phase (push_command t x) = xc_phase x" "xc_addressing_port (push_command t x) = xc_addressing_port x"
  "xc_phase (set_phase p ph x) = (xc_phase x)(p := ph)" "xc_addressing_port (set_phase p ph x) = xc_addressing_port x"
  by (simp_all add: push_command_def set_phase_def split: prod.splits)

lemma hub_eqD: "hub x' = hub x \<Longrightarrow> xc_phase x' = xc_phase x \<and> xc_addressing_port x' = xc_addressing_port x"
  by (simp add: hub_def)

lemmas hub_keep = PORTSC_hub port_bits_hub Port_Reset_hub device_hub

text \<open>The handlers are steps of the machine.\<close>

lemma ResetPort_hub:
  assumes "ResetPort W port x = Some (x', c)" "xc_phase x port = kNotConnected \<or> xc_phase x port = kWaitingAddressed" "xc_addressing_port x \<noteq> 0 \<longrightarrow> xc_phase x port = kNotConnected"
  shows "c = kSuccess \<and> (hub x' = hub x \<or> hub_spec (hub x) (hub x'))"
proof -
  obtain b y where y: "IsConnected W port x = Some (b, y)" using assms(1) by (auto simp: ResetPort_def bind_eq_Some_conv)
  have h: "xc_phase y = xc_phase x" "xc_addressing_port y = xc_addressing_port x" "port \<noteq> 0" "hub y = hub x" using port_bits_hub(1) [OF y] by (auto dest: hub_eqD)
  consider "\<not> b" | "b" "xc_addressing_port x \<noteq> 0" | "b" "xc_addressing_port x = 0" by blast
  then show ?thesis
  proof cases
    case 1
    then show ?thesis using assms(1) y h by (auto simp: ResetPort_def)
  next
    case 2
    then have "hub_spec (hub x) (hub (set_phase port kWaitingAddressed y))" using assms(3) h by (auto simp: hub_def set_phase_def intro: hub_spec.intros)
    then show ?thesis using 2 assms(1) y h by (auto simp: ResetPort_def)
  next
    case 3
    then obtain z where z: "Port_Reset W port (set_phase port kResettingPort (y\<lparr>xc_addressing_port := port\<rparr>)) = Some (z, kSuccess)" "x' = z" "c = kSuccess"
      using assms(1,2) y h by (auto simp: ResetPort_def bind_eq_Some_conv Port_Reset_def)
    have "hub_spec (xc_phase x, 0) ((xc_phase x)(port := kResettingPort), port)" using assms(2) h(3) by (rule hub_reset)
    then show ?thesis using z 3 h Port_Reset_hub [OF z(1)] by (simp add: hub_def set_phase_def)
  qed
qed

lemma EnableSlot_hub:
  assumes "EnableSlot W port x = Some (x', c)" "xc_phase x port = kResettingPort"
  shows "hub x' = hub x \<or> hub_spec (hub x) (hub x')"
proof -
  obtain a y b z where y: "IsEnabled W port x = Some (a, y)" "IsPortResetChanged W port y = Some (b, z)" using assms(1) by (auto simp: EnableSlot_def bind_eq_Some_conv)
  have h: "hub z = hub x" using port_bits_hub(2) [OF y(1)] port_bits_hub(3) [OF y(2)] by simp
  show ?thesis
  proof (cases "a \<and> b")
    case True
    then obtain z2 where z: "ClearPortResetChange W port z = Some z2" "x' = push_command EnableSlotCommandTRB_new (set_phase port kEnablingSlot z2)"
      using assms(1) y by (auto simp: EnableSlot_def bind_eq_Some_conv)
    have "hub z2 = hub x" using port_bits_hub(5) [OF z(1)] h by simp
    then show ?thesis using z(2) hub_enable [of "xc_phase x" port "xc_addressing_port x"] assms(2) by (simp add: hub_def)
  next
    case False
    then show ?thesis using assms(1) y h by (auto simp: EnableSlot_def)
  qed
qed

lemma AddressDevice_hub:
  assumes "AddressDevice W L (xc_addressing_port x) slot x = Some (x', c)" "xc_phase x (xc_addressing_port x) = kEnablingSlot"
  shows "hub x' = hub x \<or> hub_spec (hub x) (hub x')"
proof -
  obtain y c1 dev where y: "AllocDevice L slot x = Some (y, c1)" "FindBySlot slot y = Some dev" using assms(1) by (auto simp: AddressDevice_def bind_eq_Some_conv)
  have h: "hub y = hub x" by (rule device_hub(1) [OF y(1)])
  show ?thesis
  proof (cases dev)
    case None
    then show ?thesis using assms(1) y h by (auto simp: AddressDevice_def)
  next
    case (Some d)
    then obtain v z1 dd u z2 z3 c2 t where z: "Speed W (xc_addressing_port x) y = Some (v, z1)" "set_device slot dd (z1\<lparr>xc_usb := u\<rparr>) = Some z2" "LoadDCBAA L slot z2 = Some (z3, c2)"
      "x' = push_command t (set_phase (xc_addressing_port x) kAddressingDevice z3)"
      using assms(1) y by (auto simp: AddressDevice_def bind_eq_Some_conv Let_def)
    have "hub z3 = hub x" using device_hub(3) [OF z(2)] h port_bits_hub(4) [OF z(1)] device_hub(2) [OF z(3)] by simp
    then have "hub x' = ((xc_phase x)(xc_addressing_port x := kAddressingDevice), xc_addressing_port x)" using z(4) by (simp add: hub_def)
    then show ?thesis using hub_address [of "xc_phase x", OF assms(2)] by (simp add: hub_def)
  qed
qed

lemma reset_waiting_hub:
  assumes "reset_waiting W is x = Some (x', c)" "xc_addressing_port x = 0"
  shows "c = kSuccess \<and> (hub x' = hub x \<or> (\<exists>p. xc_phase x p = kWaitingAddressed \<and> p \<noteq> 0 \<and> hub x' = ((xc_phase x)(p := kResettingPort), p)))"
  using assms
proof (induction "is")
  case (Cons i "is")
  show ?case
  proof (cases "xc_phase x (of_nat i) = kWaitingAddressed")
    case True
    have R: "ResetPort W (of_nat i) x = Some (x', c)" using Cons.prems(1) True by simp
    have c: "c = kSuccess" "hub x' = hub x \<or> hub_spec (hub x) (hub x')" using ResetPort_hub [OF R] True Cons.prems(2) by auto
    moreover have "hub x' = ((xc_phase x)(of_nat i := kResettingPort), of_nat i) \<and> of_nat i \<noteq> (0 :: u8)" if "hub x' \<noteq> hub x"
      using R True Cons.prems(2) that by (auto simp: ResetPort_def bind_eq_Some_conv hub_def split: if_splits dest!: port_bits_hub(1) Port_Reset_hub hub_eqD)
    ultimately show ?thesis using True by blast
  qed (use Cons in simp)
qed simp

lemma ResetPort_find: "ResetPort W port x = Some (x', c) \<Longrightarrow> xc_devices x' = xc_devices x \<and> xc_max_slots x' = xc_max_slots x"
proof -
  assume R: "ResetPort W port x = Some (x', c)"
  then obtain b y where y: "IsConnected W port x = Some (b, y)" by (auto simp: ResetPort_def bind_eq_Some_conv)
  then obtain h where "y = x\<lparr>xc_hw := h\<rparr>" by (auto simp: IsConnected_def bind_eq_Some_conv dest!: PORTSC_hw(1))
  with R y show ?thesis by (auto simp: ResetPort_def bind_eq_Some_conv set_phase_def Let_def split: if_splits dest!: Port_Reset_hw)
qed

lemma reset_waiting_find: "reset_waiting W is x = Some (x', c) \<Longrightarrow> xc_devices x' = xc_devices x \<and> xc_max_slots x' = xc_max_slots x"
  by (induction "is") (auto split: if_splits dest: ResetPort_find)

lemma InitializeDevice_hub:
  assumes "InitializeDevice L port slot x = Some (x', c)" "FindBySlot slot x = Some (Some dev)"
  shows "hub x' = ((xc_phase x)(port := kInitializingDevice), xc_addressing_port x)"
  using assms by (auto simp: InitializeDevice_def bind_eq_Some_conv dest!: device_hub(4))

lemma CompleteConfiguration_hub:
  assumes "CompleteConfiguration port slot x = Some (x', c)"
  shows "hub x' = hub x \<or> hub x' = ((xc_phase x)(port := kConfigured), xc_addressing_port x)"
  using assms by (auto simp: CompleteConfiguration_def bind_eq_Some_conv split: option.splits dest!: device_hub(4) hub_eqD)

lemma ConfigureEndpoints_hub:
  assumes "ConfigureEndpoints W L slot dev x = Some (x', c)"
  shows "hub x' = hub x \<or> hub x' = ((xc_phase x)(root_hub_port dev := kConfiguringEndpoints), xc_addressing_port x)"
proof -
  let ?dev = "dev\<lparr>dv_input_ctx := (EnableSlotContext ((dv_input_ctx dev)\<lparr>in_control := InputControlContext_zero, in_slot_context := dc_slot_context (dv_ctx dev)\<rparr>))
    \<lparr>in_slot_context := (in_slot_context (EnableSlotContext ((dv_input_ctx dev)\<lparr>in_control := InputControlContext_zero, in_slot_context := dc_slot_context (dv_ctx dev)\<rparr>)))\<lparr>sc_context_entries := 31\<rparr>\<rparr>\<rparr>"
  have rp: "root_hub_port ?dev = root_hub_port dev" by (simp add: root_hub_port_def)
  obtain y v z where y: "set_device slot ?dev x = Some y" "Speed W (root_hub_port dev) y = Some (v, z)"
    using assms rp by (auto simp: ConfigureEndpoints_def bind_eq_Some_conv Let_def)
  have h: "hub z = hub x" using device_hub(3) [OF y(1)] port_bits_hub(4) [OF y(2)] by simp
  show ?thesis
  proof (cases "v = 0 \<or> v > kSuperSpeedPlus")
    case True
    then show ?thesis using assms y rp h by (simp add: ConfigureEndpoints_def Let_def)
  next
    case False
    then obtain dd u z2 t where z: "set_device slot dd (z\<lparr>xc_usb := u\<rparr>) = Some z2" "x' = push_command t (set_phase (root_hub_port dev) kConfiguringEndpoints z2)"
      using assms y rp by (auto simp: ConfigureEndpoints_def bind_eq_Some_conv Let_def)
    then have "hub z2 = hub x" using device_hub(3) [OF z(1)] h by simp
    then show ?thesis using z(2) by (simp add: hub_def)
  qed
qed

text \<open>The port that is addressed, and no other, is between its reset and its address.\<close>

definition addressing :: "ConfigPhase \<Rightarrow> bool" where
  "addressing ph \<longleftrightarrow> ph = kResettingPort \<or> ph = kEnablingSlot \<or> ph = kAddressingDevice"

definition hub_ok :: "(u8 \<Rightarrow> ConfigPhase) \<times> u8 \<Rightarrow> bool" where
  "hub_ok h \<longleftrightarrow> (\<forall>p. addressing (fst h p) \<longleftrightarrow> p \<noteq> 0 \<and> p = snd h)"

lemma hub_ok_upd: "addressing ph = (p \<noteq> 0 \<and> p = a) \<Longrightarrow> (\<And>q. q \<noteq> p \<Longrightarrow> addressing (f q) \<longleftrightarrow> q \<noteq> 0 \<and> q = a) \<Longrightarrow> hub_ok (f(p := ph), a)"
  by (simp add: hub_ok_def)

lemma hub_spec_ok: "hub_spec h h' \<Longrightarrow> hub_ok h \<Longrightarrow> hub_ok h'"
proof (induction rule: hub_spec.induct)
  case (hub_wait f p a)
  then have A: "addressing (f q) \<longleftrightarrow> q \<noteq> 0 \<and> q = a" for q by (simp add: hub_ok_def)
  show ?case by (rule hub_ok_upd, (use A [of p] hub_wait(1,2) in \<open>auto simp: addressing_def\<close>)[1], simp add: A)
next
  case (hub_reset f p)
  then have A: "addressing (f q) \<longleftrightarrow> q \<noteq> 0 \<and> q = 0" for q by (simp add: hub_ok_def)
  show ?case by (rule hub_ok_upd, (use A [of p] hub_reset(1,2) in \<open>auto simp: addressing_def\<close>)[1], simp add: A)
next
  case (hub_enable f p a)
  then have A: "addressing (f q) \<longleftrightarrow> q \<noteq> 0 \<and> q = a" for q by (simp add: hub_ok_def)
  show ?case by (rule hub_ok_upd, (use A [of p] hub_enable(1) in \<open>auto simp: addressing_def\<close>)[1], simp add: A)
next
  case (hub_address f a)
  then have A: "addressing (f q) \<longleftrightarrow> q \<noteq> 0 \<and> q = a" for q by (simp add: hub_ok_def)
  show ?case by (rule hub_ok_upd, (use A [of a] hub_address(1) in \<open>auto simp: addressing_def\<close>)[1], simp add: A)
next
  case (hub_addressed f a)
  then have A: "addressing (f q) \<longleftrightarrow> q \<noteq> 0 \<and> q = a" for q by (simp add: hub_ok_def)
  show ?case by (rule hub_ok_upd, (use A [of a] hub_addressed(1) in \<open>auto simp: addressing_def\<close>)[1], simp add: A)
next
  case (hub_configure f p a)
  then have A: "addressing (f q) \<longleftrightarrow> q \<noteq> 0 \<and> q = a" for q by (simp add: hub_ok_def)
  show ?case by (rule hub_ok_upd, (use A [of p] hub_configure(1) in \<open>auto simp: addressing_def\<close>)[1], simp add: A)
next
  case (hub_configured f p a)
  then have A: "addressing (f q) \<longleftrightarrow> q \<noteq> 0 \<and> q = a" for q by (simp add: hub_ok_def)
  show ?case by (rule hub_ok_upd, (use A [of p] hub_configured(1) in \<open>auto simp: addressing_def\<close>)[1], simp add: A)
qed

lemma OnPortStatusChange_hub:
  assumes "OnPortStatusChange W trb x = Some (x', c)"
  shows "hub_spec\<^sup>*\<^sup>* (hub x) (hub x')"
proof -
  have "hub x' = hub x \<or> hub_spec (hub x) (hub x')"
  proof (cases "xc_phase x (trb_port_id trb)")
    case kNotConnected
    then show ?thesis using assms ResetPort_hub [of W "trb_port_id trb" x x' c] by (simp add: OnPortStatusChange_def)
  next
    case kResettingPort
    then show ?thesis using assms EnableSlot_hub [of W "trb_port_id trb" x x' c] by (simp add: OnPortStatusChange_def)
  qed (use assms in \<open>auto simp: OnPortStatusChange_def\<close>)
  then show ?thesis by auto
qed

lemma OnTransfer_hub:
  assumes "OnTransfer W L trb x = Some (x', c)"
  shows "hub_spec\<^sup>*\<^sup>* (hub x) (hub x')"
proof (cases "FindBySlot (trb_slot_id trb) x")
  case (Some dev)
  show ?thesis
  proof (cases dev)
    case None
    then show ?thesis using Some assms by (auto simp: OnTransfer_def Let_def)
  next
    case dev: (Some d)
    then obtain y e where y: "on_device (trb_slot_id trb) (OnTransferEventReceived L trb) d x = Some (y, e)"
      using Some assms by (auto simp: OnTransfer_def bind_eq_Some_conv Let_def)
    have h: "hub y = hub x" "xc_phase y = xc_phase x" "xc_addressing_port y = xc_addressing_port x" using device_hub(4) [OF y] hub_eqD by blast+
    show ?thesis
    proof (cases "is_error e")
      case True
      then show ?thesis using assms Some dev y h by (auto simp: OnTransfer_def Let_def)
    next
      case False
      then obtain d' where d': "FindBySlot (trb_slot_id trb) y = Some (Some d')" using assms Some dev y by (auto simp: OnTransfer_def bind_eq_Some_conv Let_def)
      show ?thesis
      proof (cases "dv_is_initialized d' \<and> xc_phase y (root_hub_port d') = kInitializingDevice")
        case True
        then have "ConfigureEndpoints W L (trb_slot_id trb) d' y = Some (x', c)" using assms Some dev y False d' by (simp add: OnTransfer_def Let_def)
        from ConfigureEndpoints_hub [OF this] show ?thesis
          using h True hub_configure [of "xc_phase x" "root_hub_port d'" "xc_addressing_port x"] by (auto simp: hub_def)
      next
        case no: False
        then show ?thesis using assms Some dev y False d' h by (auto simp: OnTransfer_def Let_def)
      qed
    qed
  qed
qed (use assms in \<open>simp add: OnTransfer_def\<close>)

text \<open>Addressing the device ends the turn of its port; the next port that waits may start at once.\<close>

lemma addressed_hub:
  assumes "FindBySlot slot x = Some (Some dev)" "xc_phase x a = kAddressingDevice" "xc_addressing_port x = a"
    "(do { (x, err) \<leftarrow> reset_waiting W is (x\<lparr>xc_addressing_port := 0\<rparr>); if is_error err then Some (x, err) else InitializeDevice L a slot x }) = Some (x', c)"
  shows "hub_spec\<^sup>*\<^sup>* (hub x) (hub x')"
proof -
  let ?x = "x\<lparr>xc_addressing_port := 0\<rparr>"
  obtain y e where y: "reset_waiting W is ?x = Some (y, e)" using assms(4) by (auto simp: bind_eq_Some_conv)
  have r: "e = kSuccess" "hub y = hub ?x \<or> (\<exists>p. xc_phase x p = kWaitingAddressed \<and> p \<noteq> 0 \<and> hub y = ((xc_phase x)(p := kResettingPort), p))"
    using reset_waiting_hub [OF y] by auto
  then have I: "InitializeDevice L a slot y = Some (x', c)" using assms(4) y by (simp add: is_error_def)
  have one: "hub_spec (hub x) ((xc_phase x)(a := kInitializingDevice), 0)" using hub_addressed [of "xc_phase x" a] assms(2,3) by (simp add: hub_def)
  have "FindBySlot slot y = FindBySlot slot x" using reset_waiting_find [OF y] by (simp add: FindBySlot_def)
  then have Ih: "hub x' = ((xc_phase y)(a := kInitializingDevice), xc_addressing_port y)" using InitializeDevice_hub [OF I] assms(1) by simp
  from r(2) show ?thesis
  proof
    assume "hub y = hub ?x"
    then show ?thesis using one Ih by (simp add: hub_def)
  next
    assume "\<exists>p. xc_phase x p = kWaitingAddressed \<and> p \<noteq> 0 \<and> hub y = ((xc_phase x)(p := kResettingPort), p)"
    then obtain p where p: "xc_phase x p = kWaitingAddressed" "p \<noteq> 0" "hub y = ((xc_phase x)(p := kResettingPort), p)" by blast
    have "p \<noteq> a" using p(1) assms(2) by auto
    then have "hub_spec ((xc_phase x)(a := kInitializingDevice), 0) (((xc_phase x)(a := kInitializingDevice))(p := kResettingPort), p)"
      using p(1,2) by (intro hub_reset) simp_all
    moreover have "hub x' = (((xc_phase x)(a := kInitializingDevice))(p := kResettingPort), p)" using Ih p(3) \<open>p \<noteq> a\<close> by (simp add: hub_def fun_upd_twist)
    ultimately show ?thesis using one by (metis converse_rtranclp_into_rtranclp r_into_rtranclp)
  qed
qed

lemma OnCommandCompletion_hub:
  assumes "OnCommandCompletion W L trb x = Some (x', c)"
  shows "hub_spec\<^sup>*\<^sup>* (hub x) (hub x')"
proof -
  let ?ty = "trb_type (us_trbs (xc_usb x) (pointer60 trb))" and ?slot = "trb_slot_id trb"
  consider "?ty = EnableSlotCommandTRB_Type" | "?ty = AddressDeviceCommandTRB_Type" | "?ty = ConfigureEndpointCommandTRB_Type"
    | "?ty \<noteq> EnableSlotCommandTRB_Type" "?ty \<noteq> AddressDeviceCommandTRB_Type" "?ty \<noteq> ConfigureEndpointCommandTRB_Type" by blast
  then show ?thesis
  proof cases
    case 1
    then show ?thesis using assms AddressDevice_hub [of W L x ?slot x' c]
      by (cases "xc_phase x (xc_addressing_port x) = kEnablingSlot") (auto simp: OnCommandCompletion_def Let_def)
  next
    case 2
    then have t: "?ty \<noteq> EnableSlotCommandTRB_Type" by (simp add: trb_types)
    obtain dev where d: "FindBySlot ?slot x = Some dev" using 2 t assms by (auto simp: OnCommandCompletion_def Let_def bind_eq_Some_conv)
    show ?thesis
    proof (cases dev)
      case None
      then show ?thesis using 2 t d assms by (auto simp: OnCommandCompletion_def Let_def)
    next
      case (Some dv)
      show ?thesis
      proof (cases "root_hub_port dv = xc_addressing_port x \<and> xc_phase x (root_hub_port dv) = kAddressingDevice")
        case True
        define a where "a = root_hub_port dv"
        have a: "xc_addressing_port x = a" "xc_phase x a = kAddressingDevice" unfolding a_def using True by metis+
        have f: "FindBySlot ?slot x = Some (Some dv)" using d Some by simp
        have "(do { (x, err) \<leftarrow> reset_waiting W [0..<256] (x\<lparr>xc_addressing_port := 0\<rparr>);
            if is_error err then Some (x, err) else InitializeDevice L a ?slot x }) = Some (x', c)"
          using assms unfolding OnCommandCompletion_def Let_def f 2 if_not_P [OF t [unfolded 2]] unfolding a_def by (simp add: a [unfolded a_def])
        then show ?thesis by (rule addressed_hub [OF f a(2,1)])
      next
        case False
        then show ?thesis using 2 t d Some assms unfolding OnCommandCompletion_def Let_def by (auto split: if_splits)
      qed
    qed
  next
    case 3
    then have t: "?ty \<noteq> EnableSlotCommandTRB_Type" "?ty \<noteq> AddressDeviceCommandTRB_Type" by (simp_all add: trb_types)
    obtain dev where d: "FindBySlot ?slot x = Some dev" using 3 t assms by (auto simp: OnCommandCompletion_def Let_def bind_eq_Some_conv)
    show ?thesis
    proof (cases dev)
      case None
      then show ?thesis using 3 t d assms by (auto simp: OnCommandCompletion_def Let_def)
    next
      case (Some dv)
      show ?thesis
      proof (cases "xc_phase x (root_hub_port dv) = kConfiguringEndpoints")
        case True
        then have "CompleteConfiguration (root_hub_port dv) ?slot x = Some (x', c)" using 3 t d Some assms by (simp add: OnCommandCompletion_def Let_def)
        from CompleteConfiguration_hub [OF this] show ?thesis
          using hub_configured [of "xc_phase x" "root_hub_port dv" "xc_addressing_port x"] True by (auto simp: hub_def)
      next
        case False
        then show ?thesis using 3 t d Some assms by (auto simp: OnCommandCompletion_def Let_def)
      qed
    qed
  next
    case 4
    then show ?thesis using assms by (auto simp: OnCommandCompletion_def Let_def)
  qed
qed

lemma ProcessEvent_hub: "ProcessEvent W L x = Some (x', c) \<Longrightarrow> hub_spec\<^sup>*\<^sup>* (hub x) (hub x')"
  by (auto simp: ProcessEvent_def bind_eq_Some_conv Let_def split: if_splits dest!: OnTransfer_hub OnPortStatusChange_hub OnCommandCompletion_hub)

lemma hub_specs_ok: "hub_spec\<^sup>*\<^sup>* h h' \<Longrightarrow> hub_ok h \<Longrightarrow> hub_ok h'"
  by (induction rule: rtranclp_induct) (auto intro: hub_spec_ok)

text \<open>
  The driver runs: it processes events and configures ports, while the controller, the devices and the rest of the system change everything but the phases of the ports and the number of
  the port that is addressed.
\<close>

inductive hub_reach :: "'h mmio \<Rightarrow> abi \<Rightarrow> 'h xhci \<Rightarrow> bool" for W L where
  reach_init: "(\<And>p. xc_phase x p = kNotConnected) \<Longrightarrow> xc_addressing_port x = 0 \<Longrightarrow> hub_reach W L x"
| reach_event: "hub_reach W L x \<Longrightarrow> ProcessEvent W L x = Some (x', c) \<Longrightarrow> hub_reach W L x'"
| reach_port: "hub_reach W L x \<Longrightarrow> ConfigurePort W p x = Some (x', c) \<Longrightarrow> hub_reach W L x'"
| reach_env: "hub_reach W L x \<Longrightarrow> hub x' = hub x \<Longrightarrow> hub_reach W L x'"

lemma ConfigurePort_hub: "ConfigurePort W p x = Some (x', c) \<Longrightarrow> hub x' = hub x \<or> hub_spec (hub x) (hub x')"
  using ResetPort_hub [of W p x x' c] by (auto simp: ConfigurePort_def split: if_splits)

text \<open>
  C26: What the handling of any event does to the ports is a sequence of steps of the abstract machine, in which a port only moves on along its phases and is reset only when no other port is
  being addressed.
\<close>

theorem ProcessEvent_refines:
  assumes "ProcessEvent W L x = Some (x', c)"
  shows "hub_spec\<^sup>*\<^sup>* (hub x) (hub x')"
  using assms by (rule ProcessEvent_hub)

text \<open>
  C9: From the reset of a port until its device has an address no other port is processed: in every state the driver reaches, whatever events arrive and whatever the controller does, the port
  that is being addressed is the only one in these phases, and it is in one of them.
\<close>

theorem one_port_at_a_time:
  assumes "hub_reach W L x"
  shows "addressing (xc_phase x p) \<longleftrightarrow> p \<noteq> 0 \<and> p = xc_addressing_port x"
proof -
  have "hub_ok (hub x)" using assms
  proof (induction rule: hub_reach.induct)
    case (reach_event x x' c)
    then show ?case using hub_specs_ok ProcessEvent_hub by blast
  next
    case (reach_port x p x' c)
    then show ?case using ConfigurePort_hub [of W p x x' c] hub_spec_ok [of "hub x" "hub x'"] by auto
  qed (auto simp: hub_ok_def hub_def addressing_def)
  then show ?thesis by (simp add: hub_ok_def hub_def)
qed

text \<open>An example: a device is plugged into port 1 of a controller whose ports answer at once.\<close>

definition ex_mmio :: "unit mmio" where
  "ex_mmio = \<lparr>mm_read = (\<lambda>r h. (1, h)), mm_write = (\<lambda>r v h. h)\<rparr>"

definition ex_event :: TRB where
  "ex_event = \<lparr>t_0 = 0x01000000, t_1 = 0, t_2 = 0x01000000, t_3 = 0x8801\<rparr>"

definition ex_er :: EventRing where
  "ex_er = \<lparr>er_buf = 0x4000, er_buf_size = 32, er_cycle_bit = True, er_erst = 0x5000, er_segment_base = 0x4000, er_segment_size = 32,
     er_interrupter = \<lparr>ir_IMAN = 0, ir_ERSTSZ = 1, ir_ERSTBA = 0x5000, ir_ERDP = 0x4000\<rparr>\<rparr>"

definition ex_xhci :: "unit xhci" where
  "ex_xhci = \<lparr>xc_hw = (), xc_usb = mouse_usb\<lparr>us_trbs := (\<lambda>a. TRB_zero)(0x4000 := ex_event)\<rparr>, xc_max_ports = 4, xc_max_slots = 8, xc_devices = replicate 9 None, xc_dcbaa_addr = 0x3000,
     xc_dcbaa = replicate 9 0, xc_cr = \<lparr>rg_buf = 0x8000, rg_buf_size = 32, rg_cycle_bit = True, rg_write_index = 0\<rparr>, xc_er = ex_er, xc_phase = (\<lambda>p. kNotConnected),
     xc_addressing_port = 0\<rparr>"

lemma ex_bits: "EventRing_Front ex_er = 0x4000" "trb_cycle_bit ex_event" "er_cycle_bit ex_er" "trb_type ex_event = 34" "trb_port_id ex_event = 1"
  by code_simp+

lemma ex_read: "PORTSC_Read ex_mmio 1 x = Some (1, x)" if "xc_max_ports x = 4" for x
  using that by (simp add: PORTSC_Read_def Read32_def ex_mmio_def)

lemma ex_step: "ProcessEvent ex_mmio L ex_xhci =
  Some (ex_xhci\<lparr>xc_addressing_port := 1, xc_phase := (\<lambda>p. kNotConnected)(1 := kResettingPort), xc_er := EventRing_Pop ex_er\<rparr>, kSuccess)"
proof -
  let ?x = "ex_xhci\<lparr>xc_addressing_port := 1, xc_phase := (\<lambda>p. kNotConnected)(1 := kResettingPort)\<rparr>"
  have x: "xc_er ex_xhci = ex_er" "us_trbs (xc_usb ex_xhci) 0x4000 = ex_event" "xc_max_ports ex_xhci = 4" "xc_phase ex_xhci = (\<lambda>p. kNotConnected)"
    "xc_addressing_port ex_xhci = 0" by (simp_all add: ex_xhci_def)
  have w: "PORTSC_Write ex_mmio 1 v x = Some x" if "xc_max_ports x = 4" for v x using that by (simp add: PORTSC_Write_def Write32_def ex_mmio_def)
  have "reset_wait ex_mmio 1 ?x = Some ?x" by (subst reset_wait.simps) (simp add: ex_read x(3))
  then have "Port_Reset ex_mmio 1 ?x = Some (?x, kSuccess)" by (simp add: Port_Reset_def ex_read w x(3))
  then have "ResetPort ex_mmio 1 ex_xhci = Some (?x, kSuccess)" by (simp add: ResetPort_def IsConnected_def ex_read x set_phase_def)
  then have "OnPortStatusChange ex_mmio ex_event ex_xhci = Some (?x, kSuccess)" by (simp add: OnPortStatusChange_def ex_bits x)
  then show ?thesis by (simp add: ProcessEvent_def HasFront_def ex_bits x TRBDynamicCast_def trb_types)
qed

theorem ProcessEvent_refines_witness:
  "ProcessEvent ex_mmio mouse_abi ex_xhci = Some (ex_xhci\<lparr>xc_addressing_port := 1, xc_phase := (\<lambda>p. kNotConnected)(1 := kResettingPort), xc_er := EventRing_Pop ex_er\<rparr>, kSuccess) \<and>
   hub_spec\<^sup>*\<^sup>* ((\<lambda>p. kNotConnected), 0) ((\<lambda>p. kNotConnected)(1 := kResettingPort), 1)"
  using ProcessEvent_refines [OF ex_step] ex_step by (simp add: hub_def ex_xhci_def)

theorem one_port_at_a_time_witness:
  "hub_reach ex_mmio mouse_abi (ex_xhci\<lparr>xc_addressing_port := 1, xc_phase := (\<lambda>p. kNotConnected)(1 := kResettingPort), xc_er := EventRing_Pop ex_er\<rparr>) \<and>
   \<not> addressing (xc_phase (ex_xhci\<lparr>xc_addressing_port := 1, xc_phase := (\<lambda>p. kNotConnected)(1 := kResettingPort), xc_er := EventRing_Pop ex_er\<rparr>) 2)"
proof -
  have "hub_reach ex_mmio mouse_abi ex_xhci" by (rule reach_init) (simp_all add: ex_xhci_def)
  then have r: "hub_reach ex_mmio mouse_abi (ex_xhci\<lparr>xc_addressing_port := 1, xc_phase := (\<lambda>p. kNotConnected)(1 := kResettingPort), xc_er := EventRing_Pop ex_er\<rparr>)"
    by (rule reach_event [OF _ ex_step])
  with one_port_at_a_time [OF r, of 2] show ?thesis by simp
qed

end
