(* ===== verification/XhciInit.thy ===== *)
theory XhciInit
  imports Xhci
begin

text \<open>
  The initialization of the host controller (\<^verbatim>\<open>Controller::Initialize\<close> and \<^verbatim>\<open>Controller::Run\<close> of \<^verbatim>\<open>src/src/usb/xhci/xhci.cpp\<close>, and the list of extended registers of
  \<^verbatim>\<open>registers.cpp\<close>): the driver takes the controller over from the firmware, halts and resets it, tells it where the contexts and rings are, and enables its interrupt. Registers are polled until the
  hardware answers, so the loops are partial functions.
\<close>

section \<open>Polling\<close>

partial_function (option) poll :: "'h mmio \<Rightarrow> reg \<Rightarrow> (u32 \<Rightarrow> bool) \<Rightarrow> 'h \<Rightarrow> 'h option" where
  "poll W r ok h = (let (v, h) = Read32 W r h in if ok v then Some h else poll W r ok h)"

section \<open>Taking the controller over\<close>

definition AddOrNull :: "u64 \<Rightarrow> u32 \<Rightarrow> u64" where
  "AddOrNull p d = (if d = 0 then 0 else p + 4 * ucast d)"

definition ext_first :: "u64 \<Rightarrow> u32 \<Rightarrow> u64" where
  "ext_first mmio_base hccp = AddOrNull mmio_base (xhci_extended_capabilities_pointer hccp)"

definition ext_next :: "'h mmio \<Rightarrow> u64 \<Rightarrow> 'h \<Rightarrow> u64 \<times> 'h" where
  "ext_next W reg h = (if reg \<noteq> 0 then (let (v, h) = Read32 W (EXT reg) h in (AddOrNull reg (ext_next_pointer v), h)) else (reg, h))"

partial_function (option) find_legsup :: "'h mmio \<Rightarrow> u64 \<Rightarrow> 'h \<Rightarrow> (u64 \<times> 'h) option" where
  "find_legsup W reg h =
     (if reg = 0 then Some (0, h)
      else
        (let (v, h) = Read32 W (EXT reg) h
         in if ext_capability_id v = 1 then Some (reg, h) else (let (reg, h) = ext_next W reg h in find_legsup W reg h)))"

definition RequestHCOwnership :: "'h mmio \<Rightarrow> u64 \<Rightarrow> u32 \<Rightarrow> 'h \<Rightarrow> 'h option" where
  "RequestHCOwnership W mmio_base hccp h = do {
     (reg, h) \<leftarrow> find_legsup W (ext_first mmio_base hccp) h;
     if reg = 0 then Some h
     else do {
       let (r, h) = Read32 W (EXT reg) h;
       if hc_os_owned_semaphore r then Some h
       else do {
         let h = Write32 W (EXT reg) (set_hc_os_owned_semaphore r) h;
         poll W (EXT reg) (\<lambda>r. \<not> (hc_bios_owned_semaphore r \<or> \<not> hc_os_owned_semaphore r)) h
       }
     }
   }"

section \<open>Initialization\<close>

definition RegisterCommandRing :: "'h mmio \<Rightarrow> Ring \<Rightarrow> 'h \<Rightarrow> 'h \<times> Code" where
  "RegisterCommandRing W rg h =
     (let (v, h) = mm_read W CRCR h;
          v = put_field 1 0 1 v;
          v = put_field 1 1 0 v;
          v = put_field 1 2 0 v;
          v = CRCR_SetPointer (rg_buf rg) v
      in (mm_write W CRCR v h, kSuccess))"

text \<open>The buffers the controller wants for itself; the array of their addresses is the first entry of the array of contexts.\<close>

fun scratchpads :: "nat \<Rightarrow> usbmem \<Rightarrow> u64 list \<times> usbmem" where
  "scratchpads 0 um = ([], um)"
| "scratchpads (Suc n) um = (let (um, p) = AllocMem 4096 4096 4096 um; (ps, um) = scratchpads n um in (p # ps, um))"

definition alloc_scratchpads :: "u32 \<Rightarrow> 'h xhci \<Rightarrow> ('h xhci \<times> u64 list) option" where
  "alloc_scratchpads hcsparams2 x =
     (let max_scratchpad_buffers = (ucast (max_scratchpad_buffers_low hcsparams2 OR push_bit 5 (max_scratchpad_buffers_high hcsparams2)) :: u16)
      in if max_scratchpad_buffers > 0
         then
           (let (um, arr) = AllocArray 8 (ucast max_scratchpad_buffers) 64 4096 (us_um (xc_usb x))
            in if arr = 0 then None
               else do {
                 let (ps, um) = scratchpads (unat max_scratchpad_buffers) um;
                 dc \<leftarrow> aset (xc_dcbaa x) 0 arr;
                 Some (x\<lparr>xc_usb := (xc_usb x)\<lparr>us_um := um\<rparr>, xc_dcbaa := dc\<rparr>, ps)
               })
         else Some (x, []))"

text \<open>Halting and resetting.\<close>

definition halt_and_reset :: "'h mmio \<Rightarrow> 'h \<Rightarrow> 'h option" where
  "halt_and_reset W h = do {
     let (usbcmd, h) = Read32 W USBCMD h;
     let usbcmd = set_enable_wrap_event False (set_host_system_error_enable False (set_interrupter_enable False usbcmd));
     let (sts, h) = Read32 W USBSTS h;
     let usbcmd = (if \<not> host_controller_halted sts then set_run_stop False usbcmd else usbcmd);
     let h = Write32 W USBCMD usbcmd h;
     h \<leftarrow> poll W USBSTS host_controller_halted h;
     let (usbcmd, h) = Read32 W USBCMD h;
     let h = Write32 W USBCMD (set_host_controller_reset True usbcmd) h;
     h \<leftarrow> poll W USBCMD (\<lambda>v. \<not> host_controller_reset v) h;
     poll W USBSTS (\<lambda>v. \<not> controller_not_ready v) h
   }"

definition IMAN_enable :: "u32 \<Rightarrow> u32" where
  "IMAN_enable v = put_field 1 1 1 (put_field 1 0 1 v)"

text \<open>The two rings, and the interrupt.\<close>

definition setup_rings :: "'h mmio \<Rightarrow> interrupter \<Rightarrow> 'h xhci \<Rightarrow> 'h xhci \<times> Code" where
  "setup_rings W primary_interrupter x =
     (let (cr, um, m, err) = Ring_Initialize 32 (xc_cr x) (us_um (xc_usb x)) (us_trbs (xc_usb x));
          x = x\<lparr>xc_cr := cr, xc_usb := (xc_usb x)\<lparr>us_um := um, us_trbs := m\<rparr>\<rparr>
      in if is_error err then (x, err)
         else
           (let (h, err) = RegisterCommandRing W (xc_cr x) (xc_hw x);
                x = x\<lparr>xc_hw := h\<rparr>
            in if is_error err then (x, err)
               else
                 (let (er, um, m, err) = EventRing_Initialize 32 primary_interrupter (xc_er x) (us_um (xc_usb x)) (us_trbs (xc_usb x));
                      x = x\<lparr>xc_er := er, xc_usb := (xc_usb x)\<lparr>us_um := um, us_trbs := m\<rparr>\<rparr>
                  in if is_error err then (x, err)
                     else
                       (let i = er_interrupter (xc_er x);
                            x = x\<lparr>xc_er := (xc_er x)\<lparr>er_interrupter := i\<lparr>ir_IMAN := IMAN_enable (ir_IMAN i)\<rparr>\<rparr>\<rparr>;
                            (usbcmd, h) = Read32 W USBCMD (xc_hw x);
                            h = Write32 W USBCMD (set_interrupter_enable True usbcmd) h
                        in (x\<lparr>xc_hw := h\<rparr>, kSuccess)))))"

definition Controller_Initialize :: "'h mmio \<Rightarrow> u64 \<Rightarrow> interrupter \<Rightarrow> 'h xhci \<Rightarrow> ('h xhci \<times> Code) option" where
  "Controller_Initialize W mmio_base primary_interrupter x =
     (let (x, err) = DeviceManager_Initialize kDeviceSize x
      in if is_error err then Some (x, err)
         else do {
           let (hccp, h) = Read32 W HCCPARAMS1 (xc_hw x);
           h \<leftarrow> RequestHCOwnership W mmio_base hccp h;
           h \<leftarrow> halt_and_reset W h;
           let (_, h) = Read32 W HCSPARAMS1 h;
           let (config, h) = Read32 W CONFIG h;
           let h = Write32 W CONFIG (set_max_device_slots_enabled (ucast kDeviceSize) config) h;
           let (hcsparams2, h) = Read32 W HCSPARAMS2 h;
           (x, _) \<leftarrow> alloc_scratchpads hcsparams2 (x\<lparr>xc_hw := h\<rparr>);
           let x = x\<lparr>xc_hw := mm_write W DCBAAP (DCBAAP_SetPointer (xc_dcbaa_addr x) 0) (xc_hw x)\<rparr>;
           Some (setup_rings W primary_interrupter x)
         })"

definition Controller_Run :: "'h mmio \<Rightarrow> 'h xhci \<Rightarrow> ('h xhci \<times> Code) option" where
  "Controller_Run W x = do {
     let (usbcmd, h) = Read32 W USBCMD (xc_hw x);
     let h = Write32 W USBCMD (set_run_stop True usbcmd) h;
     let (_, h) = Read32 W USBCMD h;
     h \<leftarrow> poll W USBSTS (\<lambda>v. \<not> host_controller_halted v) h;
     Some (x\<lparr>xc_hw := h\<rparr>, kSuccess)
   }"

section \<open>The order of the accesses\<close>

text \<open>A controller that keeps a record of what is read from it and written to it.\<close>

datatype acc = RD reg u64 | WR reg u64

definition logged :: "'h mmio \<Rightarrow> ('h \<times> acc list) mmio" where
  "logged W = \<lparr>mm_read = (\<lambda>r (h, l). let (v, h) = mm_read W r h in (v, (h, l @ [RD r v]))), mm_write = (\<lambda>r v (h, l). (mm_write W r v h, l @ [WR r v]))\<rparr>"

definition accs :: "('h \<times> acc list) \<Rightarrow> ('h \<times> acc list) \<Rightarrow> acc list \<Rightarrow> bool" where
  "accs s s' l \<longleftrightarrow> snd s' = snd s @ l"

lemma accs_trans: "accs s s' l \<Longrightarrow> accs s' s'' l' \<Longrightarrow> accs s s'' (l @ l')"
  by (simp add: accs_def)

lemma Read32_logged: "Read32 (logged W) r s = (v, s') \<Longrightarrow> \<exists>x. accs s s' [RD r x] \<and> v = ucast x"
  by (auto simp: Read32_def logged_def accs_def split: prod.splits)

lemma Write32_logged: "accs s (Write32 (logged W) r v s) [WR r (ucast v)]"
  by (auto simp: Write32_def logged_def accs_def split: prod.splits)

definition polled :: "reg \<Rightarrow> (u32 \<Rightarrow> bool) \<Rightarrow> acc list \<Rightarrow> bool" where
  "polled r P l \<longleftrightarrow> (\<exists>vs v. l = map (RD r) vs @ [RD r v] \<and> P (ucast v) \<and> (\<forall>v \<in> set vs. \<not> P (ucast v)))"

lemma poll_logged:
  assumes "poll (logged W) r P s = Some s'"
  shows "\<exists>l. accs s s' l \<and> polled r P l"
proof -
  let ?Q = "\<lambda>W r P s s'. \<forall>W0. W = logged W0 \<longrightarrow> (\<exists>l. accs s s' l \<and> polled r P l)"
  have st: "?Q W r P s s'" if ih: "\<And>W r P s s'. f W r P s = Some s' \<Longrightarrow> ?Q W r P s s'" and eq: "(let (v, h) = Read32 W r s in if P v then Some h else f W r P h) = Some s'"
    for f :: "('a \<times> acc list) mmio \<Rightarrow> reg \<Rightarrow> (u32 \<Rightarrow> bool) \<Rightarrow> 'a \<times> acc list \<Rightarrow> ('a \<times> acc list) option" and W r P s s'
  proof (intro allI impI)
    fix W0 assume W: "W = logged W0"
    obtain v h where R: "Read32 W r s = (v, h)" by (cases "Read32 W r s")
    obtain a where a: "accs s h [RD r a]" "v = ucast a" using Read32_logged [OF R [unfolded W]] by blast
    show "\<exists>l. accs s s' l \<and> polled r P l"
    proof (cases "P v")
      case True
      then have "s' = h" using eq R by simp
      moreover have "polled r P [RD r a]" unfolding polled_def using True a(2) by (intro exI [of _ "[]"] exI [of _ a]) simp
      ultimately show ?thesis using a(1) by blast
    next
      case False
      then have "f W r P h = Some s'" using eq R by simp
      then obtain l where l: "accs h s' l" "polled r P l" using ih W by blast
      then obtain vs w where "l = map (RD r) vs @ [RD r w]" "P (ucast w)" "\<forall>v \<in> set vs. \<not> P (ucast v)" by (auto simp: polled_def)
      then have "polled r P (RD r a # l)" unfolding polled_def using False a(2) by (intro exI [of _ "a # vs"] exI [of _ w]) simp
      then show ?thesis using accs_trans [OF a(1) l(1)] by auto
    qed
  qed
  have "?Q (logged W) r P s s'"
    by (rule poll.raw_induct [of ?Q "logged W" r P s s']) (rule st, assumption, assumption, simp add: assms)
  then show ?thesis by blast
qed

text \<open>Taking over touches the extended registers only.\<close>

definition ext_only :: "acc list \<Rightarrow> bool" where
  "ext_only l \<longleftrightarrow> (\<forall>a \<in> set l. \<exists>p v. a = RD (EXT p) v \<or> a = WR (EXT p) v)"

lemma ext_only_append [simp]: "ext_only (l @ l') \<longleftrightarrow> ext_only l \<and> ext_only l'" "ext_only []" "ext_only [RD (EXT p) v]" "ext_only [WR (EXT p) v]"
  by (auto simp: ext_only_def)

definition ext_run :: "'h \<times> acc list \<Rightarrow> 'h \<times> acc list \<Rightarrow> bool" where
  "ext_run s s' \<longleftrightarrow> (\<exists>l. accs s s' l \<and> ext_only l)"

lemma ext_run_refl: "ext_run s s"
  unfolding ext_run_def accs_def by (intro exI [of _ "[]"]) simp

lemma ext_run_trans: "ext_run s s' \<Longrightarrow> ext_run s' s'' \<Longrightarrow> ext_run s s''"
  unfolding ext_run_def using accs_trans by (metis ext_only_append(1))

lemma ext_read: "Read32 (logged W) (EXT p) s = (v, s') \<Longrightarrow> ext_run s s'"
  using Read32_logged unfolding ext_run_def by (metis ext_only_append(3))

lemma ext_next_run: "ext_next (logged W) p s = (q, s') \<Longrightarrow> ext_run s s'"
  using ext_read [of W p s] by (auto simp: ext_next_def ext_run_refl split: prod.splits if_splits)

lemma find_legsup_run:
  assumes "find_legsup (logged W) p s = Some (q, s')"
  shows "ext_run s s'"
proof -
  let ?Q = "\<lambda>W p s x. \<forall>W0. W = logged W0 \<longrightarrow> ext_run s (snd x)"
  have st: "?Q W p s x" if ih: "\<And>W p s x. f W p s = Some x \<Longrightarrow> ?Q W p s x"
    and eq: "(if p = 0 then Some (0, s) else (let (v, h) = Read32 W (EXT p) s in if ext_capability_id v = 1 then Some (p, h) else (let (r, h) = ext_next W p h in f W r h))) = Some x"
    for f :: "('a \<times> acc list) mmio \<Rightarrow> u64 \<Rightarrow> 'a \<times> acc list \<Rightarrow> (u64 \<times> 'a \<times> acc list) option" and W p s x
  proof (intro allI impI)
    fix W0 assume W: "W = logged W0"
    obtain v h where R: "Read32 W (EXT p) s = (v, h)" by (cases "Read32 W (EXT p) s")
    obtain r g where G: "ext_next W p h = (r, g)" by (cases "ext_next W p h")
    have a: "ext_run s h" "ext_run h g" by (rule ext_read [OF R [unfolded W]], rule ext_next_run [OF G [unfolded W]])
    have "f W r g = Some x \<Longrightarrow> ext_run g (snd x)" using ih [of W r g x] W by blast
    moreover have "x = (0, s) \<or> x = (p, h) \<or> f W r g = Some x" using eq unfolding R by (simp add: G split: if_splits)
    ultimately show "ext_run s (snd x)" using a ext_run_refl [of s] ext_run_trans [OF ext_run_trans [OF a]] by (elim disjE) simp_all
  qed
  have "?Q (logged W) p s (q, s')"
    by (rule find_legsup.raw_induct [of ?Q "logged W" p s "(q, s')"]) (rule st, assumption, assumption, simp add: assms)
  then show ?thesis unfolding snd_conv by blast
qed

lemma RequestHCOwnership_run:
  assumes "RequestHCOwnership (logged W) b hccp s = Some s'"
  shows "ext_run s s'"
proof -
  obtain p h where F: "find_legsup (logged W) (ext_first b hccp) s = Some (p, h)" using assms by (auto simp: RequestHCOwnership_def bind_eq_Some_conv)
  obtain r g where R: "Read32 (logged W) (EXT p) h = (r, g)" by (cases "Read32 (logged W) (EXT p) h")
  let ?w = "Write32 (logged W) (EXT p) (set_hc_os_owned_semaphore r) g"
  have a: "ext_run s h" "ext_run h g" by (rule find_legsup_run [OF F], rule ext_read [OF R])
  have w: "ext_run g ?w" unfolding ext_run_def using Write32_logged by (metis ext_only_append(4))
  define P where "P = (\<lambda>r. \<not> (hc_bios_owned_semaphore r \<or> \<not> hc_os_owned_semaphore r))"
  have "s' = h \<or> s' = g \<or> poll (logged W) (EXT p) P ?w = Some s'"
    using assms unfolding RequestHCOwnership_def F P_def [symmetric] by (simp add: R split: if_splits)
  moreover have "ext_run ?w s'" if q: "poll (logged W) (EXT p) P ?w = Some s'"
  proof -
    obtain l where l: "accs ?w s' l" "polled (EXT p) P l" using poll_logged [OF q] by blast
    then have "ext_only l" by (auto simp: polled_def ext_only_def)
    then show ?thesis using l(1) unfolding ext_run_def by blast
  qed
  ultimately show ?thesis using a ext_run_trans [OF a] ext_run_trans [OF ext_run_trans [OF ext_run_trans [OF a] w]] by (elim disjE) simp_all
qed

text \<open>The controller is halted before it is reset, and ready after that.\<close>

definition reset_accs :: "acc list \<Rightarrow> bool" where
  "reset_accs l \<longleftrightarrow> (\<exists>c0 s0 a l1 c1 b l2 l3. l = [RD USBCMD c0, RD USBSTS s0, WR USBCMD (ucast (a :: u32))] @ l1 @ [RD USBCMD c1, WR USBCMD (ucast (b :: u32))] @ l2 @ l3 \<and>
     \<not> bit a 2 \<and> (host_controller_halted (ucast s0) \<or> \<not> bit a 0) \<and> polled USBSTS host_controller_halted l1 \<and>
     bit b 1 \<and> polled USBCMD (\<lambda>v. \<not> host_controller_reset v) l2 \<and> polled USBSTS (\<lambda>v. \<not> controller_not_ready v) l3)"

lemma halt_and_reset_accs:
  assumes "halt_and_reset (logged W) s = Some s'"
  shows "\<exists>l. accs s s' l \<and> reset_accs l"
proof -
  obtain c0 s1 where 1: "Read32 (logged W) USBCMD s = (c0, s1)" by (cases "Read32 (logged W) USBCMD s")
  obtain st s2 where 2: "Read32 (logged W) USBSTS s1 = (st, s2)" by (cases "Read32 (logged W) USBSTS s1")
  define a where "a = (let c = set_enable_wrap_event False (set_host_system_error_enable False (set_interrupter_enable False c0)) in if \<not> host_controller_halted st then set_run_stop False c else c)"
  let ?s3 = "Write32 (logged W) USBCMD a s2"
  obtain s4 where 4: "poll (logged W) USBSTS host_controller_halted ?s3 = Some s4"
    using assms 1 2 by (auto simp: halt_and_reset_def bind_eq_Some_conv Let_def a_def)
  obtain c1 s5 where 5: "Read32 (logged W) USBCMD s4 = (c1, s5)" by (cases "Read32 (logged W) USBCMD s4")
  define b where "b = set_host_controller_reset True c1"
  let ?s6 = "Write32 (logged W) USBCMD b s5"
  obtain s7 where 7: "poll (logged W) USBCMD (\<lambda>v. \<not> host_controller_reset v) ?s6 = Some s7" "poll (logged W) USBSTS (\<lambda>v. \<not> controller_not_ready v) s7 = Some s'"
    using assms 1 2 4 5 by (auto simp: halt_and_reset_def bind_eq_Some_conv Let_def a_def b_def)
  obtain v0 v1 v5 where v: "accs s s1 [RD USBCMD v0]" "accs s1 s2 [RD USBSTS v1]" "st = ucast v1" "accs s4 s5 [RD USBCMD v5]"
    using Read32_logged [OF 1] Read32_logged [OF 2] Read32_logged [OF 5] by blast
  obtain l1 l2 l3 where l: "accs ?s3 s4 l1" "polled USBSTS host_controller_halted l1" "accs ?s6 s7 l2" "polled USBCMD (\<lambda>v. \<not> host_controller_reset v) l2"
    "accs s7 s' l3" "polled USBSTS (\<lambda>v. \<not> controller_not_ready v) l3"
    using poll_logged [OF 4] poll_logged [OF 7(1)] poll_logged [OF 7(2)] by blast
  have "accs s s' ([RD USBCMD v0, RD USBSTS v1, WR USBCMD (ucast a)] @ l1 @ [RD USBCMD v5, WR USBCMD (ucast b)] @ l2 @ l3)"
    using v(1,2,4) l(1,3,5) Write32_logged [of s2 W USBCMD a] Write32_logged [of s5 W USBCMD b] by (simp add: accs_def)
  moreover have "\<not> bit a 2" "host_controller_halted (ucast v1) \<or> \<not> bit a 0" "bit b 1" using v(3)
    by (auto simp: a_def b_def set_enable_wrap_event_def set_host_system_error_enable_def set_interrupter_enable_def set_run_stop_def set_host_controller_reset_def bit_put_field Let_def)
  ultimately show ?thesis unfolding reset_accs_def using l(2,4,6) by blast
qed

text \<open>The rest: the number of slots, the contexts, the command ring, and at last the interrupt.\<close>

lemma alloc_scratchpads_hw: "alloc_scratchpads v x = Some (x', ps) \<Longrightarrow> xc_hw x' = xc_hw x \<and> xc_dcbaa_addr x' = xc_dcbaa_addr x"
  by (auto simp: alloc_scratchpads_def bind_eq_Some_conv Let_def split: if_splits prod.splits)

lemma setup_rings_accs:
  assumes "setup_rings (logged W) i x = (x', kSuccess)"
  shows "\<exists>v u f. accs (xc_hw x) (xc_hw x') [RD CRCR v, WR CRCR (CRCR_SetPointer (rg_buf (xc_cr x')) (put_field 1 2 0 (put_field 1 1 0 (put_field 1 0 1 v)))),
      RD USBCMD u, WR USBCMD (ucast (f :: u32))] \<and> bit f 2 \<and> rg_buf (xc_cr x') \<noteq> 0 \<and> bit (ir_IMAN (er_interrupter (xc_er x'))) 1"
proof -
  obtain cr um m e where R: "Ring_Initialize 32 (xc_cr x) (us_um (xc_usb x)) (us_trbs (xc_usb x)) = (cr, um, m, e)" by (cases "Ring_Initialize 32 (xc_cr x) (us_um (xc_usb x)) (us_trbs (xc_usb x))")
  have e: "e = kSuccess" using assms R by (auto simp: setup_rings_def is_error_def Let_def split: if_splits)
  then have b: "rg_buf cr \<noteq> 0" using R by (auto simp: Ring_Initialize_def Let_def split: if_splits prod.splits)
  obtain h l where hl: "xc_hw x = (h, l)" by (cases "xc_hw x")
  obtain v h1 where v: "mm_read W CRCR h = (v, h1)" by (cases "mm_read W CRCR h")
  let ?w = "CRCR_SetPointer (rg_buf cr) (put_field 1 2 0 (put_field 1 1 0 (put_field 1 0 1 v)))"
  have C: "RegisterCommandRing (logged W) cr (xc_hw x) = ((mm_write W CRCR ?w h1, l @ [RD CRCR v, WR CRCR ?w]), kSuccess)" (is "_ = (?h, _)")
    by (simp add: RegisterCommandRing_def logged_def hl v Let_def)
  obtain er um' m' e' where E: "EventRing_Initialize 32 i (xc_er x) um m = (er, um', m', e')" by (cases "EventRing_Initialize 32 i (xc_er x) um m")
  have e': "e' = kSuccess" using assms R e C E by (auto simp: setup_rings_def is_error_def Let_def split: if_splits)
  obtain u s where u: "Read32 (logged W) USBCMD ?h = (u, s)" by (cases "Read32 (logged W) USBCMD ?h")
  obtain uv where uv: "accs ?h s [RD USBCMD uv]" using Read32_logged [OF u] by blast
  have X: "xc_hw x' = Write32 (logged W) USBCMD (set_interrupter_enable True u) s" "xc_cr x' = cr" "bit (ir_IMAN (er_interrupter (xc_er x'))) 1"
    using assms R e C E e' u by (auto simp: setup_rings_def is_error_def Let_def IMAN_enable_def bit_put_field)
  have "accs (xc_hw x) (xc_hw x') [RD CRCR v, WR CRCR ?w, RD USBCMD uv, WR USBCMD (ucast (set_interrupter_enable True u))]"
    using uv Write32_logged [of s W USBCMD "set_interrupter_enable True u"] unfolding X(1) by (simp add: accs_def hl)
  moreover have "bit (set_interrupter_enable True u) 2" by (simp add: set_interrupter_enable_def bit_put_field)
  ultimately show ?thesis using X b by blast
qed

lemma setup_rings_dcbaa: "setup_rings W i x = (x', c) \<Longrightarrow> xc_dcbaa_addr x' = xc_dcbaa_addr x"
  by (auto simp: setup_rings_def Let_def split: prod.splits if_splits)

lemma DeviceManager_hw: "DeviceManager_Initialize n x = (x', c) \<Longrightarrow> xc_hw x' = xc_hw x"
  by (auto simp: DeviceManager_Initialize_def Let_def split: prod.splits if_splits)

lemma DCBAAP_low:
  assumes "unat p < 2 ^ 32" "take_bit 6 p = 0"
  shows "DCBAAP_SetPointer p 0 = p"
proof (rule bit_eqI)
  fix n assume "possible_bit TYPE(64 word) n"
  then have n: "n < 64" by (simp add: possible_bit_word)
  have lo: "n < 6 \<Longrightarrow> \<not> bit p n" using assms(2) by (metis bit_0_eq bit_take_bit_iff bot_apply bot_bool_def)
  have "take_bit 32 p = p" using assms(1) by (simp add: word_unat_eq_iff unsigned_take_bit_eq take_bit_nat_eq_self)
  then have hi: "32 \<le> n \<Longrightarrow> \<not> bit p n" by (metis bit_take_bit_iff not_less)
  show "bit (DCBAAP_SetPointer p 0) n \<longleftrightarrow> bit p n" using n lo hi by (cases "n < 6") (auto simp: DCBAAP_SetPointer_def bit_put_field bit_simps)
qed

text \<open>
  C29: The host controller is initialized in the order the hardware asks for, whatever it answers: after the hand-over, which touches the extended registers only, it is told to stop with its interrupts disabled
  and is seen halted, then it is reset and seen out of the reset and ready, and only then the number of slots, the array of contexts and the command ring
  are written, once each; the interrupt is enabled last. The array of contexts gets through to the register when it lies below 4 GiB.
\<close>

theorem Controller_Initialize_order:
  assumes "Controller_Initialize (logged W) b i x = Some (x', kSuccess)"
  shows "\<exists>v0 own rst v1 v2 c v3 d v4 v5 f. accs (xc_hw x) (xc_hw x') ([RD HCCPARAMS1 v0] @ own @ rst @
      [RD HCSPARAMS1 v1, RD CONFIG v2, WR CONFIG (ucast (c :: u32)), RD HCSPARAMS2 v3, WR DCBAAP d, RD CRCR v4,
       WR CRCR (CRCR_SetPointer (rg_buf (xc_cr x')) (put_field 1 2 0 (put_field 1 1 0 (put_field 1 0 1 v4)))), RD USBCMD v5, WR USBCMD (ucast (f :: u32))]) \<and>
    ext_only own \<and> reset_accs rst \<and> get_field 8 0 c = 8 \<and> (unat (xc_dcbaa_addr x') < 2 ^ 32 \<and> take_bit 6 (xc_dcbaa_addr x') = 0 \<longrightarrow> d = xc_dcbaa_addr x') \<and> bit f 2"
proof -
  obtain x1 e where 1: "DeviceManager_Initialize kDeviceSize x = (x1, e)" by (cases "DeviceManager_Initialize kDeviceSize x")
  have e: "e = kSuccess" using assms 1 by (auto simp: Controller_Initialize_def is_error_def split: if_splits)
  have hw1: "xc_hw x1 = xc_hw x" by (rule DeviceManager_hw [OF 1])
  obtain hccp h1 where 2: "Read32 (logged W) HCCPARAMS1 (xc_hw x) = (hccp, h1)" by (cases "Read32 (logged W) HCCPARAMS1 (xc_hw x)")
  obtain h2 h3 where 3: "RequestHCOwnership (logged W) b hccp h1 = Some h2" "halt_and_reset (logged W) h2 = Some h3"
    using assms 1 e 2 hw1 by (auto simp: Controller_Initialize_def is_error_def bind_eq_Some_conv)
  obtain p1 h4 where 4: "Read32 (logged W) HCSPARAMS1 h3 = (p1, h4)" by (cases "Read32 (logged W) HCSPARAMS1 h3")
  obtain cf h5 where 5: "Read32 (logged W) CONFIG h4 = (cf, h5)" by (cases "Read32 (logged W) CONFIG h4")
  define c where "c = set_max_device_slots_enabled (ucast kDeviceSize) cf"
  obtain p2 h7 where 7: "Read32 (logged W) HCSPARAMS2 (Write32 (logged W) CONFIG c h5) = (p2, h7)" by (cases "Read32 (logged W) HCSPARAMS2 (Write32 (logged W) CONFIG c h5)")
  obtain x2 ps where 8: "alloc_scratchpads p2 (x1\<lparr>xc_hw := h7\<rparr>) = Some (x2, ps)"
    using assms 1 e 2 hw1 3 4 5 7 by (auto simp: Controller_Initialize_def is_error_def bind_eq_Some_conv c_def)
  let ?d = "DCBAAP_SetPointer (xc_dcbaa_addr x2) 0"
  let ?x3 = "x2\<lparr>xc_hw := mm_write (logged W) DCBAAP ?d (xc_hw x2)\<rparr>"
  have 9: "setup_rings (logged W) i ?x3 = (x', kSuccess)"
    using assms 1 e 2 hw1 3 4 5 7 8 by (simp add: Controller_Initialize_def is_error_def c_def)
  obtain v0 v1 v2 v3 where v: "accs (xc_hw x) h1 [RD HCCPARAMS1 v0]" "accs h3 h4 [RD HCSPARAMS1 v1]" "accs h4 h5 [RD CONFIG v2]"
    "accs (Write32 (logged W) CONFIG c h5) h7 [RD HCSPARAMS2 v3]"
    using Read32_logged [OF 2] Read32_logged [OF 4] Read32_logged [OF 5] Read32_logged [OF 7] by blast
  obtain own where own: "accs h1 h2 own" "ext_only own" using RequestHCOwnership_run [OF 3(1)] by (auto simp: ext_run_def)
  obtain rst where rst: "accs h2 h3 rst" "reset_accs rst" using halt_and_reset_accs [OF 3(2)] by blast
  obtain v4 v5 f where S: "accs (xc_hw ?x3) (xc_hw x') [RD CRCR v4, WR CRCR (CRCR_SetPointer (rg_buf (xc_cr x')) (put_field 1 2 0 (put_field 1 1 0 (put_field 1 0 1 v4)))),
      RD USBCMD v5, WR USBCMD (ucast (f :: u32))]" "bit f 2" using setup_rings_accs [OF 9] by blast
  have x2: "xc_hw x2 = h7" using alloc_scratchpads_hw [OF 8] by simp
  have dc: "accs h7 (xc_hw ?x3) [WR DCBAAP ?d]" unfolding x2 by (cases h7) (simp add: accs_def logged_def x2)
  have "accs (xc_hw x) (xc_hw x') ([RD HCCPARAMS1 v0] @ own @ rst @
      [RD HCSPARAMS1 v1, RD CONFIG v2, WR CONFIG (ucast c), RD HCSPARAMS2 v3, WR DCBAAP ?d, RD CRCR v4,
       WR CRCR (CRCR_SetPointer (rg_buf (xc_cr x')) (put_field 1 2 0 (put_field 1 1 0 (put_field 1 0 1 v4)))), RD USBCMD v5, WR USBCMD (ucast f)])"
    using v own(1) rst(1) S(1) dc Write32_logged [of h5 W CONFIG c] unfolding accs_def by (simp del: xhci.simps)
  moreover have "get_field 8 0 c = 8" by (simp add: c_def set_max_device_slots_enabled_def get_put_field kDeviceSize_def)
  moreover have "unat (xc_dcbaa_addr x') < 2 ^ 32 \<and> take_bit 6 (xc_dcbaa_addr x') = 0 \<longrightarrow> ?d = xc_dcbaa_addr x'"
    using DCBAAP_low [of "xc_dcbaa_addr x2"] setup_rings_dcbaa [OF 9] by simp
  ultimately show ?thesis using own(2) rst(2) S(2) by blast
qed


text \<open>A controller without extended registers and scratchpads that is always halted and ready.\<close>

definition idle_mmio :: "unit mmio" where
  "idle_mmio = \<lparr>mm_read = (\<lambda>r h. (if r = USBSTS then 1 else 0, h)), mm_write = (\<lambda>r v h. h)\<rparr>"

definition idle_int :: interrupter where
  "idle_int = \<lparr>ir_IMAN = 0, ir_ERSTSZ = 0, ir_ERSTBA = 0, ir_ERDP = 0\<rparr>"

definition idle_xhci :: "(unit \<times> acc list) xhci" where
  "idle_xhci = \<lparr>xc_hw = ((), []), xc_usb = mouse_usb\<lparr>us_um := \<lparr>um_pool = 0x100000, um_alloc_ptr = 0x100000\<rparr>\<rparr>, xc_max_ports = 4, xc_max_slots = 0, xc_devices = [], xc_dcbaa_addr = 0,
     xc_dcbaa = [], xc_cr = Ring_null, xc_er = \<lparr>er_buf = 0, er_buf_size = 0, er_cycle_bit = False, er_erst = 0, er_segment_base = 0, er_segment_size = 0, er_interrupter = idle_int\<rparr>,
     xc_phase = (\<lambda>p. kNotConnected), xc_addressing_port = 0\<rparr>"

lemma idle_allocs:
  "AllocArray 8 9 0 0 \<lparr>um_pool = 0x100000, um_alloc_ptr = 0x100000\<rparr> = (\<lparr>um_pool = 0x100000, um_alloc_ptr = 0x100048\<rparr>, 0x100000)"
  "AllocArray 8 9 64 4096 \<lparr>um_pool = 0x100000, um_alloc_ptr = 0x100048\<rparr> = (\<lparr>um_pool = 0x100000, um_alloc_ptr = 0x1000c8\<rparr>, 0x100080)"
  "AllocArray 16 32 64 65536 \<lparr>um_pool = 0x100000, um_alloc_ptr = 0x1000c8\<rparr> = (\<lparr>um_pool = 0x100000, um_alloc_ptr = 0x100300\<rparr>, 0x100100)"
  "AllocArray 16 32 64 65536 \<lparr>um_pool = 0x100000, um_alloc_ptr = 0x100300\<rparr> = (\<lparr>um_pool = 0x100000, um_alloc_ptr = 0x100500\<rparr>, 0x100300)"
  "AllocArray 16 1 64 65536 \<lparr>um_pool = 0x100000, um_alloc_ptr = 0x100500\<rparr> = (\<lparr>um_pool = 0x100000, um_alloc_ptr = 0x100510\<rparr>, 0x100500)"
  by code_simp+

lemma idle_access:
  "Read32 (logged idle_mmio) r ((), l) = (if r = USBSTS then 1 else 0, ((), l @ [RD r (if r = USBSTS then 1 else 0)]))"
  "Write32 (logged idle_mmio) r v ((), l) = ((), l @ [WR r (ucast v)])" "mm_write (logged idle_mmio) r w ((), l) = ((), l @ [WR r w])"
  "mm_read (logged idle_mmio) CRCR ((), l) = (0, ((), l @ [RD CRCR 0]))"
  by (simp_all add: Read32_def Write32_def logged_def idle_mmio_def)

lemma idle_poll: "P (if r = USBSTS then 1 else 0) \<Longrightarrow> poll (logged idle_mmio) r P ((), l) = Some ((), l @ [RD r (if r = USBSTS then 1 else 0)])"
  by (subst poll.simps) (simp add: idle_access)

lemma idle_reset: "\<exists>l'. halt_and_reset (logged idle_mmio) ((), l) = Some ((), l')"
  by (simp add: halt_and_reset_def idle_access idle_poll host_controller_halted_def host_controller_reset_def controller_not_ready_def Let_def bit_1_iff)

lemma idle_run: "\<exists>x'. Controller_Initialize (logged idle_mmio) 0 idle_int idle_xhci = Some (x', kSuccess)"
proof -
  let ?v = "idle_xhci\<lparr>xc_max_slots := 8, xc_usb := mouse_usb\<lparr>us_um := \<lparr>um_pool = 0x100000, um_alloc_ptr = 0x1000c8\<rparr>\<rparr>, xc_dcbaa_addr := 0x100080, xc_devices := replicate 9 None, xc_dcbaa := replicate 9 0\<rparr>"
  have D: "DeviceManager_Initialize kDeviceSize idle_xhci = (?v, kSuccess)"
    by (simp add: DeviceManager_Initialize_def idle_xhci_def kDeviceSize_def idle_allocs Let_def)
  have own: "RequestHCOwnership (logged idle_mmio) 0 0 ((), l) = Some ((), l)" for l
    by (simp add: RequestHCOwnership_def ext_first_def AddOrNull_def xhci_extended_capabilities_pointer_def get_field_def) (subst find_legsup.simps, simp)
  have sp: "alloc_scratchpads 0 x = Some (x, [])" for x :: "(unit \<times> acc list) xhci"
    by (simp add: alloc_scratchpads_def max_scratchpad_buffers_low_def max_scratchpad_buffers_high_def get_field_def)
  have rings: "\<exists>x'. setup_rings (logged idle_mmio) idle_int (?v\<lparr>xc_hw := ((), l)\<rparr>) = (x', kSuccess)" for l
    by (simp add: setup_rings_def Ring_Initialize_def EventRing_Initialize_def RegisterCommandRing_def WriteDequeuePointer_def idle_xhci_def Ring_null_def idle_allocs idle_access is_error_def Let_def)
  obtain l1 where l1: "halt_and_reset (logged idle_mmio) ((), [RD HCCPARAMS1 0]) = Some ((), l1)" using idle_reset by blast
  have hw: "xc_hw ?v = ((), [])" by (simp add: idle_xhci_def)
  show ?thesis unfolding Controller_Initialize_def D using rings
    by (simp add: is_error_def hw idle_access own l1 sp Let_def)
qed

theorem Controller_Initialize_order_witness:
  "\<exists>x' l f. Controller_Initialize (logged idle_mmio) 0 idle_int idle_xhci = Some (x', kSuccess) \<and> accs (xc_hw idle_xhci) (xc_hw x') (l @ [WR USBCMD (ucast (f :: u32))]) \<and> bit f 2"
proof -
  obtain x' where R: "Controller_Initialize (logged idle_mmio) 0 idle_int idle_xhci = Some (x', kSuccess)" using idle_run by blast
  obtain l f where "accs (xc_hw idle_xhci) (xc_hw x') (l @ [WR USBCMD (ucast (f :: u32))])" "bit f 2"
    using Controller_Initialize_order [OF R] by (metis (no_types, opaque_lifting) append.assoc append_Cons append_Nil)
  with R show ?thesis by blast
qed

end
