(* ===== verification/Spec2Isabelle.thy ===== *)
theory Spec2Isabelle
  imports HeapTable Arith64 Paging TextMode Path Kernel Frames Paging64 Segment64 Pci XhciInit
begin

text \<open>
  \<^bold>\<open>A verification development for Unagi OS.\<close> The repository holds a 32-bit kernel in C (all of
  \<^verbatim>\<open>src/src/**/*.c\<close>) with its headers, a younger 64-bit kernel in C++ and its UEFI loader. The theories model the 32-bit
  kernel, every C file of it but the two listed at the end, and of the 64-bit kernel the memory management, the
  descriptor tables, the PCI bus and the USB stack, function by function.

  \<^bold>\<open>How the program works.\<close> \<^verbatim>\<open>kernel_main\<close> sets up the interrupt table, the timer, the input controller, the screen, the heap
  and the window sheets, and then starts three tasks. An interrupt of the keyboard or the mouse puts a
  byte into a FIFO; the event loop takes it out, moves the pointer and the sheets, or forwards a key to the FIFO of the console. The
  timer interrupt fires the timers that are due, each of which puts its data into a FIFO, and switches tasks. A FIFO wakes the task that waits for it.
  \<^verbatim>\<open>KernelMain\<close> of the 64-bit kernel sets up segments, page tables and the frame allocator, searches the PCI buses for a USB host
  controller, points its message signalled interrupts at the interrupt table and starts the controller. Each of its events takes a port one
  step further (reset, slot, address, descriptors, endpoints) until the class driver of a keyboard or a mouse delivers the reports of the device.

  \<^bold>\<open>The theories\<close>, with the sources they model:
  \<^item> \<open>Prelude\<close>: machine integers (\<open>u8\<close> to \<open>u64\<close> are words; \<^verbatim>\<open>int32_t\<close> is \<open>int\<close> with \<open>i32\<close> wrapping the result of arithmetic),
    arrays with bounds checks (\<open>aget\<close>, \<open>aset\<close>: an access outside is \<open>None\<close>), loops over the option monad, \<^verbatim>\<open>config.h\<close>, \<^verbatim>\<open>status.h\<close>.
  \<^item> \<open>Dlist\<close> (\<^verbatim>\<open>util/dlist.{h,c}\<close>), \<open>Fifo\<close> (\<^verbatim>\<open>util/fifo.{h,c}\<close>), \<open>Kutil\<close> (\<^verbatim>\<open>util/kutil.{h,c}\<close>), \<open>Arith64\<close>
    (\<^verbatim>\<open>util/arith64.c\<close>), \<open>Printf\<close> (\<^verbatim>\<open>util/printf.c\<close>), \<open>Selftest\<close> (\<^verbatim>\<open>test.c\<close> and the test of \<^verbatim>\<open>dlist.c\<close>): the data structures and helpers.
  \<^item> \<open>Allocator\<close> (the interface of a memory allocator), \<open>HeapDL\<close> (\<^verbatim>\<open>memory/heapdl.{h,c}\<close>), \<open>HeapTable\<close> (\<^verbatim>\<open>memory/heap.{h,c}\<close>,
    \<^verbatim>\<open>memory/kheap.{h,c}\<close>), \<open>Memory\<close> (\<^verbatim>\<open>memory/memory.{h,c}\<close>), \<open>Paging\<close> (\<^verbatim>\<open>memory/paging/paging.{h,c}\<close>).
  \<^item> \<open>Machine\<close> (\<^verbatim>\<open>io/io.{h,c}\<close>, \<^verbatim>\<open>pic/pic.c\<close>): the processor is a record with its flags, table registers and a log of the port accesses;
    \<open>Gdt\<close> (\<^verbatim>\<open>gdt/gdt.{h,c}\<close>), \<open>Idt\<close> (\<^verbatim>\<open>idt/idt.{h,c}\<close>), \<open>Input\<close> (\<^verbatim>\<open>drivers/keyboard.c\<close>, \<^verbatim>\<open>ps2mouse.c\<close>, \<^verbatim>\<open>ps2kbc.{h,c}\<close>), \<open>Disk\<close>
    (\<^verbatim>\<open>disk/disk.{h,c}\<close>, \<^verbatim>\<open>disk/dstream.{h,c}\<close>). What a device answers to a port read is a parameter.
  \<^item> \<open>Process\<close> (\<^verbatim>\<open>kernel/process.{h,c}\<close>), \<open>Timer\<close> (\<^verbatim>\<open>pic/timer.{h,c}\<close>), \<open>Sched\<close> (\<^verbatim>\<open>kernel/mprocessfifo.{h,c}\<close> and the parts of the
    two that work together): the record \<open>kernel\<close> holds the globals of these files.
  \<^item> \<open>Graphics\<close> and \<open>Window\<close> (\<^verbatim>\<open>drivers/graphic/videomode.{h,c}\<close>, \<^verbatim>\<open>font/hankaku.c\<close>, \<^verbatim>\<open>include/uapi/graphic.c\<close>), \<open>Sheet\<close>
    (\<^verbatim>\<open>drivers/graphic/sheet.{h,c}\<close>), \<open>TextMode\<close> (\<^verbatim>\<open>drivers/graphic/colortextmode.c\<close>): drawing into byte memory.
  \<^item> \<open>Path\<close> (\<^verbatim>\<open>fs/pathparser.{h,c}\<close>) and \<open>Kernel\<close> (\<^verbatim>\<open>kernel.c\<close>): the record \<open>kern\<close> is the state of the whole program.
  \<^item> Of the 64-bit kernel: \<open>Queue64\<close> (\<^verbatim>\<open>error.hpp\<close>, \<^verbatim>\<open>queue.hpp\<close>), \<open>Frames\<close> (\<^verbatim>\<open>memory_manager.{hpp,cpp}\<close>, \<^verbatim>\<open>memory_map.{h,hpp}\<close> and the loop of
    \<^verbatim>\<open>main.cpp\<close> over the memory map), \<open>Paging64\<close> (\<^verbatim>\<open>paging.cpp\<close>), \<open>Segment64\<close> (\<^verbatim>\<open>segment.{hpp,cpp}\<close>, \<^verbatim>\<open>interrupt.{hpp,cpp}\<close>,
    \<^verbatim>\<open>x86_descriptor.hpp\<close>), \<open>Pci\<close> (\<^verbatim>\<open>pci.{hpp,cpp}\<close>).
  \<^item> Its USB stack, under \<^verbatim>\<open>usb/\<close>: \<open>UsbMem\<close> (\<^verbatim>\<open>memory.{hpp,cpp}\<close>, \<^verbatim>\<open>arraymap.hpp\<close> and \<^verbatim>\<open>sbrk\<close> of \<^verbatim>\<open>newlib_support.c\<close>), \<open>Bitfields\<close>
    (access to the bit fields of a word), \<open>Xring\<close> (\<^verbatim>\<open>xhci/trb.hpp\<close>, \<^verbatim>\<open>xhci/ring.{hpp,cpp}\<close>), \<open>UsbDesc\<close> (\<^verbatim>\<open>endpoint.hpp\<close>, \<^verbatim>\<open>setupdata.hpp\<close>,
    \<^verbatim>\<open>descriptor.hpp\<close> and the reader of \<^verbatim>\<open>device.cpp\<close>), \<open>UsbDevice\<close> (\<^verbatim>\<open>device.{hpp,cpp}\<close>, \<^verbatim>\<open>xhci/device.{hpp,cpp}\<close>, \<^verbatim>\<open>xhci/context.hpp\<close>,
    \<^verbatim>\<open>classdriver/*\<close>) with its theorems in \<open>UsbEnum\<close>, \<open>Xhci\<close> (\<^verbatim>\<open>xhci/devmgr.cpp\<close>, \<^verbatim>\<open>xhci/port.{hpp,cpp}\<close>, the ports, commands and
    events of \<^verbatim>\<open>xhci/xhci.cpp\<close>) and \<open>XhciInit\<close> (\<^verbatim>\<open>xhci/registers.{hpp,cpp}\<close>, \<^verbatim>\<open>register.hpp\<close>, the start of the controller in \<^verbatim>\<open>xhci/xhci.cpp\<close>).
    What the PCI configuration space and the registers of the controller answer, and the sizes and member offsets the compiler gives
    the classes, are parameters.

  \<^bold>\<open>Conventions.\<close> A C pointer to a structure is an option, an index of the array it points into, or an address in a map, 0 for \<^verbatim>\<open>NULL\<close>;
  each theory says which. A definition returns \<open>None\<close> where the code reads or writes outside an array, follows a null pointer or divides by zero, so a
  theorem whose conclusion is \<open>Some\<close> also says that none of this happens. Names follow the source; a leading underscore is dropped. An endless
  loop of the program is one definition per turn.

  \<^bold>\<open>What is shown.\<close>
  \<^item> Memory: both operations of the chunk heap keep its invariant (the two circular lists, sorted chunks, no two free
    neighbours) and refine a partial map of blocks; the locale \<open>allocator\<close> states this contract, is interpreted by the chunk heap and by \<^verbatim>\<open>kmalloc\<close>, and gives
    that any sequence of calls hands out disjoint blocks. The block table heap is wrong for more than one block, which is proved as such.
  \<^item> Lists and queues: the locale \<open>circular_list\<close> gives the lemmas on rings that the heap, the timers and the self test use; the locale \<open>bounded_queue\<close>
    is the contract of a FIFO, which the ring buffer satisfies.
  \<^item> Scheduling: the timer table and the task levels keep their invariants under every operation; the timer interrupt fires exactly the timers that are due; task
    switching is fair; sleeping and waking keep the levels consistent; where the code loses a timer or a task this is a theorem, too.
  \<^item> Input: a byte goes from the controller to the FIFO (\<open>Idt\<close>) and on to the console (\<open>Kernel\<close>), which wakes the task;
    mouse packets decode to what they encode; the state of the shift keys refines the keys held.
  \<^item> Screen: after an update every point shows the topmost sheet that is not transparent there; moving a sheet refines moving an element of a list; drawing
    and text output write only inside their buffers.
  \<^item> Text: formatted output writes the text of the format, cut to the buffer; printed numbers read back; parsing a path gives the
    names it was joined from; reading a disk stream gives the bytes of the disk.
  \<^item> Memory of the 64-bit kernel: the frame allocator returns the first run of free frames, the loop over the memory map leaves free exactly the available
    regions, the page tables map every address below 2 TiB to itself; the locale \<open>bump_allocator\<close> is the contract of the USB pool and of \<^verbatim>\<open>sbrk\<close>, whose
    interpretations give that the blocks handed out are disjoint, aligned and inside the pool.
  \<^item> PCI: the search ends for every configuration space and lists the functions depth first; message signalled interrupts are set up in the layout the capability has.
  \<^item> USB: the producer ring and the event ring, with the cycle bit that tells new blocks from old ones, refine the sequence of what was pushed and
    what arrived (locale \<open>block_source\<close>); the completion of a control request is matched to this request, its buffer and the bytes transferred; reading the descriptors
    gives the class driver and exactly the endpoints of the first interface a driver knows; key reports become key pushes;
    at any time at most one port is being addressed, and an event refines a step of the port state machine; the controller is halted, reset and given its tables in
    the order the hardware needs.

  \<^bold>\<open>Bounds and termination.\<close> Loops are structural recursion, \<open>function\<close> with a measure, or \<open>partial_function (option)\<close>; for the last the theorems prove that
  a result is returned (the list walks of heap and timers, the disk stream, the path parser, the FIFO self test); a loop that waits for a
  register of a device may not end, and the theorems about it say what holds when it does. The search of the PCI buses, which could go
  around in a cycle of bridges, ends because the table has 32 entries, so the depth 33 given to it is always enough. The code never asks whether a ring of \<open>n\<close> blocks is full; the
  theorem on it therefore has the bound of \<open>n - 2\<close> blocks on the way as a hypothesis. No definition uses fuel that
  cuts a loop of the program short: where a \<open>nat\<close> counts turns, it is the number of turns the source has.

  \<^bold>\<open>Not modelled.\<close> The conversion of floating point numbers in \<^verbatim>\<open>printf.c\<close> (\<^verbatim>\<open>_ftoa\<close>, \<^verbatim>\<open>_etoa\<close>; their texts are parameters of the
  format loop), \<^verbatim>\<open>heap_debug\<close> of \<^verbatim>\<open>test.c\<close> (prints figures, never called), \<^verbatim>\<open>features.c\<close> (not called), the assembly files (their
  effect on the processor is modelled where C code calls them) and the boot sectors; of the 64-bit kernel the rest of \<^verbatim>\<open>main.cpp\<close>, the
  screen, console, pointer and log (\<^verbatim>\<open>graphics.cpp\<close>, \<^verbatim>\<open>font.cpp\<close>, \<^verbatim>\<open>console.cpp\<close>, \<^verbatim>\<open>mouse.cpp\<close>, \<^verbatim>\<open>logger.cpp\<close>), the stubs of
  \<^verbatim>\<open>newlib_support.c\<close> and \<^verbatim>\<open>libcxx_support.cpp\<close>, and the loader \<^verbatim>\<open>UnagiLoaderPkg/efimain.c\<close>, which only calls UEFI services.
\<close>

end
